(* ===== verification/Prelude.thy ===== *)
theory Prelude
  imports "HOL-Library.Word"
begin

text \<open>
  Shared vocabulary of the development: the C++ notion of a byte and of a (signed) char, the
  character classification functions of \<^verbatim>\<open>include/qstring.h\<close> and of the C locale,
  the error sum used by the fallible operations, and the list lemmas and collections the
  component theories share.
\<close>

unbundle bit_operations_syntax

section \<open>Collections\<close>

named_theorems glob_bounds \<open>in-bounds facts of the glob matchers\<close>
named_theorems codec_simps \<open>evaluation rules of the byte codecs\<close>
named_theorems stream_simps \<open>facts about the abstract contents of streams\<close>

section \<open>Bytes and characters\<close>

type_synonym byte = "8 word"

abbreviation code :: "char \<Rightarrow> nat" where
  "code c \<equiv> of_char c"

text \<open>The value of a C++ \<open>char\<close> where it is signed (x86-64): comparisons of chars use it.\<close>

definition schar :: "char \<Rightarrow> int" where
  "schar c = (if code c < 128 then int (code c) else int (code c) - 256)"

lemma schar_less_eq_ascii [simp]:
  "code c < 128 \<Longrightarrow> code d < 128 \<Longrightarrow> schar c \<le> schar d \<longleftrightarrow> code c \<le> code d"
  by (simp add: schar_def)

lemma code_less_256: "code c < 256"
  by simp

text \<open>\<open>std::tolower\<close>, \<open>std::isdigit\<close> and \<open>std::isalpha\<close> of the C locale.\<close>

definition c_tolower :: "char \<Rightarrow> char" where
  "c_tolower c = (if 65 \<le> code c \<and> code c \<le> 90 then char_of (code c + 32) else c)"

definition c_isdigit :: "char \<Rightarrow> bool" where
  "c_isdigit c \<longleftrightarrow> 48 \<le> code c \<and> code c \<le> 57"

definition c_isalpha :: "char \<Rightarrow> bool" where
  "c_isalpha c \<longleftrightarrow> (65 \<le> code c \<and> code c \<le> 90) \<or> (97 \<le> code c \<and> code c \<le> 122)"

section \<open>Decimal numerals\<close>

definition digit_char :: "nat \<Rightarrow> char" where
  "digit_char n = char_of (48 + n)"

definition digit_val :: "char \<Rightarrow> nat" where
  "digit_val c = code c - 48"

text \<open>\<open>std::to_string\<close> and \<open>%d\<close> on a non-negative number.\<close>

fun nat_to_string :: "nat \<Rightarrow> string" where
  "nat_to_string n =
     (if n < 10 then [digit_char n] else nat_to_string (n div 10) @ [digit_char (n mod 10)])"

declare nat_to_string.simps [simp del]

text \<open>The number a string of decimal digits denotes.\<close>

definition digits_to_nat :: "string \<Rightarrow> nat" where
  "digits_to_nat s = foldl (\<lambda>n c. 10 * n + digit_val c) 0 s"

lemma code_digit_char: "n < 10 \<Longrightarrow> code (digit_char n) = 48 + n"
  by (simp add: digit_char_def)

lemma digit_val_digit_char [simp]: "n < 10 \<Longrightarrow> digit_val (digit_char n) = n"
  by (simp add: digit_val_def code_digit_char)

lemma c_isdigit_digit_char [simp]: "n < 10 \<Longrightarrow> c_isdigit (digit_char n)"
  by (simp add: c_isdigit_def code_digit_char)

lemma digits_to_nat_snoc [simp]: "digits_to_nat (s @ [c]) = 10 * digits_to_nat s + digit_val c"
  by (simp add: digits_to_nat_def)

lemma digits_to_nat_Nil [simp]: "digits_to_nat [] = 0"
  by (simp add: digits_to_nat_def)

lemma nat_to_string_not_Nil [simp]: "nat_to_string n \<noteq> []"
  by (subst nat_to_string.simps) simp

lemma nat_to_string_digits: "c \<in> set (nat_to_string n) \<Longrightarrow> c_isdigit c"
proof (induction n rule: nat_to_string.induct)
  case (1 n)
  then show ?case
    by (cases "n < 10") (auto simp: nat_to_string.simps [of n])
qed

lemma digits_to_nat_to_string [simp]: "digits_to_nat (nat_to_string n) = n"
proof (induction n rule: nat_to_string.induct)
  case (1 n)
  show ?case
  proof (cases "n < 10")
    case True
    then show ?thesis
      by (simp add: nat_to_string.simps [of n] digits_to_nat_def)
  next
    case False
    with 1 show ?thesis
      by (simp add: nat_to_string.simps [of n])
  qed
qed

lemma nat_to_string_inject: "nat_to_string m = nat_to_string n \<longleftrightarrow> m = n"
  using digits_to_nat_to_string by metis

section \<open>Errors as values\<close>

text \<open>
  A fallible operation returns \<open>'e + 'a\<close>: \<open>Inl\<close> the error, \<open>Inr\<close> the result. \<open>collect\<close> runs a
  list of results from left to right and stops at the first error, as a C++ exception does.
\<close>

fun collect :: "('e + 'a) list \<Rightarrow> 'e + 'a list" where
  "collect [] = Inr []"
| "collect (Inl e # rs) = Inl e"
| "collect (Inr x # rs) = (case collect rs of Inl e \<Rightarrow> Inl e | Inr xs \<Rightarrow> Inr (x # xs))"

definition push_ok :: "'a \<Rightarrow> 'e + 'a list \<Rightarrow> 'e + 'a list" where
  "push_ok x r = (case r of Inl e \<Rightarrow> Inl e | Inr xs \<Rightarrow> Inr (x # xs))"

lemma push_ok_simps [simp]: "push_ok x (Inl e) = Inl e" "push_ok x (Inr xs) = Inr (x # xs)"
  by (simp_all add: push_ok_def)

lemma collect_Inr [simp]: "collect (map Inr xs) = Inr xs"
  by (induction xs) auto

lemma collect_cong_length: "collect rs = Inr xs \<Longrightarrow> length xs = length rs"
  by (induction rs arbitrary: xs rule: collect.induct) (auto split: sum.splits)

section \<open>Loops that stop at the first success\<close>

text \<open>
  \<open>first_success f xs\<close> is the C++ loop that tries each candidate in turn and returns with the
  first one that succeeds.
\<close>

fun first_success :: "('a \<Rightarrow> 'b option) \<Rightarrow> 'a list \<Rightarrow> 'b option" where
  "first_success f [] = None"
| "first_success f (x # xs) = (case f x of Some y \<Rightarrow> Some y | None \<Rightarrow> first_success f xs)"

lemma first_success_Some: "first_success f xs = Some y \<Longrightarrow> \<exists>x \<in> set xs. f x = Some y"
  by (induction xs) (auto split: option.splits)

lemma first_success_None: "first_success f xs = None \<longleftrightarrow> (\<forall>x \<in> set xs. f x = None)"
  by (induction xs) (auto split: option.splits)

lemma first_success_cong [fundef_cong]:
  "xs = ys \<Longrightarrow> (\<And>x. x \<in> set ys \<Longrightarrow> f x = g x) \<Longrightarrow> first_success f xs = first_success g ys"
  by (induction ys arbitrary: xs) (auto split: option.splits)

section \<open>Lists\<close>

lemma drop_eq_Cons_nth: "i < length xs \<Longrightarrow> drop i xs = xs ! i # drop (Suc i) xs"
  by (rule Cons_nth_drop_Suc [symmetric])

lemma takeWhile_drop_Suc:
  "i < length xs \<Longrightarrow> P (xs ! i) \<Longrightarrow>
     takeWhile P (drop i xs) = xs ! i # takeWhile P (drop (Suc i) xs)"
  by (simp add: drop_eq_Cons_nth)

text \<open>Unrolls an interval with numeral bounds when added to the simplifier.\<close>

lemma upt_from_zero: "[0..<numeral n] = 0 # [Suc 0..<numeral n]"
  by (simp add: upt_conv_Cons)

lemma upt_from_one: "[Suc 0..<numeral n] = (if Suc 0 < numeral n then Suc 0 # [2..<numeral n] else [])"
  by (simp add: upt_conv_Cons eval_nat_numeral)

lemmas upt_numerals = upt_from_zero upt_from_one upt_rec_numeral

end
