(* ===== verification/GlobParser.thy ===== *)
theory GlobParser
  imports Prelude
begin

text \<open>
  The glob tokenizer of \<^verbatim>\<open>src/fs/match/path_match_parser.cpp\<close> (declared in
  \<^verbatim>\<open>path_match.h\<close>): patterns are split into tokens, extglobs and braces recursively into
  alternatives. A C++ reference parameter \<open>pos\<close> that is moved on success is returned as part of the
  result; \<open>false\<close> is \<open>None\<close>. \<open>std::stoi\<close> throws on a number that is too large and a forward
  range that ends at \<open>INT_MAX\<close> overflows its counter: both are errors of the model.
\<close>

section \<open>Tokens\<close>

datatype TokenType = LITERAL | STAR | QUESTION | GLOBSTAR | CHAR_CLASS | EXTGLOB | BRACE | PATH_SEP

datatype Token =
  Token (ttype: TokenType) (tvalue: string) (tchildren: "Token list")
    (alternatives: "Token list list") (negated: bool)

definition mk_token :: "TokenType \<Rightarrow> string \<Rightarrow> Token" where
  "mk_token t v = Token t v [] [] False"

lemma mk_token_sel [simp]:
  "ttype (mk_token t v) = t" "tvalue (mk_token t v) = v"
  "alternatives (mk_token t v) = []" "negated (mk_token t v) = False"
  by (simp_all add: mk_token_def)

datatype glob_error = StoiOutOfRange | SignedOverflow

section \<open>Path separators and special characters\<close>

definition isPathSeparator :: "char \<Rightarrow> bool" where
  "isPathSeparator c \<longleftrightarrow> c = CHR 0x5C \<or> c = CHR ''/''"

definition isSpecialChar :: "char \<Rightarrow> bool" where
  "isSpecialChar c \<longleftrightarrow> c = CHR ''*'' \<or> c = CHR ''?'' \<or> c = CHR ''['' \<or> c = CHR '']'' \<or>
     c = CHR ''('' \<or> c = CHR '')'' \<or> c = CHR ''{'' \<or> c = CHR ''}'' \<or> c = CHR ''^'' \<or>
     c = CHR ''!'' \<or> c = CHR ''/''"

fun hasWildcards :: "string \<Rightarrow> bool" where
  "hasWildcards [] = False"
| "hasWildcards (c # cs) =
     (if c \<noteq> CHR ''/'' \<and> c \<noteq> CHR 0x5C \<and> isSpecialChar c then True else hasWildcards cs)"

section \<open>Character classes\<close>

text \<open>
  The scan for the closing bracket: from \<open>start\<close>, a bracket right at the start is content; the
  result is the position of the closing bracket.
\<close>

definition find_bracket :: "string \<Rightarrow> nat \<Rightarrow> nat option" where
  "find_bracket p e =
     (let n = length (takeWhile (\<lambda>c. c \<noteq> CHR '']'') (drop e p))
      in if e + n < length p then Some (e + n) else None)"

definition parseCharClass :: "string \<Rightarrow> nat \<Rightarrow> (Token \<times> nat) option" where
  "parseCharClass pattern pos =
     (if pos \<ge> length pattern \<or> pattern ! pos \<noteq> CHR ''['' then None
      else
        let start = pos + 1;
            neg = (start < length pattern \<and>
                   (pattern ! start = CHR ''^'' \<or> pattern ! start = CHR ''!''));
            start = (if neg then start + 1 else start);
            e = (if start < length pattern \<and> pattern ! start = CHR '']'' then start + 1 else start)
        in case find_bracket pattern e of
             None \<Rightarrow> None
           | Some fin \<Rightarrow>
               if fin \<le> start then None
               else Some (Token CHAR_CLASS (take (fin - start) (drop start pattern)) [] [] neg, fin + 1))"

lemma find_bracket_bounds: "find_bracket p e = Some f \<Longrightarrow> e \<le> f \<and> f < length p"
  by (auto simp: find_bracket_def Let_def split: if_splits)

lemma parseCharClass_progress:
  "parseCharClass p i = Some (t, j) \<Longrightarrow> i < j \<and> j \<le> length p \<and> ttype t = CHAR_CLASS"
  by (auto simp: parseCharClass_def Let_def dest!: find_bracket_bounds
      split: if_splits option.splits)

section \<open>Matching delimiters and top-level separators\<close>

text \<open>
  \<open>scanClose o c d s\<close> is the loop that looks for the delimiter closing depth \<open>d\<close>: the number of
  characters up to and including it, \<open>None\<close> when the text ends first.
\<close>

fun scanClose :: "char \<Rightarrow> char \<Rightarrow> nat \<Rightarrow> string \<Rightarrow> nat option" where
  "scanClose opn cls 0 s = Some 0"
| "scanClose opn cls (Suc d) [] = None"
| "scanClose opn cls (Suc d) (x # xs) =
     map_option Suc
       (scanClose opn cls (if x = opn then Suc (Suc d) else if x = cls then d else Suc d) xs)"

lemma scanClose_bounds: "scanClose a b d s = Some n \<Longrightarrow> n \<le> length s \<and> (d > 0 \<longrightarrow> n > 0)"
proof (induction a b d s arbitrary: n rule: scanClose.induct)
  case (3 a b d x xs)
  then show ?case by fastforce
qed auto

text \<open>
  \<open>splitAlternatives\<close>: the separator splits at nesting depth 0 only; the current piece is the
  accumulator.
\<close>

fun splitAlternatives :: "char \<Rightarrow> char \<Rightarrow> char \<Rightarrow> int \<Rightarrow> string \<Rightarrow> string \<Rightarrow> string list" where
  "splitAlternatives opn cls sep depth cur [] = [cur]"
| "splitAlternatives opn cls sep depth cur (c # cs) =
     (if c = opn then splitAlternatives opn cls sep (depth + 1) (cur @ [c]) cs
      else if c = cls then splitAlternatives opn cls sep (depth - 1) (cur @ [c]) cs
      else if c = sep \<and> depth = 0 then cur # splitAlternatives opn cls sep depth [] cs
      else splitAlternatives opn cls sep depth (cur @ [c]) cs)"

lemma splitAlternatives_length:
  "a \<in> set (splitAlternatives opn cls sep d cur s) \<Longrightarrow> length a \<le> length cur + length s"
proof (induction opn cls sep d cur s rule: splitAlternatives.induct)
  case (2 opn cls sep d cur c cs)
  then show ?case by (fastforce split: if_splits)
qed auto

lemma splitAlternatives_not_Nil: "splitAlternatives opn cls sep d cur s \<noteq> []"
  by (induction opn cls sep d cur s rule: splitAlternatives.induct) auto

section \<open>Extended globs\<close>

text \<open>
  The part of \<open>parseExtglob\<close> that does not recurse: the type character, the texts of the
  alternatives and the position after the closing parenthesis.
\<close>

definition scanExtglob :: "string \<Rightarrow> nat \<Rightarrow> (char \<times> string list \<times> nat) option" where
  "scanExtglob pattern pos =
     (if pos \<ge> length pattern then None
      else if pos + 1 \<ge> length pattern \<or> pattern ! (pos + 1) \<noteq> CHR ''('' then None
      else
        let start = pos + 2
        in case scanClose CHR ''('' CHR '')'' 1 (drop start pattern) of
             None \<Rightarrow> None
           | Some n \<Rightarrow>
               let content = take (n - 1) (drop start pattern)
               in Some (pattern ! pos,
                        splitAlternatives CHR ''('' CHR '')'' CHR ''|'' 0 [] content,
                        start + n))"

text \<open>
  Each alternative is parsed in turn; an empty one becomes \<open>emptyAlt\<close>. The congruence rule lets the
  recursion of \<open>parseAlternativePattern\<close> pass through the loop.
\<close>

definition parse_each ::
  "Token list \<Rightarrow> (string \<Rightarrow> glob_error + Token list) \<Rightarrow> string list \<Rightarrow> glob_error + Token list list" where
  "parse_each emptyAlt parseAlt alts =
     collect (map (\<lambda>alt. if alt = [] then Inr emptyAlt else parseAlt alt) alts)"

lemma parse_each_cong:
  "(\<And>a. a \<in> set alts \<Longrightarrow> f a = g a) \<Longrightarrow> parse_each e f alts = parse_each e g alts"
  unfolding parse_each_def by (rule arg_cong [where f = collect]) simp

definition parseExtglob_with ::
  "(string \<Rightarrow> glob_error + Token list) \<Rightarrow> string \<Rightarrow> nat \<Rightarrow> (glob_error + Token \<times> nat) option" where
  "parseExtglob_with parseAlt pattern pos =
     (case scanExtglob pattern pos of
        None \<Rightarrow> None
      | Some (extType, alts, pos') \<Rightarrow>
          Some (case parse_each [] parseAlt alts of
                  Inl e \<Rightarrow> Inl e
                | Inr ts \<Rightarrow> Inr (Token EXTGLOB [extType] [] ts False, pos')))"

lemma scanExtglob_bounds:
  assumes "scanExtglob p i = Some (c, alts, j)"
  shows "i < j" "j \<le> length p" "\<And>a. a \<in> set alts \<Longrightarrow> length a < length p"
proof -
  from assms obtain n where n: "scanClose CHR ''('' CHR '')'' 1 (drop (i + 2) p) = Some n"
    and j: "j = i + 2 + n" and i: "i + 1 < length p"
    and alts: "alts = splitAlternatives CHR ''('' CHR '')'' CHR ''|'' 0 [] (take (n - 1) (drop (i + 2) p))"
    by (auto simp: scanExtglob_def Let_def split: if_splits option.splits)
  from scanClose_bounds [OF n] have b: "n \<le> length p - (i + 2)" "n > 0" by auto
  show "i < j" using j by simp
  show "j \<le> length p" using j b i by simp
  fix a assume "a \<in> set alts"
  with alts have "length a \<le> length (take (n - 1) (drop (i + 2) p))"
    using splitAlternatives_length by fastforce
  then show "length a < length p" using b i by simp
qed

lemma parseExtglob_with_cong [fundef_cong]:
  assumes "p = q" "i = j" "\<And>s. length s < length q \<Longrightarrow> f s = g s"
  shows "parseExtglob_with f p i = parseExtglob_with g q j"
proof -
  have "parse_each [] f alts = parse_each [] g alts" if "scanExtglob q j = Some (c, alts, k)" for c alts k
    using scanExtglob_bounds(3) [OF that] assms(3) by (auto intro: parse_each_cong)
  then show ?thesis
    using assms(1,2) by (auto simp: parseExtglob_with_def split: option.split)
qed

lemma parseExtglob_with_progress:
  "parseExtglob_with f p i = Some (Inr (t, j)) \<Longrightarrow> i < j \<and> j \<le> length p \<and> ttype t = EXTGLOB"
  by (auto simp: parseExtglob_with_def dest: scanExtglob_bounds split: option.splits sum.splits)

section \<open>Braces\<close>

text \<open>The first \<open>..\<close> of the content: \<open>std::string::find\<close>.\<close>

fun find_dotdot :: "string \<Rightarrow> nat option" where
  "find_dotdot (x # y # zs) =
     (if x = CHR ''.'' \<and> y = CHR ''.'' then Some 0 else map_option Suc (find_dotdot (y # zs)))"
| "find_dotdot _ = None"

definition INT_MAX :: nat where
  "INT_MAX = 2147483647"

text \<open>The strings a numeric range \<open>{a..b}\<close> generates, in the order of the loop.\<close>

definition numeric_range :: "nat \<Rightarrow> nat \<Rightarrow> nat list" where
  "numeric_range a b = (if a \<le> b then [a..<Suc b] else rev [b..<Suc a])"

definition zero_pad :: "nat \<Rightarrow> string \<Rightarrow> string" where
  "zero_pad width s = replicate (width - length s) CHR ''0'' @ s"

definition numeric_alts :: "string \<Rightarrow> string \<Rightarrow> glob_error + string list" where
  "numeric_alts startStr endStr =
     (let startNum = digits_to_nat startStr; endNum = digits_to_nat endStr
      in if startNum > INT_MAX \<or> endNum > INT_MAX then Inl StoiOutOfRange
         else if startNum \<le> endNum \<and> endNum = INT_MAX then Inl SignedOverflow
         else
           let zeroPadded = (length startStr > 1 \<and> startStr ! 0 = CHR ''0'') \<or>
                            (length endStr > 1 \<and> endStr ! 0 = CHR ''0'');
               padWidth = max (length startStr) (length endStr)
           in Inr (map (\<lambda>i. if zeroPadded then zero_pad padWidth (nat_to_string i)
                            else nat_to_string i)
                     (numeric_range startNum endNum)))"

definition alpha_alts :: "char \<Rightarrow> char \<Rightarrow> string list" where
  "alpha_alts startChar endChar =
     map (\<lambda>i. [char_of i]) (numeric_range (code startChar) (code endChar))"

text \<open>
  What the braces hold: the generated literals of a sequence, or the texts of the comma-separated
  alternatives.
\<close>

datatype brace_content = Sequence "string list" | Alternatives "string list"

definition brace_sequence :: "string \<Rightarrow> (glob_error + string list) option" where
  "brace_sequence content =
     (case find_dotdot content of
        None \<Rightarrow> None
      | Some dotPos \<Rightarrow>
          let startStr = take dotPos content; endStr = drop (dotPos + 2) content;
              isNumeric = (\<forall>c \<in> set startStr. c_isdigit c) \<and> (\<forall>c \<in> set endStr. c_isdigit c)
          in if isNumeric \<and> startStr \<noteq> [] \<and> endStr \<noteq> [] then Some (numeric_alts startStr endStr)
             else if length startStr = 1 \<and> length endStr = 1 \<and>
                     c_isalpha (startStr ! 0) \<and> c_isalpha (endStr ! 0)
                  then Some (Inr (alpha_alts (startStr ! 0) (endStr ! 0)))
             else None)"

definition scanBrace :: "string \<Rightarrow> nat \<Rightarrow> (glob_error + brace_content \<times> nat) option" where
  "scanBrace pattern pos =
     (if pos \<ge> length pattern \<or> pattern ! pos \<noteq> CHR ''{'' then None
      else
        let start = pos + 1
        in case scanClose CHR ''{'' CHR ''}'' 1 (drop start pattern) of
             None \<Rightarrow> None
           | Some n \<Rightarrow>
               let content = take (n - 1) (drop start pattern)
               in case brace_sequence content of
                    Some (Inl e) \<Rightarrow> Some (Inl e)
                  | Some (Inr lits) \<Rightarrow> Some (Inr (Sequence lits, start + n))
                  | None \<Rightarrow>
                      let alts = splitAlternatives CHR ''{'' CHR ''}'' CHR '','' 0 [] content
                      in if length alts \<le> 1 then None
                         else Some (Inr (Alternatives alts, start + n)))"

definition parseBraceExpansion_with ::
  "(string \<Rightarrow> glob_error + Token list) \<Rightarrow> string \<Rightarrow> nat \<Rightarrow> (glob_error + Token \<times> nat) option" where
  "parseBraceExpansion_with parseAlt pattern pos =
     (case scanBrace pattern pos of
        None \<Rightarrow> None
      | Some (Inl e) \<Rightarrow> Some (Inl e)
      | Some (Inr (Sequence lits, pos')) \<Rightarrow>
          Some (Inr (Token BRACE [] [] (map (\<lambda>s. [mk_token LITERAL s]) lits) False, pos'))
      | Some (Inr (Alternatives alts, pos')) \<Rightarrow>
          Some (case parse_each [mk_token LITERAL []] parseAlt alts of
                  Inl e \<Rightarrow> Inl e
                | Inr ts \<Rightarrow> Inr (Token BRACE [] [] ts False, pos')))"

lemma scanBrace_bounds:
  assumes "scanBrace p i = Some (Inr (b, j))"
  shows "i < j" "j \<le> length p" "\<And>alts a. b = Alternatives alts \<Longrightarrow> a \<in> set alts \<Longrightarrow> length a < length p"
proof -
  from assms obtain n where n: "scanClose CHR ''{'' CHR ''}'' 1 (drop (i + 1) p) = Some n"
    and j: "j = i + 1 + n" and i: "i < length p"
    and alts: "\<And>alts. b = Alternatives alts \<Longrightarrow>
      alts = splitAlternatives CHR ''{'' CHR ''}'' CHR '','' 0 [] (take (n - 1) (drop (i + 1) p))"
    by (auto simp: scanBrace_def Let_def split: if_splits option.splits sum.splits)
  from scanClose_bounds [OF n] have b: "n \<le> length p - (i + 1)" "n > 0" by auto
  show "i < j" using j by simp
  show "j \<le> length p" using j b i by simp
  fix alts' a assume "b = Alternatives alts'" "a \<in> set alts'"
  with alts have "length a \<le> length (take (n - 1) (drop (i + 1) p))"
    using splitAlternatives_length by fastforce
  then show "length a < length p" using b i by simp
qed

lemma parseBraceExpansion_with_cong [fundef_cong]:
  assumes "p = q" "i = j" "\<And>s. length s < length q \<Longrightarrow> f s = g s"
  shows "parseBraceExpansion_with f p i = parseBraceExpansion_with g q j"
proof -
  have "parse_each e f alts = parse_each e g alts"
    if "scanBrace q j = Some (Inr (Alternatives alts, k))" for e alts k
    using scanBrace_bounds(3) [OF that refl] assms(3) by (auto intro: parse_each_cong)
  then show ?thesis
    using assms(1,2)
    by (auto simp: parseBraceExpansion_with_def split: option.split sum.split brace_content.split)
qed

lemma parseBraceExpansion_with_progress:
  "parseBraceExpansion_with f p i = Some (Inr (t, j)) \<Longrightarrow> i < j \<and> j \<le> length p \<and> ttype t = BRACE"
  by (auto simp: parseBraceExpansion_with_def dest: scanBrace_bounds
      split: option.splits sum.splits brace_content.splits)

section \<open>Sub-patterns of alternatives\<close>

definition alt_literal_char :: "char \<Rightarrow> bool" where
  "alt_literal_char c \<longleftrightarrow> c \<noteq> CHR ''*'' \<and> c \<noteq> CHR ''?'' \<and> c \<noteq> CHR ''['' \<and> c \<noteq> CHR ''{'' \<and>
     c \<noteq> CHR ''@'' \<and> c \<noteq> CHR ''!'' \<and> c \<noteq> CHR ''+''"

text \<open>
  The loop of \<open>parseAlternativePattern\<close> at index \<open>i\<close>; the tokens are listed in the order they are
  pushed. Star and question mark are tokens of their own here, also before an opening parenthesis.
\<close>

function parseAlternative_from :: "string \<Rightarrow> nat \<Rightarrow> glob_error + Token list" where
  "parseAlternative_from pattern i =
     (if i \<ge> length pattern then Inr []
      else
        let c = pattern ! i;
            literal_c = push_ok (mk_token LITERAL [c]) (parseAlternative_from pattern (i + 1))
        in
        if c = CHR ''*'' then push_ok (mk_token STAR []) (parseAlternative_from pattern (i + 1))
        else if c = CHR ''?'' then push_ok (mk_token QUESTION []) (parseAlternative_from pattern (i + 1))
        else if c = CHR ''['' then
          (case parseCharClass pattern i of
             Some (t, j) \<Rightarrow> push_ok t (parseAlternative_from pattern j)
           | None \<Rightarrow> literal_c)
        else if c = CHR ''@'' \<or> c = CHR ''!'' \<or> c = CHR ''+'' then
          (if i + 1 < length pattern \<and> pattern ! (i + 1) = CHR ''('' then
             (case parseExtglob_with (\<lambda>s. parseAlternative_from s 0) pattern i of
                Some (Inl e) \<Rightarrow> Inl e
              | Some (Inr (t, j)) \<Rightarrow> push_ok t (parseAlternative_from pattern j)
              | None \<Rightarrow> literal_c)
           else literal_c)
        else if c = CHR ''{'' then
          (case parseBraceExpansion_with (\<lambda>s. parseAlternative_from s 0) pattern i of
             Some (Inl e) \<Rightarrow> Inl e
           | Some (Inr (t, j)) \<Rightarrow> push_ok t (parseAlternative_from pattern j)
           | None \<Rightarrow> literal_c)
        else
          let literal = takeWhile alt_literal_char (drop i pattern)
          in if literal = [] then parseAlternative_from pattern (i + 1)
             else push_ok (mk_token LITERAL literal) (parseAlternative_from pattern (i + length literal)))"
  by pat_completeness auto
termination
  by (relation "measures [\<lambda>(p, i). length p, \<lambda>(p, i). length p - i]")
     (auto dest: parseCharClass_progress parseExtglob_with_progress parseBraceExpansion_with_progress
       intro: diff_less_mono2 simp: diff_less_mono2)

declare parseAlternative_from.simps [simp del]

definition parseAlternativePattern :: "string \<Rightarrow> glob_error + Token list" where
  "parseAlternativePattern pattern =
     (if pattern = [] then Inr [mk_token LITERAL []] else parseAlternative_from pattern 0)"

text \<open>Both callers pass \<open>parseAlternativePattern\<close> non-empty texts only.\<close>

definition parseExtglob :: "string \<Rightarrow> nat \<Rightarrow> (glob_error + Token \<times> nat) option" where
  "parseExtglob = parseExtglob_with parseAlternativePattern"

definition parseBraceExpansion :: "string \<Rightarrow> nat \<Rightarrow> (glob_error + Token \<times> nat) option" where
  "parseBraceExpansion = parseBraceExpansion_with parseAlternativePattern"

lemmas glob_progress =
  parseCharClass_progress
  parseExtglob_with_progress [of parseAlternativePattern, folded parseExtglob_def]
  parseBraceExpansion_with_progress [of parseAlternativePattern, folded parseBraceExpansion_def]

section \<open>The tokenizer\<close>

definition tok_literal_char :: "char \<Rightarrow> bool" where
  "tok_literal_char c \<longleftrightarrow> c \<noteq> CHR ''*'' \<and> c \<noteq> CHR ''?'' \<and> c \<noteq> CHR ''['' \<and> c \<noteq> CHR ''{'' \<and>
     \<not> isPathSeparator c \<and> c \<noteq> CHR ''@'' \<and> c \<noteq> CHR ''!'' \<and> c \<noteq> CHR ''+''"

text \<open>A double star is a globstar when separators, or the ends of the pattern, delimit it.\<close>

definition isGlobstar_at :: "string \<Rightarrow> nat \<Rightarrow> bool" where
  "isGlobstar_at pattern i \<longleftrightarrow>
     \<not> (i > 0 \<and> \<not> isPathSeparator (pattern ! (i - 1))) \<and>
     \<not> (i + 2 < length pattern \<and> \<not> isPathSeparator (pattern ! (i + 2)))"

definition opens_extglob :: "string \<Rightarrow> nat \<Rightarrow> bool" where
  "opens_extglob pattern i \<longleftrightarrow> i + 1 < length pattern \<and> pattern ! (i + 1) = CHR ''(''"

text \<open>
  One step of the loop of \<open>tokenize\<close> at an index inside the pattern: the token pushed, if any, and
  the next index.
\<close>

definition plain_star :: "string \<Rightarrow> nat \<Rightarrow> Token option \<times> nat" where
  "plain_star pattern i =
     (if i + 1 < length pattern \<and> pattern ! (i + 1) = CHR ''*'' then
        (if isGlobstar_at pattern i then (Some (mk_token GLOBSTAR []), i + 2)
         else (Some (mk_token STAR []), i + 1))
      else (Some (mk_token STAR []), i + 1))"

definition tokenize_step :: "bool \<Rightarrow> string \<Rightarrow> nat \<Rightarrow> glob_error + Token option \<times> nat" where
  "tokenize_step isWindows pattern i =
     (let c = pattern ! i;
          pushed = (\<lambda>r otherwise. case r of
                        Some (Inl e) \<Rightarrow> Inl e
                      | Some (Inr (t, j)) \<Rightarrow> Inr (Some t, j)
                      | None \<Rightarrow> Inr otherwise);
          literal_c = (Some (mk_token LITERAL [c]), i + 1)
      in
      if c = CHR ''*'' then
        pushed (if opens_extglob pattern i then parseExtglob pattern i else None) (plain_star pattern i)
      else if c = CHR ''?'' then
        pushed (if opens_extglob pattern i then parseExtglob pattern i else None)
          (Some (mk_token QUESTION []), i + 1)
      else if c = CHR ''['' then pushed (map_option Inr (parseCharClass pattern i)) literal_c
      else if c = CHR ''/'' \<or> c = CHR 0x5C then
        (if isWindows
         then Inr (Some (mk_token PATH_SEP ''/''),
                   i + length (takeWhile isPathSeparator (drop i pattern)))
         else Inr (Some (mk_token PATH_SEP [c]), i + 1))
      else if c = CHR ''@'' \<or> c = CHR ''!'' \<or> c = CHR ''+'' then
        pushed (if opens_extglob pattern i then parseExtglob pattern i else None) literal_c
      else if c = CHR ''{'' then pushed (parseBraceExpansion pattern i) literal_c
      else
        let literal = takeWhile tok_literal_char (drop i pattern)
        in Inr (if literal = [] then None else Some (mk_token LITERAL literal), i + length literal))"

lemma length_takeWhile_drop_pos:
  assumes "i < length p" "P (p ! i)"
  shows "0 < length (takeWhile P (drop i p))" "i + length (takeWhile P (drop i p)) \<le> length p"
proof -
  show "0 < length (takeWhile P (drop i p))"
    using assms by (simp add: takeWhile_drop_Suc)
  have "length (takeWhile P (drop i p)) \<le> length (drop i p)" by (rule length_takeWhile_le)
  with assms show "i + length (takeWhile P (drop i p)) \<le> length p" by simp
qed

lemma tokenize_step_progress:
  assumes "i < length p" and "tokenize_step w p i = Inr (t, j)"
  shows "i < j \<and> j \<le> length p"
proof -
  let ?c = "p ! i"
  note tw = length_takeWhile_drop_pos [OF assms(1)]
  have star: "plain_star p i = (t, j) \<Longrightarrow> i < j \<and> j \<le> length p"
    using assms(1) by (auto simp: plain_star_def split: if_splits)
  show ?thesis
  proof (cases "?c = CHR ''/'' \<or> ?c = CHR 0x5C")
    case True
    then have "isPathSeparator ?c" by (auto simp: isPathSeparator_def)
    with True assms tw [where P = isPathSeparator] show ?thesis
      by (auto simp: tokenize_step_def Let_def split: if_splits)
  next
    case False
    show ?thesis
    proof (cases "tok_literal_char ?c")
      case True
      with False assms tw [where P = tok_literal_char] show ?thesis
        by (auto simp: tokenize_step_def Let_def tok_literal_char_def split: if_splits)
    next
      case nl: False
      with False have "?c \<in> {CHR ''*'', CHR ''?'', CHR ''['', CHR ''{'', CHR ''@'', CHR ''!'', CHR ''+''}"
        by (auto simp: tok_literal_char_def isPathSeparator_def)
      with assms star show ?thesis
        by (auto simp: tokenize_step_def Let_def dest: glob_progress
            split: if_splits option.splits sum.splits)
    qed
  qed
qed

function tokenize_from :: "bool \<Rightarrow> string \<Rightarrow> nat \<Rightarrow> glob_error + Token list" where
  "tokenize_from isWindows pattern i =
     (if i \<ge> length pattern then Inr []
      else case tokenize_step isWindows pattern i of
             Inl e \<Rightarrow> Inl e
           | Inr (None, j) \<Rightarrow> tokenize_from isWindows pattern j
           | Inr (Some t, j) \<Rightarrow> push_ok t (tokenize_from isWindows pattern j))"
  by pat_completeness auto
termination
  by (relation "measure (\<lambda>(w, p, i). length p - i)")
     (auto dest!: tokenize_step_progress [rotated])

declare tokenize_from.simps [simp del]

definition tokenize :: "bool \<Rightarrow> string \<Rightarrow> glob_error + Token list" where
  "tokenize isWindows pattern = tokenize_from isWindows pattern 0"

lemma tokenize_from_end [simp]: "length p \<le> i \<Longrightarrow> tokenize_from w p i = Inr []"
  by (simp add: tokenize_from.simps)

end
