(* ===== verification/GlobMatch.thy ===== *)
theory GlobMatch
  imports GlobParser
begin

text \<open>
  The glob matcher: \<^verbatim>\<open>path_match_core.cpp\<close>, \<^verbatim>\<open>path_match_extglob.cpp\<close>,
  \<^verbatim>\<open>path_match_utils.cpp\<close> and \<^verbatim>\<open>path_match.cpp\<close> under \<^verbatim>\<open>src/fs/match\<close>.
  A method with a parameter \<open>size_t& textIndex\<close> returns the verdict with the final value of that
  index, which some branches move although they answer \<open>false\<close>. The macro \<open>__APPLE__\<close> is a field of
  the pattern record.
\<close>

section \<open>The pattern object\<close>

record MinimatchPattern =
  pat_tokens :: "Token list"
  win :: bool
  original_pattern :: string
  compiled :: bool
  apple_build :: bool

definition isPathSeparatorInText :: "MinimatchPattern \<Rightarrow> char \<Rightarrow> bool" where
  "isPathSeparatorInText P c \<longleftrightarrow>
     (if c = CHR ''/'' then True else if c = CHR 0x5C then win P else False)"

definition getPathSeparator :: "MinimatchPattern \<Rightarrow> char" where
  "getPathSeparator P = (if win P then CHR 0x5C else CHR ''/'')"

definition shouldMatchCase :: "MinimatchPattern \<Rightarrow> char \<Rightarrow> char \<Rightarrow> bool" where
  "shouldMatchCase P a b \<longleftrightarrow>
     (if apple_build P \<or> win P then c_tolower a = c_tolower b else a = b)"

text \<open>The loop of \<open>isCharInClass\<close>; its parameter \<open>negated\<close> is not used by the code.\<close>

fun class_loop :: "bool \<Rightarrow> char \<Rightarrow> string \<Rightarrow> bool" where
  "class_loop ci c (a # b # d # rest) =
     (if b = CHR ''-'' then
        (if ci
         then (if schar (c_tolower a) \<le> schar (c_tolower c) \<and> schar (c_tolower c) \<le> schar (c_tolower d)
               then True else class_loop ci c rest)
         else (if schar a \<le> schar c \<and> schar c \<le> schar d then True else class_loop ci c rest))
      else if (if ci then c_tolower c = c_tolower a else c = a) then True
      else class_loop ci c (b # d # rest))"
| "class_loop ci c [a, b] =
     (if (if ci then c_tolower c = c_tolower a else c = a) then True else class_loop ci c [b])"
| "class_loop ci c [a] = (if ci then c_tolower c = c_tolower a else c = a)"
| "class_loop ci c [] = False"

definition isCharInClass :: "MinimatchPattern \<Rightarrow> char \<Rightarrow> string \<Rightarrow> bool \<Rightarrow> bool" where
  "isCharInClass P c charClass neg =
     (if charClass = [] then False else class_loop (apple_build P \<or> win P) c charClass)"

text \<open>
  \<open>containsHiddenPathSegments\<close> on the range from \<open>startIndex\<close> to \<open>endIndex\<close>; the callers replace
  the default \<open>SIZE_MAX\<close> by the length of the text.
\<close>

definition containsHiddenPathSegments :: "MinimatchPattern \<Rightarrow> string \<Rightarrow> nat \<Rightarrow> nat \<Rightarrow> bool" where
  "containsHiddenPathSegments P text startIndex endIndex =
     (if startIndex \<ge> endIndex then False
      else if startIndex = 0 \<and> text ! 0 = CHR ''.'' then True
      else if startIndex < length text \<and> text ! startIndex = CHR ''.'' then True
      else list_ex (\<lambda>i. isPathSeparatorInText P (text ! i) \<and> i + 1 < endIndex \<and>
                        text ! (i + 1) = CHR ''.'') [startIndex..<endIndex])"

section \<open>Matching one token\<close>

text \<open>
  \<open>literal_loop\<close> walks the rest of the text and the rest of the literal; it counts the characters of
  the text consumed, \<open>None\<close> when the literal does not match.
\<close>

function literal_loop :: "MinimatchPattern \<Rightarrow> string \<Rightarrow> string \<Rightarrow> nat \<Rightarrow> nat option" where
  "literal_loop P ts [] k = Some k"
| "literal_loop P [] (l # ls) k = None"
| "literal_loop P (t # ts) (l # ls) k =
     (if win P \<and> isPathSeparator t \<and> isPathSeparator l
      then literal_loop P (dropWhile isPathSeparator (t # ts)) (dropWhile isPathSeparator (l # ls))
             (k + length (takeWhile isPathSeparator (t # ts)))
      else if \<not> shouldMatchCase P t l then None
      else literal_loop P ts ls (k + 1))"
  by pat_completeness auto
termination
  by (relation "measure (\<lambda>(P, ts, ls, k). length ts)")
     (auto simp: le_imp_less_Suc length_dropWhile_le)

definition matchLiteral :: "MinimatchPattern \<Rightarrow> string \<Rightarrow> string \<Rightarrow> nat \<Rightarrow> bool \<times> nat" where
  "matchLiteral P text literal textIndex =
     (if textIndex + length literal > length text then (False, textIndex)
      else case literal_loop P (drop textIndex text) literal 0 of
             None \<Rightarrow> (False, textIndex)
           | Some k \<Rightarrow> (True, textIndex + k))"

definition matchQuestion :: "MinimatchPattern \<Rightarrow> string \<Rightarrow> nat \<Rightarrow> nat \<Rightarrow> bool \<times> nat" where
  "matchQuestion P text textIndex tokenIndex =
     (if textIndex \<ge> length text then (False, textIndex)
      else if isPathSeparatorInText P (text ! textIndex) then (False, textIndex)
      else if textIndex = 0 \<and> tokenIndex = 0 \<and> text ! textIndex = CHR ''.'' then (False, textIndex)
      else (True, textIndex + 1))"

definition matchCharClass :: "MinimatchPattern \<Rightarrow> string \<Rightarrow> string \<Rightarrow> bool \<Rightarrow> nat \<Rightarrow> bool \<times> nat" where
  "matchCharClass P text charClass neg textIndex =
     (if textIndex \<ge> length text then (False, textIndex)
      else
        let m = isCharInClass P (text ! textIndex) charClass False;
            m = (if neg then \<not> m else m)
        in if m then (True, textIndex + 1) else (False, textIndex))"

text \<open>The first index from \<open>i\<close> on that holds a separator or ends the text.\<close>

definition segment_end :: "MinimatchPattern \<Rightarrow> string \<Rightarrow> nat \<Rightarrow> nat" where
  "segment_end P text i =
     i + length (takeWhile (\<lambda>c. \<not> isPathSeparatorInText P c) (drop i text))"

definition matchStarInAlternative :: "MinimatchPattern \<Rightarrow> string \<Rightarrow> nat \<Rightarrow> bool \<times> nat" where
  "matchStarInAlternative P text textIndex = (True, segment_end P text textIndex)"

section \<open>Alternatives and repetition\<close>

text \<open>
  Trying each alternative from \<open>start\<close>: the second index is the value the reference holds when the
  loop ends.
\<close>

fun try_alts :: "('a \<Rightarrow> nat \<Rightarrow> bool \<times> nat) \<Rightarrow> 'a list \<Rightarrow> nat \<Rightarrow> nat \<Rightarrow> bool \<times> nat" where
  "try_alts m [] start cur = (False, cur)"
| "try_alts m (a # as) start cur =
     (case m a start of (True, j) \<Rightarrow> (True, j) | (False, j) \<Rightarrow> try_alts m as start j)"

lemma try_alts_cong:
  "(\<And>a i. a \<in> set as \<Longrightarrow> m a i = m' a i) \<Longrightarrow> try_alts m as s c = try_alts m' as s c"
  by (induction as arbitrary: c) (auto split: prod.split bool.split)

definition SIZE_MAX :: nat where
  "SIZE_MAX = 2 ^ 64 - 1"

text \<open>
  The greedy loop of \<open>matchExtglobRepeat\<close>, the same for both minimum counts: number of matches and
  final index. Every round but the last moves the index forward, so the length of the text is
  fuel enough (lemma \<open>repeat_loop_fuel\<close> below).
\<close>

fun repeat_loop ::
  "nat \<Rightarrow> (Token list \<Rightarrow> nat \<Rightarrow> bool \<times> nat) \<Rightarrow> string \<Rightarrow> Token list list \<Rightarrow> nat \<Rightarrow> nat \<Rightarrow> nat \<Rightarrow> nat \<times> nat" where
  "repeat_loop 0 m text alts maxCount cnt i = (cnt, i)"
| "repeat_loop (Suc n) m text alts maxCount cnt i =
     (if cnt < maxCount \<and> i < length text then
        (case try_alts m alts i i of
           (False, j) \<Rightarrow> (cnt, j)
         | (True, j) \<Rightarrow> if j = i then (cnt + 1, j)
                       else repeat_loop n m text alts maxCount (cnt + 1) j)
      else (cnt, i))"

lemma repeat_loop_cong:
  "(\<And>a i. a \<in> set as \<Longrightarrow> m a i = m' a i) \<Longrightarrow>
     repeat_loop n m text as mx c i = repeat_loop n m' text as mx c i"
proof (induction n arbitrary: c i)
  case (Suc n)
  then show ?case
    using try_alts_cong [of as m m' i i] by (auto split: prod.split bool.split)
qed simp

definition matchExtglobRepeat_with ::
  "(Token list \<Rightarrow> nat \<Rightarrow> bool \<times> nat) \<Rightarrow> string \<Rightarrow> Token list list \<Rightarrow> nat \<Rightarrow> nat \<Rightarrow> nat \<Rightarrow> bool \<times> nat" where
  "matchExtglobRepeat_with m text alts textIndex minCount maxCount =
     (case repeat_loop (Suc (length text)) m text alts maxCount 0 textIndex of
        (cnt, j) \<Rightarrow>
          if minCount = 0 \<and> maxCount > 0 then (True, j)
          else if cnt \<ge> minCount then (True, j)
          else (False, textIndex))"

text \<open>
  \<open>matchExtglob\<close> over the matcher \<open>m\<close> of one alternative. A failed \<open>!\<close> keeps the index the matching
  alternative left.
\<close>

definition matchExtglob_with ::
  "(Token list \<Rightarrow> nat \<Rightarrow> bool \<times> nat) \<Rightarrow> string \<Rightarrow> Token \<Rightarrow> nat \<Rightarrow> bool \<times> nat" where
  "matchExtglob_with m text token textIndex =
     (if tvalue token = [] then (False, textIndex)
      else
        let extType = tvalue token ! 0; alts = alternatives token
        in
        if extType = CHR ''@'' then
          (if alts = [] then (True, textIndex)
           else case try_alts m alts textIndex textIndex of
                  (True, j) \<Rightarrow> (True, j)
                | (False, _) \<Rightarrow> (False, textIndex))
        else if extType = CHR ''?'' then
          (case try_alts m alts textIndex textIndex of
             (True, j) \<Rightarrow> (True, j)
           | (False, _) \<Rightarrow> (True, textIndex))
        else if extType = CHR ''+'' then matchExtglobRepeat_with m text alts textIndex 1 SIZE_MAX
        else if extType = CHR ''*'' then matchExtglobRepeat_with m text alts textIndex 0 SIZE_MAX
        else if extType = CHR ''!'' then
          (case try_alts m alts textIndex textIndex of
             (True, j) \<Rightarrow> (False, j)
           | (False, j) \<Rightarrow> if j < length text then (True, j + 1) else (False, j))
        else (False, textIndex))"

lemma matchExtglob_with_cong [fundef_cong]:
  assumes "text = text'" "t = t'" "i = i'"
    and "\<And>a j. a \<in> set (alternatives t') \<Longrightarrow> m a j = m' a j"
  shows "matchExtglob_with m text t i = matchExtglob_with m' text' t' i'"
proof -
  have "try_alts m (alternatives t) i j = try_alts m' (alternatives t) i j" for j
    using assms by (intro try_alts_cong) auto
  moreover have "repeat_loop n m text (alternatives t) mx c i = repeat_loop n m' text (alternatives t) mx c i"
    for n mx c
    using assms by (intro repeat_loop_cong) auto
  then have "matchExtglobRepeat_with m text (alternatives t) i mn mx =
      matchExtglobRepeat_with m' text (alternatives t) i mn mx" for mn mx
    unfolding matchExtglobRepeat_with_def by (simp only:)
  ultimately show ?thesis
    using assms(1-3) by (simp add: matchExtglob_with_def Let_def cong: if_cong)
qed

section \<open>The tokens of an alternative\<close>

text \<open>A sequence that fails gives back the index it started from.\<close>

definition or_restore :: "nat \<Rightarrow> bool \<times> nat \<Rightarrow> bool \<times> nat" where
  "or_restore saved r = (case r of (True, j) \<Rightarrow> (True, j) | (False, _) \<Rightarrow> (False, saved))"

definition then_seq :: "nat \<Rightarrow> bool \<times> nat \<Rightarrow> (nat \<Rightarrow> bool \<times> nat) \<Rightarrow> bool \<times> nat" where
  "then_seq saved r k = (case r of (True, j) \<Rightarrow> or_restore saved (k j) | (False, _) \<Rightarrow> (False, saved))"

text \<open>The shortest-first loop of a star that is followed by other tokens.\<close>

fun try_indices :: "(nat \<Rightarrow> bool \<times> nat) \<Rightarrow> nat list \<Rightarrow> nat \<Rightarrow> bool \<times> nat" where
  "try_indices k [] saved = (False, saved)"
| "try_indices k (i # is) saved =
     (case k i of (True, j) \<Rightarrow> (True, j) | (False, _) \<Rightarrow> try_indices k is saved)"

text \<open>The loop over the alternatives of a brace: one matches and the rest of the sequence follows.\<close>

fun try_braces ::
  "('a \<Rightarrow> nat \<Rightarrow> bool \<times> nat) \<Rightarrow> (nat \<Rightarrow> bool \<times> nat) \<Rightarrow> 'a list \<Rightarrow> nat \<Rightarrow> bool \<times> nat" where
  "try_braces m k [] saved = (False, saved)"
| "try_braces m k (a # as) saved =
     (case m a saved of
        (True, b) \<Rightarrow> (case k b of (True, j) \<Rightarrow> (True, j) | (False, _) \<Rightarrow> try_braces m k as saved)
      | (False, _) \<Rightarrow> try_braces m k as saved)"

lemma try_braces_cong [fundef_cong]:
  "as = bs \<Longrightarrow> s = s' \<Longrightarrow> (\<And>a i. a \<in> set bs \<Longrightarrow> m a i = m' a i) \<Longrightarrow> (\<And>j. k j = k' j) \<Longrightarrow>
     try_braces m k as s = try_braces m' k' bs s'"
  by (induction as arbitrary: bs) (auto split: prod.split bool.split)

lemma size_alternative: "a \<in> set (alternatives t) \<Longrightarrow> size_list size a < size t"
proof (cases t)
  case (Token ty v ch alts ng)
  assume "a \<in> set (alternatives t)"
  with Token have "a \<in> set alts" by simp
  then have "size_list size a \<le> size_list (size_list size) alts"
    by (induction alts) auto
  with Token show ?thesis by simp
qed

lemma size_list_pos: "ts \<noteq> [] \<Longrightarrow> 0 < size_list f ts"
  by (cases ts) auto

function (sequential)
  matchAlternativeTokens :: "MinimatchPattern \<Rightarrow> string \<Rightarrow> Token list \<Rightarrow> nat \<Rightarrow> bool \<times> nat" and
  matchTokenSequence :: "MinimatchPattern \<Rightarrow> string \<Rightarrow> Token list \<Rightarrow> nat \<Rightarrow> bool \<times> nat" where
  "matchAlternativeTokens P text [] i = (True, i)"
| "matchAlternativeTokens P text [t] i =
     (case ttype t of
        LITERAL \<Rightarrow> matchLiteral P text (tvalue t) i
      | STAR \<Rightarrow> if i = 0 \<and> text \<noteq> [] \<and> text ! 0 = CHR ''.'' then (False, i)
                else matchStarInAlternative P text i
      | QUESTION \<Rightarrow> matchQuestion P text i 0
      | CHAR_CLASS \<Rightarrow> matchCharClass P text (tvalue t) (negated t) i
      | EXTGLOB \<Rightarrow> matchExtglob_with (\<lambda>a j. matchAlternativeTokens P text a j) text t i
      | _ \<Rightarrow> (False, i))"
| "matchAlternativeTokens P text (t # u # ts) i = matchTokenSequence P text (t # u # ts) i"
| "matchTokenSequence P text [] i = (True, i)"
| "matchTokenSequence P text (t # ts) i =
     (case ttype t of
        LITERAL \<Rightarrow>
          then_seq i (matchLiteral P text (tvalue t) i) (\<lambda>j. matchTokenSequence P text ts j)
      | STAR \<Rightarrow>
          if ts = [] then (True, segment_end P text i)
          else try_indices (\<lambda>j. matchTokenSequence P text ts j) [i..<Suc (segment_end P text i)] i
      | QUESTION \<Rightarrow>
          then_seq i (matchQuestion P text i 0) (\<lambda>j. matchTokenSequence P text ts j)
      | CHAR_CLASS \<Rightarrow>
          then_seq i (matchCharClass P text (tvalue t) (negated t) i)
            (\<lambda>j. matchTokenSequence P text ts j)
      | EXTGLOB \<Rightarrow>
          then_seq i (matchExtglob_with (\<lambda>a j. matchAlternativeTokens P text a j) text t i)
            (\<lambda>j. matchTokenSequence P text ts j)
      | BRACE \<Rightarrow>
          try_braces (\<lambda>a j. matchAlternativeTokens P text a j) (\<lambda>j. matchTokenSequence P text ts j)
            (alternatives t) i
      | _ \<Rightarrow> (False, i))"
  by pat_completeness auto
termination
  by (relation "measures
       [\<lambda>x. case x of Inl (P, text, ts, i) \<Rightarrow> size_list size ts | Inr (P, text, ts, i) \<Rightarrow> size_list size ts,
        \<lambda>x. case x of Inl _ \<Rightarrow> 1 | Inr _ \<Rightarrow> 0]")
     (auto dest: size_alternative)

declare matchAlternativeTokens.simps(2) [simp del] matchTokenSequence.simps(2) [simp del]

definition matchExtglob :: "MinimatchPattern \<Rightarrow> string \<Rightarrow> Token \<Rightarrow> nat \<Rightarrow> bool \<times> nat" where
  "matchExtglob P text = matchExtglob_with (matchAlternativeTokens P text) text"

definition matchExtglobRepeat ::
  "MinimatchPattern \<Rightarrow> string \<Rightarrow> Token list list \<Rightarrow> nat \<Rightarrow> nat \<Rightarrow> nat \<Rightarrow> bool \<times> nat" where
  "matchExtglobRepeat P text = matchExtglobRepeat_with (matchAlternativeTokens P text) text"

section \<open>Matching the pattern\<close>

text \<open>
  The recursion of \<open>matchTokens\<close> always continues with a later token; its helpers receive that
  continuation as the argument \<open>k\<close>.
\<close>

definition has_empty_alternative :: "Token \<Rightarrow> bool" where
  "has_empty_alternative t \<longleftrightarrow>
     list_ex (\<lambda>a. a = [] \<or>
       (ttype t = BRACE \<and> length a = 1 \<and> ttype (a ! 0) = LITERAL \<and> tvalue (a ! 0) = []))
       (alternatives t)"

definition can_match_empty :: "Token \<Rightarrow> bool" where
  "can_match_empty t \<longleftrightarrow>
     ttype t = STAR \<or> ttype t = GLOBSTAR \<or>
     ((ttype t = BRACE \<or> ttype t = EXTGLOB) \<and> has_empty_alternative t)"

definition rest_matches_empty :: "Token list \<Rightarrow> nat \<Rightarrow> bool" where
  "rest_matches_empty ts ti \<longleftrightarrow>
     (if length ts = 1 \<and> ttype (ts ! 0) = STAR then False
      else list_all can_match_empty (drop ti ts))"

definition matchStar :: "MinimatchPattern \<Rightarrow> string \<Rightarrow> (nat \<Rightarrow> bool) \<Rightarrow> nat \<Rightarrow> bool" where
  "matchStar P text k i =
     (if length (pat_tokens P) = 1 \<and> text = [] then False
      else
        let atSegmentStart = (i = 0 \<or> (i > 0 \<and> isPathSeparatorInText P (text ! (i - 1))))
        in if atSegmentStart \<and> i < length text \<and> text ! i = CHR ''.'' then False
           else list_ex k [i..<Suc (segment_end P text i)])"

text \<open>
  The loops of \<open>matchGlobstar\<close>: \<open>start\<close> is \<open>textIndex\<close>, which follows each index that is tried.
\<close>

fun globstar_loop ::
  "MinimatchPattern \<Rightarrow> string \<Rightarrow> bool \<Rightarrow> (nat \<Rightarrow> bool) \<Rightarrow> nat \<Rightarrow> nat list \<Rightarrow> bool" where
  "globstar_loop P text segmentwise k start [] = False"
| "globstar_loop P text segmentwise k start (i # is) =
     (if segmentwise \<and> i < length text \<and> \<not> isPathSeparatorInText P (text ! i)
      then globstar_loop P text segmentwise k start is
      else if containsHiddenPathSegments P text start i
      then globstar_loop P text segmentwise k start is
      else if k i then True
      else globstar_loop P text segmentwise k i is)"

definition matchGlobstar ::
  "MinimatchPattern \<Rightarrow> string \<Rightarrow> nat \<Rightarrow> (nat \<Rightarrow> bool) \<Rightarrow> (nat \<Rightarrow> bool) \<Rightarrow> nat \<Rightarrow> bool" where
  "matchGlobstar P text ti k k2 i =
     (if ti + 1 \<ge> length (pat_tokens P) then \<not> containsHiddenPathSegments P text i (length text)
      else if ttype (pat_tokens P ! (ti + 1)) = PATH_SEP then
        (if ti + 2 < length (pat_tokens P) \<and> k2 i then True
         else globstar_loop P text True k i [i..<Suc (length text)])
      else globstar_loop P text False k i [i..<Suc (length text)])"

fun matchTokenSequenceWithFullBacktrack ::
  "MinimatchPattern \<Rightarrow> string \<Rightarrow> (nat \<Rightarrow> bool) \<Rightarrow> Token list \<Rightarrow> nat \<Rightarrow> bool" where
  "matchTokenSequenceWithFullBacktrack P text k [] i = k i"
| "matchTokenSequenceWithFullBacktrack P text k (t # ts) i =
     (case ttype t of
        LITERAL \<Rightarrow>
          (case matchLiteral P text (tvalue t) i of
             (True, j) \<Rightarrow> matchTokenSequenceWithFullBacktrack P text k ts j
           | (False, _) \<Rightarrow> False)
      | STAR \<Rightarrow> list_ex (\<lambda>j. matchTokenSequenceWithFullBacktrack P text k ts j)
                  [i..<Suc (segment_end P text i)]
      | QUESTION \<Rightarrow>
          (case matchQuestion P text i 0 of
             (True, j) \<Rightarrow> matchTokenSequenceWithFullBacktrack P text k ts j
           | (False, _) \<Rightarrow> False)
      | CHAR_CLASS \<Rightarrow>
          (case matchCharClass P text (tvalue t) (negated t) i of
             (True, j) \<Rightarrow> matchTokenSequenceWithFullBacktrack P text k ts j
           | (False, _) \<Rightarrow> False)
      | _ \<Rightarrow> False)"

definition matchExtglobWithBacktracking ::
  "MinimatchPattern \<Rightarrow> string \<Rightarrow> Token \<Rightarrow> (nat \<Rightarrow> bool) \<Rightarrow> nat \<Rightarrow> bool" where
  "matchExtglobWithBacktracking P text token k i =
     (if tvalue token = [] then False
      else
        let extType = tvalue token ! 0
        in
        if extType = CHR ''?'' then
          list_ex (\<lambda>a. case matchAlternativeTokens P text a i of (b, j) \<Rightarrow> b \<and> k j)
            (alternatives token) \<or> k i
        else if extType = CHR ''*'' then
          k i \<or> (case matchExtglobRepeat P text (alternatives token) i 1 SIZE_MAX of (b, j) \<Rightarrow> b \<and> k j)
        else if extType = CHR ''@'' then
          list_ex (\<lambda>a. matchTokenSequenceWithFullBacktrack P text k a i) (alternatives token)
        else (case matchExtglob P text token i of (b, j) \<Rightarrow> b \<and> k j))"

definition needs_backtracking :: "Token \<Rightarrow> bool" where
  "needs_backtracking t \<longleftrightarrow>
     tvalue t \<noteq> [] \<and>
     (tvalue t ! 0 = CHR ''?'' \<or> tvalue t ! 0 = CHR ''*'' \<or>
      (tvalue t ! 0 = CHR ''@'' \<and>
       list_ex (\<lambda>a. list_ex (\<lambda>u. ttype u = STAR) a) (alternatives t)))"

text \<open>The separators of the text that one separator of the pattern takes.\<close>

definition skip_separators :: "MinimatchPattern \<Rightarrow> string \<Rightarrow> nat \<Rightarrow> nat" where
  "skip_separators P text i =
     (if win P then i + 1 + length (takeWhile (isPathSeparatorInText P) (drop (i + 1) text))
      else i + 1)"

function matchTokens :: "MinimatchPattern \<Rightarrow> string \<Rightarrow> nat \<Rightarrow> nat \<Rightarrow> bool" where
  "matchTokens P text ti i =
     (if ti \<ge> length (pat_tokens P) then i \<ge> length text
      else if i \<ge> length text then rest_matches_empty (pat_tokens P) ti
      else
        let t = pat_tokens P ! ti
        in case ttype t of
          LITERAL \<Rightarrow>
            (case matchLiteral P text (tvalue t) i of (b, j) \<Rightarrow> b \<and> matchTokens P text (ti + 1) j)
        | QUESTION \<Rightarrow>
            (case matchQuestion P text i ti of (b, j) \<Rightarrow> b \<and> matchTokens P text (ti + 1) j)
        | STAR \<Rightarrow> matchStar P text (\<lambda>j. matchTokens P text (ti + 1) j) i
        | CHAR_CLASS \<Rightarrow>
            (case matchCharClass P text (tvalue t) (negated t) i of
               (b, j) \<Rightarrow> b \<and> matchTokens P text (ti + 1) j)
        | PATH_SEP \<Rightarrow>
            isPathSeparatorInText P (text ! i) \<and>
            matchTokens P text (ti + 1) (skip_separators P text i)
        | GLOBSTAR \<Rightarrow>
            matchGlobstar P text ti (\<lambda>j. matchTokens P text (ti + 1) j)
              (\<lambda>j. matchTokens P text (ti + 2) j) i
        | EXTGLOB \<Rightarrow>
            (if needs_backtracking t
             then matchExtglobWithBacktracking P text t (\<lambda>j. matchTokens P text (ti + 1) j) i
             else case matchExtglob P text t i of (b, j) \<Rightarrow> b \<and> matchTokens P text (ti + 1) j)
        | BRACE \<Rightarrow>
            list_ex (\<lambda>a. case matchAlternativeTokens P text a i of
                            (b, j) \<Rightarrow> b \<and> matchTokens P text (ti + 1) j)
              (alternatives t))"
  by pat_completeness auto
termination
  by (relation "measure (\<lambda>(P, text, ti, i). length (pat_tokens P) - ti)") auto

declare matchTokens.simps [simp del]

definition match_pattern :: "MinimatchPattern \<Rightarrow> string \<Rightarrow> bool" where
  "match_pattern P text =
     (if \<not> compiled P then False
      else if pat_tokens P = [] then text = []
      else matchTokens P text 0 0)"

section \<open>Entry points\<close>

definition mk_pattern :: "bool \<Rightarrow> string \<Rightarrow> bool \<Rightarrow> glob_error + MinimatchPattern" where
  "mk_pattern apple pattern windows =
     (let obj = (\<lambda>ts. \<lparr>pat_tokens = ts, win = windows, original_pattern = pattern,
                       compiled = True, apple_build = apple\<rparr>)
      in if pattern = [] then Inr (obj [])
         else case tokenize windows pattern of Inl e \<Rightarrow> Inl e | Inr ts \<Rightarrow> Inr (obj ts))"

definition matchesGlob :: "bool \<Rightarrow> string \<Rightarrow> string \<Rightarrow> bool \<Rightarrow> glob_error + bool" where
  "matchesGlob apple text pattern windows =
     (case mk_pattern apple pattern windows of Inl e \<Rightarrow> Inl e | Inr P \<Rightarrow> Inr (match_pattern P text))"

text \<open>\<open>c_str()\<close>: the callers pass C strings, which end at the first null character.\<close>

definition c_str :: "string \<Rightarrow> string" where
  "c_str s = takeWhile (\<lambda>c. c \<noteq> CHR 0x00) s"

definition path_matchesGlob :: "bool \<Rightarrow> bool \<Rightarrow> string \<Rightarrow> string \<Rightarrow> glob_error + bool" where
  "path_matchesGlob apple windows path pattern =
     (if pattern = [] then Inr (path = [])
      else matchesGlob apple (c_str path) (c_str pattern) windows)"

abbreviation posix_matchesGlob :: "string \<Rightarrow> string \<Rightarrow> glob_error + bool" where
  "posix_matchesGlob \<equiv> path_matchesGlob False False"

abbreviation win32_matchesGlob :: "string \<Rightarrow> string \<Rightarrow> glob_error + bool" where
  "win32_matchesGlob \<equiv> path_matchesGlob False True"

end
