(* ===== verification/GlobSpec.thy ===== *)
theory GlobSpec
  imports GlobMatch
begin

text \<open>
  What the glob matcher guarantees: every index stays inside the text, the repetition loop ends, the
  backtracking search decides a declarative acceptance relation, and the meaning of the common
  pattern shapes. The patterns are those of POSIX (\<open>win\<close> and \<open>apple_build\<close> false) where a lemma says so.
\<close>

section \<open>Indices stay inside the text\<close>

definition stays :: "string \<Rightarrow> nat \<Rightarrow> bool \<times> nat \<Rightarrow> bool" where
  "stays text i r \<longleftrightarrow> i \<le> snd r \<and> snd r \<le> length text"

lemma literal_loop_bounds: "literal_loop P ts ls k = Some n \<Longrightarrow> k \<le> n \<and> n \<le> k + length ts"
proof (induction P ts ls k rule: literal_loop.induct)
  case (3 P t ts l ls k)
  have "length (takeWhile isPathSeparator (t # ts)) + length (dropWhile isPathSeparator (t # ts))
      = length (t # ts)"
    by (metis length_append takeWhile_dropWhile_id)
  with 3 show ?case
    by (fastforce split: if_splits)
qed auto

lemma stays_matchLiteral [glob_bounds]: "i \<le> length text \<Longrightarrow> stays text i (matchLiteral P text l i)"
  by (auto simp: stays_def matchLiteral_def dest: literal_loop_bounds split: option.split)

lemma stays_matchQuestion [glob_bounds]: "i \<le> length text \<Longrightarrow> stays text i (matchQuestion P text i n)"
  by (simp add: stays_def matchQuestion_def)

lemma stays_matchCharClass [glob_bounds]:
  "i \<le> length text \<Longrightarrow> stays text i (matchCharClass P text l b i)"
  by (simp add: stays_def matchCharClass_def Let_def)

lemma segment_end_bounds: "i \<le> length text \<Longrightarrow> i \<le> segment_end P text i \<and> segment_end P text i \<le> length text"
  using length_takeWhile_le [of "\<lambda>c. \<not> isPathSeparatorInText P c" "drop i text"]
  by (simp add: segment_end_def)

lemma stays_star [glob_bounds]:
  "i \<le> length text \<Longrightarrow> stays text i (b, segment_end P text i)"
  "i \<le> length text \<Longrightarrow> stays text i (matchStarInAlternative P text i)"
  using segment_end_bounds by (auto simp: stays_def matchStarInAlternative_def)

lemma stays_self [glob_bounds]: "i \<le> length text \<Longrightarrow> stays text i (b, i)"
  by (simp add: stays_def)

lemma stays_if [glob_bounds]:
  "stays text i r \<Longrightarrow> stays text i r' \<Longrightarrow> stays text i (if c then r else r')"
  by simp

lemma stays_try_alts:
  assumes "\<And>a. a \<in> set alts \<Longrightarrow> stays text i (m a i)" and "stays text i (b, cur)"
  shows "stays text i (try_alts m alts i cur)"
  using assms
proof (induction alts arbitrary: cur b)
  case (Cons a alts)
  obtain b' j where m: "m a i = (b', j)" by fastforce
  with Cons.prems(1) [of a] have "stays text i (False, j)" "stays text i (True, j)"
    by (auto simp: stays_def)
  with Cons m show ?case by (auto split: bool.split)
qed (simp add: stays_def)

lemma stays_repeat_loop:
  assumes "\<And>a i. a \<in> set alts \<Longrightarrow> i \<le> length text \<Longrightarrow> stays text i (m a i)" and "i \<le> length text"
  shows "i \<le> snd (repeat_loop n m text alts mx cnt i) \<and> snd (repeat_loop n m text alts mx cnt i) \<le> length text"
  using assms(2)
proof (induction n arbitrary: cnt i)
  case (Suc n)
  obtain b j where r: "try_alts m alts i i = (b, j)" by fastforce
  have "stays text i (b, j)"
    unfolding r [symmetric] using assms(1) Suc.prems by (intro stays_try_alts) (auto simp: stays_def)
  then have j: "i \<le> j" "j \<le> length text" by (auto simp: stays_def)
  with Suc.IH [of j "cnt + 1"] Suc.prems r show ?case
    by (simp split: bool.split)
qed simp

lemma stays_matchExtglob_with:
  assumes "\<And>a i. a \<in> set (alternatives t) \<Longrightarrow> i \<le> length text \<Longrightarrow> stays text i (m a i)"
    and "i \<le> length text"
  shows "stays text i (matchExtglob_with m text t i)"
proof -
  obtain b j where r: "try_alts m (alternatives t) i i = (b, j)" by fastforce
  have "stays text i (b, j)"
    unfolding r [symmetric] using assms by (intro stays_try_alts) (auto simp: stays_def)
  then have j: "i \<le> j" "j \<le> length text" by (auto simp: stays_def)
  have rep: "stays text i (matchExtglobRepeat_with m text (alternatives t) i mn mx)" for mn mx
  proof -
    obtain cnt k where "repeat_loop (Suc (length text)) m text (alternatives t) mx 0 i = (cnt, k)"
      by fastforce
    with stays_repeat_loop [of "alternatives t" "text" m i "Suc (length text)" mx 0] assms show ?thesis
      by (simp add: matchExtglobRepeat_with_def stays_def del: repeat_loop.simps)
  qed
  show ?thesis
    using j assms(2) r rep
    by (cases b) (simp_all add: matchExtglob_with_def Let_def stays_def)
qed

lemma stays_try_indices:
  "(\<And>j. j \<in> set is \<Longrightarrow> i \<le> j \<and> j \<le> length text) \<Longrightarrow>
   (\<And>j. j \<le> length text \<Longrightarrow> stays text j (k j)) \<Longrightarrow>
   i \<le> length text \<Longrightarrow> stays text i (try_indices k is i)"
proof (induction "is")
  case (Cons j js)
  then have "stays text j (k j)" "i \<le> j" by auto
  then have "stays text i (k j)" by (auto simp: stays_def)
  moreover have "stays text i (try_indices k js i)" using Cons by auto
  ultimately show ?case by (auto split: prod.split bool.split simp: stays_def)
qed (simp add: stays_def)

lemma stays_then_seq:
  assumes "stays text i r" "\<And>j. j \<le> length text \<Longrightarrow> stays text j (k j)" "i \<le> length text"
  shows "stays text i (then_seq i r k)"
proof -
  obtain b j where r: "r = (b, j)" by fastforce
  with assms have "stays text j (k j)" "i \<le> j" by (auto simp: stays_def)
  with r assms(3) show ?thesis
    by (auto simp: then_seq_def or_restore_def stays_def split: prod.split bool.split)
qed

lemma stays_try_braces:
  assumes "\<And>a. a \<in> set alts \<Longrightarrow> stays text i (m a i)"
    and "\<And>j. j \<le> length text \<Longrightarrow> stays text j (k j)" and "i \<le> length text"
  shows "stays text i (try_braces m k alts i)"
  using assms(1)
proof (induction alts)
  case (Cons a alts)
  obtain b j where m: "m a i = (b, j)" by fastforce
  with Cons.prems [of a] have "i \<le> j" "j \<le> length text" by (auto simp: stays_def)
  with assms(2) have "stays text i (k j)" by (fastforce simp: stays_def)
  with Cons m show ?case by (auto split: prod.split bool.split simp: stays_def)
qed (use assms(3) in \<open>simp add: stays_def\<close>)

lemma stays_alternative:
  "i \<le> length text \<Longrightarrow> stays text i (matchAlternativeTokens P text ts i)"
  "i \<le> length text \<Longrightarrow> stays text i (matchTokenSequence P text ts i)"
proof (induction P "text" ts i and P "text" ts i rule: matchAlternativeTokens_matchTokenSequence.induct)
  case (2 P "text" t i)
  have "stays text i (matchExtglob_with (matchAlternativeTokens P text) text t i)"
    if "ttype t = EXTGLOB"
    using that 2 by (intro stays_matchExtglob_with) auto
  with 2(2) show ?case
    by (cases "ttype t") (simp_all add: matchAlternativeTokens.simps glob_bounds split del: if_split)
next
  case (5 P "text" t ts i)
  note ih = "5.IH" and i = "5.prems"
  have alts: "stays text j (matchAlternativeTokens P text a j)"
    if "a \<in> set (alternatives t)" "j \<le> length text" "ttype t = EXTGLOB \<or> ttype t = BRACE" for a j
    using that ih by auto
  have seq: "stays text j (matchTokenSequence P text ts j)"
    if "j \<le> length text" "ttype t \<noteq> GLOBSTAR" "ttype t \<noteq> PATH_SEP" "ttype t = STAR \<longrightarrow> ts \<noteq> []" for j
    using that ih by (cases "ttype t") auto
  have star: "stays text i (try_indices (matchTokenSequence P text ts) [i..<Suc (segment_end P text i)] i)"
    if "ttype t = STAR" "ts \<noteq> []"
    using that i seq segment_end_bounds [OF i, of P] by (intro stays_try_indices) auto
  show ?case
    using i alts seq star
    by (cases "ts = []"; cases "ttype t")
      (simp_all add: matchTokenSequence.simps glob_bounds stays_then_seq stays_matchExtglob_with
        stays_try_braces del: upt_Suc split del: if_split)
qed (simp_all add: glob_bounds)

lemma stays_matchExtglob: "i \<le> length text \<Longrightarrow> stays text i (matchExtglob P text t i)"
  unfolding matchExtglob_def by (rule stays_matchExtglob_with) (auto intro: stays_alternative)

text \<open>The repetition loop: as many rounds as there are characters left are enough.\<close>

lemma repeat_loop_fuel:
  assumes "\<And>a i. i \<le> length text \<Longrightarrow> stays text i (m a i)"
  shows "i \<le> length text \<Longrightarrow> length text - i \<le> n \<Longrightarrow> length text - i \<le> n' \<Longrightarrow>
    repeat_loop n m text alts mx cnt i = repeat_loop n' m text alts mx cnt i"
proof (induction n arbitrary: n' cnt i)
  case 0
  then show ?case by (cases n') auto
next
  case (Suc n)
  show ?case
  proof (cases "i < length text")
    case False
    then show ?thesis by (cases n') auto
  next
    case True
    with Suc.prems obtain n'' where n'': "n' = Suc n''" by (cases n') auto
    obtain b j where r: "try_alts m alts i i = (b, j)" by fastforce
    have "stays text i (b, j)"
      unfolding r [symmetric] using assms True by (intro stays_try_alts) (auto simp: stays_def)
    then have j: "i \<le> j" "j \<le> length text" by (auto simp: stays_def)
    with Suc.IH [of j n'' "cnt + 1"] Suc.prems n'' r show ?thesis
      by (simp split: bool.split)
  qed
qed

section \<open>The acceptance relation\<close>

text \<open>
  What a pattern without extglobs and braces means on POSIX, independent of the search: a token
  sequence accepts a text when the text can be cut into pieces the tokens stand for. Two rules are
  particular to this matcher: a star or globstar refuses a segment that begins with a dot, and once
  the text is used up only stars may be left, a pattern \<open>*\<close> alone excepted.
\<close>

definition hidden_between :: "string \<Rightarrow> nat \<Rightarrow> nat \<Rightarrow> bool" where
  "hidden_between text i j \<longleftrightarrow>
     (i < j \<and> text ! i = CHR ''.'') \<or>
     (\<exists>k \<in> {i..<j}. text ! k = CHR ''/'' \<and> k + 1 < j \<and> text ! (k + 1) = CHR ''.'')"

definition starts_hidden :: "string \<Rightarrow> nat \<Rightarrow> bool" where
  "starts_hidden text i \<longleftrightarrow>
     (i = 0 \<or> text ! (i - 1) = CHR ''/'') \<and> i < length text \<and> text ! i = CHR ''.''"

inductive accepts :: "MinimatchPattern \<Rightarrow> string \<Rightarrow> nat \<Rightarrow> nat \<Rightarrow> bool"
  for P :: MinimatchPattern and "text" :: string where
  acc_end: "length (pat_tokens P) \<le> ti \<Longrightarrow> length text \<le> i \<Longrightarrow> accepts P text ti i"
| acc_empty: "ti < length (pat_tokens P) \<Longrightarrow> length text \<le> i \<Longrightarrow>
    \<forall>t \<in> set (drop ti (pat_tokens P)). ttype t = STAR \<or> ttype t = GLOBSTAR \<Longrightarrow>
    \<not> (length (pat_tokens P) = 1 \<and> ttype (pat_tokens P ! 0) = STAR) \<Longrightarrow> accepts P text ti i"
| acc_literal: "ti < length (pat_tokens P) \<Longrightarrow> i < length text \<Longrightarrow>
    ttype (pat_tokens P ! ti) = LITERAL \<Longrightarrow>
    take (length (tvalue (pat_tokens P ! ti))) (drop i text) = tvalue (pat_tokens P ! ti) \<Longrightarrow>
    accepts P text (ti + 1) (i + length (tvalue (pat_tokens P ! ti))) \<Longrightarrow> accepts P text ti i"
| acc_question: "ti < length (pat_tokens P) \<Longrightarrow> i < length text \<Longrightarrow>
    ttype (pat_tokens P ! ti) = QUESTION \<Longrightarrow> text ! i \<noteq> CHR ''/'' \<Longrightarrow>
    \<not> (i = 0 \<and> ti = 0 \<and> text ! i = CHR ''.'') \<Longrightarrow> accepts P text (ti + 1) (i + 1) \<Longrightarrow>
    accepts P text ti i"
| acc_class: "ti < length (pat_tokens P) \<Longrightarrow> i < length text \<Longrightarrow>
    ttype (pat_tokens P ! ti) = CHAR_CLASS \<Longrightarrow>
    isCharInClass P (text ! i) (tvalue (pat_tokens P ! ti)) False \<noteq> negated (pat_tokens P ! ti) \<Longrightarrow>
    accepts P text (ti + 1) (i + 1) \<Longrightarrow> accepts P text ti i"
| acc_sep: "ti < length (pat_tokens P) \<Longrightarrow> i < length text \<Longrightarrow>
    ttype (pat_tokens P ! ti) = PATH_SEP \<Longrightarrow> text ! i = CHR ''/'' \<Longrightarrow>
    accepts P text (ti + 1) (i + 1) \<Longrightarrow> accepts P text ti i"
| acc_star: "ti < length (pat_tokens P) \<Longrightarrow> i < length text \<Longrightarrow>
    ttype (pat_tokens P ! ti) = STAR \<Longrightarrow> \<not> starts_hidden text i \<Longrightarrow>
    i \<le> j \<Longrightarrow> j \<le> length text \<Longrightarrow> \<forall>k \<in> {i..<j}. text ! k \<noteq> CHR ''/'' \<Longrightarrow>
    accepts P text (ti + 1) j \<Longrightarrow> accepts P text ti i"
| acc_globstar_last: "ti + 1 = length (pat_tokens P) \<Longrightarrow> i < length text \<Longrightarrow>
    ttype (pat_tokens P ! ti) = GLOBSTAR \<Longrightarrow> \<not> hidden_between text i (length text) \<Longrightarrow>
    accepts P text ti i"
| acc_globstar_zero: "ti + 2 < length (pat_tokens P) \<Longrightarrow> i < length text \<Longrightarrow>
    ttype (pat_tokens P ! ti) = GLOBSTAR \<Longrightarrow> accepts P text (ti + 2) i \<Longrightarrow> accepts P text ti i"
| acc_globstar_segments: "ti + 1 < length (pat_tokens P) \<Longrightarrow> i < length text \<Longrightarrow>
    ttype (pat_tokens P ! ti) = GLOBSTAR \<Longrightarrow> i \<le> j \<Longrightarrow> j \<le> length text \<Longrightarrow>
    j < length text \<longrightarrow> text ! j = CHR ''/'' \<Longrightarrow> \<not> hidden_between text i j \<Longrightarrow>
    accepts P text (ti + 1) j \<Longrightarrow> accepts P text ti i"

definition posix :: "MinimatchPattern \<Rightarrow> bool" where
  "posix P \<longleftrightarrow> \<not> win P \<and> \<not> apple_build P"

text \<open>Tokens the tokenizer makes of a pattern without parentheses and braces.\<close>

fun simple_tokens :: "Token list \<Rightarrow> bool" where
  "simple_tokens [] = True"
| "simple_tokens (t # ts) =
     ((ttype t = LITERAL \<longrightarrow> tvalue t \<noteq> []) \<and> ttype t \<noteq> EXTGLOB \<and> ttype t \<noteq> BRACE \<and>
      (ttype t = GLOBSTAR \<longrightarrow> ts = [] \<or> ttype (hd ts) = PATH_SEP) \<and> simple_tokens ts)"

lemma simple_tokens_nth:
  "simple_tokens ts \<Longrightarrow> i < length ts \<Longrightarrow>
     (ttype (ts ! i) = LITERAL \<longrightarrow> tvalue (ts ! i) \<noteq> []) \<and>
     ttype (ts ! i) \<noteq> EXTGLOB \<and> ttype (ts ! i) \<noteq> BRACE \<and>
     (ttype (ts ! i) = GLOBSTAR \<longrightarrow> i + 1 < length ts \<longrightarrow> ttype (ts ! (i + 1)) = PATH_SEP)"
proof (induction ts arbitrary: i)
  case (Cons t ts)
  then show ?case
    by (cases i) (auto simp: hd_conv_nth neq_Nil_conv)
qed simp

section \<open>The search decides acceptance\<close>

lemma literal_loop_exact:
  "\<not> win P \<Longrightarrow> \<not> apple_build P \<Longrightarrow> length ls \<le> length ts \<Longrightarrow>
     literal_loop P ts ls k = (if take (length ls) ts = ls then Some (k + length ls) else None)"
proof (induction P ts ls k rule: literal_loop.induct)
  case (3 P t ts l ls k)
  then show ?case by (auto simp: shouldMatchCase_def)
qed auto

lemma matchLiteral_posix:
  "posix P \<Longrightarrow> i \<le> length text \<Longrightarrow> matchLiteral P text v i =
     (if take (length v) (drop i text) = v then (True, i + length v) else (False, i))"
  using arg_cong [where f = length, of "take (length v) (drop i text)" v]
  by (auto simp: matchLiteral_def posix_def literal_loop_exact)

lemma sep_in_text_posix [simp]: "posix P \<Longrightarrow> isPathSeparatorInText P c \<longleftrightarrow> c = CHR ''/''"
  by (simp add: isPathSeparatorInText_def posix_def)

lemma containsHidden_posix:
  "posix P \<Longrightarrow> j \<le> length text \<Longrightarrow>
     containsHiddenPathSegments P text i j \<longleftrightarrow> hidden_between text i j"
  by (auto simp: containsHiddenPathSegments_def hidden_between_def list_ex_iff)

lemma takeWhile_reaches:
  "j \<le> length xs \<Longrightarrow> j \<le> length (takeWhile P xs) \<longleftrightarrow> (\<forall>k < j. P (xs ! k))"
proof (induction xs arbitrary: j)
  case (Cons x xs)
  show ?case
  proof (cases j)
    case (Suc j')
    with Cons show ?thesis by (auto simp: less_Suc_eq_0_disj)
  qed simp
qed simp

lemma segment_end_iff:
  assumes "posix P" "i \<le> length text"
  shows "i \<le> j \<and> j \<le> segment_end P text i \<longleftrightarrow>
    i \<le> j \<and> j \<le> length text \<and> (\<forall>k \<in> {i..<j}. text ! k \<noteq> CHR ''/'')"
proof (cases "i \<le> j \<and> j \<le> length text")
  case True
  have "j \<le> segment_end P text i \<longleftrightarrow> j - i \<le> length (takeWhile (\<lambda>c. c \<noteq> CHR ''/'') (drop i text))"
    using assms True by (auto simp: segment_end_def)
  also have "\<dots> \<longleftrightarrow> (\<forall>k < j - i. drop i text ! k \<noteq> CHR ''/'')"
    using True by (intro takeWhile_reaches) auto
  also have "\<dots> \<longleftrightarrow> (\<forall>k \<in> {i..<j}. text ! k \<noteq> CHR ''/'')"
    using assms True
    by (auto simp: nth_drop) (metis add_diff_inverse_nat diff_less_mono not_less)
  finally show ?thesis using True by auto
qed (use segment_end_bounds [of i "text" P] assms in auto)

lemma hidden_between_join:
  assumes "\<not> hidden_between text i j" "i \<le> j" "j \<le> k" "j < k \<longrightarrow> text ! j = CHR ''/''"
  shows "hidden_between text j k \<longleftrightarrow> hidden_between text i k"
proof -
  have "text ! j \<noteq> CHR ''.''" if "j < k" using that assms(4) by auto
  with assms show ?thesis
    unfolding hidden_between_def
    by (smt (verit) Suc_eq_plus1 Suc_leI atLeastLessThan_iff le_less_trans less_le_trans
        linorder_not_less nat_less_le)
qed

lemma globstar_loop_segments:
  assumes P: "posix P"
  shows "sorted is \<Longrightarrow> (\<forall>j \<in> set is. start \<le> j \<and> j \<le> length text) \<Longrightarrow>
    globstar_loop P text True k start is \<longleftrightarrow>
      (\<exists>j \<in> set is. (j < length text \<longrightarrow> text ! j = CHR ''/'') \<and> \<not> hidden_between text start j \<and> k j)"
proof (induction "is" arbitrary: start)
  case (Cons i js)
  have js: "sorted js" "\<forall>j \<in> set js. start \<le> j \<and> j \<le> length text"
    "\<forall>j \<in> set js. i \<le> j \<and> j \<le> length text" and i: "start \<le> i" "i \<le> length text"
    using Cons.prems by auto
  have h: "containsHiddenPathSegments P text start i = hidden_between text start i"
    using P i by (simp add: containsHidden_posix)
  show ?case
  proof (cases "(i < length text \<longrightarrow> text ! i = CHR ''/'') \<and> \<not> hidden_between text start i \<and> \<not> k i")
    case True
    have join: "hidden_between text i j = hidden_between text start j" if "j \<in> set js" for j
      using True js(3) i that by (intro hidden_between_join) auto
    from True have "globstar_loop P text True k start (i # js) = globstar_loop P text True k i js"
      using h P by auto
    also have "\<dots> \<longleftrightarrow> (\<exists>j \<in> set js. (j < length text \<longrightarrow> text ! j = CHR ''/'') \<and>
        \<not> hidden_between text i j \<and> k j)"
      using Cons.IH js by blast
    also have "\<dots> \<longleftrightarrow> (\<exists>j \<in> set js. (j < length text \<longrightarrow> text ! j = CHR ''/'') \<and>
        \<not> hidden_between text start j \<and> k j)"
      using join by (intro bex_cong refl) auto
    finally show ?thesis using True by auto
  next
    case False
    then show ?thesis
      using h P Cons.IH [OF js(1,2)] by auto
  qed
qed simp

lemma rest_matches_empty_simple:
  assumes "simple_tokens ts" "ti < length ts"
  shows "rest_matches_empty ts ti \<longleftrightarrow>
    (\<forall>t \<in> set (drop ti ts). ttype t = STAR \<or> ttype t = GLOBSTAR) \<and>
    \<not> (length ts = 1 \<and> ttype (ts ! 0) = STAR)"
proof -
  have "can_match_empty t \<longleftrightarrow> ttype t = STAR \<or> ttype t = GLOBSTAR" if "t \<in> set (drop ti ts)" for t
  proof -
    have "t \<in> set ts" using that by (rule in_set_dropD)
    then obtain n where "n < length ts" "ts ! n = t" by (auto simp: in_set_conv_nth)
    with simple_tokens_nth [OF assms(1)] show ?thesis by (auto simp: can_match_empty_def)
  qed
  then show ?thesis by (auto simp: rest_matches_empty_def list_all_iff)
qed

lemma list_ex_star_range:
  assumes "posix P" "i \<le> length text"
  shows "list_ex k [i..<Suc (segment_end P text i)] \<longleftrightarrow>
    (\<exists>j. i \<le> j \<and> j \<le> length text \<and> (\<forall>n \<in> {i..<j}. text ! n \<noteq> CHR ''/'') \<and> k j)"
proof -
  have "list_ex k [i..<Suc (segment_end P text i)] \<longleftrightarrow> (\<exists>j. (i \<le> j \<and> j \<le> segment_end P text i) \<and> k j)"
    unfolding list_ex_iff by (auto simp: less_Suc_eq_le simp del: upt_Suc)
  then show ?thesis
    unfolding segment_end_iff [OF assms] by auto
qed

lemma accepts_iff:
  assumes "ti < length (pat_tokens P)" "i < length text"
  shows "accepts P text ti i \<longleftrightarrow>
    (let t = pat_tokens P ! ti in
     case ttype t of
       LITERAL \<Rightarrow> take (length (tvalue t)) (drop i text) = tvalue t \<and>
         accepts P text (ti + 1) (i + length (tvalue t))
     | QUESTION \<Rightarrow> text ! i \<noteq> CHR ''/'' \<and> \<not> (i = 0 \<and> ti = 0 \<and> text ! i = CHR ''.'') \<and>
         accepts P text (ti + 1) (i + 1)
     | CHAR_CLASS \<Rightarrow> isCharInClass P (text ! i) (tvalue t) False \<noteq> negated t \<and>
         accepts P text (ti + 1) (i + 1)
     | PATH_SEP \<Rightarrow> text ! i = CHR ''/'' \<and> accepts P text (ti + 1) (i + 1)
     | STAR \<Rightarrow> \<not> starts_hidden text i \<and>
         (\<exists>j. i \<le> j \<and> j \<le> length text \<and> (\<forall>k \<in> {i..<j}. text ! k \<noteq> CHR ''/'') \<and>
              accepts P text (ti + 1) j)
     | GLOBSTAR \<Rightarrow>
         (ti + 1 = length (pat_tokens P) \<and> \<not> hidden_between text i (length text)) \<or>
         (ti + 2 < length (pat_tokens P) \<and> accepts P text (ti + 2) i) \<or>
         (ti + 1 < length (pat_tokens P) \<and>
          (\<exists>j. i \<le> j \<and> j \<le> length text \<and> (j < length text \<longrightarrow> text ! j = CHR ''/'') \<and>
               \<not> hidden_between text i j \<and> accepts P text (ti + 1) j))
     | _ \<Rightarrow> False)"
  using assms
  by (subst accepts.simps) (cases "ttype (pat_tokens P ! ti)"; simp add: Let_def)

lemma accepts_end: "length (pat_tokens P) \<le> ti \<Longrightarrow> accepts P text ti i \<longleftrightarrow> length text \<le> i"
  by (subst accepts.simps) auto

lemma accepts_no_text:
  "ti < length (pat_tokens P) \<Longrightarrow> length text \<le> i \<Longrightarrow> accepts P text ti i \<longleftrightarrow>
    (\<forall>t \<in> set (drop ti (pat_tokens P)). ttype t = STAR \<or> ttype t = GLOBSTAR) \<and>
    \<not> (length (pat_tokens P) = 1 \<and> ttype (pat_tokens P ! 0) = STAR)"
  by (subst accepts.simps) auto

lemma matchStar_iff:
  assumes "posix P" "i < length text"
  shows "matchStar P text k i \<longleftrightarrow> \<not> starts_hidden text i \<and>
    (\<exists>j. i \<le> j \<and> j \<le> length text \<and> (\<forall>n \<in> {i..<j}. text ! n \<noteq> CHR ''/'') \<and> k j)"
  using assms list_ex_star_range [OF assms(1), of i "text" k]
  by (auto simp: matchStar_def Let_def starts_hidden_def simp del: upt_Suc)

lemma matchGlobstar_iff:
  assumes "posix P" "i < length text" "simple_tokens (pat_tokens P)" "ti < length (pat_tokens P)"
    and "ttype (pat_tokens P ! ti) = GLOBSTAR"
  shows "matchGlobstar P text ti k k2 i \<longleftrightarrow>
     (ti + 1 = length (pat_tokens P) \<and> \<not> hidden_between text i (length text)) \<or>
     (ti + 2 < length (pat_tokens P) \<and> k2 i) \<or>
     (ti + 1 < length (pat_tokens P) \<and>
      (\<exists>j. i \<le> j \<and> j \<le> length text \<and> (j < length text \<longrightarrow> text ! j = CHR ''/'') \<and>
           \<not> hidden_between text i j \<and> k j))"
proof (cases "ti + 1 < length (pat_tokens P)")
  case True
  with assms simple_tokens_nth [of "pat_tokens P" ti] have sep: "ttype (pat_tokens P ! (ti + 1)) = PATH_SEP"
    by auto
  have "globstar_loop P text True k i [i..<Suc (length text)] \<longleftrightarrow>
    (\<exists>j \<in> set [i..<Suc (length text)]. (j < length text \<longrightarrow> text ! j = CHR ''/'') \<and>
        \<not> hidden_between text i j \<and> k j)"
    by (rule globstar_loop_segments [OF assms(1)]) (auto simp del: upt_Suc)
  also have "\<dots> \<longleftrightarrow> (\<exists>j. i \<le> j \<and> j \<le> length text \<and> (j < length text \<longrightarrow> text ! j = CHR ''/'') \<and>
        \<not> hidden_between text i j \<and> k j)"
    by (auto simp: less_Suc_eq_le simp del: upt_Suc)
  finally show ?thesis
    using True sep by (auto simp: matchGlobstar_def simp del: upt_Suc)
next
  case False
  with assms show ?thesis by (auto simp: matchGlobstar_def containsHidden_posix)
qed

lemma matchTokens_accepts:
  assumes P: "posix P" and simple: "simple_tokens (pat_tokens P)"
  shows "i \<le> length text \<Longrightarrow> matchTokens P text ti i \<longleftrightarrow> accepts P text ti i"
proof (induction "length (pat_tokens P) - ti" arbitrary: ti i rule: less_induct)
  case less
  show ?case
  proof (cases "ti < length (pat_tokens P) \<and> i < length text")
    case False
    then show ?thesis
      using less.prems simple
      by (subst matchTokens.simps)
        (auto simp: accepts_end accepts_no_text rest_matches_empty_simple)
  next
    case True
    then have ti: "ti < length (pat_tokens P)" "i < length text" by auto
    let ?t = "pat_tokens P ! ti"
    have later: "matchTokens P text (ti + 1) j = accepts P text (ti + 1) j"
      "matchTokens P text (ti + 2) j = accepts P text (ti + 2) j" if "j \<le> length text" for j
      using less.hyps [of "ti + 1" j] less.hyps [of "ti + 2" j] ti that by auto
    have lit: "i + length v \<le> length text" if "take (length v) (drop i text) = v" for v
      using arg_cong [OF that, of length] ti by simp
    from simple_tokens_nth [OF simple ti(1)]
    have types: "ttype ?t \<noteq> EXTGLOB" "ttype ?t \<noteq> BRACE" by auto
    show ?thesis
      using ti less.prems types P simple later lit
      by (subst matchTokens.simps, subst accepts_iff [OF ti])
        (cases "ttype ?t"; auto simp: Let_def matchLiteral_posix matchQuestion_def matchCharClass_def
          skip_separators_def posix_def [of P] matchStar_iff matchGlobstar_iff split: if_splits)
  qed
qed

section \<open>Patterns without parentheses and braces\<close>

lemma no_extglob: "CHR ''('' \<notin> set p \<Longrightarrow> \<not> opens_extglob p i"
  by (auto simp: opens_extglob_def) (metis nth_mem)

lemma tokenize_step_simple:
  assumes "CHR ''('' \<notin> set p" "CHR ''{'' \<notin> set p" "i < length p" "tokenize_step w p i = r"
  shows "\<exists>t j. r = Inr (Some t, j) \<and> ttype t \<noteq> EXTGLOB \<and> ttype t \<noteq> BRACE \<and>
    (ttype t = LITERAL \<longrightarrow> tvalue t \<noteq> []) \<and>
    (ttype t = GLOBSTAR \<longrightarrow> length p \<le> j \<or> isPathSeparator (p ! j)) \<and>
    (isPathSeparator (p ! i) \<longrightarrow> ttype t = PATH_SEP)"
proof -
  have nb: "p ! i \<noteq> CHR ''{''" using assms(2,3) by (metis nth_mem)
  have star: "\<exists>t j. plain_star p i = (Some t, j) \<and> ttype t \<noteq> EXTGLOB \<and> ttype t \<noteq> BRACE \<and> ttype t \<noteq> LITERAL \<and>
      (ttype t = GLOBSTAR \<longrightarrow> length p \<le> j \<or> isPathSeparator (p ! j))"
    by (auto simp: plain_star_def isGlobstar_at_def)
  have cls: "parseCharClass p i = Some (t, j) \<Longrightarrow> ttype t = CHAR_CLASS" for t j
    by (auto dest: parseCharClass_progress)
  show ?thesis
  proof (cases "p ! i = CHR ''*''")
    case True
    with star assms(4) no_extglob [OF assms(1), of i] show ?thesis
      by (auto simp: tokenize_step_def Let_def isPathSeparator_def)
  next
    case ns: False
    show ?thesis
    proof (cases "p ! i \<in> {CHR ''/'', CHR 0x5C, CHR ''?'', CHR ''['', CHR ''@'', CHR ''!'', CHR ''+''}")
      case True
      with ns nb assms(4) no_extglob [OF assms(1), of i] cls show ?thesis
        by (auto simp: tokenize_step_def Let_def isPathSeparator_def split: option.split)
    next
      case False
      with ns nb have lit: "tok_literal_char (p ! i)" "\<not> isPathSeparator (p ! i)"
        by (auto simp: tok_literal_char_def isPathSeparator_def)
      with length_takeWhile_drop_pos(1) [OF assms(3), where P = tok_literal_char]
      have "takeWhile tok_literal_char (drop i p) \<noteq> []" by auto
      with False ns nb lit(2) assms(4) show ?thesis
        by (auto simp: tokenize_step_def Let_def)
    qed
  qed
qed

lemma tokenize_from_simple:
  assumes "CHR ''('' \<notin> set p" "CHR ''{'' \<notin> set p"
  shows "\<exists>ts. tokenize_from w p i = Inr ts \<and> simple_tokens ts \<and>
    (i < length p \<longrightarrow> ts \<noteq> []) \<and>
    (i < length p \<longrightarrow> isPathSeparator (p ! i) \<longrightarrow> ttype (hd ts) = PATH_SEP)"
proof (induction "length p - i" arbitrary: i rule: less_induct)
  case less
  show ?case
  proof (cases "i < length p")
    case True
    then obtain t j where step: "tokenize_step w p i = Inr (Some t, j)"
      and t: "ttype t \<noteq> EXTGLOB" "ttype t \<noteq> BRACE" "ttype t = LITERAL \<longrightarrow> tvalue t \<noteq> []"
        "ttype t = GLOBSTAR \<longrightarrow> length p \<le> j \<or> isPathSeparator (p ! j)"
        "isPathSeparator (p ! i) \<longrightarrow> ttype t = PATH_SEP"
      using tokenize_step_simple [OF assms True refl] by blast
    from tokenize_step_progress [OF True step] have j: "i < j" "j \<le> length p" by auto
    then have "length p - j < length p - i" using True by (intro diff_less_mono2) auto
    from less.hyps [OF this] obtain ts where ts: "tokenize_from w p j = Inr ts" "simple_tokens ts"
      "j < length p \<longrightarrow> ts \<noteq> []" "j < length p \<longrightarrow> isPathSeparator (p ! j) \<longrightarrow> ttype (hd ts) = PATH_SEP"
      by auto
    have "ttype t = GLOBSTAR \<longrightarrow> ts = [] \<or> ttype (hd ts) = PATH_SEP"
    proof (cases "j < length p")
      case False
      with ts(1) show ?thesis by simp
    qed (use t ts in auto)
    with True step t ts show ?thesis
      by (subst tokenize_from.simps) auto
  qed simp
qed

lemma mk_pattern_simple:
  assumes "CHR ''('' \<notin> set p" "CHR ''{'' \<notin> set p" "p \<noteq> []"
  shows "\<exists>P. mk_pattern False p False = Inr P \<and> posix P \<and> compiled P \<and> pat_tokens P \<noteq> [] \<and>
    simple_tokens (pat_tokens P) \<and> tokenize False p = Inr (pat_tokens P)"
  using tokenize_from_simple [OF assms(1,2), of False 0] assms(3)
  by (auto simp: mk_pattern_def tokenize_def posix_def)

section \<open>Patterns without wildcards\<close>

definition to_slash :: "char \<Rightarrow> char" where
  "to_slash c = (if c = CHR 0x5C then CHR ''/'' else c)"

definition glob_special :: "char set" where
  "glob_special = {CHR ''*'', CHR ''?'', CHR ''['', CHR ''('', CHR ''{''}"

text \<open>The text a token of such a pattern stands for.\<close>

definition token_text :: "Token \<Rightarrow> string" where
  "token_text t = (if ttype t = PATH_SEP then ''/'' else tvalue t)"

definition plain_token :: "Token \<Rightarrow> bool" where
  "plain_token t \<longleftrightarrow> ttype t = PATH_SEP \<or> (ttype t = LITERAL \<and> tvalue t \<noteq> [])"

lemma map_to_slash_literal: "map to_slash (takeWhile tok_literal_char xs) = takeWhile tok_literal_char xs"
  by (rule map_idI) (auto simp: to_slash_def tok_literal_char_def isPathSeparator_def dest: set_takeWhileD)

lemma takeWhile_append_drop: "takeWhile P xs @ drop (length (takeWhile P xs)) xs = xs"
  using append_take_drop_id [of "length (takeWhile P xs)" xs] by (simp add: takeWhile_eq_take [symmetric])

lemma tokenize_step_plain:
  assumes "set (drop i p) \<inter> glob_special = {}" "i < length p"
  shows "\<exists>t j. tokenize_step False p i = Inr (Some t, j) \<and> plain_token t \<and>
    map to_slash (drop i p) = token_text t @ map to_slash (drop j p)"
proof -
  from assms have in_p: "p ! i \<notin> glob_special" by (auto simp: drop_eq_Cons_nth)
  have "p ! (i + 1) \<notin> glob_special" if "i + 1 < length p"
    using assms that by (auto simp: drop_eq_Cons_nth)
  then have ne: "\<not> opens_extglob p i" by (auto simp: opens_extglob_def glob_special_def)
  have one: "map to_slash (drop i p) = to_slash (p ! i) # map to_slash (drop (Suc i) p)"
    using assms(2) by (simp add: drop_eq_Cons_nth)
  show ?thesis
  proof (cases "tok_literal_char (p ! i)")
    case True
    let ?l = "takeWhile tok_literal_char (drop i p)"
    have "?l \<noteq> []" using length_takeWhile_drop_pos(1) [OF assms(2), where P = tok_literal_char] True by auto
    moreover have "map to_slash (drop i p) = ?l @ map to_slash (drop (i + length ?l) p)"
    proof -
      have "drop i p = ?l @ drop (i + length ?l) p"
        using takeWhile_append_drop [of tok_literal_char "drop i p"] by (simp add: add.commute)
      then show ?thesis using map_to_slash_literal map_append by metis
    qed
    ultimately show ?thesis
      using True in_p
      by (auto simp: tokenize_step_def Let_def tok_literal_char_def isPathSeparator_def plain_token_def
          token_text_def)
  next
    case False
    with in_p have "p ! i \<in> {CHR ''/'', CHR 0x5C, CHR ''@'', CHR ''!'', CHR ''+''}"
      by (auto simp: tok_literal_char_def isPathSeparator_def glob_special_def)
    with ne one show ?thesis
      by (auto simp: tokenize_step_def Let_def plain_token_def token_text_def to_slash_def)
  qed
qed

lemma tokenize_from_plain:
  "set (drop i p) \<inter> glob_special = {} \<Longrightarrow> \<exists>ts. tokenize_from False p i = Inr ts \<and>
    (\<forall>t \<in> set ts. plain_token t) \<and> map to_slash (drop i p) = concat (map token_text ts)"
proof (induction "length p - i" arbitrary: i rule: less_induct)
  case less
  show ?case
  proof (cases "i < length p")
    case True
    from tokenize_step_plain [OF less.prems True] obtain t j
      where step: "tokenize_step False p i = Inr (Some t, j)" and t: "plain_token t"
        "map to_slash (drop i p) = token_text t @ map to_slash (drop j p)" by blast
    from tokenize_step_progress [OF True step] have j: "i < j" "j \<le> length p" by auto
    have "set (drop j p) \<subseteq> set (drop i p)" using j by (intro set_drop_subset_set_drop) simp
    with less.prems have "set (drop j p) \<inter> glob_special = {}" by blast
    moreover have "length p - j < length p - i" using True j by (intro diff_less_mono2) auto
    ultimately have "\<exists>ts. tokenize_from False p j = Inr ts \<and> (\<forall>t \<in> set ts. plain_token t) \<and>
        map to_slash (drop j p) = concat (map token_text ts)"
      using less.hyps by blast
    with step t True show ?thesis
      by (subst tokenize_from.simps) auto
  qed simp
qed

lemma take_drop_prefix: "take (length v) xs = v \<and> drop (length v) xs = w \<longleftrightarrow> xs = v @ w"
  by (metis append_eq_conv_conj)

lemma accepts_plain:
  "\<forall>t \<in> set (drop ti (pat_tokens P)). plain_token t \<Longrightarrow> i \<le> length s \<Longrightarrow> accepts P s ti i \<longleftrightarrow> drop i s = concat (map token_text (drop ti (pat_tokens P)))"
proof (induction "length (pat_tokens P) - ti" arbitrary: ti i rule: less_induct)
  case less
  show ?case
  proof (cases "ti < length (pat_tokens P)")
    case False
    with less.prems(2) show ?thesis by (auto simp: accepts_end)
  next
    case ti: True
    let ?t = "pat_tokens P ! ti"
    have d: "drop ti (pat_tokens P) = ?t # drop (Suc ti) (pat_tokens P)"
      using ti by (rule drop_eq_Cons_nth)
    have t: "plain_token ?t" "\<forall>t \<in> set (drop (Suc ti) (pat_tokens P)). plain_token t"
      using less.prems(1) d by auto
    then have ne: "token_text ?t \<noteq> []" by (auto simp: plain_token_def token_text_def)
    show ?thesis
    proof (cases "i < length s")
      case False
      with ti t d ne less.prems(2) show ?thesis
        by (auto simp: accepts_no_text plain_token_def)
    next
      case i: True
      have ih: "accepts P s (Suc ti) j \<longleftrightarrow> drop j s = concat (map token_text (drop (Suc ti) (pat_tokens P)))"
        if "j \<le> length s" for j
        using less.hyps [of "Suc ti" j] ti that t(2) by auto
      have "accepts P s ti i \<longleftrightarrow> take (length (token_text ?t)) (drop i s) = token_text ?t \<and>
          accepts P s (Suc ti) (i + length (token_text ?t))"
        using t i ti
        by (auto simp: accepts_iff Let_def plain_token_def token_text_def drop_eq_Cons_nth)
      also have "\<dots> \<longleftrightarrow> take (length (token_text ?t)) (drop i s) = token_text ?t \<and>
          drop (length (token_text ?t)) (drop i s) = concat (map token_text (drop (Suc ti) (pat_tokens P)))"
      proof (intro conj_cong refl)
        assume "take (length (token_text ?t)) (drop i s) = token_text ?t"
        from arg_cong [OF this, of length] i have "i + length (token_text ?t) \<le> length s" by simp
        from ih [OF this] show "accepts P s (Suc ti) (i + length (token_text ?t)) \<longleftrightarrow>
          drop (length (token_text ?t)) (drop i s) = concat (map token_text (drop (Suc ti) (pat_tokens P)))"
          by (simp add: add.commute)
      qed
      also have "\<dots> \<longleftrightarrow> drop i s = concat (map token_text (drop ti (pat_tokens P)))"
        unfolding take_drop_prefix d by simp
      finally show ?thesis .
    qed
  qed
qed

section \<open>Properties\<close>

text \<open>
  C1: with the rules of POSIX, in a build that is not for macOS, a non-empty pattern without parentheses and
  braces is compiled, and the backtracking search over its tokens answers exactly whether the acceptance
  relation holds of the whole text. In that relation, as in the code, a star and two stars never match a
  leading dot of a segment, a question mark refuses it at the beginning of the text only, and a negated
  character class does not refuse it.
\<close>

theorem glob_refines_acceptance:
  assumes "CHR ''('' \<notin> set p" "CHR ''{'' \<notin> set p" "p \<noteq> []"
  shows "\<exists>P. mk_pattern False p False = Inr P \<and> tokenize False p = Inr (pat_tokens P) \<and>
    match_pattern P s = accepts P s 0 0"
  using mk_pattern_simple [OF assms] matchTokens_accepts
  by (auto simp: match_pattern_def)

theorem glob_refines_acceptance_witness:
  "\<exists>P. mk_pattern False ''**/[ab]?'' False = Inr P \<and> tokenize False ''**/[ab]?'' = Inr (pat_tokens P) \<and>
    match_pattern P ''x/bc'' = accepts P ''x/bc'' 0 0"
  by (rule glob_refines_acceptance) simp_all

text \<open>
  Whatever token is tried, and whatever the verdict, the index a matcher of alternatives hands
  back is between the one it was given and the length of the text.
\<close>

theorem glob_index_in_bounds:
  assumes "i \<le> length text" "matchExtglob P text t i = (b, j)"
  shows "i \<le> j \<and> j \<le> length text"
  using stays_matchExtglob [OF assms(1), of P t] assms(2) by (simp add: stays_def)

theorem glob_index_in_bounds_witness: "2 \<le> (2::nat) \<and> (2::nat) \<le> length ''ab''"
  using glob_index_in_bounds [of 1 "''ab''"
      "\<lparr>pat_tokens = [], win = False, original_pattern = [], compiled = True, apple_build = False\<rparr>"
      "Token EXTGLOB ''!'' [] [] False" True 2]
  by (simp add: matchExtglob_def matchExtglob_with_def)

text \<open>
  C2: the greedy repetition of \<open>+(...)\<close> and \<open>*(...)\<close> ends: any number of rounds that is at least the
  number of characters left gives the result of the model's loop.
\<close>

theorem glob_repeat_terminates:
  assumes "i \<le> length text" "length text - i \<le> n"
  shows "repeat_loop n (matchAlternativeTokens P text) text alts mx 0 i =
    repeat_loop (Suc (length text)) (matchAlternativeTokens P text) text alts mx 0 i"
  using assms by (intro repeat_loop_fuel) (auto intro: stays_alternative)

theorem glob_repeat_terminates_witness:
  "\<forall>P. repeat_loop 2 (matchAlternativeTokens P ''ab'') ''ab'' [[mk_token QUESTION []]] 5 0 0 =
   repeat_loop 3 (matchAlternativeTokens P ''ab'') ''ab'' [[mk_token QUESTION []]] 5 0 0"
proof
  fix P
  show "repeat_loop 2 (matchAlternativeTokens P ''ab'') ''ab'' [[mk_token QUESTION []]] 5 0 0 =
    repeat_loop 3 (matchAlternativeTokens P ''ab'') ''ab'' [[mk_token QUESTION []]] 5 0 0"
    using glob_repeat_terminates [of 0 "''ab''" 2 P "[[mk_token QUESTION []]]" 5]
    by (simp add: eval_nat_numeral)
qed

text \<open>
  With the rules of POSIX, in a build that is not for macOS, a pattern without wildcards matches one path
  only: itself, with every backslash read as a slash. The signs \<open>@ ! +\<close> are ordinary characters where no parenthesis follows.
\<close>

theorem glob_plain_pattern:
  assumes "set p \<inter> glob_special = {}" "p \<noteq> []" "CHR 0x00 \<notin> set p" "CHR 0x00 \<notin> set s"
  shows "posix_matchesGlob s p = Inr (s = map to_slash p)"
proof -
  have c: "c_str p = p" "c_str s = s"
    using assms(3,4) by (auto simp: c_str_def takeWhile_eq_all_conv)
  from assms(1) have np: "CHR ''('' \<notin> set p" "CHR ''{'' \<notin> set p" by (auto simp: glob_special_def)
  from mk_pattern_simple [OF np assms(2)] obtain P where P: "mk_pattern False p False = Inr P" "posix P"
    "compiled P" "pat_tokens P \<noteq> []" "simple_tokens (pat_tokens P)" "tokenize False p = Inr (pat_tokens P)"
    by blast
  from tokenize_from_plain [of 0 p] assms(1) P(6)
  have plain: "\<forall>t \<in> set (pat_tokens P). plain_token t" "map to_slash p = concat (map token_text (pat_tokens P))"
    by (auto simp: tokenize_def)
  have "match_pattern P s \<longleftrightarrow> accepts P s 0 0"
    using matchTokens_accepts [OF P(2,5)] P(3,4) by (simp add: match_pattern_def)
  also have "\<dots> \<longleftrightarrow> s = map to_slash p"
    using accepts_plain [of 0 P 0 s] plain by simp
  finally show ?thesis
    using P(1) c assms(2) by (simp add: path_matchesGlob_def matchesGlob_def)
qed

theorem glob_plain_pattern_witness:
  "posix_matchesGlob ''a/b@c'' (''a'' @ [CHR 0x5C] @ ''b@c'') = Inr True"
  using glob_plain_pattern [of "''a'' @ [CHR 0x5C] @ ''b@c''" "''a/b@c''"]
  by (simp add: glob_special_def to_slash_def)

lemma tokenize_star_plain:
  assumes "set e \<inter> glob_special = {}" "e \<noteq> []"
  shows "\<exists>ts. tokenize False (CHR ''*'' # e) = Inr (mk_token STAR [] # ts) \<and>
    (\<forall>t \<in> set ts. plain_token t) \<and> concat (map token_text ts) = map to_slash e \<and> ts \<noteq> []"
proof -
  obtain c e' where e: "e = c # e'" using assms(2) by (cases e) auto
  with assms(1) have c: "c \<noteq> CHR ''*''" "c \<noteq> CHR ''(''" by (auto simp: glob_special_def)
  with e have "tokenize_step False (CHR ''*'' # e) 0 = Inr (Some (mk_token STAR []), 1)"
    by (simp add: tokenize_step_def opens_extglob_def plain_star_def)
  moreover obtain ts where "tokenize_from False (CHR ''*'' # e) 1 = Inr ts"
    "\<forall>t \<in> set ts. plain_token t" "map to_slash e = concat (map token_text ts)"
    using tokenize_from_plain [of 1 "CHR ''*'' # e"] assms(1) by auto
  moreover from this(3) e have "ts \<noteq> []" by auto
  ultimately show ?thesis
    unfolding tokenize_def by (subst tokenize_from.simps) auto
qed

text \<open>
  \<open>*\<close> followed by text without wildcards (\<open>*.js\<close>) matches on POSIX exactly the names that end in
  that text, have no slash before it, and do not begin with a dot.
\<close>

theorem glob_star_suffix:
  assumes "set e \<inter> glob_special = {}" "e \<noteq> []" "CHR 0x00 \<notin> set e" "CHR 0x00 \<notin> set s"
  shows "posix_matchesGlob s (''*'' @ e) =
    Inr (\<exists>n. s = n @ map to_slash e \<and> CHR ''/'' \<notin> set n \<and> s ! 0 \<noteq> CHR ''.'')"
proof -
  let ?p = "CHR ''*'' # e"
  have c: "c_str ?p = ?p" "c_str s = s"
    using assms(3,4) by (auto simp: c_str_def takeWhile_eq_all_conv)
  from assms(1) have np: "CHR ''('' \<notin> set ?p" "CHR ''{'' \<notin> set ?p" by (auto simp: glob_special_def)
  from mk_pattern_simple [OF np] obtain P where P: "mk_pattern False ?p False = Inr P" "posix P"
    "compiled P" "simple_tokens (pat_tokens P)" "tokenize False ?p = Inr (pat_tokens P)"
    by blast
  from tokenize_star_plain [OF assms(1,2)] P(5) obtain ts where ts: "pat_tokens P = mk_token STAR [] # ts"
    "\<forall>t \<in> set ts. plain_token t" "concat (map token_text ts) = map to_slash e" "ts \<noteq> []" by auto
  have "match_pattern P s \<longleftrightarrow> accepts P s 0 0"
    using matchTokens_accepts [OF P(2,4)] P(3) ts(1) by (simp add: match_pattern_def)
  also have "\<dots> \<longleftrightarrow> (\<exists>n. s = n @ map to_slash e \<and> CHR ''/'' \<notin> set n \<and> s ! 0 \<noteq> CHR ''.'')"
  proof (cases "s = []")
    case True
    have "\<exists>t \<in> set ts. ttype t \<noteq> STAR \<and> ttype t \<noteq> GLOBSTAR"
      using ts(2,4) by (cases ts) (auto simp: plain_token_def)
    with True ts assms(2) show ?thesis by (auto simp: accepts_no_text)
  next
    case False
    have "accepts P s 0 0 \<longleftrightarrow> \<not> starts_hidden s 0 \<and>
        (\<exists>j \<le> length s. (\<forall>k \<in> {0..<j}. s ! k \<noteq> CHR ''/'') \<and> accepts P s 1 j)"
      using False ts(1) by (subst accepts_iff) auto
    also have "\<dots> \<longleftrightarrow> s ! 0 \<noteq> CHR ''.'' \<and>
        (\<exists>j \<le> length s. CHR ''/'' \<notin> set (take j s) \<and> drop j s = map to_slash e)"
      using False accepts_plain [of 1 P _ s] ts
      by (auto simp: starts_hidden_def in_set_conv_nth)
    also have "\<dots> \<longleftrightarrow> (\<exists>n. s = n @ map to_slash e \<and> CHR ''/'' \<notin> set n \<and> s ! 0 \<noteq> CHR ''.'')"
      by (metis append_eq_conv_conj append_take_drop_id le_add1 length_append)
    finally show ?thesis .
  qed
  finally show ?thesis
    using P(1) c by (simp add: path_matchesGlob_def matchesGlob_def)
qed

theorem glob_star_suffix_witness: "posix_matchesGlob ''foo.js'' ''*.js'' = Inr True"
  using glob_star_suffix [of "''.js''" "''foo.js''"]
  by (simp add: glob_special_def to_slash_def)

text \<open>
  \<open>**\<close> alone matches a POSIX path, the empty one included, exactly when no segment of it begins
  with a dot.
\<close>

theorem glob_globstar:
  assumes "CHR 0x00 \<notin> set s"
  shows "posix_matchesGlob s ''**'' = Inr (\<not> hidden_between s 0 (length s))"
proof -
  have c: "c_str ''**'' = ''**''" "c_str s = s"
    using assms by (auto simp: c_str_def takeWhile_eq_all_conv)
  have tok: "tokenize False ''**'' = Inr [mk_token GLOBSTAR []]"
    by (simp add: tokenize_def tokenize_from.simps tokenize_step_def opens_extglob_def plain_star_def
        isGlobstar_at_def)
  obtain P where P: "mk_pattern False ''**'' False = Inr P" "posix P" "compiled P"
    "simple_tokens (pat_tokens P)" "pat_tokens P = [mk_token GLOBSTAR []]"
    using mk_pattern_simple [of "''**''"] tok by auto
  have "match_pattern P s \<longleftrightarrow> accepts P s 0 0"
    using matchTokens_accepts [OF P(2,4)] P(3,5) by (simp add: match_pattern_def)
  also have "\<dots> \<longleftrightarrow> \<not> hidden_between s 0 (length s)"
    using P(5) by (cases "s = []") (auto simp: accepts_no_text accepts_iff hidden_between_def)
  finally show ?thesis
    using P(1) c by (simp add: path_matchesGlob_def matchesGlob_def)
qed

theorem glob_globstar_witness: "posix_matchesGlob ''a/.b'' ''**'' = Inr False"
  using glob_globstar [of "''a/.b''"] by (simp add: hidden_between_def atLeast0_lessThan_Suc eval_nat_numeral)

section \<open>Numeric ranges\<close>

lemma scanClose_plain:
  "opn \<notin> set xs \<Longrightarrow> cls \<notin> set xs \<Longrightarrow> opn \<noteq> cls \<Longrightarrow>
     scanClose opn cls 1 (xs @ cls # ys) = Some (Suc (length xs))"
  by (induction xs) auto

lemma find_dotdot_skip:
  "CHR ''.'' \<notin> set xs \<Longrightarrow> find_dotdot (xs @ CHR ''.'' # CHR ''.'' # ys) = Some (length xs)"
proof (induction xs)
  case (Cons x xs)
  then show ?case by (cases "xs @ CHR ''.'' # CHR ''.'' # ys") auto
qed simp

lemma nat_to_string_no_zero:
  "1 < length (nat_to_string n) \<Longrightarrow> nat_to_string n ! 0 \<noteq> CHR ''0''"
proof (induction n rule: nat_to_string.induct)
  case (1 n)
  then have n: "\<not> n < 10" by (auto simp: nat_to_string.simps [of n])
  show ?case
  proof (cases "n div 10 < 10")
    case True
    then have "nat_to_string n ! 0 = digit_char (n div 10)"
      using n by (simp add: nat_to_string.simps [of n] nat_to_string.simps [of "n div 10"])
    moreover have "code (digit_char (n div 10)) \<noteq> code CHR ''0''"
      using True n by (simp add: code_digit_char)
    ultimately show ?thesis by metis
  next
    case False
    then have l: "1 < length (nat_to_string (n div 10))"
      by (subst nat_to_string.simps) simp
    with 1(1) n have "nat_to_string (n div 10) ! 0 \<noteq> CHR ''0''" by simp
    with n l show ?thesis by (subst nat_to_string.simps) (simp add: nth_append)
  qed
qed

lemma nat_to_string_plain:
  "\<not> c_isdigit c \<Longrightarrow> c \<notin> set (nat_to_string n)"
  using nat_to_string_digits by blast

lemma numeric_alts_to_string:
  assumes "a \<le> INT_MAX" "b \<le> INT_MAX" "\<not> (a \<le> b \<and> b = INT_MAX)"
  shows "numeric_alts (nat_to_string a) (nat_to_string b) = Inr (map nat_to_string (numeric_range a b))"
  using assms nat_to_string_no_zero [of a] nat_to_string_no_zero [of b]
  by (auto simp: numeric_alts_def Let_def)

lemma set_numeric_range [simp]: "set (numeric_range a b) = {min a b..max a b}"
  by (auto simp: numeric_range_def)

abbreviation range_pattern :: "nat \<Rightarrow> nat \<Rightarrow> string" where
  "range_pattern a b \<equiv> CHR ''{'' # nat_to_string a @ ''..'' @ nat_to_string b @ ''}''"

lemma brace_sequence_range:
  "brace_sequence (nat_to_string a @ ''..'' @ nat_to_string b) =
     Some (numeric_alts (nat_to_string a) (nat_to_string b))"
  using nat_to_string_plain [of "CHR ''.''" a] nat_to_string_digits
  by (auto simp: brace_sequence_def find_dotdot_skip c_isdigit_def Let_def)

lemma scanBrace_range:
  "scanBrace (range_pattern a b) 0 =
     (case numeric_alts (nat_to_string a) (nat_to_string b) of
        Inl e \<Rightarrow> Some (Inl e)
      | Inr lits \<Rightarrow> Some (Inr (Sequence lits, length (range_pattern a b))))"
proof -
  let ?c = "nat_to_string a @ ''..'' @ nat_to_string b"
  have "scanClose CHR ''{'' CHR ''}'' 1 (?c @ CHR ''}'' # []) = Some (Suc (length ?c))"
    using nat_to_string_plain [of "CHR ''{''"] nat_to_string_plain [of "CHR ''}''"]
    by (intro scanClose_plain) (auto simp: c_isdigit_def)
  then show ?thesis
    using brace_sequence_range [of a b] by (simp add: scanBrace_def Let_def split: sum.split)
qed

text \<open>
  The pattern \<open>{a..b}\<close> matches on POSIX exactly the decimal numerals between the two bounds,
  whichever of them is the larger, as long as the bounds and the loop counter fit an \<open>int\<close>.
\<close>

theorem glob_numeric_range:
  assumes "a \<le> INT_MAX" "b \<le> INT_MAX" "\<not> (a \<le> b \<and> b = INT_MAX)" "CHR 0x00 \<notin> set s"
  shows "posix_matchesGlob s (range_pattern a b) =
    Inr (\<exists>n. min a b \<le> n \<and> n \<le> max a b \<and> s = nat_to_string n)"
proof -
  let ?p = "range_pattern a b"
  let ?alts = "map (\<lambda>n. [mk_token LITERAL (nat_to_string n)]) (numeric_range a b)"
  let ?t = "Token BRACE [] [] ?alts False"
  let ?P = "\<lparr>pat_tokens = [?t], win = False, original_pattern = ?p, compiled = True, apple_build = False\<rparr>"
  have c: "c_str ?p = ?p" "c_str s = s"
    using nat_to_string_plain [of "CHR 0x00"] assms(4)
    by (auto simp: c_str_def takeWhile_eq_all_conv c_isdigit_def)
  have "parseBraceExpansion ?p 0 = Some (Inr (?t, length ?p))"
    using scanBrace_range [of a b] numeric_alts_to_string [OF assms(1-3)]
    by (simp add: parseBraceExpansion_def parseBraceExpansion_with_def comp_def)
  then have "tokenize_step False ?p 0 = Inr (Some ?t, length ?p)"
    by (simp add: tokenize_step_def)
  then have P: "mk_pattern False ?p False = Inr ?P"
    unfolding mk_pattern_def tokenize_def by (subst tokenize_from.simps) simp
  have "match_pattern ?P s \<longleftrightarrow> (\<exists>n. min a b \<le> n \<and> n \<le> max a b \<and> s = nat_to_string n)"
  proof (cases "s = []")
    case True
    then show ?thesis
      using nat_to_string_not_Nil [symmetric]
      by (auto simp: match_pattern_def matchTokens.simps rest_matches_empty_def can_match_empty_def
          has_empty_alternative_def list_ex_iff)
  next
    case False
    have "matchLiteral ?P s v 0 = (if take (length v) s = v then (True, length v) else (False, 0))" for v
      using matchLiteral_posix [of ?P 0 s v] by (simp add: posix_def)
    with False show ?thesis
      by (auto simp: match_pattern_def matchTokens.simps matchAlternativeTokens.simps list_ex_iff
          split: if_splits)
  qed
  then show ?thesis
    using P c by (simp add: path_matchesGlob_def matchesGlob_def)
qed

theorem glob_numeric_range_witness: "posix_matchesGlob ''4'' (range_pattern 9 3) = Inr True"
proof -
  have "''4'' = nat_to_string 4" by code_simp
  then have "\<exists>n. min 9 3 \<le> n \<and> n \<le> max 9 3 \<and> ''4'' = nat_to_string n" by (intro exI [of _ 4]) simp
  with glob_numeric_range [of 9 3 "''4''"] show ?thesis by (simp add: INT_MAX_def)
qed

text \<open>
  A bound that does not fit an \<open>int\<close> makes \<open>std::stoi\<close> throw out of \<open>matchesGlob\<close>: the pattern
  has no verdict on any path.
\<close>

lemma glob_numeric_range_overflow:
  assumes "INT_MAX < a \<or> INT_MAX < b"
  shows "path_matchesGlob apple windows s (range_pattern a b) = Inl StoiOutOfRange"
proof -
  let ?p = "range_pattern a b"
  have c: "c_str ?p = ?p"
    using nat_to_string_plain [of "CHR 0x00"] by (auto simp: c_str_def takeWhile_eq_all_conv c_isdigit_def)
  have "parseBraceExpansion ?p 0 = Some (Inl StoiOutOfRange)"
    using scanBrace_range [of a b] assms
    by (simp add: parseBraceExpansion_def parseBraceExpansion_with_def numeric_alts_def)
  then have "tokenize_step windows ?p 0 = Inl StoiOutOfRange"
    by (simp add: tokenize_step_def)
  then have "mk_pattern apple ?p windows = Inl StoiOutOfRange"
    unfolding mk_pattern_def tokenize_def by (subst tokenize_from.simps) simp
  then show ?thesis
    using c by (simp add: path_matchesGlob_def matchesGlob_def)
qed

theorem glob_numeric_range_overflow_witness:
  "path_matchesGlob False False ''1'' (range_pattern 1 99999999999) = Inl StoiOutOfRange"
  using glob_numeric_range_overflow [of 1 99999999999 False False "''1''"] by (simp add: INT_MAX_def)

section \<open>A brace inside an alternative that has a star\<close>

lemma tokenize_star_brace:
  "tokenize False ''@(*.{js,ts})'' = Inr [Token EXTGLOB ''@'' []
     [[mk_token STAR [], mk_token LITERAL ''.'',
       Token BRACE [] [] [[mk_token LITERAL ''js''], [mk_token LITERAL ''ts'']] False]] False]"
  by code_simp

lemma tokenize_star_brace_plain:
  "tokenize False ''*.{js,ts}'' = Inr [mk_token STAR [], mk_token LITERAL ''.'',
       Token BRACE [] [] [[mk_token LITERAL ''js''], [mk_token LITERAL ''ts'']] False]"
  by code_simp

lemma backtrack_brace:
  "ttype t = LITERAL \<Longrightarrow> ttype u = BRACE \<Longrightarrow>
     \<not> matchTokenSequenceWithFullBacktrack P text k (t # u # ts) i"
  by (auto split: prod.split bool.split)

text \<open>
  \<open>matchTokenSequenceWithFullBacktrack\<close> has no case for braces: \<open>@(*.{js,ts})\<close> matches no path
  at all, although \<open>*.{js,ts}\<close> matches \<open>a.js\<close>.
\<close>

lemma glob_at_star_brace_never_matches:
  "posix_matchesGlob s ''@(*.{js,ts})'' = Inr False \<and>
   posix_matchesGlob ''a.js'' ''*.{js,ts}'' = Inr True"
proof
  have c: "c_str ''@(*.{js,ts})'' = ''@(*.{js,ts})''" by (simp add: c_str_def)
  show "posix_matchesGlob s ''@(*.{js,ts})'' = Inr False"
    using c tokenize_star_brace
    by (cases "c_str s = []")
      (simp_all add: path_matchesGlob_def matchesGlob_def mk_pattern_def match_pattern_def
        matchTokens.simps [of _ "c_str s" 0 0] matchTokens.simps [of _ "[]" 0 0] rest_matches_empty_def can_match_empty_def
        has_empty_alternative_def needs_backtracking_def matchExtglobWithBacktracking_def list_ex_iff
        Let_def
        matchTokenSequenceWithFullBacktrack.simps(2) [of _ _ _ "mk_token STAR []"] backtrack_brace
        del: upt_Suc matchTokenSequenceWithFullBacktrack.simps)
  have c: "c_str ''*.{js,ts}'' = ''*.{js,ts}''" "c_str ''a.js'' = ''a.js''" by (simp_all add: c_str_def)
  show "posix_matchesGlob ''a.js'' ''*.{js,ts}'' = Inr True"
    using c tokenize_star_brace_plain
    by (simp add: path_matchesGlob_def matchesGlob_def mk_pattern_def match_pattern_def
        matchTokens.simps matchStar_def segment_end_def isPathSeparatorInText_def matchLiteral_def
        shouldMatchCase_def matchAlternativeTokens.simps upt_rec)
qed

section \<open>Dots that wildcards match\<close>

lemma tokenize_question: "tokenize False ''a/?b'' = Inr [mk_token LITERAL ''a'', mk_token PATH_SEP ''/'', mk_token QUESTION [], mk_token LITERAL ''b'']"
  by code_simp

lemma tokenize_not_x: "tokenize False ''[!x]a'' = Inr [Token CHAR_CLASS ''x'' [] [] True, mk_token LITERAL ''a'']"
  by code_simp

text \<open>
  A question mark refuses a dot at the very beginning of the text only, and a negated character class never
  does, although the documentation says that dotfiles are matched by an explicit dot only.
\<close>

lemma dot_matched_by_wildcard:
  "posix_matchesGlob ''a/.b'' ''a/?b'' = Inr True" "posix_matchesGlob ''.a'' ''[!x]a'' = Inr True"
proof -
  have c: "c_str ''a/?b'' = ''a/?b''" "c_str ''a/.b'' = ''a/.b''" "c_str ''[!x]a'' = ''[!x]a''" "c_str ''.a'' = ''.a''"
    by (simp_all add: c_str_def)
  note go = path_matchesGlob_def matchesGlob_def mk_pattern_def match_pattern_def matchTokens.simps isPathSeparatorInText_def
    matchLiteral_def matchQuestion_def matchCharClass_def isCharInClass_def shouldMatchCase_def skip_separators_def Let_def
  show "posix_matchesGlob ''a/.b'' ''a/?b'' = Inr True"
    using c tokenize_question by (simp add: go)
  show "posix_matchesGlob ''.a'' ''[!x]a'' = Inr True"
    using c tokenize_not_x by (simp add: go)
qed

end
