(* ===== verification/TextCodec.thy ===== *)
theory TextCodec
  imports Prelude
begin

text \<open>
  The contract of a binary-to-text codec, which hex, base32 and base64 provide and multibase relies
  on: decoding gives back the data that was encoded. Encoders also promise a bound on the text they
  write into a buffer sized in advance, decoders a bound on the bytes.
\<close>

locale text_codec =
  fixes enc :: "byte list \<Rightarrow> string" and dec :: "string \<Rightarrow> byte list"
  assumes dec_enc: "dec (enc d) = d"
begin

lemma enc_inject: "enc d = enc d' \<longleftrightarrow> d = d'"
  using dec_enc by metis

lemma dec_onto: "\<exists>s. dec s = d"
  using dec_enc by blast

lemma enc_nonempty: "d \<noteq> [] \<Longrightarrow> enc [] = [] \<Longrightarrow> enc d \<noteq> []"
  using enc_inject by metis

end

text \<open>A codec behind a one-character prefix, as multibase writes it.\<close>

locale prefixed_codec = text_codec +
  fixes prefix :: char
begin

definition tagged :: "byte list \<Rightarrow> string" where
  "tagged d = prefix # enc d"

lemma tagged_dec: "dec (tl (tagged d)) = d" "hd (tagged d) = prefix" "tagged d \<noteq> []"
  by (simp_all add: tagged_def dec_enc)

lemma tagged_inject: "tagged d = tagged d' \<longleftrightarrow> d = d'"
  by (simp add: tagged_def enc_inject)

end

end
