(* ===== verification/HexCodec.thy ===== *)
theory HexCodec
  imports TextCodec
begin

text \<open>
  The hexadecimal codec of \<^verbatim>\<open>src/encoding/encoding.cpp\<close>: \<open>hexEncode\<close>, \<open>kHexTable\<close> and
  \<open>hexDecodeImpl\<close> with both treatments of invalid characters, each with its scalar loop and its SSE2
  loop (an SSE2 register is the list of its bytes, 16-bit operations join two neighbours in
  little-endian order). The argument \<open>sse2\<close> stands for the macro \<open>__SSE2__\<close>.
\<close>

section \<open>SSE2 operations\<close>

definition lane16 :: "byte \<Rightarrow> byte \<Rightarrow> 16 word" where
  "lane16 lo hi = ucast lo OR push_bit 8 (ucast hi)"

fun srli_epi16 :: "nat \<Rightarrow> byte list \<Rightarrow> byte list" where
  "srli_epi16 n (a # b # bs) =
     (let w = drop_bit n (lane16 a b) in ucast w # ucast (drop_bit 8 w) # srli_epi16 n bs)"
| "srli_epi16 n bs = bs"

definition cmpgt_epi8 :: "byte \<Rightarrow> byte \<Rightarrow> byte" where
  "cmpgt_epi8 a b = (if sint a > sint b then 0xFF else 0)"

fun unpacklo_epi8 :: "byte list \<Rightarrow> byte list \<Rightarrow> byte list" where
  "unpacklo_epi8 (a # as) (b # bs) = a # b # unpacklo_epi8 as bs"
| "unpacklo_epi8 _ _ = []"

text \<open>\<open>packus\<close>: a signed 16-bit value saturated to an unsigned byte.\<close>

definition packus :: "16 word \<Rightarrow> byte" where
  "packus w = (if sint w < 0 then 0 else if sint w > 255 then 255 else ucast w)"

section \<open>Encoding\<close>

definition HexChar :: "bool \<Rightarrow> string" where
  "HexChar upper = (if upper then ''0123456789ABCDEF'' else ''0123456789abcdef'')"

definition hexEncode_scalar :: "bool \<Rightarrow> byte list \<Rightarrow> string" where
  "hexEncode_scalar upper data =
     concat (map (\<lambda>ch. [HexChar upper ! unat (drop_bit 4 ch), HexChar upper ! unat (ch AND 0xF)]) data)"

text \<open>One round of the SSE2 loop: the 16 characters of a block of 8 bytes.\<close>

definition nibble_ascii :: "bool \<Rightarrow> byte \<Rightarrow> byte" where
  "nibble_ascii upper v = v + (0x30 + (cmpgt_epi8 v 9 AND (if upper then 0x07 else 0x27)))"

definition hexEncode_block :: "bool \<Rightarrow> byte list \<Rightarrow> string" where
  "hexEncode_block upper v =
     (let hi = map (\<lambda>b. b AND 0x0F) (srli_epi16 4 (map (\<lambda>b. b AND 0xF0) v));
          lo = map (\<lambda>b. b AND 0x0F) v
      in map (\<lambda>b. char_of (unat b)) (unpacklo_epi8 (map (nibble_ascii upper) hi) (map (nibble_ascii upper) lo)))"

function hexEncode_sse2 :: "bool \<Rightarrow> byte list \<Rightarrow> string" where
  "hexEncode_sse2 upper data =
     (if 8 \<le> length data
      then hexEncode_block upper (take 8 data) @ hexEncode_sse2 upper (drop 8 data)
      else hexEncode_scalar upper data)"
  by pat_completeness auto
termination by (relation "measure (\<lambda>(u, d). length d)") auto

declare hexEncode_sse2.simps [simp del]

definition hexEncode :: "bool \<Rightarrow> bool \<Rightarrow> byte list \<Rightarrow> string" where
  "hexEncode sse2 upper data =
     (if sse2 then hexEncode_sse2 upper data else hexEncode_scalar upper data)"

section \<open>Decoding\<close>

definition kHexTable :: "int list" where
  "kHexTable =
    [-1, -1, -1, -1, -1, -1, -1, -1, -1, -1, -1, -1, -1, -1, -1, -1,
     -1, -1, -1, -1, -1, -1, -1, -1, -1, -1, -1, -1, -1, -1, -1, -1,
     -1, -1, -1, -1, -1, -1, -1, -1, -1, -1, -1, -1, -1, -1, -1, -1,
      0,  1,  2,  3,  4,  5,  6,  7,  8,  9, -1, -1, -1, -1, -1, -1,
     -1, 10, 11, 12, 13, 14, 15, -1, -1, -1, -1, -1, -1, -1, -1, -1,
     -1, -1, -1, -1, -1, -1, -1, -1, -1, -1, -1, -1, -1, -1, -1, -1,
     -1, 10, 11, 12, 13, 14, 15, -1, -1, -1, -1, -1, -1, -1, -1, -1,
     -1, -1, -1, -1, -1, -1, -1, -1, -1, -1, -1, -1, -1, -1, -1, -1,
     -1, -1, -1, -1, -1, -1, -1, -1, -1, -1, -1, -1, -1, -1, -1, -1,
     -1, -1, -1, -1, -1, -1, -1, -1, -1, -1, -1, -1, -1, -1, -1, -1,
     -1, -1, -1, -1, -1, -1, -1, -1, -1, -1, -1, -1, -1, -1, -1, -1,
     -1, -1, -1, -1, -1, -1, -1, -1, -1, -1, -1, -1, -1, -1, -1, -1,
     -1, -1, -1, -1, -1, -1, -1, -1, -1, -1, -1, -1, -1, -1, -1, -1,
     -1, -1, -1, -1, -1, -1, -1, -1, -1, -1, -1, -1, -1, -1, -1, -1,
     -1, -1, -1, -1, -1, -1, -1, -1, -1, -1, -1, -1, -1, -1, -1, -1,
     -1, -1, -1, -1, -1, -1, -1, -1, -1, -1, -1, -1, -1, -1, -1, -1]"

datatype HexInvalid = kStop | kSkip

definition hex_value :: "char \<Rightarrow> int" where
  "hex_value c = kHexTable ! code c"

definition nibbles :: "int \<Rightarrow> int \<Rightarrow> byte" where
  "nibbles hi lo = push_bit 4 (word_of_int hi) OR word_of_int lo"

fun hex_stop :: "string \<Rightarrow> nat \<Rightarrow> byte list" where
  "hex_stop (a # b # cs) cap =
     (if cap = 0 then []
      else if hex_value a < 0 then []
      else if hex_value b < 0 then []
      else nibbles (hex_value a) (hex_value b) # hex_stop cs (cap - 1))"
| "hex_stop _ cap = []"

fun hex_skip :: "string \<Rightarrow> nat \<Rightarrow> int \<Rightarrow> byte list" where
  "hex_skip [] cap hi = []"
| "hex_skip (c # cs) cap hi =
     (if cap = 0 then []
      else
        let v = hex_value c
        in if v < 0 then hex_skip cs cap hi
           else if hi < 0 then hex_skip cs cap v
           else nibbles hi v # hex_skip cs (cap - 1) (-1))"

definition hex_scalar :: "HexInvalid \<Rightarrow> string \<Rightarrow> nat \<Rightarrow> byte list" where
  "hex_scalar on_invalid s cap =
     (case on_invalid of kStop \<Rightarrow> hex_stop s cap | kSkip \<Rightarrow> hex_skip s cap (-1))"

text \<open>One round of the SSE2 loop: 16 characters to 8 bytes when every character is valid.\<close>

definition sse_valid :: "byte \<Rightarrow> byte" where
  "sse_valid v =
     ((cmpgt_epi8 v 0x2F AND cmpgt_epi8 0x3A v) OR
      ((cmpgt_epi8 v 0x40 AND cmpgt_epi8 0x47 v) OR (cmpgt_epi8 v 0x60 AND cmpgt_epi8 0x67 v)))"

definition sse_value :: "byte \<Rightarrow> byte" where
  "sse_value v = (let dig = (v OR 0x20) - 0x30 in dig - (cmpgt_epi8 dig 9 AND 0x27))"

definition sse_pack :: "byte \<Rightarrow> byte \<Rightarrow> byte" where
  "sse_pack a b =
     (let lane = lane16 a b
      in packus (push_bit 4 (lane AND 0x00FF) OR drop_bit 8 lane))"

fun pack_pairs :: "byte list \<Rightarrow> byte list" where
  "pack_pairs (a # b # bs) = sse_pack a b # pack_pairs bs"
| "pack_pairs _ = []"

definition hex_block :: "string \<Rightarrow> byte list option" where
  "hex_block cs =
     (let v = map of_char cs
      in if list_all (\<lambda>b. bit (sse_valid b) 7) v then Some (pack_pairs (map sse_value v)) else None)"

function hex_sse2 :: "HexInvalid \<Rightarrow> string \<Rightarrow> nat \<Rightarrow> byte list" where
  "hex_sse2 on_invalid s cap =
     (if 16 \<le> length s \<and> 8 \<le> cap
      then (case hex_block (take 16 s) of
              Some out \<Rightarrow> out @ hex_sse2 on_invalid (drop 16 s) (cap - 8)
            | None \<Rightarrow> hex_scalar on_invalid s cap)
      else hex_scalar on_invalid s cap)"
  by pat_completeness auto
termination by (relation "measure (\<lambda>(m, s, c). length s)") auto

declare hex_sse2.simps [simp del]

definition hexDecodeImpl :: "bool \<Rightarrow> HexInvalid \<Rightarrow> string \<Rightarrow> nat \<Rightarrow> byte list" where
  "hexDecodeImpl sse2 on_invalid s cap =
     (if sse2 then hex_sse2 on_invalid s cap else hex_scalar on_invalid s cap)"

text \<open>\<open>hexDecodeTo\<close> (node's semantics) and \<open>hexDecode\<close> (the semantics of \<open>encoding.hex\<close>).\<close>

definition hexDecodeTo :: "bool \<Rightarrow> string \<Rightarrow> nat \<Rightarrow> byte list" where
  "hexDecodeTo sse2 s cap = hexDecodeImpl sse2 kStop s cap"

definition hexDecode :: "bool \<Rightarrow> string \<Rightarrow> byte list" where
  "hexDecode sse2 s = hexDecodeImpl sse2 kSkip s (length s div 2)"

section \<open>The table and the lanes agree\<close>

fun lanes_agree :: "int list \<Rightarrow> byte \<Rightarrow> bool" where
  "lanes_agree [] b = True"
| "lanes_agree (t # ts) b \<longleftrightarrow>
     (if t < 0 then \<not> bit (sse_valid b) 7
      else bit (sse_valid b) 7 \<and> sse_value b = word_of_int t \<and> t < 16) \<and> lanes_agree ts (b + 1)"

lemma lanes_agree_table: "lanes_agree kHexTable 0"
  by (simp add: kHexTable_def sse_valid_def sse_value_def cmpgt_epi8_def)

lemma lanes_agree_nth:
  "lanes_agree ts b \<Longrightarrow> i < length ts \<Longrightarrow>
    (if ts ! i < 0 then \<not> bit (sse_valid (b + word_of_nat i)) 7
     else bit (sse_valid (b + word_of_nat i)) 7 \<and> sse_value (b + word_of_nat i) = word_of_int (ts ! i) \<and>
          ts ! i < 16)"
proof (induction ts arbitrary: b i)
  case (Cons t ts)
  show ?case
  proof (cases i)
    case 0
    with Cons.prems show ?thesis by (auto split: if_splits)
  next
    case (Suc j)
    with Cons.IH [of "b + 1" j] Cons.prems show ?thesis by (simp add: add.assoc split: if_splits)
  qed
qed simp

lemma length_kHexTable: "length kHexTable = 256"
  by (simp add: kHexTable_def)

lemma hex_lane:
  "bit (sse_valid (of_char c)) 7 \<longleftrightarrow> 0 \<le> hex_value c"
  "0 \<le> hex_value c \<Longrightarrow> sse_value (of_char c) = word_of_int (hex_value c) \<and> hex_value c < 16"
  using lanes_agree_nth [OF lanes_agree_table, of "code c"] code_less_256 [of c]
  by (auto simp: hex_value_def length_kHexTable of_nat_of_char split: if_splits)

lemma sse_pack_nibbles_all:
  "list_all (\<lambda>a. list_all (\<lambda>b. sse_pack (word_of_nat a) (word_of_nat b) =
     push_bit 4 (word_of_nat a) OR word_of_nat b) [0..<16]) [0..<16]"
  by (simp add: upt_numerals sse_pack_def lane16_def packus_def)

lemma sse_pack_nibbles:
  assumes "0 \<le> hi" "hi < 16" "0 \<le> lo" "lo < 16"
  shows "sse_pack (word_of_int hi) (word_of_int lo) = nibbles hi lo"
proof -
  have "nat hi \<in> set [0..<16]" "nat lo \<in> set [0..<16]" using assms by auto
  with sse_pack_nibbles_all have "sse_pack (word_of_nat (nat hi)) (word_of_nat (nat lo)) =
      push_bit 4 (word_of_nat (nat hi)) OR word_of_nat (nat lo)"
    unfolding list_all_iff by blast
  with assms show ?thesis by (simp add: nibbles_def)
qed

text \<open>Of a valid pair of characters, the byte.\<close>

fun all_valid :: "string \<Rightarrow> bool" where
  "all_valid cs \<longleftrightarrow> list_all (\<lambda>c. 0 \<le> hex_value c) cs"

fun pair_bytes :: "string \<Rightarrow> byte list" where
  "pair_bytes (a # b # cs) = nibbles (hex_value a) (hex_value b) # pair_bytes cs"
| "pair_bytes _ = []"

lemma pack_pairs_valid:
  "all_valid cs \<Longrightarrow> pack_pairs (map sse_value (map of_char cs)) = pair_bytes cs"
proof (induction cs rule: pair_bytes.induct)
  case (1 a b cs)
  then show ?case by (simp add: hex_lane sse_pack_nibbles)
qed auto

lemma hex_block_eq: "hex_block cs = (if all_valid cs then Some (pair_bytes cs) else None)"
  using pack_pairs_valid [of cs] by (auto simp: hex_block_def hex_lane list_all_iff)

lemma hex_stop_valid_prefix:
  "all_valid cs \<Longrightarrow> even (length cs) \<Longrightarrow> length cs div 2 \<le> cap \<Longrightarrow>
     hex_stop (cs @ ds) cap = pair_bytes cs @ hex_stop ds (cap - length cs div 2)"
proof (induction cs arbitrary: cap rule: pair_bytes.induct)
  case (1 a b cs)
  then show ?case by (cases cap) auto
qed auto

lemma hex_skip_valid_prefix:
  "all_valid cs \<Longrightarrow> even (length cs) \<Longrightarrow> length cs div 2 \<le> cap \<Longrightarrow>
     hex_skip (cs @ ds) cap (-1) = pair_bytes cs @ hex_skip ds (cap - length cs div 2) (-1)"
proof (induction cs arbitrary: cap rule: pair_bytes.induct)
  case (1 a b cs)
  then show ?case by (cases cap) (auto simp: Let_def)
qed auto

lemma hex_sse2_scalar: "hex_sse2 m s cap = hex_scalar m s cap"
proof (induction m s cap rule: hex_sse2.induct)
  case (1 m s cap)
  show ?case
  proof (cases "16 \<le> length s \<and> 8 \<le> cap \<and> all_valid (take 16 s)")
    case True
    then have "hex_sse2 m s cap = pair_bytes (take 16 s) @ hex_scalar m (drop 16 s) (cap - 8)"
      using 1 by (subst hex_sse2.simps) (simp add: hex_block_eq)
    also have "\<dots> = hex_scalar m (take 16 s @ drop 16 s) cap"
    proof -
      have l: "length (take 16 s) = 16" using True by simp
      note prefix = hex_stop_valid_prefix [of "take 16 s" cap "drop 16 s", unfolded l]
        hex_skip_valid_prefix [of "take 16 s" cap "drop 16 s", unfolded l]
      show ?thesis
        using True prefix by (cases m) (simp_all add: hex_scalar_def del: append_take_drop_id)
    qed
    finally show ?thesis by simp
  next
    case False
    then show ?thesis by (subst hex_sse2.simps) (auto simp: hex_block_eq)
  qed
qed

section \<open>The encoder\<close>

lemma and_15: "b AND 15 = take_bit 4 (b :: byte)"
  by (simp add: take_bit_eq_mask mask_eq_exp_minus_1)

lemma bit_byte: "bit (b :: byte) n \<Longrightarrow> n < 8"
  using bit_imp_le_length [of b n] by simp

lemma and_240: "b AND 240 = push_bit 4 (drop_bit 4 (b :: byte))"
proof -
  have e: "(240 :: byte) = push_bit 4 (mask 4)" by (simp add: mask_eq_exp_minus_1 push_bit_eq_mult)
  show ?thesis
    unfolding e
    by (rule bit_word_eqI) (auto simp: bit_and_iff bit_push_bit_iff bit_drop_bit_eq bit_mask_iff)
qed

lemma srli_lane:
  "(ucast (drop_bit 4 (lane16 (a AND 240) (b AND 240))) :: byte) AND 15 = drop_bit 4 a"
  "(ucast (drop_bit 12 (lane16 (a AND 240) (b AND 240))) :: byte) AND 15 = drop_bit 4 b"
  unfolding and_15 and_240
  by (rule bit_word_eqI; auto simp: lane16_def bit_take_bit_iff bit_or_iff bit_drop_bit_eq
      bit_push_bit_iff bit_ucast_iff dest: bit_byte)+

lemma high_nibbles:
  "even (length v) \<Longrightarrow>
     map (\<lambda>b. b AND 0x0F) (srli_epi16 4 (map (\<lambda>b. b AND 0xF0) v)) = map (drop_bit 4) v"
proof (induction v rule: pack_pairs.induct)
  case (1 a b bs)
  then show ?case by (simp add: Let_def srli_lane)
qed auto

lemma nibble_ascii_all:
  "list_all (\<lambda>n. char_of (unat (nibble_ascii u (word_of_nat n))) = HexChar u ! n) [0..<16]"
  by (cases u) (simp_all add: upt_numerals nibble_ascii_def cmpgt_epi8_def HexChar_def char_of_eq_iff)

lemma nibble_ascii_HexChar:
  "unat n < 16 \<Longrightarrow> char_of (unat (nibble_ascii u n)) = HexChar u ! unat n"
  using nibble_ascii_all [of u] unfolding list_all_iff by (drule_tac x = "unat n" in bspec) simp_all

lemma nibble_bounds: "unat (drop_bit 4 (b :: byte)) < 16" "unat (b AND 0xF :: byte) < 16"
proof -
  show "unat (drop_bit 4 b) < 16" 
  proof -
    have "unat b < 2 ^ LENGTH(8)" by (rule unsigned_less)
    moreover have "unat (drop_bit 4 b) = unat b div 16"
      by (subst unat_drop_bit_eq) (simp add: drop_bit_eq_div)
    ultimately show ?thesis by simp
  qed
  show "unat (b AND 0xF) < 16"
    using take_bit_nat_less_exp [of 4 "unat b"] by (simp add: and_15 unsigned_take_bit_eq)
qed

lemma hexEncode_block_scalar: "even (length v) \<Longrightarrow> hexEncode_block u v = hexEncode_scalar u v"
proof -
  assume "even (length v)"
  then have "hexEncode_block u v = map (\<lambda>b. char_of (unat b))
      (unpacklo_epi8 (map (nibble_ascii u) (map (drop_bit 4) v)) (map (nibble_ascii u) (map (\<lambda>b. b AND 0x0F) v)))"
    unfolding hexEncode_block_def Let_def by (subst high_nibbles) auto
  also have "\<dots> = hexEncode_scalar u v"
    by (induction v) (simp_all add: hexEncode_scalar_def nibble_ascii_HexChar nibble_bounds)
  finally show ?thesis .
qed

lemma hexEncode_scalar_append: "hexEncode_scalar u (v @ w) = hexEncode_scalar u v @ hexEncode_scalar u w"
  by (simp add: hexEncode_scalar_def)

lemma hexEncode_sse2_scalar: "hexEncode_sse2 u data = hexEncode_scalar u data"
proof (induction u data rule: hexEncode_sse2.induct)
  case (1 u data)
  have "hexEncode_scalar u data = hexEncode_scalar u (take 8 data) @ hexEncode_scalar u (drop 8 data)"
    using hexEncode_scalar_append [of u "take 8 data" "drop 8 data"] by (simp only: append_take_drop_id)
  with 1 show ?case
    by (subst hexEncode_sse2.simps) (cases "8 \<le> length data"; simp add: hexEncode_block_scalar)
qed

section \<open>Round trip and buffer bounds\<close>

lemma hex_value_sse:
  assumes "bit (sse_valid (of_char c)) 7"
  shows "hex_value c = uint (sse_value (of_char c))"
proof -
  from assms hex_lane [of c] have "0 \<le> hex_value c" "hex_value c < 16"
    "sse_value (of_char c) = word_of_int (hex_value c)" by auto
  then show ?thesis by (simp add: unsigned_of_int take_bit_int_eq_self)
qed

lemma hex_value_HexChar_all: "list_all (\<lambda>n. hex_value (HexChar u ! n) = int n) [0..<16]"
  by (cases u) (simp_all add: upt_numerals hex_value_sse sse_valid_def sse_value_def cmpgt_epi8_def HexChar_def)

lemma hex_value_HexChar: "n < 16 \<Longrightarrow> hex_value (HexChar u ! n) = int n"
  using hex_value_HexChar_all [of u] by (auto simp: list_all_iff)

lemma nibbles_join: "push_bit 4 (drop_bit 4 b) OR (b AND 0xF) = (b :: byte)"
  unfolding and_15
  by (rule bit_word_eqI) (auto simp: bit_or_iff bit_push_bit_iff bit_drop_bit_eq bit_take_bit_iff)

lemma hex_stop_encode: "length d \<le> cap \<Longrightarrow> hex_stop (hexEncode_scalar u d) cap = d"
proof (induction d arbitrary: cap)
  case (Cons b d)
  then show ?case
    by (cases cap) (simp_all add: hexEncode_scalar_def hex_value_HexChar nibble_bounds nibbles_def nibbles_join)
qed (simp add: hexEncode_scalar_def)

lemma hex_skip_encode: "length d \<le> cap \<Longrightarrow> hex_skip (hexEncode_scalar u d) cap (-1) = d"
proof (induction d arbitrary: cap)
  case (Cons b d)
  then show ?case
    by (cases cap)
      (simp_all add: hexEncode_scalar_def hex_value_HexChar nibble_bounds nibbles_def nibbles_join Let_def)
qed (simp add: hexEncode_scalar_def)

lemma length_hexEncode_scalar [simp]: "length (hexEncode_scalar u d) = 2 * length d"
  by (induction d) (simp_all add: hexEncode_scalar_def)

lemma hexDecodeImpl_scalar: "hexDecodeImpl sse2 m s cap = hex_scalar m s cap"
  by (simp add: hexDecodeImpl_def hex_sse2_scalar)

lemma hexEncode_eq_scalar: "hexEncode sse2 u d = hexEncode_scalar u d"
  by (simp add: hexEncode_def hexEncode_sse2_scalar)

lemma hexDecode_hexEncode: "hexDecode sse2 (hexEncode sse2' upper d) = d"
  by (simp add: hexDecode_def hexDecodeImpl_scalar hex_scalar_def hexEncode_eq_scalar hex_skip_encode)

lemma hex_stop_length: "length (hex_stop s cap) \<le> cap"
  by (induction s cap rule: hex_stop.induct) auto

lemma hex_skip_length: "length (hex_skip s cap h) \<le> cap"
proof (induction s arbitrary: cap h)
  case (Cons c s)
  then show ?case by (cases cap) (auto simp: Let_def le_SucI)
qed simp

interpretation hex_lower: text_codec "hexEncode sse2 False" "hexDecode sse2" for sse2
  by unfold_locales (rule hexDecode_hexEncode)

interpretation base16: prefixed_codec "hexEncode sse2 False" "hexDecode sse2" "CHR ''f''" for sse2
  by unfold_locales

interpretation base16upper: prefixed_codec "hexEncode sse2 True" "hexDecode sse2" "CHR ''F''" for sse2
  by unfold_locales (rule hexDecode_hexEncode)

section \<open>Properties\<close>

text \<open>
  C3: the SSE2 loops of the hexadecimal codec are equivalent to the scalar loops, for the encoder in
  both cases and for the decoder with either treatment of invalid characters and any buffer size.
\<close>

theorem hex_sse2_equivalent:
  "hexEncode True upper d = hexEncode False upper d \<and>
   hexDecodeImpl True m s cap = hexDecodeImpl False m s cap"
  by (simp add: hexEncode_eq_scalar hexDecodeImpl_scalar)

text \<open>
  Hexadecimal text, in either case, decodes to the bytes it was made of, whichever instruction
  set made it and whichever reads it, with both treatments of invalid characters.
\<close>

theorem hex_roundtrip:
  "hexDecode sse2 (hexEncode sse2' upper d) = d \<and>
   hexDecodeTo sse2 (hexEncode sse2' upper d) (length d) = d"
  by (rule conjI [OF hexDecode_hexEncode])
    (simp add: hexDecodeTo_def hexDecodeImpl_scalar hex_scalar_def hexEncode_eq_scalar hex_stop_encode)

text \<open>
  The hexadecimal decoder never writes more than \<open>cap\<close> bytes into its buffer, and the encoder
  writes exactly the two characters per byte it reserved.
\<close>

theorem hex_buffer_bounds:
  "length (hexDecodeImpl sse2 m s cap) \<le> cap \<and> length (hexEncode sse2 upper d) = 2 * length d"
  by (cases m) (simp_all add: hexDecodeImpl_scalar hex_scalar_def hexEncode_eq_scalar hex_stop_length
      hex_skip_length)

end
