(* ===== verification/BaseCodec.thy ===== *)
theory BaseCodec
  imports TextCodec
begin

text \<open>
  The base32 and base64 bit regrouping of \<^verbatim>\<open>src/encoding/encoding.cpp\<close>: \<open>baseEncode\<close> and
  \<open>baseDecode\<close> over the tables, and the scalar path of \<open>base64DecodeTo\<close>. Binary data is a list of
  bytes, encoded text a string; the accumulator is the 64-bit \<open>size_t\<close> of the code, whose shifts
  drop the bits already written.
\<close>

section \<open>Regrouping bits\<close>

text \<open>
  The inner \<open>while\<close> of both directions: while at least \<open>width\<close> bits are pending, the topmost \<open>width\<close>
  of them are written. The width is 5, 6 or 8; the test \<open>0 < width\<close> only serves termination.
\<close>

fun drain :: "nat \<Rightarrow> 64 word \<Rightarrow> nat \<Rightarrow> 64 word list \<times> nat" where
  "drain width dw bits =
     (if 0 < width \<and> width \<le> bits
      then (case drain width dw (bits - width) of
              (vs, b) \<Rightarrow> (take_bit width (drop_bit (bits - width) dw) # vs, b))
      else ([], bits))"

declare drain.simps [simp del]

section \<open>Encoding\<close>

text \<open>The \<open>for\<close> loop of \<open>baseEncode\<close>: the digits written, the accumulator and the pending bits.\<close>

fun encode_loop :: "nat \<Rightarrow> 64 word \<Rightarrow> nat \<Rightarrow> byte list \<Rightarrow> 64 word list \<times> 64 word \<times> nat" where
  "encode_loop dwBits dwData bits [] = ([], dwData, bits)"
| "encode_loop dwBits dwData bits (b # bs) =
     (let dwData = push_bit 8 dwData OR ucast b
      in case drain dwBits dwData (bits + 8) of
           (vs, bits) \<Rightarrow>
             (case encode_loop dwBits dwData bits bs of (ws, dw, k) \<Rightarrow> (vs @ ws, dw, k)))"

definition base_size :: "nat \<Rightarrow> nat \<Rightarrow> nat" where
  "base_size dwBits sz =
     (if dwBits = 6 then (sz + 2) div 3 * 4 else if dwBits = 5 then (sz + 4) div 5 * 8 else 0)"

definition encode_digits :: "nat \<Rightarrow> byte list \<Rightarrow> 64 word list" where
  "encode_digits dwBits data =
     (case encode_loop dwBits 0 0 data of
        (vs, dw, bits) \<Rightarrow>
          if bits \<noteq> 0 then vs @ [take_bit dwBits (push_bit (dwBits - bits) dw)] else vs)"

definition baseEncode :: "string \<Rightarrow> nat \<Rightarrow> byte list \<Rightarrow> bool \<Rightarrow> string" where
  "baseEncode table dwBits data fill =
     (let out = map (\<lambda>v. table ! unat v) (encode_digits dwBits data)
      in if fill then out @ replicate (base_size dwBits (length data) - length out) CHR ''='' else out)"

section \<open>Decoding\<close>

text \<open>The value of a character, -1 where the table has none; the tables begin at the space.\<close>

definition table_value :: "int list \<Rightarrow> char \<Rightarrow> int" where
  "table_value table c = (if code c > 32 \<and> code c < 128 then table ! (code c - 32) else -1)"

fun decode_loop :: "bool \<Rightarrow> int list \<Rightarrow> nat \<Rightarrow> 64 word \<Rightarrow> nat \<Rightarrow> string \<Rightarrow> byte list" where
  "decode_loop stop_at_null table dwBits dwCurr nBits [] = []"
| "decode_loop stop_at_null table dwBits dwCurr nBits (c # cs) =
     (if stop_at_null \<and> code c = 0 then []
      else if c = CHR ''='' then []
      else
        let nCh = table_value table c
        in if nCh \<noteq> -1 then
             (let dwCurr = push_bit dwBits dwCurr OR word_of_int nCh
              in case drain 8 dwCurr (nBits + dwBits) of
                   (vs, nBits) \<Rightarrow> map ucast vs @ decode_loop stop_at_null table dwBits dwCurr nBits cs)
           else decode_loop stop_at_null table dwBits dwCurr nBits cs)"

definition baseDecode :: "int list \<Rightarrow> nat \<Rightarrow> string \<Rightarrow> byte list" where
  "baseDecode table dwBits s = decode_loop True table dwBits 0 0 s"

section \<open>The alphabets\<close>

definition base32_alphabet :: "bool \<Rightarrow> string" where
  "base32_alphabet upper =
     (if upper then ''ABCDEFGHIJKLMNOPQRSTUVWXYZ234567'' else ''abcdefghijklmnopqrstuvwxyz234567'')"

definition base32_table :: "int list" where
  "base32_table =
     [-1, -1, -1, -1, -1, -1, -1, -1, -1, -1, -1, -1, -1, -1, -1, -1,
      14, 11, 26, 27, 28, 29, 30, 31, -1, 6, -1, -1, -1, -1, -1, -1,
      -1, 0, 1, 2, 3, 4, 5, 6, 7, 8, 9, 10, 11, 12, 13, 14,
      15, 16, 17, 18, 19, 20, 21, 22, 23, 24, 25, -1, -1, -1, -1, -1,
      -1, 0, 1, 2, 3, 4, 5, 6, 7, 8, 9, 10, 11, 12, 13, 14,
      15, 16, 17, 18, 19, 20, 21, 22, 23, 24, 25, -1, -1, -1, -1, -1]"

definition base64_alphabet :: "bool \<Rightarrow> string" where
  "base64_alphabet url =
     (if url then ''ABCDEFGHIJKLMNOPQRSTUVWXYZabcdefghijklmnopqrstuvwxyz0123456789-_''
      else ''ABCDEFGHIJKLMNOPQRSTUVWXYZabcdefghijklmnopqrstuvwxyz0123456789+/'')"

definition kBase64DecTable :: "int list" where
  "kBase64DecTable =
     [-1, -1, -1, -1, -1, -1, -1, -1, -1, -1, -1, 62, -1, 62, -1, 63,
      52, 53, 54, 55, 56, 57, 58, 59, 60, 61, -1, -1, -1, -1, -1, -1,
      -1, 0, 1, 2, 3, 4, 5, 6, 7, 8, 9, 10, 11, 12, 13, 14,
      15, 16, 17, 18, 19, 20, 21, 22, 23, 24, 25, -1, -1, -1, -1, 63,
      -1, 26, 27, 28, 29, 30, 31, 32, 33, 34, 35, 36, 37, 38, 39, 40,
      41, 42, 43, 44, 45, 46, 47, 48, 49, 50, 51, -1, -1, -1, -1, -1]"

definition base32Encode :: "bool \<Rightarrow> bool \<Rightarrow> byte list \<Rightarrow> string" where
  "base32Encode upper padding data = baseEncode (base32_alphabet upper) 5 data padding"

definition base32Decode :: "string \<Rightarrow> byte list" where
  "base32Decode s = baseDecode base32_table 5 s"

text \<open>The four-argument \<open>base64Encode\<close>, which multibase uses.\<close>

definition base64Encode :: "bool \<Rightarrow> bool \<Rightarrow> byte list \<Rightarrow> string" where
  "base64Encode url padding data = baseEncode (base64_alphabet url) 6 data padding"

text \<open>
  The scalar path of \<open>base64DecodeTo\<close> into a buffer of \<open>cap\<close> bytes: it returns as soon as the buffer
  is full, which keeps the first \<open>cap\<close> bytes.
\<close>

definition base64_scalar_decode :: "nat \<Rightarrow> string \<Rightarrow> byte list" where
  "base64_scalar_decode cap s = take cap (decode_loop False kBase64DecTable 6 0 0 s)"

section \<open>Bit lists\<close>

definition wbits :: "nat \<Rightarrow> 'a::len word \<Rightarrow> bool list" where
  "wbits n w = rev (map (bit w) [0..<n])"

lemma length_wbits [simp]: "length (wbits n w) = n"
  by (simp add: wbits_def)

lemma upt_add_shift: "[0..<k + a] = [0..<a] @ map (\<lambda>i. i + a) [0..<k]"
  using upt_add_eq_append [of 0 a k] by (simp add: add.commute map_add_upt)

lemma wbits_append:
  assumes "take_bit a v = v"
  shows "wbits (k + a) (push_bit a dw OR v) = wbits k (take_bit (64 - a) dw) @ wbits a (v :: 64 word)"
proof -
  have v: "bit v i \<longleftrightarrow> i < a \<and> bit v i" for i
    using arg_cong [OF assms, of "\<lambda>w. bit w i"] by (simp add: bit_take_bit_iff)
  have "bit (push_bit a dw OR v) i \<longleftrightarrow> bit v i" if "i < a" for i
    using that by (simp add: bit_or_iff bit_push_bit_iff)
  moreover have "bit (push_bit a dw OR v) (i + a) \<longleftrightarrow> bit (take_bit (64 - a) dw) i" for i
    using v [of "i + a"] by (auto simp: bit_or_iff bit_push_bit_iff bit_take_bit_iff)
  ultimately show ?thesis
    unfolding wbits_def by (simp add: upt_add_shift)
qed

lemma wbits_split:
  "wbits (k + a) dw = wbits a (take_bit a (drop_bit k dw)) @ wbits k dw"
proof -
  have "[0..<k + a] = [0..<k] @ map (\<lambda>i. i + k) [0..<a]"
    using upt_add_shift [of a k] by (simp add: add.commute)
  then show ?thesis
    unfolding wbits_def by (simp add: bit_take_bit_iff bit_drop_bit_eq add.commute)
qed

lemma wbits_inject:
  assumes "wbits n v = wbits n w" "take_bit n v = v" "take_bit n w = w"
  shows "v = w"
proof (rule bit_eqI)
  fix i
  have eq: "\<forall>i < n. bit v i = bit w i"
    using assms(1) by (simp add: wbits_def)
  have "bit v i \<longleftrightarrow> i < n \<and> bit v i" "bit w i \<longleftrightarrow> i < n \<and> bit w i"
    using arg_cong [OF assms(2), of "\<lambda>w. bit w i"] arg_cong [OF assms(3), of "\<lambda>w. bit w i"]
    by (simp_all add: bit_take_bit_iff)
  with eq show "bit v i = bit w i" by auto
qed

lemma wbits_take_bit [simp]: "k \<le> m \<Longrightarrow> wbits k (take_bit m w) = wbits k w"
  by (simp add: wbits_def bit_take_bit_iff)

lemma wbits_ucast [simp]: "k \<le> LENGTH('b) \<Longrightarrow> wbits k (ucast (w :: 'a::len word) :: 'b::len word) = wbits k w"
  by (auto simp: wbits_def bit_ucast_iff)

lemma wbits_zero [simp]: "wbits n 0 = replicate n False"
  by (induction n) (simp_all add: wbits_def replicate_append_same [symmetric])

abbreviation bits_of :: "nat \<Rightarrow> 'a::len word list \<Rightarrow> bool list" where
  "bits_of n ws \<equiv> concat (map (wbits n) ws)"

lemma length_bits_of [simp]: "length (bits_of n ws) = n * length ws"
  by (induction ws) auto

lemma bits_of_inject:
  "\<forall>w \<in> set vs \<union> set ws. take_bit n w = w \<Longrightarrow> length vs = length ws \<Longrightarrow>
     bits_of n vs @ xs = bits_of n ws @ ys \<Longrightarrow> vs = ws"
proof (induction vs ws rule: list_induct2')
  case (4 v vs w ws)
  then have "wbits n v = wbits n w" "bits_of n vs @ xs = bits_of n ws @ ys"
    by (auto simp: append_eq_append_conv)
  with 4 wbits_inject [of n v w] show ?case by auto
qed auto

section \<open>What the loops compute\<close>

lemma drain_bits:
  assumes "0 < width"
  shows "drain width dw bits = (vs, b) \<Longrightarrow>
    b < width \<and> wbits bits dw = bits_of width vs @ wbits b dw \<and>
    (\<forall>v \<in> set vs. take_bit width v = v) \<and> width * length vs + b = bits"
proof (induction bits arbitrary: vs b rule: less_induct)
  case (less bits)
  show ?case
  proof (cases "width \<le> bits")
    case False
    with less.prems show ?thesis by (simp add: drain.simps [of width dw bits])
  next
    case True
    obtain vs' where d: "drain width dw (bits - width) = (vs', b)"
      "vs = take_bit width (drop_bit (bits - width) dw) # vs'"
      using less.prems True assms by (auto simp: drain.simps [of width dw bits] split: prod.splits)
    from less.IH [OF _ d(1)] True assms have ih: "b < width"
      "wbits (bits - width) dw = bits_of width vs' @ wbits b dw"
      "\<forall>v \<in> set vs'. take_bit width v = v" "width * length vs' + b = bits - width" by auto
    have "wbits bits dw = wbits width (take_bit width (drop_bit (bits - width) dw)) @ wbits (bits - width) dw"
      using wbits_split [of "bits - width" width dw] True by simp
    with ih d(2) True show ?thesis by simp
  qed
qed

lemma take_bit_ucast_byte: "take_bit 8 (ucast (b :: byte) :: 64 word) = ucast b"
  by (rule bit_eqI) (auto simp: bit_take_bit_iff bit_ucast_iff dest: bit_imp_le_length)

lemma encode_loop_bits:
  assumes w: "0 < w" "w \<le> 8"
  shows "encode_loop w dw k data = (vs, dw', k') \<Longrightarrow> k < w \<Longrightarrow>
    k' < w \<and> wbits k dw @ bits_of 8 data = bits_of w vs @ wbits k' dw' \<and>
    (\<forall>v \<in> set vs. take_bit w v = v) \<and> w * length vs + k' = k + 8 * length data"
proof (induction data arbitrary: dw k vs)
  case (Cons b data)
  let ?dw = "push_bit 8 dw OR ucast b :: 64 word"
  obtain us m where d: "drain w ?dw (k + 8) = (us, m)" by fastforce
  with Cons.prems(1) obtain ws where e: "encode_loop w ?dw m data = (ws, dw', k')" and vs: "vs = us @ ws"
    by (auto simp: Let_def split: prod.splits)
  from drain_bits [OF w(1) d] have dr: "m < w" "wbits (k + 8) ?dw = bits_of w us @ wbits m ?dw"
    "\<forall>v \<in> set us. take_bit w v = v" "w * length us + m = k + 8" by auto
  have "wbits (k + 8) ?dw = wbits k dw @ wbits 8 b"
    using wbits_append [of 8 "ucast b" k dw] Cons.prems(2) w by (simp add: take_bit_ucast_byte)
  with dr(2) have "wbits k dw @ wbits 8 b @ bits_of 8 data = bits_of w us @ wbits m ?dw @ bits_of 8 data"
    by (metis append_assoc)
  with dr Cons.IH [OF e dr(1)] vs show ?case
    by (auto simp: add_mult_distrib2)
qed auto

lemma encode_digits_bits:
  assumes w: "0 < w" "w \<le> 8" and d: "encode_digits w data = ds"
  shows "\<exists>z < w. bits_of w ds = bits_of 8 data @ replicate z False"
    "\<forall>v \<in> set ds. take_bit w v = v"
proof -
  obtain vs dw k where e: "encode_loop w 0 0 data = (vs, dw, k)" by (metis prod_cases3)
  from encode_loop_bits [OF w e w(1)] have el: "k < w" "bits_of 8 data = bits_of w vs @ wbits k dw"
    "\<forall>v \<in> set vs. take_bit w v = v" by (auto simp: wbits_def)
  have ds: "ds = (if k \<noteq> 0 then vs @ [take_bit w (push_bit (w - k) dw)] else vs)"
    using d e by (simp add: encode_digits_def)
  have "wbits w (push_bit (w - k) dw) = wbits k dw @ replicate (w - k) False"
    using wbits_append [of "w - k" 0 k dw] el(1) w by simp
  then have "bits_of w ds = bits_of 8 data @ replicate (if k \<noteq> 0 then w - k else 0) False"
    using el(2) ds by (cases "k = 0") (simp_all add: wbits_def [of 0])
  moreover have "(if k \<noteq> 0 then w - k else 0) < w" using w by simp
  ultimately show "\<exists>z < w. bits_of w ds = bits_of 8 data @ replicate z False" by blast
  show "\<forall>v \<in> set ds. take_bit w v = v" using el(3) ds by auto
qed

text \<open>Decoding a list of digits, the characters being valid.\<close>

fun decode_digits :: "nat \<Rightarrow> 64 word \<Rightarrow> nat \<Rightarrow> 64 word list \<Rightarrow> byte list" where
  "decode_digits w dw k [] = []"
| "decode_digits w dw k (v # vs) =
     (let dw = push_bit w dw OR v
      in case drain 8 dw (k + w) of (us, k) \<Rightarrow> map ucast us @ decode_digits w dw k vs)"

lemma decode_digits_bits:
  assumes w: "w \<le> 8"
  shows "\<forall>v \<in> set vs. take_bit w v = v \<Longrightarrow> k < 8 \<Longrightarrow>
    \<exists>r. wbits k dw @ bits_of w vs = bits_of 8 (decode_digits w dw k vs) @ r \<and> length r < 8"
proof (induction vs arbitrary: dw k)
  case (Cons v vs)
  let ?dw = "push_bit w dw OR v"
  obtain us m where d: "drain 8 ?dw (k + w) = (us, m)" by fastforce
  from drain_bits [OF _ d] have dr: "m < 8" "wbits (k + w) ?dw = bits_of 8 us @ wbits m ?dw" by auto
  have "wbits (k + w) ?dw = wbits k dw @ wbits w v"
    using wbits_append [of w v k dw] Cons.prems w by simp
  moreover have "bits_of 8 (map ucast us :: byte list) = bits_of 8 us"
    by (simp add: comp_def)
  moreover obtain r where "wbits m ?dw @ bits_of w vs = bits_of 8 (decode_digits w ?dw m vs) @ r" "length r < 8"
    using Cons.IH [of m ?dw] Cons.prems dr(1) by auto
  ultimately have "wbits k dw @ bits_of w (v # vs) =
      bits_of 8 (map ucast us :: byte list) @ bits_of 8 (decode_digits w ?dw m vs) @ r \<and> length r < 8"
    using dr(2) by simp (metis append_assoc)
  then show ?case
    using d by (intro exI [of _ r]) (simp add: Let_def)
next
  case Nil
  then show ?case by (intro exI [of _ "wbits k dw"]) simp
qed

lemma byte_bits_unique:
  assumes "bits_of 8 (xs :: byte list) @ r = bits_of 8 (ys :: byte list) @ s" "length r < 8" "length s < 8"
  shows "xs = ys"
proof -
  have "8 * length xs + length r = 8 * length ys + length s"
    using arg_cong [OF assms(1), of length] by simp
  with assms(2,3) have "length xs = length ys" by presburger
  then show ?thesis
    using assms(1) by (intro bits_of_inject) (auto intro: bit_eqI simp: bit_take_bit_iff dest: bit_imp_le_length)
qed

lemma decode_encode_digits:
  assumes "0 < w" "w \<le> 8"
  shows "decode_digits w 0 0 (encode_digits w data) = data"
proof -
  from encode_digits_bits [OF assms refl] obtain z where z: "z < w"
    "bits_of w (encode_digits w data) = bits_of 8 data @ replicate z False"
    and vs: "\<forall>v \<in> set (encode_digits w data). take_bit w v = v" by blast
  from decode_digits_bits [OF assms(2) vs, of 0 0] obtain r where
    "bits_of w (encode_digits w data) = bits_of 8 (decode_digits w 0 0 (encode_digits w data)) @ r" "length r < 8"
    by (auto simp: wbits_def)
  with z assms show ?thesis
    by (intro byte_bits_unique [of _ r _ "replicate z False"]) auto
qed

section \<open>Through the tables\<close>

text \<open>An alphabet fits a table: every digit has a character, which the table maps back.\<close>

fun inverts_from :: "int list \<Rightarrow> string \<Rightarrow> int \<Rightarrow> bool" where
  "inverts_from table [] v = True"
| "inverts_from table (c # cs) v \<longleftrightarrow>
     table_value table c = v \<and> c \<noteq> CHR ''='' \<and> code c \<noteq> 0 \<and> inverts_from table cs (v + 1)"

definition table_inverts :: "string \<Rightarrow> int list \<Rightarrow> nat \<Rightarrow> bool" where
  "table_inverts alphabet table w \<longleftrightarrow> length alphabet = 2 ^ w \<and> inverts_from table alphabet 0"

lemma table_inverts_alphabets:
  "table_inverts (base32_alphabet upper) base32_table 5"
  "table_inverts (base64_alphabet url) kBase64DecTable 6"
  by (simp_all add: table_inverts_def base32_alphabet_def base32_table_def base64_alphabet_def
      kBase64DecTable_def table_value_def)

lemma inverts_from_nth:
  "inverts_from table cs n \<Longrightarrow> v < length cs \<Longrightarrow>
     table_value table (cs ! v) = n + int v \<and> cs ! v \<noteq> CHR ''='' \<and> code (cs ! v) \<noteq> 0"
proof (induction cs arbitrary: n v)
  case (Cons c cs)
  then show ?case by (cases v) auto
qed simp

lemma decode_loop_digits:
  assumes t: "table_inverts alphabet table w"
  shows "\<forall>v \<in> set vs. unat v < 2 ^ w \<Longrightarrow>
    decode_loop z table w dw k (map (\<lambda>v. alphabet ! unat v) vs @ replicate n CHR ''='') =
    decode_digits w dw k vs"
proof (induction vs arbitrary: dw k)
  case Nil
  then show ?case by (cases n) simp_all
next
  case (Cons v vs)
  then have "table_value table (alphabet ! unat v) = int (unat v)" "alphabet ! unat v \<noteq> CHR ''=''"
    "code (alphabet ! unat v) \<noteq> 0"
    using t inverts_from_nth [of table alphabet 0 "unat v"] by (auto simp: table_inverts_def)
  moreover have "uint v \<noteq> -1" using uint_ge_0 [of v] by linarith
  ultimately show ?case
    using Cons by (simp add: Let_def split: prod.split)
qed

lemma unat_take_bit_bound:
  assumes "take_bit w v = (v :: 64 word)"
  shows "unat v < 2 ^ w"
  using arg_cong [OF assms, of unat] by (metis take_bit_nat_less_exp unsigned_take_bit_eq)

lemma base_roundtrip:
  assumes "table_inverts alphabet table w" "0 < w" "w \<le> 8"
  shows "decode_loop z table w 0 0 (baseEncode alphabet w data fill) = data"
proof -
  have "\<forall>v \<in> set (encode_digits w data). unat v < 2 ^ w"
    using encode_digits_bits(2) [OF assms(2,3) refl] unat_take_bit_bound by blast
  from decode_loop_digits [OF assms(1) this] decode_encode_digits [OF assms(2,3)] show ?thesis
    using decode_loop_digits [OF assms(1), of "encode_digits w data" z 0 0 0]
      encode_digits_bits(2) [OF assms(2,3) refl] unat_take_bit_bound
    by (auto simp: baseEncode_def Let_def)
qed

section \<open>Buffer sizes\<close>

lemma length_encode_digits:
  assumes "0 < w" "w \<le> 8"
  shows "w * length (encode_digits w data) < 8 * length data + w"
    "8 * length data \<le> w * length (encode_digits w data)"
proof -
  from encode_digits_bits(1) [OF assms refl] obtain z where "z < w"
    "bits_of w (encode_digits w data) = bits_of 8 data @ replicate z False" by blast
  from this(1) arg_cong [OF this(2), of length]
  show "w * length (encode_digits w data) < 8 * length data + w"
    "8 * length data \<le> w * length (encode_digits w data)" by auto
qed

lemma encode_fits:
  assumes "w = 5 \<or> w = 6"
  shows "length (encode_digits w data) \<le> base_size w (length data)"
  using assms length_encode_digits [of w data] by (auto simp: base_size_def)

lemma decode_loop_length:
  assumes "w \<le> 8"
  shows "k < 8 \<Longrightarrow> 8 * length (decode_loop z table w dw k s) \<le> k + w * length s"
proof (induction s arbitrary: dw k)
  case (Cons c s)
  let ?dw = "push_bit w dw OR word_of_int (table_value table c)"
  obtain us m where d: "drain 8 ?dw (k + w) = (us, m)" by fastforce
  from drain_bits [OF _ d] have dr: "m < 8" "8 * length us + m = k + w" by auto
  from Cons.IH [OF dr(1), of ?dw] Cons.IH [OF Cons.prems, of dw] dr d show ?case
    by (auto simp: Let_def)
qed simp

lemma base32_roundtrip_lemma: "base32Decode (base32Encode upper padding d) = d"
  unfolding base32Decode_def base32Encode_def baseDecode_def
  by (rule base_roundtrip [OF table_inverts_alphabets(1)]) simp_all

lemma base64_full_decode: "decode_loop False kBase64DecTable 6 0 0 (base64Encode url padding d) = d"
  unfolding base64Encode_def
  by (rule base_roundtrip [OF table_inverts_alphabets(2)]) simp_all

lemma base64_full_length:
  "8 * length (decode_loop z kBase64DecTable 6 0 0 s) \<le> 6 * length s"
  using decode_loop_length [of 6 0 z kBase64DecTable 0 s] by simp

lemma base64_scalar_full:
  "length s * 3 div 4 \<le> cap \<Longrightarrow> base64_scalar_decode cap s = decode_loop False kBase64DecTable 6 0 0 s"
  using base64_full_length [of False s] by (simp add: base64_scalar_decode_def)

interpretation base32: text_codec "base32Encode upper padding" base32Decode for upper padding
  by unfold_locales (rule base32_roundtrip_lemma)

interpretation base32_tagged: prefixed_codec "base32Encode upper padding" base32Decode
  "if padding then (if upper then CHR ''C'' else CHR ''c'') else (if upper then CHR ''B'' else CHR ''b'')"
  for upper padding
  by unfold_locales

interpretation base64: text_codec "base64Encode url padding" "\<lambda>s. base64_scalar_decode (length s * 3 div 4) s"
  for url padding
  by unfold_locales (simp add: base64_scalar_full base64_full_decode)

section \<open>Properties\<close>

text \<open>
  Base32 text, in either case and with or without padding, decodes to the bytes it was made of.
\<close>

theorem base32_roundtrip: "base32Decode (base32Encode upper padding d) = d"
  by (rule base32.dec_enc)

text \<open>
  Base64 text of either alphabet, padded or not, decodes to its bytes by the scalar decoder when
  the buffer has room for the bytes; a smaller buffer gets their beginning.
\<close>

theorem base64_scalar_roundtrip: "base64_scalar_decode cap (base64Encode url padding d) = take cap d"
  by (simp add: base64_scalar_decode_def base64_full_decode)

text \<open>
  The buffers the regrouping writes into are large enough: the encoder's characters fit the size
  computed in advance, and a decoder of \<open>w\<close>-bit digits, on any text whatsoever, fits \<open>len * w / 8\<close>.
\<close>

theorem base_buffer_bounds:
  "length (base32Encode upper padding d) \<le> base_size 5 (length d) \<and>
   length (base64Encode url padding d) \<le> base_size 6 (length d) \<and>
   length (base32Decode s) \<le> length s * 5 div 8 \<and>
   length (base64_scalar_decode cap s) \<le> length s * 6 div 8"
proof (intro conjI)
  show "length (base32Encode upper padding d) \<le> base_size 5 (length d)"
    using encode_fits [of 5 d] by (simp add: base32Encode_def baseEncode_def Let_def)
  show "length (base64Encode url padding d) \<le> base_size 6 (length d)"
    using encode_fits [of 6 d] by (simp add: base64Encode_def baseEncode_def Let_def)
  show "length (base32Decode s) \<le> length s * 5 div 8"
    using decode_loop_length [of 5 0 True base32_table 0 s] by (simp add: base32Decode_def baseDecode_def)
  show "length (base64_scalar_decode cap s) \<le> length s * 6 div 8"
    using base64_full_length [of False s] by (simp add: base64_scalar_decode_def)
qed

end
