(* ===== verification/Multibase.thy ===== *)
theory Multibase
  imports HexCodec BaseCodec
begin

text \<open>
  The codec dispatchers of \<^verbatim>\<open>src/encoding/encoding.cpp\<close>: \<open>base64DecodeTo\<close>, \<open>commonEncode\<close> and
  \<open>commonDecode\<close>, and the module \<open>multibase\<close>. simdutf (\<open>validate_ascii\<close>, \<open>base64_to_binary\<close> and the
  UTF-16 conversions), libbase58 and the iconv codecs are not part of the repository's own code: the
  record \<open>codec_lib\<close> holds them as parameters.
\<close>

datatype codec_error = UnknownCodec string | Base58Error | ConvError

record codec_lib =
  validate_ascii :: "string \<Rightarrow> bool"
  base64_to_binary :: "string \<Rightarrow> byte list option"
  b58_enc :: "byte list \<Rightarrow> string"
  b58_dec :: "string \<Rightarrow> byte list option"
  utf16_to_utf8 :: "16 word list \<Rightarrow> string"
  utf8_to_utf16 :: "string \<Rightarrow> 16 word list"
  conv_decode :: "string \<Rightarrow> byte list \<Rightarrow> codec_error + string"
  conv_encode :: "string \<Rightarrow> string \<Rightarrow> codec_error + byte list"
  has_sse2 :: bool

definition bytes_to_string :: "byte list \<Rightarrow> string" where
  "bytes_to_string bs = map (\<lambda>b. char_of (unat b)) bs"

definition string_to_bytes :: "string \<Rightarrow> byte list" where
  "string_to_bytes s = map of_char s"

lemma byte_of_char: "of_char (char_of (unat b)) = (b :: byte)"
proof -
  have "(of_char (char_of (unat b)) :: byte) = word_of_nat (of_char (char_of (unat b)))"
    by (rule of_nat_of_char [symmetric])
  also have "(of_char (char_of (unat b)) :: nat) = unat b mod 256"
    by (rule of_char_of)
  also have "unat b mod 256 = unat b"
    using unsigned_less [of b, where ?'a = nat] by simp
  finally show ?thesis by simp
qed

lemma string_bytes [simp]: "string_to_bytes (bytes_to_string bs) = bs"
  by (simp add: string_to_bytes_def bytes_to_string_def comp_def byte_of_char)

section \<open>Base64 with simdutf\<close>

definition is_safe_ascii :: "codec_lib \<Rightarrow> string \<Rightarrow> bool" where
  "is_safe_ascii L s \<longleftrightarrow> length s = 0 \<or> validate_ascii L s"

definition base64DecodeTo :: "codec_lib \<Rightarrow> string \<Rightarrow> nat \<Rightarrow> byte list" where
  "base64DecodeTo L s cap =
     (if length s = 0 then []
      else
        let upper = length s * 3 div 4
        in if is_safe_ascii L s then
             (if cap \<ge> upper
              then (case base64_to_binary L s of
                      Some r \<Rightarrow> r
                    | None \<Rightarrow> base64_scalar_decode cap s)
              else (case base64_to_binary L s of
                      Some r \<Rightarrow> take (min (length r) cap) r
                    | None \<Rightarrow> base64_scalar_decode cap s))
           else base64_scalar_decode cap s)"

text \<open>The call without a destination only counts the bytes.\<close>

definition base64_measure :: "codec_lib \<Rightarrow> string \<Rightarrow> nat" where
  "base64_measure L s =
     (if length s = 0 then 0
      else if is_safe_ascii L s then
        (case base64_to_binary L s of Some r \<Rightarrow> length r | None \<Rightarrow> 0)
      else length (decode_loop False kBase64DecTable 6 0 0 s))"

definition base64Decode :: "codec_lib \<Rightarrow> string \<Rightarrow> byte list" where
  "base64Decode L s = base64DecodeTo L s (length s * 3 div 4)"

section \<open>The common dispatcher\<close>

definition is_utf8_name :: "string \<Rightarrow> bool" where
  "is_utf8_name codec \<longleftrightarrow> codec = ''utf8'' \<or> codec = ''utf-8'' \<or> codec = ''undefined''"

definition commonEncode :: "codec_lib \<Rightarrow> string \<Rightarrow> byte list \<Rightarrow> codec_error + string" where
  "commonEncode L codec data =
     (if is_utf8_name codec then Inr (bytes_to_string data)
      else if codec = ''hex'' then Inr (hexEncode (has_sse2 L) False data)
      else if codec = ''base32'' then Inr (base32Encode False False data)
      else if codec = ''base58'' then Inr (b58_enc L data)
      else if codec = ''base64'' then Inr (base64Encode False True data)
      else if codec = ''base64url'' then Inr (base64Encode True False data)
      else if codec = ''ascii'' then Inr (bytes_to_string (map (\<lambda>b. b AND 0x7F) data))
      else if codec = ''binary'' \<or> codec = ''latin1'' then Inr (utf16_to_utf8 L (map ucast data))
      else conv_decode L codec data)"

definition commonDecode :: "codec_lib \<Rightarrow> string \<Rightarrow> string \<Rightarrow> codec_error + byte list" where
  "commonDecode L codec s =
     (if is_utf8_name codec then Inr (string_to_bytes s)
      else if codec = ''hex'' then Inr (hexDecode (has_sse2 L) s)
      else if codec = ''base32'' then Inr (base32Decode s)
      else if codec = ''base58'' then
        (case b58_dec L s of Some d \<Rightarrow> Inr d | None \<Rightarrow> Inl Base58Error)
      else if codec = ''base64'' \<or> codec = ''base64url'' then Inr (base64Decode L s)
      else if codec = ''ascii'' then Inr (map (\<lambda>b. b AND 0x7F) (string_to_bytes s))
      else if codec = ''binary'' \<or> codec = ''latin1'' then Inr (map ucast (utf8_to_utf16 L s))
      else conv_encode L codec s)"

section \<open>Multibase\<close>

definition multibase_encode :: "codec_lib \<Rightarrow> string \<Rightarrow> byte list \<Rightarrow> codec_error + string" where
  "multibase_encode L codec data =
     (if codec = ''base16'' then Inr (CHR ''f'' # hexEncode (has_sse2 L) False data)
      else if codec = ''base16upper'' then Inr (CHR ''F'' # hexEncode (has_sse2 L) True data)
      else if codec = ''base32'' then Inr (CHR ''b'' # base32Encode False False data)
      else if codec = ''base32upper'' then Inr (CHR ''B'' # base32Encode True False data)
      else if codec = ''base32pad'' then Inr (CHR ''c'' # base32Encode False True data)
      else if codec = ''base32padupper'' then Inr (CHR ''C'' # base32Encode True True data)
      else if codec = ''base58btc'' then Inr (CHR ''z'' # b58_enc L data)
      else if codec = ''base64'' then Inr (CHR ''m'' # base64Encode False False data)
      else if codec = ''base64pad'' then Inr (CHR ''M'' # base64Encode False True data)
      else if codec = ''base64url'' then Inr (CHR ''u'' # base64Encode True False data)
      else if codec = ''base64urlpad'' then Inr (CHR ''U'' # base64Encode True True data)
      else Inl (UnknownCodec codec))"

text \<open>The text is a C string: the type character of an empty one is the terminating null.\<close>

definition multibase_decode :: "codec_lib \<Rightarrow> string \<Rightarrow> codec_error + byte list" where
  "multibase_decode L data =
     (let type = (case data of [] \<Rightarrow> CHR 0x00 | c # _ \<Rightarrow> c); rest = tl data
      in
      if type \<in> {CHR ''f'', CHR ''F''} then Inr (hexDecode (has_sse2 L) rest)
      else if type \<in> {CHR ''b'', CHR ''B'', CHR ''c'', CHR ''C''} then Inr (base32Decode rest)
      else if type \<in> {CHR ''m'', CHR ''M'', CHR ''u'', CHR ''U''} then Inr (base64Decode L rest)
      else if type = CHR ''z'' then
        (case b58_dec L rest of Some d \<Rightarrow> Inr d | None \<Rightarrow> Inl Base58Error)
      else Inl (UnknownCodec [type]))"

section \<open>Properties\<close>

text \<open>
  The documented behaviour of the simdutf option \<open>base64_default_or_url_accept_garbage\<close>, as the
  comment above \<open>base64DecodeTo\<close> states it: on ASCII text it succeeds with the lenient result.
\<close>

definition simdutf_base64_lenient :: "codec_lib \<Rightarrow> bool" where
  "simdutf_base64_lenient L \<longleftrightarrow>
     (\<forall>s. validate_ascii L s \<longrightarrow> base64_to_binary L s = Some (decode_loop False kBase64DecTable 6 0 0 s))"

lemma base64DecodeTo_lenient:
  assumes "simdutf_base64_lenient L"
  shows "base64DecodeTo L s cap = take cap (decode_loop False kBase64DecTable 6 0 0 s)"
proof (cases "s = []")
  case False
  have "8 * length (decode_loop False kBase64DecTable 6 0 0 s) \<le> 6 * length s"
    by (rule base64_full_length)
  then have "length s * 3 div 4 \<le> cap \<Longrightarrow> length (decode_loop False kBase64DecTable 6 0 0 s) \<le> cap"
    by linarith
  with False assms show ?thesis
    by (auto simp: base64DecodeTo_def Let_def is_safe_ascii_def simdutf_base64_lenient_def
        base64_scalar_decode_def min_def)
qed (simp add: base64DecodeTo_def)

lemma base64Decode_encode:
  assumes "simdutf_base64_lenient L"
  shows "base64Decode L (base64Encode url padding d) = d"
  using base64DecodeTo_lenient [OF assms] base64_full_length [of False "base64Encode url padding d"]
  by (simp add: base64Decode_def base64_full_decode)

definition ascii_lib :: codec_lib where
  "ascii_lib = \<lparr>validate_ascii = list_all (\<lambda>c. code c < 128),
     base64_to_binary = (\<lambda>s. Some (decode_loop False kBase64DecTable 6 0 0 s)),
     b58_enc = (\<lambda>_. []), b58_dec = (\<lambda>_. None),
     utf16_to_utf8 = (\<lambda>_. []), utf8_to_utf16 = (\<lambda>_. []),
     conv_decode = (\<lambda>_ _. Inl ConvError), conv_encode = (\<lambda>_ _. Inl ConvError), has_sse2 = True\<rparr>"

lemma ascii_lib_lenient: "simdutf_base64_lenient ascii_lib"
  by (simp add: simdutf_base64_lenient_def ascii_lib_def)

text \<open>
  C4: what \<open>multibase.encode\<close> writes with any codec but base58, \<open>multibase.decode\<close> reads back, given
  that simdutf decodes base64 as documented: the one-character prefixes select the right decoder.
\<close>

theorem multibase_roundtrip:
  assumes "simdutf_base64_lenient L" "codec \<noteq> ''base58btc''" "multibase_encode L codec d = Inr s"
  shows "multibase_decode L s = Inr d"
  using assms(2,3) base64Decode_encode [OF assms(1)] hex_lower.dec_enc hexDecode_hexEncode base32.dec_enc
  by (auto simp: multibase_encode_def multibase_decode_def split: if_splits)

theorem multibase_roundtrip_witness:
  "multibase_decode ascii_lib (CHR ''c'' # base32Encode False True [1, 2]) = Inr [1, 2]"
  by (rule multibase_roundtrip [OF ascii_lib_lenient, of "''base32pad''"]) (simp_all add: multibase_encode_def)

text \<open>
  For every codec whose text form is made by this code (hex, base32, both base64 forms, utf8) the
  common dispatcher used by buffers decodes what it encodes.
\<close>

theorem common_codec_roundtrip:
  assumes "simdutf_base64_lenient L"
    and "codec \<in> {''utf8'', ''utf-8'', ''undefined'', ''hex'', ''base32'', ''base64'', ''base64url''}"
  shows "\<exists>s. commonEncode L codec d = Inr s \<and> commonDecode L codec s = Inr d"
  using assms(2) base64Decode_encode [OF assms(1)] hexDecode_hexEncode base32.dec_enc
  by (auto simp: commonEncode_def commonDecode_def is_utf8_name_def)

theorem common_codec_roundtrip_witness:
  "\<exists>s. commonEncode ascii_lib ''base64'' [7] = Inr s \<and> commonDecode ascii_lib ''base64'' s = Inr [7]"
  by (rule common_codec_roundtrip [OF ascii_lib_lenient]) simp

end
