(* ===== verification/Streams.thy ===== *)
theory Streams
  imports Prelude
begin

text \<open>
  What the stream classes of \<^verbatim>\<open>src/io\<close> promise one another: the interface \<open>Stream_base\<close> as
  \<open>BufferedStream\<close> uses it (reading whatever comes next), and \<open>SeekableStream_base\<close> as \<open>RangeStream\<close>
  uses it. A method returns a \<open>reply\<close>: a value, \<open>return_null\<close>, or an error, together with the new state.
\<close>

datatype stream_error =
  Closed | InvalidCall | InvalidArg | OutOfRange | BadRange | BadBounds | TooLong | ConvFailed | BadAlloc | LengthError

datatype 'a reply = Ok 'a | ReturnNull | Fail stream_error

datatype whence = SEEK_SET | SEEK_CUR | SEEK_END

text \<open>The C cast of a 64-bit number to \<open>int32_t\<close>.\<close>

definition to_int32 :: "int \<Rightarrow> int" where
  "to_int32 x = (x + 2 ^ 31) mod 2 ^ 32 - 2 ^ 31"

lemma to_int32_small [simp]: "- (2 ^ 31) \<le> x \<Longrightarrow> x < 2 ^ 31 \<Longrightarrow> to_int32 x = x"
  by (simp add: to_int32_def)

text \<open>A source of bytes: every read yields the next piece of what is left, \<open>null\<close> when nothing is.\<close>

locale byte_source =
  fixes read_some :: "'s \<Rightarrow> string reply \<times> 's"
    and rest :: "'s \<Rightarrow> string"
    and ok :: "'s \<Rightarrow> bool"
  assumes read_ok: "ok s \<Longrightarrow> read_some s = (Ok c, s') \<Longrightarrow> rest s = c @ rest s' \<and> c \<noteq> [] \<and> ok s'"
    and read_null: "ok s \<Longrightarrow> read_some s = (ReturnNull, s') \<Longrightarrow> rest s = [] \<and> rest s' = [] \<and> ok s'"
    and read_never_fails: "ok s \<Longrightarrow> read_some s \<noteq> (Fail e, s')"
begin

lemma read_cases:
  assumes "ok s"
  obtains (more) c s' where "read_some s = (Ok c, s')" "rest s = c @ rest s'" "c \<noteq> []" "ok s'"
    | (null) s' where "read_some s = (ReturnNull, s')" "rest s = []" "rest s' = []" "ok s'"
proof -
  obtain r s' where r: "read_some s = (r, s')" by fastforce
  show thesis
  proof (cases r)
    case (Ok c)
    with r read_ok [OF assms] more show ?thesis by blast
  next
    case ReturnNull
    with r read_null [OF assms] null show ?thesis by blast
  next
    case (Fail e)
    with r read_never_fails [OF assms] show ?thesis by blast
  qed
qed

lemma read_shrinks: "ok s \<Longrightarrow> read_some s = (Ok c, s') \<Longrightarrow> length (rest s') < length (rest s)"
  using read_ok by fastforce

end

text \<open>
  A seekable stream over fixed data. Reading a negative number of bytes reads all that is left; a
  read that finds nothing answers null; a seek to a position inside the data goes there.
\<close>

definition next_piece :: "int \<Rightarrow> int \<Rightarrow> string \<Rightarrow> string" where
  "next_piece n pos d = (let r = drop (nat pos) d in if n < 0 then r else take (nat n) r)"

locale seekable_stream =
  fixes read :: "int \<Rightarrow> 's \<Rightarrow> string reply \<times> 's"
    and seek :: "int \<Rightarrow> whence \<Rightarrow> 's \<Rightarrow> unit reply \<times> 's"
    and tell :: "'s \<Rightarrow> int"
    and data :: "'s \<Rightarrow> string"
    and ok :: "'s \<Rightarrow> bool"
  assumes tell_inside: "ok s \<Longrightarrow> 0 \<le> tell s \<and> tell s \<le> int (length (data s))"
    and read_law: "ok s \<Longrightarrow> read n s = (r, s') \<Longrightarrow>
      ok s' \<and> data s' = data s \<and> tell s' = tell s + int (length (next_piece n (tell s) (data s))) \<and>
      r = (if next_piece n (tell s) (data s) = [] then ReturnNull else Ok (next_piece n (tell s) (data s)))"
    and seek_law: "ok s \<Longrightarrow> 0 \<le> p \<Longrightarrow> p \<le> int (length (data s)) \<Longrightarrow> seek p SEEK_SET s = (u, s') \<Longrightarrow>
      u = Ok () \<and> ok s' \<and> data s' = data s \<and> tell s' = p"
begin

lemma read_all_piece: "next_piece (-1) p d = drop (nat p) d"
  by (simp add: next_piece_def)

lemma seek_to:
  assumes "ok s" "0 \<le> p" "p \<le> int (length (data s))"
  obtains s' where "seek p SEEK_SET s = (Ok (), s')" "ok s'" "data s' = data s" "tell s' = p"
proof -
  obtain u s' where s': "seek p SEEK_SET s = (u, s')" by fastforce
  with seek_law [OF assms s'] that show thesis by simp
qed

lemma read_from:
  assumes "ok s"
  obtains s' where "read n s = ((if next_piece n (tell s) (data s) = [] then ReturnNull
      else Ok (next_piece n (tell s) (data s))), s')"
    "ok s'" "data s' = data s" "tell s' = tell s + int (length (next_piece n (tell s) (data s)))"
proof -
  obtain r s' where s': "read n s = (r, s')" by fastforce
  with read_law [OF assms s'] that show thesis by simp
qed

end

text \<open>Every seekable stream is a source of bytes.\<close>

sublocale seekable_stream \<subseteq> byte_source "read (-1)" "\<lambda>s. drop (nat (tell s)) (data s)" ok
proof
  fix s c s'
  assume "ok s" "read (-1) s = (Ok c, s')"
  with read_law [OF this] tell_inside [of s]
  show "drop (nat (tell s)) (data s) = c @ drop (nat (tell s')) (data s') \<and> c \<noteq> [] \<and> ok s'"
    by (auto simp: read_all_piece split: if_splits)
next
  fix s s'
  assume "ok s" "read (-1) s = (ReturnNull, s')"
  with read_law [OF this] tell_inside [of s]
  show "drop (nat (tell s)) (data s) = [] \<and> drop (nat (tell s')) (data s') = [] \<and> ok s'"
    by (auto simp: read_all_piece split: if_splits)
next
  fix s e s'
  assume "ok s"
  then show "read (-1) s \<noteq> (Fail e, s')"
    using read_law [of s "-1"] by (auto split: if_splits)
qed

end
