(* ===== verification/MemoryStream.thy ===== *)
theory MemoryStream
  imports Streams
begin

text \<open>
  \<^verbatim>\<open>src/io/MemoryStream.cpp\<close> and \<^verbatim>\<open>src/io/MemoryCloneStream.cpp\<close>. A \<open>std::stringstream\<close> is its
  contents, the get and the put position and the \<open>eofbit\<close>; the stream remembers its length in
  \<open>m_size\<close>. Times and external-memory accounting are left out. Positions of the clone are \<open>int32_t\<close>.
\<close>

section \<open>The string stream\<close>

record stringstream =
  contents :: string
  gpos :: int
  ppos :: int
  eofbit :: bool

definition ss_seekg :: "int \<Rightarrow> stringstream \<Rightarrow> stringstream" where
  "ss_seekg p ss = ss\<lparr>gpos := p, eofbit := False\<rparr>"

definition ss_seekg_end :: "stringstream \<Rightarrow> stringstream" where
  "ss_seekg_end ss = ss\<lparr>gpos := int (length (contents ss)), eofbit := False\<rparr>"

definition ss_seekp :: "int \<Rightarrow> stringstream \<Rightarrow> stringstream" where
  "ss_seekp p ss = ss\<lparr>ppos := p\<rparr>"

text \<open>\<open>read\<close> sets the end-of-file bit when it wants more than there is.\<close>

definition ss_read :: "int \<Rightarrow> stringstream \<Rightarrow> string \<times> stringstream" where
  "ss_read n ss =
     (let piece = take (nat n) (drop (nat (gpos ss)) (contents ss))
      in (piece, ss\<lparr>gpos := gpos ss + int (length piece), eofbit := eofbit ss \<or> int (length piece) < n\<rparr>))"

text \<open>\<open>write\<close> overwrites from the put position and extends the contents.\<close>

definition ss_write :: "string \<Rightarrow> stringstream \<Rightarrow> stringstream" where
  "ss_write d ss =
     ss\<lparr>contents := take (nat (ppos ss)) (contents ss) @ d @ drop (nat (ppos ss) + length d) (contents ss),
        ppos := ppos ss + int (length d)\<rparr>"

text \<open>\<open>str(s)\<close> replaces the contents and puts both positions at the beginning.\<close>

definition ss_set_str :: "string \<Rightarrow> stringstream \<Rightarrow> stringstream" where
  "ss_set_str d ss = ss\<lparr>contents := d, gpos := 0, ppos := 0\<rparr>"

section \<open>The memory stream\<close>

record memory_stream =
  m_buffer :: stringstream
  m_size :: int

definition new_memory_stream :: memory_stream where
  "new_memory_stream = \<lparr>m_buffer = \<lparr>contents = [], gpos = 0, ppos = 0, eofbit = False\<rparr>, m_size = 0\<rparr>"

definition ms_readBuffer :: "int \<Rightarrow> memory_stream \<Rightarrow> string reply \<times> memory_stream" where
  "ms_readBuffer bytes s =
     (let p = gpos (m_buffer s);
          b = ss_seekg_end (m_buffer s);
          sz = gpos b - p;
          b = ss_seekg p b;
          bytes = (if bytes < 0 \<or> bytes > sz then to_int32 sz else bytes)
      in
      if bytes > 0 then
        (let (strBuf, b) =
               (if p = 0 \<and> bytes = to_int32 sz then (contents b, ss_seekg sz b) else ss_read bytes b);
             b = ss_seekp (gpos b) b
         in (if strBuf = [] then ReturnNull else Ok strBuf, s\<lparr>m_buffer := b\<rparr>))
      else (ReturnNull, s\<lparr>m_buffer := b\<rparr>))"

definition ms_truncate :: "int \<Rightarrow> memory_stream \<Rightarrow> unit reply \<times> memory_stream" where
  "ms_truncate bytes s =
     (if bytes < 0 then (Fail BadAlloc, s)
      else
        let str = contents (m_buffer s);
            str = take (nat bytes) str @ replicate (nat bytes - length str) (CHR 0x00)
        in (Ok (), s\<lparr>m_buffer := ss_set_str str (m_buffer s),
                     m_size := (if bytes > 0 then bytes else 0)\<rparr>))"

definition ms_eof :: "memory_stream \<Rightarrow> bool" where
  "ms_eof s = eofbit (m_buffer s)"

definition ms_writeBuffer :: "string \<Rightarrow> memory_stream \<Rightarrow> unit reply \<times> memory_stream" where
  "ms_writeBuffer d s =
     (let b = ss_write d (m_buffer s);
          b = ss_seekg (ppos b) b;
          pos = ppos b
      in (Ok (), s\<lparr>m_buffer := b, m_size := (if pos > m_size s then pos else m_size s)\<rparr>))"

definition ms_seek :: "int \<Rightarrow> whence \<Rightarrow> memory_stream \<Rightarrow> unit reply \<times> memory_stream" where
  "ms_seek offset wh s =
     (let p = gpos (m_buffer s);
          b = ss_seekg_end (m_buffer s);
          sz = gpos b;
          offset = (case wh of SEEK_SET \<Rightarrow> offset | SEEK_CUR \<Rightarrow> offset + p | SEEK_END \<Rightarrow> offset + sz);
          offset = (if offset < 0 then 0 else if offset > sz then sz else offset)
      in (Ok (), s\<lparr>m_buffer := ss_seekp offset (ss_seekg offset b)\<rparr>))"

definition ms_tell :: "memory_stream \<Rightarrow> int" where
  "ms_tell s = gpos (m_buffer s)"

definition ms_rewind :: "memory_stream \<Rightarrow> unit reply \<times> memory_stream" where
  "ms_rewind s = (Ok (), s\<lparr>m_buffer := ss_seekp 0 (ss_seekg 0 (m_buffer s))\<rparr>)"

definition ms_size :: "memory_stream \<Rightarrow> int" where
  "ms_size s = m_size s"

definition ms_clear :: "memory_stream \<Rightarrow> unit reply \<times> memory_stream" where
  "ms_clear s = (Ok (), (snd (ms_rewind s))
     \<lparr>m_buffer := ss_set_str [] (m_buffer (snd (ms_rewind s))), m_size := 0\<rparr>)"

section \<open>The read-only clone\<close>

record clone_stream =
  c_buffer :: string
  c_pos :: int

definition ms_clone :: "memory_stream \<Rightarrow> clone_stream" where
  "ms_clone s = \<lparr>c_buffer = contents (m_buffer s), c_pos = 0\<rparr>"

definition cs_readBuffer :: "int \<Rightarrow> clone_stream \<Rightarrow> string reply \<times> clone_stream" where
  "cs_readBuffer bytes s =
     (let sz = to_int32 (int (length (c_buffer s))) - c_pos s;
          bytes = (if bytes < 0 \<or> bytes > sz then sz else bytes)
      in
      if bytes > 0 then
        (if c_pos s = 0 \<and> bytes = sz
         then (if c_buffer s = [] then ReturnNull else Ok (c_buffer s),
               s\<lparr>c_pos := to_int32 (int (length (c_buffer s)))\<rparr>)
         else
           let strBuf = take (nat bytes) (drop (nat (c_pos s)) (c_buffer s))
           in (if strBuf = [] then ReturnNull else Ok strBuf, s\<lparr>c_pos := c_pos s + bytes\<rparr>))
      else (ReturnNull, s))"

definition cs_seek :: "int \<Rightarrow> whence \<Rightarrow> clone_stream \<Rightarrow> unit reply \<times> clone_stream" where
  "cs_seek offset wh s =
     (let len = to_int32 (int (length (c_buffer s)));
          pos = (case wh of
                   SEEK_SET \<Rightarrow> to_int32 offset
                 | SEEK_CUR \<Rightarrow> to_int32 (c_pos s + to_int32 offset)
                 | SEEK_END \<Rightarrow> to_int32 (to_int32 offset + len));
          pos = (if pos < 0 then 0 else if pos > len then len else pos)
      in (Ok (), s\<lparr>c_pos := pos\<rparr>))"

definition cs_tell :: "clone_stream \<Rightarrow> int" where
  "cs_tell s = c_pos s"

definition cs_eof :: "clone_stream \<Rightarrow> bool" where
  "cs_eof s \<longleftrightarrow> c_pos s = to_int32 (int (length (c_buffer s)))"

definition cs_rewind :: "clone_stream \<Rightarrow> unit reply \<times> clone_stream" where
  "cs_rewind s = (Ok (), s\<lparr>c_pos := 0\<rparr>)"

definition cs_writeBuffer :: "string \<Rightarrow> clone_stream \<Rightarrow> unit reply \<times> clone_stream" where
  "cs_writeBuffer d s = (Fail InvalidCall, s)"

definition cs_truncate :: "int \<Rightarrow> clone_stream \<Rightarrow> unit reply \<times> clone_stream" where
  "cs_truncate bytes s = (Fail InvalidCall, s)"

definition cs_size :: "clone_stream \<Rightarrow> int" where
  "cs_size s = int (length (c_buffer s))"

definition cs_clear :: "clone_stream \<Rightarrow> unit reply \<times> clone_stream" where
  "cs_clear s = (Ok (), (snd (cs_rewind s))\<lparr>c_buffer := []\<rparr>)"

section \<open>The invariant\<close>

text \<open>
  Both positions of the string stream agree and lie inside the contents, \<open>m_size\<close> is the length of the
  contents, which fits an \<open>int32_t\<close>, and the end-of-file bit is never set.
\<close>

definition ms_ok :: "memory_stream \<Rightarrow> bool" where
  "ms_ok s \<longleftrightarrow>
     gpos (m_buffer s) = ppos (m_buffer s) \<and> 0 \<le> gpos (m_buffer s) \<and>
     gpos (m_buffer s) \<le> int (length (contents (m_buffer s))) \<and>
     m_size s = int (length (contents (m_buffer s))) \<and>
     int (length (contents (m_buffer s))) < 2 ^ 31 \<and> \<not> eofbit (m_buffer s)"

definition ms_data :: "memory_stream \<Rightarrow> string" where
  "ms_data s = contents (m_buffer s)"

definition cs_ok :: "clone_stream \<Rightarrow> bool" where
  "cs_ok s \<longleftrightarrow> 0 \<le> c_pos s \<and> c_pos s \<le> int (length (c_buffer s)) \<and> int (length (c_buffer s)) < 2 ^ 31"

lemmas ss_defs = ss_seekg_def ss_seekg_end_def ss_seekp_def ss_read_def ss_write_def ss_set_str_def

lemma ms_read_law:
  assumes "ms_ok s" "ms_readBuffer n s = (r, s')"
  shows "ms_ok s' \<and> ms_data s' = ms_data s \<and>
    ms_tell s' = ms_tell s + int (length (next_piece n (ms_tell s) (ms_data s))) \<and>
    r = (if next_piece n (ms_tell s) (ms_data s) = [] then ReturnNull
         else Ok (next_piece n (ms_tell s) (ms_data s)))"
  using assms
  by (auto simp: ms_readBuffer_def ms_ok_def ms_data_def ms_tell_def next_piece_def ss_defs Let_def
      split: if_splits prod.splits)

lemma ms_seek_law:
  assumes "ms_ok s" "0 \<le> p" "p \<le> int (length (ms_data s))" "ms_seek p SEEK_SET s = (u, s')"
  shows "u = Ok () \<and> ms_ok s' \<and> ms_data s' = ms_data s \<and> ms_tell s' = p"
  using assms by (auto simp: ms_seek_def ms_ok_def ms_data_def ms_tell_def ss_defs Let_def)

interpretation ms: seekable_stream ms_readBuffer ms_seek ms_tell ms_data ms_ok
proof
  show "ms_ok s \<Longrightarrow> 0 \<le> ms_tell s \<and> ms_tell s \<le> int (length (ms_data s))" for s
    by (simp add: ms_ok_def ms_tell_def ms_data_def)
qed (rule ms_read_law ms_seek_law; assumption)+

lemma cs_read_law:
  assumes "cs_ok s" "cs_readBuffer n s = (r, s')"
  shows "cs_ok s' \<and> c_buffer s' = c_buffer s \<and>
    cs_tell s' = cs_tell s + int (length (next_piece n (cs_tell s) (c_buffer s))) \<and>
    r = (if next_piece n (cs_tell s) (c_buffer s) = [] then ReturnNull
         else Ok (next_piece n (cs_tell s) (c_buffer s)))"
  using assms
  by (auto simp: cs_readBuffer_def cs_ok_def cs_tell_def next_piece_def Let_def split: if_splits)

lemma cs_seek_law:
  assumes "cs_ok s" "0 \<le> p" "p \<le> int (length (c_buffer s))" "cs_seek p SEEK_SET s = (u, s')"
  shows "u = Ok () \<and> cs_ok s' \<and> c_buffer s' = c_buffer s \<and> cs_tell s' = p"
  using assms by (auto simp: cs_seek_def cs_ok_def cs_tell_def Let_def)

interpretation cs: seekable_stream cs_readBuffer cs_seek cs_tell c_buffer cs_ok
proof
  show "cs_ok s \<Longrightarrow> 0 \<le> cs_tell s \<and> cs_tell s \<le> int (length (c_buffer s))" for s
    by (simp add: cs_ok_def cs_tell_def)
qed (rule cs_read_law cs_seek_law; assumption)+

section \<open>Every operation keeps the invariant\<close>

datatype ms_call =
  ReadBuffer int | WriteBuffer string | Truncate int | Seek int whence | Rewind | Clear

fun ms_step :: "ms_call \<Rightarrow> memory_stream \<Rightarrow> memory_stream" where
  "ms_step (ReadBuffer n) s = snd (ms_readBuffer n s)"
| "ms_step (WriteBuffer d) s = snd (ms_writeBuffer d s)"
| "ms_step (Truncate n) s = snd (ms_truncate n s)"
| "ms_step (Seek n w) s = snd (ms_seek n w s)"
| "ms_step Rewind s = snd (ms_rewind s)"
| "ms_step Clear s = snd (ms_clear s)"

text \<open>The streams a program can get to, as long as the contents stay below 2 GiB.\<close>

inductive ms_reachable :: "memory_stream \<Rightarrow> bool" where
  ms_new: "ms_reachable new_memory_stream"
| ms_call: "ms_reachable s \<Longrightarrow> int (length (ms_data (ms_step c s))) < 2 ^ 31 \<Longrightarrow> ms_reachable (ms_step c s)"

inductive_cases ms_reachableE: "ms_reachable s"

lemma ms_write_contents:
  assumes "ms_ok s"
  shows "ms_data (snd (ms_writeBuffer d s)) =
      take (nat (ms_tell s)) (ms_data s) @ d @ drop (nat (ms_tell s) + length d) (ms_data s)"
    "ms_tell (snd (ms_writeBuffer d s)) = ms_tell s + int (length d)"
  using assms by (auto simp: ms_writeBuffer_def ms_data_def ms_tell_def ms_ok_def ss_defs Let_def)

lemma ms_write_ok:
  assumes "ms_ok s" "int (length (ms_data (snd (ms_writeBuffer d s)))) < 2 ^ 31"
  shows "ms_ok (snd (ms_writeBuffer d s))"
proof -
  define p where "p = nat (ppos (m_buffer s))"
  have p: "gpos (m_buffer s) = int p" "ppos (m_buffer s) = int p" "p \<le> length (contents (m_buffer s))"
    using assms(1) by (auto simp: ms_ok_def p_def)
  with assms show ?thesis
    by (auto simp: ms_writeBuffer_def ms_ok_def ms_data_def ss_defs Let_def)
qed

lemma ms_step_ok:
  assumes "ms_ok s" "int (length (ms_data (ms_step c s))) < 2 ^ 31"
  shows "ms_ok (ms_step c s)"
proof (cases c)
  case (ReadBuffer n)
  with assms(1) ms_read_law [of s n] show ?thesis by (metis ms_step.simps(1) surjective_pairing)
next
  case (WriteBuffer d)
  with assms ms_write_ok show ?thesis by simp
next
  case (Truncate n)
  with assms show ?thesis
    by (auto simp: ms_truncate_def ms_ok_def ms_data_def ss_defs Let_def min_def)
next
  case (Seek n w)
  with assms show ?thesis by (cases w) (auto simp: ms_seek_def ms_ok_def ss_defs Let_def)
next
  case Rewind
  with assms show ?thesis by (auto simp: ms_rewind_def ms_ok_def ss_defs)
next
  case Clear
  with assms show ?thesis by (auto simp: ms_clear_def ms_rewind_def ms_ok_def ss_defs)
qed

lemma ms_reachable_ok: "ms_reachable s \<Longrightarrow> ms_ok s"
  by (induction rule: ms_reachable.induct)
    (simp_all add: ms_step_ok, simp add: new_memory_stream_def ms_ok_def)

section \<open>Properties\<close>

text \<open>
  C5: in every memory stream a program can reach, the get and the put position agree and lie inside
  the contents and the cached size is their length; and \<open>eof()\<close> is false, whatever was read.
\<close>

theorem memory_stream_invariant:
  assumes "ms_reachable s"
  shows "0 \<le> ms_tell s \<and> ms_tell s \<le> ms_size s \<and> gpos (m_buffer s) = ppos (m_buffer s) \<and>
    ms_size s = int (length (ms_data s)) \<and> \<not> ms_eof s"
  using ms_reachable_ok [OF assms]
  by (auto simp: ms_ok_def ms_tell_def ms_size_def ms_data_def ms_eof_def)

theorem memory_stream_invariant_witness:
  "\<not> ms_eof (ms_step (ReadBuffer (-1)) (ms_step Rewind (ms_step (WriteBuffer ''ab'') new_memory_stream)))"
proof -
  have "ms_reachable (ms_step (ReadBuffer (-1)) (ms_step Rewind (ms_step (WriteBuffer ''ab'') new_memory_stream)))"
    by (intro ms_call ms_new)
      (simp_all add: new_memory_stream_def ms_writeBuffer_def ms_rewind_def ms_readBuffer_def ms_data_def ss_defs)
  then show ?thesis using memory_stream_invariant by blast
qed

text \<open>
  What is written to a memory stream is what a read of that many bytes returns from where the
  writing began.
\<close>

theorem memory_stream_write_read:
  assumes "ms_ok s" "d \<noteq> []" "int (length (ms_data (snd (ms_writeBuffer d s)))) < 2 ^ 31"
  shows "fst (ms_readBuffer (int (length d))
    (snd (ms_seek (ms_tell s) SEEK_SET (snd (ms_writeBuffer d s))))) = Ok d"
proof -
  let ?w = "snd (ms_writeBuffer d s)"
  have w: "ms_ok ?w" using ms_write_ok [OF assms(1,3)] .
  have t: "0 \<le> ms_tell s" "ms_tell s \<le> int (length (ms_data s))" using ms.tell_inside [OF assms(1)] by auto
  with ms_write_contents [OF assms(1), of d] have "ms_tell s \<le> int (length (ms_data ?w))" by auto
  with ms.seek_to [OF w t(1)] obtain s' where s': "ms_seek (ms_tell s) SEEK_SET ?w = (Ok (), s')" "ms_ok s'"
    "ms_data s' = ms_data ?w" "ms_tell s' = ms_tell s" by metis
  have "next_piece (int (length d)) (ms_tell s') (ms_data s') = d"
    using ms_write_contents [OF assms(1), of d] s' t by (simp add: next_piece_def)
  then show ?thesis
    using ms.read_law [OF s'(2) prod.collapse [symmetric], of "int (length d)"] assms(2) s'(1) by simp
qed

theorem memory_stream_write_read_witness:
  "fst (ms_readBuffer 2 (snd (ms_seek 0 SEEK_SET (snd (ms_writeBuffer ''ab'' new_memory_stream))))) = Ok ''ab''"
  using memory_stream_write_read [of new_memory_stream "''ab''"]
  by (simp add: new_memory_stream_def ms_ok_def ms_tell_def ms_writeBuffer_def ms_data_def ss_defs)

end
