(* ===== verification/RangeStream.thy ===== *)
theory RangeStream
  imports MemoryStream
begin

text \<open>
  \<^verbatim>\<open>src/io/RangeStream.cpp\<close>: a window \<open>[b_pos, e_pos)\<close> onto another stream. In seekable mode the
  underlying stream is reached through its virtual methods (record \<open>seekable_vt\<close>) and is put back
  where it stood after every read; otherwise it is only read forward. The state machines \<open>asyncRead\<close>
  and \<open>asyncReadRaw\<close> are run to completion: an error of the underlying read stops them at once.
\<close>

section \<open>Parsing a range\<close>

fun c_digits :: "string \<Rightarrow> string" where
  "c_digits s = takeWhile c_isdigit s"

text \<open>\<open>atoll\<close>: leading white space, a sign, digits; the numbers here fit 64 bits.\<close>

definition c_isspace :: "char \<Rightarrow> bool" where
  "c_isspace c \<longleftrightarrow> code c = 32 \<or> (9 \<le> code c \<and> code c \<le> 13)"

definition c_atoll :: "string \<Rightarrow> int" where
  "c_atoll s =
     (let t = dropWhile c_isspace s
      in case t of
           [] \<Rightarrow> 0
         | c # cs \<Rightarrow>
             if c = CHR ''-'' then - int (digits_to_nat (c_digits cs))
             else if c = CHR ''+'' then int (digits_to_nat (c_digits cs))
             else int (digits_to_nat (c_digits t)))"

text \<open>The checks and positions of \<open>_parseRange\<close> after the string is split at its first dash.\<close>

definition range_positions :: "string \<Rightarrow> string \<Rightarrow> int \<Rightarrow> int \<times> int" where
  "range_positions b e fsize =
     (if b \<noteq> [] \<and> e = [] then (c_atoll b, fsize)
      else if b = [] \<and> e \<noteq> [] then (fsize - c_atoll e, fsize)
      else (c_atoll b, c_atoll e + 1))"

definition parseRange :: "string \<Rightarrow> int \<Rightarrow> stream_error + int \<times> int" where
  "parseRange rng fsize =
     (if CHR '','' \<in> set rng then Inl BadRange
      else if CHR ''-'' \<notin> set rng then Inl BadRange
      else
        let b = takeWhile (\<lambda>c. c \<noteq> CHR ''-'') rng;
            e = drop (length b + 1) rng
        in if b = [] \<and> e = [] then Inl BadRange
           else
             let (bpos, epos) = range_positions b e fsize
             in if bpos < 0 \<or> bpos > epos \<or> epos > fsize then Inl BadRange else Inr (bpos, epos))"

section \<open>The stream\<close>

record 's seekable_vt =
  vt_read :: "int \<Rightarrow> 's \<Rightarrow> string reply \<times> 's"
  vt_seek :: "int \<Rightarrow> whence \<Rightarrow> 's \<Rightarrow> unit reply \<times> 's"
  vt_tell :: "'s \<Rightarrow> int"
  vt_size :: "'s \<Rightarrow> int"

record ('s, 'r) range_stream =
  m_stream :: "'s option"
  m_raw_stream :: "'r option"
  m_seekable :: bool
  b_pos :: int
  real_pos :: int
  e_pos :: int

definition new_seekable :: "'s \<Rightarrow> int \<Rightarrow> int \<Rightarrow> ('s, 'r) range_stream" where
  "new_seekable stm begn endp =
     \<lparr>m_stream = Some stm, m_raw_stream = None, m_seekable = True,
      b_pos = begn, real_pos = begn, e_pos = endp\<rparr>"

definition new_raw :: "'r \<Rightarrow> int \<Rightarrow> ('s, 'r) range_stream" where
  "new_raw stm endp =
     \<lparr>m_stream = None, m_raw_stream = Some stm, m_seekable = False,
      b_pos = 0, real_pos = 0, e_pos = endp\<rparr>"

text \<open>The three constructors of the script object.\<close>

definition range_new_string ::
  "'s seekable_vt \<Rightarrow> 's \<Rightarrow> string \<Rightarrow> stream_error + ('s, 'r) range_stream" where
  "range_new_string vt stm rng =
     (case parseRange rng (vt_size vt stm) of
        Inl e \<Rightarrow> Inl e
      | Inr (b, e) \<Rightarrow> Inr (new_seekable stm b e))"

definition range_new_bounds ::
  "'s seekable_vt \<Rightarrow> 's \<Rightarrow> int \<Rightarrow> int \<Rightarrow> stream_error + ('s, 'r) range_stream" where
  "range_new_bounds vt stm begn endp =
     (if begn < 0 then Inl BadBounds
      else if begn > vt_size vt stm then Inl BadBounds
      else Inr (new_seekable stm begn endp))"

definition range_new_end :: "'s + 'r \<Rightarrow> int \<Rightarrow> stream_error + ('s, 'r) range_stream" where
  "range_new_end stm endp =
     (if endp < 0 then Inl BadBounds
      else case stm of Inl seekable \<Rightarrow> Inr (new_seekable seekable 0 endp) | Inr raw \<Rightarrow> Inr (new_raw raw endp))"

text \<open>The number of bytes asked of the underlying stream.\<close>

definition rest_bytes :: "int \<Rightarrow> int \<Rightarrow> int" where
  "rest_bytes bytes rest_sz = (if bytes < 0 \<or> bytes > rest_sz then to_int32 rest_sz else bytes)"

definition range_read_seekable ::
  "'s seekable_vt \<Rightarrow> int \<Rightarrow> 's \<Rightarrow> ('s, 'r) range_stream \<Rightarrow> string reply \<times> ('s, 'r) range_stream" where
  "range_read_seekable vt bytes u R =
     (let snap = vt_tell vt u;
          u = (if snap \<noteq> real_pos R then snd (vt_seek vt (real_pos R) SEEK_SET u) else u)
      in case vt_read vt (rest_bytes bytes (e_pos R - real_pos R)) u of
           (Fail e, u) \<Rightarrow> (Fail e, R\<lparr>m_stream := Some u\<rparr>)
         | (ReturnNull, u) \<Rightarrow>
             (case vt_seek vt snap SEEK_SET u of
                (Fail e, u) \<Rightarrow> (Fail e, R\<lparr>m_stream := Some u\<rparr>)
              | (_, u) \<Rightarrow> (ReturnNull, R\<lparr>m_stream := Some u\<rparr>))
         | (Ok d, u) \<Rightarrow>
             (let R = R\<lparr>real_pos := real_pos R + int (length d)\<rparr>
              in case vt_seek vt snap SEEK_SET u of
                   (Fail e, u) \<Rightarrow> (Fail e, R\<lparr>m_stream := Some u\<rparr>)
                 | (_, u) \<Rightarrow> (Ok d, R\<lparr>m_stream := Some u\<rparr>)))"

definition range_read_raw ::
  "(int \<Rightarrow> 'r \<Rightarrow> string reply \<times> 'r) \<Rightarrow> int \<Rightarrow> 'r \<Rightarrow> ('s, 'r) range_stream \<Rightarrow>
   string reply \<times> ('s, 'r) range_stream" where
  "range_read_raw raw_read bytes u R =
     (let rest_sz = e_pos R - real_pos R
      in if rest_sz \<le> 0 then (ReturnNull, R)
         else case raw_read (rest_bytes bytes rest_sz) u of
                (Ok d, u) \<Rightarrow>
                  (Ok d, R\<lparr>m_raw_stream := Some u, real_pos := real_pos R + int (length d)\<rparr>)
              | (r, u) \<Rightarrow> (r, R\<lparr>m_raw_stream := Some u\<rparr>))"

definition range_readBuffer ::
  "'s seekable_vt \<Rightarrow> (int \<Rightarrow> 'r \<Rightarrow> string reply \<times> 'r) \<Rightarrow> int \<Rightarrow> ('s, 'r) range_stream \<Rightarrow>
   string reply \<times> ('s, 'r) range_stream" where
  "range_readBuffer vt raw_read bytes R =
     (if m_seekable R then
        (case m_stream R of
           None \<Rightarrow> (Fail Closed, R)
         | Some u \<Rightarrow>
             if e_pos R < real_pos R \<or> b_pos R > real_pos R then (ReturnNull, R)
             else range_read_seekable vt bytes u R)
      else
        (case m_raw_stream R of
           None \<Rightarrow> (Fail Closed, R)
         | Some u \<Rightarrow> range_read_raw raw_read bytes u R))"

definition range_readAll ::
  "'s seekable_vt \<Rightarrow> (int \<Rightarrow> 'r \<Rightarrow> string reply \<times> 'r) \<Rightarrow> ('s, 'r) range_stream \<Rightarrow>
   string reply \<times> ('s, 'r) range_stream" where
  "range_readAll vt raw_read R = range_readBuffer vt raw_read (-1) R"

text \<open>\<open>get_c_pos\<close> and \<open>valid_end\<close> are only called on an open stream.\<close>

definition get_c_pos :: "'s seekable_vt \<Rightarrow> 's \<Rightarrow> ('s, 'r) range_stream \<Rightarrow> int" where
  "get_c_pos vt u R = (if \<not> m_seekable R then real_pos R else vt_tell vt u)"

definition valid_end :: "'s seekable_vt \<Rightarrow> 's \<Rightarrow> ('s, 'r) range_stream \<Rightarrow> int" where
  "valid_end vt u R =
     (if \<not> m_seekable R then e_pos R
      else if vt_size vt u > e_pos R then e_pos R else vt_size vt u)"

definition valid_start :: "('s, 'r) range_stream \<Rightarrow> int" where
  "valid_start R = (if b_pos R > 0 then b_pos R else 0)"

definition range_writeBuffer :: "string \<Rightarrow> ('s, 'r) range_stream \<Rightarrow> unit reply \<times> ('s, 'r) range_stream" where
  "range_writeBuffer d R = (Fail InvalidCall, R)"

definition range_close :: "('s, 'r) range_stream \<Rightarrow> ('s, 'r) range_stream" where
  "range_close R = (if m_seekable R then R\<lparr>m_stream := None\<rparr> else R\<lparr>m_raw_stream := None\<rparr>)"

definition range_seek :: "int \<Rightarrow> whence \<Rightarrow> ('s, 'r) range_stream \<Rightarrow> unit reply \<times> ('s, 'r) range_stream" where
  "range_seek offset wh R =
     (if \<not> m_seekable R then (Fail InvalidCall, R)
      else
        let offset = offset + (case wh of SEEK_SET \<Rightarrow> b_pos R | SEEK_CUR \<Rightarrow> real_pos R | SEEK_END \<Rightarrow> e_pos R)
        in if offset < b_pos R \<or> offset > e_pos R then (Fail OutOfRange, R)
           else (Ok (), R\<lparr>real_pos := offset\<rparr>))"

definition range_rewind :: "('s, 'r) range_stream \<Rightarrow> unit reply \<times> ('s, 'r) range_stream" where
  "range_rewind R = (if \<not> m_seekable R then (Fail InvalidCall, R) else range_seek 0 SEEK_SET R)"

definition range_open :: "('s, 'r) range_stream \<Rightarrow> bool" where
  "range_open R = (if m_seekable R then m_stream R \<noteq> None else m_raw_stream R \<noteq> None)"

definition range_tell :: "('s, 'r) range_stream \<Rightarrow> int reply" where
  "range_tell R = (if \<not> range_open R then Fail Closed else Ok (real_pos R - b_pos R))"

definition range_size :: "'s seekable_vt \<Rightarrow> ('s, 'r) range_stream \<Rightarrow> int reply" where
  "range_size vt R =
     (if m_seekable R then
        (case m_stream R of None \<Rightarrow> Fail Closed | Some u \<Rightarrow> Ok (valid_end vt u R - valid_start R))
      else if m_raw_stream R = None then Fail Closed else Ok (e_pos R))"

definition range_truncate :: "int \<Rightarrow> ('s, 'r) range_stream \<Rightarrow> unit reply \<times> ('s, 'r) range_stream" where
  "range_truncate n R = (Fail InvalidCall, R)"

definition range_eof :: "'s seekable_vt \<Rightarrow> ('s, 'r) range_stream \<Rightarrow> bool reply" where
  "range_eof vt R =
     (if m_seekable R then
        (case m_stream R of None \<Rightarrow> Fail Closed | Some u \<Rightarrow> Ok (get_c_pos vt u R \<ge> valid_end vt u R))
      else if m_raw_stream R = None then Fail Closed else Ok (real_pos R \<ge> e_pos R))"

section \<open>The window\<close>

definition window :: "int \<Rightarrow> int \<Rightarrow> string \<Rightarrow> string" where
  "window b e d = take (nat (e - b)) (drop (nat b) d)"

definition range_data :: "('s \<Rightarrow> string) \<Rightarrow> ('s, 'r) range_stream \<Rightarrow> string" where
  "range_data data R = (case m_stream R of None \<Rightarrow> [] | Some u \<Rightarrow> window (b_pos R) (e_pos R) (data u))"

text \<open>An open seekable range that lies inside the data, at a position inside the range.\<close>

definition range_ok :: "('s \<Rightarrow> bool) \<Rightarrow> ('s \<Rightarrow> string) \<Rightarrow> ('s, 'r) range_stream \<Rightarrow> bool" where
  "range_ok ok data R \<longleftrightarrow>
     m_seekable R \<and> 0 \<le> b_pos R \<and> b_pos R \<le> real_pos R \<and> real_pos R \<le> e_pos R \<and> e_pos R < 2 ^ 31 \<and>
     (\<exists>u. m_stream R = Some u \<and> ok u \<and> e_pos R \<le> int (length (data u)))"

definition range_pos :: "('s, 'r) range_stream \<Rightarrow> int" where
  "range_pos R = real_pos R - b_pos R"

lemma next_piece_window:
  assumes "0 \<le> b" "b \<le> p" "p \<le> e" "e \<le> int (length d)" "e < 2 ^ 31"
  shows "next_piece (rest_bytes n (e - p)) p d = next_piece n (p - b) (window b e d)"
proof -
  define b' p' e' where "b' = nat b" and "p' = nat p" and "e' = nat e"
  then have d: "b = int b'" "p = int p'" "e = int e'" "b' \<le> p'" "p' \<le> e'" "e' \<le> length d"
    using assms by auto
  let ?r = "take (e' - p') (drop p' d)"
  have nats: "nat (p - b) = p' - b'" "nat (e - b) = e' - b'" "nat (e - p) = e' - p'"
    using d(1-3) by auto
  have r: "drop (nat (p - b)) (window b e d) = ?r"
    using d(4,5) by (simp add: window_def nats b'_def [symmetric] drop_take)
  have i: "to_int32 (e - p) = e - p" using d assms(5) by (intro to_int32_small) auto
  have rhs: "next_piece n (p - b) (window b e d) = (if n < 0 then ?r else take (nat n) ?r)"
    unfolding next_piece_def Let_def r ..
  show ?thesis
  proof (cases "n < 0 \<or> n > e - p")
    case True
    then have "next_piece (rest_bytes n (e - p)) p d = ?r"
      using assms(3) by (simp add: next_piece_def rest_bytes_def i nats p'_def [symmetric])
    moreover have "e' - p' \<le> nat n" if "\<not> n < 0" using True that nats(3) by linarith
    ultimately show ?thesis unfolding rhs by (auto simp: min_def)
  next
    case False
    then have "next_piece (rest_bytes n (e - p)) p d = take (nat n) (drop p' d)"
      by (simp add: next_piece_def rest_bytes_def p'_def [symmetric])
    moreover have "nat n \<le> e' - p'" using False nats(3) by linarith
    ultimately show ?thesis using False unfolding rhs by (simp add: min_def)
  qed
qed

lemma window_length: "0 \<le> b \<Longrightarrow> b \<le> e \<Longrightarrow> e \<le> int (length d) \<Longrightarrow> length (window b e d) = nat (e - b)"
  by (auto simp: window_def)

context seekable_stream
begin

definition vt :: "('s \<Rightarrow> int) \<Rightarrow> 's seekable_vt" where
  "vt sz = \<lparr>vt_read = read, vt_seek = seek, vt_tell = tell, vt_size = sz\<rparr>"

lemma range_tell_inside:
  "range_ok ok data R \<Longrightarrow> 0 \<le> range_pos R \<and> range_pos R \<le> int (length (range_data data R))"
  by (auto simp: range_ok_def range_pos_def range_data_def window_length)

text \<open>A read of the range: the piece of the window, and the underlying stream back in its place.\<close>

lemma range_read:
  assumes R: "range_ok ok data R" and u: "m_stream R = Some u"
  obtains u' where
    "range_readBuffer (vt sz) raw n R =
       (if next_piece n (range_pos R) (range_data data R) = [] then ReturnNull
        else Ok (next_piece n (range_pos R) (range_data data R)),
        R\<lparr>real_pos := real_pos R + int (length (next_piece n (range_pos R) (range_data data R))),
          m_stream := Some u'\<rparr>)"
    "ok u'" "data u' = data u" "tell u' = tell u"
proof -
  from R u have ok: "ok u" and b: "0 \<le> b_pos R" "b_pos R \<le> real_pos R" "real_pos R \<le> e_pos R"
    "e_pos R \<le> int (length (data u))" "e_pos R < 2 ^ 31" by (auto simp: range_ok_def)
  define u1 where "u1 = (if tell u \<noteq> real_pos R then snd (seek (real_pos R) SEEK_SET u) else u)"
  have u1: "ok u1" "data u1 = data u" "tell u1 = real_pos R"
  proof -
    have pos: "0 \<le> real_pos R" "real_pos R \<le> int (length (data u))" using b by auto
    obtain v where "seek (real_pos R) SEEK_SET u = (Ok (), v)" "ok v" "data v = data u" "tell v = real_pos R"
      by (rule seek_to [OF ok pos])
    then show "ok u1" "data u1 = data u" "tell u1 = real_pos R" using ok by (auto simp: u1_def)
  qed
  let ?n = "rest_bytes n (e_pos R - real_pos R)"
  let ?p = "next_piece n (range_pos R) (range_data data R)"
  have p: "next_piece ?n (tell u1) (data u1) = ?p"
    using next_piece_window [OF b(1-5)] u u1 by (simp add: range_pos_def range_data_def)
  obtain u2 where u2: "read ?n u1 = (if ?p = [] then ReturnNull else Ok ?p, u2)" "ok u2" "data u2 = data u"
    using read_from [OF u1(1), of ?n] p u1(2) by metis
  have "0 \<le> tell u" "tell u \<le> int (length (data u2))" using tell_inside [OF ok] u2(3) by auto
  then obtain u3 where u3: "seek (tell u) SEEK_SET u2 = (Ok (), u3)" "ok u3" "data u3 = data u" "tell u3 = tell u"
    using seek_to [OF u2(2), of "tell u"] u2(3) by metis
  have "range_readBuffer (vt sz) raw n R = range_read_seekable (vt sz) n u R"
    using R u b by (simp add: range_readBuffer_def range_ok_def)
  also have "\<dots> = (if ?p = [] then ReturnNull else Ok ?p,
      R\<lparr>real_pos := real_pos R + int (length ?p), m_stream := Some u3\<rparr>)"
    unfolding range_read_seekable_def vt_def Let_def seekable_vt.select_convs u1_def [symmetric]
    using u2(1) u3(1) by (simp split: if_split)
  finally show thesis using that u3 by blast
qed

lemma range_read_law:
  assumes "range_ok ok data R" "range_readBuffer (vt sz) raw n R = (r, R')"
  shows "range_ok ok data R' \<and> range_data data R' = range_data data R \<and>
    range_pos R' = range_pos R + int (length (next_piece n (range_pos R) (range_data data R))) \<and>
    r = (if next_piece n (range_pos R) (range_data data R) = [] then ReturnNull
         else Ok (next_piece n (range_pos R) (range_data data R)))"
proof -
  obtain u where u: "m_stream R = Some u" using assms(1) by (auto simp: range_ok_def)
  let ?p = "next_piece n (range_pos R) (range_data data R)"
  have "length ?p \<le> length (range_data data R) - nat (range_pos R)"
    by (simp add: next_piece_def Let_def)
  moreover have "int (length (range_data data R)) = e_pos R - b_pos R"
    using assms(1) u by (auto simp: range_ok_def range_data_def window_length)
  ultimately have bound: "real_pos R + int (length ?p) \<le> e_pos R"
    using range_tell_inside [OF assms(1)] by (simp add: range_pos_def) linarith
  obtain u' where "range_readBuffer (vt sz) raw n R =
      (if ?p = [] then ReturnNull else Ok ?p,
       R\<lparr>real_pos := real_pos R + int (length ?p), m_stream := Some u'\<rparr>)" "ok u'" "data u' = data u"
    using range_read [OF assms(1) u, of sz raw n] by blast
  with assms bound u show ?thesis
    by (auto simp: range_ok_def range_data_def range_pos_def)
qed

lemma range_seek_law:
  assumes "range_ok ok data R" "0 \<le> p" "p \<le> int (length (range_data data R))"
    "range_seek p SEEK_SET R = (x, R')"
  shows "x = Ok () \<and> range_ok ok data R' \<and> range_data data R' = range_data data R \<and> range_pos R' = p"
proof -
  obtain u where u: "m_stream R = Some u" using assms(1) by (auto simp: range_ok_def)
  have "int (length (range_data data R)) = e_pos R - b_pos R"
    using assms(1) u by (auto simp: range_ok_def range_data_def window_length)
  with assms u show ?thesis
    by (auto simp: range_seek_def range_ok_def range_data_def range_pos_def)
qed

end

text \<open>A range of a memory stream, or of a clone, is itself a seekable stream.\<close>

interpretation range_ms: seekable_stream "range_readBuffer (ms.vt ms_size) raw" range_seek range_pos
  "range_data ms_data" "range_ok ms_ok ms_data" for raw
proof
  show "range_ok ms_ok ms_data R \<Longrightarrow> 0 \<le> range_pos R \<and> range_pos R \<le> int (length (range_data ms_data R))"
    for R :: "(memory_stream, 'a) range_stream"
    by (rule ms.range_tell_inside)
qed (rule ms.range_read_law ms.range_seek_law; assumption)+

interpretation range_cs: seekable_stream "range_readBuffer (cs.vt cs_size) raw" range_seek range_pos
  "range_data c_buffer" "range_ok cs_ok c_buffer" for raw
proof
  show "range_ok cs_ok c_buffer R \<Longrightarrow> 0 \<le> range_pos R \<and> range_pos R \<le> int (length (range_data c_buffer R))"
    for R :: "(clone_stream, 'a) range_stream"
    by (rule cs.range_tell_inside)
qed (rule cs.range_read_law cs.range_seek_law; assumption)+

section \<open>Properties\<close>

text \<open>
  Reading a range of a memory stream returns the next piece of the window between its bounds, as
  many bytes as asked for or as the window still has, moves the range forward by that much, and leaves
  the memory stream where it stood.
\<close>

theorem range_read_window:
  assumes "range_ok ms_ok ms_data R" "m_stream R = Some u"
  shows "\<exists>u'. range_readBuffer (ms.vt ms_size) raw n R =
      (let piece = next_piece n (range_pos R) (window (b_pos R) (e_pos R) (ms_data u))
       in (if piece = [] then ReturnNull else Ok piece,
           R\<lparr>real_pos := real_pos R + int (length piece), m_stream := Some u'\<rparr>)) \<and>
    ms_data u' = ms_data u \<and> ms_tell u' = ms_tell u"
proof -
  have d: "range_data ms_data R = window (b_pos R) (e_pos R) (ms_data u)"
    using assms(2) by (simp add: range_data_def)
  show ?thesis
    using ms.range_read [OF assms, of ms_size raw n] unfolding d Let_def by blast
qed

definition sample_stream :: memory_stream where
  "sample_stream = snd (ms_rewind (snd (ms_writeBuffer ''abcdef'' new_memory_stream)))"

lemma sample_stream_ok: "ms_ok sample_stream" "ms_data sample_stream = ''abcdef''" "ms_tell sample_stream = 0"
  by (simp_all add: sample_stream_def ms_ok_def ms_data_def ms_tell_def ms_rewind_def ms_writeBuffer_def
      new_memory_stream_def ss_defs)

lemma sample_range_ok: "range_ok ms_ok ms_data (new_seekable sample_stream 1 4 :: (memory_stream, unit) range_stream)"
  by (simp add: range_ok_def new_seekable_def sample_stream_ok)

theorem range_read_window_witness:
  "fst (range_readBuffer (ms.vt ms_size) (\<lambda>n u. (ReturnNull, u)) 10
     (new_seekable sample_stream 1 4 :: (memory_stream, unit) range_stream)) = Ok ''bcd''"
  using range_read_window [OF sample_range_ok, of sample_stream "\<lambda>n u. (ReturnNull, u)" 10]
  by (auto simp: new_seekable_def sample_stream_ok window_def next_piece_def range_pos_def numeral_eq_Suc)

text \<open>
  \<open>eof()\<close> of a seekable range asks the underlying stream where it stands, not the range: after
  everything was read it still answers false when the underlying stream stood before the range's end.
\<close>

theorem range_eof_after_read_all:
  assumes "range_ok ms_ok ms_data R" "m_stream R = Some u" "ms_tell u < e_pos R"
  shows "range_eof (ms.vt ms_size) (snd (range_readAll (ms.vt ms_size) raw R)) = Ok False \<and>
    real_pos (snd (range_readAll (ms.vt ms_size) raw R)) = e_pos R"
proof -
  let ?p = "next_piece (-1) (range_pos R) (range_data ms_data R)"
  obtain u' where u': "range_readBuffer (ms.vt ms_size) raw (-1) R = (if ?p = [] then ReturnNull else Ok ?p,
      R\<lparr>real_pos := real_pos R + int (length ?p), m_stream := Some u'\<rparr>)"
    "ms_ok u'" "ms_data u' = ms_data u" "ms_tell u' = ms_tell u"
    by (rule ms.range_read [OF assms(1,2), of ms_size raw "-1"])
  have d: "range_data ms_data R = window (b_pos R) (e_pos R) (ms_data u)"
    using assms(2) by (simp add: range_data_def)
  from assms have b: "0 \<le> b_pos R" "b_pos R \<le> real_pos R" "real_pos R \<le> e_pos R" "m_seekable R"
    "e_pos R \<le> int (length (ms_data u))" by (auto simp: range_ok_def)
  have "real_pos R + int (length ?p) = e_pos R"
    using b by (simp add: d ms.read_all_piece window_length range_pos_def)
  moreover have "ms_size u' = int (length (ms_data u))"
    using u'(2,3) by (simp add: ms_ok_def ms_size_def ms_data_def)
  moreover have "snd (range_readAll (ms.vt ms_size) raw R) =
      R\<lparr>real_pos := real_pos R + int (length ?p), m_stream := Some u'\<rparr>"
    by (simp add: range_readAll_def u'(1))
  ultimately show ?thesis
    using u'(4) b assms(3) by (simp add: range_eof_def get_c_pos_def valid_end_def ms.vt_def)
qed

theorem range_eof_after_read_all_witness:
  "range_eof (ms.vt ms_size) (snd (range_readAll (ms.vt ms_size) (\<lambda>n u. (ReturnNull, u))
     (new_seekable sample_stream 1 4 :: (memory_stream, unit) range_stream))) = Ok False"
  using range_eof_after_read_all [OF sample_range_ok, of sample_stream "\<lambda>n u. (ReturnNull, u)"]
  by (simp add: new_seekable_def sample_stream_ok)

text \<open>
  Whatever the text of an HTTP range is, the positions \<open>_parseRange\<close> accepts lie in order inside
  the file.
\<close>

theorem parse_range_bounds:
  assumes "parseRange rng fsize = Inr (b, e)"
  shows "0 \<le> b \<and> b \<le> e \<and> e \<le> fsize"
  using assms by (auto simp: parseRange_def Let_def split: if_splits prod.splits)

lemma c_digits_to_string: "c_digits (nat_to_string n) = nat_to_string n"
  by (simp add: takeWhile_eq_all_conv nat_to_string_digits)

lemma c_atoll_to_string: "c_atoll (nat_to_string n) = int n"
proof -
  obtain c cs where cs: "nat_to_string n = c # cs" by (cases "nat_to_string n") auto
  then have c: "c_isdigit c" using nat_to_string_digits [of c n] by simp
  then have "\<not> c_isspace c" "c \<noteq> CHR ''-''" "c \<noteq> CHR ''+''" by (auto simp: c_isspace_def c_isdigit_def)
  with cs show ?thesis
    using c_digits_to_string [of n] digits_to_nat_to_string [of n] by (simp add: c_atoll_def)
qed

theorem parse_range_bounds_witness:
  "parseRange ''2-3'' 10 = Inr (2, 4) \<and> (0::int) \<le> 2 \<and> (2::int) \<le> 4 \<and> (4::int) \<le> 10"
proof -
  have p: "parseRange ''2-3'' 10 = Inr (2, 4)" by code_simp
  with parse_range_bounds [OF p] show ?thesis by blast
qed

text \<open>
  The three forms of an HTTP byte range: \<open>a-b\<close> selects the bytes from \<open>a\<close> to \<open>b\<close> inclusive,
  \<open>a-\<close> those from \<open>a\<close> on, \<open>-n\<close> the last \<open>n\<close>; a range that leaves the file is an error.
\<close>

theorem parse_range_forms:
  "parseRange (nat_to_string a @ ''-'' @ nat_to_string b) fsize =
     (if int a \<le> int b + 1 \<and> int b + 1 \<le> fsize then Inr (int a, int b + 1) else Inl BadRange) \<and>
   parseRange (nat_to_string a @ ''-'') fsize = (if int a \<le> fsize then Inr (int a, fsize) else Inl BadRange) \<and>
   parseRange (''-'' @ nat_to_string b) fsize = (if int b \<le> fsize then Inr (fsize - int b, fsize) else Inl BadRange)"
proof -
  have n: "c \<notin> set (nat_to_string n)" if "\<not> c_isdigit c" for c n
    using nat_to_string_digits that by blast
  have t: "takeWhile (\<lambda>c. c \<noteq> CHR ''-'') (nat_to_string a @ CHR ''-'' # s) = nat_to_string a" for s
    using n [of "CHR ''-''" a] by (subst takeWhile_append2) (auto simp: c_isdigit_def)
  have "\<not> c_isdigit CHR '',''" by (simp add: c_isdigit_def)
  with n t show ?thesis
    by (auto simp: parseRange_def Let_def range_positions_def c_atoll_to_string)
qed

end
