(* ===== verification/BufferedStream.thy ===== *)
theory BufferedStream
  imports RangeStream "HOL-Library.Sublist"
begin

text \<open>
  \<^verbatim>\<open>src/io/BufferedStream.cpp\<close> and the \<open>StringBuffer\<close> it collects pieces in: reading a number of
  bytes, a line, or up to a marker from a stream that delivers pieces of any size. The state machine
  \<open>asyncBuffer\<close> is the partial function \<open>drive\<close>, which takes the read method of the underlying stream
  as an argument and has no value when that stream never ends. Charset conversion (ICU) is a field of
  the state; numbers of bytes are taken below 2 GiB.
\<close>

section \<open>State\<close>

record 's buffered =
  m_stm :: 's
  m_buf :: string
  m_pos :: nat
  m_temp :: nat
  m_eol :: string
  m_strbuf :: string
  m_iconv :: "string \<Rightarrow> string option"

definition new_buffered :: "'s \<Rightarrow> (string \<Rightarrow> string option) \<Rightarrow> 's buffered" where
  "new_buffered stm iconv =
     \<lparr>m_stm = stm, m_buf = [], m_pos = 0, m_temp = 0, m_eol = [], m_strbuf = [], m_iconv = iconv\<rparr>"

definition append_buf :: "int \<Rightarrow> 's buffered \<Rightarrow> 's buffered" where
  "append_buf n S =
     (if n > 0 then
        (if m_pos S = 0 \<and> n = int (length (m_buf S))
         then S\<lparr>m_strbuf := m_strbuf S @ m_buf S, m_pos := m_pos S + nat n\<rparr>
         else S\<lparr>m_strbuf := m_strbuf S @ take (nat n) (drop (m_pos S) (m_buf S)), m_pos := m_pos S + nat n\<rparr>)
      else S)"

text \<open>\<open>StringBuffer::str\<close> gives the collected text and empties the collection.\<close>

definition take_strbuf :: "'s buffered \<Rightarrow> string \<times> 's buffered" where
  "take_strbuf S = (m_strbuf S, S\<lparr>m_strbuf := []\<rparr>)"

section \<open>The state machine\<close>

text \<open>\<open>None\<close> is the pending result of a \<open>process\<close> function.\<close>

type_synonym 's process = "bool \<Rightarrow> 's buffered \<Rightarrow> 's buffered \<times> string reply option"

definition clear_consumed :: "'s buffered \<Rightarrow> 's buffered" where
  "clear_consumed S = (if m_pos S = length (m_buf S) then S\<lparr>m_buf := [], m_pos := 0\<rparr> else S)"

partial_function (option) drive ::
  "'s process \<Rightarrow> ('s \<Rightarrow> string reply \<times> 's) \<Rightarrow> bool \<Rightarrow> 's buffered \<Rightarrow> ('s buffered \<times> string reply) option" where
  "drive process rd streamEnd S =
     (let S1 = clear_consumed (fst (process streamEnd S))
      in case snd (process streamEnd S) of
           Some r \<Rightarrow> Some (S1, r)
         | None \<Rightarrow>
             (case fst (rd (m_stm S1)) of
                Fail e \<Rightarrow> Some (S1\<lparr>m_stm := snd (rd (m_stm S1))\<rparr>, Fail e)
              | ReturnNull \<Rightarrow>
                  drive process rd True (S1\<lparr>m_stm := snd (rd (m_stm S1)), m_buf := [], m_pos := 0\<rparr>)
              | Ok d \<Rightarrow>
                  drive process rd streamEnd (S1\<lparr>m_stm := snd (rd (m_stm S1)), m_buf := d, m_pos := 0\<rparr>)))"

text \<open>A read first tries what is buffered and only then starts the machine.\<close>

definition run_read ::
  "'s process \<Rightarrow> ('s \<Rightarrow> string reply \<times> 's) \<Rightarrow> 's buffered \<Rightarrow> ('s buffered \<times> string reply) option" where
  "run_read process rd S =
     (case process False S of
        (S1, Some r) \<Rightarrow> Some (S1, r)
      | (S1, None) \<Rightarrow> drive process rd False S1)"

section \<open>Reading bytes and text\<close>

definition wanted :: "int \<Rightarrow> 's buffered \<Rightarrow> int" where
  "wanted bytes S =
     (let n = bytes - int (length (m_strbuf S)); n1 = int (length (m_buf S)) - int (m_pos S)
      in if n > n1 then n1 else n)"

definition process_bytes :: "int \<Rightarrow> 's process" where
  "process_bytes bytes streamEnd S =
     (let S = append_buf (wanted bytes S) S
      in if streamEnd \<or> bytes = int (length (m_strbuf S)) then
           (case take_strbuf S of (s, S) \<Rightarrow> (S, Some (if s = [] then ReturnNull else Ok s)))
         else (S, None))"

definition bs_readBuffer ::
  "('s \<Rightarrow> string reply \<times> 's) \<Rightarrow> int \<Rightarrow> 's buffered \<Rightarrow> ('s buffered \<times> string reply) option" where
  "bs_readBuffer rd bytes S =
     (if bytes < 0 then
        (if m_pos S < length (m_buf S)
         then Some (S\<lparr>m_pos := length (m_buf S)\<rparr>, Ok (drop (m_pos S) (m_buf S)))
         else Some (S\<lparr>m_stm := snd (rd (m_stm S))\<rparr>, fst (rd (m_stm S))))
      else run_read (process_bytes bytes) rd S)"

definition process_text :: "int \<Rightarrow> 's process" where
  "process_text sz streamEnd S =
     (let S = append_buf (wanted sz S) S
      in if streamEnd \<or> sz = int (length (m_strbuf S)) then
           (case take_strbuf S of
              (s, S) \<Rightarrow>
                (S, Some (case m_iconv S s of
                            None \<Rightarrow> Fail ConvFailed
                          | Some v \<Rightarrow> if v = [] then ReturnNull else Ok v)))
         else (S, None))"

definition bs_readText ::
  "('s \<Rightarrow> string reply \<times> 's) \<Rightarrow> int \<Rightarrow> 's buffered \<Rightarrow> ('s buffered \<times> string reply) option" where
  "bs_readText rd sz S = run_read (process_text sz) rd S"

section \<open>Reading up to a marker\<close>

definition CRLF :: string where
  "CRLF = [CHR 0x0D, CHR 0x0A]"

text \<open>
  The matching loops of \<open>readUntil\<close> over the unread part of the buffer: the marker in force, the number
  of its characters matched, and the number of characters passed. A mismatch in the middle of the
  marker starts over at the mismatching character.
\<close>

function scan :: "bool \<Rightarrow> string \<Rightarrow> nat \<Rightarrow> string \<Rightarrow> nat \<Rightarrow> string \<times> nat \<times> nat" where
  "scan auto_cr mk temp [] k = (mk, temp, k)"
| "scan auto_cr mk temp (c # cs) k =
     (if temp \<ge> length mk then (mk, temp, k)
      else if temp = 0 then
        (if auto_cr \<and> c = CHR 0x0A then scan auto_cr [CHR 0x0A] 1 cs (k + 1)
         else if c = mk ! 0 then scan auto_cr mk 1 cs (k + 1)
         else scan auto_cr mk 0 cs (k + 1))
      else if c \<noteq> mk ! temp then scan auto_cr mk 0 (c # cs) k
      else scan auto_cr mk (temp + 1) cs (k + 1))"
  by pat_completeness auto
termination
  by (relation "measures [\<lambda>(a, m, t, s, k). length s, \<lambda>(a, m, t, s, k). t]") auto

text \<open>
  Taking the marker off a decoded text shorter than the marker makes \<open>std::string::resize\<close> throw
  \<open>std::length_error\<close>, the error \<open>LengthError\<close>.
\<close>

definition process_until :: "string \<Rightarrow> int \<Rightarrow> 's process" where
  "process_until mk maxlen streamEnd S =
     (case scan (mk = []) (if mk = [] then CRLF else mk) (m_temp S) (drop (m_pos S) (m_buf S)) 0 of
        (mkstr, temp, k) \<Rightarrow>
          let S = S\<lparr>m_temp := temp\<rparr>; mklen = length mkstr
          in if maxlen > 0 \<and> int (length (m_strbuf S)) + int k > maxlen + int mklen
             then (S, Some (Fail TooLong))
             else
               let S = append_buf (int k) S
               in if streamEnd \<or> m_temp S = mklen then
                    (case take_strbuf S of
                       (s, S) \<Rightarrow>
                         (case m_iconv S s of
                            None \<Rightarrow> (S, Some (Fail ConvFailed))
                          | Some v \<Rightarrow>
                              if m_temp S = mklen
                              then (if length v < m_temp S then (S, Some (Fail LengthError))
                                    else (S\<lparr>m_temp := 0\<rparr>, Some (Ok (take (length v - m_temp S) v))))
                              else (S\<lparr>m_temp := 0\<rparr>, Some (if streamEnd \<and> v = [] then ReturnNull else Ok v))))
                  else (S, None))"

definition bs_readUntil ::
  "('s \<Rightarrow> string reply \<times> 's) \<Rightarrow> string \<Rightarrow> int \<Rightarrow> 's buffered \<Rightarrow> ('s buffered \<times> string reply) option" where
  "bs_readUntil rd mk maxlen S = run_read (process_until mk maxlen) rd S"

definition bs_readLine ::
  "('s \<Rightarrow> string reply \<times> 's) \<Rightarrow> int \<Rightarrow> 's buffered \<Rightarrow> ('s buffered \<times> string reply) option" where
  "bs_readLine rd maxlen S = bs_readUntil rd (m_eol S) maxlen S"

text \<open>The loop of \<open>readLines\<close>; a negative count has no limit.\<close>

partial_function (option) lines_loop ::
  "('s \<Rightarrow> string reply \<times> 's) \<Rightarrow> int \<Rightarrow> 's buffered \<Rightarrow> string list \<Rightarrow>
   ('s buffered \<times> string list reply) option" where
  "lines_loop rd maxlines S acc =
     (case bs_readLine rd (-1) S of
        None \<Rightarrow> None
      | Some (S1, r) \<Rightarrow>
          (case r of
             Fail e \<Rightarrow> Some (S1, Fail e)
           | ReturnNull \<Rightarrow> Some (S1, Ok acc)
           | Ok str \<Rightarrow>
               if maxlines > 0 \<and> maxlines - 1 = 0 then Some (S1, Ok (acc @ [str]))
               else lines_loop rd (if maxlines > 0 then maxlines - 1 else maxlines) S1 (acc @ [str])))"

definition bs_readLines ::
  "('s \<Rightarrow> string reply \<times> 's) \<Rightarrow> int \<Rightarrow> 's buffered \<Rightarrow> ('s buffered \<times> string list reply) option" where
  "bs_readLines rd maxlines S =
     (if maxlines = 0 then Some (S, Ok []) else lines_loop rd maxlines S [])"

section \<open>Writing and settings\<close>

text \<open>The text a write sends to the underlying stream, and the number of bytes it reports.\<close>

definition bs_writeText :: "(string \<Rightarrow> string option) \<Rightarrow> string \<Rightarrow> stream_error + string \<times> nat" where
  "bs_writeText encode txt =
     (case encode txt of None \<Rightarrow> Inl ConvFailed | Some s \<Rightarrow> Inr (s, length s))"

definition bs_writeLine ::
  "(string \<Rightarrow> string option) \<Rightarrow> 's buffered \<Rightarrow> string \<Rightarrow> stream_error + string \<times> nat" where
  "bs_writeLine encode S txt =
     (case encode txt of
        None \<Rightarrow> Inl ConvFailed
      | Some s \<Rightarrow>
          let s = s @ (if m_eol S \<noteq> [] then m_eol S else [CHR 0x0A])
          in Inr (s, length s))"

text \<open>\<open>newVal[i]\<close> of a string of length \<open>i\<close> is the terminating null.\<close>

definition char_at :: "string \<Rightarrow> nat \<Rightarrow> char" where
  "char_at s i = (if i < length s then s ! i else CHR 0x00)"

definition bs_set_EOL :: "string \<Rightarrow> 's buffered \<Rightarrow> stream_error + 's buffered" where
  "bs_set_EOL newVal S =
     (if length newVal = 0 then Inr (S\<lparr>m_eol := []\<rparr>)
      else if char_at newVal 0 = CHR 0x0D \<and> char_at newVal 1 = CHR 0x0A then Inr (S\<lparr>m_eol := take 2 newVal\<rparr>)
      else if char_at newVal 1 = CHR 0x00 \<and> (char_at newVal 0 = CHR 0x0D \<or> char_at newVal 0 = CHR 0x0A)
           then Inr (S\<lparr>m_eol := take 1 newVal\<rparr>)
      else Inl InvalidArg)"

end
