(* ===== verification/BufferedSpec.thy ===== *)
theory BufferedSpec
  imports BufferedStream
begin

text \<open>
  What a buffered stream delivers, independent of the pieces the underlying source hands over: the
  reads are functions of the unread text alone. The lemmas are proved once for every source of bytes
  (locale \<open>byte_source\<close>) and hold of memory streams, clones and ranges of them by interpretation.
\<close>

section \<open>The unread text\<close>

definition unread :: "('s \<Rightarrow> string) \<Rightarrow> 's buffered \<Rightarrow> string" where
  "unread rest S = drop (m_pos S) (m_buf S) @ rest (m_stm S)"

text \<open>Between two reads: nothing collected, no marker half matched.\<close>

definition idle :: "('s \<Rightarrow> bool) \<Rightarrow> 's buffered \<Rightarrow> bool" where
  "idle ok S \<longleftrightarrow> m_temp S = 0 \<and> m_strbuf S = [] \<and> m_pos S \<le> length (m_buf S) \<and> ok (m_stm S)"

definition same_settings :: "'s buffered \<Rightarrow> 's buffered \<Rightarrow> bool" where
  "same_settings S S' \<longleftrightarrow> m_eol S' = m_eol S \<and> m_iconv S' = m_iconv S"

lemma append_buf_eq:
  "m_pos S + k \<le> length (m_buf S) \<Longrightarrow> append_buf (int k) S =
     S\<lparr>m_strbuf := m_strbuf S @ take k (drop (m_pos S) (m_buf S)), m_pos := m_pos S + k\<rparr>"
  by (cases "k = 0") (auto simp: append_buf_def)

lemma clear_consumed_unread [simp]:
  "unread rest (clear_consumed S) = unread rest S" "m_strbuf (clear_consumed S) = m_strbuf S"
  "m_temp (clear_consumed S) = m_temp S" "m_stm (clear_consumed S) = m_stm S"
  "same_settings R (clear_consumed S) = same_settings R S"
  "m_pos S \<le> length (m_buf S) \<Longrightarrow> idle ok (clear_consumed S) = idle ok S"
  by (auto simp: clear_consumed_def unread_def same_settings_def idle_def)

lemma take_drop_glue: "take k (drop p xs) @ drop (p + k) xs @ zs = drop p xs @ zs"
  using append_take_drop_id [of k "drop p xs"] by (simp add: add.commute)

section \<open>A rule for the state machine\<close>

context byte_source
begin

text \<open>
  \<open>Q\<close> is the loop invariant, \<open>Post\<close> the result. When \<open>process\<close> is pending it has used up the buffer, and
  the invariant holds again whatever piece comes next; at the end of the stream it is never pending.
\<close>

lemma drive_rule:
  assumes step: "\<And>e S S1 r. Q e S \<Longrightarrow> process e S = (S1, Some r) \<Longrightarrow> Post (clear_consumed S1) r"
    and pend: "\<And>e S S1. Q e S \<Longrightarrow> process e S = (S1, None) \<Longrightarrow>
      \<not> e \<and> ok (m_stm S1) \<and> m_pos S1 = length (m_buf S1) \<and>
      (\<forall>d u. ok u \<longrightarrow> rest (m_stm S1) = d @ rest u \<longrightarrow> Q e (S1\<lparr>m_stm := u, m_buf := d, m_pos := 0\<rparr>)) \<and>
      (\<forall>u. ok u \<longrightarrow> rest (m_stm S1) = [] \<longrightarrow> rest u = [] \<longrightarrow>
           Q True (S1\<lparr>m_stm := u, m_buf := [], m_pos := 0\<rparr>)) \<and>
      length (rest (m_stm S1)) = length (rest (m_stm S))"
  shows "Q e S \<Longrightarrow> \<exists>S' r. drive process read_some e S = Some (S', r) \<and> Post S' r"
proof (induction "length (rest (m_stm S)) + (if e then 0 else 1)" arbitrary: e S rule: less_induct)
  case less
  obtain S1 x where p: "process e S = (S1, x)" by fastforce
  show ?case
  proof (cases x)
    case (Some r)
    with p step [OF less.prems] show ?thesis by (subst drive.simps) (simp add: Let_def)
  next
    case None
    with pend [OF less.prems] p have ne: "\<not> e" and ok: "ok (m_stm S1)"
      and c: "clear_consumed S1 = S1\<lparr>m_buf := [], m_pos := 0\<rparr>"
      and go: "\<And>d u. ok u \<Longrightarrow> rest (m_stm S1) = d @ rest u \<Longrightarrow> Q e (S1\<lparr>m_stm := u, m_buf := d, m_pos := 0\<rparr>)"
      and fin: "\<And>u. ok u \<Longrightarrow> rest (m_stm S1) = [] \<Longrightarrow> rest u = [] \<Longrightarrow>
           Q True (S1\<lparr>m_stm := u, m_buf := [], m_pos := 0\<rparr>)"
      and len: "length (rest (m_stm S1)) = length (rest (m_stm S))"
      by (auto simp: clear_consumed_def)
    from ok show ?thesis
    proof (cases rule: read_cases)
      case (more d u)
      let ?S = "S1\<lparr>m_stm := u, m_buf := d, m_pos := 0\<rparr>"
      have "drive process read_some e S = drive process read_some e ?S"
        using p None c more(1) by (subst drive.simps) (simp add: Let_def)
      moreover have "length (rest u) < length (rest (m_stm S1))" using more(2,3) by simp
      ultimately show ?thesis
        using less.hyps [of ?S e] go [OF more(4,2)] len by simp
    next
      case (null u)
      let ?S = "S1\<lparr>m_stm := u, m_buf := [], m_pos := 0\<rparr>"
      have "drive process read_some e S = drive process read_some True ?S"
        using p None c null(1) by (subst drive.simps) (simp add: Let_def)
      then show ?thesis
        using less.hyps [of ?S True] fin [OF null(4,2,3)] null(3) ne by simp
    qed
  qed
qed
end

section \<open>Reading bytes\<close>

definition bytes_inv :: "('s \<Rightarrow> bool) \<Rightarrow> ('s \<Rightarrow> string) \<Rightarrow> 's buffered \<Rightarrow> nat \<Rightarrow> bool \<Rightarrow> 's buffered \<Rightarrow> bool" where
  "bytes_inv ok rest S0 n e S \<longleftrightarrow>
     m_strbuf S @ unread rest S = unread rest S0 \<and> length (m_strbuf S) \<le> n \<and> m_temp S = 0 \<and>
     m_pos S \<le> length (m_buf S) \<and> ok (m_stm S) \<and> same_settings S0 S \<and> (e \<longrightarrow> rest (m_stm S) = [])"

definition bytes_post :: "('s \<Rightarrow> bool) \<Rightarrow> ('s \<Rightarrow> string) \<Rightarrow> 's buffered \<Rightarrow> nat \<Rightarrow> 's buffered \<Rightarrow> string reply \<Rightarrow> bool" where
  "bytes_post ok rest S0 n S r \<longleftrightarrow>
     idle ok S \<and> same_settings S0 S \<and> unread rest S = drop n (unread rest S0) \<and>
     r = (if take n (unread rest S0) = [] then ReturnNull else Ok (take n (unread rest S0)))"

text \<open>What \<open>process_bytes\<close> moves from the buffer: all of it, or just enough.\<close>

lemma process_bytes_step:
  assumes "bytes_inv ok rest S0 n e S"
  obtains k where "k \<le> n - length (m_strbuf S)" "m_pos S + k \<le> length (m_buf S)"
    "m_pos S + k = length (m_buf S) \<or> k = n - length (m_strbuf S)"
    "append_buf (wanted (int n) S) S =
       S\<lparr>m_strbuf := m_strbuf S @ take k (drop (m_pos S) (m_buf S)), m_pos := m_pos S + k\<rparr>"
proof -
  let ?k = "min (n - length (m_strbuf S)) (length (m_buf S) - m_pos S)"
  have "wanted (int n) S = int ?k"
    using assms by (simp add: wanted_def bytes_inv_def min_def of_nat_diff Let_def) linarith
  moreover have "append_buf (int ?k) S =
      S\<lparr>m_strbuf := m_strbuf S @ take ?k (drop (m_pos S) (m_buf S)), m_pos := m_pos S + ?k\<rparr>"
    using assms by (intro append_buf_eq) (auto simp: bytes_inv_def)
  ultimately show thesis
    using assms by (intro that [of ?k]) (auto simp: bytes_inv_def)
qed

lemma process_bytes_done:
  assumes "bytes_inv ok rest S0 n e S" "process_bytes (int n) e S = (S1, Some r)"
  shows "bytes_post ok rest S0 n (clear_consumed S1) r" and "m_pos S1 \<le> length (m_buf S1)"
proof -
  from process_bytes_step [OF assms(1)] obtain k where k: "k \<le> n - length (m_strbuf S)"
    "m_pos S + k \<le> length (m_buf S)" "m_pos S + k = length (m_buf S) \<or> k = n - length (m_strbuf S)"
    "append_buf (wanted (int n) S) S =
       S\<lparr>m_strbuf := m_strbuf S @ take k (drop (m_pos S) (m_buf S)), m_pos := m_pos S + k\<rparr>" by blast
  let ?b = "m_strbuf S @ take k (drop (m_pos S) (m_buf S))"
  have S1: "S1 = S\<lparr>m_strbuf := [], m_pos := m_pos S + k\<rparr>" "r = (if ?b = [] then ReturnNull else Ok ?b)"
    and fin: "e \<or> length ?b = n"
    using assms(2) k(4) by (auto simp: process_bytes_def Let_def take_strbuf_def split: if_splits)
  have u: "unread rest S0 = ?b @ unread rest S1"
    using assms(1) S1(1) by (simp add: bytes_inv_def unread_def take_drop_glue)
  have "take n (unread rest S0) = ?b \<and> drop n (unread rest S0) = unread rest S1"
  proof (cases "length ?b = n")
    case True
    then show ?thesis unfolding u by (metis append_eq_conv_conj)
  next
    case False
    with fin k assms(1) have "unread rest S1 = []" "length ?b \<le> n"
      by (auto simp: S1(1) unread_def bytes_inv_def)
    then show ?thesis unfolding u by (metis append_Nil2 drop_all take_all)
  qed
  moreover show le: "m_pos S1 \<le> length (m_buf S1)" using S1 k(2) by simp
  moreover have "idle ok S1" "same_settings S0 S1"
    using assms(1) S1 k(2) by (simp_all add: bytes_inv_def idle_def same_settings_def)
  ultimately show "bytes_post ok rest S0 n (clear_consumed S1) r"
    by (simp add: bytes_post_def S1(2))
qed

lemma process_bytes_pending:
  assumes "bytes_inv ok rest S0 n e S" "process_bytes (int n) e S = (S1, None)"
  shows "\<not> e \<and> ok (m_stm S1) \<and> m_pos S1 = length (m_buf S1) \<and>
      (\<forall>d u. ok u \<longrightarrow> rest (m_stm S1) = d @ rest u \<longrightarrow>
        bytes_inv ok rest S0 n e (S1\<lparr>m_stm := u, m_buf := d, m_pos := 0\<rparr>)) \<and>
      (\<forall>u. ok u \<longrightarrow> rest (m_stm S1) = [] \<longrightarrow> rest u = [] \<longrightarrow>
           bytes_inv ok rest S0 n True (S1\<lparr>m_stm := u, m_buf := [], m_pos := 0\<rparr>)) \<and>
      length (rest (m_stm S1)) = length (rest (m_stm S))"
    and "bytes_inv ok rest S0 n e S1"
proof -
  from process_bytes_step [OF assms(1)] obtain k where k: "k \<le> n - length (m_strbuf S)"
    "m_pos S + k \<le> length (m_buf S)" "m_pos S + k = length (m_buf S) \<or> k = n - length (m_strbuf S)"
    "append_buf (wanted (int n) S) S =
       S\<lparr>m_strbuf := m_strbuf S @ take k (drop (m_pos S) (m_buf S)), m_pos := m_pos S + k\<rparr>" by blast
  let ?b = "m_strbuf S @ take k (drop (m_pos S) (m_buf S))"
  have S1: "S1 = S\<lparr>m_strbuf := ?b, m_pos := m_pos S + k\<rparr>" "\<not> e" "length ?b \<noteq> n"
    using assms(2) k(4) by (auto simp: process_bytes_def Let_def take_strbuf_def split: if_splits)
  moreover have "m_pos S + k = length (m_buf S)"
    using k S1(3) assms(1) by (auto simp: bytes_inv_def)
  moreover have "take k (drop (m_pos S) (m_buf S)) = drop (m_pos S) (m_buf S)"
    using \<open>m_pos S + k = length (m_buf S)\<close> by simp
  ultimately have f: "S1 = S\<lparr>m_strbuf := m_strbuf S @ drop (m_pos S) (m_buf S), m_pos := length (m_buf S)\<rparr>" "\<not> e"
    "length (m_strbuf S) + (length (m_buf S) - m_pos S) \<le> n"
    using assms(1) k(1) by (auto simp: bytes_inv_def)
  then show "\<not> e \<and> ok (m_stm S1) \<and> m_pos S1 = length (m_buf S1) \<and>
      (\<forall>d u. ok u \<longrightarrow> rest (m_stm S1) = d @ rest u \<longrightarrow>
        bytes_inv ok rest S0 n e (S1\<lparr>m_stm := u, m_buf := d, m_pos := 0\<rparr>)) \<and>
      (\<forall>u. ok u \<longrightarrow> rest (m_stm S1) = [] \<longrightarrow> rest u = [] \<longrightarrow>
           bytes_inv ok rest S0 n True (S1\<lparr>m_stm := u, m_buf := [], m_pos := 0\<rparr>)) \<and>
      length (rest (m_stm S1)) = length (rest (m_stm S))"
    using assms(1) by (auto simp: bytes_inv_def unread_def same_settings_def)
  from f show "bytes_inv ok rest S0 n e S1"
    using assms(1) by (auto simp: bytes_inv_def unread_def same_settings_def)
qed

context byte_source
begin

lemma read_bytes_spec:
  assumes "idle ok S"
  shows "\<exists>S' r. bs_readBuffer read_some (int n) S = Some (S', r) \<and> bytes_post ok rest S n S' r"
proof -
  have Q: "bytes_inv ok rest S n False S"
    using assms by (simp add: bytes_inv_def idle_def same_settings_def)
  obtain S1 x where p: "process_bytes (int n) False S = (S1, x)" by fastforce
  show ?thesis
  proof (cases x)
    case (Some r)
    with p process_bytes_done(1) [OF Q] have post: "bytes_post ok rest S n (clear_consumed S1) r" by simp
    have "m_pos S1 \<le> length (m_buf S1)" using process_bytes_done(2) [OF Q] p Some by simp
    with post have "bytes_post ok rest S n S1 r" by (simp add: bytes_post_def)
    with p Some show ?thesis by (simp add: bs_readBuffer_def run_read_def)
  next
    case None
    with p process_bytes_pending(2) [OF Q] have "bytes_inv ok rest S n False S1" by simp
    then have "\<exists>S' r. drive (process_bytes (int n)) read_some False S1 = Some (S', r) \<and> bytes_post ok rest S n S' r"
      by (rule drive_rule [where Q = "bytes_inv ok rest S n", rotated 2])
        (rule process_bytes_done(1) process_bytes_pending(1); assumption)+
    with p None show ?thesis by (simp add: bs_readBuffer_def run_read_def)
  qed
qed

end

end
