(* ===== verification/BufferedMarker.thy ===== *)
theory BufferedMarker
  imports BufferedSpec
begin

text \<open>
  What \<open>readUntil\<close>, \<open>readLine\<close> and \<open>readLines\<close> of a buffered stream deliver. The matcher run over the
  pieces gives what it gives on the whole unread text, and on the whole text it finds the first
  occurrence of the marker when the marker's first character does not come back in it, or the next
  line end when the marker is left to the text.
\<close>

section \<open>The matcher\<close>

lemma scan_matched: "length mk \<le> t \<Longrightarrow> scan a mk t s k = (mk, t, k)"
  by (cases s) auto

text \<open>The ways one character goes through the matcher.\<close>

lemma scan_step_induct [case_names nil full newline head other miss hit]:
  assumes "\<And>a mk t k. P a mk t [] k"
    and "\<And>a mk t c cs k. length mk \<le> t \<Longrightarrow> P a mk t (c # cs) k"
    and "\<And>mk cs k. mk \<noteq> [] \<Longrightarrow> P True mk 0 (CHR 0x0A # cs) k"
    and "\<And>a mk c cs k. mk \<noteq> [] \<Longrightarrow> a \<longrightarrow> c \<noteq> CHR 0x0A \<Longrightarrow> c = mk ! 0 \<Longrightarrow> P a mk 1 cs (k + 1) \<Longrightarrow> P a mk 0 (c # cs) k"
    and "\<And>a mk c cs k. mk \<noteq> [] \<Longrightarrow> a \<longrightarrow> c \<noteq> CHR 0x0A \<Longrightarrow> c \<noteq> mk ! 0 \<Longrightarrow> P a mk 0 cs (k + 1) \<Longrightarrow> P a mk 0 (c # cs) k"
    and "\<And>a mk t c cs k. t < length mk \<Longrightarrow> 0 < t \<Longrightarrow> c \<noteq> mk ! t \<Longrightarrow> P a mk 0 (c # cs) k \<Longrightarrow> P a mk t (c # cs) k"
    and "\<And>a mk t c cs k. t < length mk \<Longrightarrow> 0 < t \<Longrightarrow> c = mk ! t \<Longrightarrow> P a mk (t + 1) cs (k + 1) \<Longrightarrow> P a mk t (c # cs) k"
  shows "P a mk t s (k :: nat)"
proof (induction a mk t s k rule: scan.induct)
  case (1 a mk t k)
  show ?case by (rule assms(1))
next
  case (2 a mk t c cs k)
  consider (full) "length mk \<le> t" | (nl) "mk \<noteq> []" "t = 0" "a" "c = CHR 0x0A"
    | (head) "mk \<noteq> []" "t = 0" "a \<longrightarrow> c \<noteq> CHR 0x0A" "c = mk ! 0"
    | (other) "mk \<noteq> []" "t = 0" "a \<longrightarrow> c \<noteq> CHR 0x0A" "c \<noteq> mk ! 0"
    | (miss) "t < length mk" "0 < t" "c \<noteq> mk ! t" | (hit) "t < length mk" "0 < t" "c = mk ! t" by fastforce
  then show ?case
  proof cases
    case full then show ?thesis by (rule assms(2))
  next
    case nl with assms(3) show ?thesis by simp
  next
    case head with "2.IH"(2) assms(4) show ?thesis by simp
  next
    case other with "2.IH"(3) assms(5) show ?thesis by simp
  next
    case miss with "2.IH"(4) assms(6) show ?thesis by simp
  next
    case hit with "2.IH"(5) assms(7) show ?thesis by simp
  qed
qed

lemma scan_step:
  "length mk \<le> t \<Longrightarrow> scan a mk t s k = (mk, t, k)"
  "mk \<noteq> [] \<Longrightarrow> scan True mk 0 (CHR 0x0A # cs) k = ([CHR 0x0A], 1, k + 1)"
  "mk \<noteq> [] \<Longrightarrow> a \<longrightarrow> mk ! 0 \<noteq> CHR 0x0A \<Longrightarrow> scan a mk 0 (mk ! 0 # cs) k = scan a mk 1 cs (k + 1)"
  "mk \<noteq> [] \<Longrightarrow> a \<longrightarrow> c \<noteq> CHR 0x0A \<Longrightarrow> c \<noteq> mk ! 0 \<Longrightarrow> scan a mk 0 (c # cs) k = scan a mk 0 cs (k + 1)"
  "t < length mk \<Longrightarrow> 0 < t \<Longrightarrow> c \<noteq> mk ! t \<Longrightarrow> scan a mk t (c # cs) k = scan a mk 0 (c # cs) k"
  "t < length mk \<Longrightarrow> 0 < t \<Longrightarrow> scan a mk t (mk ! t # cs) k = scan a mk (t + 1) cs (k + 1)"
proof -
  show m: "length mk \<le> t \<Longrightarrow> scan a mk t s k = (mk, t, k)" for a mk t s k by (cases s) auto
  show "mk \<noteq> [] \<Longrightarrow> scan True mk 0 (CHR 0x0A # cs) k = ([CHR 0x0A], 1, k + 1)" by (simp add: m)
qed auto

lemma scan_append:
  "scan a mk t (s @ u) k =
     (case scan a mk t s k of (mk', t', k') \<Rightarrow> if t' \<ge> length mk' then (mk', t', k') else scan a mk' t' u k')"
  by (induction a mk t s k rule: scan_step_induct) (simp_all add: scan_step del: scan.simps(2))

lemma scan_result:
  assumes "scan a mk t s k = (mk', t', k')" "mk \<noteq> []" "t \<le> length mk"
  shows "mk' \<noteq> [] \<and> t' \<le> length mk' \<and> length mk' \<le> length mk \<and> k \<le> k' \<and> k' \<le> k + length s \<and>
    (t' < length mk' \<longrightarrow> mk' = mk \<and> k' = k + length s)"
  using assms
proof (induction a mk t s k arbitrary: mk' t' k' rule: scan_step_induct)
  case (newline mk cs k)
  then show ?case by (cases mk) (auto simp: scan_step simp del: scan.simps(2))
next
  case (head a mk c cs k)
  from head.IH [of mk' t' k'] head.prems head.hyps show ?case
    by (simp add: Suc_le_eq scan_step del: scan.simps(2))
next
  case (other a mk c cs k)
  from other.IH [of mk' t' k'] other.prems other.hyps show ?case by (simp add: scan_step del: scan.simps(2))
qed (auto simp: scan_step simp del: scan.simps(2))

lemma scan_count: "scan a mk t s (k + j) = (case scan a mk t s k of (mk', t', k') \<Rightarrow> (mk', t', k' + j))"
proof (induction a mk t s k rule: scan_step_induct)
qed (simp_all add: scan_step del: scan.simps(2))

lemmas scan_rules = scan_step scan.simps(1)

section \<open>The pieces and the whole\<close>

definition marker_of :: "string \<Rightarrow> string" where
  "marker_of mk = (if mk = [] then CRLF else mk)"

definition until_scan :: "string \<Rightarrow> string \<Rightarrow> string \<times> nat \<times> nat" where
  "until_scan mk txt = scan (mk = []) (marker_of mk) 0 txt 0"

definition until_value :: "(string \<Rightarrow> string option) \<Rightarrow> int \<Rightarrow> string \<times> nat \<times> nat \<Rightarrow> string \<Rightarrow> string reply" where
  "until_value conv maxlen res txt =
     (case res of (mk, t, k) \<Rightarrow>
        if maxlen > 0 \<and> int k > maxlen + int (length mk) then Fail TooLong
        else (case conv (take k txt) of
                None \<Rightarrow> Fail ConvFailed
              | Some v \<Rightarrow>
                  if t = length mk then (if length v < t then Fail LengthError else Ok (take (length v - t) v))
                  else if v = [] then ReturnNull else Ok v))"

definition until_inv :: "('s \<Rightarrow> bool) \<Rightarrow> ('s \<Rightarrow> string) \<Rightarrow> 's buffered \<Rightarrow> string \<Rightarrow> bool \<Rightarrow> 's buffered \<Rightarrow> bool" where
  "until_inv ok rest S0 mk e S \<longleftrightarrow>
     m_strbuf S @ unread rest S = unread rest S0 \<and>
     until_scan mk (m_strbuf S) = (marker_of mk, m_temp S, length (m_strbuf S)) \<and>
     m_temp S < length (marker_of mk) \<and>
     m_pos S \<le> length (m_buf S) \<and> ok (m_stm S) \<and> same_settings S0 S \<and> (e \<longrightarrow> rest (m_stm S) = [])"

definition until_post ::
  "('s \<Rightarrow> bool) \<Rightarrow> ('s \<Rightarrow> string) \<Rightarrow> 's buffered \<Rightarrow> string \<Rightarrow> int \<Rightarrow> 's buffered \<Rightarrow> string reply \<Rightarrow> bool" where
  "until_post ok rest S0 mk maxlen S r \<longleftrightarrow>
     r = until_value (m_iconv S0) maxlen (until_scan mk (unread rest S0)) (unread rest S0) \<and>
     ((\<forall>e. r \<noteq> Fail e) \<longrightarrow> idle ok S \<and> same_settings S0 S \<and>
        unread rest S = drop (snd (snd (until_scan mk (unread rest S0)))) (unread rest S0)) \<and>
     (r = Fail ConvFailed \<longrightarrow> m_temp S = fst (snd (until_scan mk (unread rest S0))) \<and> m_strbuf S = [] \<and>
        same_settings S0 S)"

lemma marker_of_not_Nil [simp]: "marker_of mk \<noteq> []"
  by (simp add: marker_of_def CRLF_def)

lemma until_whole:
  assumes "until_inv ok rest S0 mk e S"
  shows "until_scan mk (unread rest S0) =
    scan (mk = []) (marker_of mk) (m_temp S) (drop (m_pos S) (m_buf S) @ rest (m_stm S)) (length (m_strbuf S))"
proof -
  have "unread rest S0 = m_strbuf S @ drop (m_pos S) (m_buf S) @ rest (m_stm S)"
    using assms by (simp add: until_inv_def unread_def)
  then show ?thesis using assms by (simp add: until_scan_def scan_append until_inv_def)
qed

text \<open>One run of the matching loops, and what it tells about the whole text.\<close>

lemma until_step:
  assumes inv: "until_inv ok rest S0 mk e S"
    and sc: "scan (mk = []) (marker_of mk) (m_temp S) (drop (m_pos S) (m_buf S)) 0 = (mk', t', k)"
  shows "m_pos S + k \<le> length (m_buf S)"
    and "t' \<le> length mk'"
    and "t' < length mk' \<Longrightarrow> mk' = marker_of mk \<and> m_pos S + k = length (m_buf S) \<and>
          until_scan mk (m_strbuf S @ drop (m_pos S) (m_buf S)) = (mk', t', length (m_strbuf S) + k)"
    and "t' = length mk' \<or> e \<Longrightarrow> until_scan mk (unread rest S0) = (mk', t', length (m_strbuf S) + k)"
    and "\<exists>m t K. until_scan mk (unread rest S0) = (m, t, K) \<and> length m \<le> length mk' \<and> length (m_strbuf S) + k \<le> K"
proof -
  let ?n = "length (m_strbuf S)"
  have r: "mk' \<noteq> [] \<and> t' \<le> length mk' \<and> k \<le> length (m_buf S) - m_pos S \<and>
      (t' < length mk' \<longrightarrow> mk' = marker_of mk \<and> k = length (m_buf S) - m_pos S)"
    using scan_result [OF sc] inv by (simp add: until_inv_def)
  then show "m_pos S + k \<le> length (m_buf S)" using inv by (auto simp: until_inv_def)
  from r show "t' \<le> length mk'" by simp
  have sc': "scan (mk = []) (marker_of mk) (m_temp S) (drop (m_pos S) (m_buf S)) ?n = (mk', t', ?n + k)"
    using scan_count [of "mk = []" "marker_of mk" "m_temp S" "drop (m_pos S) (m_buf S)" 0 ?n] sc by simp
  have w: "until_scan mk (unread rest S0) =
      (if t' \<ge> length mk' then (mk', t', ?n + k) else scan (mk = []) mk' t' (rest (m_stm S)) (?n + k))"
    by (simp add: until_whole [OF inv] scan_append sc')
  show "t' < length mk' \<Longrightarrow> mk' = marker_of mk \<and> m_pos S + k = length (m_buf S) \<and>
      until_scan mk (m_strbuf S @ drop (m_pos S) (m_buf S)) = (mk', t', ?n + k)"
    using r inv sc' by (auto simp: until_scan_def scan_append until_inv_def)
  show "t' = length mk' \<or> e \<Longrightarrow> until_scan mk (unread rest S0) = (mk', t', ?n + k)"
    using w inv by (auto simp: until_inv_def)
  obtain m t K where m: "scan (mk = []) mk' t' (rest (m_stm S)) (?n + k) = (m, t, K)"
    by (cases "scan (mk = []) mk' t' (rest (m_stm S)) (?n + k)")
  then show "\<exists>m t K. until_scan mk (unread rest S0) = (m, t, K) \<and> length m \<le> length mk' \<and> ?n + k \<le> K"
    using w scan_result [OF m] r by auto
qed

lemma append_buf_fields [simp]:
  "m_stm (append_buf n S) = m_stm S" "m_buf (append_buf n S) = m_buf S" "m_temp (append_buf n S) = m_temp S"
  "m_iconv (append_buf n S) = m_iconv S" "m_eol (append_buf n S) = m_eol S"
  by (simp_all add: append_buf_def)

lemma process_until_done:
  assumes inv: "until_inv ok rest S0 mk e S" and run: "process_until mk maxlen e S = (S1, Some r)"
  shows "until_post ok rest S0 mk maxlen (clear_consumed S1) r" "until_post ok rest S0 mk maxlen S1 r"
proof -
  obtain mk' t' k where sc: "scan (mk = []) (marker_of mk) (m_temp S) (drop (m_pos S) (m_buf S)) 0 = (mk', t', k)"
    by (cases "scan (mk = []) (marker_of mk) (m_temp S) (drop (m_pos S) (m_buf S)) 0")
  note st = until_step [OF inv sc]
  let ?b = "m_strbuf S @ take k (drop (m_pos S) (m_buf S))"
  let ?S = "S\<lparr>m_temp := t', m_strbuf := [], m_pos := m_pos S + k\<rparr>"
  have ab: "append_buf (int k) (S\<lparr>m_temp := t'\<rparr>) = S\<lparr>m_temp := t', m_strbuf := ?b, m_pos := m_pos S + k\<rparr>"
    using st(1) append_buf_eq [of "S\<lparr>m_temp := t'\<rparr>" k] by simp
  have conv: "m_iconv S = m_iconv S0" using inv by (simp add: until_inv_def same_settings_def)
  have u: "unread rest S0 = ?b @ unread rest ?S"
    using inv by (simp add: until_inv_def unread_def take_drop_glue)
  have lb: "length ?b = length (m_strbuf S) + k" using st(1) by simp
  have tk: "take (length (m_strbuf S) + k) (unread rest S0) = ?b"
    "drop (length (m_strbuf S) + k) (unread rest S0) = unread rest ?S"
    unfolding u lb [symmetric] by (simp_all only: append_eq_conv_conj [THEN iffD1, OF refl, THEN conjunct1, symmetric]
      append_eq_conv_conj [THEN iffD1, OF refl, THEN conjunct2, symmetric])
  have "until_post ok rest S0 mk maxlen S1 r \<and> (m_pos S1 \<le> length (m_buf S1))"
  proof (cases "maxlen > 0 \<and> int (length (m_strbuf S)) + int k > maxlen + int (length mk')")
    case True
    then show ?thesis
      using run sc st(1,5) by (auto simp: process_until_def marker_of_def [symmetric] Let_def until_post_def until_value_def)
  next
    case False
    then have fin: "t' = length mk' \<or> e"
      using run sc by (auto simp: process_until_def marker_of_def [symmetric] Let_def ab split: if_splits)
    then have run': "(S1, r) = (case m_iconv S0 ?b of None \<Rightarrow> (?S, Fail ConvFailed)
        | Some v \<Rightarrow> if t' = length mk' then (if length v < t' then (?S, Fail LengthError)
                                           else (?S\<lparr>m_temp := 0\<rparr>, Ok (take (length v - t') v)))
                    else (?S\<lparr>m_temp := 0\<rparr>, if v = [] then ReturnNull else Ok v))"
      using False run sc conv fin
      by (cases "m_iconv S0 ?b") (auto simp: process_until_def marker_of_def [symmetric] Let_def ab take_strbuf_def
          split: if_splits)
    have w: "until_scan mk (unread rest S0) = (mk', t', length (m_strbuf S) + k)"
      by (rule st(4) [OF fin])
    have r: "r = until_value (m_iconv S0) maxlen (until_scan mk (unread rest S0)) (unread rest S0)"
      using run' False by (cases "m_iconv S0 ?b") (auto simp: w until_value_def tk(1) split: if_splits)
    have "m_pos S1 \<le> length (m_buf S1)"
      using run' st(1) by (cases "m_iconv S0 ?b") (auto split: if_splits)
    moreover have "idle ok S1 \<and> same_settings S0 S1 \<and> unread rest S1 = unread rest ?S" if "\<forall>e. r \<noteq> Fail e"
      using run' that st(1) inv
      by (cases "m_iconv S0 ?b") (auto simp: idle_def same_settings_def until_inv_def unread_def split: if_splits)
    moreover have "m_temp S1 = t' \<and> m_strbuf S1 = [] \<and> same_settings S0 S1" if "r = Fail ConvFailed"
      using run' that inv
      by (cases "m_iconv S0 ?b") (auto simp: same_settings_def until_inv_def split: if_splits)
    ultimately show ?thesis
      using r by (simp add: until_post_def w tk(2))
  qed
  then show "until_post ok rest S0 mk maxlen (clear_consumed S1) r" "until_post ok rest S0 mk maxlen S1 r"
    by (auto simp: until_post_def)
qed

lemma process_until_pending:
  assumes inv: "until_inv ok rest S0 mk e S" and run: "process_until mk maxlen e S = (S1, None)"
  shows "\<not> e \<and> ok (m_stm S1) \<and> m_pos S1 = length (m_buf S1) \<and>
      (\<forall>d u. ok u \<longrightarrow> rest (m_stm S1) = d @ rest u \<longrightarrow>
        until_inv ok rest S0 mk e (S1\<lparr>m_stm := u, m_buf := d, m_pos := 0\<rparr>)) \<and>
      (\<forall>u. ok u \<longrightarrow> rest (m_stm S1) = [] \<longrightarrow> rest u = [] \<longrightarrow>
           until_inv ok rest S0 mk True (S1\<lparr>m_stm := u, m_buf := [], m_pos := 0\<rparr>)) \<and>
      length (rest (m_stm S1)) = length (rest (m_stm S))"
    and "until_inv ok rest S0 mk e S1"
proof -
  obtain mk' t' k where sc: "scan (mk = []) (marker_of mk) (m_temp S) (drop (m_pos S) (m_buf S)) 0 = (mk', t', k)"
    by (cases "scan (mk = []) (marker_of mk) (m_temp S) (drop (m_pos S) (m_buf S)) 0")
  note st = until_step [OF inv sc]
  let ?b = "m_strbuf S @ drop (m_pos S) (m_buf S)"
  have ab: "append_buf (int k) (S\<lparr>m_temp := t'\<rparr>) =
      S\<lparr>m_temp := t', m_strbuf := m_strbuf S @ take k (drop (m_pos S) (m_buf S)), m_pos := m_pos S + k\<rparr>"
    using st(1) append_buf_eq [of "S\<lparr>m_temp := t'\<rparr>" k] by simp
  have p: "\<not> e" "t' < length mk'"
    "S1 = S\<lparr>m_temp := t', m_strbuf := m_strbuf S @ take k (drop (m_pos S) (m_buf S)), m_pos := m_pos S + k\<rparr>"
    using run sc st(2)
    by (auto simp: process_until_def marker_of_def [symmetric] Let_def ab take_strbuf_def
        split: if_splits option.splits)
  with st(3) have f: "S1 = S\<lparr>m_temp := t', m_strbuf := ?b, m_pos := length (m_buf S)\<rparr>" "t' < length (marker_of mk)"
    "until_scan mk ?b = (marker_of mk, t', length ?b)" by auto
  with p(1) show "\<not> e \<and> ok (m_stm S1) \<and> m_pos S1 = length (m_buf S1) \<and>
      (\<forall>d u. ok u \<longrightarrow> rest (m_stm S1) = d @ rest u \<longrightarrow>
        until_inv ok rest S0 mk e (S1\<lparr>m_stm := u, m_buf := d, m_pos := 0\<rparr>)) \<and>
      (\<forall>u. ok u \<longrightarrow> rest (m_stm S1) = [] \<longrightarrow> rest u = [] \<longrightarrow>
           until_inv ok rest S0 mk True (S1\<lparr>m_stm := u, m_buf := [], m_pos := 0\<rparr>)) \<and>
      length (rest (m_stm S1)) = length (rest (m_stm S))"
    using inv by (auto simp: until_inv_def unread_def same_settings_def)
  show "until_inv ok rest S0 mk e S1"
    using inv f p(1) by (auto simp: until_inv_def unread_def same_settings_def)
qed

context byte_source
begin

lemma read_until_spec:
  assumes "idle ok S"
  shows "\<exists>S' r. bs_readUntil read_some mk maxlen S = Some (S', r) \<and> until_post ok rest S mk maxlen S' r"
proof -
  have Q: "until_inv ok rest S mk False S"
    using assms by (simp add: until_inv_def idle_def same_settings_def until_scan_def)
  obtain S1 x where p: "process_until mk maxlen False S = (S1, x)" by fastforce
  show ?thesis
  proof (cases x)
    case (Some r)
    with p process_until_done(2) [OF Q] show ?thesis by (simp add: bs_readUntil_def run_read_def)
  next
    case None
    with p process_until_pending(2) [OF Q] have "until_inv ok rest S mk False S1" by simp
    then have "\<exists>S' r. drive (process_until mk maxlen) read_some False S1 = Some (S', r) \<and>
        until_post ok rest S mk maxlen S' r"
      by (rule drive_rule [where Q = "until_inv ok rest S mk", rotated 2])
        (rule process_until_done(1) process_until_pending(1); assumption)+
    with p None show ?thesis by (simp add: bs_readUntil_def run_read_def)
  qed
qed

end

section \<open>What the matcher finds\<close>

text \<open>The first occurrence of a marker in a text: what comes before it and what comes after.\<close>

fun cut_at :: "string \<Rightarrow> string \<Rightarrow> (string \<times> string) option" where
  "cut_at mk [] = None"
| "cut_at mk (c # cs) =
     (if prefix mk (c # cs) then Some ([], drop (length mk) (c # cs))
      else map_option (\<lambda>(a, b). (c # a, b)) (cut_at mk cs))"

text \<open>The first line of a text: up to a line feed, less one carriage return before it.\<close>

definition strip_cr :: "string \<Rightarrow> string" where
  "strip_cr l = (if l \<noteq> [] \<and> last l = CHR 0x0D then butlast l else l)"

fun cut_line :: "string \<Rightarrow> (string \<times> string) option" where
  "cut_line [] = None"
| "cut_line (c # cs) =
     (if c = CHR 0x0A then Some ([], cs) else map_option (\<lambda>(a, b). (c # a, b)) (cut_line cs))"

lemma cut_at_sound: "cut_at mk txt = Some (a, b) \<Longrightarrow> txt = a @ mk @ b"
  by (induction mk "txt" arbitrary: a rule: cut_at.induct) (auto simp: prefix_def split: if_splits)

lemma cut_line_sound: "cut_line txt = Some (a, b) \<Longrightarrow> txt = a @ CHR 0x0A # b \<and> CHR 0x0A \<notin> set a"
  by (induction "txt" arbitrary: a rule: cut_line.induct) (auto split: if_splits)

lemma cut_line_None: "cut_line txt = None \<longleftrightarrow> CHR 0x0A \<notin> set txt"
  by (induction "txt" rule: cut_line.induct) auto

text \<open>A marker whose first character does not come back in it.\<close>

definition head_once :: "string \<Rightarrow> bool" where
  "head_once mk \<longleftrightarrow> mk \<noteq> [] \<and> hd mk \<notin> set (tl mk)"

lemma cut_at_skip:
  "mk \<noteq> [] \<Longrightarrow> (\<And>j. j < length p \<Longrightarrow> \<not> prefix mk (drop j p @ s)) \<Longrightarrow>
     cut_at mk (p @ s) = map_option (\<lambda>(a, b). (p @ a, b)) (cut_at mk s)"
proof (induction p)
  case Nil
  show ?case by (simp add: option.map_ident)
next
  case (Cons c p)
  have "\<not> prefix mk (drop j p @ s)" if "j < length p" for j
    using Cons.prems(2) [of "Suc j"] that by simp
  with Cons Cons.prems(2) [of 0] show ?case by (simp add: option.map_comp comp_def case_prod_beta)
qed

lemma head_once_no_restart:
  assumes "head_once mk" "t < length mk" "0 < t" "c \<noteq> mk ! t" "j < t"
  shows "\<not> prefix mk (drop j (take t mk) @ c # cs)"
proof
  assume pre: "prefix mk (drop j (take t mk) @ c # cs)"
  then obtain u where u: "drop j (take t mk) @ c # cs = mk @ u" by (auto simp: prefix_def)
  have e: "(drop j (take t mk) @ c # cs) ! i = (mk @ u) ! i" for i using u by simp
  show False
  proof (cases "j = 0")
    case True
    with e [of t] assms(2,4) show False by (simp add: nth_append)
  next
    case False
    with e [of 0] assms(2,5) have "mk ! j = mk ! 0" by (cases mk) (simp_all add: nth_append)
    moreover have "mk ! j \<in> set (tl mk)"
      using False assms(2,5) nth_tl [of "j - 1" mk] nth_mem [of "j - 1" "tl mk"] by simp
    ultimately show False using assms(1) by (cases mk) (simp_all add: head_once_def)
  qed
qed

lemma cut_at_all: "mk \<noteq> [] \<Longrightarrow> cut_at mk (mk @ s) = Some ([], s)"
  by (cases mk) (simp_all add: prefix_def)

lemma scan_finds:
  "\<not> a \<Longrightarrow> head_once mk \<Longrightarrow> t \<le> length mk \<Longrightarrow>
   (case cut_at mk (take t mk @ s) of
      Some (x, y) \<Rightarrow> scan a mk t s k = (mk, length mk, k + length s - length y)
    | None \<Rightarrow> \<exists>t' < length mk. scan a mk t s k = (mk, t', k + length s))"
proof (induction a mk t s k rule: scan_step_induct)
  case (nil a mk t k)
  then show ?case using cut_at_all [of mk "[]"] cut_at_sound [of mk "take t mk"]
    by (cases "t = length mk") (auto simp: head_once_def split: option.split dest!: arg_cong [of _ _ length])
next
  case (newline mk cs k)
  then show ?case by simp
next
  case (full a mk t c cs k)
  then show ?case using cut_at_all [of mk "c # cs"] by (simp add: head_once_def scan_matched)
next
  case (head a mk c cs k)
  then have "take 1 mk @ cs = take 0 mk @ c # cs" by (cases mk) auto
  with head show ?case
    by (auto simp: scan_step Suc_le_eq simp del: scan.simps(2) cut_at.simps split: option.splits)
next
  case (other a mk c cs k)
  then have "\<not> prefix mk (c # cs)" by (cases mk) auto
  with other show ?case by (auto simp: scan_step simp del: scan.simps(2) split: option.splits)
next
  case (miss a mk t c cs k)
  have "cut_at mk (take t mk @ c # cs) = map_option (\<lambda>(x, y). (take t mk @ x, y)) (cut_at mk (c # cs))"
    using miss head_once_no_restart [of mk t c _ cs] by (intro cut_at_skip) (auto simp: head_once_def)
  with miss show ?case by (auto simp: scan_step simp del: scan.simps(2) cut_at.simps split: option.splits)
next
  case (hit a mk t c cs k)
  then have "take (t + 1) mk @ cs = take t mk @ c # cs" by (simp add: take_Suc_conv_app_nth)
  with hit show ?case
    by (auto simp: scan_step Suc_le_eq simp del: scan.simps(2) cut_at.simps split: option.splits)
qed

text \<open>The same for lines: the marker \<open>CRLF\<close>, with a lone line feed accepted too.\<close>

lemma scan_line:
  "t \<le> 1 \<Longrightarrow>
   (case cut_line s of
      Some (x, y) \<Rightarrow>
        scan True CRLF t s k =
          (if take t CRLF @ x \<noteq> [] \<and> last (take t CRLF @ x) = CHR 0x0D
           then (CRLF, 2, k + length s - length y) else ([CHR 0x0A], 1, k + length s - length y))
    | None \<Rightarrow> \<exists>t' < 2. scan True CRLF t s k = (CRLF, t', k + length s))"
proof (induction s arbitrary: t k)
  case Nil
  then show ?case by (simp add: CRLF_def)
next
  case (Cons c s)
  show ?case
  proof (cases "c = CHR 0x0A")
    case True
    with Cons.prems show ?thesis by (cases t) (simp_all add: CRLF_def scan_matched)
  next
    case False
    let ?z = "\<lambda>t. case cut_line (c # s) of
      Some (x, y) \<Rightarrow>
        scan True CRLF 0 (c # s) k =
          (if take t CRLF @ x \<noteq> [] \<and> last (take t CRLF @ x) = CHR 0x0D
           then (CRLF, 2, k + length (c # s) - length y) else ([CHR 0x0A], 1, k + length (c # s) - length y))
      | None \<Rightarrow> \<exists>t' < 2. scan True CRLF 0 (c # s) k = (CRLF, t', k + length (c # s))"
    have z: "?z 0"
    proof (cases "c = CHR 0x0D")
      case True
      with False Cons.IH [of 1 "k + 1"] show ?thesis by (auto simp: CRLF_def split: option.splits)
    next
      case neq: False
      with False Cons.IH [of 0 "k + 1"] show ?thesis by (auto simp: CRLF_def split: option.splits)
    qed
    show ?thesis
    proof (cases t)
      case 0
      show ?thesis unfolding 0 by (rule z)
    next
      case (Suc n)
      with Cons.prems have t: "t = 1" by simp
      from False have "scan True CRLF 1 (c # s) k = scan True CRLF 0 (c # s) k" by (simp add: CRLF_def)
      with z False show ?thesis unfolding t by (auto simp del: scan.simps split: option.splits)
    qed
  qed
qed

lemma until_scan_finds:
  assumes "head_once mk"
  shows "case cut_at mk txt of
      Some (a, b) \<Rightarrow> until_scan mk txt = (mk, length mk, length a + length mk)
    | None \<Rightarrow> \<exists>t' < length mk. until_scan mk txt = (mk, t', length txt)"
  using scan_finds [of False mk 0 "txt" 0] assms
  by (auto simp: until_scan_def marker_of_def head_once_def dest!: cut_at_sound split: option.splits)

lemma until_scan_line:
  "case cut_line txt of
      Some (a, b) \<Rightarrow>
        until_scan [] txt = (if a \<noteq> [] \<and> last a = CHR 0x0D then (CRLF, 2, length a + 1) else ([CHR 0x0A], 1, length a + 1))
    | None \<Rightarrow> \<exists>t' < 2. until_scan [] txt = (CRLF, t', length txt)"
  using scan_line [of 0 "txt" 0]
  by (auto simp: until_scan_def marker_of_def dest!: cut_line_sound split: option.splits)

text \<open>The value and the remainder of a read without conversion and without limit.\<close>

definition next_until :: "string \<Rightarrow> string \<Rightarrow> string \<times> string" where
  "next_until mk txt =
     (case (if mk = [] then map_option (\<lambda>(a, b). (strip_cr a, b)) (cut_line txt) else cut_at mk txt) of
        Some (a, b) \<Rightarrow> (a, b)
      | None \<Rightarrow> (txt, []))"

definition read_result :: "string \<Rightarrow> string \<Rightarrow> string reply" where
  "read_result mk txt = (if txt = [] then ReturnNull else Ok (fst (next_until mk txt)))"

lemma take_glue: "length a = k \<Longrightarrow> take k (a @ b) = a"
  by simp

lemma until_value_next:
  assumes "mk = [] \<or> head_once mk" "maxlen \<le> 0"
  shows "until_value Some maxlen (until_scan mk txt) txt = read_result mk txt \<and>
    drop (snd (snd (until_scan mk txt))) txt = snd (next_until mk txt)"
proof (cases "mk = []")
  case True
  show ?thesis
  proof (cases "cut_line txt")
    case None
    with until_scan_line [of "txt"] True show ?thesis
      by (auto simp: until_value_def next_until_def read_result_def CRLF_def assms(2) not_less)
  next
    case (Some ab)
    obtain a b where ab: "ab = (a, b)" by fastforce
    with Some cut_line_sound have t: "txt = a @ CHR 0x0A # b" by blast
    have r: "until_scan [] txt = (if a \<noteq> [] \<and> last a = CHR 0x0D then (CRLF, 2, length a + 1)
        else ([CHR 0x0A], 1, length a + 1))"
      using until_scan_line [of "txt"] Some ab by simp
    have ne: "txt \<noteq> []" by (simp add: t)
    show ?thesis
    proof (cases "a \<noteq> [] \<and> last a = CHR 0x0D")
      case cr: True
      then obtain l where "a = l @ [CHR 0x0D]" by (metis append_butlast_last_id)
      with cr True Some ab assms(2) show ?thesis
        by (simp add: r ne until_value_def next_until_def read_result_def strip_cr_def CRLF_def not_less)
          (simp add: t)
    next
      case nocr: False
      with True Some ab assms(2) show ?thesis
        by (simp add: r ne until_value_def next_until_def read_result_def strip_cr_def not_less) (auto simp: t)
    qed
  qed
next
  case False
  with assms have h: "head_once mk" by simp
  show ?thesis
  proof (cases "cut_at mk txt")
    case None
    with until_scan_finds [OF h, of "txt"] False show ?thesis
      by (auto simp: until_value_def next_until_def read_result_def assms(2) not_less)
  next
    case (Some ab)
    obtain a b where ab: "ab = (a, b)" by fastforce
    with Some cut_at_sound have t: "txt = a @ mk @ b" by blast
    have r: "until_scan mk txt = (mk, length mk, length a + length mk)"
      using until_scan_finds [OF h, of "txt"] Some ab by simp
    have ne: "txt \<noteq> []" using False by (simp add: t)
    show ?thesis
      using False Some ab assms(2)
      by (simp add: r ne until_value_def next_until_def read_result_def not_less) (simp add: t)
  qed
qed

lemma next_until_shrinks: "txt \<noteq> [] \<Longrightarrow> length (snd (next_until [] txt)) < length txt"
  by (auto simp: next_until_def dest: cut_line_sound split: option.splits)

text \<open>The lines of a text.\<close>

function text_lines :: "string \<Rightarrow> string list" where
  "text_lines txt = (if txt = [] then [] else fst (next_until [] txt) # text_lines (snd (next_until [] txt)))"
  by auto
termination
  by (relation "measure length") (auto intro: next_until_shrinks)

declare text_lines.simps [simp del]

definition at_most :: "int \<Rightarrow> 'a list \<Rightarrow> 'a list" where
  "at_most n xs = (if n < 0 then xs else take (nat n) xs)"

context byte_source
begin

lemma read_until_next:
  assumes "idle ok S" "m_iconv S = Some" "mk = [] \<or> head_once mk" "maxlen \<le> 0"
  shows "\<exists>S'. bs_readUntil read_some mk maxlen S = Some (S', read_result mk (unread rest S)) \<and>
    idle ok S' \<and> same_settings S S' \<and> unread rest S' = snd (next_until mk (unread rest S))"
  using read_until_spec [OF assms(1), of mk maxlen] until_value_next [OF assms(3,4), of "unread rest S"] assms(2)
  by (auto simp: until_post_def read_result_def split: if_splits)

lemma lines_loop_spec:
  "idle ok S \<Longrightarrow> m_iconv S = Some \<Longrightarrow> m_eol S = [] \<Longrightarrow> n \<noteq> 0 \<Longrightarrow>
   \<exists>S'. lines_loop read_some n S acc = Some (S', Ok (acc @ at_most n (text_lines (unread rest S)))) \<and> idle ok S'"
proof (induction "length (unread rest S)" arbitrary: S n acc rule: less_induct)
  case less
  obtain S1 where S1: "bs_readLine read_some (-1) S = Some (S1, read_result [] (unread rest S))"
    "idle ok S1" "same_settings S S1" "unread rest S1 = snd (next_until [] (unread rest S))"
    using read_until_next [OF less.prems(1,2), of "[]" "-1"] less.prems(3) by (auto simp: bs_readLine_def)
  show ?case
  proof (cases "unread rest S = []")
    case True
    with S1 show ?thesis
      by (subst lines_loop.simps) (simp add: read_result_def text_lines.simps at_most_def)
  next
    case False
    then have lt: "length (unread rest S1) < length (unread rest S)"
      using next_until_shrinks S1(4) by simp
    have tl: "text_lines (unread rest S) = fst (next_until [] (unread rest S)) # text_lines (unread rest S1)"
      using False S1(4) by (subst text_lines.simps) simp
    show ?thesis
    proof (cases "n = 1")
      case True
      with False S1 show ?thesis
        by (subst lines_loop.simps) (simp add: read_result_def tl at_most_def)
    next
      case n1: False
      let ?n = "if n > 0 then n - 1 else n"
      have "at_most n (x # xs) = x # at_most ?n xs" for x and xs :: "string list"
        using n1 less.prems(4) by (auto simp: at_most_def nat_diff_distrib' take_Cons' split: if_splits)
      moreover have "lines_loop read_some n S acc =
          lines_loop read_some ?n S1 (acc @ [fst (next_until [] (unread rest S))])"
        using False S1 n1 less.prems(4) by (subst lines_loop.simps) (simp add: read_result_def)
      moreover have "m_iconv S1 = Some" "m_eol S1 = []" "?n \<noteq> 0"
        using S1(3) less.prems n1 by (auto simp: same_settings_def)
      ultimately show ?thesis
        using less.hyps [OF lt S1(2), of ?n "acc @ [fst (next_until [] (unread rest S))]"] by (simp add: tl)
    qed
  qed
qed

lemma read_lines_spec:
  assumes "idle ok S" "m_iconv S = Some" "m_eol S = []"
  shows "\<exists>S'. bs_readLines read_some n S = Some (S', Ok (at_most n (text_lines (unread rest S))))"
  using lines_loop_spec [OF assms, of n "[]"] by (auto simp: bs_readLines_def at_most_def)

end

end
