(* ===== verification/WebSocketMessage.thy ===== *)
theory WebSocketMessage
  imports BufferedMarker
begin

text \<open>
  \<^verbatim>\<open>src/websocket/WebSocketMessage.cpp\<close>: writing a message as one frame (\<open>sendTo\<close>) and reading the
  frames of a message (\<open>readFrom\<close>). The stream read from is given by its \<open>readBuffer\<close>; the body of a
  message is the memory stream \<open>ensure_body\<close> makes, of which a reader sees the text written so far;
  compression (zlib) is a parameter. A 32-bit mask lies in memory with its low byte first.
\<close>

unbundle bit_operations_syntax

section \<open>Masks\<close>

definition mask_byte :: "32 word \<Rightarrow> nat \<Rightarrow> 8 word" where
  "mask_byte m i = ucast (drop_bit (8 * (i mod 4)) m)"

definition xor_char :: "char \<Rightarrow> 8 word \<Rightarrow> char" where
  "xor_char c w = char_of (unat ((of_char c :: 8 word) XOR w))"

fun apply_mask :: "32 word \<Rightarrow> nat \<Rightarrow> string \<Rightarrow> string" where
  "apply_mask m k [] = []"
| "apply_mask m k (c # cs) = xor_char c (mask_byte m k) # apply_mask m (k + 1) cs"

text \<open>The loop of \<open>write\<close> runs only for a mask other than zero.\<close>

definition mask_data :: "32 word \<Rightarrow> nat \<Rightarrow> string \<Rightarrow> string" where
  "mask_data m copyed d = (if m \<noteq> 0 then apply_mask m copyed d else d)"

definition word_char :: "8 word \<Rightarrow> char" where
  "word_char w = char_of (unat w)"

definition char_word :: "char \<Rightarrow> 8 word" where
  "char_word c = of_char c"

section \<open>Copying a payload\<close>

text \<open>
  The faults of a message: what it reports, with the code left in \<open>m_error\<close>. \<open>PastBuffer\<close> stands for a
  read behind the end of a buffer that came back shorter than asked for.
\<close>

datatype ws_fault = Payload int | NonZeroRsv int | TooBigMessage int | Stm stream_error | PastBuffer

definition STREAM_BUFF_SIZE :: int where
  "STREAM_BUFF_SIZE = 65536"

partial_function (option) ws_copy ::
  "(int \<Rightarrow> 's \<Rightarrow> ('s \<times> string reply) option) \<Rightarrow> (string \<Rightarrow> 't \<Rightarrow> stream_error + 't) \<Rightarrow>
   32 word \<Rightarrow> int \<Rightarrow> nat \<Rightarrow> 's \<Rightarrow> 't \<Rightarrow> (ws_fault option \<times> 's \<times> 't) option" where
  "ws_copy rd wr m bytes copyed s t =
     (if bytes = 0 then Some (None, s, t)
      else
        (case rd (to_int32 (if bytes > STREAM_BUFF_SIZE then STREAM_BUFF_SIZE else bytes)) s of
           None \<Rightarrow> None
         | Some (s, Fail e) \<Rightarrow> Some (Some (Stm e), s, t)
         | Some (s, ReturnNull) \<Rightarrow> Some (Some (Payload 0), s, t)
         | Some (s, Ok d) \<Rightarrow>
             (case wr (mask_data m copyed d) t of
                Inl e \<Rightarrow> Some (Some (Stm e), s, t)
              | Inr t \<Rightarrow>
                  ws_copy rd wr m (if bytes > 0 then bytes - int (length d) else bytes) (copyed + length d) s t)))"

section \<open>Sending\<close>

record ws_message =
  w_type :: int
  w_masked :: bool
  w_compress :: bool
  w_maxSize :: int
  w_body :: "memory_stream option"

text \<open>The constructor: only text and binary messages are compressed.\<close>

definition new_ws_message :: "int \<Rightarrow> bool \<Rightarrow> bool \<Rightarrow> int \<Rightarrow> ws_message" where
  "new_ws_message ty masked compress maxSize =
     \<lparr>w_type = ty, w_masked = masked, w_compress = compress \<and> (ty = 1 \<or> ty = 2), w_maxSize = maxSize, w_body = None\<rparr>"

definition size_byte :: "int \<Rightarrow> nat \<Rightarrow> 8 word" where
  "size_byte sz k = ucast (drop_bit k (word_of_int sz :: 64 word))"

definition length_bytes :: "int \<Rightarrow> 8 word list" where
  "length_bytes sz =
     (if sz < 126 then [size_byte sz 0]
      else if sz < 65536 then [126, size_byte sz 8, size_byte sz 0]
      else [127, size_byte sz 56, size_byte sz 48, size_byte sz 40, size_byte sz 32,
            size_byte sz 24, size_byte sz 16, size_byte sz 8, size_byte sz 0])"

definition frame_head :: "ws_message \<Rightarrow> 32 word \<Rightarrow> int \<Rightarrow> 8 word list" where
  "frame_head M r sz =
     (let b0 = (if w_compress M then 0xC0 else 0x80) OR (word_of_int (w_type M) AND 0x0F);
          len = length_bytes sz
      in if w_masked M then b0 # (hd len OR 0x80) # tl len @ map (mask_byte r) [0..<4] else b0 # len)"

text \<open>
  \<open>deflate\<close> is the stream zlib fills from the body. The random mask \<open>r\<close> is not zero. The result is
  what is written to the stream.
\<close>

definition ws_sendTo :: "(memory_stream \<Rightarrow> memory_stream) \<Rightarrow> 32 word \<Rightarrow> ws_message \<Rightarrow> (ws_fault option \<times> string) option" where
  "ws_sendTo deflate r M =
     (let data = (case w_body M of
                    None \<Rightarrow> None
                  | Some b \<Rightarrow> Some (if w_compress M then deflate (snd (ms_rewind b)) else b));
          sz = (case data of None \<Rightarrow> 0 | Some d \<Rightarrow> ms_size d) - (if w_compress M then 4 else 0);
          head = map word_char (frame_head M r sz)
      in case data of
           None \<Rightarrow> Some (None, head)
         | Some d \<Rightarrow>
             if sz = 0 then Some (None, head)
             else
               (case ws_copy (\<lambda>n u. Some (snd (ms_readBuffer n u), fst (ms_readBuffer n u)))
                       (\<lambda>d out. Inr (out @ d)) (if w_masked M then r else 0) sz 0 (snd (ms_rewind d)) head of
                  None \<Rightarrow> None
                | Some (f, _, out) \<Rightarrow> Some (f, out)))"

section \<open>Reading\<close>

text \<open>
  An inflater: what it makes of a piece of data or of a flush, to be appended to the body. It is started
  anew for the message or is the one of the connection.
\<close>

record 'z inflater =
  z_start :: "bool \<Rightarrow> 'z"
  z_write :: "string \<Rightarrow> 'z \<Rightarrow> stream_error + string \<times> 'z"
  z_flush :: "'z \<Rightarrow> stream_error + string \<times> 'z"

record 'z reading =
  r_type :: int
  r_compress :: bool
  r_maxSize :: int
  r_fin :: bool
  r_masked :: bool
  r_fragmented :: bool
  r_size :: int
  r_fullsize :: int
  r_mask :: "32 word"
  r_take_over :: bool
  r_zip :: "'z option"
  r_body :: string

definition start_reading :: "int \<Rightarrow> int \<Rightarrow> 'z reading" where
  "start_reading ty maxSize =
     \<lparr>r_type = ty, r_compress = False, r_maxSize = maxSize, r_fin = False, r_masked = False, r_fragmented = False,
      r_size = 0, r_fullsize = 0, r_mask = 0, r_take_over = False, r_zip = None, r_body = []\<rparr>"

definition sink_write :: "'z inflater \<Rightarrow> string \<Rightarrow> 'z reading \<Rightarrow> stream_error + 'z reading" where
  "sink_write Z d R =
     (case r_zip R of
        None \<Rightarrow> Inr (R\<lparr>r_body := r_body R @ d\<rparr>)
      | Some z \<Rightarrow>
          (case z_write Z d z of
             Inl e \<Rightarrow> Inl e
           | Inr (out, z) \<Rightarrow> Inr (R\<lparr>r_zip := Some z, r_body := r_body R @ out\<rparr>)))"

definition sink_flush :: "'z inflater \<Rightarrow> 'z reading \<Rightarrow> stream_error + 'z reading" where
  "sink_flush Z R =
     (case r_zip R of
        None \<Rightarrow> Inr R
      | Some z \<Rightarrow>
          (case z_flush Z z of
             Inl e \<Rightarrow> Inl e
           | Inr (out, z) \<Rightarrow> Inr (R\<lparr>r_zip := Some z, r_body := r_body R @ out\<rparr>)))"

text \<open>
  The first two bytes of a frame: the fault, or the number of bytes still missing of the head. \<open>wss\<close> says
  that the message belongs to a connection that compresses.
\<close>

definition ext_head :: "'z inflater \<Rightarrow> bool \<Rightarrow> string \<Rightarrow> 'z reading \<Rightarrow> (ws_fault + nat) \<times> 'z reading" where
  "ext_head Z wss data R =
     (if data = [] then (Inl PastBuffer, R)
      else
        let ch = char_word (data ! 0);
            R' = (if ch AND 0x40 \<noteq> 0
                  then R\<lparr>r_take_over := r_take_over R \<or> wss, r_zip := Some (z_start Z wss), r_compress := True\<rparr>
                  else R)
        in if ch AND 0x40 = 0 \<and> ch AND 0x70 \<noteq> 0 then (Inl (NonZeroRsv 1007), R')
           else
             let R' = R'\<lparr>r_fin := (ch AND 0x80 \<noteq> 0)\<rparr>
             in if r_fragmented R \<and> ch AND 0x0F \<noteq> 0 then (Inl (Payload 1007), R')
                else
                  let R' = (if r_fragmented R then R' else R'\<lparr>r_type := uint (ch AND 0x0F)\<rparr>)
                  in if length data < 2 then (Inl PastBuffer, R')
                     else
                       let ch = char_word (data ! 1)
                       in if r_fragmented R \<and> r_masked R \<noteq> (ch AND 0x80 \<noteq> 0) then (Inl (Payload 1007), R')
                          else
                            let R' = R'\<lparr>r_masked := (ch AND 0x80 \<noteq> 0), r_size := uint (ch AND 0x7F)\<rparr>
                            in (Inr ((if r_masked R' then 4 else 0) +
                                     (if r_size R' = 126 then 2 else if r_size R' = 127 then 8 else 0)), R'))"

text \<open>A number of big-endian bytes, and the 64-bit signed number they are taken for.\<close>

definition be_value :: "8 word list \<Rightarrow> int" where
  "be_value ws = foldl (\<lambda>a w. 256 * a + uint w) 0 ws"

definition to_int64 :: "int \<Rightarrow> int" where
  "to_int64 x = (x + 2 ^ 63) mod 2 ^ 64 - 2 ^ 63"

definition le_mask :: "8 word list \<Rightarrow> 32 word" where
  "le_mask ws = foldr (\<lambda>w m. push_bit 8 m OR ucast w) ws 0"

definition ext_ready :: "string \<Rightarrow> 'z reading \<Rightarrow> (ws_fault + unit) \<times> 'z reading" where
  "ext_ready data R =
     (let ws = map char_word data;
          pos = (if r_size R = 126 then 2 else if r_size R = 127 then 8 else 0)
      in if length data < pos + (if r_masked R then 4 else 0) then (Inl PastBuffer, R)
         else
           (Inr (), R\<lparr>r_size := (if r_size R = 126 then be_value (take 2 ws)
                                else if r_size R = 127 then to_int64 (be_value (take 8 ws)) else r_size R),
                     r_mask := (if r_masked R then le_mask (take 4 (drop pos ws)) else r_mask R)\<rparr>))"

text \<open>One frame: head, extended head and payload.\<close>

definition read_head ::
  "'z inflater \<Rightarrow> bool \<Rightarrow> (int \<Rightarrow> 's \<Rightarrow> ('s \<times> string reply) option) \<Rightarrow> 's \<Rightarrow> 'z reading \<Rightarrow>
   (ws_fault option \<times> 's \<times> 'z reading) option" where
  "read_head Z wss rd s R =
     (case rd 2 s of
        None \<Rightarrow> None
      | Some (s, Fail e) \<Rightarrow> Some (Some (Stm e), s, R)
      | Some (s, ReturnNull) \<Rightarrow> Some (Some (Payload 1001), s, R)
      | Some (s, Ok d) \<Rightarrow>
          (case ext_head Z wss d R of
             (Inl f, R) \<Rightarrow> Some (Some f, s, R)
           | (Inr sz, R) \<Rightarrow>
               if sz = 0 then Some (None, s, R)
               else
                 (case rd (int sz) s of
                    None \<Rightarrow> None
                  | Some (s, Fail e) \<Rightarrow> Some (Some (Stm e), s, R)
                  | Some (s, ReturnNull) \<Rightarrow> Some (Some (Payload 1007), s, R)
                  | Some (s, Ok d) \<Rightarrow>
                      (case ext_ready d R of
                         (Inl f, R) \<Rightarrow> Some (Some f, s, R)
                       | (Inr _, R) \<Rightarrow> Some (None, s, R)))))"

definition read_payload ::
  "'z inflater \<Rightarrow> (int \<Rightarrow> 's \<Rightarrow> ('s \<times> string reply) option) \<Rightarrow> 's \<Rightarrow> 'z reading \<Rightarrow>
   (ws_fault option \<times> 's \<times> 'z reading) option" where
  "read_payload Z rd s R =
     (if to_int64 (r_fullsize R + r_size R) > r_maxSize R then Some (Some (TooBigMessage 1009), s, R)
      else ws_copy rd (sink_write Z) (r_mask R) (r_size R) 0 s R)"

definition flushTail :: string where
  "flushTail = [CHR 0x00, CHR 0x00, CHR 0xFF, CHR 0xFF]"

definition end_reading :: "'z inflater \<Rightarrow> 'z reading \<Rightarrow> ws_fault option \<times> 'z reading" where
  "end_reading Z R =
     (case (if r_take_over R then sink_write Z flushTail R else Inr R) of
        Inl e \<Rightarrow> (Some (Stm e), R)
      | Inr R \<Rightarrow> (case sink_flush Z R of Inl e \<Rightarrow> (Some (Stm e), R) | Inr R \<Rightarrow> (None, R)))"

partial_function (option) ws_readFrom ::
  "'z inflater \<Rightarrow> bool \<Rightarrow> (int \<Rightarrow> 's \<Rightarrow> ('s \<times> string reply) option) \<Rightarrow> 's \<Rightarrow> 'z reading \<Rightarrow>
   (ws_fault option \<times> 's \<times> 'z reading) option" where
  "ws_readFrom Z wss rd s R =
     (case read_head Z wss rd s R of
        None \<Rightarrow> None
      | Some (Some f, s, R) \<Rightarrow> Some (Some f, s, R)
      | Some (None, s, R) \<Rightarrow>
          (case read_payload Z rd s R of
             None \<Rightarrow> None
           | Some (Some f, s, R) \<Rightarrow> Some (Some f, s, R)
           | Some (None, s, R) \<Rightarrow>
               if \<not> r_fin R
               then ws_readFrom Z wss rd s (R\<lparr>r_fragmented := True, r_mask := 0, r_fullsize := r_fullsize R + r_size R\<rparr>)
               else Some (fst (end_reading Z R), s, snd (end_reading Z R))))"

end
