(* ===== verification/WebSocketSpec.thy ===== *)
theory WebSocketSpec
  imports WebSocketMessage
begin

text \<open>
  What a reader of messages gets. The lemmas hold for every stream that delivers exactly the bytes asked
  for (locale \<open>exact_reader\<close>), as a buffered stream does over any source of pieces.
\<close>

section \<open>Streams that read exactly\<close>

locale exact_reader =
  fixes rd :: "int \<Rightarrow> 's \<Rightarrow> ('s \<times> string reply) option"
    and rest :: "'s \<Rightarrow> string"
    and ok :: "'s \<Rightarrow> bool"
  assumes read_exact: "ok s \<Longrightarrow> \<exists>s'. rd (int n) s =
      Some (s', if take n (rest s) = [] then ReturnNull else Ok (take n (rest s))) \<and> ok s' \<and> rest s' = drop n (rest s)"
    and read_rest: "ok s \<Longrightarrow> \<exists>s' c. rd (-1) s = Some (s', if c = [] then ReturnNull else Ok c) \<and> ok s' \<and>
      rest s = c @ rest s' \<and> (c = [] \<longrightarrow> rest s = [])"

sublocale byte_source \<subseteq> buffered: exact_reader "bs_readBuffer read_some" "unread rest" "idle ok"
proof
  show "\<exists>S'. bs_readBuffer read_some (int n) S =
      Some (S', if take n (unread rest S) = [] then ReturnNull else Ok (take n (unread rest S))) \<and>
      idle ok S' \<and> unread rest S' = drop n (unread rest S)" if "idle ok S" for n and S :: "'s buffered"
    using read_bytes_spec [OF that, of n] by (auto simp: bytes_post_def)
next
  fix S :: "'s buffered" assume i: "idle ok S"
  show "\<exists>S' c. bs_readBuffer read_some (-1) S = Some (S', if c = [] then ReturnNull else Ok c) \<and> idle ok S' \<and>
      unread rest S = c @ unread rest S' \<and> (c = [] \<longrightarrow> unread rest S = [])"
  proof (cases "m_pos S < length (m_buf S)")
    case True
    with i show ?thesis
      by (intro exI [of _ "S\<lparr>m_pos := length (m_buf S)\<rparr>"] exI [of _ "drop (m_pos S) (m_buf S)"])
        (simp add: bs_readBuffer_def idle_def unread_def)
  next
    case False
    from i have "ok (m_stm S)" by (simp add: idle_def)
    then show ?thesis
    proof (cases rule: read_cases)
      case (more c s')
      with i False show ?thesis
        by (intro exI [of _ "S\<lparr>m_stm := s'\<rparr>"] exI [of _ c]) (simp add: bs_readBuffer_def idle_def unread_def)
    next
      case (null s')
      with i False show ?thesis
        by (intro exI [of _ "S\<lparr>m_stm := s'\<rparr>"] exI [of _ "[]"]) (simp add: bs_readBuffer_def idle_def unread_def)
    qed
  qed
qed

section \<open>Masks and bytes\<close>

lemma char_word_char [simp]: "char_word (word_char w) = w"
proof -
  have "char_word (word_char w) = of_nat (of_char (word_char w))"
    unfolding char_word_def by (rule of_nat_of_char [symmetric])
  also have "\<dots> = of_nat (unat w mod 256)" by (simp add: word_char_def)
  also have "unat w mod 256 = unat w" using unsigned_less [of w, where 'a = nat] by simp
  also have "of_nat (unat w) = w" by simp
  finally show ?thesis .
qed

lemma word_char_word [simp]: "word_char (char_word c) = c"
proof -
  have "unat (of_nat (of_char c) :: 8 word) = of_char c"
    by (simp add: unat_of_nat)
  then show ?thesis by (simp add: word_char_def char_word_def of_nat_of_char)
qed

lemma xor_char_word: "xor_char c w = word_char (char_word c XOR w)"
  by (simp add: xor_char_def word_char_def char_word_def)

lemma xor_char_twice [simp]: "xor_char (xor_char c w) w = c"
  by (simp add: xor_char_word xor.assoc)

lemma mask_data_append: "mask_data m k (a @ b) = mask_data m k a @ mask_data m (k + length a) b"
proof -
  have "apply_mask m k (a @ b) = apply_mask m k a @ apply_mask m (k + length a) b"
    by (induction a arbitrary: k) simp_all
  then show ?thesis by (simp add: mask_data_def)
qed

lemma mask_data_twice [simp]: "mask_data m k (mask_data m k d) = d"
proof -
  have "apply_mask m k (apply_mask m k d) = d" by (induction d arbitrary: k) simp_all
  then show ?thesis by (simp add: mask_data_def)
qed

lemma mask_data_length [simp]: "length (mask_data m k d) = length d"
proof -
  have "length (apply_mask m k d) = length d" by (induction d arbitrary: k) simp_all
  then show ?thesis by (simp add: mask_data_def)
qed

lemma mask_data_Nil [simp]: "mask_data m k [] = []" "mask_data 0 k d = d"
  by (simp_all add: mask_data_def)

lemma le_mask_bytes: "le_mask (map (mask_byte r) [0..<4]) = r"
proof -
  have "le_mask (map (mask_byte r) [0..<4]) =
      push_bit 8 (push_bit 8 (push_bit 8 (ucast (mask_byte r 3)) OR ucast (mask_byte r 2)) OR ucast (mask_byte r 1)) OR
      ucast (mask_byte r 0)"
    by (simp add: le_mask_def upt_numerals)
  also have "\<dots> = r"
    by (rule bit_word_eqI) (auto simp: mask_byte_def bit_simps not_le intro: ccontr)
  finally show ?thesis .
qed

lemma size_byte_uint:
  assumes "0 \<le> sz" "sz < 2 ^ 63"
  shows "uint (size_byte sz k) = (sz div 2 ^ k) mod 256"
proof -
  have "uint (word_of_int sz :: 64 word) = sz" using assms by (simp add: word_of_int_inverse)
  moreover have "uint (drop_bit k w) = drop_bit k (uint w)" for w :: "64 word"
    by (rule bit_eqI) (auto simp: bit_simps dest: bit_imp_le_length)
  ultimately have "uint (drop_bit k (word_of_int sz :: 64 word)) = sz div 2 ^ k"
    by (simp only: drop_bit_eq_div)
  then show ?thesis
    by (simp only: size_byte_def unsigned_ucast_eq) (simp add: take_bit_eq_mod)
qed

lemma radix_step: "256 * (x div (256 * p)) + (x div p) mod 256 = x div p" for x p :: int
proof -
  have "x div (256 * p) = x div p div 256" by (simp add: mult.commute div_mult2_eq' zdiv_zmult2_eq)
  then show ?thesis by simp
qed

lemma be_value_length:
  assumes "0 \<le> sz" "sz < 2 ^ 63"
  shows "126 \<le> sz \<Longrightarrow> sz < 65536 \<Longrightarrow> be_value (tl (length_bytes sz)) = sz"
    and "65536 \<le> sz \<Longrightarrow> be_value (tl (length_bytes sz)) = sz"
proof -
  note u = size_byte_uint [OF assms]
  show "126 \<le> sz \<Longrightarrow> sz < 65536 \<Longrightarrow> be_value (tl (length_bytes sz)) = sz"
    by (simp add: length_bytes_def be_value_def u)
  have top: "sz div 2 ^ 56 mod 256 = sz div 2 ^ 56" using assms by (intro mod_pos_pos_trivial) auto
  have st: "j = k + 8 \<Longrightarrow> 256 * (sz div 2 ^ j) + sz div 2 ^ k mod 256 = sz div 2 ^ k" for j k
    using radix_step [of sz "2 ^ k"] by (simp add: power_add mult.commute)
  show "be_value (tl (length_bytes sz)) = sz" if "65536 \<le> sz"
  proof -
    have "be_value (tl (length_bytes sz)) =
      256 * (256 * (256 * (256 * (256 * (256 * (256 * (sz div 2 ^ 56) + sz div 2 ^ 48 mod 256) + sz div 2 ^ 40 mod 256) +
        sz div 2 ^ 32 mod 256) + sz div 2 ^ 24 mod 256) + sz div 2 ^ 16 mod 256) + sz div 2 ^ 8 mod 256) + sz div 2 ^ 0 mod 256"
      using that top by (simp add: length_bytes_def be_value_def u)
    also have "\<dots> = sz div 2 ^ 0"
      by (subst st, simp)+ simp
    finally show ?thesis by simp
  qed
qed

lemma seven_bits:
  fixes w :: "8 word"
  assumes "uint w < 128"
  shows "(w OR 0x80) AND 0x80 \<noteq> 0" "w AND 0x80 = 0" "uint ((w OR 0x80) AND 0x7F) = uint w" "uint (w AND 0x7F) = uint w"
proof -
  have t: "take_bit 7 w = w"
    using assms by (intro word_uint_eqI) (simp add: unsigned_take_bit_eq take_bit_int_eq_self)
  have b: "\<not> bit w 7" by (subst t [symmetric]) (simp add: bit_take_bit_iff)
  have m: "v AND 0x7F = take_bit 7 v" for v :: "8 word" by (simp add: take_bit_eq_mask mask_eq_exp_minus_1)
  have e: "v AND 0x80 = 0 \<longleftrightarrow> \<not> bit v 7" for v :: "8 word"
    using and_exp_eq_0_iff_not_bit [of v 7] by simp
  show "(w OR 0x80) AND 0x80 \<noteq> 0" "w AND 0x80 = 0" using b by (simp_all add: e bit_or_iff)
  show "uint (w AND 0x7F) = uint w" by (simp only: m t)
  show "uint ((w OR 0x80) AND 0x7F) = uint w" by (simp only: m take_bit_or t) simp
qed

lemma opcode_bits:
  assumes "0 \<le> ty" "ty < 16" and "b = (if fin then 0x80 else 0) OR (word_of_int ty AND 0x0F :: 8 word)"
  shows "b AND 0x40 = 0" "b AND 0x70 = 0" "b AND 0x80 \<noteq> 0 \<longleftrightarrow> fin" "uint (b AND 0x0F) = ty"
proof -
  have "ty = 0 \<or> ty = 1 \<or> ty = 2 \<or> ty = 3 \<or> ty = 4 \<or> ty = 5 \<or> ty = 6 \<or> ty = 7 \<or> ty = 8 \<or> ty = 9 \<or>
      ty = 10 \<or> ty = 11 \<or> ty = 12 \<or> ty = 13 \<or> ty = 14 \<or> ty = 15"
    using assms(1,2) by presburger
  with assms(3) show "b AND 0x40 = 0" "b AND 0x70 = 0" "b AND 0x80 \<noteq> 0 \<longleftrightarrow> fin" "uint (b AND 0x0F) = ty"
    by (auto split: if_splits)
qed

section \<open>Frames on the wire\<close>

text \<open>A frame as RFC 6455 lays it out: final or not, opcode, masked with a key or not, payload.\<close>

definition wire :: "bool \<Rightarrow> int \<Rightarrow> bool \<Rightarrow> 32 word \<Rightarrow> string \<Rightarrow> string" where
  "wire fin opcode masked r d =
     (let len = length_bytes (int (length d));
          b0 = (if fin then 0x80 else 0) OR (word_of_int opcode AND 0x0F)
      in if masked
         then map word_char (b0 # (hd len OR 0x80) # tl len @ map (mask_byte r) [0..<4]) @ mask_data r 0 d
         else map word_char (b0 # len) @ d)"

definition missing :: "bool \<Rightarrow> int \<Rightarrow> nat" where
  "missing masked sz = (if masked then 4 else 0) + (if sz < 126 then 0 else if sz < 65536 then 2 else 8)"

definition len7 :: "int \<Rightarrow> int" where
  "len7 sz = (if sz < 126 then sz else if sz < 65536 then 126 else 127)"

lemma length_bytes_split:
  assumes "0 \<le> sz" "sz < 2 ^ 63"
  shows "length_bytes sz = hd (length_bytes sz) # tl (length_bytes sz)" "uint (hd (length_bytes sz)) = len7 sz"
    "length (tl (length_bytes sz)) = missing False sz"
proof -
  show "uint (hd (length_bytes sz)) = len7 sz"
    using size_byte_uint [OF assms, of 0] assms(1) by (auto simp: length_bytes_def len7_def)
qed (simp_all add: length_bytes_def missing_def)

definition head_part :: "bool \<Rightarrow> 32 word \<Rightarrow> int \<Rightarrow> 8 word list" where
  "head_part masked r sz = tl (length_bytes sz) @ (if masked then map (mask_byte r) [0..<4] else [])"

lemma wire_split:
  assumes "int (length d) < 2 ^ 63"
  shows "wire fin opcode masked r d =
    word_char ((if fin then 0x80 else 0) OR (word_of_int opcode AND 0x0F)) #
    word_char (if masked then hd (length_bytes (int (length d))) OR 0x80 else hd (length_bytes (int (length d)))) #
    map word_char (head_part masked r (int (length d))) @ (if masked then mask_data r 0 d else d)"
proof -
  have "length_bytes (int (length d)) \<noteq> []" by (simp add: length_bytes_def)
  then have "map word_char (length_bytes (int (length d))) =
      word_char (hd (length_bytes (int (length d)))) # map word_char (tl (length_bytes (int (length d))))"
    by (cases "length_bytes (int (length d))") simp_all
  then show ?thesis by (simp add: wire_def head_part_def Let_def del: upt_Suc)
qed

definition ready_for :: "'z reading \<Rightarrow> int \<Rightarrow> bool \<Rightarrow> bool" where
  "ready_for R opcode masked \<longleftrightarrow> r_zip R = None \<and> r_mask R = 0 \<and>
     (r_fragmented R \<longrightarrow> opcode = 0 \<and> r_masked R = masked)"

lemma ext_head_wire:
  assumes "ready_for R opcode masked" "0 \<le> opcode" "opcode < 16" "0 \<le> sz" "sz < 2 ^ 63"
  shows "ext_head Z wss [word_char ((if fin then 0x80 else 0) OR (word_of_int opcode AND 0x0F)),
      word_char (if masked then hd (length_bytes sz) OR 0x80 else hd (length_bytes sz))] R =
    (Inr (missing masked sz), R\<lparr>r_fin := fin, r_type := (if r_fragmented R then r_type R else opcode), r_masked := masked,
       r_size := len7 sz\<rparr>)"
proof -
  define b0 :: "8 word" where "b0 = (if fin then 0x80 else 0) OR (word_of_int opcode AND 0x0F)"
  define b1 :: "8 word" where "b1 = (if masked then hd (length_bytes sz) OR 0x80 else hd (length_bytes sz))"
  note o = opcode_bits [OF assms(2,3) b0_def]
  have l: "uint (hd (length_bytes sz)) = len7 sz" "len7 sz < 128"
    using length_bytes_split(2) [OF assms(4,5)] by (auto simp: len7_def)
  note s = seven_bits [of "hd (length_bytes sz)"]
  have b1: "b1 AND 0x80 \<noteq> 0 \<longleftrightarrow> masked" "uint (b1 AND 0x7F) = len7 sz"
    using l s by (simp_all add: b1_def)
  have f: "r_fragmented R \<Longrightarrow> b0 AND 0x0F = 0" using assms(1) o(4) by (simp add: ready_for_def word_uint_eq_iff)
  have m: "r_fragmented R \<Longrightarrow> r_masked R = masked" using assms(1) by (simp add: ready_for_def)
  have sz: "(if len7 sz = 126 then 2 else if len7 sz = 127 then 8 else 0) = missing False sz"
    using assms(4) by (auto simp: len7_def missing_def)
  have "ext_head Z wss [word_char b0, word_char b1] R =
    (Inr ((if masked then 4 else 0) + missing False sz),
     R\<lparr>r_fin := fin, r_type := (if r_fragmented R then r_type R else opcode), r_masked := masked, r_size := len7 sz\<rparr>)"
    using o b1 f m unfolding sz [symmetric] by (simp add: ext_head_def Let_def)
  then show ?thesis by (simp add: b0_def b1_def missing_def)
qed

lemma ext_ready_wire:
  assumes "0 \<le> sz" "sz < 2 ^ 63" "r_size R = len7 sz" "r_masked R = masked" "r_mask R = 0"
  shows "ext_ready (map word_char (head_part masked r sz)) R =
    (Inr (), R\<lparr>r_size := sz, r_mask := (if masked then r else 0)\<rparr>)"
proof -
  define p where "p = tl (length_bytes sz)"
  have lp: "length p = missing False sz" using length_bytes_split(3) [OF assms(1,2)] by (simp add: p_def)
  have pos: "(if len7 sz = 126 then 2 else if len7 sz = 127 then 8 else 0) = missing False sz"
    using assms(1) by (auto simp: len7_def missing_def)
  have v: "sz \<ge> 126 \<Longrightarrow> sz < 65536 \<Longrightarrow> be_value p = sz" "65536 \<le> sz \<Longrightarrow> be_value p = sz"
    using be_value_length [OF assms(1,2)] by (simp_all add: p_def)
  have i: "to_int64 sz = sz" using assms(1,2) by (simp add: to_int64_def)
  let ?m = "if masked then map (mask_byte r) [0..<4] else []"
  have lm: "length ?m = (if masked then 4 else 0)" by simp
  have w: "map char_word (map word_char (p @ ?m)) = p @ ?m" by (simp add: comp_def del: upt_Suc)
  have dm: "masked \<Longrightarrow> le_mask (take 4 (drop (missing False sz) (p @ ?m))) = r"
    using lp le_mask_bytes [of r] by (simp del: upt_Suc)
  have tk: "take (missing False sz) (p @ ?m) = p" using lp by (simp del: upt_Suc)
  have size: "(if len7 sz = 126 then be_value (take 2 (p @ ?m))
      else if len7 sz = 127 then to_int64 (be_value (take 8 (p @ ?m))) else len7 sz) = sz"
  proof -
    consider "sz < 126" | "126 \<le> sz" "sz < 65536" | "65536 \<le> sz" by linarith
    then show ?thesis
    proof cases
      case 1
      then show ?thesis by (simp add: len7_def)
    next
      case 2
      then have "missing False sz = 2" by (simp add: missing_def)
      with tk have "take 2 (p @ ?m) = p" by (simp only:)
      with 2 v(1) show ?thesis by (simp add: len7_def del: upt_Suc take_append)
    next
      case 3
      then have "missing False sz = 8" by (simp add: missing_def)
      with tk have "take 8 (p @ ?m) = p" by (simp only:)
      with 3 v(2) i show ?thesis by (simp add: len7_def del: upt_Suc take_append)
    qed
  qed
  have len: "\<not> length (map word_char (p @ ?m)) < missing False sz + (if masked then 4 else 0)"
    using lp lm by (simp del: upt_Suc)
  have mask: "(if masked then le_mask (take 4 (drop (missing False sz) (p @ ?m))) else 0) = (if masked then r else 0)"
    using dm by presburger
  show ?thesis
    unfolding ext_ready_def head_part_def p_def [symmetric] Let_def w assms(3,4,5) pos size mask if_not_P [OF len] ..
qed

text \<open>What reading one frame does to the state of the reader.\<close>

definition after_frame :: "'z reading \<Rightarrow> bool \<Rightarrow> int \<Rightarrow> bool \<Rightarrow> 32 word \<Rightarrow> string \<Rightarrow> 'z reading" where
  "after_frame R fin opcode masked r d =
     R\<lparr>r_fin := fin, r_type := (if r_fragmented R then r_type R else opcode), r_masked := masked,
       r_size := int (length d), r_mask := (if masked then r else 0), r_body := r_body R @ d\<rparr>"

lemma sink_plain: "r_zip R = None \<Longrightarrow> sink_write Z d R = Inr (R\<lparr>r_body := r_body R @ d\<rparr>)"
  by (simp add: sink_write_def)

context exact_reader
begin

lemma read_some_bytes:
  assumes "ok s" "rest s = a @ u" "a \<noteq> []"
  obtains s' where "rd (int (length a)) s = Some (s', Ok a)" "ok s'" "rest s' = u"
  using read_exact [OF assms(1), of "length a"] assms(2,3) by auto

text \<open>Copying: all that was asked for, or all there is and a fault.\<close>

lemma copy_spec:
  assumes wr: "\<And>d out. wr d (g out) = Inr (g (out @ d))"
  shows "ok s \<Longrightarrow> \<exists>s'. ws_copy rd wr m (int n) k s (g out) =
      Some (if n \<le> length (rest s) then None else Some (Payload 0), s', g (out @ mask_data m k (take n (rest s)))) \<and>
    ok s' \<and> rest s' = drop n (rest s)"
proof (induction n arbitrary: k s out rule: less_induct)
  case (less n)
  show ?case
  proof (cases "n = 0")
    case True
    with less.prems show ?thesis by (subst ws_copy.simps) simp
  next
    case n0: False
    define c where "c = min n 65536"
    have c: "to_int32 (if int n > STREAM_BUFF_SIZE then STREAM_BUFF_SIZE else int n) = int c" "0 < c" "c \<le> n"
      using n0 by (auto simp: c_def STREAM_BUFF_SIZE_def min_def)
    obtain s1 where s1: "rd (int c) s = Some (s1, if take c (rest s) = [] then ReturnNull else Ok (take c (rest s)))"
      "ok s1" "rest s1 = drop c (rest s)" using read_exact [OF less.prems, of c] by blast
    show ?thesis
    proof (cases "rest s = []")
      case True
      with s1 c n0 show ?thesis by (subst ws_copy.simps) simp
    next
      case ne: False
      then have take_ne: "take c (rest s) \<noteq> []" using c(2) by simp
      define d where "d = take c (rest s)"
      have ld: "0 < length d" "length d \<le> n" "length d = min (length (rest s)) c" using c ne by (auto simp: d_def)
      have "ws_copy rd wr m (int n) k s (g out) =
          ws_copy rd wr m (int (n - length d)) (k + length d) s1 (g (out @ mask_data m k d))"
        using s1(1) take_ne ld c(1) by (subst ws_copy.simps) (simp add: d_def [symmetric] wr of_nat_diff n0)
      moreover have "drop (length d) (rest s) = rest s1" "take n (rest s) = d @ take (n - length d) (rest s1)"
        "(n - length d \<le> length (rest s1)) = (n \<le> length (rest s))" "drop (n - length d) (rest s1) = drop n (rest s)"
        using s1(3) c(3) ld by (auto simp: d_def take_add [symmetric] min_def split: if_splits)
      moreover have lt: "n - length d < n" using ld n0 by simp
      ultimately show ?thesis
        using less.IH [OF lt s1(2), of "k + length d" "out @ mask_data m k d"] by (simp add: mask_data_append)
    qed
  qed
qed

text \<open>A count of minus one copies everything, and then faults.\<close>

lemma copy_minus_one:
  assumes wr: "\<And>d out. wr d (g out) = Inr (g (out @ d))"
  shows "ok s \<Longrightarrow> \<exists>s'. ws_copy rd wr m (-1) k s (g out) =
    Some (Some (Payload 0), s', g (out @ mask_data m k (rest s))) \<and> ok s'"
proof (induction "length (rest s)" arbitrary: k s out rule: less_induct)
  case less
  obtain s1 c where c: "rd (-1) s = Some (s1, if c = [] then ReturnNull else Ok c)" "ok s1" "rest s = c @ rest s1"
    "c = [] \<longrightarrow> rest s = []" using read_rest [OF less.prems] by blast
  have n: "to_int32 (if - 1 > STREAM_BUFF_SIZE then STREAM_BUFF_SIZE else - 1) = - 1" by (simp add: STREAM_BUFF_SIZE_def)
  show ?case
  proof (cases "c = []")
    case True
    with c n show ?thesis by (subst ws_copy.simps) simp
  next
    case ne: False
    with c n have "ws_copy rd wr m (-1) k s (g out) = ws_copy rd wr m (-1) (k + length c) s1 (g (out @ mask_data m k c))"
      by (subst ws_copy.simps) (simp add: wr)
    moreover have "length (rest s1) < length (rest s)" using c(3) ne by simp
    ultimately show ?thesis
      using less.hyps [of s1 "k + length c" "out @ mask_data m k c"] c(2,3) by (simp add: mask_data_append)
  qed
qed

lemma read_head_wire:
  assumes "ok s" "rest s = wire fin opcode masked r d @ u" "ready_for R opcode masked" "0 \<le> opcode" "opcode < 16"
    "int (length d) < 2 ^ 63"
  obtains s' where "read_head Z wss rd s R =
      Some (None, s', R\<lparr>r_fin := fin, r_type := (if r_fragmented R then r_type R else opcode), r_masked := masked,
        r_size := int (length d), r_mask := (if masked then r else 0)\<rparr>)"
    "ok s'" "rest s' = (if masked then mask_data r 0 d else d) @ u"
proof -
  let ?sz = "int (length d)"
  define b where "b = [word_char ((if fin then 0x80 else 0) OR (word_of_int opcode AND 0x0F)),
      word_char (if masked then hd (length_bytes ?sz) OR 0x80 else hd (length_bytes ?sz))]"
  define h where "h = map word_char (head_part masked r ?sz)"
  let ?p = "(if masked then mask_data r 0 d else d) @ u"
  have w: "rest s = b @ h @ ?p" using assms(2) by (simp add: wire_split [OF assms(6)] b_def h_def)
  have "b \<noteq> []" "length b = 2" by (simp_all add: b_def)
  then obtain s1 where s1: "rd 2 s = Some (s1, Ok b)" "ok s1" "rest s1 = h @ ?p"
    using read_some_bytes [OF assms(1) w] by (metis of_nat_numeral)
  define R1 where "R1 = R\<lparr>r_fin := fin, r_type := (if r_fragmented R then r_type R else opcode), r_masked := masked,
       r_size := len7 ?sz\<rparr>"
  have e: "ext_head Z wss b R = (Inr (missing masked ?sz), R1)"
    unfolding b_def R1_def by (rule ext_head_wire [OF assms(3,4,5) _ assms(6)]) simp
  have lh: "length h = missing masked ?sz"
    using length_bytes_split(3) [of ?sz] assms(6) by (simp add: h_def head_part_def missing_def del: upt_Suc)
  have m0: "r_mask R = 0" using assms(3) by (simp add: ready_for_def)
  let ?R = "R1\<lparr>r_size := ?sz, r_mask := (if masked then r else 0)\<rparr>"
  show thesis
  proof (cases "h = []")
    case True
    then have z: "missing masked ?sz = 0" using lh by simp
    then have "\<not> masked" "len7 ?sz = ?sz" by (auto simp: missing_def len7_def split: if_splits)
    then have "R1 = ?R" using m0 by (simp add: R1_def)
    with s1 e z True show thesis by (intro that [of s1]) (simp_all add: read_head_def R1_def)
  next
    case False
    obtain s2 where s2: "rd (int (missing masked ?sz)) s1 = Some (s2, Ok h)" "ok s2" "rest s2 = ?p"
      using read_some_bytes [OF s1(2,3) False] lh by metis
    have x: "ext_ready h R1 = (Inr (), ?R)"
      unfolding h_def using assms(6) m0 by (intro ext_ready_wire) (simp_all add: R1_def)
    have "missing masked ?sz \<noteq> 0" using lh False by (metis length_0_conv)
    with s1(1) e s2 x show thesis by (intro that [of s2]) (simp_all add: read_head_def R1_def)
  qed
qed

lemma read_frame:
  assumes "ok s" "rest s = wire fin opcode masked r d @ u" "ready_for R opcode masked" "0 \<le> opcode" "opcode < 16"
    "0 \<le> r_fullsize R" "r_fullsize R + int (length d) \<le> r_maxSize R" "r_maxSize R < 2 ^ 31"
  obtains s1 R1 s' where "read_head Z wss rd s R = Some (None, s1, R1)"
    "read_payload Z rd s1 R1 = Some (None, s', after_frame R fin opcode masked r d)" "ok s'" "rest s' = u"
proof -
  have l: "int (length d) < 2 ^ 63" using assms(6,7,8) by simp
  obtain s1 where s1: "read_head Z wss rd s R =
      Some (None, s1, R\<lparr>r_fin := fin, r_type := (if r_fragmented R then r_type R else opcode), r_masked := masked,
        r_size := int (length d), r_mask := (if masked then r else 0)\<rparr>)"
    "ok s1" "rest s1 = (if masked then mask_data r 0 d else d) @ u"
    by (rule read_head_wire [OF assms(1-5) l])
  define R1 where "R1 = R\<lparr>r_fin := fin, r_type := (if r_fragmented R then r_type R else opcode), r_masked := masked,
        r_size := int (length d), r_mask := (if masked then r else 0)\<rparr>"
  have zip: "r_zip R = None" using assms(3) by (simp add: ready_for_def)
  have wr: "sink_write Z c (R1\<lparr>r_body := out\<rparr>) = Inr (R1\<lparr>r_body := out @ c\<rparr>)" for c out
    using zip by (simp add: sink_plain R1_def)
  have sm: "to_int64 (r_fullsize R + int (length d)) = r_fullsize R + int (length d)"
    using assms(6,7,8) by (simp add: to_int64_def)
  have R1b: "R1\<lparr>r_body := r_body R\<rparr> = R1" by (simp add: R1_def)
  define p where "p = (if masked then mask_data r 0 d else d)"
  have p: "rest s1 = p @ u" "length p = length d" "mask_data (r_mask R1) 0 p = d"
    using s1(3) by (simp_all add: p_def R1_def)
  obtain s' where "ws_copy rd (sink_write Z) (r_mask R1) (int (length p)) 0 s1 (R1\<lparr>r_body := r_body R\<rparr>) =
      Some (None, s', R1\<lparr>r_body := r_body R @ mask_data (r_mask R1) 0 p\<rparr>)" "ok s'" "rest s' = u"
    using copy_spec [where g = "\<lambda>out. R1\<lparr>r_body := out\<rparr>", OF wr s1(2), of "r_mask R1" "length p" 0 "r_body R"] p(1)
    by auto
  then have s': "ws_copy rd (sink_write Z) (r_mask R1) (int (length d)) 0 s1 R1 =
      Some (None, s', R1\<lparr>r_body := r_body R @ d\<rparr>)" "ok s'" "rest s' = u"
    by (simp_all only: p(2,3) R1b)
  have "read_payload Z rd s1 R1 = Some (None, s', after_frame R fin opcode masked r d)"
    using s'(1) assms(7) sm by (simp add: read_payload_def R1_def after_frame_def)
  with s1(1) s' show thesis by (intro that) (simp_all add: R1_def)
qed

end

section \<open>Messages of several frames\<close>

fun message_wire :: "int \<Rightarrow> bool \<Rightarrow> (32 word \<times> string) list \<Rightarrow> string" where
  "message_wire opcode masked [] = []"
| "message_wire opcode masked [(r, d)] = wire True opcode masked r d"
| "message_wire opcode masked ((r, d) # f # fs) = wire False opcode masked r d @ message_wire 0 masked (f # fs)"

definition total :: "(32 word \<times> string) list \<Rightarrow> int" where
  "total fs = int (length (concat (map snd fs)))"

lemma end_reading_plain: "r_zip R = None \<Longrightarrow> \<not> r_take_over R \<Longrightarrow> end_reading Z R = (None, R)"
  by (simp add: end_reading_def sink_flush_def)

context exact_reader
begin

lemma read_message:
  "fs \<noteq> [] \<Longrightarrow> ok s \<Longrightarrow> rest s = message_wire opcode masked fs @ u \<Longrightarrow> ready_for R opcode masked \<Longrightarrow>
   0 \<le> opcode \<Longrightarrow> opcode < 16 \<Longrightarrow> 0 \<le> r_fullsize R \<Longrightarrow> r_fullsize R + total fs \<le> r_maxSize R \<Longrightarrow>
   r_maxSize R < 2 ^ 31 \<Longrightarrow> \<not> r_take_over R \<Longrightarrow>
   \<exists>s' R'. ws_readFrom Z wss rd s R = Some (None, s', R') \<and> ok s' \<and> rest s' = u \<and>
     r_body R' = r_body R @ concat (map snd fs) \<and> r_type R' = (if r_fragmented R then r_type R else opcode) \<and>
     r_masked R' = masked \<and> r_compress R' = r_compress R"
proof (induction opcode masked fs arbitrary: s R rule: message_wire.induct)
  case (1 opcode masked)
  then show ?case by simp
next
  case (2 opcode masked r d)
  obtain s1 R1 s' where f: "read_head Z wss rd s R = Some (None, s1, R1)"
    "read_payload Z rd s1 R1 = Some (None, s', after_frame R True opcode masked r d)" "ok s'" "rest s' = u"
    using 2 by (elim read_frame [of s True opcode masked r d u R Z wss, rotated 8]) (simp_all add: total_def)
  have "r_zip R = None" using 2(4) by (simp add: ready_for_def)
  with f 2 show ?case
    by (subst ws_readFrom.simps) (simp add: after_frame_def end_reading_plain)
next
  case (3 opcode masked r d f fs)
  obtain s1 R1 s2 where f: "read_head Z wss rd s R = Some (None, s1, R1)"
    "read_payload Z rd s1 R1 = Some (None, s2, after_frame R False opcode masked r d)" "ok s2"
    "rest s2 = message_wire 0 masked (f # fs) @ u"
    using 3 by (elim read_frame [of s False opcode masked r d "message_wire 0 masked (f # fs) @ u" R Z wss, rotated 8])
      (simp_all add: total_def)
  let ?R = "(after_frame R False opcode masked r d)\<lparr>r_fragmented := True, r_mask := 0,
      r_fullsize := r_fullsize R + int (length d)\<rparr>"
  have "ws_readFrom Z wss rd s R = ws_readFrom Z wss rd s2 ?R"
    using f(1,2) by (subst ws_readFrom.simps) (simp add: after_frame_def)
  moreover have "ready_for ?R 0 masked" using 3(5) by (simp add: ready_for_def after_frame_def)
  moreover have "r_fullsize ?R + total (f # fs) \<le> r_maxSize ?R"
    using 3(9) by (simp add: total_def after_frame_def)
  ultimately show ?case
    using 3(1) [of s2 ?R] f(3,4) 3(8,10,11) by (simp add: after_frame_def)
qed

end

section \<open>Sending writes one frame\<close>

sublocale seekable_stream \<subseteq> exact: exact_reader "\<lambda>n s. Some (snd (read n s), fst (read n s))"
  "\<lambda>s. drop (nat (tell s)) (data s)" ok
proof
  fix s n assume o: "ok s"
  obtain s' where "read (int n) s = ((if next_piece (int n) (tell s) (data s) = [] then ReturnNull
      else Ok (next_piece (int n) (tell s) (data s))), s')"
    "ok s'" "data s' = data s" "tell s' = tell s + int (length (next_piece (int n) (tell s) (data s)))"
    by (rule read_from [OF o])
  with tell_inside [OF o]
  show "\<exists>s'. Some (snd (read (int n) s), fst (read (int n) s)) =
      Some (s', if take n (drop (nat (tell s)) (data s)) = [] then ReturnNull else Ok (take n (drop (nat (tell s)) (data s)))) \<and>
      ok s' \<and> drop (nat (tell s')) (data s') = drop n (drop (nat (tell s)) (data s))"
    by (auto simp: next_piece_def Let_def nat_add_distrib add.commute min_def)
next
  fix s assume o: "ok s"
  obtain s' where "read (-1) s = ((if next_piece (-1) (tell s) (data s) = [] then ReturnNull
      else Ok (next_piece (-1) (tell s) (data s))), s')"
    "ok s'" "data s' = data s" "tell s' = tell s + int (length (next_piece (-1) (tell s) (data s)))"
    by (rule read_from [OF o])
  with tell_inside [OF o]
  show "\<exists>s' c. Some (snd (read (-1) s), fst (read (-1) s)) = Some (s', if c = [] then ReturnNull else Ok c) \<and> ok s' \<and>
      drop (nat (tell s)) (data s) = c @ drop (nat (tell s')) (data s') \<and> (c = [] \<longrightarrow> drop (nat (tell s)) (data s) = [])"
    by (intro exI [of _ s'] exI [of _ "drop (nat (tell s)) (data s)"]) (auto simp: read_all_piece)
qed

lemma ms_rewind_spec: "ms_ok b \<Longrightarrow> ms_ok (snd (ms_rewind b)) \<and> ms_data (snd (ms_rewind b)) = ms_data b \<and> ms_tell (snd (ms_rewind b)) = 0"
  by (auto simp: ms_ok_def ms_data_def ms_tell_def ms_rewind_def ss_defs)

lemma ms_size_data: "ms_ok b \<Longrightarrow> ms_size b = int (length (ms_data b))"
  by (simp add: ms_ok_def ms_size_def ms_data_def)

lemma sendTo_wire:
  assumes "\<not> w_compress M" "w_body M = Some b" "ms_ok b" "int (length (ms_data b)) < 2 ^ 63"
  shows "ws_sendTo deflate r M = Some (None, wire True (w_type M) (w_masked M) r (ms_data b))"
proof -
  let ?d = "ms_data b" and ?m = "if w_masked M then r else 0"
  let ?head = "map word_char (frame_head M r (int (length ?d)))"
  have head: "?head @ mask_data ?m 0 ?d = wire True (w_type M) (w_masked M) r ?d"
    using assms(1) by (simp add: wire_def frame_head_def Let_def del: upt_Suc)
  note b = ms_rewind_spec [OF assms(3)]
  obtain s' where "ws_copy (\<lambda>n u. Some (snd (ms_readBuffer n u), fst (ms_readBuffer n u))) (\<lambda>d out. Inr (out @ d)) ?m
      (int (length ?d)) 0 (snd (ms_rewind b)) ?head = Some (None, s', ?head @ mask_data ?m 0 ?d)"
    using ms.exact.copy_spec [where g = "\<lambda>out. out" and wr = "\<lambda>d out. Inr (out @ d)" and m = ?m and n = "length ?d" and
        k = 0 and out = ?head and s = "snd (ms_rewind b)"] b by auto
  moreover have "?d = [] \<Longrightarrow> ?head = wire True (w_type M) (w_masked M) r ?d" using head by simp
  ultimately show ?thesis
    using assms(1,2) head by (simp add: ws_sendTo_def Let_def ms_size_data [OF assms(3)])
qed

context byte_source
begin

lemma buffered_exact: "exact_reader (bs_readBuffer read_some) (unread rest) (idle ok)"
  by (rule buffered.exact_reader_axioms)

end

end
