(* ===== verification/BufferedProps.thy ===== *)
theory BufferedProps
  imports BufferedMarker
begin

text \<open>
  The properties of buffered streams: over any stream that keeps the contract \<open>byte_source\<close>, and over
  ranges of memory streams through their interpretation. The witnesses read from given pieces.
\<close>

section \<open>Properties\<close>

text \<open>A source of bytes that hands over given pieces: every way to cut a text is one of them.\<close>

fun next_of :: "string list \<Rightarrow> string reply \<times> string list" where
  "next_of [] = (ReturnNull, [])"
| "next_of (p # ps) = (Ok p, ps)"

definition no_empty_piece :: "string list \<Rightarrow> bool" where
  "no_empty_piece ps \<longleftrightarrow> [] \<notin> set ps"

lemma next_of_source: "byte_source next_of concat no_empty_piece"
proof
  fix ps c qs
  assume "no_empty_piece ps" "next_of ps = (Ok c, qs)"
  then show "concat ps = c @ concat qs \<and> c \<noteq> [] \<and> no_empty_piece qs"
    by (cases ps) (auto simp: no_empty_piece_def)
next
  fix ps qs
  assume "no_empty_piece ps" "next_of ps = (ReturnNull, qs)"
  then show "concat ps = [] \<and> concat qs = [] \<and> no_empty_piece qs"
    by (cases ps) (auto simp: no_empty_piece_def)
next
  fix ps e qs
  show "next_of ps \<noteq> (Fail e, qs)" by (cases ps) auto
qed

lemma new_buffered_idle [simp]:
  "ok s \<Longrightarrow> idle ok (new_buffered s conv)" "unread rest (new_buffered s conv) = rest s"
  "m_iconv (new_buffered s conv) = conv" "m_eol (new_buffered s conv) = []"
  by (simp_all add: new_buffered_def idle_def unread_def)

text \<open>
  Reading \<open>n\<close> bytes from a buffered stream gives the first \<open>n\<close> bytes of what is unread, fewer only at
  the end of the stream and null when nothing is left, whatever pieces the underlying stream delivers;
  the read ends, and what follows stays unread.
\<close>

theorem buffered_read_bytes:
  assumes "byte_source rd rest ok" "idle ok S"
  shows "\<exists>S'. bs_readBuffer rd (int n) S =
      Some (S', if take n (unread rest S) = [] then ReturnNull else Ok (take n (unread rest S))) \<and>
    idle ok S' \<and> unread rest S' = drop n (unread rest S)"
  using byte_source.read_bytes_spec [OF assms, of n] by (auto simp: bytes_post_def)

theorem buffered_read_bytes_witness:
  "\<exists>S'. bs_readBuffer next_of 4 (new_buffered [''ab'', ''c'', ''defg''] Some) = Some (S', Ok ''abcd'') \<and>
     unread concat S' = ''efg''"
  using buffered_read_bytes [OF next_of_source, of "new_buffered [''ab'', ''c'', ''defg''] Some" 4]
  by (auto simp: no_empty_piece_def eval_nat_numeral)

text \<open>
  C6: \<open>readUntil\<close> with a marker whose first character does not occur again in it, without a limit on the
  length and without a charset conversion, returns the text before the first occurrence of the marker and
  consumes the marker; without an occurrence it returns all that is left, null when nothing is. An empty
  marker stands for the line end. The pieces do not matter. (With a marker that overlaps itself, as \<open>aab\<close>
  does, the code can miss it: \<open>read_until_overlap_missed\<close>.)
\<close>

theorem buffered_read_until:
  assumes "byte_source rd rest ok" "idle ok S" "m_iconv S = Some" "mk = [] \<or> head_once mk" "maxlen \<le> 0"
  shows "\<exists>S'. bs_readUntil rd mk maxlen S = Some (S', read_result mk (unread rest S)) \<and>
    idle ok S' \<and> unread rest S' = snd (next_until mk (unread rest S))"
  using byte_source.read_until_next [OF assms] by auto

theorem buffered_read_until_witness:
  "\<exists>S'. bs_readUntil next_of ''->'' (-1) (new_buffered [''ab-'', ''c-'', ''>'', ''d''] Some) = Some (S', Ok ''ab-c'') \<and>
     unread concat S' = ''d''"
  using buffered_read_until [OF next_of_source, of "new_buffered [''ab-'', ''c-'', ''>'', ''d''] Some" "''->''" "-1"]
  by (auto simp: no_empty_piece_def head_once_def read_result_def next_until_def)

text \<open>
  C7: \<open>readLines\<close> of a buffered stream over a range of a memory stream returns the lines of what the
  range still has, at most as many as asked for: each ends at the next line feed, loses one carriage
  return before it, and the last one may lack its line feed.
\<close>

theorem range_lines:
  assumes "range_ok ms_ok ms_data R"
  shows "\<exists>S'. bs_readLines (range_readBuffer (ms.vt ms_size) raw (-1)) n (new_buffered R Some) =
    Some (S', Ok (at_most n (text_lines (drop (nat (range_pos R)) (range_data ms_data R)))))"
  using range_ms.read_lines_spec [of "new_buffered R Some" raw n] assms by simp

definition lines_stream :: memory_stream where
  "lines_stream = snd (ms_rewind (snd (ms_writeBuffer [CHR ''x'', CHR ''a'', CHR 0x0D, CHR 0x0A, CHR ''b'', CHR ''y''] new_memory_stream)))"

lemma lines_stream_ok:
  "ms_ok lines_stream" "ms_data lines_stream = [CHR ''x'', CHR ''a'', CHR 0x0D, CHR 0x0A, CHR ''b'', CHR ''y'']"
  by (simp_all add: lines_stream_def ms_ok_def ms_data_def ms_tell_def ms_rewind_def ms_writeBuffer_def
      new_memory_stream_def ss_defs)

lemma lines_range_ok: "range_ok ms_ok ms_data (new_seekable lines_stream 1 5 :: (memory_stream, unit) range_stream)"
  by (simp add: range_ok_def new_seekable_def lines_stream_ok)

theorem range_lines_witness:
  "\<exists>S'. bs_readLines (range_readBuffer (ms.vt ms_size) (\<lambda>n u. (ReturnNull, u)) (-1)) (-1)
     (new_buffered (new_seekable lines_stream 1 5 :: (memory_stream, unit) range_stream) Some) =
   Some (S', Ok [''a'', ''b''])"
  using range_lines [OF lines_range_ok, of "\<lambda>n u. (ReturnNull, u)" "-1"]
  by (simp add: at_most_def range_data_def new_seekable_def lines_stream_ok window_def range_pos_def numeral_eq_Suc
      text_lines.simps next_until_def strip_cr_def)

text \<open>
  \<open>maxlen\<close> bounds a line: a line returned with its marker found has at most \<open>maxlen\<close> characters;
  at the end of the stream the check lets through as many more as the marker has.
\<close>

theorem read_until_bound:
  assumes "byte_source rd rest ok" "idle ok S" "m_iconv S = Some" "0 < maxlen"
    "bs_readUntil rd mk maxlen S = Some (S', Ok v)"
  shows "int (length v) \<le> maxlen + int (length (marker_of mk)) \<and>
    (unread rest S' \<noteq> [] \<longrightarrow> int (length v) \<le> maxlen)"
proof -
  have post: "until_post ok rest S mk maxlen S' (Ok v)"
    using byte_source.read_until_spec [OF assms(1,2), of mk maxlen] assms(5) by auto
  obtain m t k where r: "until_scan mk (unread rest S) = (m, t, k)" by (cases "until_scan mk (unread rest S)")
  have s: "t \<le> length m" "length m \<le> length (marker_of mk)" "k \<le> length (unread rest S)"
    "t < length m \<longrightarrow> k = length (unread rest S)"
    using scan_result [OF r [unfolded until_scan_def]] by auto
  show ?thesis
  proof (cases "t = length m")
    case True
    with post r assms(3,4) s show ?thesis by (auto simp: until_post_def until_value_def split: if_splits)
  next
    case False
    with post r assms(3,4) s show ?thesis by (auto simp: until_post_def until_value_def split: if_splits)
  qed
qed

theorem read_until_bound_witness:
  "\<exists>S' v. bs_readUntil next_of ''->'' 3 (new_buffered [''abc-'', ''>'', ''d''] Some) = Some (S', Ok v) \<and> length v \<le> 5"
proof -
  let ?S = "new_buffered [''abc-'', ''>'', ''d''] Some"
  have i: "idle no_empty_piece ?S" by (simp add: no_empty_piece_def)
  obtain S' r where b: "bs_readUntil next_of ''->'' 3 ?S = Some (S', r)"
    "until_post no_empty_piece concat ?S ''->'' 3 S' r"
    using byte_source.read_until_spec [OF next_of_source i, of "''->''" 3] by auto
  have u: "until_scan ''->'' ''abc->d'' = (''->'', 2, 5)" by code_simp
  from b(2) have "r = Ok ''abc''" by (simp add: until_post_def u until_value_def)
  with read_until_bound [OF next_of_source i, of 3 "''->''" S' "''abc''"] b show ?thesis by (auto simp: marker_of_def)
qed

text \<open>
  The matcher starts over at the character that breaks a match, so a marker that overlaps itself can be
  missed: in \<open>aaab\<close> the marker \<open>aab\<close> occurs after one character, and \<open>readUntil\<close> returns the whole text.
\<close>

lemma read_until_overlap_missed:
  "cut_at ''aab'' ''aaab'' = Some (''a'', []) \<and>
   (\<exists>S'. bs_readUntil next_of ''aab'' (-1) (new_buffered [''aaab''] Some) = Some (S', Ok ''aaab''))"
proof
  show "cut_at ''aab'' ''aaab'' = Some (''a'', [])" by simp
  let ?S = "new_buffered [''aaab''] Some"
  have i: "idle no_empty_piece ?S" by (simp add: no_empty_piece_def)
  have u: "until_scan ''aab'' ''aaab'' = (''aab'', 0, 4)" by code_simp
  show "\<exists>S'. bs_readUntil next_of ''aab'' (-1) ?S = Some (S', Ok ''aaab'')"
    using byte_source.read_until_spec [OF next_of_source i, of "''aab''" "-1"]
    by (auto simp: until_post_def u until_value_def)
qed

text \<open>
  After a conversion failure the count of matched characters stays where it was: the next read with the
  same marker takes it for a match, on an empty text, and fails when it removes the marker from it.
\<close>

theorem read_until_after_failed_conversion:
  assumes "byte_source rd rest ok" "idle ok S" "mk \<noteq> []" "m_iconv S [] = Some []"
    "fst (snd (until_scan mk (unread rest S))) = length mk"
    "bs_readUntil rd mk maxlen S = Some (S1, Fail ConvFailed)"
  shows "\<exists>S2. bs_readUntil rd mk maxlen S1 = Some (S2, Fail LengthError)"
proof -
  have "until_post ok rest S mk maxlen S1 (Fail ConvFailed)"
    using byte_source.read_until_spec [OF assms(1,2), of mk maxlen] assms(6) by auto
  with assms(4,5) have "m_temp S1 = length mk" "m_strbuf S1 = []" "m_iconv S1 [] = Some []"
    by (auto simp: until_post_def same_settings_def)
  with assms(3) show ?thesis
    by (simp add: bs_readUntil_def run_read_def process_until_def scan_matched append_buf_def Let_def take_strbuf_def)
qed

definition no_conversion :: "string \<Rightarrow> string option" where
  "no_conversion s = (if s = [] then Some [] else None)"

theorem read_until_after_failed_conversion_witness:
  "\<exists>S1 S2. bs_readUntil next_of '';'' (-1) (new_buffered [''a;b''] no_conversion) = Some (S1, Fail ConvFailed) \<and>
     bs_readUntil next_of '';'' (-1) S1 = Some (S2, Fail LengthError)"
proof -
  let ?S = "new_buffered [''a;b''] no_conversion"
  have i: "idle no_empty_piece ?S" by (simp add: no_empty_piece_def)
  have u: "until_scan '';'' ''a;b'' = ('';'', 1, 2)" by code_simp
  obtain S1 where S1: "bs_readUntil next_of '';'' (-1) ?S = Some (S1, Fail ConvFailed)"
    using byte_source.read_until_spec [OF next_of_source i, of "'';''" "-1"]
    by (auto simp: until_post_def u until_value_def no_conversion_def)
  from read_until_after_failed_conversion [OF next_of_source i _ _ _ S1] S1 u
  show ?thesis by (auto simp: no_conversion_def)
qed

end
