(* ===== verification/WebSocketProps.thy ===== *)
theory WebSocketProps
  imports WebSocketSpec BufferedProps
begin

text \<open>
  The properties of WebSocket messages: sending and receiving through a buffered stream over any source of
  pieces, fragments, and the size limit.
\<close>

section \<open>Properties\<close>

text \<open>
  C11: an uncompressed message with a body and a type from 0 to 15, no longer than the limit of the reader, which
  is below 2 GiB, is sent as one frame and received as it was: whatever pieces the connection delivers, the
  buffered stream over them hands \<open>readFrom\<close> the payload unmasked, the type and the mask flag of the
  message, and leaves what follows the frame unread.
\<close>

theorem ws_roundtrip:
  assumes "byte_source rd rest ok" "idle ok S"
    and "\<not> w_compress M" "w_body M = Some b" "ms_ok b" "0 \<le> w_type M" "w_type M < 16"
    and "int (length (ms_data b)) \<le> maxSize" "maxSize < 2 ^ 31"
    and "ws_sendTo deflate r M = Some (f, frame)" "unread rest S = frame @ u"
  shows "f = None \<and> (\<exists>S' R. ws_readFrom Z wss (bs_readBuffer rd) S (start_reading ty maxSize) = Some (None, S', R) \<and>
    r_body R = ms_data b \<and> r_type R = w_type M \<and> r_masked R = w_masked M \<and> \<not> r_compress R \<and>
    unread rest S' = u \<and> idle ok S')"
proof -
  have "int (length (ms_data b)) < 2 ^ 63" using assms(8,9) by simp
  with sendTo_wire [OF assms(3,4,5), of deflate r] assms(10)
  have f: "f = None" "frame = message_wire (w_type M) (w_masked M) [(r, ms_data b)]" by simp_all
  have u: "unread rest S = message_wire (w_type M) (w_masked M) [(r, ms_data b)] @ u" using assms(11) f(2) by simp
  have "ready_for (start_reading ty maxSize :: 'z reading) (w_type M) (w_masked M)"
    by (simp add: ready_for_def start_reading_def)
  from exact_reader.read_message [OF byte_source.buffered_exact [OF assms(1)] _ assms(2) u this assms(6,7), of Z wss]
    assms(8,9) f(1)
  show ?thesis by (auto simp: start_reading_def total_def)
qed

definition hello_message :: ws_message where
  "hello_message = (new_ws_message 1 True False 0)\<lparr>w_body := Some sample_stream\<rparr>"

definition no_inflater :: "unit inflater" where
  "no_inflater = \<lparr>z_start = (\<lambda>b. ()), z_write = (\<lambda>d z. Inl InvalidCall), z_flush = (\<lambda>z. Inl InvalidCall)\<rparr>"

theorem ws_roundtrip_witness:
  "\<exists>frame. ws_sendTo (\<lambda>b. b) 7 hello_message = Some (None, frame) \<and>
     (\<exists>S' R. ws_readFrom no_inflater False (bs_readBuffer next_of) (new_buffered (map (\<lambda>c. [c]) frame) Some)
        (start_reading 1 100) = Some (None, S', R) \<and> r_body R = ''abcdef'' \<and> r_type R = 1)"
proof -
  define frame where "frame = wire True 1 True 7 ''abcdef''"
  have M: "\<not> w_compress hello_message" "w_body hello_message = Some sample_stream" "w_type hello_message = 1"
    "w_masked hello_message" by (simp_all add: hello_message_def new_ws_message_def)
  have sent: "ws_sendTo (\<lambda>b. b) 7 hello_message = Some (None, frame)"
    using sendTo_wire [OF M(1,2) sample_stream_ok(1), of "\<lambda>b. b" 7] M sample_stream_ok by (simp add: frame_def)
  let ?S = "new_buffered (map (\<lambda>c. [c]) frame) Some"
  have i: "idle no_empty_piece ?S" by (rule new_buffered_idle(1)) (auto simp: no_empty_piece_def)
  have u: "unread concat ?S = frame @ []" by simp
  have "int (length (ms_data sample_stream)) \<le> 100" by (simp add: sample_stream_ok)
  from ws_roundtrip [OF next_of_source i M(1,2) sample_stream_ok(1) _ _ this _ sent u, of no_inflater False 1]
  show ?thesis using sent M by (auto simp: sample_stream_ok)
qed

text \<open>
  C12: a message that comes in several frames, masked or not, is put together in order, with the type of the
  first frame, when the payloads together are no longer than \<open>maxSize\<close>.
\<close>

theorem ws_fragments:
  assumes "byte_source rd rest ok" "idle ok S" "fs \<noteq> []" "0 \<le> opcode" "opcode < 16"
    and "int (length (concat (map snd fs))) \<le> maxSize" "maxSize < 2 ^ 31"
    and "unread rest S = message_wire opcode masked fs @ u"
  shows "\<exists>S' R. ws_readFrom Z wss (bs_readBuffer rd) S (start_reading ty maxSize) = Some (None, S', R) \<and>
    r_body R = concat (map snd fs) \<and> r_type R = opcode \<and> unread rest S' = u"
proof -
  have "ready_for (start_reading ty maxSize :: 'z reading) opcode masked"
    by (simp add: ready_for_def start_reading_def)
  from exact_reader.read_message [OF byte_source.buffered_exact [OF assms(1)] assms(3,2,8) this assms(4,5), of Z wss]
    assms(6,7)
  show ?thesis by (auto simp: start_reading_def total_def)
qed

theorem ws_fragments_witness:
  "\<exists>S' R. ws_readFrom no_inflater False (bs_readBuffer next_of)
      (new_buffered [message_wire 2 True [(5, ''ab''), (9, ''c'')] @ ''rest''] Some) (start_reading 1 3) = Some (None, S', R) \<and>
    r_body R = ''abc'' \<and> r_type R = 2"
proof -
  let ?S = "new_buffered [message_wire 2 True [(5, ''ab''), (9, ''c'')] @ ''rest''] Some"
  have i: "idle no_empty_piece ?S" by (simp add: no_empty_piece_def)
  show ?thesis
    using ws_fragments [OF next_of_source i, of "[(5, ''ab''), (9, ''c'')]" 2 3 True "''rest''" no_inflater False 1] by auto
qed

text \<open>
  C13: the size limit does not hold for a frame whose 64-bit length has its top bit set: a length of
  all ones is read as minus one, passes the comparison with \<open>maxSize\<close>, and everything the peer
  sends until the connection ends is collected in the body.
\<close>

theorem ws_size_limit_bypassed:
  fixes Z :: "'z inflater"
  assumes "byte_source rd rest ok" "idle ok S" "0 \<le> maxSize"
    and "unread rest S = [CHR 0x82, CHR 0x7F] @ replicate 8 (CHR 0xFF) @ d"
  shows "\<exists>S' R. ws_readFrom Z wss (bs_readBuffer rd) S (start_reading ty maxSize) = Some (Some (Payload 0), S', R) \<and>
    r_body R = d"
proof -
  note ex = byte_source.buffered_exact [OF assms(1)]
  let ?R = "start_reading ty maxSize :: 'z reading"
  obtain S1 where S1: "bs_readBuffer rd 2 S = Some (S1, Ok [CHR 0x82, CHR 0x7F])" "idle ok S1"
    "unread rest S1 = replicate 8 (CHR 0xFF) @ d"
    using exact_reader.read_some_bytes [OF ex assms(2,4)] by auto
  obtain S2 where S2: "bs_readBuffer rd 8 S1 = Some (S2, Ok (replicate 8 (CHR 0xFF)))" "idle ok S2" "unread rest S2 = d"
    using exact_reader.read_some_bytes [OF ex S1(2,3)] by auto
  define R1 where "R1 = ?R\<lparr>r_fin := True, r_type := 2, r_masked := False, r_size := 127\<rparr>"
  have e: "ext_head Z wss [CHR 0x82, CHR 0x7F] ?R = (Inr 8, R1)"
    by (simp add: ext_head_def R1_def start_reading_def char_word_def)
  have "map char_word (replicate 8 (CHR 0xFF)) = replicate 8 0xFF" by (simp add: char_word_def)
  moreover have "to_int64 (be_value (replicate 8 0xFF)) = - 1"
  proof -
    have "replicate 8 (0xFF :: 8 word) = [0xFF, 0xFF, 0xFF, 0xFF, 0xFF, 0xFF, 0xFF, 0xFF]" by (simp add: numeral_eq_Suc)
    then show ?thesis by (simp add: be_value_def to_int64_def)
  qed
  ultimately have x: "ext_ready (replicate 8 (CHR 0xFF)) R1 = (Inr (), R1\<lparr>r_size := - 1\<rparr>)"
    by (simp add: ext_ready_def R1_def start_reading_def)
  have h: "read_head Z wss (bs_readBuffer rd) S ?R = Some (None, S2, R1\<lparr>r_size := - 1\<rparr>)"
    using S1(1) S2(1) e x by (simp add: read_head_def)
  have wr: "sink_write Z c (R1\<lparr>r_size := - 1, r_body := out\<rparr>) = Inr (R1\<lparr>r_size := - 1, r_body := out @ c\<rparr>)" for c out
    by (simp add: sink_plain R1_def start_reading_def)
  obtain S3 where "ws_copy (bs_readBuffer rd) (sink_write Z) 0 (- 1) 0 S2 (R1\<lparr>r_size := - 1, r_body := []\<rparr>) =
      Some (Some (Payload 0), S3, R1\<lparr>r_size := - 1, r_body := d\<rparr>)"
    using exact_reader.copy_minus_one [OF ex, where g = "\<lambda>out. R1\<lparr>r_size := - 1, r_body := out\<rparr>" and m = 0 and k = 0
        and out = "[]", OF wr S2(2)] S2(3) by auto
  then have "read_payload Z (bs_readBuffer rd) S2 (R1\<lparr>r_size := - 1\<rparr>) =
      Some (Some (Payload 0), S3, R1\<lparr>r_size := - 1, r_body := d\<rparr>)"
    using assms(3) by (simp add: read_payload_def R1_def start_reading_def to_int64_def)
  with h show ?thesis by (subst ws_readFrom.simps) simp
qed

theorem ws_size_limit_bypassed_witness:
  "\<exists>S' R. ws_readFrom no_inflater False (bs_readBuffer next_of)
      (new_buffered [[CHR 0x82, CHR 0x7F], replicate 8 (CHR 0xFF), ''too long''] Some) (start_reading 1 0) =
      Some (Some (Payload 0), S', R) \<and> r_body R = ''too long''"
proof -
  let ?S = "new_buffered [[CHR 0x82, CHR 0x7F], replicate 8 (CHR 0xFF), ''too long''] Some"
  have i: "idle no_empty_piece ?S" by (simp add: no_empty_piece_def)
  show ?thesis
    using ws_size_limit_bypassed [OF next_of_source i, of 0 "''too long''" no_inflater False 1] by simp
qed

text \<open>A compressed message without a body announces 124 masked bytes and sends none.\<close>

lemma ws_compressed_without_body:
  "ws_sendTo deflate r (new_ws_message 1 False True maxSize) = Some (None, map word_char [0xC1, 0xFC])"
  by (simp add: ws_sendTo_def new_ws_message_def frame_head_def length_bytes_def size_byte_def)
    (rule arg_cong [where f = word_char], simp)

text \<open>A connection that ends after the first byte of a frame has its missing second byte read.\<close>

lemma ws_short_head:
  assumes "byte_source rd rest ok" "idle ok S" "unread rest S = [CHR 0x81]"
  shows "\<exists>S' R. ws_readFrom Z wss (bs_readBuffer rd) S (start_reading ty maxSize) = Some (Some PastBuffer, S', R)"
proof -
  obtain S1 where "bs_readBuffer rd 2 S = Some (S1, Ok [CHR 0x81])"
    using exact_reader.read_exact [OF byte_source.buffered_exact [OF assms(1)] assms(2), of 2] assms(3) by auto
  then show ?thesis
    by (subst ws_readFrom.simps) (simp add: read_head_def ext_head_def start_reading_def char_word_def Let_def)
qed

end
