(* ===== verification/LruCache.thy ===== *)
theory LruCache
  imports Prelude
begin

text \<open>
  \<^verbatim>\<open>include/LruCache.h\<close>: a bounded cache whose entries are shared objects. An entry is linked from the
  map and from the lists \<open>m_used\<close> and \<open>m_expired\<close>, and a thread that resolves or waits for it holds it
  after it was unlinked; so entries are addresses of an explicit store. Every method runs under the
  lock, except that \<open>lookup\<close> lets it go while the resolver runs and while it waits: it is two steps, and
  a run of the cache is an interleaving of such steps. The clock readings are arguments.
\<close>

section \<open>State\<close>

text \<open>\<open>it_linked\<close> is \<open>m_map_iter != m_map.end()\<close>, and \<open>it_key\<close> the key that iterator points to.\<close>

record 'v item =
  it_key :: string
  it_value :: "'v option"
  it_ready :: bool
  it_linked :: bool
  it_visited :: int
  it_updated :: int

record 'v cache =
  m_items :: "nat \<Rightarrow> 'v item"
  m_next :: nat
  m_map :: "string \<rightharpoonup> nat"
  m_used :: "nat list"
  m_expired :: "nat list"
  m_size :: int
  m_idleTimeout :: int
  m_updateTimeout :: int

definition blank_item :: "'v item" where
  "blank_item = \<lparr>it_key = [], it_value = None, it_ready = False, it_linked = False, it_visited = 0, it_updated = 0\<rparr>"

definition new_cache :: "int \<Rightarrow> int \<Rightarrow> int \<Rightarrow> 'v cache" where
  "new_cache sz idle upd =
     \<lparr>m_items = (\<lambda>i. blank_item), m_next = 0, m_map = Map.empty, m_used = [], m_expired = [],
      m_size = sz, m_idleTimeout = (if idle > 0 then idle else upd), m_updateTimeout = upd\<rparr>"

definition upd_item :: "nat \<Rightarrow> ('v item \<Rightarrow> 'v item) \<Rightarrow> 'v cache \<Rightarrow> 'v cache" where
  "upd_item i f c = c\<lparr>m_items := (m_items c)(i := f (m_items c i))\<rparr>"

text \<open>\<open>duration_cast<milliseconds>\<close> of a difference of clock readings in nanoseconds.\<close>

definition ms_count :: "int \<Rightarrow> int" where
  "ms_count d = (if d \<ge> 0 then d div 1000000 else - (- d div 1000000))"

text \<open>The conversion of an \<open>int32_t\<close> to \<open>size_t\<close> in a comparison with \<open>size()\<close>.\<close>

definition to_size_t :: "int \<Rightarrow> nat" where
  "to_size_t n = nat (n mod 2 ^ 64)"

section \<open>Operations under the lock\<close>

definition erase_item :: "nat \<Rightarrow> 'v cache \<Rightarrow> 'v cache" where
  "erase_item i c =
     (if it_linked (m_items c i)
      then (upd_item i (\<lambda>it. it\<lparr>it_linked := False\<rparr>) c)
        \<lparr>m_used := remove1 i (m_used c), m_expired := remove1 i (m_expired c),
         m_map := (m_map c)(it_key (m_items c i) := None)\<rparr>
      else c)"

definition find_map :: "string \<Rightarrow> int \<Rightarrow> 'v cache \<Rightarrow> nat option \<times> 'v cache" where
  "find_map key now c =
     (case m_map c key of
        None \<Rightarrow> (None, c)
      | Some i \<Rightarrow>
          if m_updateTimeout c \<le> 0 then (Some i, c)
          else if ms_count (now - it_updated (m_items c i)) \<ge> m_updateTimeout c * 1000
          then (None, erase_item i c)
          else (Some i, c))"

definition to_front :: "nat \<Rightarrow> nat list \<Rightarrow> nat list" where
  "to_front i is = (if is \<noteq> [] \<and> hd is = i then is else i # remove1 i is)"

partial_function (option) clean_used :: "'v cache \<Rightarrow> 'v cache option" where
  "clean_used c =
     (if length (m_used c) > to_size_t (m_size c) then clean_used (erase_item (last (m_used c)) c) else Some c)"

partial_function (option) clean_expired_at :: "int \<Rightarrow> 'v cache \<Rightarrow> 'v cache option" where
  "clean_expired_at now c =
     (if m_expired c = [] then Some c
      else if ms_count (now - it_visited (m_items c (last (m_expired c)))) < m_idleTimeout c * 1000 then Some c
      else clean_expired_at now (erase_item (last (m_expired c)) c))"

definition clean_expired :: "int \<Rightarrow> 'v cache \<Rightarrow> 'v cache option" where
  "clean_expired now c = (if m_idleTimeout c \<le> 0 then Some c else clean_expired_at now c)"

text \<open>The result is the item, if any, and whether it was allocated here.\<close>

definition find_item :: "string \<Rightarrow> bool \<Rightarrow> int \<Rightarrow> int \<Rightarrow> 'v cache \<Rightarrow> (nat option \<times> bool \<times> 'v cache) option" where
  "find_item key alloc t_map t_visit c =
     (case find_map key t_map c of
        (Some i, c) \<Rightarrow>
          let c = c\<lparr>m_used := to_front i (m_used c)\<rparr>;
              c = upd_item i (\<lambda>it. it\<lparr>it_visited := t_visit\<rparr>) c;
              c = c\<lparr>m_expired := to_front i (m_expired c)\<rparr>
          in Some (Some i, False, c)
      | (None, c) \<Rightarrow>
          if \<not> alloc then Some (None, False, c)
          else
            let i = m_next c;
                c = c\<lparr>m_next := i + 1, m_map := (m_map c)(key \<mapsto> i), m_used := i # m_used c,
                      m_expired := i # m_expired c,
                      m_items := (m_items c)(i := blank_item\<lparr>it_key := key, it_linked := True,
                        it_visited := t_visit, it_updated := t_visit\<rparr>)\<rparr>
            in (case clean_used c of None \<Rightarrow> None | Some c \<Rightarrow> Some (Some i, True, c)))"

section \<open>Methods\<close>

definition cache_set :: "string \<Rightarrow> 'v \<Rightarrow> int \<Rightarrow> int \<Rightarrow> 'v cache \<Rightarrow> 'v cache option" where
  "cache_set key v t_map t_visit c =
     (case find_item key True t_map t_visit c of
        Some (Some i, _, c) \<Rightarrow> Some (upd_item i (\<lambda>it. it\<lparr>it_value := Some v, it_ready := True\<rparr>) c)
      | _ \<Rightarrow> None)"

text \<open>
  The part of \<open>lookup\<close> under the lock: no entry, an entry to wait for, or an entry this thread has to
  resolve.
\<close>

datatype claim = Missed | Await nat | Resolve nat

definition lookup_lock ::
  "string \<Rightarrow> bool \<Rightarrow> int \<Rightarrow> int \<Rightarrow> int \<Rightarrow> 'v cache \<Rightarrow> (claim \<times> 'v cache) option" where
  "lookup_lock key has_resolver t_clean t_map t_visit c =
     (case clean_expired t_clean c of
        None \<Rightarrow> None
      | Some c \<Rightarrow>
          (case find_item key has_resolver t_map t_visit c of
             None \<Rightarrow> None
           | Some (None, _, c) \<Rightarrow> Some (Missed, c)
           | Some (Some i, alloced, c) \<Rightarrow> Some (if alloced then Resolve i else Await i, c)))"

text \<open>The end of a lookup that resolved: the resolver returned a value, or false.\<close>

definition resolved :: "nat \<Rightarrow> 'v option \<Rightarrow> 'v cache \<Rightarrow> 'v cache" where
  "resolved i r c =
     (case r of
        Some v \<Rightarrow> upd_item i (\<lambda>it. it\<lparr>it_value := Some v, it_ready := True\<rparr>) c
      | None \<Rightarrow> erase_item i (upd_item i (\<lambda>it. it\<lparr>it_ready := True\<rparr>) c))"

text \<open>A lookup with nothing in between; \<open>None\<close> stands for a wait that does not end.\<close>

definition cache_lookup ::
  "string \<Rightarrow> (string \<Rightarrow> 'v option) option \<Rightarrow> int \<Rightarrow> int \<Rightarrow> int \<Rightarrow> 'v cache \<Rightarrow> ('v option \<times> 'v cache) option" where
  "cache_lookup key resolver t_clean t_map t_visit c =
     (case lookup_lock key (resolver \<noteq> None) t_clean t_map t_visit c of
        None \<Rightarrow> None
      | Some (Missed, c) \<Rightarrow> Some (None, c)
      | Some (Resolve i, c) \<Rightarrow> Some (the resolver key, resolved i (the resolver key) c)
      | Some (Await i, c) \<Rightarrow> if it_ready (m_items c i) then Some (it_value (m_items c i), c) else None)"

definition cache_erase :: "string \<Rightarrow> int \<Rightarrow> 'v cache \<Rightarrow> bool \<times> 'v cache" where
  "cache_erase key now c =
     (case find_map key now c of
        (None, c) \<Rightarrow> (False, c)
      | (Some i, c) \<Rightarrow> (True, erase_item i c))"

definition cache_resize :: "int \<Rightarrow> 'v cache \<Rightarrow> 'v cache option" where
  "cache_resize n c = clean_used (c\<lparr>m_size := n\<rparr>)"

definition cache_set_timeout :: "int \<Rightarrow> int \<Rightarrow> int \<Rightarrow> 'v cache \<Rightarrow> 'v cache option" where
  "cache_set_timeout idle upd now c =
     clean_expired now (c\<lparr>m_idleTimeout := (if idle > 0 then idle else upd), m_updateTimeout := upd\<rparr>)"

partial_function (option) cache_clear :: "'v cache \<Rightarrow> 'v cache option" where
  "cache_clear c = (if m_expired c = [] then Some c else cache_clear (erase_item (last (m_expired c)) c))"

text \<open>\<open>forEach\<close> visits the entries that have a value.\<close>

definition cache_entries :: "'v cache \<Rightarrow> (string \<times> 'v) set" where
  "cache_entries c = {(k, v). \<exists>i. m_map c k = Some i \<and> it_value (m_items c i) = Some v}"

end
