(* ===== verification/LruSpec.thy ===== *)
theory LruSpec
  imports LruCache
begin

text \<open>
  What the cache promises: its links are consistent in every state any interleaving of the methods
  reaches, every method ends, nobody waits for an entry that no thread will complete, and a sequential
  user sees a list of entries ordered by use and cut at the size.
\<close>

section \<open>Consistent links\<close>

definition links_ok :: "'v cache \<Rightarrow> bool" where
  "links_ok c \<longleftrightarrow> m_expired c = m_used c \<and> distinct (m_used c) \<and>
     (\<forall>i. it_linked (m_items c i) \<longleftrightarrow> i \<in> set (m_used c)) \<and>
     (\<forall>i \<in> set (m_used c). i < m_next c) \<and>
     (\<forall>k i. m_map c k = Some i \<longleftrightarrow> i \<in> set (m_used c) \<and> it_key (m_items c i) = k)"

definition capacity :: "'v cache \<Rightarrow> nat" where
  "capacity c = to_size_t (m_size c)"

definition within_size :: "'v cache \<Rightarrow> bool" where
  "within_size c \<longleftrightarrow> length (m_used c) \<le> capacity c"

text \<open>What unlinking leaves alone.\<close>

definition same_contents :: "'v cache \<Rightarrow> 'v cache \<Rightarrow> bool" where
  "same_contents c c' \<longleftrightarrow> m_next c' = m_next c \<and> m_size c' = m_size c \<and> m_idleTimeout c' = m_idleTimeout c \<and>
     m_updateTimeout c' = m_updateTimeout c \<and>
     (\<forall>i. it_key (m_items c' i) = it_key (m_items c i) \<and> it_value (m_items c' i) = it_value (m_items c i) \<and>
          it_ready (m_items c' i) = it_ready (m_items c i) \<and> it_visited (m_items c' i) = it_visited (m_items c i) \<and>
          it_updated (m_items c' i) = it_updated (m_items c i))"

lemma same_contents_refl [simp]: "same_contents c c"
  by (simp add: same_contents_def)

lemma same_contents_trans [trans]: "same_contents a b \<Longrightarrow> same_contents b c \<Longrightarrow> same_contents a c"
  by (simp add: same_contents_def)

lemma same_contents_capacity: "same_contents c c' \<Longrightarrow> capacity c' = capacity c"
  by (simp add: same_contents_def capacity_def)

lemma links_okD:
  assumes "links_ok c"
  shows "m_expired c = m_used c" "distinct (m_used c)" "it_linked (m_items c i) \<longleftrightarrow> i \<in> set (m_used c)"
    "i \<in> set (m_used c) \<Longrightarrow> i < m_next c"
    "m_map c k = Some i \<longleftrightarrow> i \<in> set (m_used c) \<and> it_key (m_items c i) = k"
  using assms by (auto simp: links_ok_def)

lemma map_None_iff: "links_ok c \<Longrightarrow> m_map c k = None \<longleftrightarrow> (\<forall>i \<in> set (m_used c). it_key (m_items c i) \<noteq> k)"
  using links_okD(5) [of c k] by (metis not_None_eq)

lemma key_unique:
  "links_ok c \<Longrightarrow> i \<in> set (m_used c) \<Longrightarrow> j \<in> set (m_used c) \<Longrightarrow>
     it_key (m_items c i) = it_key (m_items c j) \<longleftrightarrow> i = j"
  using links_okD(5) [of c "it_key (m_items c i)"] by (metis option.inject)

lemma erase_item_spec:
  assumes "links_ok c"
  shows "links_ok (erase_item i c)" "m_used (erase_item i c) = remove1 i (m_used c)"
    "same_contents c (erase_item i c)"
proof -
  show "same_contents c (erase_item i c)"
    by (simp add: same_contents_def erase_item_def upd_item_def)
  show u: "m_used (erase_item i c) = remove1 i (m_used c)"
    using links_okD(3) [OF assms] by (simp add: erase_item_def remove1_idem)
  show "links_ok (erase_item i c)"
  proof (cases "i \<in> set (m_used c)")
    case False
    with links_okD(3) [OF assms] assms show ?thesis by (simp add: erase_item_def)
  next
    case True
    with assms have "it_key (m_items c j) \<noteq> it_key (m_items c i)" if "j \<in> set (m_used c)" "j \<noteq> i" for j
      using key_unique that by blast
    with True assms show ?thesis
      by (auto simp: links_ok_def erase_item_def upd_item_def split: if_splits)
  qed
qed

section \<open>The cleaning loops\<close>

lemma remove1_last: "distinct xs \<Longrightarrow> xs \<noteq> [] \<Longrightarrow> remove1 (last xs) xs = butlast xs"
  by (induction xs) auto

text \<open>Each loop unlinks a tail of the list, and ends.\<close>

lemma clean_used_spec:
  "links_ok c \<Longrightarrow> \<exists>c'. clean_used c = Some c' \<and> links_ok c' \<and> m_used c' = take (capacity c) (m_used c) \<and> same_contents c c'"
proof (induction "length (m_used c)" arbitrary: c rule: less_induct)
  case less
  show ?case
  proof (cases "length (m_used c) > capacity c")
    case False
    then show ?thesis using less.prems
      by (subst clean_used.simps) (simp add: capacity_def)
  next
    case True
    let ?c = "erase_item (last (m_used c)) c"
    note e = erase_item_spec [OF less.prems, of "last (m_used c)"]
    have ne: "m_used c \<noteq> []" using True by auto
    with e(2) links_okD(2) [OF less.prems] have u: "m_used ?c = butlast (m_used c)" by (simp add: remove1_last)
    have cap: "capacity ?c = capacity c" using e(3) by (rule same_contents_capacity)
    obtain c' where "clean_used ?c = Some c'" "links_ok c'" "m_used c' = take (capacity c) (m_used ?c)"
      "same_contents ?c c'"
      using less.hyps [of ?c] e(1) u ne cap by auto
    moreover have "clean_used c = clean_used ?c"
      using True by (subst clean_used.simps) (simp add: capacity_def)
    ultimately show ?thesis
      using True e(3) by (auto simp: u take_butlast intro: same_contents_trans)
  qed
qed

lemma clean_expired_at_spec:
  "links_ok c \<Longrightarrow> \<exists>c' n. clean_expired_at now c = Some c' \<and> links_ok c' \<and> m_used c' = take n (m_used c) \<and> same_contents c c'"
proof (induction "length (m_used c)" arbitrary: c rule: less_induct)
  case less
  note ex = links_okD(1) [OF less.prems]
  let ?c = "erase_item (last (m_used c)) c"
  note e = erase_item_spec [OF less.prems, of "last (m_used c)"]
  show ?case
  proof (cases "m_used c = [] \<or> ms_count (now - it_visited (m_items c (last (m_used c)))) < m_idleTimeout c * 1000")
    case True
    then have "clean_expired_at now c = Some c" by (subst clean_expired_at.simps) (auto simp: ex)
    then show ?thesis using less.prems by (auto intro: exI [of _ "length (m_used c)"])
  next
    case False
    with e(2) links_okD(2) [OF less.prems] have u: "m_used ?c = butlast (m_used c)" by (simp add: remove1_last)
    obtain c' n where "clean_expired_at now ?c = Some c'" "links_ok c'" "m_used c' = take n (m_used ?c)" "same_contents ?c c'"
      using less.hyps [of ?c] e(1) u False by auto
    moreover have "clean_expired_at now c = clean_expired_at now ?c"
      using False by (subst clean_expired_at.simps) (simp add: ex)
    ultimately show ?thesis
      using e(3) by (auto simp: u butlast_conv_take intro: same_contents_trans)
  qed
qed

lemma clean_expired_spec:
  assumes "links_ok c"
  shows "\<exists>c' n. clean_expired now c = Some c' \<and> links_ok c' \<and> m_used c' = take n (m_used c) \<and> same_contents c c'"
  using clean_expired_at_spec [OF assms, of now] assms
  by (auto simp: clean_expired_def intro: exI [of _ "length (m_used c)"])

lemma cache_clear_spec:
  "links_ok c \<Longrightarrow> \<exists>c'. cache_clear c = Some c' \<and> links_ok c' \<and> m_used c' = [] \<and> same_contents c c'"
proof (induction "length (m_used c)" arbitrary: c rule: less_induct)
  case less
  note ex = links_okD(1) [OF less.prems]
  let ?c = "erase_item (last (m_used c)) c"
  note e = erase_item_spec [OF less.prems, of "last (m_used c)"]
  show ?case
  proof (cases "m_used c = []")
    case True
    then show ?thesis using less.prems by (subst cache_clear.simps) (simp add: ex)
  next
    case False
    with e(2) links_okD(2) [OF less.prems] have u: "m_used ?c = butlast (m_used c)" by (simp add: remove1_last)
    obtain c' where "cache_clear ?c = Some c'" "links_ok c'" "m_used c' = []" "same_contents ?c c'"
      using less.hyps [of ?c] e(1) u False by auto
    moreover have "cache_clear c = cache_clear ?c"
      using False by (subst cache_clear.simps) (simp add: ex)
    ultimately show ?thesis using e(3) by (auto intro: same_contents_trans)
  qed
qed

section \<open>Finding and allocating\<close>

text \<open>Only the entry \<open>i\<close> may have changed its key, its value, its event or its age.\<close>

definition others_kept :: "nat \<Rightarrow> 'v cache \<Rightarrow> 'v cache \<Rightarrow> bool" where
  "others_kept i c c' \<longleftrightarrow> m_size c' = m_size c \<and> m_idleTimeout c' = m_idleTimeout c \<and> m_updateTimeout c' = m_updateTimeout c \<and>
     (\<forall>j. j \<noteq> i \<longrightarrow> it_key (m_items c' j) = it_key (m_items c j) \<and> it_value (m_items c' j) = it_value (m_items c j) \<and>
          it_ready (m_items c' j) = it_ready (m_items c j) \<and> it_updated (m_items c' j) = it_updated (m_items c j))"

lemma others_kept_capacity: "others_kept i c c' \<Longrightarrow> capacity c' = capacity c"
  by (simp add: others_kept_def capacity_def)

lemma same_others: "same_contents a b \<Longrightarrow> others_kept i b c \<Longrightarrow> others_kept i a c"
  "others_kept i a b \<Longrightarrow> same_contents b c \<Longrightarrow> others_kept i a c"
  by (auto simp: same_contents_def others_kept_def)

text \<open>The entries in the order of use, without those of one key.\<close>

definition used_without :: "string \<Rightarrow> 'v cache \<Rightarrow> nat list" where
  "used_without k c = filter (\<lambda>j. it_key (m_items c j) \<noteq> k) (m_used c)"

lemma remove1_used_without:
  assumes "links_ok c" "m_map c k = Some i"
  shows "remove1 i (m_used c) = used_without k c"
proof -
  have "remove1 i (m_used c) = filter (\<lambda>j. j \<noteq> i) (m_used c)"
    using links_okD(2) [OF assms(1)] by (simp add: distinct_remove1_removeAll removeAll_filter_not_eq neq_commute)
  also have "\<dots> = used_without k c"
    using assms(2) links_okD(5) [OF assms(1), of k i] key_unique [OF assms(1), of _ i]
    unfolding used_without_def by (intro filter_cong) auto
  finally show ?thesis .
qed

lemma used_without_same [simp]: "same_contents c c' \<Longrightarrow> m_used c' = used_without k c \<Longrightarrow> used_without k c' = used_without k c"
  by (simp add: used_without_def same_contents_def)

lemma used_without_absent: "links_ok c \<Longrightarrow> m_map c k = None \<Longrightarrow> used_without k c = m_used c"
  by (simp add: used_without_def map_None_iff)

lemma used_without_length: "length (used_without k c) \<le> length (m_used c)"
  by (simp add: used_without_def)

lemma find_map_spec:
  assumes "links_ok c"
  obtains (hit) i where "find_map k t c = (Some i, c)" "m_map c k = Some i"
  | (miss) c' where "find_map k t c = (None, c')" "links_ok c'" "same_contents c c'" "m_map c' k = None"
      "m_used c' = used_without k c"
proof (cases "m_map c k")
  case None
  with used_without_absent [OF assms None] assms show ?thesis by (intro miss [of c]) (auto simp: find_map_def)
next
  case (Some i)
  show ?thesis
  proof (cases "m_updateTimeout c > 0 \<and> ms_count (t - it_updated (m_items c i)) \<ge> m_updateTimeout c * 1000")
    case False
    with Some show ?thesis by (intro hit [of i]) (auto simp: find_map_def)
  next
    case True
    note e = erase_item_spec [OF assms, of i]
    have "m_used (erase_item i c) = used_without k c"
      using e(2) remove1_used_without [OF assms Some] by simp
    moreover from this e have "m_map (erase_item i c) k = None"
      by (auto simp: map_None_iff used_without_def same_contents_def)
    ultimately show ?thesis using True Some e by (intro miss [of "erase_item i c"]) (auto simp: find_map_def)
  qed
qed

lemma to_front_member: "distinct is \<Longrightarrow> i \<in> set is \<Longrightarrow> to_front i is = i # remove1 i is"
  by (cases "is") (auto simp: to_front_def)

lemma find_item_hit:
  assumes "links_ok c" "find_map k tm c = (Some i, c)" "m_map c k = Some i"
  obtains c' where "find_item k al tm tv c = Some (Some i, False, c')" "links_ok c'" "m_used c' = i # used_without k c"
    "others_kept i c c'" "m_next c' = m_next c" "it_value (m_items c' i) = it_value (m_items c i)"
    "it_ready (m_items c' i) = it_ready (m_items c i)" "it_key (m_items c' i) = k"
    "it_updated (m_items c' i) = it_updated (m_items c i)"
proof -
  have i: "i \<in> set (m_used c)" "it_key (m_items c i) = k" using links_okD(5) [OF assms(1)] assms(3) by auto
  have f: "to_front i (m_used c) = i # remove1 i (m_used c)" "m_expired c = m_used c" "distinct (m_used c)"
    using assms(1) i(1) by (simp_all add: to_front_member links_ok_def)
  let ?c = "(upd_item i (\<lambda>it. it\<lparr>it_visited := tv\<rparr>) c)\<lparr>m_used := i # remove1 i (m_used c), m_expired := i # remove1 i (m_used c)\<rparr>"
  have "set (i # remove1 i (m_used c)) = set (m_used c)" using f(3) i(1) by auto
  with assms(1) f i have "links_ok ?c" by (auto simp: links_ok_def upd_item_def)
  with assms f i show thesis
    by (intro that [of ?c]) (auto simp: find_item_def upd_item_def others_kept_def remove1_used_without)
qed

lemma find_item_miss:
  assumes "links_ok c" "find_map k tm c = (None, c1)" "m_map c1 k = None" "links_ok c1" "same_contents c c1"
    "m_used c1 = used_without k c"
  obtains c' where "find_item k True tm tv c = Some (Some (m_next c), True, c')" "links_ok c'"
    "m_used c' = take (capacity c) (m_next c # used_without k c)" "others_kept (m_next c) c c'"
    "m_next c' = m_next c + 1" "it_value (m_items c' (m_next c)) = None"
    "\<not> it_ready (m_items c' (m_next c))" "it_key (m_items c' (m_next c)) = k"
proof -
  let ?i = "m_next c"
  let ?c = "c1\<lparr>m_next := ?i + 1, m_map := (m_map c1)(k \<mapsto> ?i), m_used := ?i # m_used c1, m_expired := ?i # m_expired c1,
    m_items := (m_items c1)(?i := blank_item\<lparr>it_key := k, it_linked := True, it_visited := tv, it_updated := tv\<rparr>)\<rparr>"
  have n: "m_next c1 = ?i" using assms(5) by (simp add: same_contents_def)
  with links_okD(4) [OF assms(4)] have new: "?i \<notin> set (m_used c1)" by auto
  have l: "links_ok ?c"
    using assms(3,4) new n by (auto simp: links_ok_def map_None_iff less_Suc_eq split: if_splits)
  have o: "others_kept ?i c ?c" using assms(5) by (auto simp: others_kept_def same_contents_def)
  obtain c' where c': "clean_used ?c = Some c'" "links_ok c'" "m_used c' = take (capacity ?c) (m_used ?c)" "same_contents ?c c'"
    using clean_used_spec [OF l] by blast
  moreover have "find_item k True tm tv c = Some (Some ?i, True, c')"
    using assms(2) c'(1) n by (simp add: find_item_def Let_def)
  ultimately show thesis
    using o others_kept_capacity [OF o] assms(6)
    by (intro that [of c']) (auto simp: same_contents_def blank_item_def intro: same_others)
qed

text \<open>Both ways at once.\<close>

lemma find_item_alloc:
  assumes "links_ok c" "within_size c"
  obtains i fresh c' where "find_item k True tm tv c = Some (Some i, fresh, c')" "links_ok c'" "within_size c'"
    "m_used c' = take (capacity c) (i # used_without k c)" "others_kept i c c'" "i < m_next c'"
    "it_key (m_items c' i) = k" "m_next c \<le> m_next c'" "m_next c' \<le> m_next c + 1" "i = m_next c \<or> m_next c' = m_next c"
    "fresh \<longleftrightarrow> i = m_next c"
    "fresh \<longrightarrow> it_value (m_items c' i) = None \<and> \<not> it_ready (m_items c' i)"
    "\<not> fresh \<longrightarrow> i \<in> set (m_used c) \<and> it_key (m_items c i) = k \<and> it_value (m_items c' i) = it_value (m_items c i) \<and>
       it_ready (m_items c' i) = it_ready (m_items c i) \<and> it_updated (m_items c' i) = it_updated (m_items c i)"
  using assms(1)
proof (cases rule: find_map_spec [of c k tm])
  case (hit i)
  have i: "i \<in> set (m_used c)" "it_key (m_items c i) = k" using links_okD(5) [OF assms(1)] hit(2) by auto
  obtain c' where c': "find_item k True tm tv c = Some (Some i, False, c')" "links_ok c'" "m_used c' = i # used_without k c"
    "others_kept i c c'" "m_next c' = m_next c" "it_value (m_items c' i) = it_value (m_items c i)"
    "it_ready (m_items c' i) = it_ready (m_items c i)" "it_key (m_items c' i) = k"
    "it_updated (m_items c' i) = it_updated (m_items c i)"
    by (rule find_item_hit [OF assms(1) hit])
  have "length (i # used_without k c) = length (m_used c)"
    using remove1_used_without [OF assms(1) hit(2)] i(1) length_remove1 [of i "m_used c"]
    by (cases "m_used c") auto
  with assms(2) others_kept_capacity [OF c'(4)] c'(3)
  have "within_size c'" "m_used c' = take (capacity c) (i # used_without k c)" by (simp_all add: within_size_def)
  with c' i links_okD(4) [OF assms(1) i(1)] show thesis by (intro that [of i False c']) auto
next
  case (miss c1)
  obtain c' where c': "find_item k True tm tv c = Some (Some (m_next c), True, c')" "links_ok c'"
    "m_used c' = take (capacity c) (m_next c # used_without k c)" "others_kept (m_next c) c c'"
    "m_next c' = m_next c + 1" "it_value (m_items c' (m_next c)) = None"
    "\<not> it_ready (m_items c' (m_next c))" "it_key (m_items c' (m_next c)) = k"
    by (rule find_item_miss [OF assms(1) miss(1,4,2,3,5)])
  then have "within_size c'" using others_kept_capacity [OF c'(4)] by (simp add: within_size_def)
  with c' show thesis by (intro that [of "m_next c" True c']) auto
qed

section \<open>Interleavings\<close>

text \<open>
  The cache together with the entries some thread is resolving. Each method is one step; a lookup that
  resolves is two, with anything in between.
\<close>

inductive cache_step :: "'v cache \<times> nat set \<Rightarrow> 'v cache \<times> nat set \<Rightarrow> bool" where
  set_step: "cache_set k v tm tv c = Some c' \<Longrightarrow> cache_step (c, P) (c', P)"
| lookup_step: "lookup_lock k b tc tm tv c = Some (r, c') \<Longrightarrow>
    cache_step (c, P) (c', case r of Resolve i \<Rightarrow> insert i P | _ \<Rightarrow> P)"
| resolved_step: "i \<in> P \<Longrightarrow> cache_step (c, P) (resolved i r c, P - {i})"
| erase_step: "cache_erase k t c = (b, c') \<Longrightarrow> cache_step (c, P) (c', P)"
| resize_step: "cache_resize n c = Some c' \<Longrightarrow> cache_step (c, P) (c', P)"
| timeout_step: "cache_set_timeout idle upd t c = Some c' \<Longrightarrow> cache_step (c, P) (c', P)"
| clear_step: "cache_clear c = Some c' \<Longrightarrow> cache_step (c, P) (c', P)"

inductive_cases cache_stepE: "cache_step s s'"

inductive cache_run :: "'v cache \<times> nat set \<Rightarrow> bool" where
  start: "cache_run (new_cache sz idle upd, {})"
| more: "cache_run s \<Longrightarrow> cache_step s s' \<Longrightarrow> cache_run s'"

text \<open>Who waits for an entry that is not ready waits for one that is being resolved.\<close>

definition awaited_ok :: "'v cache \<Rightarrow> nat set \<Rightarrow> bool" where
  "awaited_ok c P \<longleftrightarrow> (\<forall>i < m_next c. it_ready (m_items c i) \<or> i \<in> P) \<and> (\<forall>i \<in> P. i < m_next c)"

definition cache_inv :: "'v cache \<times> nat set \<Rightarrow> bool" where
  "cache_inv s \<longleftrightarrow> links_ok (fst s) \<and> within_size (fst s) \<and> awaited_ok (fst s) (snd s)"

lemma same_contents_inv:
  assumes "cache_inv (c, P)" "same_contents c c'" "links_ok c'" "m_used c' = take n (m_used c)"
  shows "cache_inv (c', P)"
  using assms same_contents_capacity [OF assms(2)]
  by (auto simp: cache_inv_def within_size_def awaited_ok_def same_contents_def)

lemma erase_inv: "cache_inv (c, P) \<Longrightarrow> cache_inv (erase_item i c, P)"
  using erase_item_spec [of c i] same_contents_capacity [of c "erase_item i c"]
  by (auto simp: cache_inv_def within_size_def awaited_ok_def same_contents_def length_remove1)

lemma awaited_lift:
  assumes "awaited_ok c P" "others_kept i c c'" "m_next c \<le> m_next c'" "m_next c' \<le> m_next c + 1"
    "i = m_next c \<or> m_next c' = m_next c" "P \<subseteq> Q" "\<forall>j \<in> Q - P. j < m_next c'"
    "it_ready (m_items c' i) \<or> i \<in> Q \<or> (it_ready (m_items c' i) = it_ready (m_items c i) \<and> i \<noteq> m_next c)"
  shows "awaited_ok c' Q"
  unfolding awaited_ok_def
proof (intro conjI allI impI ballI)
  fix j assume j: "j < m_next c'"
  then have lt: "j \<noteq> m_next c \<Longrightarrow> j < m_next c" using assms(3,4) by simp
  show "it_ready (m_items c' j) \<or> j \<in> Q"
  proof (cases "j = i")
    case True
    with assms(1,6,8) lt show ?thesis by (auto simp: awaited_ok_def)
  next
    case False
    then have "j < m_next c" using assms(5) lt j by auto
    with assms(1,2,6) False show ?thesis by (auto simp: awaited_ok_def others_kept_def)
  qed
next
  fix j assume "j \<in> Q"
  with assms(1,3,7) show "j < m_next c'" by (cases "j \<in> P") (auto simp: awaited_ok_def)
qed

lemma set_inv:
  assumes "cache_inv (c, P)"
  shows "\<exists>c'. cache_set k v tm tv c = Some c' \<and> cache_inv (c', P)"
proof -
  from assms have l: "links_ok c" "within_size c" and w: "awaited_ok c P" by (simp_all add: cache_inv_def)
  obtain i fresh c1 where c1: "find_item k True tm tv c = Some (Some i, fresh, c1)" "links_ok c1" "within_size c1"
    "others_kept i c c1" "i < m_next c1" "m_next c \<le> m_next c1" "m_next c1 \<le> m_next c + 1" "i = m_next c \<or> m_next c1 = m_next c"
    by (rule find_item_alloc [OF l, of k tm tv])
  let ?c = "upd_item i (\<lambda>it. it\<lparr>it_value := Some v, it_ready := True\<rparr>) c1"
  have "cache_set k v tm tv c = Some ?c" by (simp add: cache_set_def c1(1))
  moreover have "links_ok ?c" using c1(2) by (auto simp: links_ok_def upd_item_def)
  moreover have "within_size ?c" using c1(3) by (simp add: within_size_def capacity_def upd_item_def)
  moreover have "others_kept i c ?c" using c1(4) by (simp add: others_kept_def upd_item_def)
  then have "awaited_ok ?c P"
    using awaited_lift [OF w, of i ?c P] c1(6-8) by (simp add: upd_item_def)
  ultimately show ?thesis by (auto simp: cache_inv_def)
qed

lemma lookup_inv:
  assumes "cache_inv (c, P)"
  shows "\<exists>r c'. lookup_lock k b tc tm tv c = Some (r, c') \<and>
    cache_inv (c', case r of Resolve i \<Rightarrow> insert i P | _ \<Rightarrow> P) \<and> (\<forall>i. r = Await i \<or> r = Resolve i \<longrightarrow> i < m_next c')"
proof -
  from assms have "links_ok c" by (simp add: cache_inv_def)
  with clean_expired_spec [OF this, of tc] obtain c1 n where c1: "clean_expired tc c = Some c1" "links_ok c1"
    "m_used c1 = take n (m_used c)" "same_contents c c1" by blast
  have i1: "cache_inv (c1, P)" by (rule same_contents_inv [OF assms c1(4,2,3)])
  then have l: "links_ok c1" "within_size c1" and w: "awaited_ok c1 P" by (simp_all add: cache_inv_def)
  show ?thesis
  proof (cases b)
    case True
    obtain i fresh c2 where c2: "find_item k True tm tv c1 = Some (Some i, fresh, c2)" "links_ok c2" "within_size c2"
      "others_kept i c1 c2" "i < m_next c2" "m_next c1 \<le> m_next c2" "m_next c2 \<le> m_next c1 + 1"
      "i = m_next c1 \<or> m_next c2 = m_next c1" "fresh \<longleftrightarrow> i = m_next c1"
      "\<not> fresh \<longrightarrow> i \<in> set (m_used c1) \<and> it_key (m_items c1 i) = k \<and> it_value (m_items c2 i) = it_value (m_items c1 i) \<and>
       it_ready (m_items c2 i) = it_ready (m_items c1 i) \<and> it_updated (m_items c2 i) = it_updated (m_items c1 i)"
      by (rule find_item_alloc [OF l, of k tm tv])
    show ?thesis
    proof (cases fresh)
      case f: True
      then have "awaited_ok c2 (insert i P)"
        using awaited_lift [OF w c2(4,6,7,8), of "insert i P"] c2(5) by auto
      with True f c1(1) c2 show ?thesis by (auto simp: lookup_lock_def cache_inv_def)
    next
      case f: False
      have "awaited_ok c2 P"
        using awaited_lift [OF w c2(4,6,7,8), of P] c2(9,10) f by auto
      with True f c1(1) c2(1-5) show ?thesis by (auto simp: lookup_lock_def cache_inv_def)
    qed
  next
    case False
    from l(1) show ?thesis
    proof (cases rule: find_map_spec [of c1 k tm])
      case (hit i)
      obtain c2 where c2: "find_item k b tm tv c1 = Some (Some i, False, c2)" "links_ok c2" "m_used c2 = i # used_without k c1"
        "others_kept i c1 c2" "m_next c2 = m_next c1" "it_ready (m_items c2 i) = it_ready (m_items c1 i)"
        by (rule find_item_hit [OF l(1) hit, of b])
      have i: "i \<in> set (m_used c1)" using links_okD(5) [OF l(1)] hit(2) by auto
      then have "length (i # used_without k c1) = length (m_used c1)"
        using remove1_used_without [OF l(1) hit(2)] length_remove1 [of i "m_used c1"] by (cases "m_used c1") auto
      with l(2) c2(3) others_kept_capacity [OF c2(4)] have "within_size c2" by (simp add: within_size_def)
      moreover have "awaited_ok c2 P"
        using awaited_lift [OF w c2(4), of P] c2(5,6) links_okD(4) [OF l(1) i] by auto
      ultimately show ?thesis
        using c1(1) c2 links_okD(4) [OF l(1) i] by (auto simp: lookup_lock_def cache_inv_def)
    next
      case (miss c2)
      have "cache_inv (c2, P)"
        using i1 miss(2,3,5) same_contents_capacity [OF miss(3)] used_without_length [of k c1]
        by (auto simp: cache_inv_def within_size_def awaited_ok_def same_contents_def)
      with False c1(1) miss show ?thesis by (auto simp: lookup_lock_def find_item_def)
    qed
  qed
qed

lemma resolved_inv:
  assumes "cache_inv (c, P)" "i \<in> P"
  shows "cache_inv (resolved i r c, P - {i}) \<and> it_ready (m_items (resolved i r c) i)"
proof (cases r)
  case (Some v)
  with assms show ?thesis
    by (auto simp: resolved_def cache_inv_def links_ok_def within_size_def capacity_def awaited_ok_def upd_item_def)
next
  case None
  let ?c = "upd_item i (\<lambda>it. it\<lparr>it_ready := True\<rparr>) c"
  have inv: "cache_inv (?c, P - {i})"
    using assms by (auto simp: cache_inv_def links_ok_def within_size_def capacity_def awaited_ok_def upd_item_def)
  then have "same_contents ?c (erase_item i ?c)"
    by (auto simp: cache_inv_def intro: erase_item_spec)
  moreover have "it_ready (m_items ?c i)" by (simp add: upd_item_def)
  ultimately have "it_ready (m_items (erase_item i ?c) i)" by (simp add: same_contents_def)
  with None erase_inv [OF inv] show ?thesis by (simp add: resolved_def)
qed

lemma erase_method_inv:
  assumes "cache_inv (c, P)"
  shows "cache_inv (snd (cache_erase k t c), P)"
proof -
  from assms have l: "links_ok c" by (simp add: cache_inv_def)
  from l show ?thesis
  proof (cases rule: find_map_spec [of c k t])
    case (hit i)
    with erase_inv [OF assms] show ?thesis by (simp add: cache_erase_def)
  next
    case (miss c')
    then show ?thesis
      using assms same_contents_capacity [OF miss(3)] used_without_length [of k c]
      by (auto simp: cache_erase_def cache_inv_def within_size_def awaited_ok_def same_contents_def)
  qed
qed

lemma resize_inv:
  assumes "cache_inv (c, P)"
  shows "\<exists>c'. cache_resize n c = Some c' \<and> cache_inv (c', P)"
proof -
  have "links_ok (c\<lparr>m_size := n\<rparr>)" using assms by (auto simp: cache_inv_def links_ok_def)
  from clean_used_spec [OF this] obtain c' where c': "clean_used (c\<lparr>m_size := n\<rparr>) = Some c'" "links_ok c'"
    "m_used c' = take (capacity (c\<lparr>m_size := n\<rparr>)) (m_used c)" "same_contents (c\<lparr>m_size := n\<rparr>) c'" by auto
  then show ?thesis
    using assms same_contents_capacity [OF c'(4)]
    by (auto simp: cache_resize_def cache_inv_def within_size_def awaited_ok_def same_contents_def)
qed

lemma timeout_inv:
  assumes "cache_inv (c, P)"
  shows "\<exists>c'. cache_set_timeout idle upd t c = Some c' \<and> cache_inv (c', P)"
proof -
  let ?c = "c\<lparr>m_idleTimeout := (if idle > 0 then idle else upd), m_updateTimeout := upd\<rparr>"
  have i: "cache_inv (?c, P)"
    using assms by (auto simp: cache_inv_def links_ok_def within_size_def capacity_def awaited_ok_def)
  then have "links_ok ?c" by (simp add: cache_inv_def)
  from clean_expired_spec [OF this, of t] show ?thesis
    using same_contents_inv [OF i] by (auto simp: cache_set_timeout_def)
qed

lemma clear_inv:
  assumes "cache_inv (c, P)"
  shows "\<exists>c'. cache_clear c = Some c' \<and> cache_inv (c', P)"
  using cache_clear_spec [of c] same_contents_inv [OF assms, of _ 0] assms by (fastforce simp: cache_inv_def)

lemma step_inv: "cache_step s s' \<Longrightarrow> cache_inv s \<Longrightarrow> cache_inv s'"
proof (induction rule: cache_step.induct)
  case (set_step k v tm tv c c' P)
  with set_inv [OF set_step.prems, of k v tm tv] show ?case by auto
next
  case (lookup_step k b tc tm tv c r c' P)
  with lookup_inv [OF lookup_step.prems, of k b tc tm tv] show ?case by auto
next
  case (resolved_step i P c r)
  with resolved_inv [OF resolved_step.prems] show ?case by blast
next
  case (erase_step k t c b c' P)
  with erase_method_inv [OF erase_step.prems, of k t] show ?case by simp
next
  case (resize_step n c c' P)
  with resize_inv [OF resize_step.prems, of n] show ?case by auto
next
  case (timeout_step idle upd t c c' P)
  with timeout_inv [OF timeout_step.prems, of idle upd t] show ?case by auto
next
  case (clear_step c c' P)
  with clear_inv [OF clear_step.prems] show ?case by auto
qed

lemma new_cache_inv: "cache_inv (new_cache sz idle upd, {})"
  by (simp add: cache_inv_def links_ok_def within_size_def awaited_ok_def new_cache_def blank_item_def)

lemma run_inv: "cache_run s \<Longrightarrow> cache_inv s"
  by (induction rule: cache_run.induct) (auto intro: new_cache_inv step_inv)

section \<open>The reference: a list ordered by use\<close>

type_synonym 'v lru = "(string \<times> 'v option) list"

definition lru_drop :: "string \<Rightarrow> 'v lru \<Rightarrow> 'v lru" where
  "lru_drop k xs = filter (\<lambda>kv. fst kv \<noteq> k) xs"

definition lru_put :: "nat \<Rightarrow> string \<Rightarrow> 'v \<Rightarrow> 'v lru \<Rightarrow> 'v lru" where
  "lru_put n k v xs = take n ((k, Some v) # lru_drop k xs)"

definition lru_touch :: "string \<Rightarrow> 'v lru \<Rightarrow> 'v lru" where
  "lru_touch k xs = (case map_of xs k of None \<Rightarrow> xs | Some v \<Rightarrow> (k, v) # lru_drop k xs)"

definition entries :: "'v cache \<Rightarrow> 'v lru" where
  "entries c = map (\<lambda>i. (it_key (m_items c i), it_value (m_items c i))) (m_used c)"

lemma entries_without: "map (\<lambda>i. (it_key (m_items c i), it_value (m_items c i))) (used_without k c) = lru_drop k (entries c)"
  by (simp add: used_without_def lru_drop_def entries_def filter_map comp_def)

lemma entries_others:
  assumes "others_kept i c c'" "i \<notin> set is"
  shows "map (\<lambda>j. (it_key (m_items c' j), it_value (m_items c' j))) is =
    map (\<lambda>j. (it_key (m_items c j), it_value (m_items c j))) is"
  using assms by (intro map_cong) (auto simp: others_kept_def)

lemma map_of_entries:
  assumes "links_ok c"
  shows "map_of (entries c) k = (case m_map c k of None \<Rightarrow> None | Some i \<Rightarrow> Some (it_value (m_items c i)))"
proof (cases "m_map c k")
  case None
  with map_None_iff [OF assms, of k] show ?thesis by (auto simp: entries_def map_of_eq_None_iff)
next
  case (Some i)
  then have i: "i \<in> set (m_used c)" "it_key (m_items c i) = k" using links_okD(5) [OF assms] by auto
  have "distinct (map fst (entries c))"
    using links_okD(2) [OF assms] key_unique [OF assms] by (auto simp: entries_def distinct_map inj_on_def comp_def)
  moreover have "(k, it_value (m_items c i)) \<in> set (entries c)" using i by (force simp: entries_def)
  ultimately show ?thesis using Some by simp
qed

lemma set_entries:
  assumes "links_ok c" "within_size c"
  shows "\<exists>c'. cache_set k v tm tv c = Some c' \<and> links_ok c' \<and> within_size c' \<and> capacity c' = capacity c \<and>
    entries c' = lru_put (capacity c) k v (entries c) \<and>
    m_idleTimeout c' = m_idleTimeout c \<and> m_updateTimeout c' = m_updateTimeout c \<and>
    ((\<forall>i \<in> set (m_used c). it_ready (m_items c i)) \<longrightarrow> (\<forall>i \<in> set (m_used c'). it_ready (m_items c' i)))"
proof -
  obtain i fresh c1 where c1: "find_item k True tm tv c = Some (Some i, fresh, c1)" "links_ok c1" "within_size c1"
    "m_used c1 = take (capacity c) (i # used_without k c)" "others_kept i c c1" "it_key (m_items c1 i) = k"
    "fresh \<longleftrightarrow> i = m_next c"
    "\<not> fresh \<longrightarrow> i \<in> set (m_used c) \<and> it_key (m_items c i) = k \<and> it_value (m_items c1 i) = it_value (m_items c i) \<and>
       it_ready (m_items c1 i) = it_ready (m_items c i) \<and> it_updated (m_items c1 i) = it_updated (m_items c i)"
    by (rule find_item_alloc [OF assms, of k tm tv])
  let ?c = "upd_item i (\<lambda>it. it\<lparr>it_value := Some v, it_ready := True\<rparr>) c1"
  have new: "i \<notin> set (used_without k c)"
    using c1(7,8) links_okD(4) [OF assms(1), of i] by (auto simp: used_without_def)
  have ok: "others_kept i c ?c" using c1(5) by (simp add: others_kept_def upd_item_def)
  have "entries ?c = take (capacity c) ((k, Some v) # map (\<lambda>j. (it_key (m_items ?c j), it_value (m_items ?c j))) (used_without k c))"
    using c1(4,6) by (simp add: entries_def upd_item_def take_map [symmetric])
  also have "\<dots> = lru_put (capacity c) k v (entries c)"
    by (simp only: entries_others [OF ok new] entries_without lru_put_def)
  finally have "entries ?c = lru_put (capacity c) k v (entries c)" .
  moreover have "cache_set k v tm tv c = Some ?c" by (simp add: cache_set_def c1(1))
  moreover have "links_ok ?c" using c1(2) by (auto simp: links_ok_def upd_item_def)
  moreover have "within_size ?c" using c1(3) by (simp add: within_size_def capacity_def upd_item_def)
  moreover have "\<forall>j \<in> set (m_used ?c). it_ready (m_items ?c j)" if "\<forall>j \<in> set (m_used c). it_ready (m_items c j)"
  proof
    fix j assume "j \<in> set (m_used ?c)"
    then have "j = i \<or> j \<in> set (m_used c)"
      using c1(4) set_take_subset [of "capacity c" "i # used_without k c"] by (auto simp: upd_item_def used_without_def)
    with that ok show "it_ready (m_items ?c j)"
      by (cases "j = i") (auto simp: upd_item_def others_kept_def)
  qed
  ultimately show ?thesis using others_kept_capacity [OF ok] ok unfolding others_kept_def by auto
qed

text \<open>Without timeouts a lookup without a resolver touches the entry and returns its value.\<close>

lemma lookup_entries:
  assumes "links_ok c" "m_idleTimeout c \<le> 0" "m_updateTimeout c \<le> 0"
    "\<forall>i \<in> set (m_used c). it_ready (m_items c i)"
  shows "\<exists>c'. cache_lookup k None tc tm tv c =
      Some (case map_of (entries c) k of None \<Rightarrow> None | Some v \<Rightarrow> v, c') \<and>
    links_ok c' \<and> entries c' = lru_touch k (entries c) \<and> m_size c' = m_size c \<and> m_idleTimeout c' = m_idleTimeout c \<and>
    m_updateTimeout c' = m_updateTimeout c \<and> (\<forall>i \<in> set (m_used c'). it_ready (m_items c' i))"
proof (cases "m_map c k")
  case None
  then have "cache_lookup k None tc tm tv c = Some (None, c)"
    using assms(2,3) by (simp add: cache_lookup_def lookup_lock_def clean_expired_def find_item_def find_map_def)
  then show ?thesis using assms(1,4) None by (auto simp: map_of_entries lru_touch_def)
next
  case (Some i)
  then have fm: "find_map k tm c = (Some i, c)" using assms(3) by (simp add: find_map_def)
  obtain c' where c': "find_item k False tm tv c = Some (Some i, False, c')" "links_ok c'" "m_used c' = i # used_without k c"
    "others_kept i c c'" "it_value (m_items c' i) = it_value (m_items c i)"
    "it_ready (m_items c' i) = it_ready (m_items c i)" "it_key (m_items c' i) = k"
    by (rule find_item_hit [OF assms(1) fm Some, of False])
  have i: "i \<in> set (m_used c)" "it_key (m_items c i) = k" using links_okD(5) [OF assms(1)] Some by auto
  then have new: "i \<notin> set (used_without k c)" by (simp add: used_without_def)
  have "entries c' = (k, it_value (m_items c i)) # map (\<lambda>j. (it_key (m_items c' j), it_value (m_items c' j))) (used_without k c)"
    by (simp add: entries_def c'(3,5,7))
  also have "\<dots> = lru_touch k (entries c)"
    by (simp only: entries_others [OF c'(4) new] entries_without) (simp add: lru_touch_def map_of_entries assms(1) Some)
  finally have "entries c' = lru_touch k (entries c)" .
  moreover have "cache_lookup k None tc tm tv c = Some (it_value (m_items c i), c')"
    using assms(2,4) i c'(1,5,6) by (simp add: cache_lookup_def lookup_lock_def clean_expired_def)
  moreover have "\<forall>j \<in> set (m_used c'). it_ready (m_items c' j)"
    using assms(4) i(1) c'(3,4,6) by (auto simp: used_without_def others_kept_def)
  ultimately show ?thesis using c'(2,4) Some by (auto simp: map_of_entries assms(1) others_kept_def)
qed

text \<open>A sequential use of the cache, and of the reference.\<close>

datatype 'v lru_op = Put string 'v | Get string

fun lru_ops :: "nat \<Rightarrow> 'v lru \<Rightarrow> 'v lru_op list \<Rightarrow> 'v option list" where
  "lru_ops n xs [] = []"
| "lru_ops n xs (Put k v # ops) = lru_ops n (lru_put n k v xs) ops"
| "lru_ops n xs (Get k # ops) =
     (case map_of xs k of None \<Rightarrow> None | Some v \<Rightarrow> v) # lru_ops n (lru_touch k xs) ops"

fun cache_ops :: "int \<Rightarrow> 'v cache \<Rightarrow> 'v lru_op list \<Rightarrow> 'v option list option" where
  "cache_ops t c [] = Some []"
| "cache_ops t c (Put k v # ops) = (case cache_set k v t t c of None \<Rightarrow> None | Some c \<Rightarrow> cache_ops t c ops)"
| "cache_ops t c (Get k # ops) =
     (case cache_lookup k None t t t c of
        None \<Rightarrow> None
      | Some (r, c) \<Rightarrow> map_option ((#) r) (cache_ops t c ops))"

definition seq_ok :: "'v cache \<Rightarrow> bool" where
  "seq_ok c \<longleftrightarrow> links_ok c \<and> within_size c \<and> m_idleTimeout c \<le> 0 \<and> m_updateTimeout c \<le> 0 \<and>
     (\<forall>i \<in> set (m_used c). it_ready (m_items c i))"

lemma lru_touch_length: "length (lru_touch k xs) \<le> length xs"
proof (cases "map_of xs k")
  case (Some v)
  then have "(k, v) \<in> set xs" by (rule map_of_SomeD)
  then have "length (filter (\<lambda>kv. fst kv \<noteq> k) xs) < length xs" by (intro length_filter_less) auto
  with Some show ?thesis by (simp add: lru_touch_def lru_drop_def Suc_le_eq)
qed (simp add: lru_touch_def)

lemma seq_get:
  assumes "seq_ok c"
  obtains c' where "cache_lookup k None tc tm tv c = Some (case map_of (entries c) k of None \<Rightarrow> None | Some v \<Rightarrow> v, c')"
    "seq_ok c'" "capacity c' = capacity c" "entries c' = lru_touch k (entries c)"
proof -
  obtain c' where c': "cache_lookup k None tc tm tv c = Some (case map_of (entries c) k of None \<Rightarrow> None | Some v \<Rightarrow> v, c')"
    "links_ok c'" "entries c' = lru_touch k (entries c)" "m_size c' = m_size c" "m_idleTimeout c' = m_idleTimeout c"
    "m_updateTimeout c' = m_updateTimeout c" "\<forall>i \<in> set (m_used c'). it_ready (m_items c' i)"
    using lookup_entries [of c k tc tm tv] assms by (auto simp: seq_ok_def)
  moreover have "length (m_used c') \<le> length (m_used c)"
    using c'(3) lru_touch_length [of k "entries c"] by (metis entries_def length_map)
  ultimately show thesis using assms by (intro that [of c']) (auto simp: seq_ok_def within_size_def capacity_def)
qed

lemma seq_put:
  assumes "seq_ok c"
  obtains c' where "cache_set k v tm tv c = Some c'" "seq_ok c'" "capacity c' = capacity c"
    "entries c' = lru_put (capacity c) k v (entries c)"
  using set_entries [of c k v tm tv] assms by (auto simp: seq_ok_def)

lemma cache_ops_seq: "seq_ok c \<Longrightarrow> cache_ops t c ops = Some (lru_ops (capacity c) (entries c) ops)"
proof (induction ops arbitrary: c)
  case Nil
  show ?case by simp
next
  case (Cons op ops)
  show ?case
  proof (cases op)
    case (Put k v)
    from Cons.prems obtain c' where c': "cache_set k v t t c = Some c'" "seq_ok c'" "capacity c' = capacity c"
      "entries c' = lru_put (capacity c) k v (entries c)" by (rule seq_put)
    with Put Cons.IH [OF c'(2)] show ?thesis by simp
  next
    case (Get k)
    from Cons.prems obtain c' where c':
      "cache_lookup k None t t t c = Some (case map_of (entries c) k of None \<Rightarrow> None | Some v \<Rightarrow> v, c')"
      "seq_ok c'" "capacity c' = capacity c" "entries c' = lru_touch k (entries c)" by (rule seq_get)
    with Get Cons.IH [OF c'(2)] show ?thesis by simp
  qed
qed

section \<open>Properties\<close>

text \<open>
  C8: in every state an interleaving of the methods reaches, the map and the two lists link the same
  entries, each once and under its own key, the lists agree in their order, and there are no more
  entries than the size allows.
\<close>

theorem lru_invariant:
  assumes "cache_run (c, P)"
  shows "m_expired c = m_used c \<and> distinct (m_used c) \<and>
    (\<forall>k i. m_map c k = Some i \<longleftrightarrow> i \<in> set (m_used c) \<and> it_key (m_items c i) = k) \<and>
    length (m_used c) \<le> to_size_t (m_size c)"
  using run_inv [OF assms] by (simp add: cache_inv_def links_ok_def within_size_def capacity_def)

text \<open>A run in which one thread resolves an entry that another evicts.\<close>

lemma to_size_t_one: "to_size_t 1 = 1"
  by (simp add: to_size_t_def)

lemmas cache_eval = lookup_lock_def clean_expired_def find_item_def find_map_def new_cache_def blank_item_def
  clean_used.simps to_size_t_one

lemma sample_run:
  obtains c where "cache_run (c, {0})" "m_used (c :: nat cache) = [0]" "m_map c ''a'' = Some 0" "m_next c = 1"
proof -
  obtain c :: "nat cache" where c: "lookup_lock ''a'' True 0 0 0 (new_cache 1 0 0) = Some (Resolve 0, c)"
    "m_used c = [0]" "m_map c ''a'' = Some 0" "m_next c = 1" by (simp add: cache_eval)
  from cache_run.more [OF cache_run.start cache_step.lookup_step [OF c(1)]] c(2-4)
  show thesis by (intro that) simp_all
qed

theorem lru_invariant_witness:
  "\<exists>c :: nat cache. cache_run (c, {0}) \<and> m_used c = [0] \<and> m_expired c = [0]"
proof -
  obtain c :: "nat cache" where "cache_run (c, {0})" "m_used c = [0]" by (rule sample_run)
  with lru_invariant [OF this(1)] show ?thesis by auto
qed

text \<open>
  C9: nobody waits in vain: the locked part of a lookup always ends, the entry it hands out to wait for
  is complete or is being resolved by a thread, and a resolver that returns, with a value or without,
  completes its entry even when that entry was evicted meanwhile.
\<close>

theorem lru_no_lost_wait:
  assumes "cache_run (c, P)"
  shows "(\<exists>r c'. lookup_lock k b tc tm tv c = Some (r, c') \<and>
      (\<forall>i. r = Await i \<longrightarrow> it_ready (m_items c' i) \<or> i \<in> P)) \<and>
    (\<forall>i \<in> P. \<forall>res. it_ready (m_items (resolved i res c) i))"
proof -
  have i: "cache_inv (c, P)" by (rule run_inv [OF assms])
  obtain r c' where r: "lookup_lock k b tc tm tv c = Some (r, c')"
    "cache_inv (c', case r of Resolve i \<Rightarrow> insert i P | _ \<Rightarrow> P)" "\<forall>i. r = Await i \<or> r = Resolve i \<longrightarrow> i < m_next c'"
    using lookup_inv [OF i] by blast
  then have "\<forall>j. r = Await j \<longrightarrow> it_ready (m_items c' j) \<or> j \<in> P"
    by (auto simp: cache_inv_def awaited_ok_def)
  with r(1) resolved_inv [OF i] show ?thesis by blast
qed

theorem lru_no_lost_wait_witness:
  "\<exists>c :: nat cache. cache_run (c, {0}) \<and> it_ready (m_items (resolved 0 None c) 0)"
proof -
  obtain c :: "nat cache" where "cache_run (c, {0})" by (rule sample_run)
  with lru_no_lost_wait [OF this, of "[]" False 0 0 0] show ?thesis by auto
qed

text \<open>
  C10: used by one thread at a time and without timeouts, the cache answers exactly as a list of entries
  in the order of their last use that is cut at the size after every insertion.
\<close>

theorem lru_refines_list:
  assumes "0 \<le> n" "n < 2 ^ 31"
  shows "cache_ops t (new_cache n 0 0) ops = Some (lru_ops (nat n) [] ops)"
proof -
  have "seq_ok (new_cache n 0 0 :: 'v cache)" "entries (new_cache n 0 0 :: 'v cache) = []"
    by (simp_all add: seq_ok_def links_ok_def within_size_def new_cache_def blank_item_def entries_def)
  moreover have "capacity (new_cache n 0 0 :: 'v cache) = nat n"
    using assms by (simp add: capacity_def new_cache_def to_size_t_def)
  ultimately show ?thesis by (metis cache_ops_seq)
qed

theorem lru_refines_list_witness:
  "cache_ops 0 (new_cache 2 0 0) [Put ''a'' (1::nat), Put ''b'' 2, Get ''a'', Put ''c'' 3, Get ''b'', Get ''a''] =
     Some [Some 1, None, Some 1]"
  using lru_refines_list [of 2 0 "[Put ''a'' (1::nat), Put ''b'' 2, Get ''a'', Put ''c'' 3, Get ''b'', Get ''a'']"]
  by (simp add: lru_put_def lru_touch_def lru_drop_def numeral_eq_Suc)

text \<open>
  Setting the value of an existing entry does not renew its age: a lookup at a time the update
  timeout has passed since the entry was first made misses it, however recent the set.
\<close>

lemma lru_set_keeps_age:
  assumes "links_ok c" "find_map k tm c = (Some i, c)" "m_map c k = Some i" "0 < m_updateTimeout c"
    "ms_count (t - it_updated (m_items c i)) \<ge> m_updateTimeout c * 1000"
  shows "\<exists>c' c''. cache_set k v tm tv c = Some c' \<and> lookup_lock k False tc t tv' c' = Some (Missed, c'')"
proof -
  obtain c1 where c1: "find_item k True tm tv c = Some (Some i, False, c1)" "links_ok c1" "m_used c1 = i # used_without k c"
    "others_kept i c c1" "it_key (m_items c1 i) = k" "it_updated (m_items c1 i) = it_updated (m_items c i)"
    by (rule find_item_hit [OF assms(1-3), of True])
  let ?c = "upd_item i (\<lambda>it. it\<lparr>it_value := Some v, it_ready := True\<rparr>) c1"
  have l: "links_ok ?c" using c1(2) by (auto simp: links_ok_def upd_item_def)
  obtain c2 n where c2: "clean_expired tc ?c = Some c2" "links_ok c2" "m_used c2 = take n (m_used ?c)" "same_contents ?c c2"
    using clean_expired_spec [OF l] by blast
  have "find_map k t c2 = (None, snd (find_map k t c2))"
    using c2(2)
  proof (cases rule: find_map_spec [of c2 k t])
    case (hit j)
    then have "j \<in> set (m_used ?c)" "it_key (m_items ?c j) = k"
      using links_okD(5) [OF c2(2), of k j] c2(3,4) set_take_subset [of n "m_used ?c"] by (auto simp: same_contents_def)
    then have "j = i" using c1(3,4,5) by (auto simp: upd_item_def used_without_def others_kept_def split: if_splits)
    moreover have "it_updated (m_items c2 i) = it_updated (m_items c i)" "m_updateTimeout c2 = m_updateTimeout c"
      using c2(4) c1(4,6) by (simp_all add: same_contents_def upd_item_def others_kept_def)
    ultimately show ?thesis using hit assms(4,5) by (auto simp: find_map_def)
  qed simp
  then obtain c3 where "find_map k t c2 = (None, c3)" by metis
  then have "lookup_lock k False tc t tv' ?c = Some (Missed, c3)"
    using c2(1) by (simp add: lookup_lock_def find_item_def)
  moreover have "cache_set k v tm tv c = Some ?c" by (simp add: cache_set_def c1(1))
  ultimately show ?thesis by blast
qed

theorem lru_set_keeps_age_witness:
  "\<exists>c :: nat cache. m_map c ''a'' = Some 0 \<and>
     (\<exists>c' c''. cache_set ''a'' 7 9000000000 9000000000 c = Some c' \<and>
        lookup_lock ''a'' False 10000000000 10000000000 10000000000 c' = Some (Missed, c''))"
proof -
  obtain c :: "nat cache" where c: "cache_set ''a'' 5 0 0 (new_cache 1 10 10) = Some c" "m_map c ''a'' = Some 0"
    "it_updated (m_items c 0) = 0" "m_updateTimeout c = 10"
    by (simp add: cache_set_def cache_eval upd_item_def)
  have "cache_inv (c, {})"
    using set_inv [OF new_cache_inv [of 1 10 10], of "''a''" "5 :: nat" 0 0] c(1) by auto
  then have l: "links_ok c" by (simp add: cache_inv_def)
  have f: "find_map ''a'' 9000000000 c = (Some 0, c)" using c(2-4) by (simp add: find_map_def ms_count_def)
  have a: "ms_count (10000000000 - it_updated (m_items c 0)) \<ge> m_updateTimeout c * 1000"
    using c(3,4) by (simp add: ms_count_def)
  from lru_set_keeps_age [OF l f c(2) _ a, of 7 9000000000 10000000000 10000000000] c(2,4) show ?thesis by auto
qed

end
