(* ===== verification/PathPosix.thy ===== *)
theory PathPosix
  imports Prelude
begin

text \<open>
  The POSIX half of \<^verbatim>\<open>include/path.h\<close>, the path arithmetic behind the modules \<open>path\<close> and
  \<open>path/posix\<close> (\<^verbatim>\<open>src/fs/path_posix.cpp\<close>): splitting a path into its segments, the in-place
  normalisation of the segment vector, \<open>join\<close> and \<open>resolve\<close> over the buffer of the class \<open>Path\<close>,
  \<open>basename\<close>, \<open>extname\<close>, \<open>dirname\<close>, \<open>parse\<close>, \<open>format\<close> and \<open>relative\<close>. A C string is a
  \<^typ>\<open>string\<close> and a pointer into it an index; \<open>cstr s i\<close> is the character there, the terminating
  NUL at the end. The working directory, which the code asks the process for, is an argument.
\<close>

section \<open>C strings\<close>

definition nul :: char where
  "nul = char_of (0 :: nat)"

definition cstr :: "string \<Rightarrow> nat \<Rightarrow> char" where
  "cstr s i = (if i < length s then s ! i else nul)"

text \<open>\<open>substr (pos)\<close> and \<open>substr (pos, n)\<close> for \<open>pos\<close> inside the string.\<close>

definition substr_from :: "string \<Rightarrow> nat \<Rightarrow> string" where
  "substr_from s i = drop i s"

definition substr :: "string \<Rightarrow> nat \<Rightarrow> nat \<Rightarrow> string" where
  "substr s i n = take n (drop i s)"

text \<open>\<open>while (i > lo && P (s[i])) i--;\<close>, the same reading the character before, and \<open>while (P (s[i])) i++;\<close>\<close>

fun back_while :: "(char \<Rightarrow> bool) \<Rightarrow> string \<Rightarrow> nat \<Rightarrow> nat \<Rightarrow> nat" where
  "back_while P s lo i = (if lo < i \<and> P (cstr s i) then back_while P s lo (i - 1) else i)"

fun back_before :: "(char \<Rightarrow> bool) \<Rightarrow> string \<Rightarrow> nat \<Rightarrow> nat \<Rightarrow> nat" where
  "back_before P s lo i = (if lo < i \<and> P (cstr s (i - 1)) then back_before P s lo (i - 1) else i)"

function fwd_while :: "(char \<Rightarrow> bool) \<Rightarrow> string \<Rightarrow> nat \<Rightarrow> nat \<Rightarrow> nat" where
  "fwd_while P s hi i = (if i < hi \<and> P (cstr s i) then fwd_while P s hi (Suc i) else i)"
  by pat_completeness auto
termination by (relation "measure (\<lambda>(P, s, hi, i). hi - i)") auto

declare back_while.simps [simp del] back_before.simps [simp del] fwd_while.simps [simp del]

text \<open>\<open>qstrcmp\<close> with a positive size: the difference of the first characters that differ.\<close>

fun qstrcmp :: "string \<Rightarrow> string \<Rightarrow> nat \<Rightarrow> int" where
  "qstrcmp s1 s2 0 = 0"
| "qstrcmp [] s2 (Suc n) = - schar (cstr s2 0)"
| "qstrcmp (c # s1) s2 (Suc n) =
     (if c = nul then - schar (cstr s2 0)
      else if schar c - schar (cstr s2 0) \<noteq> 0 then schar c - schar (cstr s2 0)
      else if n = 0 then 0
      else qstrcmp s1 (tl s2) n)"

definition qisascii :: "char \<Rightarrow> bool" where
  "qisascii ch \<longleftrightarrow> (schar CHR ''a'' \<le> schar ch \<and> schar ch \<le> schar CHR ''z'')
     \<or> (schar CHR ''A'' \<le> schar ch \<and> schar ch \<le> schar CHR ''Z'')"

definition isPosixPathSlash :: "char \<Rightarrow> bool" where
  "isPosixPathSlash ch \<longleftrightarrow> ch = CHR ''/''"

definition isWin32PathSlash :: "char \<Rightarrow> bool" where
  "isWin32PathSlash ch \<longleftrightarrow> ch = CHR ''/'' \<or> ch = CHR 0x5C"

section \<open>The buffer of the class \<open>Path\<close>\<close>

record path_buf =
  m_buf :: string
  m_disks :: "string list"

definition new_path :: path_buf where
  "new_path = \<lparr>m_buf = [], m_disks = replicate 27 []\<rparr>"

definition resolvePosix :: "string \<Rightarrow> path_buf \<Rightarrow> path_buf" where
  "resolvePosix other p =
     (if other = [] then p
      else if isPosixPathSlash (cstr other 0) \<or> m_buf p = [] then p\<lparr>m_buf := other\<rparr>
      else p\<lparr>m_buf := m_buf p
                 @ (if isPosixPathSlash (last (m_buf p)) then [] else [CHR ''/'']) @ other\<rparr>)"

definition joinPosix :: "string \<Rightarrow> path_buf \<Rightarrow> path_buf" where
  "joinPosix other p =
     (if other = [] then p
      else p\<lparr>m_buf := m_buf p
                 @ (if m_buf p \<noteq> [] \<and> \<not> isPosixPathSlash (last (m_buf p)) then [CHR ''/''] else [])
                 @ other\<rparr>)"

section \<open>The segment vector\<close>

definition erase_at :: "nat \<Rightarrow> 'a list \<Rightarrow> 'a list" where
  "erase_at i a = take i a @ drop (Suc i) a"

definition erase_range :: "nat \<Rightarrow> nat \<Rightarrow> 'a list \<Rightarrow> 'a list" where
  "erase_range i j a = take i a @ drop j a"

text \<open>\<open>_path_array\<close>: the loop keeps the start \<open>p1\<close> of the segment that is being read.\<close>

function path_array_loop :: "string \<Rightarrow> nat \<Rightarrow> nat \<Rightarrow> string list \<Rightarrow> string list" where
  "path_array_loop p p1 i a =
     (if i < length p
      then if isPosixPathSlash (cstr p i)
           then path_array_loop p (Suc i) (Suc i) (a @ [substr p p1 (i - p1)])
           else path_array_loop p p1 (Suc i) a
      else a @ [substr p p1 (i - p1)])"
  by pat_completeness auto
termination by (relation "measure (\<lambda>(p, p1, i, a). length p - i)") auto

definition path_array :: "string \<Rightarrow> string list" where
  "path_array p = path_array_loop p 0 0 []"

text \<open>
  \<open>_normalize_array\<close>. The first loop erases the empty segments strictly inside the vector; the second
  walks over it and erases \<open>.\<close> and \<open>..\<close> with the segment before it. An early \<open>return\<close> of the
  function inside the second loop is \<open>Returned\<close>; it skips the removal of the trailing slash.
\<close>

datatype walk = Returned "string list" | Walked "string list"

function squeeze :: "nat \<Rightarrow> string list \<Rightarrow> string list" where
  "squeeze i a =
     (if Suc i < length a
      then if a ! i = [] then squeeze i (erase_at i a) else squeeze (Suc i) a
      else a)"
  by pat_completeness auto
termination by (relation "measure (\<lambda>(i, a). length a - i)") (auto simp: erase_at_def)

function walk_segments :: "nat \<Rightarrow> string list \<Rightarrow> walk" where
  "walk_segments i a =
     (if i < length a
      then if a ! i = ''.''
           then if length a = 1 then Returned a
                else if i = 0 \<and> length a = 2 \<and> a ! 1 = [] then Returned a
                else if i = 1 \<and> length a = 2 \<and> a ! 0 = [] then Returned (a[1 := []])
                else walk_segments i (erase_at i a)
           else if a ! i = ''..''
           then if i = 1 \<and> a ! 0 = []
                then if length a = 2 then Returned (a[1 := []])
                     else walk_segments i (erase_at i a)
                else if i > 0 \<and> a ! (i - 1) \<noteq> [] \<and> a ! (i - 1) \<noteq> ''..''
                then walk_segments (i - 1) (erase_range (i - 1) (i + 1) a)
                else walk_segments (Suc i) a
           else walk_segments (Suc i) a
      else Walked a)"
  by pat_completeness auto
termination
  by (relation "measure (\<lambda>(i, a). length a - i)") (auto simp: erase_at_def erase_range_def)

declare squeeze.simps [simp del] walk_segments.simps [simp del] path_array_loop.simps [simp del]

definition remove_trailing :: "string list \<Rightarrow> string list" where
  "remove_trailing a =
     (if length a > 1 \<and> a ! (length a - 1) = [] \<and> a ! (length a - 2) \<noteq> []
      then erase_at (length a - 1) a else a)"

definition normalize_array :: "bool \<Rightarrow> string list \<Rightarrow> string list" where
  "normalize_array removeSlash a =
     (if length a = 1 \<and> (a ! 0 = [] \<or> a ! 0 = ''.'') then a[0 := ''.'']
      else case walk_segments 0 (squeeze 1 a) of
        Returned b \<Rightarrow> b
      | Walked b \<Rightarrow> if removeSlash then remove_trailing b else b)"

fun join_segments :: "char \<Rightarrow> string list \<Rightarrow> string" where
  "join_segments sep [] = []"
| "join_segments sep [s] = s"
| "join_segments sep (s # t # ss) = s @ sep # join_segments sep (t # ss)"

definition normalize_posix :: "bool \<Rightarrow> bool \<Rightarrow> string \<Rightarrow> string" where
  "normalize_posix removeSlash root path =
     (let a = normalize_array removeSlash (path_array path)
      in join_segments CHR ''/'' a @ (if root \<and> length a = 1 \<and> a ! 0 = [] then [CHR ''/''] else []))"

section \<open>Join, resolve, fullpath\<close>

text \<open>The overloads of \<open>_join\<close> all run \<open>joinPosix\<close> over their arguments; the one over a vector gives the empty path for none.\<close>

definition path_join :: "string list \<Rightarrow> string" where
  "path_join ps = normalize_posix False False (m_buf (fold joinPosix ps new_path))"

definition path_join_vector :: "string list \<Rightarrow> string" where
  "path_join_vector ps = (if ps = [] then [] else normalize_posix False False (m_buf (fold joinPosix ps new_path)))"

definition path_resolve :: "string \<Rightarrow> string list \<Rightarrow> string" where
  "path_resolve cwd ps =
     normalize_posix True True (m_buf (fold resolvePosix ps (resolvePosix cwd new_path)))"

definition path_resolve1 :: "string \<Rightarrow> string \<Rightarrow> string" where
  "path_resolve1 cwd path =
     normalize_posix True True (m_buf (resolvePosix path (resolvePosix cwd new_path)))"

definition resolvePath :: "string \<Rightarrow> string \<Rightarrow> string" where
  "resolvePath strBuffer other = m_buf (resolvePosix other (resolvePosix strBuffer new_path))"

definition path_fullpath :: "string \<Rightarrow> string \<Rightarrow> string" where
  "path_fullpath cwd path =
     (if isPosixPathSlash (cstr path 0) then normalize_posix False False path
      else normalize_posix False False (cwd @ CHR ''/'' # path))"

definition path_isAbsolute :: "string \<Rightarrow> bool" where
  "path_isAbsolute path \<longleftrightarrow> isPosixPathSlash (cstr path 0)"

section \<open>The parts of a path\<close>

definition split_path :: "string \<Rightarrow> nat \<Rightarrow> nat" where
  "split_path p len =
     (if len = 0 then 0
      else back_while (\<lambda>c. \<not> isPosixPathSlash c) p 0 (back_while isPosixPathSlash p 0 (len - 1)))"

text \<open>The range \<open>[p2, p3)\<close> of the last segment, without the slashes around it.\<close>

definition last_segment :: "string \<Rightarrow> nat \<times> nat" where
  "last_segment path =
     (let p2 = fwd_while isPosixPathSlash path (length path) (split_path path (length path));
          p3 = back_before isPosixPathSlash path p2 (length path)
      in (p2, p3))"

text \<open>
  \<open>_basename\<close>. The first comparison with the extension may start before the path, which
  \<open>None\<close> stands for: the memory it then reads is not the program's to read.
\<close>

definition strip_ext :: "string \<Rightarrow> string \<Rightarrow> nat \<times> nat \<Rightarrow> nat option" where
  "strip_ext path ext r = (case r of (p2, p3) \<Rightarrow>
     let extlen = length ext in
     if extlen = 0 then Some p3
     else if p2 = 0 \<and> extlen = length path \<and> p3 < extlen then None
     else if p2 = 0 \<and> extlen = length path \<and> qstrcmp ext (drop (p3 - extlen) path) extlen = 0
     then Some (p3 - extlen)
     else if p3 - p2 > extlen \<and> qstrcmp ext (drop (p3 - extlen) path) extlen = 0
     then Some (p3 - extlen)
     else Some p3)"

definition path_basename :: "string \<Rightarrow> string \<Rightarrow> string option" where
  "path_basename path ext =
     (let (p2, p3) = last_segment path
      in map_option (\<lambda>p3. substr path p2 (p3 - p2)) (strip_ext path ext (p2, p3)))"

definition ext_of_segment :: "string \<Rightarrow> nat \<times> nat \<Rightarrow> string" where
  "ext_of_segment path r = (case r of (p2, p3) \<Rightarrow>
     if p3 - p2 = 2 \<and> cstr path p2 = CHR ''.'' \<and> cstr path (p2 + 1) = CHR ''.'' then []
     else let p4 = back_before (\<lambda>c. c \<noteq> CHR ''.'') path (p2 + 1) p3
          in if p4 > p2 + 1 then substr path (p4 - 1) (p3 - p4 + 1) else [])"

definition path_extname :: "string \<Rightarrow> string" where
  "path_extname path = ext_of_segment path (last_segment path)"

text \<open>\<open>retVal.assign (p2, 1)\<close> on the empty path copies the terminating NUL, but the test before it answers \<open>.\<close> there.\<close>

definition path_dirname :: "string \<Rightarrow> string" where
  "path_dirname path =
     (let p2 = split_path path (length path)
      in if p2 = 0 \<and> \<not> isPosixPathSlash (cstr path p2) then ''.''
         else if take p2 path = [] then [cstr path p2]
         else take p2 path)"

section \<open>Parse and format\<close>

record parsed =
  p_root :: string
  p_dir :: string
  p_base :: string
  p_ext :: string
  p_name :: string

definition no_parts :: parsed where
  "no_parts = \<lparr>p_root = [], p_dir = [], p_base = [], p_ext = [], p_name = []\<rparr>"

text \<open>The variables of the backward scan; \<open>-1\<close> means that the position was not found yet.\<close>

record scan_state =
  startDot :: int
  startPart :: int
  scan_end :: int
  matchedSlash :: bool
  preDotState :: int

definition scan_char :: "int \<Rightarrow> char \<Rightarrow> scan_state \<Rightarrow> scan_state" where
  "scan_char i c st =
     (let st1 = (if scan_end st = - 1 then st\<lparr>matchedSlash := False, scan_end := i + 1\<rparr> else st)
      in if c = CHR ''.''
         then if startDot st1 = - 1 then st1\<lparr>startDot := i\<rparr>
              else if preDotState st1 \<noteq> 1 then st1\<lparr>preDotState := 1\<rparr> else st1
         else if startDot st1 \<noteq> - 1 then st1\<lparr>preDotState := - 1\<rparr> else st1)"

function scan_back :: "(char \<Rightarrow> bool) \<Rightarrow> string \<Rightarrow> int \<Rightarrow> int \<Rightarrow> scan_state \<Rightarrow> scan_state" where
  "scan_back slash path start i st =
     (if i \<ge> start
      then if slash (cstr path (nat i))
           then if \<not> matchedSlash st then st\<lparr>startPart := i + 1\<rparr>
                else scan_back slash path start (i - 1) st
           else scan_back slash path start (i - 1) (scan_char i (cstr path (nat i)) st)
      else st)"
  by pat_completeness auto
termination by (relation "measure (\<lambda>(slash, path, start, i, st). nat (i - start + 1))") auto

declare scan_back.simps [simp del]

definition path_slice :: "string \<Rightarrow> int \<Rightarrow> int \<Rightarrow> string" where
  "path_slice path i j = substr path (nat i) (nat (j - i))"

text \<open>The parts of the last segment, which starts at \<open>start\<close>.\<close>

definition fill_base :: "string \<Rightarrow> int \<Rightarrow> scan_state \<Rightarrow> parsed \<Rightarrow> parsed" where
  "fill_base path start st r =
     (if scan_end st = - 1 then r
      else if startDot st = - 1 \<or> preDotState st = 0
              \<or> (preDotState st = 1 \<and> startDot st = scan_end st - 1 \<and> startDot st = startPart st + 1)
      then r\<lparr>p_base := path_slice path start (scan_end st), p_name := path_slice path start (scan_end st)\<rparr>
      else r\<lparr>p_name := path_slice path start (startDot st),
             p_base := path_slice path start (scan_end st),
             p_ext := path_slice path (startDot st) (scan_end st)\<rparr>)"

definition path_parse :: "string \<Rightarrow> parsed" where
  "path_parse path =
     (if path = [] then no_parts
      else let isAbsolute = (path ! 0 = CHR ''/'');
               r = (if isAbsolute then no_parts\<lparr>p_root := ''/''\<rparr> else no_parts);
               start = (if isAbsolute then 1 else 0);
               st = scan_back (\<lambda>c. c = CHR ''/'') path start (int (length path) - 1)
                      \<lparr>startDot = - 1, startPart = 0, scan_end = - 1, matchedSlash = True, preDotState = 0\<rparr>;
               r2 = fill_base path (if startPart st = 0 \<and> isAbsolute then 1 else startPart st) st r
           in if startPart st > 0 then r2\<lparr>p_dir := take (nat (startPart st - 1)) path\<rparr>
              else if isAbsolute then r2\<lparr>p_dir := ''/''\<rparr>
              else r2)"

text \<open>
  \<open>_universal_format\<close>. A property of the object is missing (\<open>undefined\<close> or \<open>null\<close>), a string, or of
  another type, which \<open>GetConfigValue\<close> reports as an error; a missing one leaves its variable as it was.
\<close>

datatype js_field = Missing | Str string | NotString

record path_object =
  o_dir :: js_field
  o_root :: js_field
  o_base :: js_field
  o_name :: js_field
  o_ext :: js_field

datatype path_error = TypeMismatch

definition get_config :: "js_field \<Rightarrow> string \<Rightarrow> path_error + string" where
  "get_config f n = (case f of Missing \<Rightarrow> Inr n | Str s \<Rightarrow> Inr s | NotString \<Rightarrow> Inl TypeMismatch)"

definition bind_result :: "'e + 'a \<Rightarrow> ('a \<Rightarrow> 'e + 'b) \<Rightarrow> 'e + 'b" where
  "bind_result r f = (case r of Inl e \<Rightarrow> Inl e | Inr x \<Rightarrow> f x)"

definition path_format :: "string \<Rightarrow> path_object \<Rightarrow> path_error + string" where
  "path_format sep po =
     bind_result (get_config (o_dir po) []) (\<lambda>dir.
     bind_result (get_config (o_root po) []) (\<lambda>root.
     let dirFromRoot = (dir = []);
         dir = (if dir = [] then root else dir)
     in bind_result (get_config (o_base po) []) (\<lambda>base.
        bind_result
          (if base = []
           then bind_result (get_config (o_name po) []) (\<lambda>tmp.
                bind_result (get_config (o_ext po) tmp) (\<lambda>tmp2. Inr (tmp @ tmp2)))
           else Inr base) (\<lambda>base.
        Inr (if dir = [] then base
             else if dirFromRoot \<or> dir = root then dir @ base else dir @ sep @ base)))))"

section \<open>Relative\<close>

text \<open>
  The comparison loop of \<open>_relative\<close>. It either returns from the function with a suffix of
  \<open>to\<close>, or leaves \<open>lastCommonSep\<close>.
\<close>

datatype common = Suffix string | LastSep int

function common_prefix ::
    "string \<Rightarrow> string \<Rightarrow> nat \<Rightarrow> nat \<Rightarrow> nat \<Rightarrow> nat \<Rightarrow> nat \<Rightarrow> nat \<Rightarrow> int \<Rightarrow> common" where
  "common_prefix from to fromStart toStart fromLen toLen len i lastSep =
     (if i \<le> len
      then if i = len
           then if toLen > len
                then if isPosixPathSlash (cstr to (toStart + i))
                     then Suffix (substr_from to (toStart + i + 1))
                     else if i = 0 then Suffix (substr_from to (toStart + i))
                     else LastSep lastSep
                else if fromLen > len
                then if isPosixPathSlash (cstr from (fromStart + i)) then LastSep (int i)
                     else if i = 0 then LastSep 0
                     else LastSep lastSep
                else LastSep lastSep
           else if cstr from (fromStart + i) \<noteq> cstr to (toStart + i) then LastSep lastSep
           else common_prefix from to fromStart toStart fromLen toLen len (Suc i)
                  (if isPosixPathSlash (cstr from (fromStart + i)) then int i else lastSep)
      else LastSep lastSep)"
  by pat_completeness auto
termination by (relation "measure (\<lambda>(f, t, fs, ts, fl, tl, len, i, sep). Suc len - i)") auto

text \<open>The loop that appends \<open>..\<close> for every segment of \<open>from\<close> after the common part.\<close>

function dots_up :: "(char \<Rightarrow> bool) \<Rightarrow> string \<Rightarrow> string \<Rightarrow> nat \<Rightarrow> nat \<Rightarrow> string \<Rightarrow> string" where
  "dots_up slash up from fromEnd i out =
     (if i \<le> fromEnd
      then dots_up slash up from fromEnd (Suc i)
             (if i = fromEnd \<or> slash (cstr from i) then if out = [] then ''..'' else out @ up else out)
      else out)"
  by pat_completeness auto
termination by (relation "measure (\<lambda>(s, u, f, fe, i, out). Suc fe - i)") auto

declare common_prefix.simps [simp del] dots_up.simps [simp del]

definition relative_resolved :: "string \<Rightarrow> string \<Rightarrow> string" where
  "relative_resolved from to =
     (let fromStart = fwd_while isPosixPathSlash from (length from) 1;
          fromLen = length from - fromStart;
          toStart = fwd_while isPosixPathSlash to (length to) 1;
          toLen = length to - toStart;
          len = min fromLen toLen
      in case common_prefix from to fromStart toStart fromLen toLen len 0 (- 1) of
        Suffix s \<Rightarrow> normalize_posix False False s
      | LastSep sep \<Rightarrow>
          let out = dots_up isPosixPathSlash ''/..'' from (length from)
                      (nat (int fromStart + sep + 1)) [];
              t = nat (int toStart + sep)
          in if out \<noteq> [] then normalize_posix False False (out @ substr_from to t)
             else normalize_posix False False
                    (substr_from to (if isPosixPathSlash (cstr to t) then t + 1 else t)))"

definition path_relative :: "string \<Rightarrow> string \<Rightarrow> string \<Rightarrow> string" where
  "path_relative cwd from to =
     (if from = to then []
      else let from = path_resolve1 cwd from; to = path_resolve1 cwd to
           in if from = to then [] else relative_resolved from to)"

end
