(* ===== verification/PathSpec.thy ===== *)
theory PathSpec
  imports PathPosix
begin

text \<open>
  What the POSIX path operations compute. A path denotes a list of names, and entering a name moves a
  stack: \<open>.\<close> stays, \<open>..\<close> leaves the directory on top, or climbs above the start of a relative path.
  The in-place walk of \<open>_normalize_array\<close> is compared with this stack through a zipper that splits the
  vector at the index: \<open>normalize\<close> joins the stack again, except that it gives the empty string when
  the last \<open>..\<close> empties it (\<open>posix_normalize\<close>); \<open>resolve\<close> enters its arguments one after the other
  (\<open>posix_resolve\<close>); and \<open>relative\<close> gives a path that leads from the one directory to the other
  (\<open>posix_relative\<close>).
\<close>

section \<open>Names and the directory stack\<close>

fun split_slash :: "string \<Rightarrow> string list" where
  "split_slash [] = [[]]"
| "split_slash (c # cs) =
     (if c = CHR ''/'' then [] # split_slash cs
      else (c # hd (split_slash cs)) # tl (split_slash cs))"

definition names :: "string \<Rightarrow> string list" where
  "names p = filter (\<lambda>s. s \<noteq> []) (split_slash p)"

definition absolute :: "string \<Rightarrow> bool" where
  "absolute p \<longleftrightarrow> p \<noteq> [] \<and> hd p = CHR ''/''"

definition trailing :: "string \<Rightarrow> bool" where
  "trailing p \<longleftrightarrow> p \<noteq> [] \<and> last p = CHR ''/''"

fun enter :: "bool \<Rightarrow> string \<Rightarrow> string list \<Rightarrow> string list" where
  "enter ab s st =
     (if s = [] \<or> s = ''.'' then st
      else if s = ''..'' then
        (case st of [] \<Rightarrow> (if ab then [] else [''..''])
         | t # ts \<Rightarrow> if t = ''..'' then ''..'' # st else ts)
      else s # st)"

declare enter.simps [simp del]

definition enter_all :: "bool \<Rightarrow> string list \<Rightarrow> string list \<Rightarrow> string list" where
  "enter_all ab ss st = fold (enter ab) ss st"

lemma split_slash_ne [simp]: "split_slash p \<noteq> []"
  by (cases p) auto

lemma path_array_loop_split:
  "i \<le> length p \<Longrightarrow> p1 \<le> i \<Longrightarrow> (\<forall>j. p1 \<le> j \<and> j < i \<longrightarrow> p ! j \<noteq> CHR ''/'') \<Longrightarrow>
     path_array_loop p p1 i a = a @ (take (i - p1) (drop p1 p) @ hd (split_slash (drop i p)))
        # tl (split_slash (drop i p))"
proof (induction p p1 i a rule: path_array_loop.induct)
  case (1 p p1 i a)
  show ?case
  proof (cases "i < length p")
    case False
    with 1(3,4) show ?thesis
      by (subst path_array_loop.simps) (simp add: substr_def)
  next
    case True
    then have d: "drop i p = p ! i # drop (Suc i) p"
      by (rule drop_eq_Cons_nth)
    show ?thesis
    proof (cases "p ! i = CHR ''/''")
      case slash: True
      from True slash show ?thesis
        by (subst path_array_loop.simps)
          (use 1 in \<open>auto simp: isPosixPathSlash_def cstr_def substr_def d\<close>)
    next
      case noslash: False
      have tk: "take (Suc i - p1) (drop p1 p) = take (i - p1) (drop p1 p) @ [p ! i]"
        using True 1(4) by (simp add: Suc_diff_le take_Suc_conv_app_nth)
      from True noslash show ?thesis
        apply (subst path_array_loop.simps)
        using 1 tk by (auto simp: isPosixPathSlash_def cstr_def substr_def d less_Suc_eq)
    qed
  qed
qed

lemma path_array_split: "path_array p = split_slash p"
  by (simp add: path_array_def path_array_loop_split [of 0 p 0])

lemma hd_split_slash: "hd (split_slash p) = [] \<longleftrightarrow> p = [] \<or> hd p = CHR ''/''"
  by (cases p) auto

lemma length_split_slash: "length (split_slash p) = 1 \<longleftrightarrow> CHR ''/'' \<notin> set p"
proof (induction p)
  case (Cons c p)
  then show ?case by (cases "split_slash p") auto
qed simp

lemma last_split_slash: "last (split_slash p) = [] \<longleftrightarrow> p = [] \<or> last p = CHR ''/''"
proof (induction p)
  case (Cons c p)
  obtain x xs where x: "split_slash p = x # xs" by (cases "split_slash p") auto
  show ?case
  proof (cases xs)
    case Nil
    then have "CHR ''/'' \<notin> set p" using length_split_slash [of p] x by simp
    then show ?thesis using Cons.IH x Nil by (auto dest: last_in_set)
  next
    case (Cons y ys)
    then show ?thesis using Cons.IH x by auto
  qed
qed simp

lemma squeeze_mid:
  "squeeze (length xs) (xs @ m @ [y]) = xs @ filter (\<lambda>s. s \<noteq> []) m @ [y]" if "xs \<noteq> []"
  using that
proof (induction m arbitrary: xs)
  case (Cons s m)
  then show ?case
    using Cons.IH [of "xs @ [s]"]
    by (subst squeeze.simps) (auto simp: erase_at_def nth_append)
qed (simp add: squeeze.simps)

lemma squeeze_single: "squeeze (Suc 0) [x] = [x]"
  by (simp add: squeeze.simps)

lemma squeeze_segments:
  assumes "p \<noteq> []"
  shows "squeeze 1 (split_slash p) =
     (if absolute p then [[]] else []) @ names p @ (if trailing p then [[]] else [])"
proof (cases "length (split_slash p) = 1")
  case True
  then obtain x where x: "split_slash p = [x]" by (auto simp: length_Suc_conv)
  have "CHR ''/'' \<notin> set p" using True length_split_slash by blast
  with assms have "\<not> absolute p" "\<not> trailing p"
    by (auto simp: absolute_def trailing_def dest: hd_in_set last_in_set)
  moreover from x have "x \<noteq> []" using hd_split_slash [of p] assms \<open>\<not> absolute p\<close> by (simp add: absolute_def)
  ultimately show ?thesis using x by (simp add: names_def squeeze_single)
next
  case False
  then obtain x m y where x: "split_slash p = [x] @ m @ [y]"
    by (metis One_nat_def append_Cons append_Nil length_Cons list.size(3) neq_Nil_conv rev_exhaust split_slash_ne)
  have "x = [] \<longleftrightarrow> absolute p" "y = [] \<longleftrightarrow> trailing p"
    using hd_split_slash [of p] last_split_slash [of p] assms x by (auto simp: absolute_def trailing_def)
  then show ?thesis
    using squeeze_mid [of "[x]" m y] x by (auto simp: names_def)
qed

fun zwalk :: "string list \<Rightarrow> string list \<Rightarrow> walk" where
  "zwalk d [] = Walked (rev d)"
| "zwalk d (n # t) =
     (if n = ''.''
      then if d = [] \<and> t = [] then Returned [''.'']
           else if d = [] \<and> t = [[]] then Returned [''.'', []]
           else if d = [[]] \<and> t = [] then Returned [[], []]
           else zwalk d t
      else if n = ''..''
      then if d = [[]] then if t = [] then Returned [[], []] else zwalk d t
           else if d \<noteq> [] \<and> hd d \<noteq> [] \<and> hd d \<noteq> ''..'' then zwalk (tl d) t
           else zwalk (''..'' # d) t
      else zwalk (n # d) t)"

lemma walk_zwalk: "walk_segments (length d) (rev d @ t) = zwalk d t"
proof (induction d t rule: zwalk.induct)
  case (1 d)
  show ?case by (subst walk_segments.simps) simp
next
  case (2 d n t)
  have at: "(rev d @ n # t) ! length d = n" by (simp add: nth_append)
  have er: "erase_at (length d) (rev d @ n # t) = rev d @ t" by (simp add: erase_at_def)
  show ?case
  proof (cases d)
    case Nil
    with 2 show ?thesis
      by (subst walk_segments.simps) (auto simp: erase_at_def neq_Nil_conv Suc_length_conv split: if_splits)
  next
    case (Cons x d')
    have "(rev d @ n # t) ! (length d - 1) = x" "d' = [] \<Longrightarrow> (rev d @ n # t) ! 0 = x"
      using Cons by (simp_all add: nth_append)
    moreover have "erase_range (length d - 1) (length d + 1) (rev d @ n # t) = rev d' @ t"
      using Cons by (simp add: erase_range_def)
    ultimately show ?thesis
      using 2 Cons at er
      apply (subst walk_segments.simps)
      apply (auto simp: nth_append)
      done
  qed
qed


lemma enter_all_simps [simp]:
  "enter_all ab [] st = st" "enter_all ab (s # ss) st = enter_all ab ss (enter ab s st)"
  "enter_all ab (ss @ ss') st = enter_all ab ss' (enter_all ab ss st)"
  by (simp_all add: enter_all_def)

definition collapses :: "bool \<Rightarrow> string list \<Rightarrow> string list \<Rightarrow> bool" where
  "collapses ab ss st \<longleftrightarrow>
     ss \<noteq> [] \<and> last ss = ''..'' \<and> enter_all ab ss st = [] \<and> enter_all ab (butlast ss) st \<noteq> []"

lemma collapses_single: "collapses ab [n] st \<longleftrightarrow> n = ''..'' \<and> enter ab n st = [] \<and> st \<noteq> []"
  by (auto simp: collapses_def)

lemma collapses_Cons: "ss \<noteq> [] \<Longrightarrow> collapses ab (n # ss) st \<longleftrightarrow> collapses ab ss (enter ab n st)"
  by (auto simp: collapses_def)

lemma enter_cases [simp]:
  "enter ab ''.'' st = st"
  "enter True ''..'' [] = []" "enter False ''..'' [] = [''..'']"
  "enter ab ''..'' (''..'' # ts) = ''..'' # ''..'' # ts"
  "t \<noteq> ''..'' \<Longrightarrow> enter ab ''..'' (t # ts) = ts"
  "s \<noteq> [] \<Longrightarrow> s \<noteq> ''.'' \<Longrightarrow> s \<noteq> ''..'' \<Longrightarrow> enter ab s st = s # st"
  by (simp_all add: enter.simps)

lemma segment_cases [case_names dot up name]:
  assumes "s = ''.'' \<Longrightarrow> P" "s = ''..'' \<Longrightarrow> P" "s \<noteq> ''.'' \<Longrightarrow> s \<noteq> ''..'' \<Longrightarrow> P"
  shows P
  using assms by blast

definition plain :: "string list \<Rightarrow> bool" where
  "plain st \<longleftrightarrow> (\<forall>x\<in>set st. x \<noteq> [] \<and> x \<noteq> ''..'')"

lemma plain_simps [simp]: "plain []" "plain (x # st) \<longleftrightarrow> x \<noteq> [] \<and> x \<noteq> ''..'' \<and> plain st"
  by (auto simp: plain_def)

lemma enter_plain: "[] \<noteq> n \<Longrightarrow> plain st \<Longrightarrow> plain (enter True n st)"
  by (rule segment_cases [of n]; cases st) auto

lemma enter_nonempty: "[] \<noteq> n \<Longrightarrow> [] \<notin> set st \<Longrightarrow> [] \<notin> set (enter ab n st)"
  by (auto simp: enter.simps split: list.splits if_splits)

lemma zwalk_step_abs:
  assumes "[] \<noteq> n" "plain st" "t \<noteq> []"
  shows "zwalk (st @ [[]]) (n # t) = zwalk (enter True n st @ [[]]) t"
  by (rule segment_cases [of n]; cases st; use assms in simp)

lemma zwalk_step_rel:
  assumes "[] \<noteq> n" "[] \<notin> set st" "t \<noteq> []" "n = ''.'' \<longrightarrow> st = [] \<longrightarrow> t \<noteq> [[]]"
  shows "zwalk st (n # t) = zwalk (enter False n st) t"
proof (rule segment_cases [of n])
  assume "n = ''..''"
  with assms show ?thesis by (cases st; cases "hd st = ''..''") auto
qed (use assms in auto)

lemma zwalk_abs_trailing:
  "[] \<notin> set t \<Longrightarrow> plain st \<Longrightarrow>
     zwalk (st @ [[]]) (t @ [[]]) = Walked ([] # rev (enter_all True t st) @ [[]])"
proof (induction t arbitrary: st)
  case (Cons n t)
  then show ?case
    by (simp del: zwalk.simps add: zwalk_step_abs enter_plain)
qed simp

lemma zwalk_abs:
  "t \<noteq> [] \<Longrightarrow> [] \<notin> set t \<Longrightarrow> plain st \<Longrightarrow>
     zwalk (st @ [[]]) t =
       (if enter_all True t st \<noteq> [] then Walked ([] # rev (enter_all True t st))
        else if collapses True t st then Walked [[]] else Returned [[], []])"
proof (induction t arbitrary: st rule: list_nonempty_induct)
  case (single n)
  then show ?case
    by - (rule segment_cases [of n]; cases st; simp add: collapses_single)
next
  case (cons n t)
  then show ?case
    by (simp del: zwalk.simps add: zwalk_step_abs enter_plain collapses_Cons)
qed

lemma zwalk_rel:
  "t \<noteq> [] \<Longrightarrow> [] \<notin> set t \<Longrightarrow> [] \<notin> set st \<Longrightarrow>
     zwalk st t =
       (if enter_all False t st \<noteq> [] then Walked (rev (enter_all False t st))
        else if collapses False t st then Walked [] else Returned [''.''])"
proof (induction t arbitrary: st rule: list_nonempty_induct)
  case (single n)
  then show ?case
    by - (rule segment_cases [of n]; cases st; cases "hd st = ''..''"; auto simp: collapses_single)
next
  case (cons n t)
  then have "t \<noteq> [[]]" by auto
  with cons show ?case
    by (simp del: zwalk.simps add: zwalk_step_rel enter_nonempty collapses_Cons)
qed

lemma zwalk_rel_trailing:
  "t \<noteq> [] \<Longrightarrow> [] \<notin> set t \<Longrightarrow> [] \<notin> set st \<Longrightarrow>
     zwalk st (t @ [[]]) =
       (if enter_all False t st \<noteq> [] then Walked (rev (enter_all False t st) @ [[]])
        else if collapses False t st then Walked [[]] else Returned [''.'', []])"
proof (induction t arbitrary: st rule: list_nonempty_induct)
  case (single n)
  then show ?case
    by - (rule segment_cases [of n]; cases st; cases "hd st = ''..''"; auto simp: collapses_single)
next
  case (cons n t)
  then show ?case
    by (simp del: zwalk.simps add: zwalk_step_rel enter_nonempty collapses_Cons)
qed


lemma names_no_empty [simp]: "[] \<notin> set (names p)"
  by (simp add: names_def)

lemma names_Nil [simp]: "names [] = []"
  by (simp add: names_def)

lemma absolute_Nil [simp]: "\<not> absolute []" "\<not> trailing []"
  by (simp_all add: absolute_def trailing_def)

lemma relative_names: "p \<noteq> [] \<Longrightarrow> \<not> absolute p \<Longrightarrow> names p \<noteq> []"
  using hd_split_slash [of p] by (cases "split_slash p") (auto simp: names_def absolute_def)

lemma absolute_names: "absolute p \<Longrightarrow> \<not> trailing p \<Longrightarrow> names p \<noteq> []"
  using last_split_slash [of p]
  by (cases "split_slash p" rule: rev_cases) (auto simp: names_def absolute_def trailing_def)

lemma enter_all_plain: "[] \<notin> set ss \<Longrightarrow> plain st \<Longrightarrow> plain (enter_all True ss st)"
  by (induction ss arbitrary: st) (auto simp: enter_plain)

lemma enter_all_nonempty: "[] \<notin> set ss \<Longrightarrow> [] \<notin> set st \<Longrightarrow> [] \<notin> set (enter_all ab ss st)"
  by (induction ss arbitrary: st) (auto simp: enter_nonempty)

lemma join_snoc_empty [simp]: "xs \<noteq> [] \<Longrightarrow> join_segments c (xs @ [[]]) = join_segments c xs @ [c]"
  by (induction c xs rule: join_segments.induct) auto

lemma join_Cons_empty [simp]: "xs \<noteq> [] \<Longrightarrow> join_segments c ([] # xs) = c # join_segments c xs"
  by (cases xs) auto

lemma join_segments_empty: "join_segments c xs = [] \<longleftrightarrow> xs = [] \<or> xs = [[]]"
  by (induction c xs rule: join_segments.induct) auto

definition canonical :: "string \<Rightarrow> string" where
  "canonical p =
     (let st = rev (enter_all (absolute p) (names p) []);
          body = (if st = [] \<and> \<not> absolute p then ''.'' else join_segments CHR ''/'' st)
      in (if absolute p then ''/'' else []) @ body @ (if trailing p \<and> body \<noteq> [] then ''/'' else []))"

lemma walk_start: "walk_segments 0 a = zwalk [] a"
  using walk_zwalk [of "[]" a] by simp

lemma walk_names:
  assumes "p \<noteq> []"
  shows "walk_segments 0 (squeeze 1 (split_slash p)) =
    (let ab = absolute p; st = rev (enter_all ab (names p) []); c = collapses ab (names p) []
     in if absolute p
        then if trailing p then Walked ([] # st @ [[]])
             else if st \<noteq> [] then Walked ([] # st) else if c then Walked [[]] else Returned [[], []]
        else if trailing p
             then if st \<noteq> [] then Walked (st @ [[]]) else if c then Walked [[]] else Returned [''.'', []]
             else if st \<noteq> [] then Walked st else if c then Walked [] else Returned [''.''])"
proof -
  have a: "zwalk [] ([] # t) = zwalk [[]] t" for t by simp
  show ?thesis
    using assms zwalk_abs_trailing [of "names p" "[]"] zwalk_abs [of "names p" "[]"]
      zwalk_rel [of "names p" "[]"] zwalk_rel_trailing [of "names p" "[]"]
      relative_names [of p] absolute_names [of p]
    unfolding squeeze_segments [OF assms] walk_start Let_def
    by (cases "absolute p"; cases "trailing p"; simp add: a del: zwalk.simps)
qed

lemma names_single: "length (split_slash p) = 1 \<Longrightarrow> split_slash p = [p]"
proof (induction p)
  case (Cons c p)
  then show ?case by (cases "split_slash p") (auto split: if_splits)
qed simp

lemma names_dot: "names ''.'' = [''.'']" "\<not> absolute ''.''" "\<not> trailing ''.''"
  by (simp_all add: names_def absolute_def trailing_def)

lemma normalize_array_path:
  assumes "p \<noteq> []"
  shows "normalize_array rs (split_slash p) =
    (let ab = absolute p; st = rev (enter_all ab (names p) []); c = collapses ab (names p) [];
         rt = (if rs then remove_trailing else id)
     in if absolute p
        then if trailing p then rt ([] # st @ [[]])
             else if st \<noteq> [] then rt ([] # st) else if c then [[]] else [[], []]
        else if trailing p
             then if st \<noteq> [] then rt (st @ [[]]) else if c then [[]] else [''.'', []]
             else if st \<noteq> [] then rt st else if c then [] else [''.''])"
proof (cases "length (split_slash p) = 1 \<and> (split_slash p ! 0 = [] \<or> split_slash p ! 0 = ''.'')")
  case True
  then have "split_slash p = [p]" "p = ''.''"
    using assms names_single [of p] by auto
  then show ?thesis
    by (simp add: normalize_array_def names_dot collapses_def)
next
  case False
  have "remove_trailing [[]] = [[]]" "remove_trailing [] = []"
    by (simp_all add: remove_trailing_def)
  then show ?thesis
    unfolding normalize_array_def walk_names [OF assms] Let_def if_not_P [OF False]
    by (cases "absolute p"; cases "trailing p"; simp)
qed

lemma normalize_stack:
  "normalize_posix False False p =
     (if collapses (absolute p) (names p) [] \<and> \<not> (absolute p \<and> trailing p) then [] else canonical p)"
proof (cases "p = []")
  case True
  then show ?thesis
    by (simp add: normalize_posix_def path_array_split normalize_array_def collapses_def canonical_def)
next
  case False
  have ne: "[] \<notin> set (enter_all ab (names p) [])" for ab
    by (simp add: enter_all_nonempty)
  have "collapses ab (names p) [] \<Longrightarrow> enter_all ab (names p) [] = []" for ab
    by (simp add: collapses_def)
  moreover have "enter_all ab (names p) [] \<noteq> [[]]" for ab
    using ne [of ab] by auto
  ultimately show ?thesis
    using False
    by (auto simp: normalize_posix_def path_array_split normalize_array_path canonical_def Let_def join_segments_empty)
qed

lemma normalize_resolved:
  assumes "absolute p"
  shows "normalize_posix True True p = CHR ''/'' # join_segments CHR ''/'' (rev (enter_all True (names p) []))"
proof -
  have p: "p \<noteq> []" using assms by auto
  obtain st where st: "st = rev (enter_all True (names p) [])" by simp
  have "[] \<notin> set st" by (simp add: st enter_all_nonempty)
  then have "remove_trailing ([] # st) = [] # st" 
     "remove_trailing ([] # st @ [[]]) = (if st = [] then [[], []] else [] # st)"
    by (cases st rule: rev_cases; auto simp: remove_trailing_def erase_at_def nth_append)+
  with assms show ?thesis
    by (auto simp: normalize_posix_def path_array_split normalize_array_path p Let_def st [symmetric])
qed

section \<open>Resolving\<close>

lemma split_slash_append: "split_slash (x @ CHR ''/'' # y) = split_slash x @ split_slash y"
  by (induction x) auto

lemma names_append_slash [simp]: "names (x @ CHR ''/'' # y) = names x @ names y"
  by (simp add: names_def split_slash_append)

lemma names_slash [simp]: "names (CHR ''/'' # y) = names y"
  using names_append_slash [of "[]"] by simp

lemma names_snoc_slash [simp]: "names (x @ [CHR ''/'']) = names x"
  using names_append_slash [of x "[]"] by simp

definition cd :: "string \<Rightarrow> string list \<Rightarrow> string list" where
  "cd p st = enter_all True (names p) (if absolute p then [] else st)"

lemma resolvePosix_names:
  assumes "absolute (m_buf b)"
  shows "absolute (m_buf (resolvePosix other b))
    \<and> enter_all True (names (m_buf (resolvePosix other b))) [] = cd other (enter_all True (names (m_buf b)) [])"
proof -
  obtain x c where x: "m_buf b = x @ [c]" using assms by (cases "m_buf b" rule: rev_cases) auto
  show ?thesis
  proof (cases "other = [] \<or> absolute other")
    case True
    then show ?thesis using assms
      by (cases other) (auto simp: resolvePosix_def cd_def absolute_def isPosixPathSlash_def cstr_def)
  next
    case False
    then have "m_buf (resolvePosix other b) = (if c = CHR ''/'' then x else m_buf b) @ CHR ''/'' # other"
      using x by (cases other) (auto simp: resolvePosix_def absolute_def isPosixPathSlash_def cstr_def)
    then show ?thesis
      using False assms x by (cases x) (auto simp: cd_def absolute_def)
  qed
qed

lemma resolve_names:
  assumes "absolute (m_buf b)"
  shows "absolute (m_buf (fold resolvePosix ps b))
    \<and> enter_all True (names (m_buf (fold resolvePosix ps b))) [] = fold cd ps (enter_all True (names (m_buf b)) [])"
  using assms
proof (induction ps arbitrary: b)
  case (Cons p ps)
  then show ?case using resolvePosix_names [of b p] Cons.IH [of "resolvePosix p b"] by simp
qed simp

lemma m_buf_cwd: "m_buf (resolvePosix cwd new_path) = cwd"
  by (simp add: resolvePosix_def new_path_def)

lemma posix_resolve_stack:
  assumes "absolute cwd"
  shows "path_resolve cwd ps = CHR ''/'' # join_segments CHR ''/'' (rev (fold cd ps (cd cwd [])))"
  using assms resolve_names [of "resolvePosix cwd new_path" ps]
  by (simp add: path_resolve_def normalize_resolved m_buf_cwd cd_def)

section \<open>Relative paths\<close>

definition segment :: "string \<Rightarrow> bool" where
  "segment s \<longleftrightarrow> s \<noteq> [] \<and> s \<noteq> ''.'' \<and> s \<noteq> ''..'' \<and> CHR ''/'' \<notin> set s"

lemma split_slash_no_slash: "s \<in> set (split_slash p) \<Longrightarrow> CHR ''/'' \<notin> set s"
proof (induction p arbitrary: s)
  case (Cons c p)
  then show ?case by (cases "split_slash p") (auto split: if_splits)
qed simp

lemma enter_segment:
  "CHR ''/'' \<notin> set n \<Longrightarrow> list_all segment st \<Longrightarrow> list_all segment (enter True n st)"
  by (auto simp: enter.simps segment_def split: list.splits)

lemma enter_all_segment:
  "\<forall>n\<in>set ns. CHR ''/'' \<notin> set n \<Longrightarrow> list_all segment st \<Longrightarrow> list_all segment (enter_all True ns st)"
  by (induction ns arbitrary: st) (auto simp: enter_segment)

lemma cd_segment: "list_all segment st \<Longrightarrow> list_all segment (cd p st)"
  by (auto simp: cd_def names_def intro!: enter_all_segment dest: split_slash_no_slash)

lemma split_slash_plain: "CHR ''/'' \<notin> set s \<Longrightarrow> split_slash s = [s]"
  by (induction s) auto

lemma names_segment: "s \<noteq> [] \<Longrightarrow> CHR ''/'' \<notin> set s \<Longrightarrow> names s = [s]"
  by (simp add: names_def split_slash_plain)

lemma names_join:
  "\<forall>s\<in>set ss. s \<noteq> [] \<and> CHR ''/'' \<notin> set s \<Longrightarrow> names (join_segments CHR ''/'' ss) = ss"
  by (induction "CHR ''/''" ss rule: join_segments.induct) (auto simp: names_segment)

text \<open>A relative path and its normal form lead to the same place.\<close>

lemma enter_normal:
  assumes "n \<noteq> []" "\<forall>s\<in>set r. s \<noteq> [] \<and> s \<noteq> ''.''"
  shows "enter_all True (rev (enter False n r)) st = enter True n (enter_all True (rev r) st)"
    and "\<forall>s\<in>set (enter False n r). s \<noteq> [] \<and> s \<noteq> ''.''"
  using assms
  by - (rule segment_cases [of n]; cases r; cases "hd r = ''..''"; auto)+

lemma enter_all_normal:
  assumes "[] \<notin> set ns" "\<forall>s\<in>set r. s \<noteq> [] \<and> s \<noteq> ''.''"
  shows "enter_all True (rev (enter_all False ns r)) st = enter_all True ns (enter_all True (rev r) st)"
  using assms
proof (induction ns arbitrary: r)
  case (Cons n ns)
  then have n: "n \<noteq> []" "[] \<notin> set ns" by auto
  have "enter_all True (rev (enter_all False ns (enter False n r))) st
      = enter_all True ns (enter_all True (rev (enter False n r)) st)"
    by (rule Cons.IH [OF n(2) enter_normal(2) [OF n(1) Cons.prems(2)]])
  then show ?case
    by (simp only: enter_all_simps enter_normal(1) [OF n(1) Cons.prems(2)])
qed simp

lemma set_enter: "set (enter ab n r) \<subseteq> insert ''..'' (insert n (set r))"
  unfolding enter.simps by (cases r) (simp_all add: subset_insertI2 subset_insertI)

lemma enter_no_slash:
  assumes "CHR ''/'' \<notin> set n" "\<forall>s\<in>set r. CHR ''/'' \<notin> set s"
  shows "\<forall>s\<in>set (enter ab n r). CHR ''/'' \<notin> set s"
proof -
  have "\<forall>s\<in>insert ''..'' (insert n (set r)). CHR ''/'' \<notin> set s" using assms by simp
  then show ?thesis using set_enter by blast
qed

lemma enter_all_no_slash:
  "\<forall>s\<in>set ns. CHR ''/'' \<notin> set s \<Longrightarrow> \<forall>s\<in>set r. CHR ''/'' \<notin> set s \<Longrightarrow>
     \<forall>s\<in>set (enter_all ab ns r). CHR ''/'' \<notin> set s"
  by (induction ns arbitrary: r) (auto dest: enter_no_slash)

lemma names_no_slash: "s \<in> set (names p) \<Longrightarrow> CHR ''/'' \<notin> set s"
  by (auto simp: names_def dest: split_slash_no_slash)

lemma cd_dots: "cd [] st = st" "cd ''.'' st = st" "cd ''./'' st = st"
  by (simp_all add: cd_def names_def absolute_def)

lemma cd_normalize:
  assumes "\<not> absolute s"
  shows "cd (normalize_posix False False s) st = cd s st"
proof -
  let ?r = "enter_all False (names s) []"
  have r: "\<forall>x\<in>set (rev ?r). x \<noteq> [] \<and> CHR ''/'' \<notin> set x"
    using enter_all_nonempty [of "names s" "[]"] enter_all_no_slash [of "names s" "[]"]
    by (auto dest: names_no_slash)
  have n: "names (join_segments CHR ''/'' (rev ?r)) = rev ?r"
    by (rule names_join [OF r])
  have e: "enter_all True (names s) st = enter_all True (rev ?r) st"
    using enter_all_normal [of "names s" "[]" st] by simp
  have a: "\<not> absolute (join_segments CHR ''/'' (rev ?r) @ t)" if "?r \<noteq> []" for t
    using r that by (cases "rev ?r"; cases "tl (rev ?r)") (auto simp: absolute_def neq_Nil_conv)
  show ?thesis
  proof (cases "?r = []")
    case True
    then have "normalize_posix False False s \<in> {[], ''.'', ''./''}"
      using assms by (simp add: normalize_stack canonical_def)
    moreover have "cd s st = st"
      using True assms e by (simp add: cd_def)
    ultimately show ?thesis
      using cd_dots [of st] by auto
  next
    case False
    then have "\<not> collapses False (names s) []" by (auto simp: collapses_def)
    then show ?thesis using assms False e a [of "''/''"] a [of "[]"] n
      by (auto simp: normalize_stack canonical_def cd_def Let_def)
  qed
qed

lemma join_Cons: "join_segments c (x # xs) = x @ (if xs = [] then [] else c # join_segments c xs)"
  by (cases xs) auto

lemma join_append:
  "xs \<noteq> [] \<Longrightarrow> ys \<noteq> [] \<Longrightarrow> join_segments c (xs @ ys) = join_segments c xs @ c # join_segments c ys"
  by (induction xs) (auto simp: join_Cons)

lemma join_hd: "list_all segment ss \<Longrightarrow> ss \<noteq> [] \<Longrightarrow> \<exists>d r. join_segments c ss = d # r \<and> d \<noteq> CHR ''/''"
  by (cases ss) (auto simp: join_Cons segment_def neq_Nil_conv)

lemma filter_no_slash: "CHR ''/'' \<notin> set x \<Longrightarrow> filter isPosixPathSlash x = []"
  by (induction x) (auto simp: isPosixPathSlash_def)

lemma filter_slash_join:
  "list_all segment ss \<Longrightarrow> ss \<noteq> [] \<Longrightarrow>
     Suc (length (filter isPosixPathSlash (join_segments CHR ''/'' ss))) = length ss"
proof (induction ss)
  case (Cons s ss)
  then show ?case
    by (cases "ss = []") (auto simp: join_Cons segment_def filter_no_slash, simp add: isPosixPathSlash_def)
qed simp

definition cp :: "string \<Rightarrow> string \<Rightarrow> nat \<Rightarrow> int \<Rightarrow> common" where
  "cp f t i sep =
     common_prefix (CHR ''/'' # f) (CHR ''/'' # t) 1 1 (length f) (length t) (min (length f) (length t)) i sep"

lemma cp_at_end: "i = length f \<Longrightarrow> i < length t \<Longrightarrow> cp f t i sep =
    (if t ! i = CHR ''/'' then Suffix (drop (Suc i) t) else if i = 0 then Suffix t else LastSep sep)"
  unfolding cp_def by (subst common_prefix.simps)
    (auto simp: cstr_def substr_from_def isPosixPathSlash_def)

lemma cp_to_end: "i = length t \<Longrightarrow> i < length f \<Longrightarrow> cp f t i sep =
    (if f ! i = CHR ''/'' then LastSep (int i) else if i = 0 then LastSep 0 else LastSep sep)"
  unfolding cp_def by (subst common_prefix.simps)
    (auto simp: cstr_def substr_from_def isPosixPathSlash_def)

lemma cp_differ: "i < length f \<Longrightarrow> i < length t \<Longrightarrow> f ! i \<noteq> t ! i \<Longrightarrow> cp f t i sep = LastSep sep"
  unfolding cp_def by (subst common_prefix.simps) (auto simp: cstr_def)

lemma cp_same: "i < length f \<Longrightarrow> i < length t \<Longrightarrow> f ! i = t ! i \<Longrightarrow>
    cp f t i sep = cp f t (Suc i) (if f ! i = CHR ''/'' then int i else sep)"
  unfolding cp_def by (subst common_prefix.simps) (auto simp: cstr_def isPosixPathSlash_def)

lemma cp_run:
  "f = u @ x @ f' \<Longrightarrow> t = u @ x @ t' \<Longrightarrow> CHR ''/'' \<notin> set x \<Longrightarrow>
     cp f t (length u) sep = cp f t (length u + length x) sep"
proof (induction x arbitrary: u)
  case (Cons c x)
  then have "cp f t (length u) sep = cp f t (length (u @ [c])) sep"
    by (subst cp_same) auto
  also have "\<dots> = cp f t (length (u @ [c]) + length x) sep"
    by (rule Cons.IH) (use Cons.prems in auto)
  finally show ?case by simp
qed simp

lemma cp_stop:
  "f = u @ x @ f' \<Longrightarrow> t = u @ y @ t' \<Longrightarrow> CHR ''/'' \<notin> set x \<Longrightarrow> CHR ''/'' \<notin> set y \<Longrightarrow>
     f' = [] \<or> hd f' = CHR ''/'' \<Longrightarrow> t' = [] \<or> hd t' = CHR ''/'' \<Longrightarrow>
     x \<noteq> y \<Longrightarrow> u \<noteq> [] \<or> x \<noteq> [] \<and> y \<noteq> [] \<Longrightarrow> cp f t (length u) sep = LastSep sep"
proof (induction x arbitrary: u y)
  case Nil
  then obtain d y' where y: "y = d # y'" "d \<noteq> CHR ''/''" by (cases y) auto
  show ?case
  proof (cases f')
    case Nil': Nil
    then show ?thesis using Nil y by (subst cp_at_end) auto
  next
    case (Cons c f'')
    then show ?thesis using Nil y by (subst cp_differ) auto
  qed
next
  case (Cons c x)
  show ?case
  proof (cases y)
    case Nil
    show ?thesis
    proof (cases t')
      case Nil': Nil
      then show ?thesis using Cons.prems Nil by (subst cp_to_end) auto
    next
      case (Cons d t'')
      then show ?thesis using Cons.prems Nil by (subst cp_differ) auto
    qed
  next
    case y: (Cons d y')
    show ?thesis
    proof (cases "c = d")
      case True
      have "cp f t (length u) sep = cp f t (length (u @ [c])) sep"
        using Cons.prems True y by (subst cp_same) auto
      also have "\<dots> = LastSep sep"
        by (rule Cons.IH [where y = y']) (use Cons.prems True y in auto)
      finally show ?thesis .
    next
      case False
      then show ?thesis using Cons.prems y by (subst cp_differ) auto
    qed
  qed
qed

definition common_outcome ::
    "string list \<Rightarrow> string list \<Rightarrow> nat \<Rightarrow> int \<Rightarrow> common \<Rightarrow> string list \<Rightarrow> string list \<Rightarrow> string list \<Rightarrow> bool" where
  "common_outcome F T k sep r C F' T' \<longleftrightarrow>
     F = C @ F' \<and> T = C @ T' \<and>
     (F' = [] \<and> T' \<noteq> [] \<and> r = Suffix (join_segments CHR ''/'' T')
      \<or> F' \<noteq> [] \<and> C \<noteq> [] \<and> r = LastSep (int (k + length (join_segments CHR ''/'' C)))
      \<or> F' \<noteq> [] \<and> T' \<noteq> [] \<and> C = [] \<and> r = LastSep sep)"

lemma cp_segments:
  "list_all segment F \<Longrightarrow> list_all segment T \<Longrightarrow> F \<noteq> T \<Longrightarrow> F \<noteq> [] \<Longrightarrow> T \<noteq> [] \<Longrightarrow>
     f = u @ join_segments CHR ''/'' F \<Longrightarrow> t = u @ join_segments CHR ''/'' T \<Longrightarrow>
     \<exists>C F' T'. common_outcome F T (length u) sep (cp f t (length u) sep) C F' T'"
proof (induction F arbitrary: T u sep)
  case (Cons x Fs)
  then obtain y Ts where T: "T = y # Ts" by (cases T) auto
  have x: "x \<noteq> []" "CHR ''/'' \<notin> set x" and y: "y \<noteq> []" "CHR ''/'' \<notin> set y"
    using Cons.prems T by (auto simp: segment_def)
  let ?j = "join_segments CHR ''/''"
  show ?case
  proof (cases "x = y")
    case False
    have "cp f t (length u) sep = LastSep sep"
      by (rule cp_stop [where x = x and y = y]) (use Cons.prems T x y False in \<open>auto simp: join_Cons split: if_splits\<close>)
    then have "common_outcome (x # Fs) T (length u) sep (cp f t (length u) sep) [] (x # Fs) T"
      by (simp add: common_outcome_def T)
    then show ?thesis by blast
  next
    case True
    have run: "cp f t (length u) sep = cp f t (length u + length x) sep"
      by (rule cp_run [OF _ _ x(2)]) (use Cons.prems T True in \<open>simp_all add: join_Cons\<close>)
    consider "Fs = []" "Ts \<noteq> []" | "Fs \<noteq> []" "Ts = []" | "Fs \<noteq> []" "Ts \<noteq> []"
      using Cons.prems T True by auto
    then show ?thesis
    proof cases
      case 1
      then have "cp f t (length u) sep = Suffix (?j Ts)"
        unfolding run using Cons.prems T True by (subst cp_at_end) (auto simp: join_Cons nth_append)
      then have "common_outcome (x # Fs) T (length u) sep (cp f t (length u) sep) [x] Fs Ts"
        using 1 T True by (simp add: common_outcome_def)
      then show ?thesis by blast
    next
      case 2
      then have "cp f t (length u) sep = LastSep (int (length u + length x))"
        unfolding run using Cons.prems T True by (subst cp_to_end) (auto simp: join_Cons nth_append)
      then have "common_outcome (x # Fs) T (length u) sep (cp f t (length u) sep) [x] Fs Ts"
        using 2 T True by (simp add: common_outcome_def)
      then show ?thesis by blast
    next
      case 3
      let ?u = "u @ x @ ''/''"
      have f: "f = ?u @ ?j Fs" and t: "t = ?u @ ?j Ts"
        using Cons.prems T True 3 by (simp_all add: join_Cons)
      have "cp f t (length u) sep = cp f t (length ?u) (int (length u + length x))"
        unfolding run using f t by (subst cp_same) (auto simp: nth_append)
      moreover have "\<exists>C F' T'. common_outcome Fs Ts (length ?u) (int (length u + length x))
           (cp f t (length ?u) (int (length u + length x))) C F' T'"
        by (rule Cons.IH [OF _ _ _ 3 f t]) (use Cons.prems T True in auto)
      then obtain C F' T' where
        "common_outcome Fs Ts (length ?u) (int (length u + length x))
           (cp f t (length ?u) (int (length u + length x))) C F' T'"
        by blast
      ultimately have "common_outcome (x # Fs) T (length u) sep (cp f t (length u) sep) (x # C) F' T'"
        using T True 3 by (auto simp: common_outcome_def join_Cons)
      then show ?thesis by blast
    qed
  qed
qed simp

lemma dots_up_eq:
  "i \<le> length s \<Longrightarrow> dots_up slash up s (length s) i out =
     (let k = length (filter slash (drop i s))
      in if out = [] then ''..'' @ concat (replicate k up) else out @ concat (replicate (Suc k) up))"
proof (induction slash up s "length s" i out rule: dots_up.induct)
  case (1 slash up s i out)
  have last: "dots_up slash up s (length s) (Suc (length s)) out' = out'" for out'
    by (subst dots_up.simps) simp
  show ?case
  proof (cases "i = length s")
    case True
    then show ?thesis by (subst dots_up.simps) (simp add: last)
  next
    case False
    with 1(2) have i: "i < length s" by simp
    then have d: "drop i s = s ! i # drop (Suc i) s" by (rule drop_eq_Cons_nth)
    show ?thesis
      using 1(1) i by (subst dots_up.simps) (simp add: d cstr_def)
  qed
qed

lemma root_start:
  assumes "list_all segment F"
  shows "fwd_while isPosixPathSlash (CHR ''/'' # join_segments CHR ''/'' F)
           (length (CHR ''/'' # join_segments CHR ''/'' F)) 1 = 1"
proof (cases "F = []")
  case True
  then show ?thesis by (simp add: fwd_while.simps)
next
  case False
  with assms join_hd [of F] obtain d r where "join_segments CHR ''/'' F = d # r" "d \<noteq> CHR ''/''"
    by blast
  then show ?thesis
    by (subst fwd_while.simps) (simp add: cstr_def isPosixPathSlash_def)
qed

lemma names_dots:
  "y = [] \<or> y = CHR ''/'' # z \<Longrightarrow>
     names (x @ concat (replicate k ''/..'') @ y) = names x @ replicate k ''..'' @ names y"
proof (induction k arbitrary: x)
  case (Suc k)
  have "names (x @ concat (replicate (Suc k) ''/..'') @ y)
      = names (x @ CHR ''/'' # (''..'' @ concat (replicate k ''/..'') @ y))"
    by simp
  also have "\<dots> = names x @ ''..'' # replicate k ''..'' @ names y"
    unfolding names_append_slash Suc.IH [OF Suc.prems] by (simp add: names_segment)
  finally show ?case by simp
qed auto

lemma enter_up: "plain xs \<Longrightarrow> enter_all True (replicate (length xs) ''..'') (xs @ ys) = ys"
  by (induction xs) auto

lemma enter_down: "list_all segment ss \<Longrightarrow> enter_all True ss st = rev ss @ st"
  by (induction ss arbitrary: st) (auto simp: segment_def)

lemma segment_plain: "list_all segment ss \<Longrightarrow> plain ss"
  by (auto simp: plain_def list_all_iff segment_def)

lemma cd_relative:
  assumes "list_all segment C" "list_all segment F'" "list_all segment T'"
    and "names s = replicate (length F') ''..'' @ T'" "\<not> absolute s"
  shows "cd (normalize_posix False False s) (rev (C @ F')) = rev (C @ T')"
  using assms enter_up [of "rev F'" "rev C"] segment_plain [of "rev F'"]
  unfolding cd_normalize [OF assms(5)] by (simp add: cd_def enter_down)

lemma names_segments: "list_all segment ss \<Longrightarrow> names (join_segments CHR ''/'' ss) = ss"
  by (rule names_join) (auto simp: list_all_iff segment_def)

lemma join_relative: "list_all segment ss \<Longrightarrow> \<not> absolute (join_segments CHR ''/'' ss)"
  using join_hd [of ss "CHR ''/''"] by (cases "ss = []") (auto simp: absolute_def)

abbreviation rooted :: "string list \<Rightarrow> string" where
  "rooted ss \<equiv> CHR ''/'' # join_segments CHR ''/'' ss"

definition climb :: "nat \<Rightarrow> string" where
  "climb k = ''..'' @ concat (replicate k ''/..'')"

lemma relative_resolved_cp:
  assumes "list_all segment F" "list_all segment T"
  shows "relative_resolved (rooted F) (rooted T) =
    (case cp (join_segments CHR ''/'' F) (join_segments CHR ''/'' T) 0 (- 1) of
       Suffix s \<Rightarrow> normalize_posix False False s
     | LastSep sep \<Rightarrow>
         let out = dots_up isPosixPathSlash ''/..'' (rooted F) (length (rooted F)) (nat (2 + sep)) [];
             t = nat (1 + sep)
         in if out \<noteq> [] then normalize_posix False False (out @ drop t (rooted T))
            else normalize_posix False False
                   (drop (if isPosixPathSlash (cstr (rooted T) t) then t + 1 else t) (rooted T)))"
proof -
  have e: "int 1 + sep = 1 + sep" "1 + sep + 1 = 2 + sep" for sep by simp_all
  have l: "length (rooted ss) - 1 = length (join_segments CHR ''/'' ss)" for ss by simp
  show ?thesis
    unfolding relative_resolved_def Let_def root_start [OF assms(1)] root_start [OF assms(2)]
      cp_def substr_from_def e l ..
qed

lemma relative_climb:
  assumes "list_all segment F" "list_all segment T"
    and "cp (join_segments CHR ''/'' F) (join_segments CHR ''/'' T) 0 (- 1) = LastSep sep"
    and "nat (2 + sep) \<le> length (rooted F)"
  shows "relative_resolved (rooted F) (rooted T) =
     normalize_posix False False
       (climb (length (filter isPosixPathSlash (drop (nat (2 + sep)) (rooted F)))) @ drop (nat (1 + sep)) (rooted T))"
  using dots_up_eq [OF assms(4), of isPosixPathSlash "''/..''" "[]"]
  by (simp add: relative_resolved_cp [OF assms(1,2)] assms(3) climb_def Let_def)

lemma cd_climb:
  assumes "list_all segment C" "list_all segment F'" "list_all segment T'" "F' \<noteq> []"
    and "Suc k = length F'"
    and "y = (if T' = [] then [] else rooted T')"
  shows "cd (normalize_posix False False (climb k @ y)) (rev (C @ F')) = rev (C @ T')"
proof (rule cd_relative [OF assms(1-3)])
  have y: "y = [] \<or> y = CHR ''/'' # join_segments CHR ''/'' T'" and n: "names y = T'"
    using assms(3,6) by (auto simp: names_segments)
  show "names (climb k @ y) = replicate (length F') ''..'' @ T'"
    unfolding climb_def append_assoc names_dots [OF y] n assms(5) [symmetric]
    by (simp add: names_segment)
  show "\<not> absolute (climb k @ y)"
    by (simp add: climb_def absolute_def)
qed

lemma relative_lands:
  assumes F: "list_all segment F" and T: "list_all segment T" and ne: "F \<noteq> T"
  shows "cd (relative_resolved (rooted F) (rooted T)) (rev F) = rev T"
proof -
  let ?j = "join_segments CHR ''/''"
  note rc = relative_resolved_cp [OF F T]
  note cl = relative_climb [OF F T]
  have count: "F' \<noteq> [] \<Longrightarrow> list_all segment F' \<Longrightarrow> Suc (length (filter isPosixPathSlash (?j F'))) = length F'"
    for F' by (rule filter_slash_join)
  have suffix: "cd (normalize_posix False False (?j T')) (rev C) = rev (C @ T')"
    if "list_all segment T'" "list_all segment C" for T' C
    using cd_relative [of C "[]" T' "?j T'"] that by (simp add: names_segments join_relative)
  show ?thesis
  proof (cases "F = [] \<or> T = []")
    case True
    show ?thesis
    proof (cases "F = []")
      case True
      with ne T join_hd [of T "CHR ''/''"] have "cp (?j F) (?j T) 0 (- 1) = Suffix (?j T)"
        by (subst cp_at_end) auto
      then show ?thesis using rc suffix [OF T, of "[]"] True by simp
    next
      case False
      with True have t: "T = []" by simp
      obtain d r where d: "?j F = d # r" "d \<noteq> CHR ''/''" using join_hd [OF F False] by blast
      have "cp (?j F) (?j T) 0 (- 1) = LastSep 0"
        using t d by (subst cp_to_end) auto
      moreover have "filter isPosixPathSlash (drop 2 (rooted F)) = filter isPosixPathSlash (?j F)"
        using d by (simp add: isPosixPathSlash_def)
      ultimately show ?thesis
        using cl [of 0] d t count [OF False F] cd_climb [OF _ F _ False, of "[]" "[]"] by simp
    qed
  next
    case False
    then obtain C F' T' where o: "common_outcome F T 0 (- 1) (cp (?j F) (?j T) 0 (- 1)) C F' T'"
      using cp_segments [OF F T ne, of "?j F" "[]" "?j T" "- 1"] by auto
    then have FT: "F = C @ F'" "T = C @ T'" by (auto simp: common_outcome_def)
    with F T have seg: "list_all segment C" "list_all segment F'" "list_all segment T'" by auto
    show ?thesis
    proof (cases "F' = []")
      case True
      then show ?thesis using o FT rc suffix [of T' C] seg by (simp add: common_outcome_def)
    next
      case F': False
      show ?thesis
      proof (cases "C = []")
        case True
        with o F' have "cp (?j F) (?j T) 0 (- 1) = LastSep (- 1)" "T' \<noteq> []"
          by (auto simp: common_outcome_def)
        then show ?thesis
          using cl [of "- 1"] FT True count [OF F' seg(2)] cd_climb [OF _ seg(2,3) F', of "[]"] by simp
      next
        case C: False
        with o F' have "cp (?j F) (?j T) 0 (- 1) = LastSep (int (length (?j C)))"
          by (auto simp: common_outcome_def)
        then show ?thesis
          using cl [of "int (length (?j C))"] FT C F' count [OF F' seg(2)] cd_climb [OF seg F']
          by (cases "T' = []") (simp_all add: nat_add_distrib join_append)
      qed
    qed
  qed
qed

lemma resolve1: "path_resolve1 cwd p = path_resolve cwd [p]"
  by (simp add: path_resolve1_def path_resolve_def)

section \<open>Properties\<close>

text \<open>
  C14: \<open>normalize\<close> agrees with the directory stack on every path: it gives the names that are left
  after \<open>.\<close> and \<open>..\<close> were taken, with the leading and the trailing slash of the path and \<open>.\<close> for nothing,
  except that it gives the empty string when the last name is a \<open>..\<close> that empties the stack.
\<close>

theorem posix_normalize:
  "normalize_posix False False p =
     (if collapses (absolute p) (names p) [] \<and> \<not> (absolute p \<and> trailing p) then [] else canonical p)"
  by (rule normalize_stack)

text \<open>
  C15: \<open>resolve\<close> enters the working directory and then each argument in turn, an absolute argument
  starting over from the root, and gives the absolute path of the directory it arrives at.
\<close>

theorem posix_resolve:
  assumes "absolute cwd"
  shows "path_resolve cwd ps = CHR ''/'' # join_segments CHR ''/'' (rev (fold cd ps (cd cwd [])))"
  by (rule posix_resolve_stack [OF assms])

text \<open>
  C16: the path that \<open>relative\<close> gives leads from the directory \<open>from\<close> to \<open>to\<close>: resolving it there
  gives the same absolute path as resolving \<open>to\<close>.
\<close>

theorem posix_relative:
  assumes "absolute cwd"
  shows "path_resolve cwd [from_path, path_relative cwd from_path to_path] = path_resolve cwd [to_path]"
proof -
  let ?F = "rev (cd from_path (cd cwd []))" and ?T = "rev (cd to_path (cd cwd []))"
  have seg: "list_all segment ?F" "list_all segment ?T"
    by (simp_all add: cd_segment)
  have res: "path_resolve1 cwd from_path = rooted ?F" "path_resolve1 cwd to_path = rooted ?T"
    using posix_resolve_stack [OF assms, of "[from_path]"] posix_resolve_stack [OF assms, of "[to_path]"]
    by (simp_all add: resolve1)
  consider "from_path = to_path" | "from_path \<noteq> to_path" "rooted ?F = rooted ?T"
    | "from_path \<noteq> to_path" "rooted ?F \<noteq> rooted ?T"
    by blast
  then show ?thesis
  proof cases
    case 3
    then have ne: "?F \<noteq> ?T" by auto
    show ?thesis
      using relative_lands [OF seg ne] 3
      by (simp add: posix_resolve_stack [OF assms] path_relative_def res Let_def)
  qed (simp_all add: posix_resolve_stack [OF assms] path_relative_def res Let_def cd_dots)
qed

lemma posix_relative_witness:
  "path_resolve ''/home/u'' [''/a/b/c'', path_relative ''/home/u'' ''/a/b/c'' ''../x''] =
     path_resolve ''/home/u'' [''../x'']"
  by (rule posix_relative) (simp add: absolute_def)

lemma posix_resolve_witness:
  "path_resolve ''/home/u'' [''a'', ''../b''] = ''/home/u/b''"
  by (subst posix_resolve) (simp_all add: absolute_def cd_def names_def)

text \<open>Paths whose last name takes away the only directory: the results are empty, not \<open>/\<close> and \<open>.\<close>.\<close>

lemma normalize_up_to_nothing:
  "normalize_posix False False ''/a/..'' = []" "normalize_posix False False ''a/..'' = []"
  by code_simp+

text \<open>A missing \<open>ext\<close> leaves the name in the variable that is appended a second time.\<close>

lemma format_without_ext:
  "path_format ''/'' \<lparr>o_dir = Missing, o_root = Missing, o_base = Missing, o_name = Str s, o_ext = Missing\<rparr>
     = Inr (s @ s)"
  by (simp add: path_format_def get_config_def bind_result_def Let_def)

text \<open>The comparison of \<open>basename\<close> that starts before the path.\<close>

lemma basename_before_path: "path_basename ''a/'' ''a/'' = None"
  by code_simp

end
