(* ===== verification/PathWin32.thy ===== *)
theory PathWin32
  imports PathSpec
begin

text \<open>
  The Windows half of \<^verbatim>\<open>include/path.h\<close> behind the module \<open>path/win32\<close>
  (\<^verbatim>\<open>src/fs/path_win32.cpp\<close>), with the branches that a build for another system compiles
  (\<open>_WIN32\<close> not defined): drive letters with a current directory each, shares \<open>\\server\share\<close> and device
  names \<open>\\.\\<close>. It shares \<open>_normalize_array\<close> with the POSIX half; \<open>win32_normalize_posix\<close> states that on a
  path without a drive, a share or a backslash the two normalisations differ in the separator only.
\<close>

section \<open>The buffer of the class \<open>Path\<close>\<close>

abbreviation bslash :: char where
  "bslash \<equiv> CHR 0x5C"

definition drive_prefix :: "string \<Rightarrow> bool" where
  "drive_prefix s \<longleftrightarrow> qisascii (cstr s 0) \<and> cstr s 1 = CHR '':''"

definition share_root :: "string \<Rightarrow> bool" where
  "share_root s \<longleftrightarrow> length s > 2 \<and> isWin32PathSlash (s ! 0) \<and> isWin32PathSlash (s ! 1)
     \<and> \<not> isWin32PathSlash (s ! 2) \<and> (\<exists>i\<in>set [3..<length s]. isWin32PathSlash (s ! i))"

definition disk_index :: "char \<Rightarrow> nat" where
  "disk_index c = code c mod 32"

definition resolveWin32 :: "string \<Rightarrow> path_buf \<Rightarrow> path_buf" where
  "resolveWin32 other p =
     (if other = [] then p
      else if share_root other then p\<lparr>m_buf := other\<rparr>
      else let drive = drive_prefix other;
               buf = (if drive
                      then case m_disks p ! disk_index (other ! 0) of [] \<Rightarrow> [] | _ # r \<Rightarrow> other ! 0 # r
                      else m_buf p);
               rest = (if drive then drop 2 other else other);
               is_root = isWin32PathSlash (cstr rest 0);
               on_disk = (cstr buf 0 \<noteq> nul \<and> drive_prefix buf);
               diskId = (if on_disk then cstr buf 0 else if drive then other ! 0 else nul);
               dir = (if cstr buf 0 = nul \<or> is_root then [] else if on_disk then drop 2 buf else buf);
               base = (if is_root \<or> dir = [] then rest
                       else dir @ (if isWin32PathSlash (last dir) then [] else [bslash]) @ rest)
           in if diskId \<noteq> nul
              then p\<lparr>m_buf := diskId # CHR '':'' # base,
                     m_disks := (m_disks p)[disk_index diskId := diskId # CHR '':'' # base]\<rparr>
              else p\<lparr>m_buf := base\<rparr>)"

definition joinWin32 :: "string \<Rightarrow> path_buf \<Rightarrow> path_buf" where
  "joinWin32 other p =
     (if other = [] then p
      else if m_buf p = [] \<and> length other = 2 \<and> isWin32PathSlash (other ! 0) \<and> isWin32PathSlash (other ! 1)
      then p\<lparr>m_buf := [bslash]\<rparr>
      else let buf =
             (if length (m_buf p) = 1 \<and> isWin32PathSlash (m_buf p ! 0)
              then if isWin32PathSlash (other ! 0) then [] else m_buf p
              else if m_buf p \<noteq> [] \<and> \<not> isWin32PathSlash (last (m_buf p)) then m_buf p @ [bslash]
              else m_buf p)
           in p\<lparr>m_buf := buf @ other\<rparr>)"

section \<open>Normalisation\<close>

record win32_path =
  w_segments :: "string list"
  w_drive :: char
  w_domain :: string
  w_share :: string

function win32_array_loop :: "string \<Rightarrow> nat \<Rightarrow> nat \<Rightarrow> string list \<Rightarrow> string list" where
  "win32_array_loop p p1 i a =
     (if i < length p
      then if isWin32PathSlash (cstr p i)
           then win32_array_loop p (Suc i) (Suc i) (a @ [substr p p1 (i - p1)])
           else win32_array_loop p p1 (Suc i) a
      else a @ [substr p p1 (i - p1)])"
  by pat_completeness auto
termination by (relation "measure (\<lambda>(p, p1, i, a). length p - i)") auto

function first_nonempty :: "string list \<Rightarrow> nat \<Rightarrow> nat" where
  "first_nonempty a i = (if i < length a \<and> a ! i = [] then first_nonempty a (Suc i) else i)"
  by pat_completeness auto
termination by (relation "measure (\<lambda>(a, i). length a - i)") auto

declare win32_array_loop.simps [simp del] first_nonempty.simps [simp del]

definition path_array_win32 :: "string \<Rightarrow> win32_path" where
  "path_array_win32 path =
     (let drive = drive_prefix path;
          a = (let p = (if drive then drop 2 path else path) in win32_array_loop p 0 0 []);
          w = \<lparr>w_segments = a, w_drive = (if drive then path ! 0 else nul), w_domain = [], w_share = []\<rparr>
      in if \<not> drive \<and> length a > 2 \<and> a ! 0 = [] \<and> a ! 1 = []
         then let i = first_nonempty a 3
              in if a ! 2 = ''.'' \<or> a ! 2 = ''?'' \<or> a ! 2 = [] \<or> length a \<le> i then w\<lparr>w_domain := a ! 2\<rparr>
                 else w\<lparr>w_domain := a ! 2, w_share := a ! i, w_segments := erase_range 2 (Suc i) a\<rparr>
         else w)"

text \<open>The segments after \<open>\\.\\<close>, for which \<open>..\<close> stops at the device.\<close>

definition device_step :: "string \<Rightarrow> string list \<Rightarrow> string list" where
  "device_step seg r =
     (if seg = ''.'' then r
      else if seg = ''..'' then (if r \<noteq> [] \<and> last r \<noteq> ''..'' then butlast r else r)
      else if seg \<noteq> [] then r @ [seg] else r)"

definition device_array :: "string \<Rightarrow> string list \<Rightarrow> string list" where
  "device_array domain a =
     (let r = fold device_step (drop 3 a) []
      in [[], [], domain] @ filter (\<lambda>s. s \<noteq> [] \<or> length r = 1) r)"

definition is_device :: "win32_path \<Rightarrow> bool" where
  "is_device w \<longleftrightarrow> (w_domain w = ''.'' \<or> w_domain w = ''?'') \<and> w_share w = []"

definition win32_prefix :: "win32_path \<Rightarrow> string" where
  "win32_prefix w =
     (if w_drive w \<noteq> nul then [w_drive w, CHR '':'']
      else if w_share w \<noteq> [] then [bslash, bslash] @ w_domain w @ bslash # w_share w
      else if is_device w then [bslash, bslash] @ w_domain w @ [bslash]
      else [])"

definition normalize_win32 :: "bool \<Rightarrow> bool \<Rightarrow> string \<Rightarrow> string" where
  "normalize_win32 removeSlash root path =
     (let hasTrailingSlash = (path \<noteq> [] \<and> isWin32PathSlash (last path));
          w = path_array_win32 path;
          a = (if is_device w then device_array (w_domain w) (w_segments w)
               else normalize_array removeSlash (w_segments w));
          body = join_segments bslash (drop (if is_device w then 3 else 0) a);
          out = win32_prefix w @ body @ (if root \<and> length a = 1 \<and> a ! 0 = [] then [bslash] else [])
      in if is_device w \<and> hasTrailingSlash \<and> out \<noteq> [] \<and> last out \<noteq> bslash then out @ [bslash] else out)"

definition win32_join :: "string list \<Rightarrow> string" where
  "win32_join ps = normalize_win32 False False (m_buf (fold joinWin32 ps new_path))"

definition win32_join_vector :: "string list \<Rightarrow> string" where
  "win32_join_vector ps =
     (if ps = [] then [] else normalize_win32 False False (m_buf (fold joinWin32 ps new_path)))"

definition win32_resolve :: "string \<Rightarrow> string list \<Rightarrow> string" where
  "win32_resolve cwd ps =
     normalize_win32 True True (m_buf (fold resolveWin32 ps (resolveWin32 cwd new_path)))"

definition win32_resolve1 :: "string \<Rightarrow> string \<Rightarrow> string" where
  "win32_resolve1 cwd path =
     normalize_win32 True False (m_buf (resolveWin32 path (resolveWin32 cwd new_path)))"

definition win32_isAbsolute :: "string \<Rightarrow> bool" where
  "win32_isAbsolute path \<longleftrightarrow>
     isWin32PathSlash (cstr path 0) \<or> drive_prefix path \<and> isWin32PathSlash (cstr path 2)"

section \<open>The parts of a path\<close>

text \<open>\<open>split_path_win32\<close>: first the position after the drive or the share, then the backward scan.\<close>

definition win32_root_end :: "string \<Rightarrow> nat \<Rightarrow> bool \<Rightarrow> nat" where
  "win32_root_end p len share =
     (if drive_prefix p then (if isWin32PathSlash (cstr p 2) then 3 else 2)
      else if len > 3 \<and> isWin32PathSlash (cstr p 0) \<and> isWin32PathSlash (cstr p 1)
              \<and> \<not> isWin32PathSlash (cstr p 2)
      then let q = fwd_while (\<lambda>c. \<not> isWin32PathSlash c) p len 3
           in if q < len
              then if share
                   then let r = fwd_while (\<lambda>c. \<not> isWin32PathSlash c) p len (q + 1)
                        in if r < len then r + 1 else r
                   else q + 1
              else q
      else 0)"

definition split_path_win32 :: "string \<Rightarrow> nat \<Rightarrow> bool \<Rightarrow> nat" where
  "split_path_win32 p len share =
     (let lo = win32_root_end p len share;
          p1 = (if len > lo then len - 1 else len)
      in back_while (\<lambda>c. \<not> isWin32PathSlash c) p lo (back_while isWin32PathSlash p lo p1))"

definition last_segment_win32 :: "string \<Rightarrow> nat \<times> nat" where
  "last_segment_win32 path =
     (let p2 = fwd_while isWin32PathSlash path (length path) (split_path_win32 path (length path) False);
          p3 = back_before isWin32PathSlash path p2 (length path)
      in (p2, p3))"

definition win32_basename :: "string \<Rightarrow> string \<Rightarrow> string option" where
  "win32_basename path ext =
     (let (p2, p3) = last_segment_win32 path
      in map_option (\<lambda>p3. substr path p2 (p3 - p2)) (strip_ext path ext (p2, p3)))"

definition win32_extname :: "string \<Rightarrow> string" where
  "win32_extname path = ext_of_segment path (last_segment_win32 path)"

definition win32_dirname :: "string \<Rightarrow> string" where
  "win32_dirname path =
     (let p2 = split_path_win32 path (length path) True
      in if p2 = 0 \<and> \<not> isWin32PathSlash (cstr path p2) then ''.''
         else if take p2 path = [] then [cstr path p2]
         else take p2 path)"

section \<open>Parse\<close>

definition isPathSeparator :: "char \<Rightarrow> bool" where
  "isPathSeparator ch \<longleftrightarrow> ch = CHR ''/'' \<or> ch = CHR 0x5C"

fun trimmed_length :: "string \<Rightarrow> nat \<Rightarrow> nat" where
  "trimmed_length path n =
     (if n > 1 \<and> isPathSeparator (cstr path (n - 1))
      then if n = 3 \<and> drive_prefix path then n
           else if n \<le> 3 \<and> isPathSeparator (cstr path 0) \<and> isPathSeparator (cstr path 1) then n
           else trimmed_length path (n - 1)
      else n)"

declare trimmed_length.simps [simp del]

text \<open>The end of the root \<open>\\server\share\<close>, 1 where one of its parts is missing.\<close>

definition share_end :: "string \<Rightarrow> nat" where
  "share_end path =
     (let len = length path;
          j1 = fwd_while (\<lambda>c. \<not> isPathSeparator c) path len 2
      in if j1 < len \<and> j1 \<noteq> 2
         then let j2 = fwd_while isPathSeparator path len j1
              in if j2 < len \<and> j2 \<noteq> j1
                 then let j3 = fwd_while (\<lambda>c. \<not> isPathSeparator c) path len j2
                      in if j3 = len then j3 else if j3 \<noteq> j2 then j3 + 1 else 1
                 else 1
         else 1)"

definition parse_win32_rest :: "string \<Rightarrow> nat \<Rightarrow> parsed" where
  "parse_win32_rest path rootEnd =
     (let r = (if rootEnd > 0 then no_parts\<lparr>p_root := take rootEnd path\<rparr> else no_parts);
          st = scan_back isPathSeparator path (int rootEnd) (int (length path) - 1)
                 \<lparr>startDot = - 1, startPart = int rootEnd, scan_end = - 1, matchedSlash = True, preDotState = 0\<rparr>;
          r2 = fill_base path (startPart st) st r
      in if startPart st > 0 \<and> startPart st \<noteq> int rootEnd
         then r2\<lparr>p_dir := take (nat (startPart st - 1)) path\<rparr>
         else r2\<lparr>p_dir := p_root r2\<rparr>)"

definition win32_parse :: "string \<Rightarrow> parsed" where
  "win32_parse path0 =
     (if path0 = [] then no_parts
      else let path = take (trimmed_length path0 (length path0)) path0;
               len = length path
           in if len = 1
              then if isPathSeparator (path ! 0) then no_parts\<lparr>p_root := path, p_dir := path\<rparr>
                   else no_parts\<lparr>p_base := path, p_name := path\<rparr>
              else if isPathSeparator (path ! 0)
              then parse_win32_rest path (if isPathSeparator (path ! 1) then share_end path else 1)
              else if drive_prefix path
              then if len \<le> 2 \<or> isPathSeparator (path ! 2) \<and> len = 3
                   then no_parts\<lparr>p_root := path, p_dir := path\<rparr>
                   else parse_win32_rest path (if isPathSeparator (path ! 2) then 3 else 2)
              else parse_win32_rest path 0)"

section \<open>Relative\<close>

text \<open>
  \<open>_relative_win32\<close> compares the resolved paths in lower case, but cuts its result out of the argument
  \<open>to\<close> as it was given. A \<open>substr\<close> that starts behind the end of that string throws: \<open>None\<close>. The
  library function \<open>qstrlwr\<close> is the argument \<open>lwr\<close>.
\<close>

datatype common_win32 = SuffixAt nat | Stopped nat int

function common_prefix_win32 ::
    "string \<Rightarrow> string \<Rightarrow> nat \<Rightarrow> nat \<Rightarrow> nat \<Rightarrow> nat \<Rightarrow> nat \<Rightarrow> nat \<Rightarrow> int \<Rightarrow> common_win32" where
  "common_prefix_win32 from to fromStart toStart fromLen toLen len i lastSep =
     (if i \<le> len
      then if i = len
           then if toLen > len \<and> isWin32PathSlash (cstr to (toStart + i)) then SuffixAt (toStart + i + 1)
                else if toLen > len \<and> i = 2 then SuffixAt (toStart + i)
                else if fromLen > len
                then if isWin32PathSlash (cstr from (fromStart + i)) then Stopped i (int i)
                     else if i = 2 then Stopped i 3
                     else Stopped i lastSep
                else Stopped i lastSep
           else if cstr from (fromStart + i) \<noteq> cstr to (toStart + i) then Stopped i lastSep
           else common_prefix_win32 from to fromStart toStart fromLen toLen len (Suc i)
                  (if isWin32PathSlash (cstr from (fromStart + i)) then int i else lastSep)
      else Stopped i lastSep)"
  by pat_completeness auto
termination by (relation "measure (\<lambda>(f, t, fs, ts, fl, tl, len, i, sep). Suc len - i)") auto

declare common_prefix_win32.simps [simp del]

definition substr_checked :: "string \<Rightarrow> nat \<Rightarrow> string option" where
  "substr_checked s i = (if i \<le> length s then Some (drop i s) else None)"

definition win32_relative_resolved :: "string \<Rightarrow> string \<Rightarrow> string \<Rightarrow> string option" where
  "win32_relative_resolved toOrig from to =
     (let fromStart = fwd_while isWin32PathSlash from (length from) 0;
          fromEnd = back_before isWin32PathSlash from (fromStart + 1) (length from);
          fromLen = fromEnd - fromStart;
          toStart = fwd_while isWin32PathSlash to (length to) 0;
          toEnd = back_before isWin32PathSlash to (toStart + 1) (length to);
          toLen = toEnd - toStart;
          len = min fromLen toLen;
          norm = map_option (normalize_win32 True False)
      in case common_prefix_win32 from to fromStart toStart fromLen toLen len 0 (- 1) of
        SuffixAt k \<Rightarrow> norm (substr_checked toOrig k)
      | Stopped i sep \<Rightarrow>
          if i \<noteq> len \<and> sep = - 1 then norm (Some toOrig)
          else let sep = (if sep = - 1 then 0 else sep);
                   out = dots_up isWin32PathSlash (bslash # ''..'') from fromEnd (nat (int fromStart + sep + 1)) [];
                   t = nat (int toStart + sep)
               in if out \<noteq> [] then norm (map_option (\<lambda>s. out @ s) (substr_checked toOrig t))
                  else norm (substr_checked toOrig (if isWin32PathSlash (cstr toOrig t) then t + 1 else t)))"

definition win32_relative :: "(string \<Rightarrow> string) \<Rightarrow> string \<Rightarrow> string \<Rightarrow> string \<Rightarrow> string option" where
  "win32_relative lwr cwd from to =
     (if from = to then Some []
      else let f = win32_resolve1 cwd from; t = win32_resolve1 cwd to
           in if f = t \<or> lwr f = lwr t then Some []
              else win32_relative_resolved to (lwr f) (lwr t))"

section \<open>Namespaced paths\<close>

definition win32_toNamespacedPath :: "string \<Rightarrow> string \<Rightarrow> string" where
  "win32_toNamespacedPath cwd path =
     (if length path \<ge> 3
      then if length path \<ge> 4 \<and> path ! 0 = bslash \<and> path ! 1 = bslash \<and> path ! 2 = CHR ''?''
           then take 4 path @ map (\<lambda>c. if c = CHR ''/'' then bslash else c) (drop 4 path)
           else let str = win32_resolve1 cwd path
                in if cstr str 0 = bslash \<and> cstr str 1 = bslash
                   then if cstr str 2 \<noteq> CHR ''?'' \<and> cstr str 2 \<noteq> CHR ''.''
                        then [bslash, bslash, CHR ''?'', bslash] @ ''UNC'' @ drop 1 str
                        else path
                   else if qisascii (cstr str 0) \<and> cstr str 1 = CHR '':'' \<and> cstr str 2 = bslash
                   then [bslash, bslash, CHR ''?'', bslash] @ str
                   else path
      else path)"

section \<open>Agreement with POSIX\<close>

definition to_bslash :: "string \<Rightarrow> string" where
  "to_bslash = map (\<lambda>c. if c = CHR ''/'' then bslash else c)"

lemma win32_array_loop_posix:
  "bslash \<notin> set p \<Longrightarrow> win32_array_loop p p1 i a = path_array_loop p p1 i a"
proof (induction p p1 i a rule: win32_array_loop.induct)
  case (1 p p1 i a)
  have "i < length p \<Longrightarrow> isWin32PathSlash (cstr p i) = isPosixPathSlash (cstr p i)"
    using 1(3) by (auto simp: isWin32PathSlash_def isPosixPathSlash_def cstr_def in_set_conv_nth)
  then show ?case
    using 1 by (subst win32_array_loop.simps, subst path_array_loop.simps) simp
qed

lemma split_two_empty:
  "length (split_slash p) > 2 \<Longrightarrow> split_slash p ! 0 = [] \<Longrightarrow> split_slash p ! 1 = [] \<Longrightarrow> take 2 p = ''//''"
  by (cases p rule: split_slash.cases; cases "tl p" rule: split_slash.cases) (auto split: if_splits)

lemma path_array_win32_posix:
  assumes "bslash \<notin> set p" "\<not> drive_prefix p" "take 2 p \<noteq> ''//''"
  shows "path_array_win32 p = \<lparr>w_segments = split_slash p, w_drive = nul, w_domain = [], w_share = []\<rparr>"
proof -
  have "win32_array_loop p 0 0 [] = split_slash p"
    using win32_array_loop_posix [OF assms(1)] path_array_split [of p] by (simp add: path_array_def)
  then show ?thesis
    using assms split_two_empty [of p] by (auto simp: path_array_win32_def Let_def)
qed

lemma set_remove_trailing: "set (remove_trailing a) \<subseteq> set a"
  by (auto simp: remove_trailing_def erase_at_def dest: in_set_takeD)

lemma normalize_array_no_slash:
  assumes "s \<in> set (normalize_array rs (split_slash p))"
  shows "CHR ''/'' \<notin> set s"
proof (cases "p = []")
  case True
  then show ?thesis using assms by (simp add: normalize_array_def)
next
  case False
  let ?st = "\<lambda>ab. enter_all ab (names p) []"
  have st: "\<forall>x\<in>set (?st ab). CHR ''/'' \<notin> set x" for ab
    by (rule enter_all_no_slash) (auto dest: names_no_slash)
  have "set (normalize_array rs (split_slash p)) \<subseteq> {[], ''.''} \<union> set (?st (absolute p))"
    unfolding normalize_array_path [OF False] Let_def
    using set_remove_trailing [of "[] # rev (?st True) @ [[]]"] set_remove_trailing [of "[] # rev (?st True)"]
      set_remove_trailing [of "rev (?st False) @ [[]]"] set_remove_trailing [of "rev (?st False)"]
    by (cases "absolute p"; cases "trailing p"; cases rs; simp; blast)
  then have "s \<in> {[], ''.''} \<union> set (?st (absolute p))" using assms by blast
  then show ?thesis using st by auto
qed

lemma join_bslash:
  "\<forall>s\<in>set ss. CHR ''/'' \<notin> set s \<Longrightarrow> join_segments bslash ss = to_bslash (join_segments CHR ''/'' ss)"
proof (induction ss)
  case (Cons s ss)
  moreover have "to_bslash s = s" using Cons.prems by (auto simp: to_bslash_def intro: map_idI)
  ultimately show ?case by (simp add: join_Cons to_bslash_def)
qed (simp add: to_bslash_def)

text \<open>
  C17: on a path without backslash that starts neither with a drive nor with two slashes, the Windows
  normalisation is the POSIX one with backslashes as separators, for both flags.
\<close>

theorem win32_normalize_posix:
  assumes "bslash \<notin> set p" "\<not> drive_prefix p" "take 2 p \<noteq> ''//''"
  shows "normalize_win32 removeSlash root p = to_bslash (normalize_posix removeSlash root p)"
  using join_bslash [of "normalize_array removeSlash (split_slash p)"] normalize_array_no_slash [of _ removeSlash p]
  by (simp add: normalize_win32_def path_array_win32_posix [OF assms] is_device_def win32_prefix_def Let_def
      normalize_posix_def path_array_split to_bslash_def)

lemma win32_normalize_posix_witness:
  "normalize_win32 False False ''a/./b/../c/'' = to_bslash (normalize_posix False False ''a/./b/../c/'')"
  by (rule win32_normalize_posix) (simp_all add: drive_prefix_def qisascii_def schar_def cstr_def)

text \<open>
  A relative \<open>to\<close>: the positions found in the resolved path are used on the argument, which is too
  short in the first call, and is returned for another directory in the second.
\<close>

lemma win32_relative_to_unresolved:
  "win32_relative (\<lambda>s. s) ''/w/x'' ''a'' ''b'' = None"
  "win32_relative (\<lambda>s. s) ''/w'' [bslash, CHR ''a''] ''c'' = Some ''c''"
  by code_simp+

end
