(* ===== verification/Utf.thy ===== *)
theory Utf
  imports Prelude
begin

text \<open>
  The conversions between UTF-8, UTF-16 and UTF-32 of \<^verbatim>\<open>src/base/utf8.cpp\<close> and the string wrappers of
  \<^verbatim>\<open>include/utf8.h\<close>. The library simdutf, which converts the well-formed stretches of the input, is
  not part of the repository: its functions are the fields of the record \<open>simd\<close>, one record for each
  pair of encodings. The program's own part is the loop around them: recovery after ill-formed input,
  the limit of the destination, and the measuring pass whose result the callers allocate. A destination
  is \<^term>\<open>None\<close> for the null pointer, else its capacity; the result is the returned count with the units
  written. \<open>size_t\<close> is \<^typ>\<open>nat\<close>, with the value of \<open>(size_t)-1\<close> written out.
\<close>

section \<open>The library\<close>

text \<open>\<open>validate_*\<close>, the \<open>count\<close> of \<open>validate_*_with_errors\<close>, \<open>*_length_from_*\<close> and \<open>convert_*_to_*\<close>.\<close>

record ('a, 'b) simd =
  sd_validate :: "'a list \<Rightarrow> bool"
  sd_errors_at :: "'a list \<Rightarrow> nat"
  sd_length :: "'a list \<Rightarrow> nat"
  sd_convert :: "'a list \<Rightarrow> 'b list"

section \<open>Recovery\<close>

definition utf8_seq_len :: "byte \<Rightarrow> nat" where
  "utf8_seq_len c =
     (if c < 0x80 then 1
      else if c \<ge> 0xC2 \<and> c \<le> 0xDF then 2
      else if c \<ge> 0xE0 \<and> c \<le> 0xEF then 3
      else if c \<ge> 0xF0 \<and> c \<le> 0xF4 then 4
      else 0)"

definition second_byte_ok :: "byte \<Rightarrow> byte \<Rightarrow> bool" where
  "second_byte_ok c c1 =
     (if c = 0xE0 then c1 \<ge> 0xA0 \<and> c1 \<le> 0xBF
      else if c = 0xED then c1 \<ge> 0x80 \<and> c1 \<le> 0x9F
      else if c = 0xF0 then c1 \<ge> 0x90 \<and> c1 \<le> 0xBF
      else if c = 0xF4 then c1 \<ge> 0x80 \<and> c1 \<le> 0x8F
      else c1 \<ge> 0x80 \<and> c1 \<le> 0xBF)"

function skip_continuation :: "byte list \<Rightarrow> nat \<Rightarrow> nat \<Rightarrow> nat" where
  "skip_continuation data mx j =
     (if j < length data \<and> j < mx \<and> (data ! j) AND 0xC0 = 0x80 then skip_continuation data mx (Suc j) else j)"
  by pat_completeness auto
termination by (relation "measure (\<lambda>(d, m, j). length d - j)") auto

definition utf8_skip_invalid :: "byte list \<Rightarrow> nat \<Rightarrow> nat" where
  "utf8_skip_invalid data i =
     (let c = data ! i; n = utf8_seq_len c
      in if n = 0 then i + 1
         else if i + 1 \<ge> length data then i + 1
         else if \<not> second_byte_ok c (data ! (i + 1)) then i + 1
         else skip_continuation data (i + n) (i + 2))"

section \<open>Fitting into the destination\<close>

text \<open>The four \<open>*_fit_*\<close> functions: \<open>w src ok i\<close> is the output size and the input size of the character at \<open>i\<close>.\<close>

function fit_loop :: "('a list \<Rightarrow> nat \<Rightarrow> nat \<Rightarrow> nat \<times> nat) \<Rightarrow> 'a list \<Rightarrow> nat \<Rightarrow> nat \<Rightarrow> nat \<Rightarrow> nat \<Rightarrow> nat" where
  "fit_loop w src ok room i used =
     (if i < ok
      then let (u, l) = w src ok i
           in if used + u > room then i else fit_loop w src ok room (i + max 1 l) (used + u)
      else i)"
  by pat_completeness auto
termination by (relation "measure (\<lambda>(w, s, ok, room, i, used). ok - i)") auto

declare skip_continuation.simps [simp del] fit_loop.simps [simp del]

definition utf8_fit_utf16 :: "byte list \<Rightarrow> nat \<Rightarrow> nat \<Rightarrow> nat" where
  "utf8_fit_utf16 src ok room =
     fit_loop (\<lambda>src ok i. let l = (if utf8_seq_len (src ! i) = 0 then 1 else utf8_seq_len (src ! i))
                          in (if l = 4 then 2 else 1, l)) src ok room 0 0"

definition utf8_fit_utf32 :: "byte list \<Rightarrow> nat \<Rightarrow> nat \<Rightarrow> nat" where
  "utf8_fit_utf32 src ok room =
     fit_loop (\<lambda>src ok i. (1, if utf8_seq_len (src ! i) = 0 then 1 else utf8_seq_len (src ! i))) src ok room 0 0"

definition utf16_fit_utf8 :: "16 word list \<Rightarrow> nat \<Rightarrow> nat \<Rightarrow> nat" where
  "utf16_fit_utf8 src ok room =
     fit_loop (\<lambda>src ok i. let c = src ! i in
         if c \<ge> 0xD800 \<and> c \<le> 0xDBFF \<and> i + 1 < ok \<and> src ! (i + 1) \<ge> 0xDC00 \<and> src ! (i + 1) \<le> 0xDFFF then (4, 2)
         else if c < 0x80 then (1, 1)
         else if c < 0x800 then (2, 1)
         else (3, 1)) src ok room 0 0"

definition utf32_cp_utf8_len :: "32 word \<Rightarrow> nat" where
  "utf32_cp_utf8_len c =
     (if c < 0x80 then 1 else if c < 0x800 then 2
      else if c \<ge> 0xD800 \<and> c \<le> 0xDFFF then 3
      else if c < 0x10000 then 3
      else if c \<le> 0x10FFFF then 4 else 3)"

definition utf32_fit_utf8 :: "32 word list \<Rightarrow> nat \<Rightarrow> nat \<Rightarrow> nat" where
  "utf32_fit_utf8 src ok room = fit_loop (\<lambda>src ok i. (utf32_cp_utf8_len (src ! i), 1)) src ok room 0 0"

section \<open>Conversion\<close>

definition size_max :: nat where
  "size_max = 2 ^ 64 - 1"

text \<open>
  The loop that the four overloads of \<open>utf_convert\<close> share: \<open>fit\<close> is their \<open>*_fit_*\<close> function, \<open>skip\<close>
  the position after an ill-formed sequence and \<open>repl\<close> their form of U+FFFD.
\<close>

function convert_loop ::
    "('a, 'b) simd \<Rightarrow> ('a list \<Rightarrow> nat \<Rightarrow> nat \<Rightarrow> nat) \<Rightarrow> ('a list \<Rightarrow> nat \<Rightarrow> nat) \<Rightarrow> 'b list \<Rightarrow> bool \<Rightarrow> nat \<Rightarrow>
      bool \<Rightarrow> 'a list \<Rightarrow> nat \<Rightarrow> nat \<Rightarrow> 'b list \<Rightarrow> nat \<times> 'b list" where
  "convert_loop S fit skip repl measuring cap all_valid src i n out =
     (if i < length src \<and> n < cap
      then let rest = drop i src;
               ok = (if all_valid then length rest else sd_errors_at S rest)
           in if ok \<noteq> 0
              then let need = sd_length S (take ok rest)
                   in if n + need \<le> cap
                      then if measuring
                           then convert_loop S fit skip repl measuring cap all_valid src (i + ok) (n + need) out
                           else let w = sd_convert S (take ok rest)
                                in convert_loop S fit skip repl measuring cap all_valid src (i + ok)
                                     (n + length w) (out @ w)
                      else let k = fit rest ok (cap - n)
                           in if k \<noteq> 0
                              then let w = sd_convert S (take k rest) in (n + length w, out @ w)
                              else (n, out)
              else if \<not> measuring \<and> cap - n < length repl then (n, out)
              else convert_loop S fit skip repl measuring cap all_valid src
                     (if skip src i > i then skip src i else i + 1)
                     (n + length repl) (if measuring then out else out @ repl)
      else (n, out))"
  by pat_completeness auto
termination
  by (relation "measure (\<lambda>(S, fit, skip, repl, m, cap, av, src, i, n, out). length src - i)")
    (auto split: if_splits)

declare convert_loop.simps [simp del]

definition utf_convert ::
    "('a, 'b) simd \<Rightarrow> ('a list \<Rightarrow> nat \<Rightarrow> nat \<Rightarrow> nat) \<Rightarrow> ('a list \<Rightarrow> nat \<Rightarrow> nat) \<Rightarrow> 'b list \<Rightarrow>
      nat option \<Rightarrow> 'a list \<Rightarrow> nat \<times> 'b list" where
  "utf_convert S fit skip repl dst src =
     (if src = [] then (0, [])
      else convert_loop S fit skip repl (dst = None) (case dst of None \<Rightarrow> size_max | Some cap \<Rightarrow> cap)
             (sd_validate S src) src 0 0 [])"

definition utf8_to_utf16 :: "(byte, 16 word) simd \<Rightarrow> nat option \<Rightarrow> byte list \<Rightarrow> nat \<times> 16 word list" where
  "utf8_to_utf16 S = utf_convert S utf8_fit_utf16 utf8_skip_invalid [0xFFFD]"

definition utf16_to_utf8 :: "(16 word, byte) simd \<Rightarrow> nat option \<Rightarrow> 16 word list \<Rightarrow> nat \<times> byte list" where
  "utf16_to_utf8 S = utf_convert S utf16_fit_utf8 (\<lambda>src i. i + 1) [0xEF, 0xBF, 0xBD]"

definition utf8_to_utf32 :: "(byte, 32 word) simd \<Rightarrow> nat option \<Rightarrow> byte list \<Rightarrow> nat \<times> 32 word list" where
  "utf8_to_utf32 S = utf_convert S utf8_fit_utf32 utf8_skip_invalid [0xFFFD]"

definition utf32_to_utf8 :: "(32 word, byte) simd \<Rightarrow> nat option \<Rightarrow> 32 word list \<Rightarrow> nat \<times> byte list" where
  "utf32_to_utf8 S = utf_convert S utf32_fit_utf8 (\<lambda>src i. i + 1) [0xEF, 0xBF, 0xBD]"

section \<open>The other byte order\<close>

text \<open>\<open>utf8_measure_units\<close>, whose \<open>units_per_cp\<close> selects the length function of the library.\<close>

function measure_loop :: "(byte, 'b) simd \<Rightarrow> bool \<Rightarrow> byte list \<Rightarrow> nat \<Rightarrow> nat \<Rightarrow> nat" where
  "measure_loop S all_valid src i n =
     (if i < length src
      then let rest = drop i src;
               ok = (if all_valid then length rest else sd_errors_at S rest)
           in if ok \<noteq> 0 then measure_loop S all_valid src (i + ok) (n + sd_length S (take ok rest))
              else measure_loop S all_valid src
                     (if utf8_skip_invalid src i > i then utf8_skip_invalid src i else i + 1) (n + 1)
      else n)"
  by pat_completeness auto
termination by (relation "measure (\<lambda>(S, av, src, i, n). length src - i)") (auto split: if_splits)

declare measure_loop.simps [simp del]

definition utf8_measure_units :: "(byte, 'b) simd \<Rightarrow> byte list \<Rightarrow> nat" where
  "utf8_measure_units S src = measure_loop S (sd_validate S src) src 0 0"

definition utf16_bswap :: "16 word \<Rightarrow> 16 word" where
  "utf16_bswap v = drop_bit 8 v OR push_bit 8 v"

definition utf32_bswap :: "32 word \<Rightarrow> 32 word" where
  "utf32_bswap v =
     push_bit 24 (v AND 0x000000ff) OR push_bit 8 (v AND 0x0000ff00)
     OR drop_bit 8 (v AND 0x00ff0000) OR drop_bit 24 (v AND 0xff000000)"

text \<open>\<open>BE\<close> is the pair of encodings with big-endian UTF-16, of which the code uses the conversion only.\<close>

definition utf8_to_utf16_s ::
    "(byte, 16 word) simd \<Rightarrow> (byte, 16 word) simd \<Rightarrow> nat option \<Rightarrow> byte list \<Rightarrow> nat \<times> 16 word list" where
  "utf8_to_utf16_s S BE dst src =
     (if src = [] then (0, [])
      else case dst of
        None \<Rightarrow> (utf8_measure_units S src, [])
      | Some cap \<Rightarrow>
          if \<not> sd_validate S src
          then let need = min (utf8_measure_units S src) cap
               in if need = 0 then (0, [])
                  else let (n, w) = utf8_to_utf16 S (Some need) src in (n, map utf16_bswap w)
          else if sd_length S src > cap
          then let (n, w) = utf8_to_utf16 S (Some (cap + 1)) src; n = min n cap
               in (n, map utf16_bswap (take n w))
          else let w = sd_convert BE src in (length w, w))"

definition utf16_to_utf8_s ::
    "(16 word, byte) simd \<Rightarrow> (16 word, byte) simd \<Rightarrow> nat option \<Rightarrow> 16 word list \<Rightarrow> nat \<times> byte list" where
  "utf16_to_utf8_s S BE dst src =
     (if src = [] then (0, [])
      else if sd_validate BE src
      then (case dst of None \<Rightarrow> (sd_length BE src, []) | Some cap \<Rightarrow> (length (sd_convert BE src), sd_convert BE src))
      else utf16_to_utf8 S dst (map utf16_bswap src))"

definition utf8_to_utf32_s :: "(byte, 32 word) simd \<Rightarrow> nat option \<Rightarrow> byte list \<Rightarrow> nat \<times> 32 word list" where
  "utf8_to_utf32_s S dst src =
     (if src = [] then (0, [])
      else case dst of
        None \<Rightarrow> (utf8_measure_units S src, [])
      | Some cap \<Rightarrow> let (n, w) = utf8_to_utf32 S (Some cap) src in (n, map utf32_bswap w))"

definition utf32_to_utf8_s :: "(32 word, byte) simd \<Rightarrow> nat option \<Rightarrow> 32 word list \<Rightarrow> nat \<times> byte list" where
  "utf32_to_utf8_s S dst src =
     (if src = [] then (0, [])
      else case dst of
        None \<Rightarrow> (sum_list (map (\<lambda>c. utf32_cp_utf8_len (utf32_bswap c)) src), [])
      | Some cap \<Rightarrow> utf32_to_utf8 S (Some cap) (map utf32_bswap src))"

section \<open>Strings\<close>

text \<open>
  The wrappers of \<open>utf8.h\<close>: \<open>resize\<close> to the measured size fills the string with zeros, and the second
  call writes over its beginning.
\<close>

definition via_measure :: "'b \<Rightarrow> (nat option \<Rightarrow> 'a list \<Rightarrow> nat \<times> 'b list) \<Rightarrow> 'a list \<Rightarrow> 'b list" where
  "via_measure zero f src =
     (if src = [] then []
      else let n = fst (f None src); w = snd (f (Some n) src) in w @ replicate (n - length w) zero)"

definition utf8to16String :: "(byte, 16 word) simd \<Rightarrow> byte list \<Rightarrow> 16 word list" where
  "utf8to16String S = via_measure 0 (utf8_to_utf16 S)"

definition utf16to8String :: "(16 word, byte) simd \<Rightarrow> 16 word list \<Rightarrow> byte list" where
  "utf16to8String S = via_measure 0 (utf16_to_utf8 S)"

definition utf8to32String :: "(byte, 32 word) simd \<Rightarrow> byte list \<Rightarrow> 32 word list" where
  "utf8to32String S = via_measure 0 (utf8_to_utf32 S)"

definition utf32to8String :: "(32 word, byte) simd \<Rightarrow> 32 word list \<Rightarrow> byte list" where
  "utf32to8String S = via_measure 0 (utf32_to_utf8 S)"

definition utf8to16String_s :: "(byte, 16 word) simd \<Rightarrow> (byte, 16 word) simd \<Rightarrow> byte list \<Rightarrow> 16 word list" where
  "utf8to16String_s S BE = via_measure 0 (utf8_to_utf16_s S BE)"

definition utf16to8String_s :: "(16 word, byte) simd \<Rightarrow> (16 word, byte) simd \<Rightarrow> 16 word list \<Rightarrow> byte list" where
  "utf16to8String_s S BE = via_measure 0 (utf16_to_utf8_s S BE)"

definition utf8to32String_s :: "(byte, 32 word) simd \<Rightarrow> byte list \<Rightarrow> 32 word list" where
  "utf8to32String_s S = via_measure 0 (utf8_to_utf32_s S)"

definition utf32to8String_s :: "(32 word, byte) simd \<Rightarrow> 32 word list \<Rightarrow> byte list" where
  "utf32to8String_s S = via_measure 0 (utf32_to_utf8_s S)"

end
