(* ===== verification/UtfScan.thy ===== *)
theory UtfScan
  imports Utf
begin

text \<open>
  What the conversion loop of \<^verbatim>\<open>src/base/utf8.cpp\<close> computes, for any encoding. An encoding is a function
  that reads one character from the start of a list (locale \<open>scanner\<close>); the documented behaviour of
  simdutf for a pair of encodings is the locale \<open>transcoder\<close>; and \<open>converter\<close> adds what the loop needs
  of the program's own recovery and fitting functions. In it the loop is shown to convert
  character by character, one replacement for each ill-formed piece, as far as the destination reaches.
\<close>

section \<open>Scanning\<close>

function vprefix :: "('a list \<Rightarrow> (nat \<times> nat) option) \<Rightarrow> 'a list \<Rightarrow> nat" where
  "vprefix step xs =
     (case step xs of None \<Rightarrow> 0
      | Some (c, k) \<Rightarrow> if 0 < k \<and> k \<le> length xs then k + vprefix step (drop k xs) else 0)"
  by pat_completeness auto
termination by (relation "measure (\<lambda>(s, xs). length xs)") auto

definition wellformed :: "('a list \<Rightarrow> (nat \<times> nat) option) \<Rightarrow> 'a list \<Rightarrow> bool" where
  "wellformed step xs \<longleftrightarrow> vprefix step xs = length xs"

function chars :: "('a list \<Rightarrow> (nat \<times> nat) option) \<Rightarrow> ('a list \<Rightarrow> nat) \<Rightarrow> 'a list \<Rightarrow> nat list" where
  "chars step sub xs =
     (if xs = [] then []
      else case step xs of
        Some (c, k) \<Rightarrow> c # chars step sub (drop (max 1 k) xs)
      | None \<Rightarrow> 0xFFFD # chars step sub (drop (max 1 (sub xs)) xs))"
  by pat_completeness auto
termination by (relation "measure (\<lambda>(s, sub, xs). length xs)") auto

definition decode :: "('a list \<Rightarrow> (nat \<times> nat) option) \<Rightarrow> 'a list \<Rightarrow> nat list" where
  "decode step xs = chars step (\<lambda>_. 1) xs"

function fits :: "('a list \<Rightarrow> (nat \<times> nat) option) \<Rightarrow> (nat \<Rightarrow> 'b list) \<Rightarrow> 'a list \<Rightarrow> nat \<Rightarrow> nat" where
  "fits step enc xs room =
     (case step xs of None \<Rightarrow> 0
      | Some (c, k) \<Rightarrow>
          if 0 < k \<and> k \<le> length xs \<and> length (enc c) \<le> room
          then k + fits step enc (drop k xs) (room - length (enc c)) else 0)"
  by pat_completeness auto
termination by (relation "measure (\<lambda>(s, e, xs, r). length xs)") auto

declare vprefix.simps [simp del] chars.simps [simp del] fits.simps [simp del]

fun take_fit :: "nat \<Rightarrow> 'a list list \<Rightarrow> 'a list" where
  "take_fit room [] = []"
| "take_fit room (u # us) = (if length u \<le> room then u @ take_fit (room - length u) us else [])"

lemma take_fit_append:
  "length (concat us) \<le> room \<Longrightarrow> take_fit room (us @ vs) = concat us @ take_fit (room - length (concat us)) vs"
  by (induction us arbitrary: room) auto

lemma take_fit_all: "length (concat us) \<le> room \<Longrightarrow> take_fit room us = concat us"
  using take_fit_append [of us room "[]"] by simp

lemma take_fit_prefix: "room < length (concat us) \<Longrightarrow> take_fit room (us @ vs) = take_fit room us"
  by (induction us arbitrary: room) auto

lemma take_fit_zero: "[] \<notin> set us \<Longrightarrow> take_fit 0 us = []"
  by (cases us) auto

lemma length_take_fit: "length (take_fit room us) \<le> room"
  by (induction us arbitrary: room) (auto, metis add_le_cancel_left le_add_diff_inverse)

locale scanner =
  fixes step :: "'a list \<Rightarrow> (nat \<times> nat) option"
  assumes step_bound: "step xs = Some (c, k) \<Longrightarrow> 0 < k \<and> k \<le> length xs"
    and step_take: "step xs = Some (c, k) \<Longrightarrow> k \<le> m \<Longrightarrow> step (take m xs) = Some (c, k)"
begin

lemma step_Nil [simp]: "step [] = None"
  using step_bound [of "[]"] by (cases "step []") auto

lemma vprefix_Some: "step xs = Some (c, k) \<Longrightarrow> vprefix step xs = k + vprefix step (drop k xs)"
  using step_bound by (subst vprefix.simps) auto

lemma vprefix_None: "step xs = None \<Longrightarrow> vprefix step xs = 0"
  by (subst vprefix.simps) auto

lemma vprefix_zero: "vprefix step xs = 0 \<longleftrightarrow> step xs = None"
proof (cases "step xs")
  case (Some p)
  then show ?thesis using step_bound [of xs "fst p" "snd p"] vprefix_Some [of xs "fst p" "snd p"] by auto
qed (simp add: vprefix_None)

lemma chars_Nil [simp]: "chars step sub [] = []"
  by (subst chars.simps) simp

lemma chars_Some: "step xs = Some (c, k) \<Longrightarrow> chars step sub xs = c # chars step sub (drop k xs)"
  using step_bound [of xs c k] by (subst chars.simps) (auto simp: max_def)

lemma chars_None:
  "step xs = None \<Longrightarrow> xs \<noteq> [] \<Longrightarrow> chars step sub xs = 0xFFFD # chars step sub (drop (max 1 (sub xs)) xs)"
  by (subst chars.simps) auto

lemma step_induct [case_names None Some]:
  assumes "\<And>xs. step xs = None \<Longrightarrow> P xs"
    and "\<And>xs c k. step xs = Some (c, k) \<Longrightarrow> 0 < k \<Longrightarrow> k \<le> length xs \<Longrightarrow> P (drop k xs) \<Longrightarrow> P xs"
  shows "P xs"
proof (induction "length xs" arbitrary: xs rule: less_induct)
  case less
  show ?case
  proof (cases "step xs")
    case (Some p)
    then have s: "step xs = Some (fst p, snd p)" by simp
    then show ?thesis using assms(2) [OF s] step_bound [OF s] less by auto
  qed (rule assms(1))
qed

lemma vprefix_le: "vprefix step xs \<le> length xs"
  by (induction xs rule: step_induct) (auto simp: vprefix_None vprefix_Some)

lemma chars_split:
  "chars step sub xs = decode step (take (vprefix step xs) xs) @ chars step sub (drop (vprefix step xs) xs)"
proof (induction xs rule: step_induct)
  case (Some xs c k)
  have t: "step (take (k + vprefix step (drop k xs)) xs) = Some (c, k)"
    by (rule step_take [OF Some(1)]) simp
  show ?case
    using Some by (simp add: vprefix_Some decode_def chars_Some [OF t] chars_Some add.commute drop_take)
qed (simp add: vprefix_None decode_def)

lemma wellformed_take_step:
  assumes s: "step xs = Some (c, k)" and wf: "wellformed step (take n (drop k xs))"
  shows "wellformed step (take (k + n) xs)"
proof -
  have k: "k \<le> length xs" using step_bound [OF s] by simp
  have "step (take (k + n) xs) = Some (c, k)"
    by (rule step_take [OF s]) simp
  then have "vprefix step (take (k + n) xs) = k + vprefix step (take n (drop k xs))"
    by (simp add: vprefix_Some drop_take)
  moreover have "length (take (k + n) xs) = k + length (take n (drop k xs))"
    using k by (auto simp: min_def)
  ultimately show ?thesis using wf by (simp add: wellformed_def)
qed

lemma wellformed_take: "wellformed step (take (vprefix step xs) xs)"
proof (induction xs rule: step_induct)
  case (Some xs c k)
  then show ?case
    by (simp add: vprefix_Some [OF Some(1)] wellformed_take_step [OF Some(1)])
qed (simp add: vprefix_None wellformed_def)

lemma chars_wellformed: "wellformed step xs \<Longrightarrow> chars step sub xs = decode step xs"
  using chars_split [of sub xs] by (simp add: wellformed_def)

lemma wellformed_cases:
  assumes "wellformed step xs" "xs \<noteq> []"
  obtains c k where "step xs = Some (c, k)" "0 < k" "k \<le> length xs" "wellformed step (drop k xs)"
proof (cases "step xs")
  case None
  then show thesis using assms by (simp add: wellformed_def vprefix_None)
next
  case (Some p)
  then have s: "step xs = Some (fst p, snd p)" by simp
  show thesis
    by (rule that [OF s]) (use step_bound [OF s] assms vprefix_Some [OF s] in \<open>auto simp: wellformed_def\<close>)
qed

lemma fits_spec:
  "wellformed step xs \<Longrightarrow>
     wellformed step (take (fits step enc xs room) xs)
     \<and> concat (map enc (decode step (take (fits step enc xs room) xs)))
        = take_fit room (map enc (decode step xs))
     \<and> (fits step enc xs room = 0 \<longrightarrow> take_fit room (map enc (decode step xs)) = [])"
proof (induction xs arbitrary: room rule: step_induct)
  case (None xs)
  then have "xs = []" by (simp add: wellformed_def vprefix_None)
  with None show ?case by (subst (1 2 3) fits.simps) (simp add: decode_def wellformed_def vprefix_None)
next
  case (Some xs c k)
  have wf: "wellformed step (drop k xs)"
    using Some.prems Some.hyps vprefix_Some [OF Some(1)] by (auto simp: wellformed_def)
  have d: "decode step xs = c # decode step (drop k xs)"
    by (simp add: decode_def chars_Some [OF Some(1)])
  show ?case
  proof (cases "length (enc c) \<le> room")
    case False
    then have "fits step enc xs room = 0"
      by (subst fits.simps) (simp add: Some(1))
    then show ?thesis using False by (simp add: d wellformed_def vprefix_None) (simp add: decode_def)
  next
    case True
    let ?f = "fits step enc (drop k xs) (room - length (enc c))"
    have f: "fits step enc xs room = k + ?f"
      using True Some.hyps by (subst fits.simps) simp
    have t: "step (take (k + ?f) xs) = Some (c, k)"
      by (rule step_take [OF Some(1)]) simp
    note IH = Some.IH [OF wf, of "room - length (enc c)"]
    have "wellformed step (take (k + ?f) xs)"
      by (rule wellformed_take_step [OF Some(1)]) (use IH in simp)
    moreover have "decode step (take (k + ?f) xs) = c # decode step (take ?f (drop k xs))"
      by (simp add: decode_def chars_Some [OF t] drop_take)
    ultimately show ?thesis
      using IH True Some.hyps by (simp add: f d)
  qed
qed

text \<open>A \<open>*_fit_*\<close> loop that knows the sizes of each character.\<close>

lemma fit_loop_fits:
  assumes w: "\<And>i c k. i < ok \<Longrightarrow> step (drop i (take ok src)) = Some (c, k) \<Longrightarrow> w src ok i = (length (enc c), k)"
    and ok: "ok \<le> length src"
  shows "wellformed step (drop i (take ok src)) \<Longrightarrow> i \<le> ok \<Longrightarrow> used \<le> room \<Longrightarrow>
     fit_loop w src ok room i used = i + fits step enc (drop i (take ok src)) (room - used)"
proof (induction "ok - i" arbitrary: i used rule: less_induct)
  case less
  show ?case
  proof (cases "i < ok")
    case False
    then show ?thesis using less.prems by (subst fit_loop.simps, subst fits.simps) simp
  next
    case True
    then have ne: "drop i (take ok src) \<noteq> []" using ok by simp
    obtain c k where s: "step (drop i (take ok src)) = Some (c, k)" "0 < k"
      "k \<le> length (drop i (take ok src))" "wellformed step (drop k (drop i (take ok src)))"
      by (rule wellformed_cases [OF less.prems(1) ne])
    have k: "max 1 k = k" "i + k \<le> ok" using s(2,3) True by (auto simp: max_def)
    have wf: "wellformed step (drop (i + k) (take ok src))"
      using s(4) by (simp add: add.commute)
    have fs: "fits step enc (drop i (take ok src)) (room - used) =
        (if length (enc c) \<le> room - used
         then k + fits step enc (drop (i + k) (take ok src)) (room - used - length (enc c)) else 0)"
      using s by (subst fits.simps) (simp add: add.commute)
    show ?thesis
    proof (cases "used + length (enc c) > room")
      case over: True
      then have "\<not> length (enc c) \<le> room - used" using less.prems(3) by simp
      then show ?thesis unfolding fs using over True w [OF True s(1)] less.prems
        by (subst fit_loop.simps) simp
    next
      case False
      then have "length (enc c) \<le> room - used" using less.prems(3) by simp
      note fs' = fs [unfolded if_P [OF this]]
      from False have IH: "fit_loop w src ok room (i + k) (used + length (enc c)) =
          i + k + fits step enc (drop (i + k) (take ok src)) (room - (used + length (enc c)))"
        using less.hyps [OF _ wf] s(2) True k by simp
      show ?thesis unfolding fs' using True False w [OF True s(1)] less.prems k IH
        by (subst fit_loop.simps) simp
    qed
  qed
qed

end

section \<open>Transcoders\<close>

locale transcoder = scanner step for step :: "'a list \<Rightarrow> (nat \<times> nat) option" +
  fixes enc :: "nat \<Rightarrow> 'b list" and S :: "('a, 'b) simd"
  assumes sd_validate: "sd_validate S xs = wellformed step xs"
    and sd_errors_at: "sd_errors_at S xs = vprefix step xs"
    and sd_convert: "wellformed step xs \<Longrightarrow> sd_convert S xs = concat (map enc (decode step xs))"
    and sd_length: "wellformed step xs \<Longrightarrow> sd_length S xs = length (concat (map enc (decode step xs)))"

context scanner begin

lemma fits_le: "fits step enc xs room \<le> length xs"
proof (induction xs arbitrary: room rule: step_induct)
  case (None xs)
  then show ?case by (subst fits.simps) simp
next
  case (Some xs c k)
  show ?case using Some(4) [of "room - length (enc c)"] Some(1-3) by (subst fits.simps) auto
qed

end

locale converter = transcoder step enc S
  for step :: "'a list \<Rightarrow> (nat \<times> nat) option" and enc :: "nat \<Rightarrow> 'b list" and S :: "('a, 'b) simd" +
  fixes sub :: "'a list \<Rightarrow> nat" and fit :: "'a list \<Rightarrow> nat \<Rightarrow> nat \<Rightarrow> nat"
    and skip :: "'a list \<Rightarrow> nat \<Rightarrow> nat" and repl :: "'b list"
  assumes enc_ne: "enc c \<noteq> []"
    and repl: "repl = enc 0xFFFD"
    and fit: "wellformed step (take ok xs) \<Longrightarrow> ok \<le> length xs \<Longrightarrow> fit xs ok room = fits step enc (take ok xs) room"
    and skip: "i < length xs \<Longrightarrow> step (drop i xs) = None \<Longrightarrow>
      (if skip xs i > i then skip xs i else i + 1) = i + max 1 (sub (drop i xs))"
begin

definition lenient :: "'a list \<Rightarrow> 'b list list" where
  "lenient xs = map enc (chars step sub xs)"

lemma lenient_Nil [simp]: "lenient [] = []"
  by (simp add: lenient_def)

lemma lenient_no_empty: "[] \<notin> set (lenient xs)"
  using enc_ne by (auto simp: lenient_def dest: sym)

lemma stretch:
  assumes "av \<longrightarrow> wellformed step xs"
  defines "ok \<equiv> (if av then length xs else sd_errors_at S xs)"
  shows "ok \<le> length xs" "wellformed step (take ok xs)"
    "lenient xs = map enc (decode step (take ok xs)) @ lenient (drop ok xs)"
    "av \<longrightarrow> wellformed step (drop ok xs)"
proof -
  have ok: "ok = vprefix step xs"
    using assms by (auto simp: sd_errors_at wellformed_def)
  show "ok \<le> length xs" by (simp add: ok vprefix_le)
  show "wellformed step (take ok xs)" by (simp add: ok wellformed_take)
  show "lenient xs = map enc (decode step (take ok xs)) @ lenient (drop ok xs)"
    using chars_split [of sub xs] by (simp add: ok lenient_def)
  show "av \<longrightarrow> wellformed step (drop ok xs)"
    by (simp add: ok_def wellformed_def vprefix_None)
qed

lemma at_error:
  assumes "step xs = None" "xs \<noteq> []"
  shows "lenient xs = repl # lenient (drop (max 1 (sub xs)) xs)"
  using chars_None [OF assms] by (simp add: lenient_def repl)

lemma convert_loop_spec:
  "n \<le> cap \<Longrightarrow> (av \<longrightarrow> wellformed step (drop i src)) \<Longrightarrow>
     convert_loop S fit skip repl False cap av src i n out =
       (n + length (take_fit (cap - n) (lenient (drop i src))), out @ take_fit (cap - n) (lenient (drop i src)))"
proof (induction "length src - i" arbitrary: i n out rule: less_induct)
  case less
  show ?case
  proof (cases "i < length src \<and> n < cap")
    case False
    then show ?thesis
      using less.prems(1) lenient_no_empty
      by (subst convert_loop.simps) (auto simp: take_fit_zero)
  next
    case True
    let ?rest = "drop i src" and ?ok = "if av then length (drop i src) else sd_errors_at S (drop i src)"
    note st = stretch [OF less.prems(2)]
    let ?w = "concat (map enc (decode step (take ?ok ?rest)))"
    have sd: "sd_convert S (take ?ok ?rest) = ?w" "sd_length S (take ?ok ?rest) = length ?w"
      using st(2) by (rule sd_convert, rule sd_length)
    show ?thesis
    proof (cases "?ok = 0")
      case False
      show ?thesis
      proof (cases "n + length ?w \<le> cap")
        case fitting: True
        have "convert_loop S fit skip repl False cap av src i n out =
            convert_loop S fit skip repl False cap av src (i + ?ok) (n + length ?w) (out @ ?w)"
          using True False fitting sd by (subst convert_loop.simps) (simp add: Let_def)
        also have "\<dots> = (n + length ?w + length (take_fit (cap - (n + length ?w)) (lenient (drop (i + ?ok) src))),
            (out @ ?w) @ take_fit (cap - (n + length ?w)) (lenient (drop (i + ?ok) src)))"
          by (rule less.hyps) (use True False fitting st(4) in \<open>auto simp: add.commute\<close>)
        finally show ?thesis
          using st(3) fitting by (simp add: take_fit_append add.commute)
      next
        case over: False
        let ?k = "fit ?rest ?ok (cap - n)"
        have "\<not> n + m \<le> cap \<Longrightarrow> cap - n < m" for m using True by linarith
        note ov = this [OF over]
        have k: "?k = fits step enc (take ?ok ?rest) (cap - n)"
          by (rule fit [OF st(2,1)])
        have kle: "take ?k (take ?ok ?rest) = take ?k ?rest"
          using fits_le [of enc "take ?ok ?rest" "cap - n"] by (simp add: k min_absorb1)
        note fs = fits_spec [OF st(2), of enc "cap - n", folded k, unfolded kle]
        have T: "take_fit (cap - n) (lenient ?rest) = take_fit (cap - n) (map enc (decode step (take ?ok ?rest)))"
          unfolding st(3) by (rule take_fit_prefix [OF ov])
        have c: "sd_convert S (take ?k ?rest) = take_fit (cap - n) (lenient ?rest)"
          using fs sd_convert [of "take ?k ?rest"] T by simp
        have "convert_loop S fit skip repl False cap av src i n out =
            (if ?k \<noteq> 0 then (n + length (sd_convert S (take ?k ?rest)), out @ sd_convert S (take ?k ?rest)) else (n, out))"
          using True False over sd by (subst convert_loop.simps) (simp add: Let_def)
        then show ?thesis using c fs T by auto
      qed
    next
      case ok0: True
      then have none: "step ?rest = None" 
        using True st(2) less.prems(2) by (auto simp: sd_errors_at vprefix_zero split: if_splits)
      have len: "lenient ?rest = repl # lenient (drop (i + max 1 (sub ?rest)) src)"
        using at_error [OF none] True by (simp add: add.commute)
      show ?thesis
      proof (cases "cap - n < length repl")
        case no_room: True
        then show ?thesis using True ok0 len
          by (subst convert_loop.simps) (simp add: Let_def)
      next
        case False
        have "convert_loop S fit skip repl False cap av src i n out =
            convert_loop S fit skip repl False cap av src (i + max 1 (sub ?rest)) (n + length repl) (out @ repl)"
          using True ok0 False skip [OF _ none] by (subst convert_loop.simps) (simp add: Let_def)
        also have "\<dots> = (n + length repl + length (take_fit (cap - (n + length repl)) (lenient (drop (i + max 1 (sub ?rest)) src))),
            (out @ repl) @ take_fit (cap - (n + length repl)) (lenient (drop (i + max 1 (sub ?rest)) src)))"
          by (rule less.hyps) (use True False ok0 in \<open>auto split: if_splits\<close>)
        finally show ?thesis using False len by simp
      qed
    qed
  qed
qed

lemma convert_loop_measure:
  "n + length (concat (lenient (drop i src))) \<le> cap \<Longrightarrow> (av \<longrightarrow> wellformed step (drop i src)) \<Longrightarrow>
     convert_loop S fit skip repl True cap av src i n out =
       (n + length (concat (lenient (drop i src))), out)"
proof (induction "length src - i" arbitrary: i n rule: less_induct)
  case less
  show ?case
  proof (cases "i < length src \<and> n < cap")
    case False
    then have "lenient (drop i src) = []"
      using less.prems(1) lenient_no_empty [of "drop i src"] by (cases "lenient (drop i src)"; cases "hd (lenient (drop i src))") auto
    then show ?thesis using False by (subst convert_loop.simps) auto
  next
    case True
    let ?rest = "drop i src" and ?ok = "if av then length (drop i src) else sd_errors_at S (drop i src)"
    note st = stretch [OF less.prems(2)]
    let ?w = "concat (map enc (decode step (take ?ok ?rest)))"
    have sd: "sd_length S (take ?ok ?rest) = length ?w"
      using st(2) by (rule sd_length)
    show ?thesis
    proof (cases "?ok = 0")
      case False
      have room: "n + length ?w + length (concat (lenient (drop (i + ?ok) src))) \<le> cap"
        using less.prems(1) unfolding st(3) by (simp add: add.commute)
      have "convert_loop S fit skip repl True cap av src i n out =
          convert_loop S fit skip repl True cap av src (i + ?ok) (n + length ?w) out"
        using True False room sd by (subst convert_loop.simps) (simp add: Let_def)
      also have "\<dots> = (n + length ?w + length (concat (lenient (drop (i + ?ok) src))), out)"
        by (rule less.hyps) (use True False room st(4) in \<open>auto simp: add.commute\<close>)
      finally show ?thesis unfolding st(3) by (simp add: add.commute add.left_commute)
    next
      case ok0: True
      then have none: "step ?rest = None" 
        using True less.prems(2) by (auto simp: sd_errors_at vprefix_zero split: if_splits)
      have len: "lenient ?rest = repl # lenient (drop (i + max 1 (sub ?rest)) src)"
        using at_error [OF none] True by (simp add: add.commute)
      have "convert_loop S fit skip repl True cap av src i n out =
          convert_loop S fit skip repl True cap av src (i + max 1 (sub ?rest)) (n + length repl) out"
        using True ok0 skip [OF _ none] by (subst convert_loop.simps) (simp add: Let_def)
      also have "\<dots> = (n + length repl + length (concat (lenient (drop (i + max 1 (sub ?rest)) src))), out)"
        by (rule less.hyps) (use True ok0 less.prems(1) len in \<open>auto split: if_splits\<close>)
      finally show ?thesis using len by simp
    qed
  qed
qed

lemma utf_convert_some:
  "utf_convert S fit skip repl (Some cap) src =
     (length (take_fit cap (lenient src)), take_fit cap (lenient src))"
  using convert_loop_spec [of 0 cap "sd_validate S src" 0 src "[]"]
  by (auto simp: utf_convert_def sd_validate)

lemma utf_convert_none:
  "length (concat (lenient src)) \<le> size_max \<Longrightarrow>
     utf_convert S fit skip repl None src = (length (concat (lenient src)), [])"
  using convert_loop_measure [of 0 0 src size_max "sd_validate S src" "[]"]
  by (auto simp: utf_convert_def sd_validate)

end

end
