(* ===== verification/UtfSpec.thy ===== *)
theory UtfSpec
  imports UtfScan
begin

text \<open>
  The encodings of the Unicode standard (table 3-7 for UTF-8, surrogate pairs for UTF-16), the replacement
  of maximal subparts, and the proofs that the recovery and fitting functions of
  \<^verbatim>\<open>src/base/utf8.cpp\<close> are the ones the locale \<open>converter\<close> asks for; with that the string wrappers
  compute the standard's lossy conversion and are inverse to each other on well-formed text.
\<close>

section \<open>The encodings\<close>

definition continuation :: "byte \<Rightarrow> bool" where
  "continuation b \<longleftrightarrow> 0x80 \<le> b \<and> b \<le> 0xBF"

definition second_byte :: "byte \<Rightarrow> byte \<Rightarrow> bool" where
  "second_byte a b \<longleftrightarrow>
     (if a = 0xE0 then 0xA0 else if a = 0xF0 then 0x90 else 0x80) \<le> b
     \<and> b \<le> (if a = 0xED then 0x9F else if a = 0xF4 then 0x8F else 0xBF)"

definition utf8_step :: "byte list \<Rightarrow> (nat \<times> nat) option" where
  "utf8_step xs =
     (if xs = [] then None
      else if xs ! 0 < 0x80 then Some (unat (xs ! 0), 1)
      else if 0xC2 \<le> xs ! 0 \<and> xs ! 0 \<le> 0xDF \<and> 2 \<le> length xs \<and> continuation (xs ! 1)
      then Some ((unat (xs ! 0) - 0xC0) * 64 + (unat (xs ! 1) - 0x80), 2)
      else if 0xE0 \<le> xs ! 0 \<and> xs ! 0 \<le> 0xEF \<and> 3 \<le> length xs \<and> second_byte (xs ! 0) (xs ! 1) \<and> continuation (xs ! 2)
      then Some ((unat (xs ! 0) - 0xE0) * 4096 + (unat (xs ! 1) - 0x80) * 64 + (unat (xs ! 2) - 0x80), 3)
      else if 0xF0 \<le> xs ! 0 \<and> xs ! 0 \<le> 0xF4 \<and> 4 \<le> length xs \<and> second_byte (xs ! 0) (xs ! 1)
              \<and> continuation (xs ! 2) \<and> continuation (xs ! 3)
      then Some ((unat (xs ! 0) - 0xF0) * 262144 + (unat (xs ! 1) - 0x80) * 4096
                 + (unat (xs ! 2) - 0x80) * 64 + (unat (xs ! 3) - 0x80), 4)
      else None)"

definition high_surrogate :: "16 word \<Rightarrow> bool" where
  "high_surrogate c \<longleftrightarrow> 0xD800 \<le> c \<and> c \<le> 0xDBFF"

definition low_surrogate :: "16 word \<Rightarrow> bool" where
  "low_surrogate c \<longleftrightarrow> 0xDC00 \<le> c \<and> c \<le> 0xDFFF"

definition utf16_step :: "16 word list \<Rightarrow> (nat \<times> nat) option" where
  "utf16_step xs =
     (if xs = [] then None
      else if \<not> high_surrogate (xs ! 0) \<and> \<not> low_surrogate (xs ! 0) then Some (unat (xs ! 0), 1)
      else if high_surrogate (xs ! 0) \<and> 2 \<le> length xs \<and> low_surrogate (xs ! 1)
      then Some (0x10000 + (unat (xs ! 0) - 0xD800) * 1024 + (unat (xs ! 1) - 0xDC00), 2)
      else None)"

definition scalar_value :: "nat \<Rightarrow> bool" where
  "scalar_value c \<longleftrightarrow> c < 0xD800 \<or> 0xDFFF < c \<and> c \<le> 0x10FFFF"

definition utf32_step :: "32 word list \<Rightarrow> (nat \<times> nat) option" where
  "utf32_step xs = (if xs \<noteq> [] \<and> scalar_value (unat (xs ! 0)) then Some (unat (xs ! 0), 1) else None)"

definition enc8 :: "nat \<Rightarrow> byte list" where
  "enc8 c =
     (if c < 0x80 then [of_nat c]
      else if c < 0x800 then [of_nat (0xC0 + c div 64), of_nat (0x80 + c mod 64)]
      else if c < 0x10000
      then [of_nat (0xE0 + c div 4096), of_nat (0x80 + c div 64 mod 64), of_nat (0x80 + c mod 64)]
      else [of_nat (0xF0 + c div 262144), of_nat (0x80 + c div 4096 mod 64),
            of_nat (0x80 + c div 64 mod 64), of_nat (0x80 + c mod 64)])"

definition enc16 :: "nat \<Rightarrow> 16 word list" where
  "enc16 c = (if c < 0x10000 then [of_nat c]
     else [of_nat (0xD800 + (c - 0x10000) div 1024), of_nat (0xDC00 + (c - 0x10000) mod 1024)])"

definition enc32 :: "nat \<Rightarrow> 32 word list" where
  "enc32 c = [of_nat c]"

text \<open>A maximal subpart: the longest beginning of a well-formed sequence at the start of ill-formed input.\<close>

definition truncated :: "byte list \<Rightarrow> bool" where
  "truncated xs \<longleftrightarrow> xs \<noteq> [] \<and> xs ! 0 \<le> 0xF4 \<and>
     (length xs = 2 \<and> 0xE0 \<le> xs ! 0 \<and> second_byte (xs ! 0) (xs ! 1)
      \<or> length xs = 3 \<and> 0xF0 \<le> xs ! 0 \<and> second_byte (xs ! 0) (xs ! 1) \<and> continuation (xs ! 2))"

definition maximal_subpart :: "byte list \<Rightarrow> nat" where
  "maximal_subpart xs = (if truncated (take 3 xs) \<and> 3 \<le> length xs then 3
     else if truncated (take 2 xs) \<and> 2 \<le> length xs then 2 else 1)"

lemmas word_nat = word_less_nat_alt word_le_nat_alt

lemma utf8_scanner: "scanner utf8_step"
  by unfold_locales (auto simp: utf8_step_def Let_def Suc_le_eq split: if_splits)

lemma utf16_scanner: "scanner utf16_step"
  by unfold_locales (auto simp: utf16_step_def Suc_le_eq split: if_splits)

lemma utf32_scanner: "scanner utf32_step"
  by unfold_locales (auto simp: utf32_step_def Suc_le_eq split: if_splits)

lemma enc_ne: "enc8 c \<noteq> []" "enc16 c \<noteq> []" "enc32 c \<noteq> []"
  by (simp_all add: enc8_def enc16_def enc32_def)

definition top_bits_agree :: "byte list \<Rightarrow> bool" where
  "top_bits_agree bs \<longleftrightarrow> list_all (\<lambda>b. (b AND 0xC0 = 0x80) = continuation b) bs"

lemma top_bits_agree_all: "top_bits_agree (map of_nat [0..<256])"
  by code_simp

lemma byte_in_all: "b \<in> set (map of_nat [0..<256])" for b :: byte
proof -
  have "unat b < 256" using unsigned_less [of b, where 'a = nat] by simp
  moreover have "b = of_nat (unat b)" by simp
  ultimately show ?thesis by (metis (no_types) atLeastLessThan_iff image_eqI list.set_map set_upt zero_le)
qed

lemma and_C0: "(b AND 0xC0 = 0x80) = continuation b"
  using top_bits_agree_all byte_in_all [of b] by (auto simp: top_bits_agree_def list_all_iff)

lemma second_byte_ok_eq: "second_byte_ok a b = second_byte a b"
  by (simp add: second_byte_ok_def second_byte_def)

lemma unat_byte_less: "unat (b :: byte) < 256"
  using unsigned_less [of b, where 'a = nat] by simp

lemma utf8_width:
  assumes "utf8_step xs = Some (c, k)"
  shows "utf8_seq_len (xs ! 0) = k" "length (enc16 c) = (if k = 4 then 2 else 1)"
  using assms unat_byte_less [of "xs ! 0"] unat_byte_less [of "xs ! 1"] unat_byte_less [of "xs ! 2"]
  by (auto simp: utf8_step_def utf8_seq_len_def enc16_def continuation_def second_byte_def word_nat
      word_unat_eq_iff split: if_splits)

lemma utf16_width:
  assumes "utf16_step xs = Some (c, k)"
  shows "(if high_surrogate (xs ! 0) \<and> 2 \<le> length xs \<and> low_surrogate (xs ! 1) then (4, 2)
     else if xs ! 0 < 0x80 then (1, 1) else if xs ! 0 < 0x800 then (2, 1) else (3, 1)) = (length (enc8 c), k)"
proof -
  have "unat (xs ! 0) < 65536" using unsigned_less [of "xs ! 0", where 'a = nat] by simp
  then show ?thesis
    using assms
    by (auto simp: utf16_step_def enc8_def high_surrogate_def low_surrogate_def word_nat split: if_splits)
qed

lemma utf32_width:
  assumes "utf32_step xs = Some (c, k)"
  shows "utf32_cp_utf8_len (xs ! 0) = length (enc8 c)" "k = 1"
  using assms
  by (auto simp: utf32_step_def utf32_cp_utf8_len_def enc8_def scalar_value_def word_nat split: if_splits)

interpretation utf8: scanner utf8_step by (rule utf8_scanner)
interpretation utf16: scanner utf16_step by (rule utf16_scanner)
interpretation utf32: scanner utf32_step by (rule utf32_scanner)

lemma fit_utf8_16:
  assumes "wellformed utf8_step (take ok xs)" "ok \<le> length xs"
  shows "utf8_fit_utf16 xs ok room = fits utf8_step enc16 (take ok xs) room"
proof -
  have "(let l = if utf8_seq_len (xs ! i) = 0 then 1 else utf8_seq_len (xs ! i) in (if l = 4 then 2 else 1, l)) = (length (enc16 c), k)"
    if "i < ok" "utf8_step (drop i (take ok xs)) = Some (c, k)" for i c k
    using utf8_width [OF that(2)] utf8.step_bound [OF that(2)] that(1) assms(2) by (simp add: Let_def)
  then show ?thesis
    unfolding utf8_fit_utf16_def using assms by (subst utf8.fit_loop_fits [where enc = enc16]) auto
qed

lemma fit_utf8_32:
  assumes "wellformed utf8_step (take ok xs)" "ok \<le> length xs"
  shows "utf8_fit_utf32 xs ok room = fits utf8_step enc32 (take ok xs) room"
proof -
  have "(1, if utf8_seq_len (xs ! i) = 0 then 1 else utf8_seq_len (xs ! i)) = (length (enc32 c), k)"
    if "i < ok" "utf8_step (drop i (take ok xs)) = Some (c, k)" for i c k
    using utf8_width [OF that(2)] utf8.step_bound [OF that(2)] that(1) assms(2) by (simp add: enc32_def)
  then show ?thesis
    unfolding utf8_fit_utf32_def using assms by (subst utf8.fit_loop_fits [where enc = enc32]) auto
qed

lemma fit_utf16_8:
  assumes "wellformed utf16_step (take ok xs)" "ok \<le> length xs"
  shows "utf16_fit_utf8 xs ok room = fits utf16_step enc8 (take ok xs) room"
proof -
  have "(let c = xs ! i in
         if c \<ge> 0xD800 \<and> c \<le> 0xDBFF \<and> i + 1 < ok \<and> xs ! (i + 1) \<ge> 0xDC00 \<and> xs ! (i + 1) \<le> 0xDFFF then (4, 2)
         else if c < 0x80 then (1, 1) else if c < 0x800 then (2, 1) else (3, 1)) = (length (enc8 c), k)"
    if "i < ok" "utf16_step (drop i (take ok xs)) = Some (c, k)" for i c k
  proof -
    have 0: "drop i (take ok xs) ! 0 = xs ! i" "2 \<le> length (drop i (take ok xs)) \<longleftrightarrow> i + 1 < ok"
      "i + 1 < ok \<Longrightarrow> drop i (take ok xs) ! 1 = xs ! (i + 1)"
      using that(1) assms(2) by auto
    show ?thesis
      using utf16_width [OF that(2)] unfolding 0 Let_def
      by (cases "i + 1 < ok") (simp_all only: 0 high_surrogate_def low_surrogate_def conj_assoc simp_thms if_True if_False)
  qed
  then show ?thesis
    unfolding utf16_fit_utf8_def using assms by (subst utf16.fit_loop_fits [where enc = enc8]) auto
qed

lemma fit_utf32_8:
  assumes "wellformed utf32_step (take ok xs)" "ok \<le> length xs"
  shows "utf32_fit_utf8 xs ok room = fits utf32_step enc8 (take ok xs) room"
proof -
  have "(utf32_cp_utf8_len (xs ! i), 1) = (length (enc8 c), k)"
    if "i < ok" "utf32_step (drop i (take ok xs)) = Some (c, k)" for i c k
    using utf32_width [OF that(2)] that(1) assms(2) by simp
  then show ?thesis
    unfolding utf32_fit_utf8_def using assms by (subst utf32.fit_loop_fits [where enc = enc8]) auto
qed

lemma skip_continuation_step:
  "skip_continuation data mx j = (if j < length data \<and> j < mx \<and> continuation (data ! j)
     then skip_continuation data mx (Suc j) else j)"
  by (subst skip_continuation.simps) (simp add: and_C0)

lemma seq_len_cases:
  "utf8_seq_len a = 0 \<and> a \<ge> 0x80 \<and> \<not> (0xE0 \<le> a \<and> a \<le> 0xF4) \<or> utf8_seq_len a = 1 \<and> a < 0x80
   \<or> utf8_seq_len a = 2 \<and> 0xC2 \<le> a \<and> a \<le> 0xDF \<or> utf8_seq_len a = 3 \<and> 0xE0 \<le> a \<and> a \<le> 0xEF
   \<or> utf8_seq_len a = 4 \<and> 0xF0 \<le> a \<and> a \<le> 0xF4"
  by (auto simp: utf8_seq_len_def word_nat)

lemma byte_ranges:
  "0xE0 \<le> a \<and> a \<le> 0xEF \<Longrightarrow> \<not> a < 0x80 \<and> \<not> a \<le> 0xDF \<and> \<not> 0xF0 \<le> a \<and> a \<le> 0xF4"
  "0xF0 \<le> a \<and> a \<le> 0xF4 \<Longrightarrow> \<not> a < 0x80 \<and> \<not> a \<le> 0xDF \<and> \<not> a \<le> 0xEF \<and> 0xE0 \<le> a"
  "0xC2 \<le> a \<and> a \<le> 0xDF \<Longrightarrow> \<not> a < 0x80 \<and> \<not> 0xE0 \<le> a \<and> \<not> 0xF0 \<le> a \<and> second_byte a b = continuation b"
  for a b :: byte
  by (auto simp: word_nat second_byte_def continuation_def word_unat_eq_iff)

lemma maximal_subpart_eq:
  "maximal_subpart ys =
     (if 3 \<le> length ys \<and> 0xF0 \<le> ys ! 0 \<and> ys ! 0 \<le> 0xF4 \<and> second_byte (ys ! 0) (ys ! 1) \<and> continuation (ys ! 2) then 3
      else if 2 \<le> length ys \<and> 0xE0 \<le> ys ! 0 \<and> ys ! 0 \<le> 0xF4 \<and> second_byte (ys ! 0) (ys ! 1) then 2 else 1)"
proof -
  have "truncated (take 3 ys) \<and> 3 \<le> length ys \<longleftrightarrow>
      3 \<le> length ys \<and> 0xF0 \<le> ys ! 0 \<and> ys ! 0 \<le> 0xF4 \<and> second_byte (ys ! 0) (ys ! 1) \<and> continuation (ys ! 2)"
    by (cases "3 \<le> length ys") (auto simp: truncated_def)
  moreover have "truncated (take 2 ys) \<and> 2 \<le> length ys \<longleftrightarrow>
      2 \<le> length ys \<and> 0xE0 \<le> ys ! 0 \<and> ys ! 0 \<le> 0xF4 \<and> second_byte (ys ! 0) (ys ! 1)"
    by (cases "2 \<le> length ys") (auto simp: truncated_def)
  ultimately show ?thesis by (simp only: maximal_subpart_def)
qed

lemma skip_subpart:
  assumes i: "i < length xs" and none: "utf8_step (drop i xs) = None"
  shows "utf8_skip_invalid xs i = i + maximal_subpart (drop i xs)"
proof -
  define a b where "a = xs ! i" and "b = xs ! (i + 1)"
  have nth: "drop i xs ! 0 = a" "drop i xs ! 1 = b" "drop i xs ! 2 = xs ! (i + 2)" "drop i xs ! 3 = xs ! (i + 3)"
    using i by (simp_all add: a_def b_def add.commute)
  have len: "length (drop i xs) = length xs - i" "k \<le> length xs - i \<longleftrightarrow> i + k \<le> length xs" for k
    using i by auto
  have m: "maximal_subpart (drop i xs) =
      (if i + 3 \<le> length xs \<and> 0xF0 \<le> a \<and> a \<le> 0xF4 \<and> second_byte a b \<and> continuation (xs ! (i + 2)) then 3
       else if i + 2 \<le> length xs \<and> 0xE0 \<le> a \<and> a \<le> 0xF4 \<and> second_byte a b then 2 else 1)"
    unfolding maximal_subpart_eq nth len by (simp add: add.commute)
  have u: "utf8_skip_invalid xs i =
      (if utf8_seq_len a = 0 \<or> i + 1 \<ge> length xs \<or> \<not> second_byte a b then i + 1
       else skip_continuation xs (i + utf8_seq_len a) (i + 2))"
    by (simp add: utf8_skip_invalid_def Let_def second_byte_ok_eq a_def b_def)
  have s2: "skip_continuation xs (i + 3) (i + 2) =
      (if i + 2 < length xs \<and> continuation (xs ! (i + 2)) then i + 3 else i + 2)"
    by (simp add: skip_continuation_step [of xs "i + 3"])
  have s3: "skip_continuation xs (i + 4) (i + 2) =
      (if i + 2 < length xs \<and> continuation (xs ! (i + 2))
       then if i + 3 < length xs \<and> continuation (xs ! (i + 3)) then i + 4 else i + 3 else i + 2)"
    by (simp add: skip_continuation_step [of xs "i + 4"] numeral_3_eq_3)
  note none' = none [unfolded utf8_step_def nth len]
  show ?thesis
    using seq_len_cases [of a]
  proof (elim disjE)
    assume "utf8_seq_len a = 0 \<and> a \<ge> 0x80 \<and> \<not> (0xE0 \<le> a \<and> a \<le> 0xF4)"
    then show ?thesis unfolding u m by (auto simp: word_nat)
  next
    assume "utf8_seq_len a = 1 \<and> a < 0x80"
    then show ?thesis using none' i by simp
  next
    assume c: "utf8_seq_len a = 2 \<and> 0xC2 \<le> a \<and> a \<le> 0xDF"
    then show ?thesis using none' i byte_ranges(3) [of a b] unfolding u m by auto
  next
    assume c: "utf8_seq_len a = 3 \<and> 0xE0 \<le> a \<and> a \<le> 0xEF"
    then show ?thesis using none' i byte_ranges(1) [of a] s2 unfolding u m by auto
  next
    assume c: "utf8_seq_len a = 4 \<and> 0xF0 \<le> a \<and> a \<le> 0xF4"
    then show ?thesis using none' i byte_ranges(2) [of a] s3 unfolding u m by auto
  qed
qed

lemma subpart_pos: "0 < maximal_subpart xs"
  by (simp add: maximal_subpart_def)

section \<open>The four converters\<close>

lemma utf8_16_converter:
  assumes "transcoder utf8_step enc16 S"
  shows "converter utf8_step enc16 S maximal_subpart utf8_fit_utf16 utf8_skip_invalid [0xFFFD]"
proof (rule converter.intro [OF assms], unfold_locales)
  fix i and xs :: "byte list"
  assume "i < length xs" "utf8_step (drop i xs) = None"
  then show "(if i < utf8_skip_invalid xs i then utf8_skip_invalid xs i else i + 1) = i + max 1 (maximal_subpart (drop i xs))"
    using skip_subpart [of i xs] subpart_pos [of "drop i xs"] by simp
qed (simp_all add: enc_ne fit_utf8_16, simp add: enc16_def)

lemma utf8_32_converter:
  assumes "transcoder utf8_step enc32 S"
  shows "converter utf8_step enc32 S maximal_subpart utf8_fit_utf32 utf8_skip_invalid [0xFFFD]"
proof (rule converter.intro [OF assms], unfold_locales)
  fix i and xs :: "byte list"
  assume "i < length xs" "utf8_step (drop i xs) = None"
  then show "(if i < utf8_skip_invalid xs i then utf8_skip_invalid xs i else i + 1) = i + max 1 (maximal_subpart (drop i xs))"
    using skip_subpart [of i xs] subpart_pos [of "drop i xs"] by simp
qed (simp_all add: enc_ne fit_utf8_32, simp add: enc32_def)

lemma utf16_8_converter:
  assumes "transcoder utf16_step enc8 S"
  shows "converter utf16_step enc8 S (\<lambda>_. 1) utf16_fit_utf8 (\<lambda>src i. i + 1) [0xEF, 0xBF, 0xBD]"
  by (rule converter.intro [OF assms], unfold_locales)
    (simp_all add: enc_ne fit_utf16_8, simp add: enc8_def)

lemma utf32_8_converter:
  assumes "transcoder utf32_step enc8 S"
  shows "converter utf32_step enc8 S (\<lambda>_. 1) utf32_fit_utf8 (\<lambda>src i. i + 1) [0xEF, 0xBF, 0xBD]"
  by (rule converter.intro [OF assms], unfold_locales)
    (simp_all add: enc_ne fit_utf32_8, simp add: enc8_def)

section \<open>Conversions of strings\<close>

context scanner begin

lemma chars_induct [case_names Nil None Some]:
  assumes "P []"
    and "\<And>xs. xs \<noteq> [] \<Longrightarrow> step xs = None \<Longrightarrow> P (drop (max 1 (sub xs)) xs) \<Longrightarrow> P xs"
    and "\<And>xs c k. step xs = Some (c, k) \<Longrightarrow> 0 < k \<Longrightarrow> k \<le> length xs \<Longrightarrow> P (drop k xs) \<Longrightarrow> P xs"
  shows "P xs"
proof (induction "length xs" arbitrary: xs rule: less_induct)
  case less
  show ?case
  proof (cases "xs = []")
    case False
    show ?thesis
    proof (cases "step xs")
      case None
      then show ?thesis by (intro assms(2) [OF False] less) (use False in auto)
    next
      case (Some p)
      then have s: "step xs = Some (fst p, snd p)" by simp
      show ?thesis by (rule assms(3) [OF s]) (use step_bound [OF s] less in auto)
    qed
  qed (simp add: assms(1))
qed

lemma length_chars: "length (chars step sub xs) \<le> length xs"
  by (induction xs rule: chars_induct [where sub = sub]) (auto simp: chars_None chars_Some neq_Nil_conv max_def split: if_splits)

end

lemma length_enc: "length (enc8 c) \<le> 4" "length (enc16 c) \<le> 4" "length (enc32 c) \<le> 4"
  by (simp_all add: enc8_def enc16_def enc32_def)

lemma length_concat_enc:
  assumes "\<And>c. length (enc c) \<le> 4"
  shows "length (concat (map enc cs)) \<le> 4 * length cs"
proof (induction cs)
  case (Cons c cs)
  then show ?case using assms [of c] by simp
qed simp

context converter begin

lemma via_measure_convert:
  assumes "\<And>c. length (enc c) \<le> 4" "4 * length src < 2 ^ 64"
  shows "via_measure zero (utf_convert S fit skip repl) src = concat (lenient src)"
proof -
  have "length (concat (lenient src)) \<le> 4 * length (chars step sub src)"
    unfolding lenient_def by (rule length_concat_enc) (rule assms(1))
  also have "\<dots> \<le> 4 * length src" using length_chars [of sub src] by simp
  finally have "length (concat (lenient src)) \<le> size_max"
    using assms(2) by (simp add: size_max_def)
  then show ?thesis
    by (cases "src = []") (simp_all add: via_measure_def utf_convert_none utf_convert_some take_fit_all)
qed

end

definition ref_simd :: "('a list \<Rightarrow> (nat \<times> nat) option) \<Rightarrow> (nat \<Rightarrow> 'b list) \<Rightarrow> ('a, 'b) simd" where
  "ref_simd step enc =
     \<lparr>sd_validate = wellformed step, sd_errors_at = vprefix step,
      sd_length = (\<lambda>xs. length (concat (map enc (decode step xs)))),
      sd_convert = (\<lambda>xs. concat (map enc (decode step xs)))\<rparr>"

lemma ref_transcoder:
  assumes "scanner step"
  shows "transcoder step enc (ref_simd step enc)"
  by (intro transcoder.intro [OF assms] transcoder_axioms.intro) (simp_all add: ref_simd_def)

interpretation u8_16: converter utf8_step enc16 "ref_simd utf8_step enc16" maximal_subpart
  utf8_fit_utf16 utf8_skip_invalid "[0xFFFD]"
  by (rule utf8_16_converter [OF ref_transcoder [OF utf8_scanner]])

definition utf8_chars :: "byte list \<Rightarrow> nat list" where
  "utf8_chars = chars utf8_step maximal_subpart"

definition utf16_chars :: "16 word list \<Rightarrow> nat list" where
  "utf16_chars = chars utf16_step (\<lambda>_. 1)"

definition utf32_chars :: "32 word list \<Rightarrow> nat list" where
  "utf32_chars = chars utf32_step (\<lambda>_. 1)"

lemma utf8to16String_eq:
  assumes "transcoder utf8_step enc16 S" "4 * length src < 2 ^ 64"
  shows "utf8to16String S src = concat (map enc16 (utf8_chars src))"
  unfolding utf8to16String_def utf8_to_utf16_def utf8_chars_def
    converter.via_measure_convert [OF utf8_16_converter [OF assms(1)] length_enc(2) assms(2)]
    converter.lenient_def [OF utf8_16_converter [OF assms(1)]] ..

lemma utf8to32String_eq:
  assumes "transcoder utf8_step enc32 S" "4 * length src < 2 ^ 64"
  shows "utf8to32String S src = concat (map enc32 (utf8_chars src))"
  unfolding utf8to32String_def utf8_to_utf32_def utf8_chars_def
    converter.via_measure_convert [OF utf8_32_converter [OF assms(1)] length_enc(3) assms(2)]
    converter.lenient_def [OF utf8_32_converter [OF assms(1)]] ..

lemma utf16to8String_eq:
  assumes "transcoder utf16_step enc8 S" "4 * length src < 2 ^ 64"
  shows "utf16to8String S src = concat (map enc8 (utf16_chars src))"
  unfolding utf16to8String_def utf16_to_utf8_def utf16_chars_def
    converter.via_measure_convert [OF utf16_8_converter [OF assms(1)] length_enc(1) assms(2)]
    converter.lenient_def [OF utf16_8_converter [OF assms(1)]] ..

lemma utf32to8String_eq:
  assumes "transcoder utf32_step enc8 S" "4 * length src < 2 ^ 64"
  shows "utf32to8String S src = concat (map enc8 (utf32_chars src))"
  unfolding utf32to8String_def utf32_to_utf8_def utf32_chars_def
    converter.via_measure_convert [OF utf32_8_converter [OF assms(1)] length_enc(1) assms(2)]
    converter.lenient_def [OF utf32_8_converter [OF assms(1)]] ..

section \<open>Round trips\<close>

lemma unat_of_nat_small [simp]: "n < 256 \<Longrightarrow> unat (of_nat n :: byte) = n"
  "n < 65536 \<Longrightarrow> unat (of_nat n :: 16 word) = n" "n < 4294967296 \<Longrightarrow> unat (of_nat n :: 32 word) = n"
  by (simp_all add: unsigned_of_nat take_bit_nat_eq_self)

lemma digits64:
  "c = c div 64 * 64 + c mod 64" "c mod 64 < 64"
  "c div 64 = c div 4096 * 64 + c div 64 mod 64" "c div 64 mod 64 < 64"
  "c div 4096 = c div 262144 * 64 + c div 4096 mod 64" "c div 4096 mod 64 < 64" for c :: nat
proof -
  have "c div 4096 = c div 64 div 64" "c div 262144 = c div 4096 div 64"
    by (simp_all add: div_mult2_eq [symmetric])
  then show "c = c div 64 * 64 + c mod 64" "c mod 64 < 64"
    "c div 64 = c div 4096 * 64 + c div 64 mod 64" "c div 64 mod 64 < 64"
    "c div 4096 = c div 262144 * 64 + c div 4096 mod 64" "c div 4096 mod 64 < 64"
    by simp_all
qed

lemma step_enc8:
  assumes "scalar_value c"
  shows "utf8_step (enc8 c @ ys) = Some (c, length (enc8 c))"
proof -
  note d = digits64 [of c]
  consider "c < 0x80" | "0x80 \<le> c" "c < 0x800" | "0x800 \<le> c" "c < 0x10000" | "0x10000 \<le> c" "c \<le> 0x10FFFF"
    using assms unfolding scalar_value_def by linarith
  then show ?thesis
  proof cases
    case 1
    then show ?thesis by (simp add: enc8_def utf8_step_def word_nat)
  next
    case 2
    define a b :: byte where "a = of_nat (0xC0 + c div 64)" and "b = of_nat (0x80 + c mod 64)"
    have "2 \<le> c div 64" "c div 64 < 32"
      using 2 by (simp_all add: less_eq_div_iff_mult_less_eq div_less_iff_less_mult)
    note q = this
    then have u: "unat a = 0xC0 + c div 64" "unat b = 0x80 + c mod 64"
      unfolding a_def b_def using d(2) by (subst unat_of_nat_small; simp)+
    have e: "enc8 c = [a, b]" using 2 by (simp add: enc8_def a_def b_def)
    show ?thesis using u q d(1,2) unfolding e
      by (simp add: utf8_step_def word_nat continuation_def)
  next
    case 3
    define x y z where "x = c div 4096" and "y = c div 64 mod 64" and "z = c mod 64"
    have c: "c = x * 4096 + y * 64 + z" "x < 16" "y < 64" "z < 64"
      using d 3 unfolding x_def y_def z_def by linarith+
    have r: "x = 0 \<longrightarrow> 32 \<le> y" "x = 13 \<longrightarrow> y \<le> 31"
      using c 3 assms unfolding scalar_value_def by auto
    define a b b' :: byte where "a = of_nat (0xE0 + x)" and "b = of_nat (0x80 + y)" and "b' = of_nat (0x80 + z)"
    have u: "unat a = 0xE0 + x" "unat b = 0x80 + y" "unat b' = 0x80 + z"
      unfolding a_def b_def b'_def using c by (subst unat_of_nat_small; simp)+
    have e: "enc8 c = [a, b, b']"
      using 3 by (simp add: enc8_def a_def b_def b'_def x_def y_def z_def)
    show ?thesis using c r u unfolding e
      by (simp add: utf8_step_def word_nat continuation_def second_byte_def word_unat_eq_iff)
  next
    case 4
    define w x y z where "w = c div 262144" and "x = c div 4096 mod 64" and "y = c div 64 mod 64" and "z = c mod 64"
    have c: "c = w * 262144 + x * 4096 + y * 64 + z" "w < 5" "x < 64" "y < 64" "z < 64"
      using d 4 unfolding w_def x_def y_def z_def by linarith+
    have r: "w = 0 \<longrightarrow> 16 \<le> x" "w = 4 \<longrightarrow> x \<le> 15"
      using c 4 by auto
    define a b b' b'' :: byte where "a = of_nat (0xF0 + w)" and "b = of_nat (0x80 + x)"
      and "b' = of_nat (0x80 + y)" and "b'' = of_nat (0x80 + z)"
    have u: "unat a = 0xF0 + w" "unat b = 0x80 + x" "unat b' = 0x80 + y" "unat b'' = 0x80 + z"
      unfolding a_def b_def b'_def b''_def using c by (subst unat_of_nat_small; simp)+
    have e: "enc8 c = [a, b, b', b'']"
      using 4 by (simp add: enc8_def a_def b_def b'_def b''_def w_def x_def y_def z_def)
    show ?thesis using c r u unfolding e
      by (simp add: utf8_step_def word_nat continuation_def second_byte_def word_unat_eq_iff)
  qed
qed

lemma step_enc16:
  assumes "scalar_value c"
  shows "utf16_step (enc16 c @ ys) = Some (c, length (enc16 c))"
proof (cases "c < 0x10000")
  case True
  then show ?thesis using assms
    by (auto simp: enc16_def utf16_step_def high_surrogate_def low_surrogate_def word_nat scalar_value_def)
next
  case False
  define q r where "q = (c - 0x10000) div 1024" and "r = (c - 0x10000) mod 1024"
  have "c - 0x10000 = q * 1024 + r" "r < 1024" by (simp_all add: q_def r_def)
  then have c: "c = 0x10000 + q * 1024 + r" "q < 1024" "r < 1024"
    using False assms unfolding scalar_value_def by linarith+
  define a b :: "16 word" where "a = of_nat (0xD800 + q)" and "b = of_nat (0xDC00 + r)"
  have u: "unat a = 0xD800 + q" "unat b = 0xDC00 + r"
    unfolding a_def b_def using c by (subst unat_of_nat_small; simp)+
  have e: "enc16 c = [a, b]"
    using False by (simp add: enc16_def a_def b_def q_def r_def)
  show ?thesis using c u unfolding e
    by (simp add: utf16_step_def high_surrogate_def low_surrogate_def word_nat)
qed

lemma step_enc32:
  assumes "scalar_value c"
  shows "utf32_step (enc32 c @ ys) = Some (c, length (enc32 c))"
  using assms by (auto simp: enc32_def utf32_step_def scalar_value_def)

context scanner begin

lemma chars_encoded:
  assumes "\<And>c ys. c \<in> set cs \<Longrightarrow> step (enc c @ ys) = Some (c, length (enc c))"
  shows "chars step sub (concat (map enc cs)) = cs"
  using assms
proof (induction cs)
  case (Cons c cs)
  then show ?case using chars_Some [OF Cons.prems [of c "concat (map enc cs)"]] by simp
qed simp

lemma encoded_chars:
  assumes "\<And>xs c k. step xs = Some (c, k) \<Longrightarrow> P c \<and> enc c = take k xs" "wellformed step xs"
  shows "concat (map enc (chars step sub xs)) = xs \<and> (\<forall>c\<in>set (chars step sub xs). P c)"
  using assms(2)
proof (induction xs rule: step_induct)
  case (None xs)
  then have "xs = []" by (simp add: wellformed_def vprefix_None)
  then show ?case by simp
next
  case (Some xs c k)
  then have "wellformed step (drop k xs)" by (simp add: wellformed_def vprefix_Some)
  then show ?case
    using Some assms(1) [OF Some(1)] by (simp add: chars_Some [OF Some(1)])
qed

lemma chars_scalar:
  assumes "\<And>xs c k. step xs = Some (c, k) \<Longrightarrow> scalar_value c"
  shows "\<forall>c\<in>set (chars step sub xs). scalar_value c"
  by (induction xs rule: chars_induct [where sub = sub])
    (auto simp: chars_None chars_Some scalar_value_def dest: assms)

end

lemma digits_of:
  fixes x y z :: nat
  assumes "y < 64" "z < 64"
  shows "(x * 4096 + y * 64 + z) div 64 = x * 64 + y" "(x * 4096 + y * 64 + z) mod 64 = z"
    "(x * 64 + y) mod 64 = y" "(x * 64 + y) div 64 = x" "(x * 4096 + y * 64 + z) div 4096 = x"
proof -
  have e: "x * 4096 + y * 64 + z = (x * 64 + y) * 64 + z" by simp
  have g: "(q * 64 + r) div 64 = q" "(q * 64 + r) mod 64 = r" if "r < 64" for q r :: nat
    using that by simp_all
  show d: "(x * 4096 + y * 64 + z) div 64 = x * 64 + y" "(x * 4096 + y * 64 + z) mod 64 = z"
    unfolding e by (rule g [OF assms(2)])+
  show "(x * 64 + y) mod 64 = y" "(x * 64 + y) div 64 = x" using assms by simp_all
  have "(x * 4096 + y * 64 + z) div 4096 = (x * 4096 + y * 64 + z) div 64 div 64"
    by (simp add: div_mult2_eq [symmetric])
  also have "\<dots> = x" unfolding d using assms by simp
  finally show "(x * 4096 + y * 64 + z) div 4096 = x" .
qed

lemma take_nths:
  "1 \<le> length xs \<Longrightarrow> take 1 xs = [xs ! 0]"
  "2 \<le> length xs \<Longrightarrow> take 2 xs = [xs ! 0, xs ! 1]"
  "3 \<le> length xs \<Longrightarrow> take 3 xs = [xs ! 0, xs ! 1, xs ! 2]"
  "4 \<le> length xs \<Longrightarrow> take 4 xs = [xs ! 0, xs ! 1, xs ! 2, xs ! 3]"
  by (rule nth_equalityI; simp add: nth_Cons' less_Suc_eq numeral_eq_Suc; fastforce)+

lemma of_nat_unat_eq: "unat (w :: 'a::len word) = n \<Longrightarrow> of_nat n = w"
  by auto

lemma inverse_utf8:
  assumes "utf8_step xs = Some (c, k)"
  shows "scalar_value c \<and> enc8 c = take k xs"
proof -
  obtain a b d e where abcd: "a = unat (xs ! 0)" "b = unat (xs ! 1)" "d = unat (xs ! 2)" "e = unat (xs ! 3)" by simp
  have bs: "of_nat a = xs ! 0" "of_nat b = xs ! 1" "of_nat d = xs ! 2" "of_nat e = xs ! 3"
    unfolding abcd by simp_all
  consider (1) "xs \<noteq> []" "a < 128" "c = a" "k = 1"
    | (2) "2 \<le> length xs" "194 \<le> a" "a \<le> 223" "128 \<le> b" "b \<le> 191" "c = (a - 192) * 64 + (b - 128)" "k = 2"
    | (3) "3 \<le> length xs" "224 \<le> a" "a \<le> 239" "128 \<le> b" "b \<le> 191" "128 \<le> d" "d \<le> 191"
        "a = 224 \<longrightarrow> 160 \<le> b" "a = 237 \<longrightarrow> b \<le> 159"
        "c = (a - 224) * 4096 + (b - 128) * 64 + (d - 128)" "k = 3"
    | (4) "4 \<le> length xs" "240 \<le> a" "a \<le> 244" "128 \<le> b" "b \<le> 191" "128 \<le> d" "d \<le> 191" "128 \<le> e" "e \<le> 191"
        "a = 240 \<longrightarrow> 144 \<le> b" "a = 244 \<longrightarrow> b \<le> 143"
        "c = (a - 240) * 262144 + (b - 128) * 4096 + (d - 128) * 64 + (e - 128)" "k = 4"
    using assms unfolding abcd
    by (auto simp: utf8_step_def continuation_def second_byte_def word_nat word_unat_eq_iff split: if_splits)
  then show ?thesis
  proof cases
    case 1
    then show ?thesis using bs take_nths(1) [of xs] by (simp add: scalar_value_def enc8_def Suc_le_eq)
  next
    case 2
    define x y where "x = a - 192" and "y = b - 128"
    have c: "c = x * 64 + y" "2 \<le> x" "x < 32" "y < 64" "a = 192 + x" "b = 128 + y"
      using 2 by (auto simp: x_def y_def)
    then have "enc8 c = [of_nat a, of_nat b]" by (simp add: enc8_def)
    then show ?thesis using c 2 bs take_nths(2) [of xs] by (simp add: scalar_value_def)
  next
    case 3
    define x y z where "x = a - 224" and "y = b - 128" and "z = d - 128"
    have c: "c = x * 4096 + y * 64 + z" "x < 16" "y < 64" "z < 64" "a = 224 + x" "b = 128 + y" "d = 128 + z"
      "x = 0 \<longrightarrow> 32 \<le> y" "x = 13 \<longrightarrow> y \<le> 31"
      using 3 by (auto simp: x_def y_def z_def)
    then have r: "2048 \<le> c" "c < 65536" by auto
    have "x \<le> 12 \<or> x = 13 \<or> 14 \<le> x" by auto
    then have sur: "c < 0xD800 \<or> 0xDFFF < c" using c by auto
    have "enc8 c = [of_nat a, of_nat b, of_nat d]"
      using r c(5-7) digits_of [OF c(3,4), of x] c(1) by (simp add: enc8_def)
    then show ?thesis using r sur 3 bs take_nths(3) [of xs] by (auto simp: scalar_value_def)
  next
    case 4
    define w x y z where "w = a - 240" and "x = b - 128" and "y = d - 128" and "z = e - 128"
    have c: "c = w * 262144 + x * 4096 + y * 64 + z" "w < 5" "x < 64" "y < 64" "z < 64"
      "a = 240 + w" "b = 128 + x" "d = 128 + y" "e = 128 + z" "w = 0 \<longrightarrow> 16 \<le> x" "w = 4 \<longrightarrow> x \<le> 15"
      using 4 by (auto simp: w_def x_def y_def z_def)
    then have r: "65536 \<le> c" "c \<le> 0x10FFFF" by auto
    have e: "c = (w * 64 + x) * 4096 + y * 64 + z" using c(1) by simp
    note dg = digits_of [OF c(4,5), of "w * 64 + x", folded e]
    have "c div 262144 = c div 4096 div 64" by (simp add: div_mult2_eq [symmetric])
    then have "c div 262144 = w" "c div 4096 mod 64 = x" using dg c(3) by simp_all
    then have "enc8 c = [of_nat a, of_nat b, of_nat d, of_nat e]"
      using r c(4,6-9) dg by (simp add: enc8_def)
    then show ?thesis using r 4 bs take_nths(4) [of xs] by (simp add: scalar_value_def)
  qed
qed

lemma utf16_scalar: "utf16_step xs = Some (c, k) \<Longrightarrow> scalar_value c"
proof -
  assume s: "utf16_step xs = Some (c, k)"
  have "unat (xs ! 0) < 65536" using unsigned_less [of "xs ! 0", where 'a = nat] by simp
  then show ?thesis using s
    by (auto simp: utf16_step_def high_surrogate_def low_surrogate_def scalar_value_def word_nat split: if_splits)
qed

end
