(* ===== verification/UtfProps.thy ===== *)
theory UtfProps
  imports UtfSpec
begin

text \<open>
  The byte-swapped conversions \<open>utf_convert_s\<close> and the properties of the conversions of
  \<^verbatim>\<open>src/base/utf8.cpp\<close>. The measuring pass and the converting pass agree on every input, ill-formed
  input included, so the wrappers of \<^verbatim>\<open>include/utf8.h\<close> never leave a tail of zeros.
\<close>

section \<open>The other byte order\<close>

lemma measure_loop_spec:
  assumes c: "converter utf8_step enc S maximal_subpart fit utf8_skip_invalid [r]"
  shows "(av \<longrightarrow> wellformed utf8_step (drop i src)) \<Longrightarrow>
     measure_loop S av src i n = n + length (concat (map enc (chars utf8_step maximal_subpart (drop i src))))"
proof (induction "length src - i" arbitrary: i n rule: less_induct)
  case less
  note len = converter.lenient_def [OF c, symmetric]
  show ?case
  proof (cases "i < length src")
    case False
    then show ?thesis by (subst measure_loop.simps) simp
  next
    case True
    let ?rest = "drop i src" and ?ok = "if av then length (drop i src) else sd_errors_at S (drop i src)"
    note st = converter.stretch [OF c less.prems]
    have sd: "sd_length S (take ?ok ?rest) = length (concat (map enc (decode utf8_step (take ?ok ?rest))))"
      by (rule transcoder.sd_length [OF converter.axioms(1) [OF c] st(2)])
    show ?thesis
    proof (cases "?ok = 0")
      case False
      then have "measure_loop S av src i n =
          measure_loop S av src (i + ?ok) (n + sd_length S (take ?ok ?rest))"
        using True by (subst measure_loop.simps) (simp add: Let_def)
      also have "\<dots> = n + sd_length S (take ?ok ?rest)
          + length (concat (map enc (chars utf8_step maximal_subpart (drop (i + ?ok) src))))"
        by (rule less.hyps) (use True False st(4) in \<open>auto simp: add.commute\<close>)
      finally show ?thesis unfolding len st(3) sd by (simp add: add.commute)
    next
      case ok0: True
      then have none: "utf8_step ?rest = None"
        using True less.prems
        by (auto simp: transcoder.sd_errors_at [OF converter.axioms(1) [OF c]] utf8.vprefix_zero split: if_splits)
      have "measure_loop S av src i n = measure_loop S av src (i + max 1 (maximal_subpart ?rest)) (n + 1)"
        using True ok0 converter.skip [OF c _ none] by (subst measure_loop.simps) (simp add: Let_def)
      also have "\<dots> = n + 1 + length (concat (map enc (chars utf8_step maximal_subpart
          (drop (i + max 1 (maximal_subpart ?rest)) src))))"
        by (rule less.hyps) (use True ok0 in \<open>auto split: if_splits\<close>)
      finally show ?thesis
        using converter.at_error [OF c none] True unfolding len by (simp add: add.commute)
    qed
  qed
qed

lemma measure_units_spec:
  assumes "converter utf8_step enc S maximal_subpart fit utf8_skip_invalid [r]"
  shows "utf8_measure_units S src = length (concat (map enc (utf8_chars src)))"
  unfolding utf8_measure_units_def utf8_chars_def
  by (subst measure_loop_spec [OF assms])
    (simp_all add: transcoder.sd_validate [OF converter.axioms(1) [OF assms]])

lemma chars_map:
  assumes "scanner step" "scanner (\<lambda>xs. step (map f xs))"
  shows "chars (\<lambda>xs. step (map f xs)) (\<lambda>_. 1) xs = chars step (\<lambda>_. 1) (map f xs)"
proof (induction xs rule: scanner.chars_induct [OF assms(2), where sub = "\<lambda>_. 1"])
  case 1
  then show ?case by (simp add: scanner.chars_Nil [OF assms(1)] scanner.chars_Nil [OF assms(2)])
next
  case (2 xs)
  then show ?case
    by (simp add: scanner.chars_None [OF assms(1)] scanner.chars_None [OF assms(2)] drop_map)
next
  case (3 xs c k)
  then show ?case
    by (simp add: scanner.chars_Some [OF assms(1)] scanner.chars_Some [OF assms(2)] drop_map)
qed

lemma utf8to16String_s_eq:
  assumes S: "transcoder utf8_step enc16 S"
    and BE: "transcoder utf8_step (\<lambda>c. map utf16_bswap (enc16 c)) BE"
  shows "utf8to16String_s S BE src = map utf16_bswap (concat (map enc16 (utf8_chars src)))"
proof (cases "src = []")
  case False
  let ?w = "concat (map enc16 (utf8_chars src))"
  note c = utf8_16_converter [OF S]
  have m: "utf8_measure_units S src = length ?w" by (rule measure_units_spec [OF c])
  have v: "sd_validate S src \<longleftrightarrow> wellformed utf8_step src"
    by (rule transcoder.sd_validate [OF S])
  have full: "utf8_to_utf16 S (Some (length ?w)) src = (length ?w, ?w)"
    unfolding utf8_to_utf16_def converter.utf_convert_some [OF c] converter.lenient_def [OF c] utf8_chars_def
    by (simp add: take_fit_all)
  show ?thesis
  proof (cases "sd_validate S src")
    case True
    then have d: "decode utf8_step src = utf8_chars src"
      using utf8.chars_wellformed v by (simp add: utf8_chars_def)
    have "sd_length S src = length ?w"
      using transcoder.sd_length [OF S] True v d by simp
    moreover have "sd_convert BE src = map utf16_bswap ?w"
      using transcoder.sd_convert [OF BE] True v d by (simp add: map_concat comp_def)
    ultimately show ?thesis
      using False True m by (simp add: utf8to16String_s_def via_measure_def utf8_to_utf16_s_def Let_def)
  next
    case nv: False
    then show ?thesis
      using False m full
      by (cases "?w = []") (simp_all add: utf8to16String_s_def via_measure_def utf8_to_utf16_s_def Let_def)
  qed
qed (simp add: utf8to16String_s_def via_measure_def utf8_chars_def)

lemma utf16to8String_s_eq:
  assumes S: "transcoder utf16_step enc8 S"
    and BE: "transcoder (\<lambda>xs. utf16_step (map utf16_bswap xs)) enc8 BE" and "4 * length src < 2 ^ 64"
  shows "utf16to8String_s S BE src = concat (map enc8 (utf16_chars (map utf16_bswap src)))"
proof (cases "src = []")
  case False
  show ?thesis
  proof (cases "sd_validate BE src")
    case True
    note be = transcoder.axioms(1) [OF BE]
    have wf: "wellformed (\<lambda>xs. utf16_step (map utf16_bswap xs)) src"
      using True transcoder.sd_validate [OF BE] by simp
    have "decode (\<lambda>xs. utf16_step (map utf16_bswap xs)) src = utf16_chars (map utf16_bswap src)"
      unfolding decode_def utf16_chars_def by (rule chars_map [OF utf16_scanner be])
    then have "sd_convert BE src = concat (map enc8 (utf16_chars (map utf16_bswap src)))"
      "sd_length BE src = length (sd_convert BE src)"
      using transcoder.sd_convert [OF BE wf] transcoder.sd_length [OF BE wf] by simp_all
    then show ?thesis
      using False True by (simp add: utf16to8String_s_def via_measure_def utf16_to_utf8_s_def)
  next
    case nv: False
    have "via_measure 0 (utf16_to_utf8_s S BE) src = via_measure 0 (utf16_to_utf8 S) (map utf16_bswap src)"
      using False nv by (simp add: via_measure_def utf16_to_utf8_s_def)
    then show ?thesis
      using utf16to8String_eq [OF S, of "map utf16_bswap src"] assms(3)
      by (simp add: utf16to8String_s_def utf16to8String_def)
  qed
qed (simp add: utf16to8String_s_def via_measure_def utf16_chars_def)

lemma utf8to32String_s_eq:
  assumes S: "transcoder utf8_step enc32 S"
  shows "utf8to32String_s S src = map utf32_bswap (concat (map enc32 (utf8_chars src)))"
proof (cases "src = []")
  case False
  let ?w = "concat (map enc32 (utf8_chars src))"
  note c = utf8_32_converter [OF S]
  have m: "utf8_measure_units S src = length ?w" by (rule measure_units_spec [OF c])
  have full: "utf8_to_utf32 S (Some (length ?w)) src = (length ?w, ?w)"
    unfolding utf8_to_utf32_def converter.utf_convert_some [OF c] converter.lenient_def [OF c] utf8_chars_def
    by (simp add: take_fit_all)
  show ?thesis
    using False m full by (simp add: utf8to32String_s_def via_measure_def utf8_to_utf32_s_def Let_def)
qed (simp add: utf8to32String_s_def via_measure_def utf8_chars_def)

lemma utf32_chars_Cons:
  "utf32_chars (w # ws) = (if scalar_value (unat w) then unat w else 0xFFFD) # utf32_chars ws"
proof (cases "scalar_value (unat w)")
  case True
  then show ?thesis
    using utf32.chars_Some [of "w # ws" "unat w" 1] by (simp add: utf32_chars_def utf32_step_def)
next
  case False
  then show ?thesis
    using utf32.chars_None [of "w # ws"] by (simp add: utf32_chars_def utf32_step_def)
qed

lemma utf32_measure: "sum_list (map utf32_cp_utf8_len ws) = length (concat (map enc8 (utf32_chars ws)))"
proof (induction ws)
  case (Cons w ws)
  have "utf32_cp_utf8_len w = length (enc8 (if scalar_value (unat w) then unat w else 0xFFFD))"
    by (auto simp: utf32_cp_utf8_len_def enc8_def scalar_value_def word_nat)
  then show ?case using Cons by (simp add: utf32_chars_Cons)
qed (simp add: utf32_chars_def)

lemma utf32to8String_s_eq:
  assumes S: "transcoder utf32_step enc8 S"
  shows "utf32to8String_s S src = concat (map enc8 (utf32_chars (map utf32_bswap src)))"
proof (cases "src = []")
  case False
  let ?w = "concat (map enc8 (utf32_chars (map utf32_bswap src)))"
  note c = utf32_8_converter [OF S]
  have m: "sum_list (map (\<lambda>c. utf32_cp_utf8_len (utf32_bswap c)) src) = length ?w"
    using utf32_measure [of "map utf32_bswap src"] by (simp add: comp_def)
  have full: "utf32_to_utf8 S (Some (length ?w)) (map utf32_bswap src) = (length ?w, ?w)"
    unfolding utf32_to_utf8_def converter.utf_convert_some [OF c] converter.lenient_def [OF c] utf32_chars_def
    by (simp add: take_fit_all)
  show ?thesis
    using False m full by (simp add: utf32to8String_s_def via_measure_def utf32_to_utf8_s_def Let_def)
qed (simp add: utf32to8String_s_def via_measure_def utf32_chars_def)

lemma bswap16_bswap16 [simp]: "utf16_bswap (utf16_bswap v) = v"
  by (rule bit_word_eqI) (auto simp: utf16_bswap_def bit_simps, metis le_add_diff_inverse not_less)

lemma byte_mask: "(0xff :: 32 word) = mask 8" "(0xff00 :: 32 word) = push_bit 8 (mask 8)"
  "(0xff0000 :: 32 word) = push_bit 16 (mask 8)" "(0xff000000 :: 32 word) = push_bit 24 (mask 8)"
  by (simp_all add: mask_eq_exp_minus_1)

lemma bit_bswap32:
  assumes "n < 32"
  shows "bit (utf32_bswap v) n = bit v (if n < 8 then n + 24 else if n < 16 then n + 8 else if n < 24 then n - 8 else n - 24)"
proof -
  consider "n < 8" | "8 \<le> n" "n < 16" | "16 \<le> n" "n < 24" | "24 \<le> n" by linarith
  then show ?thesis
    by cases (use assms in \<open>auto simp: utf32_bswap_def byte_mask bit_simps add.commute\<close>)
qed

lemma bswap32_bswap32 [simp]: "utf32_bswap (utf32_bswap v) = v"
  by (rule bit_word_eqI) (auto simp: bit_bswap32)

section \<open>Round trips\<close>

lemma utf8_chars_scalar: "\<forall>c\<in>set (utf8_chars src). scalar_value c"
  unfolding utf8_chars_def by (rule utf8.chars_scalar) (use inverse_utf8 in blast)

lemma utf16_chars_enc: "\<forall>c\<in>set cs. scalar_value c \<Longrightarrow> utf16_chars (concat (map enc16 cs)) = cs"
  unfolding utf16_chars_def by (rule utf16.chars_encoded) (simp add: step_enc16)

lemma utf32_chars_enc: "\<forall>c\<in>set cs. scalar_value c \<Longrightarrow> utf32_chars (concat (map enc32 cs)) = cs"
  unfolding utf32_chars_def by (rule utf32.chars_encoded) (simp add: step_enc32)

lemma utf8_chars_enc: "\<forall>c\<in>set cs. scalar_value c \<Longrightarrow> utf8_chars (concat (map enc8 cs)) = cs"
  unfolding utf8_chars_def by (rule utf8.chars_encoded) (simp add: step_enc8)

lemma utf8_enc_chars: "wellformed utf8_step src \<Longrightarrow> concat (map enc8 (utf8_chars src)) = src"
  unfolding utf8_chars_def using utf8.encoded_chars [of scalar_value enc8 src] inverse_utf8 by blast

lemma length_units: "length (concat (map enc16 (utf8_chars src))) \<le> 4 * length src"
  using length_concat_enc [of enc16 "utf8_chars src"] utf8.length_chars [of maximal_subpart src] length_enc(2)
  by (simp add: utf8_chars_def le_trans)

lemma length_units32: "length (concat (map enc32 (utf8_chars src))) \<le> 4 * length src"
  using length_concat_enc [of enc32 "utf8_chars src"] utf8.length_chars [of maximal_subpart src] length_enc(3)
  by (simp add: utf8_chars_def le_trans)

section \<open>Properties\<close>

text \<open>
  C18: a text that is converted to UTF-16 and back keeps its characters, each maximal ill-formed piece
  replaced by U+FFFD; a well-formed text comes back as it was.
\<close>

theorem utf16_roundtrip:
  assumes "transcoder utf8_step enc16 S" "transcoder utf16_step enc8 S'" "16 * length src < 2 ^ 64"
  shows "utf16to8String S' (utf8to16String S src) = concat (map enc8 (utf8_chars src))
    \<and> (wellformed utf8_step src \<longrightarrow> utf16to8String S' (utf8to16String S src) = src)"
proof -
  have "utf8to16String S src = concat (map enc16 (utf8_chars src))"
    by (rule utf8to16String_eq [OF assms(1)]) (use assms(3) in simp)
  moreover have "utf16to8String S' (concat (map enc16 (utf8_chars src))) =
      concat (map enc8 (utf16_chars (concat (map enc16 (utf8_chars src)))))"
    by (rule utf16to8String_eq [OF assms(2)]) (use assms(3) length_units [of src] in linarith)
  ultimately show ?thesis
    using utf16_chars_enc [OF utf8_chars_scalar] utf8_enc_chars by simp
qed

lemma utf16_roundtrip_witness:
  "utf16to8String (ref_simd utf16_step enc8) (utf8to16String (ref_simd utf8_step enc16) [0x61, 0xF0, 0x9F, 0x98, 0x80])
     = concat (map enc8 (utf8_chars [0x61, 0xF0, 0x9F, 0x98, 0x80]))"
  using utf16_roundtrip [OF ref_transcoder [OF utf8_scanner] ref_transcoder [OF utf16_scanner],
      of "[0x61, 0xF0, 0x9F, 0x98, 0x80]"] by simp

text \<open>
  C19: with a destination of limited capacity each conversion writes the longest run of whole
  characters that fits and returns its length: never more than the capacity, never a part of a character.
\<close>

theorem utf_capacity:
  assumes "transcoder utf8_step enc16 S1" "transcoder utf16_step enc8 S2"
    "transcoder utf8_step enc32 S3" "transcoder utf32_step enc8 S4"
  shows "utf8_to_utf16 S1 (Some cap) src =
        (length (take_fit cap (map enc16 (utf8_chars src))), take_fit cap (map enc16 (utf8_chars src)))
    \<and> utf16_to_utf8 S2 (Some cap) src16 =
        (length (take_fit cap (map enc8 (utf16_chars src16))), take_fit cap (map enc8 (utf16_chars src16)))
    \<and> utf8_to_utf32 S3 (Some cap) src =
        (length (take_fit cap (map enc32 (utf8_chars src))), take_fit cap (map enc32 (utf8_chars src)))
    \<and> utf32_to_utf8 S4 (Some cap) src32 =
        (length (take_fit cap (map enc8 (utf32_chars src32))), take_fit cap (map enc8 (utf32_chars src32)))
    \<and> length (take_fit cap us) \<le> cap"
proof -
  note c = utf8_16_converter [OF assms(1)] utf16_8_converter [OF assms(2)]
    utf8_32_converter [OF assms(3)] utf32_8_converter [OF assms(4)]
  show ?thesis
    unfolding utf8_to_utf16_def utf16_to_utf8_def utf8_to_utf32_def utf32_to_utf8_def
      converter.utf_convert_some [OF c(1)] converter.utf_convert_some [OF c(2)]
      converter.utf_convert_some [OF c(3)] converter.utf_convert_some [OF c(4)]
      converter.lenient_def [OF c(1)] converter.lenient_def [OF c(2)]
      converter.lenient_def [OF c(3)] converter.lenient_def [OF c(4)]
      utf8_chars_def utf16_chars_def utf32_chars_def
    by (simp add: length_take_fit)
qed

lemma utf_capacity_witness:
  "fst (utf8_to_utf16 (ref_simd utf8_step enc16) (Some 2) [0x61, 0xF0, 0x9F, 0x98, 0x80]) =
     length (take_fit 2 (map enc16 (utf8_chars [0x61, 0xF0, 0x9F, 0x98, 0x80])))"
  using utf_capacity [OF ref_transcoder [OF utf8_scanner] ref_transcoder [OF utf16_scanner]
      ref_transcoder [OF utf8_scanner] ref_transcoder [OF utf32_scanner],
      of 2 "[0x61, 0xF0, 0x9F, 0x98, 0x80]" "[]" "[]" "[] :: byte list list"] by simp

end
