(* ===== verification/UcsCodec.thy ===== *)
theory UcsCodec
  imports UtfProps
begin

text \<open>
  \<^verbatim>\<open>src/encoding/encoding_conv_ucs.cpp\<close>: the charsets that \<open>encoding_conv\<close> converts without a
  library of code tables. A buffer is a byte list; the code reads and writes it through pointers to
  16- and 32-bit units, in the byte order of the host, which the argument \<open>be\<close> stands for
  (\<open>is_big_endian ()\<close>).
\<close>

section \<open>Charsets\<close>

definition is_ucs2 :: "bool \<Rightarrow> string \<Rightarrow> bool" where
  "is_ucs2 be codec \<longleftrightarrow>
     codec \<in> {''ucs2'', ''ucs-2'', ''utf16'', ''utf-16''}
     \<or> codec \<in> (if be then {''ucs2be'', ''ucs-2be'', ''utf16be'', ''utf-16be''}
                else {''ucs2le'', ''ucs-2le'', ''utf16le'', ''utf-16le''})"

definition is_ucs2_s :: "bool \<Rightarrow> string \<Rightarrow> bool" where
  "is_ucs2_s be codec \<longleftrightarrow>
     codec \<in> (if \<not> be then {''ucs2be'', ''ucs-2be'', ''utf16be'', ''utf-16be''}
              else {''ucs2le'', ''ucs-2le'', ''utf16le'', ''utf-16le''})"

definition is_ucs4 :: "bool \<Rightarrow> string \<Rightarrow> bool" where
  "is_ucs4 be codec \<longleftrightarrow>
     codec \<in> {''ucs4'', ''ucs-4'', ''utf32'', ''utf-32''}
     \<or> codec \<in> (if be then {''ucs4be'', ''ucs-4be'', ''utf32be'', ''utf-32be''}
                else {''ucs4le'', ''ucs-4le'', ''utf32le'', ''utf-32le''})"

definition is_ucs4_s :: "bool \<Rightarrow> string \<Rightarrow> bool" where
  "is_ucs4_s be codec \<longleftrightarrow>
     codec \<in> (if \<not> be then {''ucs4be'', ''ucs-4be'', ''utf32be'', ''utf-32be''}
              else {''ucs4le'', ''ucs-4le'', ''utf32le'', ''utf-32le''})"

definition is_ucs_encoding :: "string \<Rightarrow> bool" where
  "is_ucs_encoding charset \<longleftrightarrow> charset \<in> set
     [''utf8'', ''utf-8'',
      ''ucs2'', ''ucs-2'', ''utf16'', ''utf-16'',
      ''ucs2le'', ''ucs-2le'', ''utf16le'', ''utf-16le'',
      ''ucs2be'', ''ucs-2be'', ''utf16be'', ''utf-16be'',
      ''ucs4'', ''ucs-4'', ''utf32'', ''utf-32'',
      ''ucs4le'', ''ucs-4le'', ''utf32le'', ''utf-32le'',
      ''ucs4be'', ''ucs-4be'', ''utf32be'', ''utf-32be'',
      ''binary'', ''latin1'']"

section \<open>Units in memory\<close>

definition bytes16 :: "bool \<Rightarrow> 16 word \<Rightarrow> byte list" where
  "bytes16 be w = (let lo = ucast w; hi = ucast (drop_bit 8 w) in if be then [hi, lo] else [lo, hi])"

fun words16 :: "bool \<Rightarrow> byte list \<Rightarrow> 16 word list" where
  "words16 be (a # b # bs) =
     (let lo = (if be then b else a); hi = (if be then a else b)
      in (ucast lo OR push_bit 8 (ucast hi)) # words16 be bs)"
| "words16 be bs = []"

definition bytes32 :: "bool \<Rightarrow> 32 word \<Rightarrow> byte list" where
  "bytes32 be w =
     (let bs = [ucast w, ucast (drop_bit 8 w), ucast (drop_bit 16 w), ucast (drop_bit 24 w)]
      in if be then rev bs else bs)"

fun words32 :: "bool \<Rightarrow> byte list \<Rightarrow> 32 word list" where
  "words32 be (a # b # c # d # bs) =
     (let (a0, b0, c0, d0) = (if be then (d, c, b, a) else (a, b, c, d))
      in (ucast a0 OR push_bit 8 (ucast b0) OR push_bit 16 (ucast c0) OR push_bit 24 (ucast d0)) # words32 be bs)"
| "words32 be bs = []"

section \<open>Encoding and decoding\<close>

text \<open>The library, for every pair of encodings that the code converts between.\<close>

record simdutf =
  u8_16 :: "(byte, 16 word) simd"
  u8_16be :: "(byte, 16 word) simd"
  u16_8 :: "(16 word, byte) simd"
  u16be_8 :: "(16 word, byte) simd"
  u8_32 :: "(byte, 32 word) simd"
  u32_8 :: "(32 word, byte) simd"

datatype ucs_error = UnknownCharset

definition ucs_encode :: "bool \<Rightarrow> simdutf \<Rightarrow> string \<Rightarrow> byte list \<Rightarrow> ucs_error + byte list" where
  "ucs_encode be U charset data =
     (if charset = ''utf8'' \<or> charset = ''utf-8'' then Inr data
      else if charset = ''binary'' \<or> charset = ''latin1''
      then Inr (map ucast (utf8to16String (u8_16 U) data))
      else if is_ucs2 be charset
      then Inr (concat (map (bytes16 be) (via_measure 0 (utf8_to_utf16 (u8_16 U)) data)))
      else if is_ucs4 be charset
      then Inr (concat (map (bytes32 be) (via_measure 0 (utf8_to_utf32 (u8_32 U)) data)))
      else if is_ucs2_s be charset
      then Inr (concat (map (bytes16 be) (via_measure 0 (utf8_to_utf16_s (u8_16 U) (u8_16be U)) data)))
      else if is_ucs4_s be charset
      then Inr (concat (map (bytes32 be) (via_measure 0 (utf8_to_utf32_s (u8_32 U)) data)))
      else Inl UnknownCharset)"

text \<open>The bytes of a latin1 buffer are assigned from \<open>char\<close>, which is signed, to \<open>char16_t\<close>.\<close>

definition ucs_decode :: "bool \<Rightarrow> simdutf \<Rightarrow> string \<Rightarrow> byte list \<Rightarrow> ucs_error + byte list" where
  "ucs_decode be U charset data =
     (if charset = ''utf8'' \<or> charset = ''utf-8'' then Inr data
      else if charset = ''binary'' \<or> charset = ''latin1''
      then Inr (utf16to8String (u16_8 U) (map (\<lambda>b. scast b) data))
      else if is_ucs2 be charset then Inr (utf16to8String (u16_8 U) (words16 be data))
      else if is_ucs4 be charset then Inr (utf32to8String (u32_8 U) (words32 be data))
      else if is_ucs2_s be charset then Inr (utf16to8String_s (u16_8 U) (u16be_8 U) (words16 be data))
      else if is_ucs4_s be charset then Inr (utf32to8String_s (u32_8 U) (words32 be data))
      else Inl UnknownCharset)"

section \<open>Properties\<close>

lemma words16_bytes16: "words16 be (concat (map (bytes16 be) ws)) = ws"
proof (induction ws)
  case (Cons w ws)
  have "(ucast (ucast w :: byte) :: 16 word) OR push_bit 8 (ucast (ucast (drop_bit 8 w) :: byte)) = w"
    by (rule bit_word_eqI) (auto simp: bit_simps)
  with Cons show ?case by (cases be) (simp_all add: bytes16_def Let_def)
qed simp

lemma words32_bytes32: "words32 be (concat (map (bytes32 be) ws)) = ws"
proof (induction ws)
  case (Cons w ws)
  have "(ucast (ucast w :: byte) :: 32 word) OR push_bit 8 (ucast (ucast (drop_bit 8 w) :: byte))
      OR push_bit 16 (ucast (ucast (drop_bit 16 w) :: byte)) OR push_bit 24 (ucast (ucast (drop_bit 24 w) :: byte)) = w"
  proof (rule bit_word_eqI)
    fix n assume "n < LENGTH(32)"
    then consider "n < 8" | "8 \<le> n" "n < 16" | "16 \<le> n" "n < 24" | "24 \<le> n" "n < 32" by force
    then show "bit ((ucast (ucast w :: byte) :: 32 word) OR push_bit 8 (ucast (ucast (drop_bit 8 w) :: byte))
      OR push_bit 16 (ucast (ucast (drop_bit 16 w) :: byte)) OR push_bit 24 (ucast (ucast (drop_bit 24 w) :: byte))) n = bit w n"
      by cases (auto simp: bit_simps)
  qed
  with Cons show ?case by (cases be) (simp_all add: bytes32_def Let_def)
qed simp

text \<open>
  What the code relies on: every function of the library is correct for its pair of encodings. The functions
  for UTF-16BE read and write units whose bytes are big-endian in memory; a host of that byte order sees the
  unit itself, another one sees it swapped.
\<close>

definition be_unit :: "bool \<Rightarrow> 16 word \<Rightarrow> 16 word" where
  "be_unit be w = (if be then w else utf16_bswap w)"

definition simdutf_ok :: "bool \<Rightarrow> simdutf \<Rightarrow> bool" where
  "simdutf_ok be U \<longleftrightarrow>
     transcoder utf8_step enc16 (u8_16 U)
     \<and> transcoder utf8_step (\<lambda>c. map (be_unit be) (enc16 c)) (u8_16be U)
     \<and> transcoder utf16_step enc8 (u16_8 U)
     \<and> transcoder (\<lambda>xs. utf16_step (map (be_unit be) xs)) enc8 (u16be_8 U)
     \<and> transcoder utf8_step enc32 (u8_32 U)
     \<and> transcoder utf32_step enc8 (u32_8 U)"

definition ref_simdutf :: "bool \<Rightarrow> simdutf" where
  "ref_simdutf be =
     \<lparr>u8_16 = ref_simd utf8_step enc16,
      u8_16be = ref_simd utf8_step (\<lambda>c. map (be_unit be) (enc16 c)),
      u16_8 = ref_simd utf16_step enc8,
      u16be_8 = ref_simd (\<lambda>xs. utf16_step (map (be_unit be) xs)) enc8,
      u8_32 = ref_simd utf8_step enc32,
      u32_8 = ref_simd utf32_step enc8\<rparr>"

lemma ref_simdutf_ok: "simdutf_ok be (ref_simdutf be)"
proof -
  have "scanner (\<lambda>xs. utf16_step (map (be_unit be) xs))"
    by unfold_locales
      (use utf16.step_bound in fastforce, metis utf16.step_take take_map)
  then show ?thesis
    by (simp add: simdutf_ok_def ref_simdutf_def ref_transcoder utf8_scanner utf16_scanner utf32_scanner)
qed

lemma be_unit_host: "be_unit False = utf16_bswap" "be_unit True = (\<lambda>w. w)"
  by (simp_all add: be_unit_def fun_eq_iff)

text \<open>On a big-endian host the functions with \<open>_s\<close> hand well-formed text through without a swap.\<close>

lemma utf8to16String_s_host:
  assumes S: "transcoder utf8_step enc16 S" and BE: "transcoder utf8_step enc16 BE" and src: "wellformed utf8_step src"
  shows "utf8to16String_s S BE src = concat (map enc16 (utf8_chars src))"
proof -
  have "decode utf8_step src = utf8_chars src" using utf8.chars_wellformed [OF src] by (simp add: utf8_chars_def)
  moreover have "utf8_measure_units S src = length (concat (map enc16 (utf8_chars src)))"
    by (rule measure_units_spec [OF utf8_16_converter [OF S]])
  ultimately show ?thesis
    using transcoder.sd_validate [OF S] transcoder.sd_length [OF S src] transcoder.sd_convert [OF BE src] src
    by (cases "src = []") (simp_all add: utf8to16String_s_def via_measure_def utf8_to_utf16_s_def utf8_chars_def Let_def)
qed

lemma utf16to8String_s_host:
  assumes BE: "transcoder utf16_step enc8 BE" and src: "wellformed utf16_step src"
  shows "utf16to8String_s S BE src = concat (map enc8 (utf16_chars src))"
proof -
  have "decode utf16_step src = utf16_chars src" using utf16.chars_wellformed [OF src] by (simp add: utf16_chars_def)
  then show ?thesis
    using transcoder.sd_validate [OF BE] transcoder.sd_length [OF BE src] transcoder.sd_convert [OF BE src] src
    by (cases "src = []") (simp_all add: utf16to8String_s_def via_measure_def utf16_to_utf8_s_def utf16_chars_def Let_def)
qed

lemma wellformed_enc16: "\<forall>c\<in>set cs. scalar_value c \<Longrightarrow> wellformed utf16_step (concat (map enc16 cs))"
proof (induction cs)
  case (Cons c cs)
  then have "utf16_step (enc16 c @ concat (map enc16 cs)) = Some (c, length (enc16 c))" by (intro step_enc16) simp
  from utf16.vprefix_Some [OF this] Cons show ?case by (simp add: wellformed_def)
qed (simp add: wellformed_def utf16.vprefix_None utf16_step_def)

lemma encoded:
  assumes U: "simdutf_ok be U" and data: "wellformed utf8_step data" and sz: "16 * length data < 2 ^ 64"
  shows
  "utf8to16String (u8_16 U) data = concat (map enc16 (utf8_chars data))"
  "utf8to32String (u8_32 U) data = concat (map enc32 (utf8_chars data))"
  "utf8to16String_s (u8_16 U) (u8_16be U) data = map (be_unit be) (concat (map enc16 (utf8_chars data)))"
  "utf8to32String_s (u8_32 U) data = map utf32_bswap (concat (map enc32 (utf8_chars data)))"
  using U sz utf8to16String_eq [of "u8_16 U" data] utf8to32String_eq [of "u8_32 U" data]
    utf8to16String_s_eq [of "u8_16 U" "u8_16be U" data] utf8to16String_s_host [OF _ _ data, of "u8_16 U" "u8_16be U"]
    utf8to32String_s_eq [of "u8_32 U" data]
  by (cases be; simp add: simdutf_ok_def be_unit_host)+

lemma decoded:
  assumes U: "simdutf_ok be U" and data: "wellformed utf8_step data" and sz: "16 * length data < 2 ^ 64"
  shows
  "utf16to8String (u16_8 U) (concat (map enc16 (utf8_chars data))) = data"
  "utf32to8String (u32_8 U) (concat (map enc32 (utf8_chars data))) = data"
  "utf16to8String_s (u16_8 U) (u16be_8 U) (map (be_unit be) (concat (map enc16 (utf8_chars data)))) = data"
  "utf32to8String_s (u32_8 U) (map utf32_bswap (concat (map enc32 (utf8_chars data)))) = data"
proof -
  let ?w16 = "concat (map enc16 (utf8_chars data))" and ?w32 = "concat (map enc32 (utf8_chars data))"
  have l: "4 * length ?w16 < 2 ^ 64" "4 * length ?w32 < 2 ^ 64"
    using length_units [of data] length_units32 [of data] sz by linarith+
  have c: "concat (map enc8 (utf16_chars ?w16)) = data" "concat (map enc8 (utf32_chars ?w32)) = data"
    using utf8_enc_chars [OF data] utf16_chars_enc utf32_chars_enc utf8_chars_scalar [of data] by simp_all
  have ids: "map utf16_bswap (map utf16_bswap ?w16) = ?w16" "map utf32_bswap (map utf32_bswap ?w32) = ?w32"
    by (simp_all add: comp_def)
  show "utf16to8String (u16_8 U) ?w16 = data"
    using utf16to8String_eq [of "u16_8 U" ?w16] U l c by (simp add: simdutf_ok_def)
  show "utf32to8String (u32_8 U) ?w32 = data"
    using utf32to8String_eq [of "u32_8 U" ?w32] U l c by (simp add: simdutf_ok_def)
  show "utf16to8String_s (u16_8 U) (u16be_8 U) (map (be_unit be) ?w16) = data"
  proof (cases be)
    case True
    then show ?thesis
      using utf16to8String_s_host [OF _ wellformed_enc16 [OF utf8_chars_scalar], of "u16be_8 U"] U c
      by (simp add: simdutf_ok_def be_unit_host)
  next
    case False
    then have "utf16to8String_s (u16_8 U) (u16be_8 U) (map utf16_bswap ?w16) = data"
      by (subst utf16to8String_s_eq) (use U l c in \<open>simp_all add: simdutf_ok_def be_unit_host ids del: map_map\<close>)
    with False show ?thesis by (simp only: be_unit_host if_False)
  qed
  show "utf32to8String_s (u32_8 U) (map utf32_bswap ?w32) = data"
    by (subst utf32to8String_s_eq) (use U c in \<open>simp_all add: simdutf_ok_def ids del: map_map\<close>)
qed

lemmas via = utf8to16String_def utf8to32String_def utf8to16String_s_def utf8to32String_s_def

lemma charset_cases:
  assumes "is_ucs_encoding charset" "charset \<noteq> ''binary''" "charset \<noteq> ''latin1''"
  obtains "charset = ''utf8'' \<or> charset = ''utf-8''"
    | "is_ucs2 be charset" "\<not> (charset = ''utf8'' \<or> charset = ''utf-8'')"
    | "is_ucs4 be charset" "\<not> is_ucs2 be charset" "\<not> (charset = ''utf8'' \<or> charset = ''utf-8'')"
    | "is_ucs2_s be charset" "\<not> is_ucs4 be charset" "\<not> is_ucs2 be charset" "\<not> (charset = ''utf8'' \<or> charset = ''utf-8'')"
    | "is_ucs4_s be charset" "\<not> is_ucs2_s be charset" "\<not> is_ucs4 be charset" "\<not> is_ucs2 be charset"
      "\<not> (charset = ''utf8'' \<or> charset = ''utf-8'')"
proof -
  have "charset = ''binary'' \<or> charset = ''latin1'' \<or> (charset = ''utf8'' \<or> charset = ''utf-8'')
      \<or> is_ucs2 be charset \<or> is_ucs4 be charset \<or> is_ucs2_s be charset \<or> is_ucs4_s be charset"
    using assms(1) unfolding is_ucs_encoding_def list.set insert_iff empty_iff
    by (elim disjE; hypsubst?; cases be; simp add: is_ucs2_def is_ucs4_def is_ucs2_s_def is_ucs4_s_def)
  then show thesis using assms(2,3) that by blast
qed

lemma ucs_decode_encode:
  assumes ok: "simdutf_ok be U" "wellformed utf8_step data" "16 * length data < 2 ^ 64"
    and charset: "is_ucs_encoding charset" "charset \<noteq> ''binary''" "charset \<noteq> ''latin1''"
  shows "\<exists>bytes. ucs_encode be U charset data = Inr bytes \<and> ucs_decode be U charset bytes = Inr data"
proof -
  note e = encoded [OF ok, unfolded via] and d = decoded [OF ok]
  show ?thesis
    by (rule charset_cases [OF charset, where be = be]; use charset in \<open>simp add: ucs_encode_def ucs_decode_def charset e d words16_bytes16 words32_bytes32 del: map_map\<close>)
qed

text \<open>
  C20: every UCS charset but binary and latin1 gives a well-formed text back: decoding inverts encoding, on a
  host of either byte order. The library keeps to its encodings; its functions for UTF-16BE work on units
  that are big-endian in memory.
\<close>

theorem ucs_roundtrip:
  assumes "simdutf_ok be U" "wellformed utf8_step data" "16 * length data < 2 ^ 64"
    and "is_ucs_encoding charset" "charset \<noteq> ''binary''" "charset \<noteq> ''latin1''"
  shows "\<exists>bytes. ucs_encode be U charset data = Inr bytes \<and> ucs_decode be U charset bytes = Inr data"
  by (rule ucs_decode_encode [OF assms])

lemma wellformed_sample: "wellformed utf8_step [0x61, 0xE4, 0xB8, 0xAD]"
  by (simp add: wellformed_def vprefix.simps utf8_step_def continuation_def second_byte_def)

lemma ucs_roundtrip_witness:
  "\<exists>bytes. ucs_encode True (ref_simdutf True) ''utf16le'' [0x61, 0xE4, 0xB8, 0xAD] = Inr bytes
     \<and> ucs_decode True (ref_simdutf True) ''utf16le'' bytes = Inr [0x61, 0xE4, 0xB8, 0xAD]"
  by (rule ucs_roundtrip [OF ref_simdutf_ok wellformed_sample]) (simp_all add: is_ucs_encoding_def)

text \<open>
  On a big-endian host the functions for the other byte order do not swap well-formed text: what is written as
  utf16le is big-endian.
\<close>

lemma utf16le_is_big_endian:
  assumes "simdutf_ok True U"
  shows "ucs_encode True U ''utf16le'' [0x61] = Inr [0, 0x61]"
proof -
  have w: "wellformed utf8_step [0x61]" by (simp add: wellformed_def vprefix.simps utf8_step_def)
  have "utf8_chars [0x61] = [0x61]"
    using utf8.chars_Some [where xs = "[0x61]" and c = "0x61" and k = 1] by (simp add: utf8_chars_def utf8_step_def)
  with encoded(3) [OF assms w] have "utf8to16String_s (u8_16 U) (u8_16be U) [0x61] = [0x61]"
    by (simp add: enc16_def be_unit_host)
  then show ?thesis
    by (simp add: ucs_encode_def is_ucs2_def is_ucs4_def is_ucs2_s_def utf8to16String_s_def bytes16_def Let_def)
qed

text \<open>
  On a little-endian host the byte-swapped conversions are the plain ones with every unit swapped, for
  ill-formed input as for well-formed: the two library paths and the two measuring passes agree.
\<close>

theorem utf_swapped:
  assumes "simdutf_ok False U" "16 * length src < 2 ^ 64" "4 * length src16 < 2 ^ 64" "4 * length src32 < 2 ^ 64"
  shows "utf8to16String_s (u8_16 U) (u8_16be U) src = map utf16_bswap (utf8to16String (u8_16 U) src)
    \<and> utf16to8String_s (u16_8 U) (u16be_8 U) src16 = utf16to8String (u16_8 U) (map utf16_bswap src16)
    \<and> utf8to32String_s (u8_32 U) src = map utf32_bswap (utf8to32String (u8_32 U) src)
    \<and> utf32to8String_s (u32_8 U) src32 = utf32to8String (u32_8 U) (map utf32_bswap src32)"
  using assms utf8to16String_eq [of "u8_16 U" src] utf8to32String_eq [of "u8_32 U" src]
    utf8to16String_s_eq [of "u8_16 U" "u8_16be U" src] utf8to32String_s_eq [of "u8_32 U" src]
    utf16to8String_s_eq [of "u16_8 U" "u16be_8 U" src16] utf16to8String_eq [of "u16_8 U" "map utf16_bswap src16"]
    utf32to8String_s_eq [of "u32_8 U" src32] utf32to8String_eq [of "u32_8 U" "map utf32_bswap src32"]
  by (simp add: simdutf_ok_def be_unit_host)

lemma utf_swapped_witness:
  "utf16to8String_s (u16_8 (ref_simdutf False)) (u16be_8 (ref_simdutf False)) [0x00D8, 0x0061] =
     utf16to8String (u16_8 (ref_simdutf False)) [0xD800, 0x6100]"
  using utf_swapped [OF ref_simdutf_ok, of "[]" "[0x00D8, 0x0061]" "[]"]
  by (simp add: utf16_bswap_def)

text \<open>The byte \<open>E9\<close> of a latin1 text, LATIN SMALL LETTER E WITH ACUTE, is decoded as U+FFE9.\<close>

lemma latin1_sign_extended:
  assumes "transcoder utf16_step enc8 (u16_8 U)"
  shows "ucs_decode be U ''latin1'' [0xE9] = Inr [0xEF, 0xBF, 0xA9]"
proof -
  have e: "(- 23 :: 16 word) = 0xFFE9" by simp
  have "utf16_chars [0xFFE9] = [0xFFE9]"
    using utf16.chars_Some [where xs = "[0xFFE9]" and c = "0xFFE9" and k = 1]
    by (simp add: utf16_chars_def utf16_step_def high_surrogate_def low_surrogate_def)
  then have "utf16_chars [- 23] = [0xFFE9]" by (simp only: e)
  then show ?thesis
    by (simp add: ucs_decode_def utf16to8String_eq [OF assms] enc8_def)
qed

text \<open>A capacity that ends inside a surrogate pair: the swapped conversion writes the first half.\<close>

lemma swapped_splits_pair:
  assumes "transcoder utf8_step enc16 S"
  shows "utf8_to_utf16_s S BE (Some 1) [0xF0, 0x9F, 0x98, 0x80] = (1, [utf16_bswap 0xD83D])"
proof -
  let ?s = "[0xF0, 0x9F, 0x98, 0x80] :: byte list"
  note c = utf8_16_converter [OF assms]
  have ch: "utf8_chars ?s = [0x1F600]"
    using utf8.chars_Some [where xs = ?s and c = "0x1F600" and k = 4]
    by (simp add: utf8_chars_def utf8_step_def continuation_def second_byte_def)
  have v: "wellformed utf8_step ?s"
    by (simp add: wellformed_def vprefix.simps utf8_step_def continuation_def second_byte_def)
  then have d: "decode utf8_step ?s = [0x1F600]"
    using utf8.chars_wellformed [OF v, of maximal_subpart] ch by (simp add: utf8_chars_def)
  have "utf8_to_utf16 S (Some (1 + 1)) ?s = (2, [0xD83D, 0xDE00])"
    unfolding utf8_to_utf16_def converter.utf_convert_some [OF c] converter.lenient_def [OF c]
    using ch by (simp add: utf8_chars_def enc16_def)
  then show ?thesis
    using v transcoder.sd_validate [OF assms, of ?s] transcoder.sd_length [OF assms v] d
    by (simp add: utf8_to_utf16_s_def enc16_def)
qed

text \<open>On well-formed big-endian input the capacity is not looked at.\<close>

lemma swapped_ignores_capacity:
  assumes "transcoder (\<lambda>xs. utf16_step (map utf16_bswap xs)) enc8 BE"
  shows "utf16_to_utf8_s S BE (Some 0) [0x6100] = (1, [0x61])"
proof -
  have w: "wellformed (\<lambda>xs. utf16_step (map utf16_bswap xs)) [0x6100]"
    by (simp add: wellformed_def vprefix.simps utf16_step_def high_surrogate_def low_surrogate_def utf16_bswap_def)
  have "decode (\<lambda>xs. utf16_step (map utf16_bswap xs)) [0x6100] = [0x61]"
    by (simp add: decode_def chars.simps utf16_step_def high_surrogate_def low_surrogate_def utf16_bswap_def)
  then show ?thesis
    using transcoder.sd_convert [OF assms w] transcoder.sd_validate [OF assms] w
    by (simp add: utf16_to_utf8_s_def enc8_def)
qed

end
