(* ===== verification/UriCodec.thy ===== *)
theory UriCodec
  imports UtfProps
begin

text \<open>
  Percent encoding: \<open>Url::decodeURI\<close> and \<open>Url::encodeURI\<close> of \<^verbatim>\<open>include/Url.h\<close> (and their copies in
  \<^verbatim>\<open>include/HttpCollectionTmpl.h\<close>), the tables and entry points of \<^verbatim>\<open>src/encoding/encoding.cpp\<close>, and
  \<open>querystring.escape\<close> and \<open>unescape\<close>. Both directions run over the text twice, first to size the
  result and then to write it. A \<^typ>\<open>string\<close> is the UTF-8 text of the runtime as its bytes; a
  result that would run over the sized buffer is \<^term>\<open>None\<close>.
\<close>

section \<open>Hexadecimal digits\<close>

definition qisxdigit :: "char \<Rightarrow> bool" where
  "qisxdigit ch \<longleftrightarrow> c_isdigit ch \<or> (97 \<le> code ch \<and> code ch \<le> 102) \<or> (65 \<le> code ch \<and> code ch \<le> 90)"

definition qhex :: "char \<Rightarrow> nat" where
  "qhex ch =
     (if c_isdigit ch then code ch - 48
      else if 97 \<le> code ch \<and> code ch \<le> 102 then code ch - 97 + 10
      else if 65 \<le> code ch \<and> code ch \<le> 70 then code ch - 65 + 10
      else 0)"

section \<open>Decoding\<close>

text \<open>The two escapes, tested on the text from the current character on.\<close>

definition byte_escape :: "string \<Rightarrow> bool" where
  "byte_escape src \<longleftrightarrow> 2 < length src \<and> src ! 0 = CHR ''%'' \<and> qisxdigit (src ! 1) \<and> qisxdigit (src ! 2)"

definition unit_escape :: "string \<Rightarrow> bool" where
  "unit_escape src \<longleftrightarrow> 5 < length src \<and> (src ! 0 = CHR ''%'' \<or> src ! 0 = CHR 0x5C)
     \<and> (src ! 1 = CHR ''u'' \<or> src ! 1 = CHR ''U'') \<and> qisxdigit (src ! 2) \<and> qisxdigit (src ! 3)
     \<and> qisxdigit (src ! 4) \<and> qisxdigit (src ! 5)"

definition escaped_unit :: "string \<Rightarrow> 16 word" where
  "escaped_unit src =
     push_bit 12 (of_nat (qhex (src ! 2))) + push_bit 8 (of_nat (qhex (src ! 3)))
     + push_bit 4 (of_nat (qhex (src ! 4))) + of_nat (qhex (src ! 5))"

definition byte_chars :: "byte list \<Rightarrow> string" where
  "byte_chars bs = map (\<lambda>b. char_of (unat b)) bs"

function decode_size :: "(16 word, byte) simd \<Rightarrow> string \<Rightarrow> nat" where
  "decode_size S src =
     (if src = [] then 0
      else if byte_escape src then 1 + decode_size S (drop 3 src)
      else if unit_escape src then fst (utf16_to_utf8 S None [escaped_unit src]) + decode_size S (drop 6 src)
      else 1 + decode_size S (tl src))"
  by pat_completeness auto
termination by (relation "measure (\<lambda>(S, src). length src)") auto

function decode_text :: "(16 word, byte) simd \<Rightarrow> bool \<Rightarrow> string \<Rightarrow> string" where
  "decode_text S space src =
     (if src = [] then []
      else if byte_escape src then char_of (16 * qhex (src ! 1) + qhex (src ! 2)) # decode_text S space (drop 3 src)
      else if unit_escape src then
        byte_chars (snd (utf16_to_utf8 S (Some 5) [escaped_unit src])) @ decode_text S space (drop 6 src)
      else if space \<and> src ! 0 = CHR ''+'' then CHR '' '' # decode_text S space (tl src)
      else src ! 0 # decode_text S space (tl src))"
  by pat_completeness auto
termination by (relation "measure (\<lambda>(S, space, src). length src)") auto

declare decode_size.simps [simp del] decode_text.simps [simp del]

text \<open>Writing \<open>w\<close> over a string resized to \<open>n\<close> characters.\<close>

definition sized_write :: "nat \<Rightarrow> string \<Rightarrow> string option" where
  "sized_write n w = (if length w \<le> n then Some (w @ replicate (n - length w) (CHR 0x00)) else None)"

definition decodeURI :: "(16 word, byte) simd \<Rightarrow> bool \<Rightarrow> string \<Rightarrow> string option" where
  "decodeURI S space url =
     (if url = [] then Some [] else sized_write (decode_size S url) (decode_text S space url))"

section \<open>Encoding\<close>

definition URITable :: string where
  "URITable = '' ! #$ &'' @ [CHR 0x27] @ ''()*+,-./0123456789:; = ?@ABCDEFGHIJKLMNOPQRSTUVWXYZ    _ abcdefghijklmnopqrstuvwxyz   ~ ''"

definition URIComponentTable :: string where
  "URIComponentTable = '' !     '' @ [CHR 0x27] @ ''()*  -. 0123456789       ABCDEFGHIJKLMNOPQRSTUVWXYZ    _ abcdefghijklmnopqrstuvwxyz   ~ ''"

definition upper_hex :: string where
  "upper_hex = ''0123456789ABCDEF''"

fun encode_size :: "string \<Rightarrow> bool \<Rightarrow> string \<Rightarrow> nat" where
  "encode_size tab space [] = 0"
| "encode_size tab space (ch # src) =
     (if code ch < 0x20 \<or> code ch \<ge> 0x80 \<or> tab ! (code ch - 0x20) = CHR '' ''
      then (if space \<and> ch = CHR '' '' then 0 else 2)
      else 0) + 1 + encode_size tab space src"

fun encode_text :: "string \<Rightarrow> bool \<Rightarrow> string \<Rightarrow> string" where
  "encode_text tab space [] = []"
| "encode_text tab space (ch # src) =
     (if code ch \<ge> 0x20 \<and> code ch < 0x80 \<and> tab ! (code ch - 0x20) \<noteq> CHR '' ''
      then (if space \<and> ch = CHR '' '' then ''+'' else [ch])
      else (if space \<and> ch = CHR '' '' then ''+''
            else [CHR ''%'', upper_hex ! (code ch div 16 mod 16), upper_hex ! (code ch mod 16)]))
     @ encode_text tab space src"

definition encodeURI :: "string \<Rightarrow> bool \<Rightarrow> string \<Rightarrow> string option" where
  "encodeURI tab space url =
     (if url = [] then Some [] else sized_write (encode_size tab space url) (encode_text tab space url))"

section \<open>The modules\<close>

definition encoding_encodeURI :: "string \<Rightarrow> string option" where
  "encoding_encodeURI url = encodeURI URITable False url"

definition encoding_encodeURIComponent :: "string \<Rightarrow> bool \<Rightarrow> string option" where
  "encoding_encodeURIComponent url formEncoded = encodeURI URIComponentTable formEncoded url"

definition encoding_decodeURI :: "(16 word, byte) simd \<Rightarrow> string \<Rightarrow> string option" where
  "encoding_decodeURI S url = decodeURI S False url"

definition querystring_escape :: "string \<Rightarrow> string option" where
  "querystring_escape str = encoding_encodeURIComponent str True"

definition querystring_unescape :: "(16 word, byte) simd \<Rightarrow> string \<Rightarrow> string option" where
  "querystring_unescape S str = encoding_decodeURI S str"

section \<open>Sizes\<close>

lemma sized_write_exact [simp]: "length w = n \<Longrightarrow> sized_write n w = Some w"
  by (simp add: sized_write_def)

lemma length_encode_text: "length (encode_text tab space src) = encode_size tab space src"
  by (induction src) auto

lemma encodeURI_eq: "encodeURI tab space url = Some (encode_text tab space url)"
  by (simp add: encodeURI_def length_encode_text)

text \<open>One UTF-16 unit takes at most three bytes, so the five the second pass allows always do.\<close>

lemma utf16_unit_chars:
  "utf16_chars [u] = [if high_surrogate u \<or> low_surrogate u then 0xFFFD else unat u]"
  unfolding utf16_chars_def
  by (cases "utf16_step [u]")
    (auto simp: utf16.chars_None utf16.chars_Some utf16_step_def split: if_splits)

text \<open>A reserved character is one that \<open>encodeURI\<close> escapes.\<close>

definition unreserved :: "string \<Rightarrow> char \<Rightarrow> bool" where
  "unreserved tab ch \<longleftrightarrow> code ch \<ge> 0x20 \<and> code ch < 0x80 \<and> tab ! (code ch - 0x20) \<noteq> CHR '' ''"

definition percent_escape :: "char \<Rightarrow> string" where
  "percent_escape ch = [CHR ''%'', upper_hex ! (code ch div 16 mod 16), upper_hex ! (code ch mod 16)]"

definition encode_char :: "string \<Rightarrow> bool \<Rightarrow> char \<Rightarrow> string" where
  "encode_char tab space ch =
     (if space \<and> ch = CHR '' '' then ''+'' else if unreserved tab ch then [ch] else percent_escape ch)"

lemma encode_text_concat: "encode_text tab space src = concat (map (encode_char tab space) src)"
  by (induction src) (auto simp: encode_char_def unreserved_def percent_escape_def)

lemma unit_bytes:
  assumes "transcoder utf16_step enc8 S"
  shows "utf16_to_utf8 S None [u] = (length (concat (map enc8 (utf16_chars [u]))), [])"
    "snd (utf16_to_utf8 S (Some 5) [u]) = concat (map enc8 (utf16_chars [u]))"
proof -
  note c = utf16_8_converter [OF assms]
  have l: "length (concat (map enc8 (utf16_chars [u]))) \<le> 4"
    using length_enc(1) by (simp add: utf16_unit_chars)
  have e: "converter.lenient utf16_step enc8 (\<lambda>_. 1) [u] = map enc8 (utf16_chars [u])"
    unfolding converter.lenient_def [OF c] utf16_chars_def ..
  show "utf16_to_utf8 S None [u] = (length (concat (map enc8 (utf16_chars [u]))), [])"
    using converter.utf_convert_none [OF c, of "[u]"] l unfolding utf16_to_utf8_def e
    by (simp add: size_max_def)
  show "snd (utf16_to_utf8 S (Some 5) [u]) = concat (map enc8 (utf16_chars [u]))"
    using converter.utf_convert_some [OF c, of 5 "[u]"] take_fit_all [of "map enc8 (utf16_chars [u])" 5] l
    unfolding utf16_to_utf8_def e by simp
qed

lemma length_decode_text:
  "transcoder utf16_step enc8 S \<Longrightarrow> length (decode_text S space src) = decode_size S src"
proof (induction S src rule: decode_size.induct)
  case (1 S src)
  then show ?case
    by (subst decode_text.simps, subst decode_size.simps) (auto simp: unit_bytes byte_chars_def)
qed

lemma decodeURI_eq:
  assumes "transcoder utf16_step enc8 S"
  shows "decodeURI S space url = Some (decode_text S space url)"
  by (simp add: decodeURI_def length_decode_text [OF assms] decode_text.simps [of S space "[]"])

lemma decode_text_shorter:
  "transcoder utf16_step enc8 S \<Longrightarrow> length (decode_text S space src) \<le> length src"
proof (induction S space src rule: decode_text.induct)
  case (1 S space src)
  have unit_len: "length (concat (map enc8 (utf16_chars [u]))) \<le> 4" for u
    using length_enc(1) by (simp add: utf16_unit_chars)
  consider "src = []" | (byte) "src \<noteq> []" "byte_escape src" | (unit) "src \<noteq> []" "\<not> byte_escape src" "unit_escape src"
    | (plain) "src \<noteq> []" "\<not> byte_escape src" "\<not> unit_escape src" by blast
  then show ?case
  proof cases
    case byte
    with 1 show ?thesis by (subst decode_text.simps) (auto simp: byte_escape_def)
  next
    case unit
    with 1 unit_len [of "escaped_unit src"] show ?thesis
      by (subst decode_text.simps) (auto simp: unit_bytes byte_chars_def unit_escape_def)
  next
    case plain
    with 1 show ?thesis by (subst decode_text.simps) (cases src, auto)
  qed (simp add: decode_text.simps)
qed

section \<open>Decoding what was encoded\<close>

definition decodable :: "string \<Rightarrow> bool \<Rightarrow> bool" where
  "decodable tab space \<longleftrightarrow>
     \<not> unreserved tab CHR ''%'' \<and> \<not> unreserved tab CHR 0x5C \<and> (space \<longrightarrow> \<not> unreserved tab CHR ''+'')"

lemma upper_hex_digit_all: "list_all (\<lambda>n. qisxdigit (upper_hex ! n) \<and> qhex (upper_hex ! n) = n) [0..<16]"
  by code_simp

lemma upper_hex_digit: "n < 16 \<Longrightarrow> qisxdigit (upper_hex ! n) \<and> qhex (upper_hex ! n) = n"
  using upper_hex_digit_all by (simp add: list_all_iff)

lemma decode_percent:
  "decode_text S space (percent_escape ch @ rest) = ch # decode_text S space rest"
  "decode_size S (percent_escape ch @ rest) = Suc (decode_size S rest)"
proof -
  have m: "code ch div 16 mod 16 = code ch div 16"
    by (rule mod_less, rule less_mult_imp_div_less) (use code_less_256 [of ch] in linarith)
  have h: "qisxdigit (upper_hex ! (code ch div 16 mod 16))" "qhex (upper_hex ! (code ch div 16 mod 16)) = code ch div 16"
    "qisxdigit (upper_hex ! (code ch mod 16))" "qhex (upper_hex ! (code ch mod 16)) = code ch mod 16"
    using upper_hex_digit [of "code ch div 16 mod 16"] upper_hex_digit [of "code ch mod 16"] m by auto
  have c: "char_of (16 * (code ch div 16) + code ch mod 16) = ch" by simp
  have e: "byte_escape (percent_escape ch @ rest)"
    using h by (simp add: byte_escape_def percent_escape_def)
  show "decode_text S space (percent_escape ch @ rest) = ch # decode_text S space rest"
    using e h c by (subst decode_text.simps) (simp add: percent_escape_def numeral_2_eq_2 numeral_3_eq_3)
  show "decode_size S (percent_escape ch @ rest) = Suc (decode_size S rest)"
    using e by (subst decode_size.simps) (simp add: percent_escape_def numeral_3_eq_3)
qed

lemma decode_plain:
  assumes "c \<noteq> CHR ''%''" "c \<noteq> CHR 0x5C"
  shows "decode_text S space (c # rest) = (if space \<and> c = CHR ''+'' then CHR '' '' else c) # decode_text S space rest"
    "decode_size S (c # rest) = Suc (decode_size S rest)"
  using assms by (subst decode_text.simps, simp add: byte_escape_def unit_escape_def,
    subst decode_size.simps, simp add: byte_escape_def unit_escape_def)

lemma decode_encoded_char:
  assumes "decodable tab space" "space' \<longrightarrow> space"
  shows "decode_text S space (encode_char tab space' ch @ rest) = ch # decode_text S space rest"
    "decode_size S (encode_char tab space' ch @ rest) = Suc (decode_size S rest)"
proof -
  have u: "ch \<noteq> CHR ''%''" "ch \<noteq> CHR 0x5C" "space \<longrightarrow> ch \<noteq> CHR ''+''" if "unreserved tab ch"
    using that assms(1) by (auto simp: decodable_def)
  show "decode_text S space (encode_char tab space' ch @ rest) = ch # decode_text S space rest"
    using u assms(2) by (auto simp: encode_char_def decode_percent decode_plain)
  show "decode_size S (encode_char tab space' ch @ rest) = Suc (decode_size S rest)"
    using u by (auto simp: encode_char_def decode_percent decode_plain)
qed

lemma decode_encoded:
  assumes "decodable tab space" "space' \<longrightarrow> space"
  shows "decode_text S space (encode_text tab space' src @ rest) = src @ decode_text S space rest"
    "decode_size S (encode_text tab space' src @ rest) = length src + decode_size S rest"
  by (induction src) (simp_all add: encode_text_concat decode_encoded_char [OF assms])

lemma decode_encode:
  assumes "decodable tab space" "space' \<longrightarrow> space"
  shows "decodeURI S space (encode_text tab space' src) = Some src"
  using decode_encoded [OF assms, of S src "[]"]
  by (cases "src = []") (auto simp: decodeURI_def decode_text.simps [of S space "[]"] decode_size.simps [of S "[]"] sized_write_def)

lemma decodable_tables:
  "decodable URITable False" "decodable URIComponentTable space"
  by (simp_all add: decodable_def unreserved_def URITable_def URIComponentTable_def)

text \<open>The encoders never produce a character outside their alphabet.\<close>

lemma upper_hex_set: "n < 16 \<Longrightarrow> upper_hex ! n \<in> set upper_hex"
  by (rule nth_mem) (simp add: upper_hex_def)

definition uri_alphabet :: "string \<Rightarrow> bool \<Rightarrow> char \<Rightarrow> bool" where
  "uri_alphabet tab space c \<longleftrightarrow>
     unreserved tab c \<or> c = CHR ''%'' \<or> c \<in> set upper_hex \<or> space \<and> c = CHR ''+''"

lemma percent_escape_alphabet: "c \<in> set (percent_escape ch) \<Longrightarrow> c = CHR ''%'' \<or> c \<in> set upper_hex"
  using upper_hex_set [of "code ch div 16 mod 16"] upper_hex_set [of "code ch mod 16"]
  unfolding percent_escape_def by force

lemma encode_char_alphabet: "c \<in> set (encode_char tab space ch) \<Longrightarrow> uri_alphabet tab space c"
  using percent_escape_alphabet [of c ch] unfolding encode_char_def uri_alphabet_def
  by (cases "space \<and> ch = CHR '' ''"; cases "unreserved tab ch") auto

lemma encode_alphabet: "c \<in> set (encode_text tab space src) \<Longrightarrow> uri_alphabet tab space c"
  unfolding encode_text_concat using encode_char_alphabet by fastforce

section \<open>Properties\<close>

text \<open>
  C21: decoding inverts encoding, byte by byte and on any text: \<open>decodeURI\<close> what \<open>encodeURI\<close> and the plain
  \<open>encodeURIComponent\<close> wrote, and the form decoder, which reads + as a space, what
  \<open>encodeURIComponent\<close> wrote in either mode.
\<close>

theorem uri_roundtrip:
  "(\<exists>e. encoding_encodeURI url = Some e \<and> encoding_decodeURI S e = Some url)
   \<and> (\<exists>e. encoding_encodeURIComponent url False = Some e \<and> encoding_decodeURI S e = Some url)
   \<and> (\<exists>e. encoding_encodeURIComponent url formEncoded = Some e \<and> decodeURI S True e = Some url)"
  unfolding encoding_encodeURI_def encoding_encodeURIComponent_def encoding_decodeURI_def encodeURI_eq
  by (intro conjI exI, rule refl, rule decode_encode [OF decodable_tables(1)], simp,
    rule refl, rule decode_encode [OF decodable_tables(2)], simp,
    rule refl, rule decode_encode [OF decodable_tables(2)], simp)

text \<open>
  C22: the first pass of the decoder sizes the buffer exactly: the second pass never writes past it nor
  leaves a part of it unwritten, whatever the text, and the result is never longer than the text.
\<close>

theorem uri_decode_exact:
  assumes "transcoder utf16_step enc8 S"
  shows "decodeURI S space url = Some (decode_text S space url)
    \<and> length (decode_text S space url) = decode_size S url \<and> decode_size S url \<le> length url"
  using decodeURI_eq [OF assms] length_decode_text [OF assms] decode_text_shorter [OF assms, of space url] by simp

lemma uri_decode_exact_witness:
  "length (decode_text (ref_simd utf16_step enc8) True ''a%u4E2D+'') = decode_size (ref_simd utf16_step enc8) ''a%u4E2D+''"
  using uri_decode_exact [OF ref_transcoder [OF utf16_scanner]] by simp

section \<open>What the code does not mean\<close>

text \<open>\<open>querystring.unescape\<close> does not undo \<open>querystring.escape\<close>: a space comes back as a plus sign.\<close>

lemma unescape_not_inverse:
  "querystring_escape '' '' = Some ''+''" "querystring_unescape S ''+'' = Some ''+''"
  by (simp_all add: querystring_escape_def querystring_unescape_def encoding_encodeURIComponent_def encodeURI_eq
      encoding_decodeURI_def decodeURI_def decode_plain decode_text.simps [of S False "[]"] decode_size.simps [of S "[]"]
      URIComponentTable_def)

text \<open>\<open>qisxdigit\<close> takes every capital letter for a digit, of value 0 from G on.\<close>

lemma capital_letters_are_digits:
  "qisxdigit CHR ''G'' \<and> qisxdigit CHR ''Z'' \<and> qhex CHR ''Z'' = 0"
  "decodeURI S space ''%ZZ'' = Some [CHR 0x00]"
proof -
  show d: "qisxdigit CHR ''G'' \<and> qisxdigit CHR ''Z'' \<and> qhex CHR ''Z'' = 0"
    by (simp add: qisxdigit_def qhex_def c_isdigit_def)
  then show "decodeURI S space ''%ZZ'' = Some [CHR 0x00]"
    by (simp add: decodeURI_def byte_escape_def decode_text.simps decode_size.simps numeral_3_eq_3 numeral_2_eq_2
        char_of_def)
qed

text \<open>A surrogate pair written as two escapes is converted one half at a time, each to U+FFFD.\<close>

lemma escaped_pair_is_lost:
  assumes "transcoder utf16_step enc8 S"
  shows "decodeURI S space ''%uD83D%uDE00'' = Some (byte_chars (enc8 0xFFFD @ enc8 0xFFFD))"
proof -
  have u: "escaped_unit ''%uD83D%uDE00'' = 0xD83D" "escaped_unit ''%uDE00'' = 0xDE00"
    by (simp_all add: escaped_unit_def qhex_def c_isdigit_def)
  show ?thesis
    unfolding decodeURI_eq [OF assms]
    by (simp add: decode_text.simps byte_escape_def unit_escape_def qisxdigit_def c_isdigit_def u unit_bytes(2) [OF assms]
        utf16_unit_chars high_surrogate_def low_surrogate_def byte_chars_def)
qed

end
