(* ===== verification/HttpCollection.thy ===== *)
theory HttpCollection
  imports UriCodec
begin

text \<open>
  The name/value collections behind \<open>HttpCollection\<close>, \<open>Headers\<close> and \<open>URLSearchParams\<close>:
  the template \<^verbatim>\<open>include/HttpCollectionTmpl.h\<close> over a vector of pairs, with the comparison of keys of
  \<^verbatim>\<open>include/qstring.h\<close>, and what the three classes add (\<^verbatim>\<open>include/Headers.h\<close>,
  \<^verbatim>\<open>src/net/URLSearchParams.cpp\<close>). A value is a string or another JavaScript value, whose text is the
  parameter \<open>js\<close>; a JavaScript array or object argument is the list of its elements or properties. An
  operation returns the new collection with the error it ends in, if any.
\<close>

section \<open>Comparing C strings\<close>

text \<open>A \<^typ>\<open>string\<close> seen through \<open>c_str\<close>: reading at its end gives NUL.\<close>

definition chr0 :: "string \<Rightarrow> char" where
  "chr0 s = (case s of [] \<Rightarrow> CHR 0x00 | c # _ \<Rightarrow> c)"

definition c_string :: "string \<Rightarrow> string" where
  "c_string s = takeWhile (\<lambda>c. c \<noteq> CHR 0x00) s"

text \<open>\<open>f\<close> is the value compared: the character itself or its lower case.\<close>

fun qcmp_loop :: "(char \<Rightarrow> int) \<Rightarrow> string \<Rightarrow> string \<Rightarrow> int \<Rightarrow> int" where
  "qcmp_loop f [] s2 sz = - schar (chr0 s2)"
| "qcmp_loop f (c # s1) s2 sz =
     (if c = CHR 0x00 then - schar (chr0 s2)
      else let n = f c - f (chr0 s2)
           in if n \<noteq> 0 then n
              else if sz > 0 \<and> sz - 1 = 0 then 0
              else qcmp_loop f s1 (tl s2) (if sz > 0 then sz - 1 else sz))"

definition qstrcmp :: "string \<Rightarrow> string \<Rightarrow> int \<Rightarrow> int" where
  "qstrcmp s1 s2 sz = (if sz = 0 then 0 else qcmp_loop schar s1 s2 sz)"

definition qtolower :: "char \<Rightarrow> char" where
  "qtolower c = (if 65 \<le> code c \<and> code c \<le> 90 then char_of (code c + 32) else c)"

definition qstricmp :: "string \<Rightarrow> string \<Rightarrow> int \<Rightarrow> int" where
  "qstricmp s1 s2 sz = (if sz = 0 then 0 else qcmp_loop (schar \<circ> qtolower) s1 s2 sz)"

section \<open>State\<close>

datatype 'j variant = VT_String string | VT_Other 'j

definition v_toString :: "('j \<Rightarrow> string) \<Rightarrow> 'j variant \<Rightarrow> string" where
  "v_toString js v = (case v of VT_String s \<Rightarrow> s | VT_Other j \<Rightarrow> js j)"

datatype coll_error = Invalid_arg | Bad_vartype | Overrun

record 'j collection =
  m_map :: "(string \<times> 'j variant) list"
  m_string_only :: bool
  m_lowercase_keys :: bool
  m_sorted :: bool
  m_allow_empty_name :: bool
  m_sort_on_iterate :: bool
  case_sensitive :: bool

type_synonym 'j outcome = "'j collection \<times> coll_error option"

definition new_collection :: "bool \<Rightarrow> bool \<Rightarrow> bool \<Rightarrow> bool \<Rightarrow> 'j collection" where
  "new_collection sens string_only allow_empty sort_it =
     \<lparr>m_map = [], m_string_only = string_only, m_lowercase_keys = False, m_sorted = True,
      m_allow_empty_name = allow_empty, m_sort_on_iterate = sort_it, case_sensitive = sens\<rparr>"

definition new_HttpCollection :: "bool \<Rightarrow> 'j collection" where
  "new_HttpCollection string_only = new_collection False string_only True True"

definition new_Headers :: "'j collection" where
  "new_Headers = (new_collection False True False True)\<lparr>m_lowercase_keys := True\<rparr>"

definition new_URLSearchParams :: "'j collection" where
  "new_URLSearchParams = new_collection True True True False"

definition cmp_key :: "bool \<Rightarrow> string \<Rightarrow> string \<Rightarrow> int" where
  "cmp_key sens key key2 = (if sens then qstrcmp key key2 (-1) else qstricmp key key2 (-1))"

definition no_name :: "string \<Rightarrow> 'j collection \<Rightarrow> bool" where
  "no_name name C \<longleftrightarrow> name = [] \<and> \<not> m_allow_empty_name C"

section \<open>Reading\<close>

definition hc_clear :: "'j collection \<Rightarrow> 'j collection" where
  "hc_clear C = C\<lparr>m_map := []\<rparr>"

definition hc_first :: "string \<Rightarrow> 'j collection \<Rightarrow> coll_error + 'j variant option" where
  "hc_first name C =
     (if no_name name C then Inl Invalid_arg
      else Inr (map_option snd (List.find (\<lambda>p. cmp_key (case_sensitive C) (fst p) name = 0) (m_map C))))"

text \<open>\<open>all (name)\<close>; \<open>getAll\<close> is the same, and \<open>all ('')\<close> gives every pair.\<close>

definition hc_all :: "string \<Rightarrow> 'j collection \<Rightarrow> 'j variant list" where
  "hc_all name C = map snd (filter (\<lambda>p. cmp_key (case_sensitive C) (fst p) name = 0) (m_map C))"

definition hc_has :: "string \<Rightarrow> 'j collection \<Rightarrow> coll_error + bool" where
  "hc_has name C =
     (if no_name name C then Inl Invalid_arg
      else Inr (list_ex (\<lambda>p. cmp_key (case_sensitive C) (fst p) name = 0) (m_map C)))"

definition hc_getSetCookie :: "('j \<Rightarrow> string) \<Rightarrow> 'j collection \<Rightarrow> string list" where
  "hc_getSetCookie js C = map (v_toString js) (hc_all ''set-cookie'' C)"

section \<open>Writing\<close>

definition hc_append :: "('j \<Rightarrow> string) \<Rightarrow> string \<Rightarrow> 'j variant \<Rightarrow> 'j collection \<Rightarrow> 'j outcome" where
  "hc_append js name v C =
     (if no_name name C then (C, Some Invalid_arg)
      else (C\<lparr>m_map := m_map C @ [(if m_lowercase_keys C then map qtolower name else name,
                                    if m_string_only C then VT_String (v_toString js v) else v)],
              m_sorted := False\<rparr>, None))"

fun hc_append_values :: "('j \<Rightarrow> string) \<Rightarrow> string \<Rightarrow> 'j variant list \<Rightarrow> 'j collection \<Rightarrow> 'j outcome" where
  "hc_append_values js name [] C = (C, None)"
| "hc_append_values js name (v # vs) C =
     (case hc_append js name v C of
        (C, Some e) \<Rightarrow> (C, Some e)
      | (C, None) \<Rightarrow> hc_append_values js name vs C)"

text \<open>A property of an object: an array of values or one value.\<close>

fun hc_append_object :: "('j \<Rightarrow> string) \<Rightarrow> (string \<times> ('j variant list + 'j variant)) list \<Rightarrow> 'j collection \<Rightarrow> 'j outcome" where
  "hc_append_object js [] C = (C, None)"
| "hc_append_object js ((k, v) # ps) C =
     (case (case v of Inl vs \<Rightarrow> hc_append_values js k vs C | Inr x \<Rightarrow> hc_append js k x C) of
        (C, Some e) \<Rightarrow> (C, Some e)
      | (C, None) \<Rightarrow> hc_append_object js ps C)"

text \<open>An entry of an array: \<^term>\<open>None\<close> when it is not an array itself.\<close>

fun hc_append_entries :: "('j \<Rightarrow> string) \<Rightarrow> 'j variant list option list \<Rightarrow> 'j collection \<Rightarrow> 'j outcome" where
  "hc_append_entries js [] C = (C, None)"
| "hc_append_entries js (e # es) C =
     (case e of
        None \<Rightarrow> (C, Some Bad_vartype)
      | Some p \<Rightarrow>
          if length p \<noteq> 2 then (C, Some Bad_vartype)
          else (case hc_append js (v_toString js (p ! 0)) (p ! 1) C of
                  (C, Some e) \<Rightarrow> (C, Some e)
                | (C, None) \<Rightarrow> hc_append_entries js es C))"

definition hc_remove :: "string \<Rightarrow> 'j collection \<Rightarrow> 'j outcome" where
  "hc_remove name C =
     (if no_name name C then (C, Some Invalid_arg)
      else (C\<lparr>m_map := filter (\<lambda>p. cmp_key (case_sensitive C) (fst p) name \<noteq> 0) (m_map C)\<rparr>, None))"

definition hc_delete :: "string \<Rightarrow> 'j collection \<Rightarrow> 'j outcome" where
  "hc_delete name C = (if no_name name C then (C, Some Invalid_arg) else hc_remove name C)"

definition hc_set_values :: "('j \<Rightarrow> string) \<Rightarrow> string \<Rightarrow> 'j variant list \<Rightarrow> 'j collection \<Rightarrow> 'j outcome" where
  "hc_set_values js name vs C = hc_append_values js name vs (fst (hc_remove name C))"

definition hc_set :: "('j \<Rightarrow> string) \<Rightarrow> string \<Rightarrow> 'j variant list + 'j variant \<Rightarrow> 'j collection \<Rightarrow> 'j outcome" where
  "hc_set js name value C =
     (if no_name name C then (C, Some Invalid_arg)
      else case value of
        Inl vs \<Rightarrow> hc_set_values js name vs C
      | Inr v \<Rightarrow> hc_append js name v (fst (hc_remove name C)))"

text \<open>The object form of \<open>set\<close> does not look at the results.\<close>

fun hc_set_object :: "('j \<Rightarrow> string) \<Rightarrow> (string \<times> ('j variant list + 'j variant)) list \<Rightarrow> 'j collection \<Rightarrow> 'j outcome" where
  "hc_set_object js [] C = (C, None)"
| "hc_set_object js ((k, v) # ps) C = hc_set_object js ps (fst (hc_set js k v C))"

section \<open>Order and iteration\<close>

text \<open>\<open>std::string::operator<\<close> compares the bytes as unsigned numbers.\<close>

fun str_less :: "string \<Rightarrow> string \<Rightarrow> bool" where
  "str_less a [] = False"
| "str_less [] (d # b) = True"
| "str_less (c # a) (d # b) = (code c < code d \<or> code c = code d \<and> str_less a b)"

text \<open>\<open>std::stable_sort\<close>: an element goes before the first one whose key is not less.\<close>

fun insert_pair :: "string \<times> 'a \<Rightarrow> (string \<times> 'a) list \<Rightarrow> (string \<times> 'a) list" where
  "insert_pair p [] = [p]"
| "insert_pair p (q # qs) = (if str_less (fst q) (fst p) then q # insert_pair p qs else p # q # qs)"

definition stable_sort :: "(string \<times> 'a) list \<Rightarrow> (string \<times> 'a) list" where
  "stable_sort ps = foldr insert_pair ps []"

definition hc_sort :: "'j collection \<Rightarrow> 'j collection" where
  "hc_sort C = (if \<not> m_sorted C then C\<lparr>m_map := stable_sort (m_map C), m_sorted := True\<rparr> else C)"

definition for_iteration :: "'j collection \<Rightarrow> 'j collection" where
  "for_iteration C = (if m_sort_on_iterate C then hc_sort C else C)"

text \<open>\<open>forEach\<close>: the collection it leaves and the calls of the callback, value first.\<close>

definition hc_forEach :: "'j collection \<Rightarrow> 'j collection \<times> ('j variant \<times> string) list" where
  "hc_forEach C = (for_iteration C, map (\<lambda>p. (snd p, fst p)) (m_map (for_iteration C)))"

text \<open>An iterator of \<open>entries\<close> keeps its index and looks at the live collection at each step.\<close>

definition hc_entries_next :: "nat \<Rightarrow> 'j collection \<Rightarrow> (string \<times> 'j variant) option" where
  "hc_entries_next index C = (if index \<ge> length (m_map C) then None else Some (m_map C ! index))"

definition hc_keys_next :: "nat \<Rightarrow> 'j collection \<Rightarrow> string option" where
  "hc_keys_next index C = (if index \<ge> length (m_map C) then None else Some (fst (m_map C ! index)))"

definition hc_values_next :: "nat \<Rightarrow> 'j collection \<Rightarrow> 'j variant option" where
  "hc_values_next index C = (if index \<ge> length (m_map C) then None else Some (snd (m_map C ! index)))"

section \<open>Named properties\<close>

datatype 'a grouped = Single 'a | Many "'a list"

fun group_value :: "'a grouped option \<Rightarrow> 'a \<Rightarrow> 'a grouped" where
  "group_value None v = Single v"
| "group_value (Some (Single u)) v = Many [u, v]"
| "group_value (Some (Many us)) v = Many (us @ [v])"

definition hc_named_getter :: "string \<Rightarrow> 'j collection \<Rightarrow> 'j variant grouped option" where
  "hc_named_getter property C =
     foldl (\<lambda>r p. if cmp_key (case_sensitive C) (fst p) property = 0 then Some (group_value r (snd p)) else r)
       None (m_map C)"

fun new_names :: "string list \<Rightarrow> string list \<Rightarrow> string list" where
  "new_names seen [] = []"
| "new_names seen (n # ns) = (if n \<in> set seen then new_names seen ns else n # new_names (n # seen) ns)"

definition hc_named_enumerator :: "'j collection \<Rightarrow> string list" where
  "hc_named_enumerator C = new_names [] (map fst (m_map C))"

definition hc_named_setter :: "('j \<Rightarrow> string) \<Rightarrow> string \<Rightarrow> 'j variant \<Rightarrow> 'j collection \<Rightarrow> 'j outcome" where
  "hc_named_setter js property newVal C = hc_set js property (Inr newVal) C"

definition hc_named_deleter :: "string \<Rightarrow> 'j collection \<Rightarrow> 'j collection \<times> bool" where
  "hc_named_deleter property C =
     (let C' = fst (hc_remove property C) in (C', length (m_map C') < length (m_map C)))"

text \<open>
  \<open>toJSON\<close> builds a plain object: \<open>proto\<close> is what reading a name gives that the object does not have
  itself, the members of the prototype of objects. Values are strings, no name is \<open>__proto__\<close>.
\<close>

definition json_put :: "(string \<Rightarrow> 'j variant option) \<Rightarrow> string \<Rightarrow> 'j variant \<Rightarrow>
    (string \<rightharpoonup> 'j variant grouped) \<Rightarrow> (string \<rightharpoonup> 'j variant grouped)" where
  "json_put proto name v obj =
     obj(name \<mapsto> group_value (case obj name of Some g \<Rightarrow> Some g | None \<Rightarrow> map_option Single (proto name)) v)"

definition hc_toJSON :: "(string \<Rightarrow> 'j variant option) \<Rightarrow> 'j collection \<Rightarrow> (string \<rightharpoonup> 'j variant grouped)" where
  "hc_toJSON proto C = foldl (\<lambda>obj p. json_put proto (fst p) (snd p) obj) Map.empty (m_map C)"

end
