(* ===== verification/QueryString.thy ===== *)
theory QueryString
  imports HttpCollection
begin

text \<open>
  The text forms of the collections: \<open>parse\<close> of \<^verbatim>\<open>include/HttpCollectionTmpl.h\<close>, \<open>parseCookie\<close> of
  \<^verbatim>\<open>src/http/HttpCollection.cpp\<close>, \<open>querystring.parse\<close> and \<open>stringify\<close>
  (\<^verbatim>\<open>src/http/querystring.cpp\<close>), \<open>URLSearchParams\<close> (\<^verbatim>\<open>src/net/URLSearchParams.cpp\<close>) and the
  header block \<open>Headers\<close> writes (\<^verbatim>\<open>include/Headers.h\<close>). A pointer into the text is the text from
  there on. \<open>parse\<close> is a partial function: it has no value where the code loops for ever.
\<close>

section \<open>Parsing\<close>

text \<open>The copy of \<open>decodeURI\<close> in the template.\<close>

definition tmpl_decodeURI :: "(16 word, byte) simd \<Rightarrow> bool \<Rightarrow> string \<Rightarrow> string option" where
  "tmpl_decodeURI S space url =
     (if url = [] then Some [] else sized_write (decode_size S url) (decode_text S space url))"

definition starts :: "string \<Rightarrow> string \<Rightarrow> bool" where
  "starts mark p \<longleftrightarrow> qstrcmp p mark (int (length mark)) = 0"

text \<open>How far the two scanning loops go; the first also tells whether it stopped at \<open>eq\<close>.\<close>

fun key_span :: "string \<Rightarrow> string \<Rightarrow> string \<Rightarrow> nat \<times> bool" where
  "key_span sep eq [] = (0, False)"
| "key_span sep eq (c # p) =
     (if starts sep (c # p) then (0, False)
      else if starts eq (c # p) then (0, True)
      else case key_span sep eq p of (k, found_eq) \<Rightarrow> (Suc k, found_eq))"

fun value_span :: "string \<Rightarrow> string \<Rightarrow> nat" where
  "value_span sep [] = 0"
| "value_span sep (c # p) = (if starts sep (c # p) then 0 else Suc (value_span sep p))"

text \<open>
  One turn of the loop: whether the text does not begin with a separator, the text of the name, the text
  of the value, and what is left.
\<close>

definition segment_split :: "string \<Rightarrow> string \<Rightarrow> string \<Rightarrow> bool \<times> string \<times> string \<times> string" where
  "segment_split sep eq p =
     (let k = fst (key_span sep eq p);
          q = drop k p;
          q = (if q \<noteq> [] \<and> snd (key_span sep eq p) then drop (length eq) q else q);
          n = value_span sep q;
          rest = drop n q
      in (\<not> (length p \<ge> length sep \<and> starts sep p), take k p, take n q,
          if rest \<noteq> [] then drop (length sep) rest else rest))"

partial_function (option) parse_loop ::
    "(16 word, byte) simd \<Rightarrow> ('j \<Rightarrow> string) \<Rightarrow> string \<Rightarrow> string \<Rightarrow> string \<Rightarrow> 'j collection \<Rightarrow> 'j outcome option" where
  "parse_loop S js sep eq p C =
     (if p = [] then Some (C, None)
      else case segment_split sep eq p of (hasSegment, k, v, rest) \<Rightarrow>
        (case tmpl_decodeURI S True k of
           None \<Rightarrow> Some (C, Some Overrun)
         | Some strKey \<Rightarrow>
             if hasSegment then
               (case tmpl_decodeURI S True v of
                  None \<Rightarrow> Some (C, Some Overrun)
                | Some strValue \<Rightarrow>
                    (case hc_append js strKey (VT_String strValue) C of
                       (C, Some e) \<Rightarrow> Some (C, Some e)
                     | (C, None) \<Rightarrow> parse_loop S js sep eq rest C))
             else parse_loop S js sep eq rest C))"

text \<open>\<open>sep\<close> and \<open>eq\<close> reach the loop as C strings.\<close>

definition hc_parse ::
    "(16 word, byte) simd \<Rightarrow> ('j \<Rightarrow> string) \<Rightarrow> string \<Rightarrow> string \<Rightarrow> string \<Rightarrow> 'j collection \<Rightarrow> 'j outcome option" where
  "hc_parse S js str sep eq C = parse_loop S js (c_string sep) (c_string eq) str C"

definition querystring_parse ::
    "(16 word, byte) simd \<Rightarrow> ('j \<Rightarrow> string) \<Rightarrow> string \<Rightarrow> string \<Rightarrow> string \<Rightarrow> 'j outcome option" where
  "querystring_parse S js str sep eq = hc_parse S js str sep eq (new_HttpCollection True)"

text \<open>
  One cookie after another: \<open>cookie_split\<close> gives the text of the name, the text of the value and what is
  left. The result of \<open>append\<close> is not looked at.
\<close>

definition cookie_split :: "string \<Rightarrow> string \<times> string \<times> string" where
  "cookie_split pstr =
     (let p = dropWhile (\<lambda>c. c = CHR '' '') pstr;
          q = dropWhile (\<lambda>c. c \<noteq> CHR ''='' \<and> c \<noteq> CHR '';'') p;
          q = (if q \<noteq> [] \<and> hd q = CHR ''='' then tl q else q)
      in (takeWhile (\<lambda>c. c \<noteq> CHR ''='' \<and> c \<noteq> CHR '';'') p, takeWhile (\<lambda>c. c \<noteq> CHR '';'') q,
          tl (dropWhile (\<lambda>c. c \<noteq> CHR '';'') q)))"

lemma cookie_rest_shorter:
  assumes "pstr \<noteq> []"
  shows "length (snd (snd (cookie_split pstr))) < length pstr"
proof -
  have "length (dropWhile P (if Q then tl (dropWhile R (dropWhile T pstr)) else dropWhile R (dropWhile T pstr))) \<le> length pstr"
    for P Q R T
  proof -
    have "length (dropWhile R (dropWhile T pstr)) \<le> length pstr"
      using length_dropWhile_le [of R "dropWhile T pstr"] length_dropWhile_le [of T pstr] by linarith
    then show ?thesis
      using length_dropWhile_le [of P "tl (dropWhile R (dropWhile T pstr))"]
        length_dropWhile_le [of P "dropWhile R (dropWhile T pstr)"] by auto
  qed
  note l = this
  have "length (snd (snd (cookie_split pstr))) \<le> length pstr - 1"
    unfolding cookie_split_def Let_def snd_conv length_tl by (rule diff_le_mono [OF l])
  with assms show ?thesis by (cases pstr) auto
qed

function parseCookie :: "(16 word, byte) simd \<Rightarrow> ('j \<Rightarrow> string) \<Rightarrow> string \<Rightarrow> 'j collection \<Rightarrow> 'j outcome" where
  "parseCookie S js pstr C =
     (if pstr = [] then (C, None)
      else case cookie_split pstr of (k, v, rest) \<Rightarrow>
        (case decodeURI S True k of
           None \<Rightarrow> (C, Some Overrun)
         | Some strKey \<Rightarrow>
             if strKey \<noteq> [] then
               (case decodeURI S True v of
                  None \<Rightarrow> (C, Some Overrun)
                | Some strValue \<Rightarrow> parseCookie S js rest (fst (hc_append js strKey (VT_String strValue) C)))
             else parseCookie S js rest C))"
  by pat_completeness auto
termination
proof (relation "measure (\<lambda>(S, js, p, C). length p)", goal_cases)
  case 1
  then show ?case by simp
next
  case (2 S js pstr C x k y v)
  then have "snd (snd (cookie_split pstr)) = v" by (metis snd_conv)
  then show ?case using cookie_rest_shorter [OF 2(1)] by simp
next
  case (3 S js pstr C x k y v)
  then have "snd (snd (cookie_split pstr)) = v" by (metis snd_conv)
  then show ?case using cookie_rest_shorter [OF 3(1)] by simp
qed

declare parseCookie.simps [simp del]

section \<open>Writing query strings\<close>

text \<open>A property of the object with its values as text: one value or the elements of an array.\<close>

fun stringify_values :: "string \<Rightarrow> string \<Rightarrow> string \<Rightarrow> string list \<Rightarrow> string \<Rightarrow> string option" where
  "stringify_values sep eq strKey [] bufs = Some bufs"
| "stringify_values sep eq strKey (v # vs) bufs =
     (case encoding_encodeURIComponent v True of
        None \<Rightarrow> None
      | Some strValue \<Rightarrow>
          stringify_values sep eq strKey vs ((if bufs \<noteq> [] then bufs @ sep else bufs) @ strKey @ eq @ strValue))"

fun stringify_loop :: "string \<Rightarrow> string \<Rightarrow> (string \<times> (string list + string)) list \<Rightarrow> string \<Rightarrow> string option" where
  "stringify_loop sep eq [] bufs = Some bufs"
| "stringify_loop sep eq ((k, v) # ps) bufs =
     (case encoding_encodeURIComponent k True of
        None \<Rightarrow> None
      | Some strKey \<Rightarrow>
          (case stringify_values sep eq strKey (case v of Inl vs \<Rightarrow> vs | Inr s \<Rightarrow> [s]) bufs of
             None \<Rightarrow> None
           | Some bufs \<Rightarrow> stringify_loop sep eq ps bufs))"

definition querystring_stringify :: "(string \<times> (string list + string)) list \<Rightarrow> string \<Rightarrow> string \<Rightarrow> string option" where
  "querystring_stringify obj sep eq = stringify_loop sep eq obj []"

section \<open>URLSearchParams\<close>

text \<open>\<open>_pair.second.string ()\<close> is the text of a string and empty otherwise.\<close>

definition v_string :: "'j variant \<Rightarrow> string" where
  "v_string v = (case v of VT_String s \<Rightarrow> s | VT_Other j \<Rightarrow> [])"

definition params_parse_init :: "(16 word, byte) simd \<Rightarrow> ('j \<Rightarrow> string) \<Rightarrow> string \<Rightarrow> 'j outcome option" where
  "params_parse_init S js str =
     hc_parse S js (if str \<noteq> [] \<and> str ! 0 = CHR ''?'' then drop 1 str else str) ''&'' ''='' new_URLSearchParams"

definition params_init :: "'j collection \<Rightarrow> 'j collection \<Rightarrow> 'j collection" where
  "params_init other C = C\<lparr>m_map := m_map C @ m_map other\<rparr>"

definition params_size :: "'j collection \<Rightarrow> nat" where
  "params_size C = length (m_map C)"

fun params_text :: "bool \<Rightarrow> (string \<times> 'j variant) list \<Rightarrow> string \<Rightarrow> string option" where
  "params_text first [] bufs = Some bufs"
| "params_text first (p # ps) bufs =
     (case encoding_encodeURIComponent (fst p) True of
        None \<Rightarrow> None
      | Some encodedKey \<Rightarrow>
          (case encoding_encodeURIComponent (v_string (snd p)) True of
             None \<Rightarrow> None
           | Some encodedValue \<Rightarrow>
               params_text False ps (bufs @ (if first then [] else ''&'') @ encodedKey @ ''='' @ encodedValue)))"

definition params_toString :: "'j collection \<Rightarrow> string option" where
  "params_toString C = params_text True (m_map C) []"

definition params_has :: "string \<Rightarrow> string option \<Rightarrow> 'j collection \<Rightarrow> coll_error + bool" where
  "params_has name value C =
     (case value of
        None \<Rightarrow> hc_has name C
      | Some expected \<Rightarrow> Inr (list_ex (\<lambda>p. fst p = name \<and> v_string (snd p) = expected) (m_map C)))"

definition params_delete :: "string \<Rightarrow> string option \<Rightarrow> 'j collection \<Rightarrow> 'j outcome" where
  "params_delete name value C =
     (case value of
        None \<Rightarrow> hc_delete name C
      | Some expected \<Rightarrow>
          (C\<lparr>m_map := filter (\<lambda>p. \<not> (fst p = name \<and> v_string (snd p) = expected)) (m_map C)\<rparr>, None))"

section \<open>Headers\<close>

definition headers_get :: "('j \<Rightarrow> string) \<Rightarrow> string \<Rightarrow> 'j collection \<Rightarrow> coll_error + string option" where
  "headers_get js name C =
     (if name = [] then Inl Invalid_arg
      else Inr (foldl (\<lambda>result p.
                  if qstricmp (fst p) name (-1) = 0
                  then Some ((case result of Some r \<Rightarrow> r @ '', '' | None \<Rightarrow> []) @ v_toString js (snd p))
                  else result) None (m_map C)))"

definition managed :: "string \<Rightarrow> bool" where
  "managed n \<longleftrightarrow> qstricmp n ''content-length'' (-1) = 0 \<or> qstricmp n ''connection'' (-1) = 0"

fun headers_size :: "(string \<times> 'j variant) list \<Rightarrow> nat" where
  "headers_size [] = 0"
| "headers_size (p # ps) =
     (if managed (fst p) then headers_size ps
      else length (fst p) + length (v_string (snd p)) + 4 + headers_size ps)"

text \<open>\<open>cp\<close> copies what fits: \<open>out\<close> is what has been written, its length the position.\<close>

definition cp :: "nat \<Rightarrow> string \<Rightarrow> string \<Rightarrow> string" where
  "cp sz out str =
     (let pos = length out + length str
      in if pos > sz then out @ take (length str - (pos - sz)) str else out @ str)"

fun headers_getData :: "nat \<Rightarrow> (string \<times> 'j variant) list \<Rightarrow> string \<Rightarrow> string" where
  "headers_getData sz [] out = out"
| "headers_getData sz (p # ps) out =
     (if managed (fst p) then headers_getData sz ps out
      else headers_getData sz ps
             (cp sz (cp sz (cp sz (cp sz out (fst p)) '': '') (v_string (snd p))) [CHR 0x0D, CHR 0x0A]))"

end
