(* ===== verification/CollectionSpec.thy ===== *)
theory CollectionSpec
  imports QueryString "HOL-Library.Char_ord" "HOL-Library.List_Lexorder" "HOL-Library.Multiset"
begin

text \<open>
  What the collections promise: they are multimaps from names to lists of values, up to the way their
  class compares names; every reachable collection is well typed; iteration is in the stable order of
  the names.
\<close>

section \<open>Comparison\<close>

lemma signed_inject:
  assumes "m < (256 :: nat)" "n < 256"
  shows "(if m < 128 then int m else int m - 256) = (if n < 128 then int n else int n - 256) \<longleftrightarrow> m = n"
  using assms by auto

lemma schar_inject [simp]: "schar c = schar d \<longleftrightarrow> c = d"
  unfolding schar_def signed_inject [OF code_less_256 code_less_256] by simp

lemma schar_nul: "schar (CHR 0x00) = 0"
  by (simp add: schar_def)

lemma schar_zero [simp]: "schar c = 0 \<longleftrightarrow> c = CHR 0x00"
  using schar_inject [of c "CHR 0x00"] by (simp add: schar_nul del: schar_inject)

lemma qtolower_nul [simp]: "qtolower c = CHR 0x00 \<longleftrightarrow> c = CHR 0x00" 
proof -
  have "code (qtolower c) = (if 65 \<le> code c \<and> code c \<le> 90 then code c + 32 else code c)"
    by (simp add: qtolower_def)
  then have "code (qtolower c) = 0 \<longleftrightarrow> code c = 0" by auto
  moreover have "code d = 0 \<longleftrightarrow> d = CHR 0x00" for d using of_char_eq_iff [of d "CHR 0x00"] by simp
  ultimately show ?thesis by metis
qed

lemma c_string_simps [simp]:
  "c_string [] = []" "c_string (c # s) = (if c = CHR 0x00 then [] else c # c_string s)"
  by (simp_all add: c_string_def)

lemma chr0_zero: "chr0 s = CHR 0x00 \<longleftrightarrow> c_string s = []"
  by (cases s) (simp_all add: chr0_def)

text \<open>The comparison of whole strings answers 0 for the same C strings, after \<open>g\<close> on each character.\<close>

lemma qcmp_loop_equal:
  assumes g: "\<And>c. g c = CHR 0x00 \<longleftrightarrow> c = CHR 0x00"
  shows "qcmp_loop (schar \<circ> g) a b (-1) = 0 \<longleftrightarrow> map g (c_string a) = map g (c_string b)"
proof (induction a arbitrary: b)
  case Nil
  then show ?case by (simp add: chr0_zero)
next
  case (Cons c a)
  have g0: "g (CHR 0x00) = CHR 0x00" using g by simp
  show ?case
  proof (cases b)
    case Nil
    moreover have "g c = g (CHR 0x00) \<longleftrightarrow> c = CHR 0x00" using g [of c] g0 by simp
    ultimately show ?thesis using g0 by (simp add: chr0_def)
  next
    case (Cons d b')
    have "g c = g d \<Longrightarrow> (c = CHR 0x00) = (d = CHR 0x00)" using g [of c] g [of d] by simp
    then show ?thesis using Cons.IH [of b'] Cons g0 by (simp add: chr0_def)
  qed
qed

definition same_name :: "bool \<Rightarrow> string \<Rightarrow> string \<Rightarrow> bool" where
  "same_name sens a b \<longleftrightarrow>
     (if sens then c_string a = c_string b else map qtolower (c_string a) = map qtolower (c_string b))"

lemma cmp_key_same: "cmp_key sens a b = 0 \<longleftrightarrow> same_name sens a b"
  using qcmp_loop_equal [of "\<lambda>c. c" a b] qcmp_loop_equal [of qtolower a b]
  by (simp add: cmp_key_def qstrcmp_def qstricmp_def same_name_def comp_def)

lemma same_name_equiv: "equivp (same_name sens)"
  by (rule equivpI) (auto simp: reflp_def symp_def transp_def same_name_def)

lemma starts_prefix:
  assumes "CHR 0x00 \<notin> set m"
  shows "starts m p \<longleftrightarrow> take (length m) p = m"
  using assms
proof (induction m arbitrary: p)
  case Nil
  then show ?case by (simp add: starts_def qstrcmp_def)
next
  case (Cons d m)
  show ?case
  proof (cases p)
    case Nil
    with Cons.prems show ?thesis by (auto simp: starts_def qstrcmp_def chr0_def)
  next
    case (Cons c q)
    have "m = [] \<or> (qcmp_loop schar q m (int (length m)) = 0 \<longleftrightarrow> take (length m) q = m)"
      using Cons.IH [of q] Cons.prems by (auto simp: starts_def qstrcmp_def)
    with Cons Cons.prems show ?thesis by (auto simp: starts_def qstrcmp_def chr0_def)
  qed
qed

section \<open>Multimaps\<close>

text \<open>
  A multimap gives every name the list of its values, in the order they were added; names that are the
  same share them. \<open>ok\<close> is the invariant of a state, \<open>valid\<close> the names it takes, and \<open>keep\<close> what is
  stored for a value.
\<close>

locale multimap =
  fixes lookup :: "'k \<Rightarrow> 's \<Rightarrow> 'v list" and add :: "'k \<Rightarrow> 'v \<Rightarrow> 's \<Rightarrow> 's" and del :: "'k \<Rightarrow> 's \<Rightarrow> 's"
    and same :: "'k \<Rightarrow> 'k \<Rightarrow> bool" and keep :: "'v \<Rightarrow> 'v" and ok :: "'s \<Rightarrow> bool" and valid :: "'k \<Rightarrow> bool"
  assumes same_equivp: "equivp same"
    and ok_add: "ok s \<Longrightarrow> valid k \<Longrightarrow> ok (add k v s)"
    and ok_del: "ok s \<Longrightarrow> valid k \<Longrightarrow> ok (del k s)"
    and lookup_add: "ok s \<Longrightarrow> valid k \<Longrightarrow>
      lookup k' (add k v s) = lookup k' s @ (if same k k' then [keep v] else [])"
    and lookup_del: "ok s \<Longrightarrow> valid k \<Longrightarrow> lookup k' (del k s) = (if same k k' then [] else lookup k' s)"
    and lookup_same: "ok s \<Longrightarrow> same k k' \<Longrightarrow> lookup k s = lookup k' s"
begin

definition add_all :: "'k \<Rightarrow> 'v list \<Rightarrow> 's \<Rightarrow> 's" where
  "add_all k vs s = foldl (\<lambda>s v. add k v s) s vs"

definition replace :: "'k \<Rightarrow> 'v list \<Rightarrow> 's \<Rightarrow> 's" where
  "replace k vs s = add_all k vs (del k s)"

lemma add_all_simps [simp]: "add_all k [] s = s" "add_all k (v # vs) s = add_all k vs (add k v s)"
  by (simp_all add: add_all_def)

lemma same_refl [simp]: "same k k"
  using same_equivp by (rule equivp_reflp)

lemma lookup_add_all:
  "ok s \<Longrightarrow> valid k \<Longrightarrow> ok (add_all k vs s) \<and>
    lookup k' (add_all k vs s) = lookup k' s @ (if same k k' then map keep vs else [])"
  by (induction vs arbitrary: s) (auto simp: ok_add lookup_add)

lemma lookup_replace:
  "ok s \<Longrightarrow> valid k \<Longrightarrow> lookup k' (replace k vs s) = (if same k k' then map keep vs else lookup k' s)"
  using lookup_add_all [of "del k s" k vs k'] by (auto simp: replace_def ok_del lookup_del)

lemma replace_replace:
  "ok s \<Longrightarrow> valid k \<Longrightarrow> lookup k' (replace k ws (replace k vs s)) = lookup k' (replace k ws s)"
proof -
  assume s: "ok s" and k: "valid k"
  have "ok (replace k vs s)" using lookup_add_all [of "del k s" k vs] s k by (simp add: replace_def ok_del)
  then show ?thesis using s k by (simp add: lookup_replace)
qed

end

section \<open>Collections are multimaps\<close>

text \<open>The settings of a collection, which no operation changes.\<close>

definition settings :: "bool \<Rightarrow> bool \<Rightarrow> bool \<Rightarrow> 'j collection \<Rightarrow> bool" where
  "settings sens allow string_only C \<longleftrightarrow>
     case_sensitive C = sens \<and> m_allow_empty_name C = allow \<and> m_string_only C = string_only
     \<and> (m_lowercase_keys C \<longrightarrow> \<not> sens)"

definition name_ok :: "bool \<Rightarrow> string \<Rightarrow> bool" where
  "name_ok allow name \<longleftrightarrow> name \<noteq> [] \<or> allow"

definition kept :: "('j \<Rightarrow> string) \<Rightarrow> bool \<Rightarrow> 'j variant \<Rightarrow> 'j variant" where
  "kept js string_only v = (if string_only then VT_String (v_toString js v) else v)"

lemma qtolower_idem [simp]: "qtolower (qtolower c) = qtolower c"
proof -
  have "code (char_of (code c + 32) :: char) = code c + 32" if "code c \<le> 90" using that by simp
  then show ?thesis by (auto simp: qtolower_def)
qed

lemma c_string_lower: "c_string (map qtolower s) = map qtolower (c_string s)"
  by (induction s) simp_all

lemma same_name_lower [simp]: "same_name False (map qtolower a) b = same_name False a b"
  by (simp add: same_name_def c_string_lower comp_def)

lemma append_ok:
  "settings sens allow so C \<Longrightarrow> name_ok allow name \<Longrightarrow> hc_append js name v C =
    (C\<lparr>m_map := m_map C @ [(if m_lowercase_keys C then map qtolower name else name, kept js so v)], m_sorted := False\<rparr>, None)"
  by (auto simp: hc_append_def no_name_def settings_def name_ok_def kept_def)

lemma remove_ok:
  "settings sens allow so C \<Longrightarrow> name_ok allow name \<Longrightarrow> hc_remove name C =
    (C\<lparr>m_map := filter (\<lambda>p. \<not> same_name sens (fst p) name) (m_map C)\<rparr>, None)"
  by (auto simp: hc_remove_def no_name_def settings_def name_ok_def cmp_key_same)

lemma all_ok: "settings sens allow so C \<Longrightarrow> hc_all name C = map snd (filter (\<lambda>p. same_name sens (fst p) name) (m_map C))"
  by (auto simp: hc_all_def settings_def cmp_key_same)

lemma settings_update [simp]:
  "settings sens allow so (C\<lparr>m_map := ps\<rparr>) = settings sens allow so C"
  "settings sens allow so (C\<lparr>m_sorted := b\<rparr>) = settings sens allow so C"
  by (simp_all add: settings_def)

lemma same_name_cong: "same_name sens a b \<Longrightarrow> same_name sens x a = same_name sens x b"
  by (auto simp: same_name_def)

lemma same_name_sym: "same_name sens a b = same_name sens b a"
  by (auto simp: same_name_def)

interpretation collection: multimap hc_all "\<lambda>k v C. fst (hc_append js k v C)" "\<lambda>k C. fst (hc_remove k C)"
    "same_name sens" "kept js so" "settings sens allow so" "name_ok allow"
  for js :: "'j \<Rightarrow> string" and sens allow so
proof
  fix s :: "'j collection" and k k' :: string and v :: "'j variant"
  show "equivp (same_name sens)" by (rule same_name_equiv)
  assume s: "settings sens allow so s"
  show "hc_all k s = hc_all k' s" if "same_name sens k k'"
    using same_name_cong [OF that] by (simp add: all_ok [OF s])
  assume k: "name_ok allow k"
  have lower: "m_lowercase_keys s \<Longrightarrow> \<not> sens" using s by (simp add: settings_def)
  show "settings sens allow so (fst (hc_append js k v s))" using s by (simp add: append_ok [OF s k])
  show "settings sens allow so (fst (hc_remove k s))" using s by (simp add: remove_ok [OF s k])
  show "hc_all k' (fst (hc_append js k v s)) = hc_all k' s @ (if same_name sens k k' then [kept js so v] else [])"
    using s lower by (auto simp: append_ok [OF s k] all_ok)
  show "hc_all k' (fst (hc_remove k s)) = (if same_name sens k k' then [] else hc_all k' s)"
    using s same_name_cong [of sens k k'] by (auto simp: remove_ok [OF s k] all_ok filter_empty_conv intro!: arg_cong [where f = "map snd"] filter_cong)
      (metis same_name_cong same_name_sym)
qed

lemma append_values_ok:
  "settings sens allow so C \<Longrightarrow> name_ok allow name \<Longrightarrow>
    hc_append_values js name vs C = (collection.add_all js name vs C, None)"
proof (induction vs arbitrary: C)
  case (Cons v vs)
  then show ?case using collection.ok_add [OF Cons.prems, of js v] by (simp add: append_ok [OF Cons.prems])
qed simp

lemma set_ok:
  assumes "settings sens allow so C" "name_ok allow name"
  shows "hc_set js name (Inl vs) C = (collection.replace js name vs C, None)"
    "hc_set js name (Inr v) C = (collection.replace js name [v] C, None)"
proof -
  note r = collection.ok_del [OF assms]
  have n: "\<not> no_name name C" using assms by (auto simp: no_name_def settings_def name_ok_def)
  show "hc_set js name (Inl vs) C = (collection.replace js name vs C, None)"
    using n by (simp add: hc_set_def hc_set_values_def collection.replace_def append_values_ok [OF r assms(2)])
  show "hc_set js name (Inr v) C = (collection.replace js name [v] C, None)"
    using n by (simp add: hc_set_def collection.replace_def append_ok [OF r assms(2)])
qed

lemma foldl_filter: "foldl (\<lambda>r p. if P p then f r (g p) else r) a xs = foldl f a (map g (filter P xs))"
  by (induction xs arbitrary: a) simp_all

definition grouped :: "'a list \<Rightarrow> 'a grouped option" where
  "grouped vs = (case vs of [] \<Rightarrow> None | [v] \<Rightarrow> Some (Single v) | u # v # ws \<Rightarrow> Some (Many vs))"

lemma group_values: "foldl (\<lambda>r v. Some (group_value r v)) None vs = grouped vs"
proof (induction vs rule: rev_induct)
  case (snoc v vs)
  then show ?case by (auto simp: grouped_def split: list.splits)
qed (simp add: grouped_def)

lemma find_filter: "map_option snd (List.find P xs) = (case map snd (filter P xs) of [] \<Rightarrow> None | v # _ \<Rightarrow> Some v)"
  by (induction xs) auto

section \<open>Order\<close>

lemma str_less_lt: "str_less a b \<longleftrightarrow> a < b"
proof (induction a b rule: str_less.induct)
  case (3 c a d b)
  then show ?case by (auto simp: less_char_def)
qed simp_all

lemma insert_pair_eq: "insert_pair = insort_key fst"
proof (intro ext)
  fix p :: "string \<times> 'a" and qs
  show "insert_pair p qs = insort_key fst p qs"
    by (induction qs) (auto simp: str_less_lt)
qed

lemma stable_sort_eq: "stable_sort ps = sort_key fst ps"
  by (simp add: stable_sort_def sort_key_def insert_pair_eq)

definition in_order :: "'j collection \<Rightarrow> bool" where
  "in_order C \<longleftrightarrow> (m_sorted C \<longrightarrow> sorted (map fst (m_map C)))"

lemma sort_in_order: "in_order C \<Longrightarrow> m_map (hc_sort C) = sort_key fst (m_map C)"
  by (auto simp: hc_sort_def in_order_def stable_sort_eq sort_key_id_if_sorted)

section \<open>Reachable collections\<close>

definition well_typed :: "'j collection \<Rightarrow> bool" where
  "well_typed C \<longleftrightarrow>
     (\<forall>(n, v) \<in> set (m_map C).
        (m_string_only C \<longrightarrow> (\<exists>s. v = VT_String s)) \<and> (m_lowercase_keys C \<longrightarrow> map qtolower n = n)
        \<and> (n = [] \<longrightarrow> m_allow_empty_name C))"

text \<open>One call of a method that changes the collection, with the copy constructors left out.\<close>

inductive coll_step :: "('j \<Rightarrow> string) \<Rightarrow> 'j collection \<Rightarrow> 'j collection \<Rightarrow> bool" for js where
  Append: "hc_append js name v C = (C', r) \<Longrightarrow> coll_step js C C'"
| Append_values: "hc_append_values js name vs C = (C', r) \<Longrightarrow> coll_step js C C'"
| Append_object: "hc_append_object js obj C = (C', r) \<Longrightarrow> coll_step js C C'"
| Append_entries: "hc_append_entries js es C = (C', r) \<Longrightarrow> coll_step js C C'"
| Set: "hc_set js name w C = (C', r) \<Longrightarrow> coll_step js C C'"
| Set_object: "hc_set_object js obj C = (C', r) \<Longrightarrow> coll_step js C C'"
| Delete: "hc_delete name C = (C', r) \<Longrightarrow> coll_step js C C'"
| Params_delete: "params_delete name w C = (C', r) \<Longrightarrow> coll_step js C C'"
| Clear: "coll_step js C (hc_clear C)"
| Sort: "coll_step js C (hc_sort C)"
| For_each: "hc_forEach C = (C', calls) \<Longrightarrow> coll_step js C C'"
| Named_setter: "hc_named_setter js name v C = (C', r) \<Longrightarrow> coll_step js C C'"
| Named_deleter: "hc_named_deleter name C = (C', b) \<Longrightarrow> coll_step js C C'"
| Parse: "hc_parse S js str sep eq C = Some (C', r) \<Longrightarrow> coll_step js C C'"
| Parse_cookie: "parseCookie S js str C = (C', r) \<Longrightarrow> coll_step js C C'"

text \<open>An invariant kept by appending, removing and sorting is kept by every method.\<close>

locale kept_by_methods =
  fixes js :: "'j \<Rightarrow> string" and I :: "'j collection \<Rightarrow> bool"
  assumes append: "I C \<Longrightarrow> I (fst (hc_append js name v C))"
    and filtered: "I C \<Longrightarrow> I (C\<lparr>m_map := filter P (m_map C)\<rparr>)"
    and sorting: "I C \<Longrightarrow> I (hc_sort C)"
begin

lemma remove: "I C \<Longrightarrow> I (fst (hc_remove name C))"
  by (simp add: hc_remove_def filtered)

lemma append_values: "I C \<Longrightarrow> I (fst (hc_append_values js name vs C))"
proof (induction vs arbitrary: C)
  case (Cons v vs)
  then show ?case using append [OF Cons.prems, of name v] by (auto split: prod.split option.split)
qed simp

lemma append_object: "I C \<Longrightarrow> I (fst (hc_append_object js obj C))"
proof (induction obj arbitrary: C)
  case (Cons kv obj)
  obtain k v where kv: "kv = (k, v)" by fastforce
  have "I (fst (case v of Inl vs \<Rightarrow> hc_append_values js k vs C | Inr x \<Rightarrow> hc_append js k x C))"
    using append [OF Cons.prems] append_values [OF Cons.prems] by (cases v) auto
  then show ?case using Cons.IH by (auto simp: kv split: prod.split option.split)
qed simp

lemma append_entries: "I C \<Longrightarrow> I (fst (hc_append_entries js es C))"
proof (induction es arbitrary: C)
  case (Cons e es)
  show ?case
  proof (cases e)
    case (Some p)
    show ?thesis using Cons.IH Cons.prems append [OF Cons.prems, of "v_toString js (p ! 0)" "p ! 1"]
      by (auto simp: Some split: prod.split option.split)
  qed (use Cons.prems in simp)
qed simp

lemma set: "I C \<Longrightarrow> I (fst (hc_set js name w C))"
  using remove append append_values by (auto simp: hc_set_def hc_set_values_def split: sum.split)

lemma set_object: "I C \<Longrightarrow> I (fst (hc_set_object js obj C))"
  by (induction obj arbitrary: C) (auto simp: set)

lemma parse:
  assumes "parse_loop S js sep eq p C = Some r" "I C"
  shows "I (fst r)"
proof -
  have "js' = js \<longrightarrow> I C \<longrightarrow> I (fst r)" if "parse_loop S js' sep eq p C = Some r" for js'
    using that
  proof (induction rule: parse_loop.raw_induct [rotated, consumes 1, case_names step])
    case (step loop S js' sep eq p C r)
    show ?case
    proof (intro impI)
      assume js: "js' = js" and C: "I C"
      have A: "I C'" if "hc_append js a b C = (C', e)" for a b C' e using append [OF C, of a b] that by simp
      show "I (fst r)"
        using step.hyps step.IH C A unfolding js
        by (auto simp: append [OF C] split: if_splits prod.splits option.splits)
    qed
  qed
  with assms show ?thesis by blast
qed

lemma parse_cookie: "I C \<Longrightarrow> I (fst (parseCookie S js p C))"
proof (induction "length p" arbitrary: p C rule: less_induct)
  case less
  obtain k v rest where c: "cookie_split p = (k, v, rest)" by (metis prod_cases3)
  have IH: "I (fst (parseCookie S js rest C'))" if "p \<noteq> []" "I C'" for C'
    using less.hyps [of rest C'] that cookie_rest_shorter [of p] c by simp
  show ?case
  proof (cases "p = []")
    case False
    show ?thesis
      using IH [OF False] less.prems append [OF less.prems]
      by (subst parseCookie.simps) (auto simp: c split: option.split)
  qed (use less.prems in \<open>simp add: parseCookie.simps\<close>)
qed

lemma step: "coll_step js C C' \<Longrightarrow> I C \<Longrightarrow> I C'"
proof (induction rule: coll_step.induct)
  case (Append name v C C' r)
  then show ?case using append [of C name v] by simp
next
  case (Append_values name vs C C' r)
  then show ?case using append_values [of C name vs] by simp
next
  case (Append_object obj C C' r)
  then show ?case using append_object [of C obj] by simp
next
  case (Append_entries es C C' r)
  then show ?case using append_entries [of C es] by simp
next
  case (Set name w C C' r)
  then show ?case using set [of C name w] by simp
next
  case (Set_object obj C C' r)
  then show ?case using set_object [of C obj] by simp
next
  case (Delete name C C' r)
  then show ?case using remove [of C name] by (simp add: hc_delete_def split: if_splits)
next
  case (Params_delete name w C C' r)
  then show ?case using remove [of C name] filtered
    by (auto simp: params_delete_def hc_delete_def split: if_splits option.splits)
next
  case (Clear C)
  then show ?case using filtered [of C "\<lambda>_. False"] by (simp add: hc_clear_def)
next
  case (Sort C)
  then show ?case by (rule sorting)
next
  case (For_each C C' calls)
  then show ?case using sorting [of C] by (auto simp: hc_forEach_def for_iteration_def split: if_splits)
next
  case (Named_setter name v C C' r)
  then show ?case using set [of C name "Inr v"] by (simp add: hc_named_setter_def)
next
  case (Named_deleter name C C' b)
  then show ?case using remove [of C name] by (simp add: hc_named_deleter_def Let_def)
next
  case (Parse S str sep eq C C' r)
  then show ?case using parse [of S "c_string sep" "c_string eq" str C "(C', r)"] by (simp add: hc_parse_def)
next
  case (Parse_cookie S str C C' r)
  then show ?case using parse_cookie [of C S str] by simp
qed

lemma steps: "(coll_step js)\<^sup>*\<^sup>* C C' \<Longrightarrow> I C \<Longrightarrow> I C'"
  by (induction rule: rtranclp_induct) (auto intro: step)

end

lemma hc_sort_simps [simp]:
  "set (m_map (hc_sort C)) = set (m_map C)" "m_string_only (hc_sort C) = m_string_only C"
  "m_lowercase_keys (hc_sort C) = m_lowercase_keys C" "m_allow_empty_name (hc_sort C) = m_allow_empty_name C"
  "case_sensitive (hc_sort C) = case_sensitive C"
  by (simp_all add: hc_sort_def stable_sort_eq)

lemma typed_append: "well_typed C \<Longrightarrow> well_typed (fst (hc_append js name v C))"
  by (auto simp: well_typed_def hc_append_def no_name_def)

lemma in_order_append: "in_order C \<Longrightarrow> in_order (fst (hc_append js name v C))"
  by (auto simp: in_order_def hc_append_def)

lemma in_order_sort: "in_order C \<Longrightarrow> in_order (hc_sort C)"
  by (auto simp: in_order_def hc_sort_def stable_sort_eq)

interpretation typed: kept_by_methods js well_typed for js :: "'j \<Rightarrow> string"
  by unfold_locales (auto simp: typed_append, auto simp: well_typed_def)

interpretation ordered: kept_by_methods js in_order for js :: "'j \<Rightarrow> string"
  by unfold_locales (auto simp: in_order_append in_order_sort, auto simp: in_order_def sorted_filter)

interpretation configured: kept_by_methods js "settings sens allow so" for js :: "'j \<Rightarrow> string" and sens allow so
  by unfold_locales (auto simp: settings_def hc_append_def)

section \<open>Properties\<close>

text \<open>
  C23: a collection is a multimap from names to values. For names its class accepts, appending adds the
  value after those of the name, setting replaces them, deleting drops them, and the values of every
  other name stay; \<open>has\<close>, \<open>first\<close> and the named getter are read off the values of the name; names that
  differ only as the class does not distinguish them are one.
\<close>

theorem collection_multimap:
  assumes "settings sens allow so C" "name_ok allow n"
  shows "hc_all n' (fst (hc_append js n v C)) = hc_all n' C @ (if same_name sens n n' then [kept js so v] else [])
    \<and> hc_all n' (fst (hc_set js n (Inl vs) C)) = (if same_name sens n n' then map (kept js so) vs else hc_all n' C)
    \<and> hc_all n' (fst (hc_set js n (Inr v) C)) = (if same_name sens n n' then [kept js so v] else hc_all n' C)
    \<and> hc_all n' (fst (hc_delete n C)) = (if same_name sens n n' then [] else hc_all n' C)
    \<and> hc_has n C = Inr (hc_all n C \<noteq> [])
    \<and> hc_first n C = Inr (case hc_all n C of [] \<Rightarrow> None | v # _ \<Rightarrow> Some v)
    \<and> hc_named_getter n C = grouped (hc_all n C)
    \<and> (same_name sens n n' \<longrightarrow> hc_all n C = hc_all n' C)"
proof -
  have n: "\<not> no_name n C" using assms by (auto simp: no_name_def settings_def name_ok_def)
  have P: "(\<lambda>p. cmp_key (case_sensitive C) (fst p) n = 0) = (\<lambda>p. same_name sens (fst p) n)"
    using assms(1) by (simp add: cmp_key_same settings_def)
  have "hc_has n C = Inr (hc_all n C \<noteq> [])"
    using n by (simp add: hc_has_def P all_ok [OF assms(1)] filter_empty_conv list_ex_iff)
  moreover have "hc_first n C = Inr (case hc_all n C of [] \<Rightarrow> None | v # _ \<Rightarrow> Some v)"
    using n unfolding hc_first_def P all_ok [OF assms(1)] find_filter by simp
  moreover have "hc_named_getter n C = grouped (hc_all n C)"
    unfolding hc_named_getter_def hc_all_def
      foldl_filter [where f = "\<lambda>r v. Some (group_value r v)" and g = snd] group_values ..
  ultimately show ?thesis
    using collection.lookup_add [OF assms, where k' = n' and js = js and v = v]
      collection.lookup_replace [OF assms, where k' = n' and js = js and vs = vs]
      collection.lookup_replace [OF assms, where k' = n' and js = js and vs = "[v]"]
      collection.lookup_del [OF assms, where k' = n'] collection.lookup_same [OF assms(1), where k = n and k' = n'] n
    by (auto simp: set_ok [OF assms] hc_delete_def)
qed

lemma collection_multimap_witness:
  "hc_all ''A'' (fst (hc_append id ''a'' (VT_Other ''1'') (new_HttpCollection True))) = [VT_String ''1'']"
proof -
  have "settings False True True (new_HttpCollection True :: string collection)" "name_ok True ''a''"
    by (simp_all add: settings_def new_HttpCollection_def new_collection_def name_ok_def)
  note C = collection_multimap [OF this, of "''A''" id "VT_Other ''1''", THEN conjunct1]
  have "hc_all ''A'' (new_HttpCollection True :: string collection) = []"
    by (simp add: hc_all_def new_HttpCollection_def new_collection_def)
  moreover have "same_name False ''a'' ''A''" by code_simp
  ultimately show ?thesis unfolding C by (simp add: kept_def v_toString_def)
qed

text \<open>
  C24: after any sequence of calls on a new collection of each of the three classes, the values of a
  string collection are strings, the names of \<open>Headers\<close> are in lower case and not empty, and a collection
  marked as sorted is in order, so that sorting it again gives the stable order of its names.
\<close>

theorem collection_type:
  assumes "(coll_step js)\<^sup>*\<^sup>* C0 C" "C0 = new_HttpCollection so \<or> C0 = new_Headers \<or> C0 = new_URLSearchParams"
  shows "well_typed C \<and> in_order C \<and> m_map (hc_sort C) = sort_key fst (m_map C)
    \<and> case_sensitive C = case_sensitive C0 \<and> m_string_only C = m_string_only C0"
proof -
  have C0: "well_typed C0" "in_order C0"
    "settings (case_sensitive C0) (m_allow_empty_name C0) (m_string_only C0) C0"
    using assms(2) by (auto simp: well_typed_def in_order_def settings_def new_HttpCollection_def new_Headers_def
        new_URLSearchParams_def new_collection_def)
  show ?thesis
    using typed.steps [OF assms(1) C0(1)] ordered.steps [OF assms(1) C0(2)] configured.steps [OF assms(1) C0(3)]
    by (simp add: sort_in_order settings_def)
qed

lemma collection_type_witness:
  "well_typed (fst (hc_append id ''B'' (VT_Other ''1'') new_Headers))"
proof -
  have "coll_step id new_Headers (fst (hc_append id ''B'' (VT_Other ''1'') new_Headers))"
    by (rule coll_step.Append [of _ _ _ _ _ "snd (hc_append id ''B'' (VT_Other ''1'') new_Headers)"]) simp
  then have "(coll_step id)\<^sup>*\<^sup>* new_Headers (fst (hc_append id ''B'' (VT_Other ''1'') new_Headers))" by blast
  from collection_type [OF this] show ?thesis by simp
qed

section \<open>What the code does not mean\<close>

text \<open>A copied \<open>URLSearchParams\<close> counts as sorted whatever it copied, so \<open>sort\<close> leaves it as it is.\<close>

lemma copied_params_not_sorted:
  assumes "m_map other = [(''b'', x), (''a'', y)]"
  shows "m_map (hc_sort (params_init other new_URLSearchParams)) = [(''b'', x), (''a'', y)]"
  by (simp add: params_init_def hc_sort_def new_URLSearchParams_def new_collection_def assms)

text \<open>\<open>toJSON\<close> takes a member of the prototype of objects for a value it has already stored.\<close>

lemma toJSON_prototype_member:
  assumes "proto ''constructor'' = Some f" "m_map C = [(''constructor'', v)]"
  shows "hc_toJSON proto C ''constructor'' = Some (Many [f, v])"
  by (simp add: hc_toJSON_def json_put_def assms)

end
