(* ===== verification/QueryProps.thy ===== *)
theory QueryProps
  imports CollectionSpec
begin

text \<open>
  The text forms of collections: what \<open>stringify\<close> and \<open>toString\<close> write is read back by \<open>parse\<close>, the parser
  returns exactly when the separator is not empty, cookies are read back, and a header block fills its
  buffer and no more.
\<close>

section \<open>Segments\<close>

abbreviation form_char :: "char \<Rightarrow> bool" where
  "form_char \<equiv> uri_alphabet URIComponentTable True"

abbreviation form_text :: "string \<Rightarrow> string" where
  "form_text \<equiv> encode_text URIComponentTable True"

text \<open>Separators the parser can tell from encoded text and from one another.\<close>

definition separators :: "string \<Rightarrow> string \<Rightarrow> bool" where
  "separators sep eq \<longleftrightarrow>
     sep \<noteq> [] \<and> eq \<noteq> [] \<and> CHR 0x00 \<notin> set sep \<and> CHR 0x00 \<notin> set eq \<and>
     hd sep \<noteq> hd eq \<and> \<not> form_char (hd sep) \<and> \<not> form_char (hd eq)"

lemma starts_hd: "CHR 0x00 \<notin> set m \<Longrightarrow> m \<noteq> [] \<Longrightarrow> starts m (c # p) \<Longrightarrow> c = hd m"
  by (cases m) (auto simp: starts_prefix)

lemma starts_self: "CHR 0x00 \<notin> set m \<Longrightarrow> starts m (m @ p)"
  by (simp add: starts_prefix)

lemma not_starts:
  assumes "separators sep eq" "form_char c"
  shows "\<not> starts sep (c # p)" "\<not> starts eq (c # p)"
  using assms starts_hd [of sep c p] starts_hd [of eq c p] by (auto simp: separators_def)

lemma not_starts_eq: "separators sep eq \<Longrightarrow> \<not> starts sep (eq @ p)"
  using starts_hd [of sep "hd eq" "tl eq @ p"] by (cases eq) (auto simp: separators_def)

lemma key_span_segment:
  assumes "separators sep eq" "\<forall>c \<in> set x. form_char c"
  shows "key_span sep eq (x @ eq @ y) = (length x, True)"
  using assms(2)
proof (induction x)
  case Nil
  obtain c e where e: "eq = c # e" using assms(1) by (cases eq) (auto simp: separators_def)
  have "\<not> starts sep (c # e @ y)" "starts eq (c # e @ y)"
    using not_starts_eq [OF assms(1), of y] starts_self [of eq y] assms(1) by (auto simp: e separators_def)
  then show ?case by (simp add: e)
qed (simp add: not_starts [OF assms(1)])

lemma value_span_segment:
  assumes "separators sep eq" "\<forall>c \<in> set x. form_char c" "y = [] \<or> (\<exists>z. y = sep @ z)"
  shows "value_span sep (x @ y) = length x"
  using assms(2)
proof (induction x)
  case Nil
  show ?case
  proof (cases y)
    case (Cons c w)
    then have "starts sep (c # w)" using assms(1,3) starts_self by (auto simp: separators_def)
    then show ?thesis by (simp add: Cons)
  qed simp
qed (simp add: not_starts(1) [OF assms(1)])

lemma split_segment:
  assumes "separators sep eq" "\<forall>c \<in> set x. form_char c" "\<forall>c \<in> set y. form_char c"
    "z = [] \<and> rest = [] \<or> z = sep @ rest"
  shows "segment_split sep eq (x @ eq @ y @ z) = (True, x, y, rest)"
proof -
  have s: "\<not> starts sep (x @ eq @ y @ z)"
    using not_starts(1) [OF assms(1)] not_starts_eq [OF assms(1)] assms(2) by (cases x) auto
  have v: "value_span sep (y @ z) = length y"
    by (rule value_span_segment [OF assms(1,3)]) (use assms(4) in auto)
  have e: "eq \<noteq> []" using assms(1) by (simp add: separators_def)
  show ?thesis
    using assms(4) e by (auto simp: segment_split_def key_span_segment [OF assms(1,2)] s v)
qed

section \<open>Query strings\<close>

definition pair_text :: "string \<Rightarrow> string \<times> string \<Rightarrow> string" where
  "pair_text eq p = form_text (fst p) @ eq @ form_text (snd p)"

fun more_pairs :: "string \<Rightarrow> string \<Rightarrow> (string \<times> string) list \<Rightarrow> string" where
  "more_pairs sep eq [] = []"
| "more_pairs sep eq (p # ps) = sep @ pair_text eq p @ more_pairs sep eq ps"

definition query_text :: "string \<Rightarrow> string \<Rightarrow> (string \<times> string) list \<Rightarrow> string" where
  "query_text sep eq ps = (case ps of [] \<Rightarrow> [] | p # ps \<Rightarrow> pair_text eq p @ more_pairs sep eq ps)"

definition string_pairs :: "(string \<times> string) list \<Rightarrow> (string \<times> 'j variant) list" where
  "string_pairs ps = map (\<lambda>(k, v). (k, VT_String v)) ps"

lemma string_pairs_simps [simp]:
  "string_pairs [] = []" "string_pairs ((k, v) # ps) = (k, VT_String v) # string_pairs ps"
  by (simp_all add: string_pairs_def)

lemma tmpl_decode_form: "tmpl_decodeURI S True (form_text s) = Some s"
  using decode_encode [OF decodable_tables(2), of True True S s] by (simp add: decodeURI_def tmpl_decodeURI_def)

lemma decode_form: "decodeURI S True (encode_text URIComponentTable f s) = Some s"
  by (rule decode_encode [OF decodable_tables(2)]) simp

text \<open>A collection that takes any name and keeps names and strings as they are.\<close>

definition plain :: "'j collection \<Rightarrow> bool" where
  "plain C \<longleftrightarrow> m_allow_empty_name C \<and> \<not> m_lowercase_keys C"

lemma plain_append:
  "plain C \<Longrightarrow> hc_append js k (VT_String v) C = (C\<lparr>m_map := m_map C @ [(k, VT_String v)], m_sorted := False\<rparr>, None)"
  by (simp add: hc_append_def no_name_def plain_def v_toString_def)

lemma parse_query:
  assumes s: "separators sep eq"
  shows "plain C \<Longrightarrow> \<exists>C'. parse_loop S js sep eq (query_text sep eq ps) C = Some (C', None) \<and>
    m_map C' = m_map C @ string_pairs ps"
proof (induction ps arbitrary: C)
  case Nil
  then show ?case by (simp add: query_text_def parse_loop.simps)
next
  case (Cons p ps)
  obtain k v where p: "p = (k, v)" by fastforce
  let ?C = "C\<lparr>m_map := m_map C @ [(k, VT_String v)], m_sorted := False\<rparr>"
  have form: "\<forall>c \<in> set (form_text x). form_char c" for x using encode_alphabet by blast
  have more: "more_pairs sep eq ps = [] \<and> query_text sep eq ps = [] \<or> more_pairs sep eq ps = sep @ query_text sep eq ps"
    by (cases ps) (simp_all add: query_text_def)
  have t: "query_text sep eq (p # ps) = form_text k @ eq @ form_text v @ more_pairs sep eq ps"
    by (simp add: query_text_def pair_text_def p)
  have ne: "query_text sep eq (p # ps) \<noteq> []" using s by (simp add: t separators_def)
  have "parse_loop S js sep eq (query_text sep eq (p # ps)) C = parse_loop S js sep eq (query_text sep eq ps) ?C"
    using Cons.prems s unfolding t separators_def
    by (subst parse_loop.simps)
      (simp add: split_segment [OF s form form more] tmpl_decode_form plain_append)
  moreover have "plain ?C" using Cons.prems by (simp add: plain_def)
  ultimately show ?case using Cons.IH [of ?C] by (simp add: p)
qed

text \<open>The pairs of an object, in the order of its properties.\<close>

definition object_pairs :: "(string \<times> (string list + string)) list \<Rightarrow> (string \<times> string) list" where
  "object_pairs obj = concat (map (\<lambda>(k, v). map (Pair k) (case v of Inl vs \<Rightarrow> vs | Inr s \<Rightarrow> [s])) obj)"

definition extend_text :: "string \<Rightarrow> string \<Rightarrow> string \<Rightarrow> (string \<times> string) list \<Rightarrow> string" where
  "extend_text sep eq bufs ps = (if bufs = [] then query_text sep eq ps else bufs @ more_pairs sep eq ps)"

lemma more_pairs_append: "more_pairs sep eq (ps @ qs) = more_pairs sep eq ps @ more_pairs sep eq qs"
  by (induction ps) simp_all

lemma extend_extend:
  assumes "eq \<noteq> []"
  shows "extend_text sep eq (extend_text sep eq bufs ps) qs = extend_text sep eq bufs (ps @ qs)"
  using assms by (cases ps) (auto simp: extend_text_def query_text_def pair_text_def more_pairs_append)

lemma encodeURIComponent_form: "encoding_encodeURIComponent s True = Some (form_text s)"
  by (simp add: encoding_encodeURIComponent_def encodeURI_eq)

lemma stringify_values_text:
  assumes "eq \<noteq> []"
  shows "stringify_values sep eq (form_text k) vs bufs = Some (extend_text sep eq bufs (map (Pair k) vs))"
proof (induction vs arbitrary: bufs)
  case Nil
  then show ?case by (simp add: extend_text_def query_text_def)
next
  case (Cons v vs)
  have e: "(if bufs \<noteq> [] then bufs @ sep else bufs) @ form_text k @ eq @ form_text v = extend_text sep eq bufs [(k, v)]"
    by (simp add: extend_text_def query_text_def pair_text_def)
  show ?case
    using Cons.IH extend_extend [OF assms, of sep bufs "[(k, v)]" "map (Pair k) vs"]
    by (simp add: encodeURIComponent_form e)
qed

lemma stringify_loop_text:
  assumes "eq \<noteq> []"
  shows "stringify_loop sep eq obj bufs = Some (extend_text sep eq bufs (object_pairs obj))"
proof (induction obj arbitrary: bufs)
  case Nil
  then show ?case by (simp add: extend_text_def query_text_def object_pairs_def)
next
  case (Cons kv obj)
  obtain k v where kv: "kv = (k, v)" by fastforce
  have o: "object_pairs (kv # obj) = map (Pair k) (case v of Inl vs \<Rightarrow> vs | Inr s \<Rightarrow> [s]) @ object_pairs obj"
    by (simp add: object_pairs_def kv)
  show ?case
    unfolding o extend_extend [OF assms, symmetric] using Cons.IH
    by (simp add: kv encodeURIComponent_form stringify_values_text [OF assms])
qed

lemma params_text_extend:
  "list_all (\<lambda>p. \<exists>s. snd p = VT_String s) ps \<Longrightarrow> first = (bufs = []) \<Longrightarrow>
    params_text first ps bufs = Some (extend_text ''&'' ''='' bufs (map (\<lambda>p. (fst p, v_string (snd p))) ps))"
proof (induction ps arbitrary: first bufs)
  case Nil
  then show ?case by (simp add: extend_text_def query_text_def)
next
  case (Cons p ps)
  let ?q = "(fst p, v_string (snd p))"
  have e: "bufs @ (if first then [] else ''&'') @ form_text (fst ?q) @ ''='' @ form_text (snd ?q) = extend_text ''&'' ''='' bufs [?q]"
    using Cons.prems(2) by (simp add: extend_text_def query_text_def pair_text_def)
  have "extend_text ''&'' ''='' bufs [?q] \<noteq> []" by (simp add: extend_text_def query_text_def pair_text_def)
  then show ?case
    using Cons.IH [of False "extend_text ''&'' ''='' bufs [?q]"] Cons.prems(1)
      extend_extend [of "''=''" "''&''" bufs "[?q]" "map (\<lambda>p. (fst p, v_string (snd p))) ps"] e
    by (simp add: encodeURIComponent_form)
qed

section \<open>Header blocks\<close>

definition header_line :: "string \<times> 'j variant \<Rightarrow> string" where
  "header_line p = fst p @ '': '' @ v_string (snd p) @ [CHR 0x0D, CHR 0x0A]"

definition header_block :: "(string \<times> 'j variant) list \<Rightarrow> string" where
  "header_block ps = concat (map header_line (filter (\<lambda>p. \<not> managed (fst p)) ps))"

lemma cp_take: "length out \<le> sz \<Longrightarrow> cp sz out str = take sz (out @ str)"
  by (simp add: cp_def Let_def)

lemma cp_take_take: "cp sz (take sz out) str = take sz (out @ str)"
  by (cases "length out \<le> sz") (simp_all add: cp_take del: take_append, simp)

lemma getData_take: "headers_getData sz ps (take sz out) = take sz (out @ header_block ps)"
proof (induction ps arbitrary: out)
  case Nil
  then show ?case by (simp add: header_block_def)
next
  case (Cons p ps)
  then show ?case
    using Cons.IH [of out] Cons.IH [of "out @ header_line p"]
    by (simp add: header_block_def cp_take_take header_line_def del: take_append)
qed

lemma headers_size_block: "headers_size ps = length (header_block ps)"
  by (induction ps) (auto simp: header_block_def header_line_def)

section \<open>Cookies\<close>

definition cookie_text :: "bool \<Rightarrow> string \<times> string \<Rightarrow> string" where
  "cookie_text f p = encode_text URIComponentTable f (fst p) @ ''='' @ encode_text URIComponentTable f (snd p)"

fun cookies_text :: "bool \<Rightarrow> (string \<times> string) list \<Rightarrow> string" where
  "cookies_text f [] = []"
| "cookies_text f [p] = cookie_text f p"
| "cookies_text f (p # ps) = cookie_text f p @ ''; '' @ cookies_text f ps"

lemma cookie_chars:
  assumes "c \<in> set (encode_text URIComponentTable f s)"
  shows "c \<noteq> CHR ''='' \<and> c \<noteq> CHR '';'' \<and> c \<noteq> CHR '' ''"
proof -
  have "\<not> uri_alphabet URIComponentTable f CHR ''=''" "\<not> uri_alphabet URIComponentTable f CHR '';''"
    "\<not> uri_alphabet URIComponentTable f CHR '' ''"
    by (simp_all add: uri_alphabet_def unreserved_def upper_hex_def URIComponentTable_def)
  with encode_alphabet [OF assms] show ?thesis by metis
qed

lemma takeWhile_stop: "\<forall>c \<in> set x. P c \<Longrightarrow> y = [] \<or> \<not> P (hd y) \<Longrightarrow> takeWhile P (x @ y) = x \<and> dropWhile P (x @ y) = y"
  by (induction x) (auto, (cases y; auto)+)

lemma split_cookie:
  assumes "pad = [] \<or> pad = '' ''" "y = [] \<or> hd y = CHR '';''"
  shows "cookie_split (pad @ cookie_text f (k, v) @ y) =
    (encode_text URIComponentTable f k, encode_text URIComponentTable f v, tl y)"
proof -
  let ?k = "encode_text URIComponentTable f k" and ?v = "encode_text URIComponentTable f v"
  have k: "\<forall>c \<in> set ?k. c \<noteq> CHR ''='' \<and> c \<noteq> CHR '';''" and k': "\<forall>c \<in> set ?k. c \<noteq> CHR '' ''"
    and v: "\<forall>c \<in> set ?v. c \<noteq> CHR '';''" using cookie_chars by blast+
  have "dropWhile (\<lambda>c. c = CHR '' '') (?k @ CHR ''='' # ?v @ y) = ?k @ CHR ''='' # ?v @ y"
    using k' by (cases "?k") auto
  then have d: "dropWhile (\<lambda>c. c = CHR '' '') (pad @ cookie_text f (k, v) @ y) = ?k @ CHR ''='' # ?v @ y"
    using assms(1) by (auto simp: cookie_text_def)
  show ?thesis
    using takeWhile_stop [OF k, of "CHR ''='' # ?v @ y"] takeWhile_stop [OF v, of y] assms(2)
    unfolding cookie_split_def d Let_def by simp
qed

lemma parse_cookie_step:
  assumes "pstr \<noteq> []" "\<not> m_lowercase_keys C"
    "cookie_split pstr = (encode_text URIComponentTable f k, encode_text URIComponentTable f v, rest)"
  shows "parseCookie S js pstr C = parseCookie S js rest
    (if k = [] then C else C\<lparr>m_map := m_map C @ [(k, VT_String v)], m_sorted := False\<rparr>)"
  using assms by (subst parseCookie.simps) (simp add: decode_form hc_append_def no_name_def v_toString_def)

lemma parse_cookies:
  assumes "\<not> m_lowercase_keys C" "pad = [] \<or> pad = '' ''" "ps \<noteq> []"
  shows "\<exists>C'. parseCookie S js (pad @ cookies_text f ps) C = (C', None) \<and>
    m_map C' = m_map C @ string_pairs (filter (\<lambda>p. fst p \<noteq> []) ps)"
  using assms
proof (induction ps arbitrary: C pad)
  case (Cons p ps)
  obtain k v where p: "p = (k, v)" by fastforce
  let ?y = "if ps = [] then [] else '';'' @ '' '' @ cookies_text f ps"
  let ?rest = "'' '' @ cookies_text f ps"
  let ?C = "if k = [] then C else C\<lparr>m_map := m_map C @ [(k, VT_String v)], m_sorted := False\<rparr>"
  have t: "cookies_text f (p # ps) = cookie_text f p @ ?y" by (cases ps) auto
  have sp: "cookie_split (pad @ cookie_text f (k, v) @ ?y) = (encode_text URIComponentTable f k,
      encode_text URIComponentTable f v, tl ?y)"
    by (rule split_cookie [OF Cons.prems(2)]) simp
  have step: "parseCookie S js (pad @ cookies_text f (p # ps)) C = parseCookie S js (if ps = [] then [] else ?rest) ?C"
  proof -
    have ne: "pad @ cookie_text f (k, v) @ ?y \<noteq> []" by (simp add: cookie_text_def)
    have "tl ?y = (if ps = [] then [] else ?rest)" by simp
    then show ?thesis using parse_cookie_step [OF ne Cons.prems(1) sp, of S js] unfolding p t [unfolded p] by (simp only:)
  qed
  show ?case
  proof (cases "ps = []")
    case True
    then show ?thesis unfolding step by (simp add: p parseCookie.simps)
  next
    case False
    then show ?thesis using Cons.IH [of ?C "'' ''"] Cons.prems(1) unfolding step by (cases "k = []") (simp_all add: p)
  qed
qed simp

section \<open>Termination of the parser\<close>

lemma segment_rest:
  assumes "p \<noteq> []" "sep \<noteq> []" "segment_split sep eq p = (h, k, v, rest)"
  shows "length rest < length p"
proof -
  define q where "q = (let d = drop (fst (key_span sep eq p)) p in if d \<noteq> [] \<and> snd (key_span sep eq p) then drop (length eq) d else d)"
  have q: "length q \<le> length p" by (auto simp: q_def Let_def)
  have rest: "rest = (let r = drop (value_span sep q) q in if r \<noteq> [] then drop (length sep) r else r)"
  proof -
    have "rest = snd (snd (snd (segment_split sep eq p)))" using assms(3) by simp
    also have "\<dots> = (let r = drop (value_span sep q) q in if r \<noteq> [] then drop (length sep) r else r)"
      by (simp only: segment_split_def q_def Let_def snd_conv)
    finally show ?thesis .
  qed
  show ?thesis using q assms(1,2) by (cases sep) (auto simp: rest Let_def)
qed

lemma parse_loop_returns:
  assumes "sep \<noteq> []"
  shows "\<exists>r. parse_loop S js sep eq p C = Some r"
proof (induction "length p" arbitrary: p C rule: less_induct)
  case less
  show ?case
  proof (cases "p = []")
    case False
    obtain h k v rest where g: "segment_split sep eq p = (h, k, v, rest)" by (metis prod_cases4)
    have IH: "\<exists>r. parse_loop S js sep eq rest C' = Some r" for C'
      by (rule less.hyps [OF segment_rest [OF False assms g]])
    show ?thesis using IH by (subst parse_loop.simps) (auto simp: g split: option.split prod.split)
  qed (simp add: parse_loop.simps)
qed

lemma parse_loop_diverges: "parse_loop S js sep eq p C = Some r \<Longrightarrow> sep = [] \<longrightarrow> p = []"
proof (induction rule: parse_loop.raw_induct [rotated, consumes 1, case_names step])
  case (step loop S js sep eq p C r)
  have "segment_split [] eq p = (False, [], [], p)" if "p \<noteq> []" for p
    using that by (cases p) (simp_all add: segment_split_def starts_def qstrcmp_def)
  then show ?case
    using step by (cases r) (auto simp: tmpl_decodeURI_def split: if_splits)
qed

section \<open>Properties\<close>

text \<open>
  C25: the pairs of an object written by \<open>querystring.stringify\<close> with separators that are not empty, have no
  NUL, and begin with two different characters that the form encoding never writes, as \<open>&\<close> and \<open>=\<close> do, and
  the pairs of a \<open>URLSearchParams\<close> whose values are strings, written by \<open>toString\<close>, are read back by the
  parser as they were and in their order, with empty names, empty values and repeated names among them.
\<close>

theorem query_roundtrip:
  assumes "separators sep eq" "\<forall>p \<in> set (m_map P). \<exists>s. snd p = VT_String s"
  shows "(\<exists>t C. querystring_stringify obj sep eq = Some t \<and> querystring_parse S js t sep eq = Some (C, None) \<and>
       m_map C = string_pairs (object_pairs obj))
    \<and> (\<exists>t C. params_toString P = Some t \<and> params_parse_init S js t = Some (C, None) \<and> m_map C = m_map P)"
proof
  have c: "c_string sep = sep" "c_string eq = eq" if "separators sep eq" for sep eq
    using that by (auto simp: c_string_def separators_def takeWhile_eq_all_conv)
  have e: "eq \<noteq> []" using assms(1) by (simp add: separators_def)
  have pl: "plain (new_HttpCollection True)" "m_map (new_HttpCollection True) = []"
    "plain new_URLSearchParams" "m_map new_URLSearchParams = []"
    by (simp_all add: plain_def new_HttpCollection_def new_URLSearchParams_def new_collection_def)
  show "\<exists>t C. querystring_stringify obj sep eq = Some t \<and> querystring_parse S js t sep eq = Some (C, None) \<and>
       m_map C = string_pairs (object_pairs obj)"
    using parse_query [OF assms(1) pl(1), of S js "object_pairs obj"]
    by (simp add: querystring_stringify_def stringify_loop_text [OF e] extend_text_def querystring_parse_def hc_parse_def c [OF assms(1)] pl)
  have amp: "separators ''&'' ''=''"
    by (simp add: separators_def uri_alphabet_def unreserved_def upper_hex_def URIComponentTable_def)
  let ?ps = "map (\<lambda>p. (fst p, v_string (snd p))) (m_map P)"
  let ?t = "query_text ''&'' ''='' ?ps"
  have all: "list_all (\<lambda>p. \<exists>s. snd p = VT_String s) (m_map P)" using assms(2) by (simp add: list_all_iff)
  have "params_toString P = Some ?t"
    using params_text_extend [OF all, of True "[]"] by (simp add: params_toString_def extend_text_def)
  moreover have "\<not> (?t \<noteq> [] \<and> ?t ! 0 = CHR ''?'')"
  proof -
    have q: "CHR ''?'' \<notin> set (form_text x)" for x
      using encode_alphabet [of "CHR ''?''" URIComponentTable True x]
      by (auto simp: uri_alphabet_def unreserved_def upper_hex_def URIComponentTable_def)
    show ?thesis
    proof (cases "m_map P")
      case (Cons p ps)
      show ?thesis using q [of "fst p"] by (cases "form_text (fst p)") (auto simp: Cons query_text_def pair_text_def)
    qed (simp add: query_text_def)
  qed
  moreover have "string_pairs ?ps = m_map P"
    using assms(2) unfolding string_pairs_def by (auto simp: comp_def v_string_def intro!: map_idI)
  ultimately show "\<exists>t C. params_toString P = Some t \<and> params_parse_init S js t = Some (C, None) \<and> m_map C = m_map P"
    using parse_query [OF amp pl(3), of S js ?ps] by (auto simp: params_parse_init_def hc_parse_def c [OF amp] pl)
qed

lemma query_roundtrip_witness:
  "\<exists>t C. querystring_stringify [(''a b'', Inl [''1'', '''']), ('''', Inr ''2'')] ''; '' '': '' = Some t \<and>
     querystring_parse (ref_simd utf16_step enc8) id t ''; '' '': '' = Some (C, None) \<and>
     m_map C = [(''a b'', VT_String ''1''), (''a b'', VT_String ''''), ('''', VT_String ''2'')]"
proof -
  have "separators ''; '' '': ''"
    by (simp add: separators_def uri_alphabet_def unreserved_def upper_hex_def URIComponentTable_def)
  moreover have "\<forall>p \<in> set (m_map (new_URLSearchParams :: string collection)). \<exists>s. snd p = VT_String s"
    by (simp add: new_URLSearchParams_def new_collection_def)
  ultimately show ?thesis
    using query_roundtrip [of "''; ''" "'': ''" "new_URLSearchParams :: string collection" "[(''a b'', Inl [''1'', '''']), ('''', Inr ''2'')]"
        "ref_simd utf16_step enc8" id]
    by (simp add: object_pairs_def)
qed

text \<open>
  C26: the parser of query strings loops for ever exactly when the separator is empty and the text is not;
  in every other case it returns.
\<close>

theorem parse_returns:
  "(hc_parse S js str sep eq C = None) = (str \<noteq> [] \<and> c_string sep = [])"
proof
  assume n: "hc_parse S js str sep eq C = None"
  show "str \<noteq> [] \<and> c_string sep = []"
  proof (intro conjI notI)
    show False if "str = []" using n that by (simp add: hc_parse_def parse_loop.simps)
    show "c_string sep = []" using n parse_loop_returns [of "c_string sep" S js "c_string eq" str C]
      by (auto simp: hc_parse_def)
  qed
next
  assume "str \<noteq> [] \<and> c_string sep = []"
  then show "hc_parse S js str sep eq C = None"
    using parse_loop_diverges [of S js "c_string sep" "c_string eq" str C]
    by (cases "hc_parse S js str sep eq C") (auto simp: hc_parse_def)
qed

text \<open>
  The header block has the size \<open>size\<close> announces and holds one line for each header the message does
  not write itself; into a buffer of any size exactly its beginning is written, never more than the buffer.
\<close>

theorem header_block_fits:
  "headers_size ps = length (header_block ps) \<and> headers_getData (headers_size ps) ps [] = header_block ps
   \<and> headers_getData sz ps [] = take sz (header_block ps) \<and> length (headers_getData sz ps []) \<le> sz"
  using getData_take [of sz ps "[]"] getData_take [of "headers_size ps" ps "[]"] by (simp add: headers_size_block)

text \<open>
  Cookies written as encoded names and values, separated by a semicolon and a space, are read back in
  their order; a cookie without a name is left out.
\<close>

theorem cookies_read_back:
  assumes "\<not> m_lowercase_keys C" "ps \<noteq> []"
  shows "\<exists>C'. parseCookie S js (cookies_text f ps) C = (C', None) \<and>
    m_map C' = m_map C @ string_pairs (filter (\<lambda>p. fst p \<noteq> []) ps)"
  using parse_cookies [of C "[]", OF assms(1) _ assms(2)] by simp

lemma cookies_read_back_witness:
  "\<exists>C'. parseCookie (ref_simd utf16_step enc8) id (cookies_text False [(''a'', ''x;y''), ('''', ''z'')]) (new_HttpCollection True :: string collection) = (C', None) \<and>
     m_map C' = [(''a'', VT_String ''x;y'')]"
  using cookies_read_back [of "new_HttpCollection True :: string collection" "[(''a'', ''x;y''), ('''', ''z'')]" "ref_simd utf16_step enc8" id False]
  by (simp add: new_HttpCollection_def new_collection_def)

end
