(* ===== verification/BufferOps.thy ===== *)
theory BufferOps
  imports Streams
begin

text \<open>
  The class \<open>Buffer\<close> (\<^verbatim>\<open>src/global/Buffer.cpp\<close>, \<^verbatim>\<open>include/Buffer.h\<close>): its constructors, reading
  and writing of numbers, filling, copying, searching, slicing and conversion to text. The contents of a
  buffer are a list of bytes, an \<open>int32_t\<close> argument is an \<^typ>\<open>int\<close>, and an access outside of the memory
  of a buffer is the error \<open>MemoryFault\<close>. The codecs (\<open>commonDecode\<close> and \<open>commonEncode\<close>, and \<open>safe\<close>, what
  \<open>is_safe_codec\<close> says of the codec) and \<open>exlib::qmemmem\<close> are arguments; the byte order of the host is the
  argument \<open>be\<close>.
\<close>

datatype buf_error = BadArgument | NotInRange | TooLarge | BadCodec | MemoryFault

section \<open>Ranges\<close>

definition generateEnd :: "int \<Rightarrow> int \<Rightarrow> int \<Rightarrow> buf_error + int" where
  "generateEnd buffer_length offset end0 =
     (let e = (if end0 < 0 then buffer_length + end0 + 1 else end0)
      in if offset < 0 \<or> e < 0 \<or> offset > e then Inl BadArgument
         else if e > buffer_length then Inl NotInRange
         else Inr e)"

definition validOffset :: "int \<Rightarrow> int \<Rightarrow> buf_error option" where
  "validOffset buffer_length offset =
     (if offset < 0 then Some BadArgument else if offset > buffer_length then Some NotInRange else None)"

text \<open>\<open>memcpy\<close> of \<open>bs\<close> to position \<open>pos\<close> of the contents, and \<open>n\<close> bytes read at \<open>pos\<close>.\<close>

definition put_at :: "nat \<Rightarrow> byte list \<Rightarrow> byte list \<Rightarrow> byte list" where
  "put_at pos bs d = take pos d @ bs @ drop (pos + length bs) d"

definition read_at :: "nat \<Rightarrow> nat \<Rightarrow> byte list \<Rightarrow> buf_error + byte list" where
  "read_at pos n d = (if pos + n \<le> length d then Inr (take n (drop pos d)) else Inl MemoryFault)"

section \<open>Filling\<close>

text \<open>\<open>src\<close> is the pattern in the first turn and the buffer itself after it.\<close>

function fill_loop :: "byte list option \<Rightarrow> nat \<Rightarrow> int \<Rightarrow> nat \<Rightarrow> byte list \<Rightarrow> byte list" where
  "fill_loop src sz n offset d =
     (if n > 0 \<and> sz > 0
      then let m = min sz (nat n);
               d = put_at offset (take m (case src of Some v \<Rightarrow> v | None \<Rightarrow> d)) d
           in fill_loop None (offset + sz) (n - int sz) (offset + sz) d
      else d)"
  by pat_completeness auto
termination by (relation "measure (\<lambda>(src, sz, n, offset, d). nat n)") auto

declare fill_loop.simps [simp del]

definition fill_bytes :: "byte list \<Rightarrow> int \<Rightarrow> int \<Rightarrow> byte list \<Rightarrow> buf_error + byte list" where
  "fill_bytes v offset end0 d =
     (if v = [] then Inr d
      else case generateEnd (int (length d)) offset end0 of
        Inl e \<Rightarrow> Inl e
      | Inr e \<Rightarrow>
          Inr (if length v = 1 then put_at (nat offset) (replicate (nat (e - offset)) (v ! 0)) d
               else fill_loop (Some v) (length v) (e - offset) (nat offset) d))"

definition fill_int :: "int \<Rightarrow> int \<Rightarrow> int \<Rightarrow> byte list \<Rightarrow> buf_error + byte list" where
  "fill_int v offset end0 d =
     (case generateEnd (int (length d)) offset end0 of
        Inl e \<Rightarrow> Inl e
      | Inr e \<Rightarrow> Inr (put_at (nat offset) (replicate (nat (e - offset)) (of_int (v mod 256))) d))"

definition fill_string ::
    "bool \<Rightarrow> (string \<Rightarrow> buf_error + byte list) \<Rightarrow> string \<Rightarrow> int \<Rightarrow> int \<Rightarrow> byte list \<Rightarrow> buf_error + byte list" where
  "fill_string safe decode v offset end0 d =
     (if \<not> safe then Inl BadCodec else case decode v of Inl e \<Rightarrow> Inl e | Inr bs \<Rightarrow> fill_bytes bs offset end0 d)"

section \<open>Creation\<close>

text \<open>Memory that is not cleared is the argument \<open>raw\<close>, a list of the size asked for.\<close>

definition alloc_fill_int32 :: "byte list \<Rightarrow> int \<Rightarrow> int \<Rightarrow> buf_error + byte list" where
  "alloc_fill_int32 raw sz fill =
     (let n = max sz 0
      in if fill = 0 then Inr (replicate (nat n) 0) else fill_int fill 0 n raw)"

text \<open>
  The copying forms of \<open>from\<close>. The difference of the length and the offset is a \<open>size_t\<close>, and the requested
  length is converted to one for the comparison.
\<close>

definition size_diff :: "nat \<Rightarrow> int \<Rightarrow> nat" where
  "size_diff n off = nat ((int n - off) mod 2 ^ 64)"

definition from_memory :: "byte list \<Rightarrow> int \<Rightarrow> int \<Rightarrow> buf_error + byte list" where
  "from_memory d byteOffset len =
     (let off = (if byteOffset < 0 then 0 else byteOffset);
          l = (if len < 0 then to_int32 (int (size_diff (length d) off)) else len);
          l = (if l < 0 \<or> nat l > size_diff (length d) off then 0 else l)
      in if l = 0 then Inr [] else read_at (nat off) (nat l) d)"

definition from_buffer :: "byte list \<Rightarrow> int \<Rightarrow> int \<Rightarrow> buf_error + byte list" where
  "from_buffer d byteOffset len = from_memory d byteOffset len"

definition buffer_from_store :: "byte list \<Rightarrow> int \<Rightarrow> int \<Rightarrow> buf_error + byte list" where
  "buffer_from_store d byteOffset len = from_memory d byteOffset len"

text \<open>A \<open>Uint8Array\<close> is a window of \<open>vlen\<close> bytes at \<open>voff\<close> of its backing store.\<close>

definition from_view :: "byte list \<Rightarrow> nat \<Rightarrow> nat \<Rightarrow> int \<Rightarrow> int \<Rightarrow> buf_error + byte list" where
  "from_view store voff vlen byteOffset len =
     (if byteOffset < 0 then Inl BadArgument
      else if len < 0 then buffer_from_store store (byteOffset + int voff) (to_int32 (int (size_diff vlen byteOffset)))
      else if nat len > size_diff vlen byteOffset then Inl BadArgument
      else buffer_from_store store (byteOffset + int voff) len)"

text \<open>The copying loop of \<open>concat\<close>, which stops at the first buffer that adds nothing.\<close>

fun concat_loop :: "byte list list \<Rightarrow> nat \<Rightarrow> byte list \<Rightarrow> byte list" where
  "concat_loop [] sz out = out"
| "concat_loop (b # bs) sz out =
     (let len = (if length out + length b > sz then sz - length out else length b)
      in if len = 0 then out else concat_loop bs sz (out @ take len b))"

definition buf_concat :: "byte list \<Rightarrow> byte list list \<Rightarrow> int \<Rightarrow> byte list" where
  "buf_concat raw bufs cutLength =
     (let sz = sum_list (map length bufs);
          sz = (if cutLength \<ge> 0 \<and> int sz > cutLength then nat cutLength else sz);
          out = concat_loop bufs sz []
      in out @ drop (length out) (take sz raw))"

section \<open>Copying\<close>

text \<open>
  \<open>copy\<close> gives the number of bytes and the new contents of the target. Source and target may be the same
  memory: \<open>memmove\<close> reads before it writes.
\<close>

definition buf_copy :: "byte list \<Rightarrow> byte list \<Rightarrow> int \<Rightarrow> int \<Rightarrow> int \<Rightarrow> buf_error + (int \<times> byte list)" where
  "buf_copy d target targetStart sourceStart sourceEnd =
     (if targetStart < 0 \<or> sourceStart < 0 then Inl NotInRange
      else if sourceStart > int (length d) then Inl NotInRange
      else let sourceEnd = (if sourceEnd = -1 then int (length d) else sourceEnd)
           in if targetStart \<ge> int (length target) \<or> sourceStart \<ge> sourceEnd then Inr (0, target)
              else let sz = min (min (sourceEnd - sourceStart) (int (length target) - targetStart))
                                (int (length d) - sourceStart)
                   in Inr (sz, put_at (nat targetStart) (take (nat sz) (drop (nat sourceStart) d)) target))"

definition buf_set :: "byte list \<Rightarrow> int \<Rightarrow> byte list \<Rightarrow> buf_error + (int \<times> byte list)" where
  "buf_set src start d =
     (if to_int32 (int (length src) + start) > int (length d) then Inl TooLarge
      else buf_copy src d start 0 (-1))"

definition buf_write ::
    "bool \<Rightarrow> (string \<Rightarrow> buf_error + byte list) \<Rightarrow> string \<Rightarrow> int \<Rightarrow> int \<Rightarrow> byte list \<Rightarrow> buf_error + (int \<times> byte list)" where
  "buf_write safe decode str offset len d =
     (if \<not> safe then Inl BadCodec
      else if offset < 0 \<or> len < -1 then Inl BadArgument
      else if int (length d) < offset then Inl NotInRange
      else if int (length d) = offset \<or> len = 0 then Inr (0, d)
      else case decode str of
        Inl e \<Rightarrow> Inl e
      | Inr bs \<Rightarrow>
          let m = min (int (length bs)) (int (length d) - offset);
              m = (if len > 0 then min m len else m)
          in Inr (m, put_at (nat offset) (take (nat m) bs) d))"

section \<open>Numbers\<close>

text \<open>
  \<open>readNumber\<close> fills a variable of \<open>value_size\<close> bytes that starts as 0; \<open>dst\<close> is its memory. A single byte
  goes to the first byte of the variable whatever the byte order.
\<close>

definition in_bounds :: "byte list \<Rightarrow> int \<Rightarrow> int \<Rightarrow> bool" where
  "in_bounds d offset sz \<longleftrightarrow> \<not> (offset < 0 \<or> offset > int (length d)) \<and> \<not> offset + sz > int (length d)"

definition readNumber :: "bool \<Rightarrow> byte list \<Rightarrow> int \<Rightarrow> nat \<Rightarrow> nat \<Rightarrow> bool \<Rightarrow> buf_error + byte list" where
  "readNumber be d offset sz value_size le =
     (if \<not> in_bounds d offset (int sz) then Inl NotInRange
      else let src = take sz (drop (nat offset) d); dst = replicate value_size 0
           in Inr (if sz = 1 then put_at 0 src dst
                   else if be then put_at (value_size - sz) (if le then rev src else src) dst
                   else put_at 0 (if le then src else rev src) dst))"

definition writeNumber :: "bool \<Rightarrow> byte list \<Rightarrow> nat \<Rightarrow> bool \<Rightarrow> int \<Rightarrow> byte list \<Rightarrow> buf_error + (int \<times> byte list)" where
  "writeNumber be v sz le offset d =
     (if \<not> in_bounds d offset (int sz) then Inl NotInRange
      else Inr (int sz + offset,
        put_at (nat offset)
          (if sz = 1 then take 1 v
           else if be then (if le then rev (drop (length v - sz) v) else drop (length v - sz) v)
           else (if le then take sz v else rev (take sz v))) d))"

text \<open>The memory of an integer variable of \<open>n\<close> bytes on the host, and the value of such memory.\<close>

fun le_bytes :: "nat \<Rightarrow> int \<Rightarrow> byte list" where
  "le_bytes 0 x = []"
| "le_bytes (Suc n) x = of_int (x mod 256) # le_bytes n (x div 256)"

fun le_number :: "byte list \<Rightarrow> int" where
  "le_number [] = 0"
| "le_number (b # bs) = uint b + 256 * le_number bs"

definition memory_of :: "bool \<Rightarrow> nat \<Rightarrow> int \<Rightarrow> byte list" where
  "memory_of be n x = (if be then rev (le_bytes n x) else le_bytes n x)"

definition unsigned_value :: "bool \<Rightarrow> byte list \<Rightarrow> int" where
  "unsigned_value be m = le_number (if be then rev m else m)"

definition signed_of :: "nat \<Rightarrow> int \<Rightarrow> int" where
  "signed_of bits u = (if u < 2 ^ (bits - 1) then u else u - 2 ^ bits)"

text \<open>The macros \<open>READ_NUMBER\<close>, \<open>READ_U_NUMBER_48\<close> and \<open>READ_NUMBER_48\<close>, the last on 64-bit words.\<close>

definition read_number :: "bool \<Rightarrow> bool \<Rightarrow> nat \<Rightarrow> bool \<Rightarrow> int \<Rightarrow> byte list \<Rightarrow> buf_error + int" where
  "read_number be signd n le offset d =
     (case readNumber be d offset n n le of
        Inl e \<Rightarrow> Inl e
      | Inr m \<Rightarrow> Inr (if signd then signed_of (8 * n) (unsigned_value be m) else unsigned_value be m))"

definition read_u_number_48 :: "bool \<Rightarrow> bool \<Rightarrow> int \<Rightarrow> int \<Rightarrow> byte list \<Rightarrow> buf_error + int" where
  "read_u_number_48 be le offset sz d =
     (if sz \<le> 0 \<or> sz > 6 then Inl BadArgument
      else case readNumber be d offset (nat sz) 8 le of
        Inl e \<Rightarrow> Inl e
      | Inr m \<Rightarrow> Inr (unsigned_value be m))"

definition extend_sign :: "nat \<Rightarrow> 64 word \<Rightarrow> 64 word" where
  "extend_sign sz v = (if v AND push_bit (8 * sz - 1) 1 \<noteq> 0 then v OR push_bit (8 * sz) (-1) else v)"

definition read_number_48 :: "bool \<Rightarrow> bool \<Rightarrow> int \<Rightarrow> int \<Rightarrow> byte list \<Rightarrow> buf_error + int" where
  "read_number_48 be le offset sz d =
     (if sz \<le> 0 \<or> sz > 6 then Inl BadArgument
      else case readNumber be d offset (nat sz) 8 le of
        Inl e \<Rightarrow> Inl e
      | Inr m \<Rightarrow> Inr (sint (extend_sign (nat sz) (of_int (unsigned_value be m)))))"

definition write_number :: "bool \<Rightarrow> nat \<Rightarrow> bool \<Rightarrow> int \<Rightarrow> int \<Rightarrow> byte list \<Rightarrow> buf_error + (int \<times> byte list)" where
  "write_number be n le value offset d = writeNumber be (memory_of be n value) n le offset d"

definition write_number_48 :: "bool \<Rightarrow> bool \<Rightarrow> int \<Rightarrow> int \<Rightarrow> int \<Rightarrow> byte list \<Rightarrow> buf_error + (int \<times> byte list)" where
  "write_number_48 be le value offset sz d =
     (if sz \<le> 0 \<or> sz > 6 then Inl BadArgument
      else writeNumber be (memory_of be 8 value) (nat sz) le offset d)"

text \<open>The methods.\<close>

definition readUInt8 :: "bool \<Rightarrow> int \<Rightarrow> byte list \<Rightarrow> buf_error + int" where
  "readUInt8 be offset d = read_number be False 1 True offset d"
definition readUInt16LE :: "bool \<Rightarrow> int \<Rightarrow> byte list \<Rightarrow> buf_error + int" where
  "readUInt16LE be offset d = read_number be False 2 True offset d"
definition readUInt16BE :: "bool \<Rightarrow> int \<Rightarrow> byte list \<Rightarrow> buf_error + int" where
  "readUInt16BE be offset d = read_number be False 2 False offset d"
definition readUInt32LE :: "bool \<Rightarrow> int \<Rightarrow> byte list \<Rightarrow> buf_error + int" where
  "readUInt32LE be offset d = read_number be False 4 True offset d"
definition readUInt32BE :: "bool \<Rightarrow> int \<Rightarrow> byte list \<Rightarrow> buf_error + int" where
  "readUInt32BE be offset d = read_number be False 4 False offset d"
definition readUIntLE :: "bool \<Rightarrow> int \<Rightarrow> int \<Rightarrow> byte list \<Rightarrow> buf_error + int" where
  "readUIntLE be offset byteLength d = read_u_number_48 be True offset byteLength d"
definition readUIntBE :: "bool \<Rightarrow> int \<Rightarrow> int \<Rightarrow> byte list \<Rightarrow> buf_error + int" where
  "readUIntBE be offset byteLength d = read_u_number_48 be False offset byteLength d"
definition readInt8 :: "bool \<Rightarrow> int \<Rightarrow> byte list \<Rightarrow> buf_error + int" where
  "readInt8 be offset d = read_number be True 1 True offset d"
definition readInt16LE :: "bool \<Rightarrow> int \<Rightarrow> byte list \<Rightarrow> buf_error + int" where
  "readInt16LE be offset d = read_number be True 2 True offset d"
definition readInt16BE :: "bool \<Rightarrow> int \<Rightarrow> byte list \<Rightarrow> buf_error + int" where
  "readInt16BE be offset d = read_number be True 2 False offset d"
definition readInt32LE :: "bool \<Rightarrow> int \<Rightarrow> byte list \<Rightarrow> buf_error + int" where
  "readInt32LE be offset d = read_number be True 4 True offset d"
definition readInt32BE :: "bool \<Rightarrow> int \<Rightarrow> byte list \<Rightarrow> buf_error + int" where
  "readInt32BE be offset d = read_number be True 4 False offset d"
definition readIntLE :: "bool \<Rightarrow> int \<Rightarrow> int \<Rightarrow> byte list \<Rightarrow> buf_error + int" where
  "readIntLE be offset byteLength d = read_number_48 be True offset byteLength d"
definition readIntBE :: "bool \<Rightarrow> int \<Rightarrow> int \<Rightarrow> byte list \<Rightarrow> buf_error + int" where
  "readIntBE be offset byteLength d = read_number_48 be False offset byteLength d"
definition readInt64LE :: "bool \<Rightarrow> int \<Rightarrow> byte list \<Rightarrow> buf_error + int" where
  "readInt64LE be offset d = read_number be True 8 True offset d"
definition readInt64BE :: "bool \<Rightarrow> int \<Rightarrow> byte list \<Rightarrow> buf_error + int" where
  "readInt64BE be offset d = read_number be True 8 False offset d"

definition writeUInt8 :: "bool \<Rightarrow> int \<Rightarrow> int \<Rightarrow> byte list \<Rightarrow> buf_error + (int \<times> byte list)" where
  "writeUInt8 be value offset d = write_number be 1 True value offset d"
definition writeUInt16LE :: "bool \<Rightarrow> int \<Rightarrow> int \<Rightarrow> byte list \<Rightarrow> buf_error + (int \<times> byte list)" where
  "writeUInt16LE be value offset d = write_number be 2 True value offset d"
definition writeUInt16BE :: "bool \<Rightarrow> int \<Rightarrow> int \<Rightarrow> byte list \<Rightarrow> buf_error + (int \<times> byte list)" where
  "writeUInt16BE be value offset d = write_number be 2 False value offset d"
definition writeUInt32LE :: "bool \<Rightarrow> int \<Rightarrow> int \<Rightarrow> byte list \<Rightarrow> buf_error + (int \<times> byte list)" where
  "writeUInt32LE be value offset d = write_number be 4 True value offset d"
definition writeUInt32BE :: "bool \<Rightarrow> int \<Rightarrow> int \<Rightarrow> byte list \<Rightarrow> buf_error + (int \<times> byte list)" where
  "writeUInt32BE be value offset d = write_number be 4 False value offset d"
definition writeUIntLE :: "bool \<Rightarrow> int \<Rightarrow> int \<Rightarrow> int \<Rightarrow> byte list \<Rightarrow> buf_error + (int \<times> byte list)" where
  "writeUIntLE be value offset byteLength d = write_number_48 be True value offset byteLength d"
definition writeUIntBE :: "bool \<Rightarrow> int \<Rightarrow> int \<Rightarrow> int \<Rightarrow> byte list \<Rightarrow> buf_error + (int \<times> byte list)" where
  "writeUIntBE be value offset byteLength d = write_number_48 be False value offset byteLength d"
definition writeInt8 :: "bool \<Rightarrow> int \<Rightarrow> int \<Rightarrow> byte list \<Rightarrow> buf_error + (int \<times> byte list)" where
  "writeInt8 be value offset d = write_number be 1 True value offset d"
definition writeInt16LE :: "bool \<Rightarrow> int \<Rightarrow> int \<Rightarrow> byte list \<Rightarrow> buf_error + (int \<times> byte list)" where
  "writeInt16LE be value offset d = write_number be 2 True value offset d"
definition writeInt16BE :: "bool \<Rightarrow> int \<Rightarrow> int \<Rightarrow> byte list \<Rightarrow> buf_error + (int \<times> byte list)" where
  "writeInt16BE be value offset d = write_number be 2 False value offset d"
definition writeInt32LE :: "bool \<Rightarrow> int \<Rightarrow> int \<Rightarrow> byte list \<Rightarrow> buf_error + (int \<times> byte list)" where
  "writeInt32LE be value offset d = write_number be 4 True value offset d"
definition writeInt32BE :: "bool \<Rightarrow> int \<Rightarrow> int \<Rightarrow> byte list \<Rightarrow> buf_error + (int \<times> byte list)" where
  "writeInt32BE be value offset d = write_number be 4 False value offset d"
definition writeIntLE :: "bool \<Rightarrow> int \<Rightarrow> int \<Rightarrow> int \<Rightarrow> byte list \<Rightarrow> buf_error + (int \<times> byte list)" where
  "writeIntLE be value offset byteLength d = write_number_48 be True value offset byteLength d"
definition writeIntBE :: "bool \<Rightarrow> int \<Rightarrow> int \<Rightarrow> int \<Rightarrow> byte list \<Rightarrow> buf_error + (int \<times> byte list)" where
  "writeIntBE be value offset byteLength d = write_number_48 be False value offset byteLength d"
definition writeInt64LE :: "bool \<Rightarrow> int \<Rightarrow> int \<Rightarrow> byte list \<Rightarrow> buf_error + (int \<times> byte list)" where
  "writeInt64LE be value offset d = write_number be 8 True value offset d"
definition writeInt64BE :: "bool \<Rightarrow> int \<Rightarrow> int \<Rightarrow> byte list \<Rightarrow> buf_error + (int \<times> byte list)" where
  "writeInt64BE be value offset d = write_number be 8 False value offset d"

section \<open>Searching\<close>

text \<open>\<open>qmemmem\<close> is \<open>mm\<close>: the position of the first occurrence in a text, if any.\<close>

definition from_end :: "int \<Rightarrow> int \<Rightarrow> int" where
  "from_end buf_length offset =
     (if offset < 0 then (if buf_length + offset < 0 then 0 else buf_length + offset) else offset)"

definition Buffer_indexOf :: "(byte list \<Rightarrow> byte list \<Rightarrow> nat option) \<Rightarrow> byte list \<Rightarrow> byte list \<Rightarrow> int \<Rightarrow> int" where
  "Buffer_indexOf mm d v offset0 =
     (let n = int (length d); offset = from_end n offset0
      in if v = [] then min offset n
         else if offset \<ge> n then -1
         else (case mm (drop (nat offset) d) v of Some k \<Rightarrow> offset + int k | None \<Rightarrow> -1))"

function find_byte :: "byte \<Rightarrow> byte list \<Rightarrow> nat \<Rightarrow> int" where
  "find_byte b d i = (if i < length d then (if d ! i = b then int i else find_byte b d (Suc i)) else -1)"
  by pat_completeness auto
termination by (relation "measure (\<lambda>(b, d, i). length d - i)") auto

declare find_byte.simps [simp del]

definition indexOf_int :: "byte list \<Rightarrow> int \<Rightarrow> int \<Rightarrow> buf_error + int" where
  "indexOf_int d v offset0 =
     (let n = int (length d); offset = from_end n offset0
      in case validOffset n offset of
           Some e \<Rightarrow> Inl e
         | None \<Rightarrow> Inr (find_byte (of_int (v mod 256)) d (nat offset)))"

text \<open>The loop from \<open>i\<close> down to 0; a position at or past the end is read outside of the buffer.\<close>

fun find_byte_back :: "byte \<Rightarrow> byte list \<Rightarrow> nat \<Rightarrow> buf_error + int" where
  "find_byte_back b d i =
     (if i \<ge> length d then Inl MemoryFault
      else if d ! i = b then Inr (int i)
      else case i of 0 \<Rightarrow> Inr (-1) | Suc j \<Rightarrow> find_byte_back b d j)"

declare find_byte_back.simps [simp del]

definition lastIndexOf_int :: "byte list \<Rightarrow> int \<Rightarrow> int \<Rightarrow> buf_error + int" where
  "lastIndexOf_int d v offset0 =
     (let n = int (length d); offset = (if offset0 = -1 then n - 1 else offset0)
      in case validOffset n offset of
           Some e \<Rightarrow> Inl e
         | None \<Rightarrow> find_byte_back (of_int (v mod 256)) d (nat offset))"

definition occurs_at :: "byte list \<Rightarrow> byte list \<Rightarrow> nat \<Rightarrow> bool" where
  "occurs_at v d i \<longleftrightarrow> take (length v) (drop i d) = v"

fun find_back :: "byte list \<Rightarrow> byte list \<Rightarrow> nat \<Rightarrow> int" where
  "find_back v d i = (if occurs_at v d i then int i else case i of 0 \<Rightarrow> -1 | Suc j \<Rightarrow> find_back v d j)"

declare find_back.simps [simp del]

definition Buffer_lastIndexOf :: "byte list \<Rightarrow> byte list \<Rightarrow> int \<Rightarrow> int" where
  "Buffer_lastIndexOf d v offset0 =
     (let n = int (length d)
      in if v = [] then
           (if offset0 = -1 then n else if offset0 < 0 then 0 else if offset0 > n then n else offset0)
         else if n = 0 then -1
         else let offset = (if offset0 = -1 then n - 1 else offset0)
              in if offset < 0 then -1
                 else let offset = (if offset \<ge> n then n - 1 else offset);
                          start_pos = min offset (n - int (length v))
                      in if start_pos < 0 then -1 else find_back v d (nat start_pos))"

section \<open>Comparison and text\<close>

text \<open>\<open>memcmp\<close> of two pieces of the same length, of which only the sign is defined.\<close>

fun memcmp :: "byte list \<Rightarrow> byte list \<Rightarrow> int" where
  "memcmp (a # as) (b # bs) = (if a = b then memcmp as bs else if a < b then -1 else 1)"
| "memcmp as bs = 0"

definition buf_equals :: "byte list \<Rightarrow> byte list \<Rightarrow> bool" where
  "buf_equals d e = (if length d \<noteq> length e then False else memcmp d e = 0)"

definition buf_compare :: "byte list \<Rightarrow> byte list \<Rightarrow> int" where
  "buf_compare d e =
     (let n = min (length d) (length e); r = memcmp (take n d) (take n e)
      in if r \<noteq> 0 then r else int (length d) - int (length e))"

definition toString_from ::
    "bool \<Rightarrow> (byte list \<Rightarrow> buf_error + string) \<Rightarrow> int \<Rightarrow> byte list \<Rightarrow> buf_error + string" where
  "toString_from safe encode offset0 d =
     (if \<not> safe then Inl BadCodec
      else let offset = (if offset0 < 0 then 0 else offset0)
           in if offset \<ge> int (length d) then Inr []
              else if offset > 0 then encode (drop (nat offset) d)
              else encode d)"

definition toString_range ::
    "bool \<Rightarrow> (byte list \<Rightarrow> buf_error + string) \<Rightarrow> int \<Rightarrow> int \<Rightarrow> byte list \<Rightarrow> buf_error + string" where
  "toString_range safe encode offset0 end0 d =
     (if \<not> safe then Inl BadCodec
      else let offset = (if offset0 < 0 then 0 else offset0)
           in if end0 < 0 \<or> offset \<ge> end0 then Inr []
              else let e = (if end0 > int (length d) then int (length d) else end0)
                   in if offset < e then encode (take (nat (e - offset)) (drop (nat offset) d))
                      else encode d)"

definition toArray :: "byte list \<Rightarrow> int list" where
  "toArray d = map uint d"

section \<open>Views of shared memory\<close>

text \<open>
  A buffer is a window of a backing store. \<open>slice\<close> copies into a new store, \<open>subarray\<close> shares the one it
  is cut from; every method reads and writes through the window.
\<close>

record memory =
  mem_next :: nat
  mem_store :: "nat \<Rightarrow> byte list"

record view =
  m_store :: nat
  m_offset :: nat
  m_length :: nat

definition contents :: "memory \<Rightarrow> view \<Rightarrow> byte list" where
  "contents M b = take (m_length b) (drop (m_offset b) (mem_store M (m_store b)))"

definition new_buffer :: "byte list \<Rightarrow> memory \<Rightarrow> view \<times> memory" where
  "new_buffer bs M =
     (\<lparr>m_store = mem_next M, m_offset = 0, m_length = length bs\<rparr>,
      M\<lparr>mem_next := mem_next M + 1, mem_store := (mem_store M)(mem_next M := bs)\<rparr>)"

definition write_contents :: "view \<Rightarrow> byte list \<Rightarrow> memory \<Rightarrow> memory" where
  "write_contents b bs M =
     M\<lparr>mem_store := (mem_store M)(m_store b := put_at (m_offset b) bs (mem_store M (m_store b)))\<rparr>"

text \<open>The range both methods compute.\<close>

definition clamp_range :: "int \<Rightarrow> int \<Rightarrow> int \<Rightarrow> int \<times> int" where
  "clamp_range len start0 end0 =
     (let s = (if start0 < 0 then len + start0 else start0);
          e = (if end0 < 0 then len + end0 else end0);
          s = (if s < 0 then 0 else s);
          e = (if e > len then len else e)
      in (if s > e then e else s, e))"

definition buf_slice :: "view \<Rightarrow> int \<Rightarrow> int \<Rightarrow> memory \<Rightarrow> view \<times> memory" where
  "buf_slice b start0 end0 M =
     (case clamp_range (int (m_length b)) start0 end0 of
        (s, e) \<Rightarrow> if s < e then new_buffer (take (nat (e - s)) (drop (nat s) (contents M b))) M else new_buffer [] M)"

definition buf_subarray :: "view \<Rightarrow> int \<Rightarrow> int \<Rightarrow> memory \<Rightarrow> view \<times> memory" where
  "buf_subarray b start0 end0 M =
     (case clamp_range (int (m_length b)) start0 end0 of
        (s, e) \<Rightarrow>
          if s < e then (\<lparr>m_store = m_store b, m_offset = m_offset b + nat s, m_length = nat (e - s)\<rparr>, M)
          else new_buffer [] M)"

end
