(* ===== verification/BufferRW.thy ===== *)
theory BufferRW
  imports BufferOps
begin

text \<open>
  What the methods of \<open>Buffer\<close> do to its contents: numbers read back as they were written on either kind
  of host, filling, copying and the creation of buffers, with the cases in which the code reads or writes
  something else.
\<close>

section \<open>Writing at a position\<close>

lemma length_put_at [simp]: "pos + length bs \<le> length d \<Longrightarrow> length (put_at pos bs d) = length d"
  by (simp add: put_at_def)

lemma nth_put_at:
  "pos + length bs \<le> length d \<Longrightarrow> i < length d \<Longrightarrow>
    put_at pos bs d ! i = (if pos \<le> i \<and> i < pos + length bs then bs ! (i - pos) else d ! i)"
  by (auto simp: put_at_def nth_append min_def)

lemma take_drop_put_at: "pos + length bs \<le> length d \<Longrightarrow> take (length bs) (drop pos (put_at pos bs d)) = bs"
  by (simp add: put_at_def)

lemma put_at_0_all: "length bs = length d \<Longrightarrow> put_at 0 bs d = bs"
  by (simp add: put_at_def)

section \<open>Numbers\<close>

lemma length_le_bytes [simp]: "length (le_bytes n x) = n"
  by (induction n arbitrary: x) simp_all

lemma uint_byte_of_int: "uint (of_int (x mod 256) :: byte) = x mod 256"
  by (simp add: uint_word_of_int_eq take_bit_eq_mod)

lemma le_number_le_bytes: "le_number (le_bytes n x) = x mod 256 ^ n"
proof (induction n arbitrary: x)
  case (Suc n)
  have "x mod 256 ^ Suc n = x mod 256 + 256 * (x div 256 mod 256 ^ n)"
    using zmod_zmult2_eq [of "256 ^ n" x 256] by simp
  then show ?case by (simp add: Suc uint_byte_of_int)
qed simp

lemma take_le_bytes: "k \<le> n \<Longrightarrow> take k (le_bytes n x) = le_bytes k x"
proof (induction n arbitrary: k x)
  case (Suc n)
  then show ?case by (cases k) simp_all
qed simp

lemma le_number_zeros: "le_number (bs @ replicate k 0) = le_number bs"
proof (induction bs)
  case Nil
  show ?case by (induction k) simp_all
qed simp

lemma le_number_bounds: "0 \<le> le_number bs" "le_number bs < 256 ^ length bs"
proof -
  have "0 \<le> le_number bs \<and> le_number bs < 256 ^ length bs"
  proof (induction bs)
    case (Cons b bs)
    have "0 \<le> uint b" "uint b < 256" using unsigned_less [of b, where 'a = int] by simp_all
    with Cons show ?case by simp
  qed simp
  then show "0 \<le> le_number bs" "le_number bs < 256 ^ length bs" by simp_all
qed

text \<open>The bytes at an offset in the order of increasing weight.\<close>

definition weighted :: "bool \<Rightarrow> byte list \<Rightarrow> byte list" where
  "weighted le bs = (if le then bs else rev bs)"

lemma weighted_weighted [simp]: "weighted le (weighted le bs) = bs" "length (weighted le bs) = length bs"
  by (simp_all add: weighted_def)

text \<open>The one case in which the byte order of the host shows: one byte in a wider variable.\<close>

definition host_ok :: "bool \<Rightarrow> nat \<Rightarrow> nat \<Rightarrow> bool" where
  "host_ok be sz value_size \<longleftrightarrow> (be \<longrightarrow> sz \<noteq> 1 \<or> value_size = 1)"

lemma readNumber_value:
  assumes "in_bounds d offset (int sz)" "0 < sz" "sz \<le> value_size" "host_ok be sz value_size"
  shows "\<exists>m. readNumber be d offset sz value_size le = Inr m \<and>
    unsigned_value be m = le_number (weighted le (take sz (drop (nat offset) d)))"
proof -
  let ?src = "take sz (drop (nat offset) d)"
  have l: "length ?src = sz" using assms(1) by (auto simp: in_bounds_def)
  have z: "le_number (x @ replicate k 0) = le_number x" for x k by (rule le_number_zeros)
  consider (one) "sz = 1" | (big) "sz \<noteq> 1" "be" | (little) "sz \<noteq> 1" "\<not> be" by blast
  then show ?thesis
  proof cases
    case one
    obtain b where b: "?src = [b]" using l one by (metis One_nat_def length_0_conv length_Suc_conv)
    show ?thesis
      using assms one b z [of "[b]" "value_size - 1"]
      by (cases be) (auto simp: readNumber_def put_at_def unsigned_value_def host_ok_def weighted_def split: if_splits)
  next
    case big
    then show ?thesis
      using assms l z [of "weighted le ?src" "value_size - sz"]
      by (auto simp: readNumber_def put_at_def unsigned_value_def weighted_def)
  next
    case little
    then show ?thesis
      using assms l z [of "weighted le ?src" "value_size - sz"]
      by (auto simp: readNumber_def put_at_def unsigned_value_def weighted_def)
  qed
qed

lemma writeNumber_bytes:
  assumes "in_bounds d offset (int sz)" "0 < sz" "sz \<le> n" "host_ok be sz n"
  shows "writeNumber be (memory_of be n x) sz le offset d =
    Inr (offset + int sz, put_at (nat offset) (weighted le (le_bytes sz x)) d)"
proof -
  have r: "drop (n - sz) (rev (le_bytes n x)) = rev (le_bytes sz x)"
    using rev_take [of sz "le_bytes n x"] take_le_bytes [OF assms(3), of x] by simp
  consider (one) "sz = 1" | (big) "sz \<noteq> 1" "be" | (little) "sz \<noteq> 1" "\<not> be" by blast
  then show ?thesis
  proof cases
    case one
    have "take 1 (memory_of be n x) = le_bytes 1 x"
      using assms(4) one take_le_bytes [OF assms(3), of x] by (cases be) (auto simp: memory_of_def host_ok_def)
    then show ?thesis using assms(1) one by (simp add: writeNumber_def weighted_def)
  next
    case big
    then show ?thesis using assms(1) r by (simp add: writeNumber_def memory_of_def weighted_def)
  next
    case little
    then show ?thesis using assms(1) take_le_bytes [OF assms(3), of x] by (simp add: writeNumber_def memory_of_def weighted_def)
  qed
qed

lemma in_bounds_length: "in_bounds d offset (int sz) \<Longrightarrow> nat offset + sz \<le> length d"
  by (auto simp: in_bounds_def)

lemma read_after_write:
  assumes "in_bounds d offset (int sz)"
  shows "weighted le (take sz (drop (nat offset) (put_at (nat offset) (weighted le (le_bytes sz x)) d))) = le_bytes sz x"
  using take_drop_put_at [of "nat offset" "weighted le (le_bytes sz x)" d] in_bounds_length [OF assms] by simp



lemma push_minus_one: "push_bit k (-1) = (of_int (- (2 ^ k)) :: 64 word)"
  by (simp add: push_bit_eq_mult)

lemma small_word_bits:
  assumes "0 \<le> u" "u < 2 ^ k" "k \<le> 48"
  shows "take_bit k (of_int u :: 64 word) = of_int u"
proof -
  have t: "take_bit k u = u" using assms by (simp add: take_bit_int_eq_self)
  have "bit u i \<Longrightarrow> i < k" for i using arg_cong [OF t, of "\<lambda>w. bit w i"] by (simp add: bit_take_bit_iff)
  then show ?thesis by (auto intro!: bit_word_eqI simp: bit_simps)
qed

lemma top_bit:
  assumes "0 \<le> (u :: int)" "u < 2 ^ Suc n"
  shows "bit u n \<longleftrightarrow> \<not> u < 2 ^ n"
proof (cases "u < 2 ^ n")
  case True
  then show ?thesis using assms(1) by (simp add: bit_iff_odd)
next
  case False
  have "u div 2 ^ n = 1"
    by (rule int_div_pos_eq [of _ _ _ "u - 2 ^ n"]) (use assms False in auto)
  then show ?thesis using False by (simp add: bit_iff_odd)
qed

lemma sint_small:
  assumes "- (2 ^ 63) \<le> x" "x < 2 ^ 63"
  shows "sint (of_int x :: 64 word) = x"
  using assms by (simp add: signed_of_int take_bit_int_eq_self signed_take_bit_int_eq_self)

lemma extend_sign_value:
  assumes "0 \<le> u" "u < 2 ^ (8 * sz)" "0 < sz" "sz \<le> 6"
  shows "sint (extend_sign sz (of_int u)) = signed_of (8 * sz) u"
proof -
  let ?v = "of_int u :: 64 word" and ?k = "8 * sz"
  have v: "take_bit ?k ?v = ?v" by (rule small_word_bits) (use assms in auto)
  have p: "(2 :: int) ^ ?k \<le> 2 ^ 48" using assms(4) by (intro power_increasing) auto
  have bitv: "bit ?v (?k - 1) = bit u (?k - 1)" 
  proof -
    have "?k - 1 < 64" using assms(4) by linarith
    then show ?thesis by (simp add: bit_word_of_int_iff)
  qed
  have bitu: "bit u (?k - 1) \<longleftrightarrow> \<not> u < 2 ^ (?k - 1)"
    by (rule top_bit [OF assms(1)]) (use assms(2,3) in simp)
  have disj: "?v AND push_bit ?k (-1) = 0"
    by (rule bit_word_eqI) (use v in \<open>auto simp: bit_simps dest: arg_cong [where f = "\<lambda>w. bit w _"]\<close>)
  have "?v OR push_bit ?k (-1) = ?v + push_bit ?k (-1)" by (rule disjunctive_add_eq_or [symmetric]) (rule disj)
  also have "\<dots> = of_int (u - 2 ^ ?k)" unfolding push_minus_one by simp
  finally have o: "?v OR push_bit ?k (-1) = of_int (u - 2 ^ ?k)" .
  have m: "(?v AND push_bit (?k - 1) 1 \<noteq> 0) = bit ?v (?k - 1)"
    by (simp add: and_exp_eq_0_iff_not_bit push_bit_eq_mult)
  have b: "- (2 ^ 63) \<le> u - 2 ^ ?k" "u - 2 ^ ?k < 2 ^ 63" "- (2 ^ 63) \<le> u" "u < 2 ^ 63"
    using assms(1,2) p by simp_all
  show ?thesis
    unfolding extend_sign_def m bitv bitu o signed_of_def
    using sint_small [OF b(1,2)] sint_small [OF b(3,4)] by (simp only: if_not_P if_P not_not split: if_split) blast
qed

lemma power_256: "(256 :: int) ^ n = 2 ^ (8 * n)"
  by (simp add: power_mult)

lemma write_number_value:
  assumes "in_bounds d offset (int n)" "0 < n"
  shows "write_number be n le x offset d = Inr (offset + int n, put_at (nat offset) (weighted le (le_bytes n x)) d)"
proof -
  have "host_ok be n n" by (auto simp: host_ok_def)
  from writeNumber_bytes [OF assms _ this] show ?thesis by (simp add: write_number_def)
qed

lemma in_bounds_put_at:
  assumes "in_bounds d offset (int n)" "length bs = n"
  shows "in_bounds (put_at (nat offset) bs d) offset (int n)"
  using assms in_bounds_length [OF assms(1)] by (simp add: in_bounds_def)

lemma readNumber_after_write:
  assumes "in_bounds d offset (int n)" "0 < n" "n \<le> k" "host_ok be n k"
  shows "\<exists>m. readNumber be (put_at (nat offset) (weighted le (le_bytes n x)) d) offset n k le = Inr m \<and>
    unsigned_value be m = x mod 2 ^ (8 * n)"
  using readNumber_value [OF in_bounds_put_at [OF assms(1)] assms(2-4), of "weighted le (le_bytes n x)" le]
    read_after_write [OF assms(1), of le x] le_number_le_bytes [of n x] power_256 [of n] by simp

lemma read_number_after_write:
  assumes "in_bounds d offset (int n)" "0 < n"
  shows "read_number be signd n le offset (put_at (nat offset) (weighted le (le_bytes n x)) d) =
    Inr (if signd then signed_of (8 * n) (x mod 2 ^ (8 * n)) else x mod 2 ^ (8 * n))"
proof -
  have "host_ok be n n" by (auto simp: host_ok_def)
  from readNumber_after_write [OF assms _ this, of le x] show ?thesis by (auto simp: read_number_def)
qed

lemma signed_of_mod:
  assumes "- (2 ^ (k - 1)) \<le> x" "x < 2 ^ (k - 1)" "0 < k"
  shows "signed_of k (x mod 2 ^ k) = x"
proof -
  have k: "(2 :: int) ^ k = 2 * 2 ^ (k - 1)" using assms(3) by (cases k) simp_all
  show ?thesis
  proof (cases "0 \<le> x")
    case True
    then have "x mod 2 ^ k = x" using assms k by (intro mod_pos_pos_trivial) auto
    then show ?thesis using assms by (simp add: signed_of_def)
  next
    case False
    have "x mod 2 ^ k = (x + 2 ^ k) mod 2 ^ k" by simp
    also have "\<dots> = x + 2 ^ k" using assms k False by (intro mod_pos_pos_trivial) auto
    finally show ?thesis using assms False k by (simp add: signed_of_def)
  qed
qed

lemma write_number_48_value:
  assumes "in_bounds d offset sz" "1 \<le> sz" "sz \<le> 6" "host_ok be (nat sz) 8"
  shows "write_number_48 be le x offset sz d =
    Inr (offset + sz, put_at (nat offset) (weighted le (le_bytes (nat sz) x)) d)"
  using writeNumber_bytes [of d offset "nat sz" 8 be x le] assms by (simp add: write_number_48_def nat_le_iff)

lemma read_number_48_after_write:
  assumes "in_bounds d offset sz" "1 \<le> sz" "sz \<le> 6" "host_ok be (nat sz) 8"
  shows "read_u_number_48 be le offset sz (put_at (nat offset) (weighted le (le_bytes (nat sz) x)) d) =
      Inr (x mod 2 ^ nat (8 * sz))"
    and "read_number_48 be le offset sz (put_at (nat offset) (weighted le (le_bytes (nat sz) x)) d) =
      Inr (signed_of (nat (8 * sz)) (x mod 2 ^ nat (8 * sz)))"
proof -
  have z: "nat (8 * sz) = 8 * nat sz" using assms(2) by simp
  have n8: "nat sz \<le> 8" using assms(3) by linarith
  obtain m where m: "readNumber be (put_at (nat offset) (weighted le (le_bytes (nat sz) x)) d) offset (nat sz) 8 le = Inr m"
    "unsigned_value be m = x mod 2 ^ (8 * nat sz)"
    using readNumber_after_write [of d offset "nat sz" 8 be le x, OF _ _ n8] assms by auto
  have "sint (extend_sign (nat sz) (of_int (x mod 2 ^ (8 * nat sz)))) = signed_of (8 * nat sz) (x mod 2 ^ (8 * nat sz))"
    by (rule extend_sign_value) (use assms(2,3) in auto)
  with m assms show "read_u_number_48 be le offset sz (put_at (nat offset) (weighted le (le_bytes (nat sz) x)) d) =
      Inr (x mod 2 ^ nat (8 * sz))"
    "read_number_48 be le offset sz (put_at (nat offset) (weighted le (le_bytes (nat sz) x)) d) =
      Inr (signed_of (nat (8 * sz)) (x mod 2 ^ nat (8 * sz)))"
    by (simp_all add: read_u_number_48_def read_number_48_def z)
qed

end
