(* ===== verification/BufferProps.thy ===== *)
theory BufferProps
  imports BufferRW
begin

text \<open>
  Filling, copying, creating, searching and sharing of buffers (see \<^verbatim>\<open>BufferOps\<close>), and the properties
  of the class.
\<close>

section \<open>Filling\<close>

lemma generateEnd_cases:
  "generateEnd n offset end0 = Inr e \<Longrightarrow> 0 \<le> offset \<and> offset \<le> e \<and> e \<le> n"
  by (auto simp: generateEnd_def Let_def split: if_splits)

lemma fill_loop_done [simp]: "n \<le> 0 \<Longrightarrow> fill_loop src sz n offset d = d"
  by (subst fill_loop.simps) simp

lemma length_fill_loop:
  "offset + nat n \<le> length d \<Longrightarrow> (\<And>v. src = Some v \<Longrightarrow> length v = sz) \<Longrightarrow> src = None \<longrightarrow> sz \<le> offset \<Longrightarrow>
    length (fill_loop src sz n offset d) = length d"
proof (induction src sz n offset d rule: fill_loop.induct)
  case (1 src sz n offset d)
  show ?case
  proof (cases "n > 0 \<and> sz > 0")
    case True
    let ?m = "min sz (nat n)"
    let ?d = "put_at offset (take ?m (case src of Some v \<Rightarrow> v | None \<Rightarrow> d)) d"
    have l: "length ?d = length d"
      using "1.prems" by (intro length_put_at) (auto simp: min_def split: option.split)
    have "length (fill_loop None (offset + sz) (n - int sz) (offset + sz) ?d) = length ?d \<or> n \<le> int sz"
      using "1.IH" [OF True refl refl] "1.prems"(1) l by (cases "n \<le> int sz") auto
    moreover have "n \<le> int sz \<Longrightarrow> fill_loop None (offset + sz) (n - int sz) (offset + sz) ?d = ?d"
      by simp
    moreover have "fill_loop src sz n offset d = fill_loop None (offset + sz) (n - int sz) (offset + sz) ?d"
      using True by (subst fill_loop.simps) (simp add: Let_def)
    ultimately show ?thesis using l by metis
  next
    case False
    then have "fill_loop src sz n offset d = d" by (subst fill_loop.simps) (simp only: if_False)
    then show ?thesis by simp
  qed
qed

text \<open>From the start of the buffer, every turn doubles the part that repeats the pattern.\<close>

definition periodic :: "byte list \<Rightarrow> byte list \<Rightarrow> nat \<Rightarrow> bool" where
  "periodic v d k \<longleftrightarrow> (\<forall>i < k. d ! i = v ! (i mod length v))"

lemma fill_loop_periodic:
  assumes "v \<noteq> []"
  shows "k \<ge> length v \<Longrightarrow> k mod length v = 0 \<Longrightarrow> periodic v d k \<Longrightarrow> k + nat n \<le> length d \<Longrightarrow>
    periodic v (fill_loop None k n k d) (k + nat n) \<and> (\<forall>i. k + nat n \<le> i \<longrightarrow> i < length d \<longrightarrow> fill_loop None k n k d ! i = d ! i)"
proof (induction "nat n" arbitrary: k n d rule: less_induct)
  case less
  show ?case
  proof (cases "n > 0 \<and> k > 0")
    case True
    let ?m = "min k (nat n)"
    let ?d = "put_at k (take ?m d) d"
    have step: "fill_loop None k n k d = fill_loop None (k + k) (n - int k) (k + k) ?d"
      using True by (subst fill_loop.simps) (simp add: Let_def)
    have len: "length (take ?m d) = ?m" using less.prems(4) by simp
    have nth: "i < length d \<Longrightarrow> ?d ! i = (if k \<le> i \<and> i < k + ?m then d ! (i - k) else d ! i)" for i
    proof -
      assume i: "i < length d"
      have "k \<le> i \<Longrightarrow> i < k + ?m \<Longrightarrow> take ?m d ! (i - k) = d ! (i - k)" by (intro nth_take) linarith
      moreover have "k + length (take ?m d) \<le> length d" using less.prems(4) by simp
      ultimately show ?thesis using nth_put_at [of k "take ?m d" d i] i len by presburger
    qed
    have per: "periodic v ?d (k + ?m)"
    proof (unfold periodic_def, intro allI impI)
      fix i assume i: "i < k + ?m"
      then have il: "i < length d" using less.prems(4) by auto
      show "?d ! i = v ! (i mod length v)"
      proof (cases "k \<le> i")
        case True
        with i have "d ! (i - k) = v ! ((i - k) mod length v)"
          using less.prems(3) by (auto simp: periodic_def)
        moreover have "(i - k) mod length v = i mod length v"
          using True less.prems(2) by (metis (no_types) add_cancel_right_right le_add_diff_inverse2 mod_add_right_eq)
        ultimately show ?thesis using nth [OF il] True i by simp
      next
        case False
        then show ?thesis using nth [OF il] less.prems(3) by (simp add: periodic_def)
      qed
    qed
    have ld: "length ?d = length d" using less.prems(4) len by (intro length_put_at) auto
    show ?thesis
    proof (cases "nat n \<le> k")
      case True
      then have "fill_loop None (k + k) (n - int k) (k + k) ?d = ?d" by simp
      with step per True nth show ?thesis by (auto simp: min_def)
    next
      case False
      have "periodic v (fill_loop None (k + k) (n - int k) (k + k) ?d) (k + k + nat (n - int k)) \<and>
        (\<forall>i. k + k + nat (n - int k) \<le> i \<longrightarrow> i < length ?d \<longrightarrow>
          fill_loop None (k + k) (n - int k) (k + k) ?d ! i = ?d ! i)"
        by (rule less.hyps) (use True False less.prems per ld in \<open>auto simp: min_def mod_add_left_eq [symmetric]\<close>)
      moreover have "k + k + nat (n - int k) = k + nat n" using False by simp
      ultimately show ?thesis using step nth ld False by (auto simp: min_def)
    qed
  next
    case False
    with assms less.prems have "n \<le> 0" by auto
    then show ?thesis using less.prems by simp
  qed
qed


lemma fill_first_turn:
  assumes "v \<noteq> []" "0 < n" "nat n \<le> length d"
  shows "fill_loop (Some v) (length v) n 0 d =
      fill_loop None (length v) (n - int (length v)) (length v) (put_at 0 (take (min (length v) (nat n)) v) d)"
  using assms by (subst fill_loop.simps) (simp add: Let_def)

lemma fill_from_start:
  assumes "v \<noteq> []" "0 \<le> n" "nat n \<le> length d" "i < length d"
  shows "fill_loop (Some v) (length v) n 0 d ! i = (if i < nat n then v ! (i mod length v) else d ! i)"
proof (cases "n = 0")
  case False
  let ?k = "length v" and ?d = "put_at 0 (take (min (length v) (nat n)) v) d"
  have n: "0 < n" using assms(2) False by simp
  have lt: "length (take (min ?k (nat n)) v) = min ?k (nat n)" by simp
  have ld: "length ?d = length d" using assms(3) by (intro length_put_at) simp
  have tk: "j < min ?k (nat n) \<Longrightarrow> take (min ?k (nat n)) v ! j = v ! j" for j by (rule nth_take)
  have nth: "j < length d \<Longrightarrow> ?d ! j = (if j < min ?k (nat n) then v ! j else d ! j)" for j
  proof -
    assume "j < length d"
    moreover have "0 + length (take (min ?k (nat n)) v) \<le> length d" using assms(3) by simp
    ultimately show ?thesis
      using nth_put_at [of 0 "take (min ?k (nat n)) v" d j] tk lt by (simp del: length_take min_less_iff_conj)
  qed
  show ?thesis
  proof (cases "nat n \<le> ?k")
    case True
    then have "fill_loop None ?k (n - int ?k) ?k ?d = ?d" by simp
    with fill_first_turn [OF assms(1) n assms(3)] nth [OF assms(4)] True show ?thesis by auto
  next
    case False
    have per: "periodic v ?d ?k" using nth False assms(3) by (auto simp: periodic_def)
    have e: "?k + nat (n - int ?k) = nat n" using False by simp
    have "?k \<le> ?k" "?k mod ?k = 0" by simp_all
    from fill_loop_periodic [OF assms(1) this per, of "n - int ?k"] e ld assms(3)
    have "periodic v (fill_loop None ?k (n - int ?k) ?k ?d) (nat n)"
      "nat n \<le> i \<longrightarrow> fill_loop None ?k (n - int ?k) ?k ?d ! i = ?d ! i"
      using assms(4) by simp_all
    then show ?thesis
      using fill_first_turn [OF assms(1) n assms(3)] nth [OF assms(4)] False by (auto simp: periodic_def)
  qed
qed (use assms in simp)

lemma put_replicate_nth:
  assumes "n \<le> length d" "i < length d"
  shows "put_at 0 (replicate n b) d ! i = (if i < n then b else d ! i)"
  using nth_put_at [of 0 "replicate n b" d i] assms by simp

lemma generateEnd_ok [simp]: "0 \<le> offset \<Longrightarrow> offset \<le> e \<Longrightarrow> e \<le> n \<Longrightarrow> generateEnd n offset e = Inr e"
  by (simp add: generateEnd_def)

text \<open>
  Filling from the start of a buffer repeats the pattern up to the end, and changes nothing after it.
\<close>

theorem buffer_fill_periodic:
  assumes "v \<noteq> []" "0 \<le> e" "e \<le> int (length d)"
  shows "\<exists>d'. fill_bytes v 0 e d = Inr d' \<and> length d' = length d \<and>
    list_all (\<lambda>i. d' ! i = (if int i < e then v ! (i mod length v) else d ! i)) [0..<length d]"
proof (cases "length v = 1")
  case True
  have n: "nat e \<le> length d" using assms(3) by simp
  show ?thesis
    using True n assms put_replicate_nth [OF n, of _ "v ! 0"] by (auto simp: fill_bytes_def list_all_iff)
next
  case False
  have n: "nat e \<le> length d" using assms(3) by simp
  have "length (fill_loop (Some v) (length v) e 0 d) = length d"
    using n by (intro length_fill_loop) auto
  then show ?thesis
    using False assms fill_from_start [OF assms(1,2) n] by (auto simp: fill_bytes_def list_all_iff)
qed

theorem buffer_fill_periodic_witness:
  "\<exists>d'. fill_bytes [97, 98] 0 3 [0, 0, 0, 0] = Inr d' \<and> length d' = length [0, 0, 0, 0 :: byte] \<and>
    list_all (\<lambda>i. d' ! i = (if int i < 3 then [97, 98] ! (i mod length [97, 98 :: byte]) else [0, 0, 0, 0] ! i)) [0..<length [0, 0, 0, 0 :: byte]]"
  using buffer_fill_periodic [of "[97, 98]" 3 "[0, 0, 0, 0]"] by simp

text \<open>
  From any other position the turns after the first copy the start of the buffer, which the pattern was not
  written to.
\<close>

lemma fill_with_offset: "fill_bytes [97, 98] 1 5 [0, 0, 0, 0, 0] = Inr [0, 97, 98, 0, 97]"
  by (simp add: fill_bytes_def fill_loop.simps generateEnd_def put_at_def eval_nat_numeral)


section \<open>Copying and creating\<close>

text \<open>
  C28: \<open>copy\<close> never leaves either buffer: whatever its arguments, it moves the bytes it says to the
  position asked for and changes no other.
\<close>

theorem buffer_copy_in_bounds:
  assumes "buf_copy d target targetStart sourceStart sourceEnd = Inr (n, target')"
  shows "0 \<le> n \<and> length target' = length target \<and>
    sourceStart + n \<le> int (length d) \<and> targetStart + n \<le> max targetStart (int (length target)) \<and>
    list_all (\<lambda>i. target' ! i = (if targetStart \<le> int i \<and> int i < targetStart + n
      then d ! nat (sourceStart + int i - targetStart) else target ! i)) [0..<length target]"
proof -
  let ?e = "if sourceEnd = -1 then int (length d) else sourceEnd"
  let ?n = "min (min (?e - sourceStart) (int (length target) - targetStart)) (int (length d) - sourceStart)"
  have s: "0 \<le> targetStart" "0 \<le> sourceStart" "sourceStart \<le> int (length d)"
    using assms by (auto simp: buf_copy_def split: if_splits)
  show ?thesis
  proof (cases "targetStart \<ge> int (length target) \<or> sourceStart \<ge> ?e")
    case True
    then have "n = 0" "target' = target" using assms s by (auto simp: buf_copy_def Let_def split: if_splits)
    then show ?thesis using s by (auto simp: list_all_iff)
  next
    case False
    have n: "n = ?n" and t: "target' = put_at (nat targetStart) (take (nat n) (drop (nat sourceStart) d)) target"
      using assms s False by (auto simp: buf_copy_def Let_def split: if_splits)
    have b: "0 \<le> n" "sourceStart + n \<le> int (length d)" "targetStart + n \<le> int (length target)"
      unfolding n using False s by (auto simp: min_def)
    have l: "length (take (nat n) (drop (nat sourceStart) d)) = nat n" using b s by auto
    have fit: "nat targetStart + length (take (nat n) (drop (nat sourceStart) d)) \<le> length target"
      unfolding l using b s by linarith
    have "i < length target \<Longrightarrow> target' ! i = (if targetStart \<le> int i \<and> int i < targetStart + n
      then d ! nat (sourceStart + int i - targetStart) else target ! i)" for i
    proof -
      assume i: "i < length target"
      have "nat targetStart \<le> i \<Longrightarrow> i < nat targetStart + nat n \<Longrightarrow>
        take (nat n) (drop (nat sourceStart) d) ! (i - nat targetStart) = d ! nat (sourceStart + int i - targetStart)"
        using b s by (subst nth_take) (auto simp: nth_append intro!: arg_cong [where f = "\<lambda>k. d ! k"])
      then show ?thesis using nth_put_at [OF fit i] b s unfolding t l by (auto simp: nat_le_iff)
    qed
    then show ?thesis using b length_put_at [OF fit] t by (auto simp: list_all_iff)
  qed
qed

theorem buffer_copy_in_bounds_witness:
  "0 \<le> (2 :: int) \<and> length [0, 8, 9 :: byte] = length [0, 0, 0 :: byte] \<and>
    1 + 2 \<le> int (length [7, 8, 9 :: byte]) \<and> 1 + 2 \<le> max 1 (int (length [0, 0, 0 :: byte])) \<and>
    list_all (\<lambda>i. [0, 8, 9 :: byte] ! i = (if 1 \<le> int i \<and> int i < 1 + 2
      then [7, 8, 9] ! nat (1 + int i - 1) else [0, 0, 0] ! i)) [0..<length [0, 0, 0 :: byte]]"
  using buffer_copy_in_bounds [of "[7, 8, 9]" "[0, 0, 0]" 1 1 "-1" 2 "[0, 8, 9]"]
  by (simp add: buf_copy_def put_at_def)

lemma size_diff_inside: "off \<le> n \<Longrightarrow> n < 2 ^ 31 \<Longrightarrow> size_diff n (int off) = n - off"
  unfolding size_diff_def by (subst mod_pos_pos_trivial) auto

text \<open>
  The copying \<open>from\<close> with an offset inside the source gives the bytes of the range, and
  the empty buffer for a length that does not fit.
\<close>

theorem buffer_from_range:
  assumes "byteOffset \<le> int (length d)" "length d < 2 ^ 31"
  shows "from_buffer d byteOffset len =
    Inr (if len < 0 then drop (nat byteOffset) d
         else if nat len \<le> length d - nat byteOffset then take (nat len) (drop (nat byteOffset) d) else [])"
proof -
  have o: "(if byteOffset < 0 then 0 else byteOffset) = int (nat byteOffset)" by simp
  have n: "nat byteOffset \<le> length d" using assms(1) by simp
  have sd: "size_diff (length d) (int (nat byteOffset)) = length d - nat byteOffset"
    by (rule size_diff_inside [OF n assms(2)])
  have t: "to_int32 (int (length d - nat byteOffset)) = int (length d - nat byteOffset)"
    by (rule to_int32_small) (use assms(2) in auto)
  show ?thesis
    using n unfolding from_buffer_def from_memory_def o sd t Let_def read_at_def
    by (auto simp: not_less)
qed

theorem buffer_from_range_witness:
  "from_buffer [7, 8, 9] 1 (-1) = Inr [8, 9]"
  using buffer_from_range [of 1 "[7, 8, 9]" "-1"] by simp

text \<open>An offset after the end wraps the difference around, and the copy reads memory that is not the buffer's.\<close>

lemma buffer_from_past_the_end: "from_buffer [7, 8, 9] 5 1 = Inl MemoryFault"
  by (simp add: from_buffer_def from_memory_def size_diff_def read_at_def)

text \<open>\<open>concat\<close> leaves what follows an empty buffer unset: \<open>raw\<close> is the memory it was given.\<close>

lemma concat_stops_at_empty: "buf_concat [1, 2, 3, 4] [[10], [], [20, 30]] (-1) = [10, 2, 3]"
  by (simp add: buf_concat_def)

lemma concat_loop_all:
  "length out + length (concat bufs) \<le> n \<Longrightarrow> [] \<notin> set bufs \<Longrightarrow> concat_loop bufs n out = out @ concat bufs"
  by (induction bufs arbitrary: out) (auto simp: Let_def)

lemma concat_all: "[] \<notin> set bufs \<Longrightarrow> buf_concat raw bufs (-1) = concat bufs"
  using concat_loop_all [of "[]" bufs "sum_list (map length bufs)"] by (simp add: buf_concat_def length_concat)

section \<open>Searching\<close>

lemma find_byte_first:
  "find_byte b d i = (if \<exists>j \<ge> i. j < length d \<and> d ! j = b then int (LEAST j. i \<le> j \<and> j < length d \<and> d ! j = b) else -1)"
proof (induction b d i rule: find_byte.induct)
  case (1 b d i)
  show ?case
  proof (cases "i < length d \<and> d ! i \<noteq> b")
    case True
    have "(i \<le> j \<and> j < length d \<and> d ! j = b) = (Suc i \<le> j \<and> j < length d \<and> d ! j = b)" for j
      using True by (metis Suc_leI Suc_leD le_neq_implies_less)
    then show ?thesis using 1 True by (subst find_byte.simps) (simp, metis)
  next
    case False
    then have "i < length d \<Longrightarrow> (LEAST j. i \<le> j \<and> j < length d \<and> d ! j = b) = i"
      by (intro Least_equality) auto
    then show ?thesis using False by (subst find_byte.simps) auto
  qed
qed

lemma find_byte_back_in_bounds:
  assumes "i < length d"
  shows "\<exists>r. find_byte_back b d i = Inr r \<and> (if r = -1 then b \<notin> set (take (Suc i) d)
    else 0 \<le> r \<and> r \<le> int i \<and> d ! nat r = b \<and> b \<notin> set (take (i - nat r) (drop (Suc (nat r)) d)))"
  using assms
proof (induction b d i rule: find_byte_back.induct)
  case (1 b d i)
  show ?case
  proof (cases "d ! i = b")
    case True
    then show ?thesis using "1.prems" by (subst find_byte_back.simps) simp
  next
    case False
    show ?thesis
    proof (cases i)
      case 0
      then show ?thesis using "1.prems" False by (subst find_byte_back.simps) (auto simp: take_Suc_conv_app_nth)
    next
      case (Suc j)
      have e: "find_byte_back b d i = find_byte_back b d j"
        using "1.prems" False Suc by (subst find_byte_back.simps) simp
      from "1.IH" [OF _ False Suc] "1.prems" Suc
      obtain r where r: "find_byte_back b d j = Inr r" "if r = -1 then b \<notin> set (take (Suc j) d)
        else 0 \<le> r \<and> r \<le> int j \<and> d ! nat r = b \<and> b \<notin> set (take (j - nat r) (drop (Suc (nat r)) d))"
        by auto
      have "r \<noteq> -1 \<Longrightarrow> take (i - nat r) (drop (Suc (nat r)) d) = take (j - nat r) (drop (Suc (nat r)) d) @ [d ! i]"
        using r(2) Suc "1.prems" by (auto simp: Suc_diff_le nat_le_iff take_Suc_conv_app_nth)
      moreover have "take (Suc i) d = take (Suc j) d @ [d ! i]" using Suc "1.prems" by (simp add: take_Suc_conv_app_nth)
      ultimately show ?thesis using e r False Suc by (auto split: if_splits)
    qed
  qed
qed

lemma lastIndexOf_past_the_end: "lastIndexOf_int [7, 8, 9] 5 3 = Inl MemoryFault"
  by (simp add: lastIndexOf_int_def validOffset_def find_byte_back.simps)

lemma find_back_greatest:
  "find_back v d i = (if \<exists>j \<le> i. occurs_at v d j then int (GREATEST j. j \<le> i \<and> occurs_at v d j) else -1)"
proof (induction v d i rule: find_back.induct)
  case (1 v d i)
  show ?case
  proof (cases "occurs_at v d i")
    case True
    then have "(GREATEST j. j \<le> i \<and> occurs_at v d j) = i" by (intro Greatest_equality) auto
    then show ?thesis using True by (subst find_back.simps) auto
  next
    case False
    show ?thesis
    proof (cases i)
      case 0
      then show ?thesis using False by (subst find_back.simps) simp
    next
      case (Suc j)
      have "(k \<le> i \<and> occurs_at v d k) = (k \<le> j \<and> occurs_at v d k)" for k
        using False Suc by (auto simp: le_Suc_eq)
      then show ?thesis using "1.IH" [OF False Suc] False Suc by (subst find_back.simps) simp
    qed
  qed
qed


lemma occurs_at_fits: "v \<noteq> [] \<Longrightarrow> occurs_at v d j \<Longrightarrow> j + length v \<le> length d"
  by (cases v) (auto simp: occurs_at_def dest!: arg_cong [where f = length])

text \<open>
  The last occurrence of a pattern at or before an offset is the one found; the start position the code
  computes loses none.
\<close>

theorem buffer_last_occurrence:
  assumes "v \<noteq> []" "0 \<le> offset"
  shows "Buffer_lastIndexOf d v offset =
    (if \<exists>j \<le> nat offset. occurs_at v d j then int (GREATEST j. j \<le> nat offset \<and> occurs_at v d j) else -1)"
proof -
  let ?o = "if offset \<ge> int (length d) then int (length d) - 1 else offset"
  let ?s = "min ?o (int (length d) - int (length v))"
  have same: "(j \<le> nat offset \<and> occurs_at v d j) = (0 \<le> ?s \<and> j \<le> nat ?s \<and> occurs_at v d j)" for j
    using occurs_at_fits [OF assms(1), of d j] assms by (cases "occurs_at v d j"; cases d; cases v) (auto simp: min_def)
  have "Buffer_lastIndexOf d v offset = (if 0 \<le> ?s then find_back v d (nat ?s) else -1)"
    using assms by (auto simp: Buffer_lastIndexOf_def Let_def neq_Nil_conv)
  then show ?thesis unfolding same find_back_greatest by auto
qed

theorem buffer_last_occurrence_witness:
  "Buffer_lastIndexOf [1, 2, 1, 2] [1, 2] 3 =
    (if \<exists>j \<le> nat 3. occurs_at [1, 2] [1, 2, 1, 2] j then int (GREATEST j. j \<le> nat 3 \<and> occurs_at [1, 2] [1, 2, 1, 2] j) else -1)"
  using buffer_last_occurrence [of "[1, 2]" 3 "[1, 2, 1, 2]"] by simp

text \<open>
  For \<open>indexOf\<close> the search itself is \<open>qmemmem\<close>, of which the code relies on these two facts.
\<close>

lemma index_of_first:
  assumes "v \<noteq> []" "Buffer_indexOf mm d v offset = r"
    and found: "\<And>t k. mm t v = Some k \<Longrightarrow> occurs_at v t k \<and> (\<forall>j < k. \<not> occurs_at v t j)"
    and not_found: "\<And>t j. mm t v = None \<Longrightarrow> \<not> occurs_at v t j"
  shows "(r = -1 \<and> (\<forall>j \<ge> nat (from_end (int (length d)) offset). \<not> occurs_at v d j)) \<or>
    (from_end (int (length d)) offset \<le> r \<and> occurs_at v d (nat r) \<and>
      (\<forall>j. from_end (int (length d)) offset \<le> int j \<longrightarrow> int j < r \<longrightarrow> \<not> occurs_at v d j))"
proof -
  let ?f = "from_end (int (length d)) offset"
  have f: "0 \<le> ?f" by (auto simp: from_end_def)
  have shift: "occurs_at v (drop (nat ?f) d) j = occurs_at v d (nat ?f + j)" for j
    by (simp add: occurs_at_def add.commute)
  show ?thesis
  proof (cases "mm (drop (nat ?f) d) v")
    case None
    have "\<not> occurs_at v d j" if "nat ?f \<le> j" for j
      using not_found [OF None, of "j - nat ?f"] that shift by simp
    moreover have "r = -1" using assms(1,2) None by (simp add: Buffer_indexOf_def Let_def split: if_splits)
    ultimately show ?thesis by blast
  next
    case (Some k)
    from found [OF Some] have k: "occurs_at v d (nat ?f + k)" "\<And>j. j < k \<Longrightarrow> \<not> occurs_at v d (nat ?f + j)"
      using shift by auto
    have lt: "?f < int (length d)" using occurs_at_fits [OF assms(1) k(1)] assms(1) f by (cases v) auto
    have r: "r = ?f + int k" using assms(1,2) Some lt by (simp add: Buffer_indexOf_def Let_def)
    have nr: "nat r = nat ?f + k" using r f by simp
    have "\<not> occurs_at v d j" if "?f \<le> int j" "int j < r" for j
      using k(2) [of "j - nat ?f"] that r f by (simp add: nat_le_iff)
    then show ?thesis using k(1) nr r f by auto
  qed
qed


section \<open>Comparison\<close>

lemma memcmp_zero: "length a = length b \<Longrightarrow> memcmp a b = 0 \<longleftrightarrow> a = b"
  by (induction a b rule: list_induct2) auto

lemma buf_equals_iff: "buf_equals d e \<longleftrightarrow> d = e"
  using memcmp_zero [of d e] by (auto simp: buf_equals_def)

lemma buf_compare_Cons: "buf_compare (a # d) (b # e) = (if a = b then buf_compare d e else if a < b then -1 else 1)"
  by (auto simp: buf_compare_def Let_def)

lemma buf_compare_Nil [simp]: "buf_compare [] e = - int (length e)" "buf_compare d [] = int (length d)"
  by (simp_all add: buf_compare_def)

text \<open>
  \<open>compare\<close> and \<open>equals\<close> agree, and \<open>compare\<close> is the lexicographic order of the bytes as unsigned
  numbers: negative below, positive above.
\<close>

theorem buffer_compare_order:
  "(buf_compare d e = 0) = (d = e) \<and> buf_equals d e = (buf_compare d e = 0) \<and>
    (buf_compare d e < 0) = ((d, e) \<in> lexord {(a, b). a < b}) \<and>
    (buf_compare d e > 0) = ((e, d) \<in> lexord {(a, b). a < b})"
proof -
  have "(buf_compare d e = 0) = (d = e) \<and>
    (buf_compare d e < 0) = ((d, e) \<in> lexord {(a, b). a < b}) \<and>
    (buf_compare d e > 0) = ((e, d) \<in> lexord {(a, b). a < b})"
  proof (induction d arbitrary: e)
    case Nil
    show ?case by (cases e) auto
  next
    case (Cons a d)
    show ?case
    proof (cases e)
      case (Cons b e')
      then show ?thesis using Cons.IH [of e'] by (auto simp: buf_compare_Cons)
    qed auto
  qed
  then show ?thesis by (simp add: buf_equals_iff)
qed

section \<open>Views\<close>

lemma clamp_range_bounds:
  "0 \<le> len \<Longrightarrow> clamp_range len start0 end0 = (s, e) \<Longrightarrow> s < e \<Longrightarrow> 0 \<le> s \<and> e \<le> len"
  by (auto simp: clamp_range_def Let_def split: if_splits)

definition view_ok :: "memory \<Rightarrow> view \<Rightarrow> bool" where
  "view_ok M b \<longleftrightarrow> m_store b < mem_next M \<and> m_offset b + m_length b \<le> length (mem_store M (m_store b))"

lemma length_contents [simp]: "view_ok M b \<Longrightarrow> length (contents M b) = m_length b"
  by (auto simp: view_ok_def contents_def)

definition sub_range :: "int \<Rightarrow> int \<Rightarrow> byte list \<Rightarrow> byte list" where
  "sub_range start0 end0 d =
     (case clamp_range (int (length d)) start0 end0 of (s, e) \<Rightarrow> take (nat (e - s)) (drop (nat s) d))"

lemma sub_range_empty: "clamp_range (int (length d)) start0 end0 = (s, e) \<Longrightarrow> \<not> s < e \<Longrightarrow> sub_range start0 end0 d = []"
  by (simp add: sub_range_def)

text \<open>
  \<open>subarray\<close> and \<open>slice\<close> show the same range of bytes. A later write to the original buffer shows
  through the first at the same positions and never changes the second.
\<close>

theorem buffer_slice_subarray:
  assumes "view_ok M b" "length bs = m_length b"
    and "buf_subarray b start0 end0 M = (v, M1)" "buf_slice b start0 end0 M = (c, M2)"
  shows "contents M1 v = sub_range start0 end0 (contents M b) \<and>
    contents M2 c = sub_range start0 end0 (contents M b) \<and>
    view_ok M1 v \<and> view_ok M2 c \<and> contents M1 b = contents M b \<and> contents M2 b = contents M b \<and>
    contents (write_contents b bs M1) v = sub_range start0 end0 bs \<and>
    contents (write_contents b bs M2) c = contents M2 c"
proof -
  obtain s e where r: "clamp_range (int (m_length b)) start0 end0 = (s, e)" by fastforce
  have l: "length (contents M b) = m_length b" using assms(1) by simp
  have b: "m_store b < mem_next M" "m_offset b + m_length b \<le> length (mem_store M (m_store b))"
    using assms(1) by (auto simp: view_ok_def)
  have fresh: "m_store b \<noteq> mem_next M" using b by simp
  show ?thesis
  proof (cases "s < e")
    case True
    from clamp_range_bounds [OF _ r True] have se: "0 \<le> s" "e \<le> int (m_length b)" by auto
    have v: "v = \<lparr>m_store = m_store b, m_offset = m_offset b + nat s, m_length = nat (e - s)\<rparr>" "M1 = M"
      using assms(3) r True by (auto simp: buf_subarray_def)
    have w: "m_offset b + nat s + nat (e - s) \<le> m_offset b + m_length b" using se True by simp
    have "contents M1 v = sub_range start0 end0 (contents M b)"
      unfolding v sub_range_def l r using se True w
      by (simp add: contents_def drop_take min_def add.commute nat_diff_distrib)
    moreover have "contents (write_contents b bs M1) v = sub_range start0 end0 bs"
      unfolding v sub_range_def assms(2) r using se True w b assms(2)
      by (simp add: contents_def write_contents_def put_at_def drop_append min_def add.commute)
    moreover have "(c, M2) = new_buffer (sub_range start0 end0 (contents M b)) M"
      using assms(4) r True l by (simp add: buf_slice_def sub_range_def)
    ultimately show ?thesis using b fresh w v
      by (auto simp: new_buffer_def contents_def view_ok_def write_contents_def)
  next
    case False
    have "(v, M1) = new_buffer [] M" "(c, M2) = new_buffer [] M"
      using assms(3,4) r False by (simp_all add: buf_subarray_def buf_slice_def)
    moreover have "sub_range start0 end0 (contents M b) = []" "sub_range start0 end0 bs = []"
      using sub_range_empty [of "contents M b" start0 end0 s e] sub_range_empty [of bs start0 end0 s e] l assms(2) r False by auto
    ultimately show ?thesis using b fresh
      by (auto simp: new_buffer_def contents_def view_ok_def write_contents_def)
  qed
qed


theorem buffer_slice_subarray_witness:
  "\<exists>M b v c M1 M2. buf_subarray b 1 (-1) M = (v, M1) \<and> buf_slice b 1 (-1) M = (c, M2) \<and>
    contents M1 v = [8] \<and> contents M2 c = [8] \<and>
    contents (write_contents b [1, 2, 3] M1) v = [2] \<and> contents (write_contents b [1, 2, 3] M2) c = [8]"
proof -
  let ?M = "\<lparr>mem_next = 1, mem_store = \<lambda>_. [7, 8, 9]\<rparr>" and ?b = "\<lparr>m_store = 0, m_offset = 0, m_length = 3\<rparr>"
  obtain v M1 c M2 where r: "buf_subarray ?b 1 (-1) ?M = (v, M1)" "buf_slice ?b 1 (-1) ?M = (c, M2)" by fastforce
  have "view_ok ?M ?b" by (simp add: view_ok_def)
  from buffer_slice_subarray [OF this _ r, of "[1, 2, 3]"] r show ?thesis
    by (intro exI conjI) (auto simp: sub_range_def clamp_range_def contents_def)
qed

section \<open>Numbers\<close>

text \<open>
  C27: a number written by an integer method at a position inside the buffer goes there in the byte order asked
  for, cut to the \<open>n\<close> bytes of the method, on a host of either byte order; the methods that read give it back
  on either kind of host, modulo \<open>2\<close> to the number of bits, the signed ones exactly when it is in their range. The same
  holds of the methods with a byte length from 1 to 6, but for one byte on a big-endian host.
\<close>

theorem number_roundtrip:
  assumes "in_bounds d offset (int n)" "0 < n"
  shows "let d' = put_at (nat offset) (weighted le (le_bytes n x)) d; u = x mod 2 ^ (8 * n); s = signed_of (8 * n) u
    in length d' = length d \<and> (- (2 ^ (8 * n - 1)) \<le> x \<and> x < 2 ^ (8 * n - 1) \<longrightarrow> s = x) \<and>
      write_number be n le x offset d = Inr (offset + int n, d') \<and>
      read_number be' True n le offset d' = Inr s \<and> read_number be' False n le offset d' = Inr u \<and>
      (n \<le> 6 \<and> \<not> (be \<and> n = 1) \<longrightarrow> write_number_48 be le x offset (int n) d = Inr (offset + int n, d')) \<and>
      (n \<le> 6 \<and> \<not> (be' \<and> n = 1) \<longrightarrow> read_number_48 be' le offset (int n) d' = Inr s \<and>
         read_u_number_48 be' le offset (int n) d' = Inr u)"
proof -
  let ?d = "put_at (nat offset) (weighted le (le_bytes n x)) d"
  have "length ?d = length d" using in_bounds_length [OF assms(1)] by simp
  moreover have "signed_of (8 * n) (x mod 2 ^ (8 * n)) = x" if "- (2 ^ (8 * n - 1)) \<le> x \<and> x < 2 ^ (8 * n - 1)"
    by (rule signed_of_mod) (use assms(2) that in auto)
  moreover have "write_number_48 be le x offset (int n) d = Inr (offset + int n, ?d)" if "n \<le> 6 \<and> \<not> (be \<and> n = 1)"
    using write_number_48_value [of d offset "int n" be le x] assms that by (auto simp: host_ok_def)
  moreover have "read_number_48 be' le offset (int n) ?d = Inr (signed_of (8 * n) (x mod 2 ^ (8 * n))) \<and>
      read_u_number_48 be' le offset (int n) ?d = Inr (x mod 2 ^ (8 * n))" if "n \<le> 6 \<and> \<not> (be' \<and> n = 1)"
  proof -
    have "nat (8 * int n) = 8 * n" by simp
    with read_number_48_after_write [of d offset "int n" be' le x] assms that show ?thesis by (auto simp: host_ok_def)
  qed
  ultimately show ?thesis
    using write_number_value [OF assms, of be le x] read_number_after_write [OF assms, of be' _ le x] by (simp add: Let_def)
qed

theorem number_roundtrip_witness:
  "\<exists>d'. write_number False 2 False (-2) 1 [0, 0, 0, 0] = Inr (3, d') \<and> length d' = length [0, 0, 0, 0 :: byte] \<and>
    read_number True True 2 False 1 d' = Inr (-2) \<and> read_number True False 2 False 1 d' = Inr 65534 \<and>
    read_number_48 True False 1 2 d' = Inr (-2)"
  using number_roundtrip [of "[0, 0, 0, 0]" 1 2 False "-2" False True] by (simp add: in_bounds_def Let_def)

text \<open>
  The same of the methods for one to six bytes, whose sign is extended by hand, on every host but a
  big-endian one with a single byte.
\<close>

theorem number_48_roundtrip:
  assumes "in_bounds d offset sz" "1 \<le> sz" "sz \<le> 6" "be \<longrightarrow> sz \<noteq> 1"
    and "- (2 ^ nat (8 * sz - 1)) \<le> x" "x < 2 ^ nat (8 * sz - 1)"
  shows "\<exists>d'. write_number_48 be le x offset sz d = Inr (offset + sz, d') \<and>
    d' = put_at (nat offset) (weighted le (le_bytes (nat sz) x)) d \<and> length d' = length d \<and>
    read_number_48 be le offset sz d' = Inr x \<and>
    read_u_number_48 be le offset sz d' = Inr (x mod 2 ^ nat (8 * sz))"
proof -
  have "in_bounds d offset (int (nat sz))" using assms(1,2) by simp
  then have "length (put_at (nat offset) (weighted le (le_bytes (nat sz) x)) d) = length d"
    using in_bounds_length by simp
  moreover have "host_ok be (nat sz) 8" using assms(2,4) by (auto simp: host_ok_def)
  moreover have "nat (8 * sz) - 1 = nat (8 * sz - 1)" using assms(2) by simp
  then have "signed_of (nat (8 * sz)) (x mod 2 ^ nat (8 * sz)) = x"
    by (intro signed_of_mod) (use assms in auto)
  ultimately show ?thesis
    using write_number_48_value [OF assms(1-3), of be le x] read_number_48_after_write [OF assms(1-3), of be le x] by simp
qed

theorem number_48_roundtrip_witness:
  "\<exists>d'. write_number_48 False True (-5) 0 3 [0, 0, 0, 0] = Inr (0 + 3, d') \<and>
    d' = put_at (nat 0) (weighted True (le_bytes (nat 3) (-5))) [0, 0, 0, 0] \<and> length d' = length [0, 0, 0, 0 :: byte] \<and>
    read_number_48 False True 0 3 d' = Inr (-5) \<and> read_u_number_48 False True 0 3 d' = Inr ((-5) mod 2 ^ nat (8 * 3))"
  using number_48_roundtrip [of "[0, 0, 0, 0]" 0 3 False "-5" True] by (simp add: in_bounds_def)

text \<open>A single byte through the methods with a length is lost on a big-endian host: it is the top byte of the variable.\<close>

lemma one_byte_big_endian: "write_number_48 True True 5 0 1 [0] = Inr (1, [0])"
  by (simp add: write_number_48_def writeNumber_def in_bounds_def memory_of_def le_bytes.simps put_at_def eval_nat_numeral)

end
