(* ===== verification/ByteLength.thy ===== *)
theory ByteLength
  imports UtfProps
begin

text \<open>
  \<open>utf8ByteLength\<close> of \<^verbatim>\<open>src/global/Buffer.cpp\<close>: the number of bytes of a JavaScript string in UTF-8, by
  which \<open>Buffer.byteLength\<close> answers and \<open>Buffer.from\<close> allocates. The source has three implementations of
  every tier, chosen by the processor: SSE2, NEON (AArch64) and plain loops. A register of eight 16-bit
  lanes is the list of its lanes, lane 0 first; the source's index into the string is a natural number
  (strings of V8 have less than $2^{30}$ units, so that the \<open>uint32_t\<close> arithmetic of the bounds does not
  wrap). \<open>simdutf\<close>'s length of one-byte text is the argument \<open>latin1_len\<close>.
\<close>

unbundle bit_operations_syntax

type_synonym vec = "16 word list"

section \<open>Vector operations\<close>

definition splat :: "16 word \<Rightarrow> vec" where
  "splat x = replicate 8 x"

definition load :: "16 word list \<Rightarrow> nat \<Rightarrow> vec" where
  "load p i = take 8 (drop i p)"

definition lanes2 :: "('a \<Rightarrow> 'b \<Rightarrow> 'c) \<Rightarrow> 'a list \<Rightarrow> 'b list \<Rightarrow> 'c list" where
  "lanes2 f a b = map2 f a b"

definition xor128 :: "vec \<Rightarrow> vec \<Rightarrow> vec" where
  "xor128 = lanes2 (\<lambda>x y. x XOR y)"

definition and128 :: "vec \<Rightarrow> vec \<Rightarrow> vec" where
  "and128 = lanes2 (\<lambda>x y. x AND y)"

definition or128 :: "vec \<Rightarrow> vec \<Rightarrow> vec" where
  "or128 = lanes2 (\<lambda>x y. x OR y)"

definition add16 :: "vec \<Rightarrow> vec \<Rightarrow> vec" where
  "add16 = lanes2 (\<lambda>x y. x + y)"

definition sub16 :: "vec \<Rightarrow> vec \<Rightarrow> vec" where
  "sub16 = lanes2 (\<lambda>x y. x - y)"

definition cmpeq16 :: "vec \<Rightarrow> vec \<Rightarrow> vec" where
  "cmpeq16 = lanes2 (\<lambda>x y. if x = y then -1 else 0)"

text \<open>Signed comparison, as SSE2 has it, and unsigned, as NEON has it.\<close>

definition cmpgt16 :: "vec \<Rightarrow> vec \<Rightarrow> vec" where
  "cmpgt16 = lanes2 (\<lambda>x y. if sint y < sint x then -1 else 0)"

definition smax16 :: "vec \<Rightarrow> vec \<Rightarrow> vec" where
  "smax16 = lanes2 (\<lambda>x y. if sint x < sint y then y else x)"

definition smin16 :: "vec \<Rightarrow> vec \<Rightarrow> vec" where
  "smin16 = lanes2 (\<lambda>x y. if sint y < sint x then y else x)"

definition vcge :: "vec \<Rightarrow> vec \<Rightarrow> vec" where
  "vcge = lanes2 (\<lambda>x y. if y \<le> x then -1 else 0)"

definition vmax :: "vec \<Rightarrow> vec \<Rightarrow> vec" where
  "vmax = lanes2 (\<lambda>x y. if x < y then y else x)"

definition vmin :: "vec \<Rightarrow> vec \<Rightarrow> vec" where
  "vmin = lanes2 (\<lambda>x y. if y < x then y else x)"

text \<open>Shifts of the whole register by a number of bytes, and \<open>vextq_u16(a, b, 7)\<close>.\<close>

definition slli128 :: "vec \<Rightarrow> nat \<Rightarrow> vec" where
  "slli128 v bytes = take 8 (replicate (bytes div 2) 0 @ v)"

definition srli128 :: "vec \<Rightarrow> nat \<Rightarrow> vec" where
  "srli128 v bytes = drop (bytes div 2) v @ replicate (bytes div 2) 0"

definition vext7 :: "vec \<Rightarrow> vec \<Rightarrow> vec" where
  "vext7 a b = a ! 7 # take 7 b"

text \<open>The horizontal sums: \<open>madd\<close> joins neighbours into four signed 32-bit lanes; \<open>vaddlv\<close> widens.\<close>

definition madd_ones :: "vec \<Rightarrow> int list" where
  "madd_ones v = map (\<lambda>k. sint (v ! (2 * k)) + sint (v ! (2 * k + 1))) [0, 1, 2, 3]"

definition hsum_sse2 :: "vec \<Rightarrow> int" where
  "hsum_sse2 a =
     (let s = madd_ones a;
          s = [s ! 0 + s ! 2, s ! 1 + s ! 3, s ! 2, s ! 3];
          s = [s ! 0 + s ! 1, s ! 1 + s ! 2, s ! 2 + s ! 3, s ! 3]
      in s ! 0)"

definition hsum_neon :: "vec \<Rightarrow> int" where
  "hsum_neon a = sum_list (map uint a)"

section \<open>Plain loops\<close>

function minmax_tail :: "16 word list \<Rightarrow> nat \<Rightarrow> nat \<Rightarrow> nat \<Rightarrow> nat \<times> nat" where
  "minmax_tail p i maxv minv =
     (if i < length p
      then let c = unat (p ! i)
           in minmax_tail p (i + 1) (if c > maxv then c else maxv) (if c < minv then c else minv)
      else (maxv, minv))"
  by pat_completeness auto
termination by (relation "measure (\<lambda>(p, i, mx, mn). length p - i)") auto

declare minmax_tail.simps [simp del]

function count_tail :: "16 word list \<Rightarrow> nat \<Rightarrow> int \<Rightarrow> int \<Rightarrow> int \<times> int" where
  "count_tail p i c80 c800 =
     (if i < length p
      then let c = unat (p ! i)
           in count_tail p (i + 1) (if c \<ge> 0x80 then c80 + 1 else c80) (if c \<ge> 0x800 then c800 + 1 else c800)
      else (c80, c800))"
  by pat_completeness auto
termination by (relation "measure (\<lambda>(p, i, a, b). length p - i)") auto

declare count_tail.simps [simp del]

definition is_hi :: "16 word \<Rightarrow> bool" where
  "is_hi c = (c AND 0xFC00 = 0xD800)"

definition is_lo :: "16 word \<Rightarrow> bool" where
  "is_lo c = (c AND 0xFC00 = 0xDC00)"

function pairs_tail :: "16 word list \<Rightarrow> nat \<Rightarrow> bool \<Rightarrow> int \<Rightarrow> int \<Rightarrow> int \<Rightarrow> int \<times> int \<times> int" where
  "pairs_tail p k carry_hi c80 c800 pairs =
     (if k < length p
      then let c = unat (p ! k)
           in pairs_tail p (k + 1) (is_hi (p ! k))
                (if c \<ge> 0x80 then c80 + 1 else c80) (if c \<ge> 0x800 then c800 + 1 else c800)
                (if carry_hi \<and> is_lo (p ! k) then pairs + 1 else pairs)
      else (c80, c800, pairs))"
  by pat_completeness auto
termination by (relation "measure (\<lambda>(p, k, h, a, b, d). length p - k)") auto

declare pairs_tail.simps [simp del]

section \<open>SSE2\<close>

definition sign :: vec where
  "sign = splat 0x8000"

function sse2_minmax :: "16 word list \<Rightarrow> nat \<Rightarrow> vec \<Rightarrow> vec \<Rightarrow> nat \<times> vec \<times> vec" where
  "sse2_minmax p i mx mn =
     (if i + 8 \<le> length p
      then let v = xor128 (load p i) sign in sse2_minmax p (i + 8) (smax16 mx v) (smin16 mn v)
      else (i, mx, mn))"
  by pat_completeness auto
termination by (relation "measure (\<lambda>(p, i, mx, mn). length p - i)") auto

declare sse2_minmax.simps [simp del]

definition sse2_hmax :: "vec \<Rightarrow> nat" where
  "sse2_hmax mx =
     (let mx = smax16 mx (srli128 mx 8); mx = smax16 mx (srli128 mx 4); mx = smax16 mx (srli128 mx 2)
      in unat ((mx ! 0) XOR 0x8000))"

definition sse2_hmin :: "vec \<Rightarrow> nat" where
  "sse2_hmin mn =
     (let mn = smin16 mn (srli128 mn 8); mn = smin16 mn (srli128 mn 4); mn = smin16 mn (srli128 mn 2)
      in unat ((mn ! 0) XOR 0x8000))"

definition range_sse2 :: "16 word list \<Rightarrow> nat \<times> nat" where
  "range_sse2 p =
     (case sse2_minmax p 0 (splat (- 32768)) (splat 32767) of
        (i, mx, mn) \<Rightarrow> minmax_tail p i (sse2_hmax mx) (sse2_hmin mn))"

text \<open>The accumulators have 16-bit lanes: they are summed up after every 8192 units.\<close>

definition sse2_reduce :: nat where
  "sse2_reduce = 8192"

function sse2_count_for :: "16 word list \<Rightarrow> nat \<Rightarrow> nat \<Rightarrow> vec \<Rightarrow> vec \<Rightarrow> nat \<times> vec \<times> vec" where
  "sse2_count_for p i end0 acc80 acc800 =
     (if i + 8 \<le> end0
      then let v = load p i;
               ge80 = cmpgt16 (xor128 v sign) (xor128 (splat (0x80 - 1)) sign);
               ge800 = cmpgt16 (xor128 v sign) (xor128 (splat (0x800 - 1)) sign)
           in sse2_count_for p (i + 8) end0 (sub16 acc80 ge80) (sub16 acc800 ge800)
      else (i, acc80, acc800))"
  by pat_completeness auto
termination by (relation "measure (\<lambda>(p, i, e, a, b). e - i)") auto

declare sse2_count_for.simps [simp del]

lemma sse2_count_for_moves: "sse2_count_for p i e a b = (j, x) \<Longrightarrow> i + 8 \<le> e \<Longrightarrow> i < j"
proof -
  have ge: "sse2_count_for p i e a b = (j, x) \<Longrightarrow> i \<le> j" for i a b
    by (induction p i e a b rule: sse2_count_for.induct)
      (subst (asm) (2) sse2_count_for.simps, fastforce simp: Let_def split: if_splits)
  assume "sse2_count_for p i e a b = (j, x)" "i + 8 \<le> e"
  then obtain a' b' where "sse2_count_for p (i + 8) e a' b' = (j, x)"
    by (subst (asm) sse2_count_for.simps) (auto simp: Let_def)
  from ge [OF this] show "i < j" by simp
qed

function sse2_count :: "16 word list \<Rightarrow> nat \<Rightarrow> int \<Rightarrow> int \<Rightarrow> nat \<times> int \<times> int" where
  "sse2_count p i c80 c800 =
     (if i + 8 \<le> length p
      then case sse2_count_for p i (min (i + sse2_reduce) (length p)) (splat 0) (splat 0) of
        (j, acc80, acc800) \<Rightarrow> sse2_count p j (c80 + hsum_sse2 acc80) (c800 + hsum_sse2 acc800)
      else (i, c80, c800))"
  by pat_completeness auto
termination
  by (relation "measure (\<lambda>(p, i, a, b). length p - i)")
    (auto simp: sse2_reduce_def dest!: sym [THEN sse2_count_for_moves] intro!: diff_less_mono2)

declare sse2_count.simps [simp del]


text \<open>
  With surrogates: a pair is counted where a low surrogate follows a lane that is a high one, which for the
  first lane is the last lane of the group before.
\<close>

function sse2_pairs_for ::
    "16 word list \<Rightarrow> nat \<Rightarrow> nat \<Rightarrow> vec \<Rightarrow> vec \<Rightarrow> vec \<Rightarrow> vec \<Rightarrow> nat \<times> vec \<times> vec \<times> vec \<times> vec" where
  "sse2_pairs_for p k end0 acc80 acc800 accPair prevHi =
     (if k + 8 \<le> end0
      then let v = load p k;
               sv = xor128 v sign;
               acc80 = sub16 acc80 (cmpgt16 sv (xor128 (splat (0x80 - 1)) sign));
               acc800 = sub16 acc800 (cmpgt16 sv (xor128 (splat (0x800 - 1)) sign));
               isHi = cmpeq16 (and128 v (splat 0xFC00)) (splat 0xD800);
               isLo = cmpeq16 (and128 v (splat 0xFC00)) (splat 0xDC00);
               hiNext = or128 (slli128 isHi 2) (srli128 prevHi 14)
           in sse2_pairs_for p (k + 8) end0 acc80 acc800 (sub16 accPair (and128 hiNext isLo)) isHi
      else (k, acc80, acc800, accPair, prevHi))"
  by pat_completeness auto
termination by (relation "measure (\<lambda>(p, i, e, x). e - i)") auto

declare sse2_pairs_for.simps [simp del]

lemma sse2_pairs_for_moves: "sse2_pairs_for p i e a b c h = (j, x) \<Longrightarrow> i + 8 \<le> e \<Longrightarrow> i < j"
proof -
  have ge: "sse2_pairs_for p i e a b c h = (j, x) \<Longrightarrow> i \<le> j" for i a b c h
    by (induction p i e a b c h rule: sse2_pairs_for.induct)
      (subst (asm) (2) sse2_pairs_for.simps, fastforce simp: Let_def split: if_splits)
  assume "sse2_pairs_for p i e a b c h = (j, x)" "i + 8 \<le> e"
  then obtain a' b' c' h' where "sse2_pairs_for p (i + 8) e a' b' c' h' = (j, x)"
    by (subst (asm) sse2_pairs_for.simps) (auto simp: Let_def)
  from ge [OF this] show "i < j" by simp
qed

function sse2_pairs :: "16 word list \<Rightarrow> nat \<Rightarrow> vec \<Rightarrow> int \<Rightarrow> int \<Rightarrow> int \<Rightarrow> nat \<times> vec \<times> int \<times> int \<times> int" where
  "sse2_pairs p k prevHi c80 c800 pairs =
     (if k + 8 \<le> length p
      then case sse2_pairs_for p k (min (k + sse2_reduce) (length p)) (splat 0) (splat 0) (splat 0) prevHi of
        (j, acc80, acc800, accPair, prevHi) \<Rightarrow>
          sse2_pairs p j prevHi (c80 + hsum_sse2 acc80) (c800 + hsum_sse2 acc800) (pairs + hsum_sse2 accPair)
      else (k, prevHi, c80, c800, pairs))"
  by pat_completeness auto
termination
  by (relation "measure (\<lambda>(p, i, x). length p - i)")
    (auto simp: sse2_reduce_def dest!: sym [THEN sse2_pairs_for_moves] intro!: diff_less_mono2)

declare sse2_pairs.simps [simp del]

definition mixed_sse2 :: "16 word list \<Rightarrow> int" where
  "mixed_sse2 p =
     (case sse2_count p 0 0 0 of (i, c80, c800) \<Rightarrow>
      case count_tail p i c80 c800 of (c80, c800) \<Rightarrow> int (length p) + c80 + c800)"

definition surrogates_sse2 :: "16 word list \<Rightarrow> int" where
  "surrogates_sse2 p =
     (case sse2_pairs p 0 (splat 0) 0 0 0 of (k, prevHi, c80, c800, pairs) \<Rightarrow>
      case pairs_tail p k ((prevHi ! 7) AND 1 \<noteq> 0) c80 c800 pairs of
        (c80, c800, pairs) \<Rightarrow> int (length p) + c80 + c800 - 2 * pairs)"

section \<open>NEON\<close>

text \<open>Four registers are loaded in every turn, each with accumulators of its own.\<close>

definition load4 :: "16 word list \<Rightarrow> nat \<Rightarrow> vec list" where
  "load4 p i = map (\<lambda>k. load p (i + 8 * k)) [0, 1, 2, 3]"

definition splat4 :: "16 word \<Rightarrow> vec list" where
  "splat4 x = replicate 4 (splat x)"

definition join4 :: "(vec \<Rightarrow> vec \<Rightarrow> vec) \<Rightarrow> vec list \<Rightarrow> vec" where
  "join4 f a = f (f (a ! 0) (a ! 1)) (f (a ! 2) (a ! 3))"

function neon_minmax4 :: "16 word list \<Rightarrow> nat \<Rightarrow> vec list \<Rightarrow> vec list \<Rightarrow> nat \<times> vec list \<times> vec list" where
  "neon_minmax4 p i mx mn =
     (if i + 32 \<le> length p
      then neon_minmax4 p (i + 32) (lanes2 vmax mx (load4 p i)) (lanes2 vmin mn (load4 p i))
      else (i, mx, mn))"
  by pat_completeness auto
termination by (relation "measure (\<lambda>(p, i, x). length p - i)") auto

declare neon_minmax4.simps [simp del]

function neon_minmax :: "16 word list \<Rightarrow> nat \<Rightarrow> vec \<Rightarrow> vec \<Rightarrow> nat \<times> vec \<times> vec" where
  "neon_minmax p i mx mn =
     (if i + 8 \<le> length p
      then neon_minmax p (i + 8) (vmax mx (load p i)) (vmin mn (load p i))
      else (i, mx, mn))"
  by pat_completeness auto
termination by (relation "measure (\<lambda>(p, i, x). length p - i)") auto

declare neon_minmax.simps [simp del]

text \<open>\<open>vmaxvq_u16\<close> and \<open>vminvq_u16\<close>.\<close>

definition vmaxv :: "vec \<Rightarrow> nat" where
  "vmaxv v = fold max (map unat v) 0"

definition vminv :: "vec \<Rightarrow> nat" where
  "vminv v = fold min (map unat v) 0xFFFF"

definition range_neon :: "16 word list \<Rightarrow> nat \<times> nat" where
  "range_neon p =
     (case neon_minmax4 p 0 (splat4 0) (splat4 0xFFFF) of (i, mx, mn) \<Rightarrow>
      case neon_minmax p i (mx ! 0) (mn ! 0) of (i, mx0, mn0) \<Rightarrow>
        minmax_tail p i (vmaxv (join4 vmax (mx[0 := mx0]))) (vminv (join4 vmin (mn[0 := mn0]))))"

definition neon_reduce :: nat where
  "neon_reduce = 16384"

function neon_count_for :: "16 word list \<Rightarrow> nat \<Rightarrow> nat \<Rightarrow> vec list \<Rightarrow> vec list \<Rightarrow> nat \<times> vec list \<times> vec list" where
  "neon_count_for p i end0 a b =
     (if i + 32 \<le> end0
      then let v = load4 p i
           in neon_count_for p (i + 32) end0
                (lanes2 (\<lambda>a v. sub16 a (vcge v (splat 0x80))) a v) (lanes2 (\<lambda>b v. sub16 b (vcge v (splat 0x800))) b v)
      else (i, a, b))"
  by pat_completeness auto
termination by (relation "measure (\<lambda>(p, i, e, x). e - i)") auto

declare neon_count_for.simps [simp del]

lemma neon_count_for_moves: "neon_count_for p i e a b = (j, x) \<Longrightarrow> i + 32 \<le> e \<Longrightarrow> i < j"
proof -
  have ge: "neon_count_for p i e a b = (j, x) \<Longrightarrow> i \<le> j" for i a b
    by (induction p i e a b rule: neon_count_for.induct)
      (subst (asm) (2) neon_count_for.simps, fastforce simp: Let_def split: if_splits)
  assume "neon_count_for p i e a b = (j, x)" "i + 32 \<le> e"
  then obtain a' b' where "neon_count_for p (i + 32) e a' b' = (j, x)"
    by (subst (asm) neon_count_for.simps) (auto simp: Let_def)
  from ge [OF this] show "i < j" by simp
qed

function neon_count :: "16 word list \<Rightarrow> nat \<Rightarrow> int \<Rightarrow> int \<Rightarrow> nat \<times> int \<times> int" where
  "neon_count p i c80 c800 =
     (if i + 32 \<le> length p
      then case neon_count_for p i (min (i + neon_reduce) (length p)) (splat4 0) (splat4 0) of
        (j, a, b) \<Rightarrow> neon_count p j (c80 + hsum_neon (join4 add16 a)) (c800 + hsum_neon (join4 add16 b))
      else (i, c80, c800))"
  by pat_completeness auto
termination
  by (relation "measure (\<lambda>(p, i, x). length p - i)")
    (auto simp: neon_reduce_def dest!: sym [THEN neon_count_for_moves] intro!: diff_less_mono2)

declare neon_count.simps [simp del]

function neon_count1 :: "16 word list \<Rightarrow> nat \<Rightarrow> vec \<Rightarrow> vec \<Rightarrow> nat \<times> vec \<times> vec" where
  "neon_count1 p i a b =
     (if i + 8 \<le> length p
      then neon_count1 p (i + 8) (sub16 a (vcge (load p i) (splat 0x80))) (sub16 b (vcge (load p i) (splat 0x800)))
      else (i, a, b))"
  by pat_completeness auto
termination by (relation "measure (\<lambda>(p, i, x). length p - i)") auto

declare neon_count1.simps [simp del]

definition mixed_neon :: "16 word list \<Rightarrow> int" where
  "mixed_neon p =
     (case neon_count p 0 0 0 of (i, c80, c800) \<Rightarrow>
      case neon_count1 p i (splat 0) (splat 0) of (i, a, b) \<Rightarrow>
      case count_tail p i (c80 + hsum_neon a) (c800 + hsum_neon b) of
        (c80, c800) \<Rightarrow> int (length p) + c80 + c800)"


text \<open>The high surrogates of one register mark the first lane of the next.\<close>

fun neon_pair_step :: "vec \<Rightarrow> vec list \<Rightarrow> vec list \<Rightarrow> vec \<times> vec list" where
  "neon_pair_step prevHi (v # vs) (d # ds) =
     (let k = and128 v (splat 0xFC00);
          h = cmpeq16 k (splat 0xD800);
          d = sub16 d (and128 (vext7 prevHi h) (cmpeq16 k (splat 0xDC00)))
      in case neon_pair_step h vs ds of (prevHi, ds) \<Rightarrow> (prevHi, d # ds))"
| "neon_pair_step prevHi vs ds = (prevHi, ds)"

function neon_pairs_for ::
    "16 word list \<Rightarrow> nat \<Rightarrow> nat \<Rightarrow> vec list \<Rightarrow> vec list \<Rightarrow> vec list \<Rightarrow> vec \<Rightarrow> nat \<times> vec list \<times> vec list \<times> vec list \<times> vec" where
  "neon_pairs_for p k end0 a b d prevHi =
     (if k + 32 \<le> end0
      then let v = load4 p k;
               a = lanes2 (\<lambda>a v. sub16 a (vcge v (splat 0x80))) a v;
               b = lanes2 (\<lambda>b v. sub16 b (vcge v (splat 0x800))) b v
           in case neon_pair_step prevHi v d of (prevHi, d) \<Rightarrow> neon_pairs_for p (k + 32) end0 a b d prevHi
      else (k, a, b, d, prevHi))"
  by pat_completeness auto
termination by (relation "measure (\<lambda>(p, k, e, x). e - k)") auto

declare neon_pairs_for.simps [simp del]

lemma neon_pairs_for_moves: "neon_pairs_for p k e a b d h = (j, x) \<Longrightarrow> k + 32 \<le> e \<Longrightarrow> k < j"
proof -
  have ge: "neon_pairs_for p k e a b d h = (j, x) \<Longrightarrow> k \<le> j" for k a b d h
    by (induction p k e a b d h rule: neon_pairs_for.induct)
      (subst (asm) (2) neon_pairs_for.simps, fastforce simp: Let_def split: if_splits prod.splits)
  assume "neon_pairs_for p k e a b d h = (j, x)" "k + 32 \<le> e"
  then obtain a' b' d' h' where "neon_pairs_for p (k + 32) e a' b' d' h' = (j, x)"
    by (subst (asm) neon_pairs_for.simps) (auto simp: Let_def split: prod.splits)
  from ge [OF this] show "k < j" by simp
qed

function neon_pairs :: "16 word list \<Rightarrow> nat \<Rightarrow> vec \<Rightarrow> int \<Rightarrow> int \<Rightarrow> int \<Rightarrow> nat \<times> vec \<times> int \<times> int \<times> int" where
  "neon_pairs p k prevHi c80 c800 pairs =
     (if k + 32 \<le> length p
      then case neon_pairs_for p k (min (k + neon_reduce) (length p)) (splat4 0) (splat4 0) (splat4 0) prevHi of
        (j, a, b, d, prevHi) \<Rightarrow>
          neon_pairs p j prevHi (c80 + hsum_neon (join4 add16 a)) (c800 + hsum_neon (join4 add16 b))
            (pairs + hsum_neon (join4 add16 d))
      else (k, prevHi, c80, c800, pairs))"
  by pat_completeness auto
termination
  by (relation "measure (\<lambda>(p, i, x). length p - i)")
    (auto simp: neon_reduce_def dest!: sym [THEN neon_pairs_for_moves] intro!: diff_less_mono2)

declare neon_pairs.simps [simp del]

function neon_pairs1 :: "16 word list \<Rightarrow> nat \<Rightarrow> vec \<Rightarrow> vec \<Rightarrow> vec \<Rightarrow> vec \<Rightarrow> nat \<times> vec \<times> vec \<times> vec \<times> vec" where
  "neon_pairs1 p k a b d prevHi =
     (if k + 8 \<le> length p
      then let v = load p k;
               a = sub16 a (vcge v (splat 0x80));
               b = sub16 b (vcge v (splat 0x800));
               kk = and128 v (splat 0xFC00);
               h = cmpeq16 kk (splat 0xD800);
               d = sub16 d (and128 (vext7 prevHi h) (cmpeq16 kk (splat 0xDC00)))
           in neon_pairs1 p (k + 8) a b d h
      else (k, a, b, d, prevHi))"
  by pat_completeness auto
termination by (relation "measure (\<lambda>(p, k, x). length p - k)") auto

declare neon_pairs1.simps [simp del]

text \<open>\<open>neon_count_pairs\<close>, for a text with nothing below 0x800.\<close>

function only_pairs_for :: "16 word list \<Rightarrow> nat \<Rightarrow> nat \<Rightarrow> vec list \<Rightarrow> vec \<Rightarrow> nat \<times> vec list \<times> vec" where
  "only_pairs_for p k end0 d prevHi =
     (if k + 32 \<le> end0
      then case neon_pair_step prevHi (load4 p k) d of (prevHi, d) \<Rightarrow> only_pairs_for p (k + 32) end0 d prevHi
      else (k, d, prevHi))"
  by pat_completeness auto
termination by (relation "measure (\<lambda>(p, k, e, x). e - k)") auto

declare only_pairs_for.simps [simp del]

lemma only_pairs_for_moves: "only_pairs_for p k e d h = (j, x) \<Longrightarrow> k + 32 \<le> e \<Longrightarrow> k < j"
proof -
  have ge: "only_pairs_for p k e d h = (j, x) \<Longrightarrow> k \<le> j" for k d h
    by (induction p k e d h rule: only_pairs_for.induct)
      (subst (asm) (2) only_pairs_for.simps, fastforce split: if_splits prod.splits)
  assume "only_pairs_for p k e d h = (j, x)" "k + 32 \<le> e"
  then obtain d' h' where "only_pairs_for p (k + 32) e d' h' = (j, x)"
    by (subst (asm) only_pairs_for.simps) (auto split: prod.splits)
  from ge [OF this] show "k < j" by simp
qed

function only_pairs :: "16 word list \<Rightarrow> nat \<Rightarrow> vec \<Rightarrow> int \<Rightarrow> nat \<times> vec \<times> int" where
  "only_pairs p k prevHi pairs =
     (if k + 32 \<le> length p
      then case only_pairs_for p k (min (k + neon_reduce) (length p)) (splat4 0) prevHi of
        (j, d, prevHi) \<Rightarrow> only_pairs p j prevHi (pairs + hsum_neon (join4 add16 d))
      else (k, prevHi, pairs))"
  by pat_completeness auto
termination
  by (relation "measure (\<lambda>(p, i, x). length p - i)")
    (auto simp: neon_reduce_def dest!: sym [THEN only_pairs_for_moves] intro!: diff_less_mono2)

declare only_pairs.simps [simp del]

function only_pairs1 :: "16 word list \<Rightarrow> nat \<Rightarrow> vec \<Rightarrow> int \<Rightarrow> nat \<times> vec \<times> int" where
  "only_pairs1 p k prevHi pairs =
     (if k + 8 \<le> length p
      then let kk = and128 (load p k) (splat 0xFC00);
               h = cmpeq16 kk (splat 0xD800)
           in only_pairs1 p (k + 8) h
                (pairs + hsum_neon (sub16 (splat 0) (and128 (vext7 prevHi h) (cmpeq16 kk (splat 0xDC00)))))
      else (k, prevHi, pairs))"
  by pat_completeness auto
termination by (relation "measure (\<lambda>(p, k, x). length p - k)") auto

declare only_pairs1.simps [simp del]

definition neon_count_pairs :: "16 word list \<Rightarrow> int" where
  "neon_count_pairs p =
     (case only_pairs p 0 (splat 0) 0 of (k, prevHi, pairs) \<Rightarrow>
      case only_pairs1 p k prevHi pairs of (k, prevHi, pairs) \<Rightarrow>
      case pairs_tail p k ((prevHi ! 7) AND 1 \<noteq> 0) 0 0 pairs of (_, _, pairs) \<Rightarrow> pairs)"

definition surrogates_neon :: "16 word list \<Rightarrow> nat \<Rightarrow> int" where
  "surrogates_neon p minv =
     (if minv \<ge> 0x800 then int (length p) * 3 - 2 * neon_count_pairs p
      else case neon_pairs p 0 (splat 0) 0 0 0 of (k, prevHi, c80, c800, pairs) \<Rightarrow>
        case neon_pairs1 p k (splat 0) (splat 0) (splat 0) prevHi of (k, a, b, d, prevHi) \<Rightarrow>
        case pairs_tail p k ((prevHi ! 7) AND 1 \<noteq> 0) (c80 + hsum_neon a) (c800 + hsum_neon b) (pairs + hsum_neon d) of
          (c80, c800, pairs) \<Rightarrow> int (length p) + c80 + c800 - 2 * pairs)"

text \<open>
  One-byte text on NEON: registers of sixteen bytes, and \<open>vpadalq_u8\<close> adds neighbouring bytes to a 16-bit
  lane.
\<close>

definition load_bytes :: "byte list \<Rightarrow> nat \<Rightarrow> byte list" where
  "load_bytes p i = take 16 (drop i p)"

definition ge80_bytes :: "byte list \<Rightarrow> byte list" where
  "ge80_bytes v = map (\<lambda>c. (if 0x80 \<le> c then -1 else 0) AND 1) v"

definition vpadal :: "vec \<Rightarrow> byte list \<Rightarrow> vec" where
  "vpadal a v = map (\<lambda>k. a ! k + (ucast (v ! (2 * k)) + ucast (v ! (2 * k + 1)))) [0..<8]"

function latin1_for :: "byte list \<Rightarrow> nat \<Rightarrow> nat \<Rightarrow> vec list \<Rightarrow> nat \<times> vec list" where
  "latin1_for p i end0 a =
     (if i + 64 \<le> end0
      then latin1_for p (i + 64) end0
        (lanes2 (\<lambda>a v. vpadal a (ge80_bytes v)) a (map (\<lambda>k. load_bytes p (i + 16 * k)) [0, 1, 2, 3]))
      else (i, a))"
  by pat_completeness auto
termination by (relation "measure (\<lambda>(p, i, e, x). e - i)") auto

declare latin1_for.simps [simp del]

lemma latin1_for_moves: "latin1_for p i e a = (j, x) \<Longrightarrow> i + 64 \<le> e \<Longrightarrow> i < j"
proof -
  have ge: "latin1_for p i e a = (j, x) \<Longrightarrow> i \<le> j" for i a
    by (induction p i e a rule: latin1_for.induct)
      (subst (asm) (2) latin1_for.simps, fastforce split: if_splits)
  assume "latin1_for p i e a = (j, x)" "i + 64 \<le> e"
  then obtain a' where "latin1_for p (i + 64) e a' = (j, x)"
    by (subst (asm) latin1_for.simps) auto
  from ge [OF this] show "i < j" by simp
qed

function latin1_count :: "byte list \<Rightarrow> nat \<Rightarrow> int \<Rightarrow> nat \<times> int" where
  "latin1_count p i cnt =
     (if i + 64 \<le> length p
      then case latin1_for p i (min (i + 4096) (length p)) (splat4 0) of
        (j, a) \<Rightarrow> latin1_count p j (cnt + hsum_neon (join4 add16 a))
      else (i, cnt))"
  by pat_completeness auto
termination
  by (relation "measure (\<lambda>(p, i, x). length p - i)")
    (auto dest!: sym [THEN latin1_for_moves] intro!: diff_less_mono2)

declare latin1_count.simps [simp del]

function latin1_count1 :: "byte list \<Rightarrow> nat \<Rightarrow> vec \<Rightarrow> nat \<times> vec" where
  "latin1_count1 p i a =
     (if i + 16 \<le> length p then latin1_count1 p (i + 16) (vpadal a (ge80_bytes (load_bytes p i))) else (i, a))"
  by pat_completeness auto
termination by (relation "measure (\<lambda>(p, i, x). length p - i)") auto

declare latin1_count1.simps [simp del]

function latin1_tail :: "byte list \<Rightarrow> nat \<Rightarrow> int \<Rightarrow> int" where
  "latin1_tail p i cnt = (if i < length p then latin1_tail p (i + 1) (if 0x80 \<le> p ! i then cnt + 1 else cnt) else cnt)"
  by pat_completeness auto
termination by (relation "measure (\<lambda>(p, i, x). length p - i)") auto

declare latin1_tail.simps [simp del]

definition latin1ByteLength :: "byte list \<Rightarrow> int" where
  "latin1ByteLength p =
     (case latin1_count p 0 0 of (i, cnt) \<Rightarrow>
      case latin1_count1 p i (splat 0) of (i, a0) \<Rightarrow>
        int (length p) + latin1_tail p i (cnt + hsum_neon a0))"

section \<open>The three tiers\<close>

datatype arch = SSE2 | NEON | Plain

datatype string_view = OneByte "byte list" | TwoByte "16 word list"

definition utf8ByteLength :: "arch \<Rightarrow> (byte list \<Rightarrow> nat) \<Rightarrow> string_view \<Rightarrow> int" where
  "utf8ByteLength arch latin1_len str =
     (case str of
        OneByte p \<Rightarrow> if length p = 0 then 0 else if arch = NEON then latin1ByteLength p else int (latin1_len p)
      | TwoByte p \<Rightarrow>
          if length p = 0 then 0
          else case (case arch of SSE2 \<Rightarrow> range_sse2 p | NEON \<Rightarrow> range_neon p | Plain \<Rightarrow> minmax_tail p 0 0 0xFFFF) of
            (maxv, minv) \<Rightarrow>
              if maxv < 0x80 then int (length p)
              else if minv \<ge> 0x800 \<and> maxv < 0xD800 then int (length p) * 3
              else if minv \<ge> 0x80 \<and> maxv < 0x800 then int (length p) * 2
              else if maxv < 0xD800 then
                (case arch of
                   SSE2 \<Rightarrow> mixed_sse2 p
                 | NEON \<Rightarrow> mixed_neon p
                 | Plain \<Rightarrow> (case count_tail p 0 0 0 of (c80, c800) \<Rightarrow> int (length p) + c80 + c800))
              else
                (case arch of
                   SSE2 \<Rightarrow> surrogates_sse2 p
                 | NEON \<Rightarrow> surrogates_neon p minv
                 | Plain \<Rightarrow> (case pairs_tail p 0 False 0 0 0 of
                     (c80, c800, pairs) \<Rightarrow> int (length p) + c80 + c800 - 2 * pairs)))"


section \<open>Codecs by name\<close>

definition is_native_codec :: "string \<Rightarrow> bool" where
  "is_native_codec codec \<longleftrightarrow> codec \<in> {''hex'', ''base32'', ''base58'', ''base64'', ''base64url'', ''utf8'', ''utf-8'',
     ''ucs2'', ''ucs-2'', ''utf16'', ''utf-16'', ''ucs2le'', ''ucs-2le'', ''utf16le'', ''utf-16le'',
     ''ucs2be'', ''ucs-2be'', ''utf16be'', ''utf-16be'', ''ucs4'', ''ucs-4'', ''utf32'', ''utf-32'',
     ''ucs4le'', ''ucs-4le'', ''utf32le'', ''utf-32le'', ''ucs4be'', ''ucs-4be'', ''utf32be'', ''utf-32be'',
     ''binary'', ''latin1''}"

text \<open>\<open>safe_buffer\<close> is the setting of the isolate, absent where there is no isolate; \<open>is_encoding\<close> is that of \<open>encoding_conv\<close>.\<close>

definition static_is_safe_codec :: "bool option \<Rightarrow> string \<Rightarrow> bool" where
  "static_is_safe_codec safe_buffer codec \<longleftrightarrow> safe_buffer = Some False \<or> is_native_codec codec"

definition isEncoding :: "bool option \<Rightarrow> (string \<Rightarrow> bool) \<Rightarrow> string \<Rightarrow> bool" where
  "isEncoding safe_buffer is_encoding codec =
     (if \<not> static_is_safe_codec safe_buffer codec then False
      else if codec \<in> {''utf8'', ''utf-8'', ''hex'', ''base32'', ''base58'', ''base64'', ''base64url''} then True
      else is_encoding codec)"

definition view_length :: "string_view \<Rightarrow> nat" where
  "view_length v = (case v of OneByte p \<Rightarrow> length p | TwoByte p \<Rightarrow> length p)"

text \<open>
  \<open>Buffer.byteLength\<close> of a string, \<open>None\<close> for the codec left out; \<open>decoded_len\<close> is the length \<open>commonDecode\<close>
  gives for the text, or its error.
\<close>

definition class_byteLength ::
    "arch \<Rightarrow> (byte list \<Rightarrow> nat) \<Rightarrow> (string \<Rightarrow> bool) \<Rightarrow> (string_view \<Rightarrow> int) \<Rightarrow> (string \<Rightarrow> string_view \<Rightarrow> 'e + int) \<Rightarrow>
      string_view \<Rightarrow> string option \<Rightarrow> 'e + int" where
  "class_byteLength arch latin1_len is_encoding base58_len decoded_len data codec =
     (case codec of
        None \<Rightarrow> Inr (utf8ByteLength arch latin1_len data)
      | Some c \<Rightarrow>
          if c = ''ascii'' \<or> c = ''buffer'' then Inr (int (view_length data))
          else if c = ''hex'' then Inr (int (view_length data div 2))
          else if c = ''utf8'' \<or> c = ''utf-8'' then Inr (utf8ByteLength arch latin1_len data)
          else if c \<in> {''ucs2'', ''ucs-2'', ''utf16'', ''utf-16'', ''utf16le'', ''utf-16le'', ''utf16be'', ''utf-16be''}
          then Inr (int (view_length data) * 2)
          else if \<not> is_native_codec c \<and> \<not> is_encoding c then Inr (utf8ByteLength arch latin1_len data)
          else if c = ''base58'' then Inr (base58_len data)
          else decoded_len c data)"

end
