(* ===== verification/ByteLengthProps.thy ===== *)
theory ByteLengthProps
  imports ByteLength
begin

text \<open>
  The three implementations of \<open>utf8ByteLength\<close> (see \<^verbatim>\<open>ByteLength\<close>) count the same thing: the units
  from 0x80 on, those from 0x800 on and the surrogate pairs, and this count is the length of what the
  conversion to UTF-8 writes.
\<close>

section \<open>Lanes\<close>

definition mask16 :: "bool list \<Rightarrow> vec" where
  "mask16 bs = map (\<lambda>b. if b then -1 else 0) bs"

definition trues :: "bool list \<Rightarrow> nat" where
  "trues bs = length (filter id bs)"

definition wide :: "nat \<Rightarrow> vec \<Rightarrow> bool" where
  "wide m a \<longleftrightarrow> length a = 8 \<and> (\<forall>x \<in> set a. unat x \<le> m)"

definition total :: "vec \<Rightarrow> nat" where
  "total a = sum_list (map unat a)"

lemma length_mask16 [simp]: "length (mask16 bs) = length bs"
  by (simp add: mask16_def)

lemma trues_simps [simp]: "trues [] = 0" "trues (b # bs) = (if b then Suc (trues bs) else trues bs)"
  "trues (bs @ cs) = trues bs + trues cs"
  by (simp_all add: trues_def)

lemma list8: "length v = 8 \<longleftrightarrow> (\<exists>a b c d e f g h. v = [a, b, c, d, e, f, g, h])"
  by (auto simp: eval_nat_numeral length_Suc_conv)

lemma lanes2_map [simp]: "lanes2 f (map g v) (map h v) = map (\<lambda>x. f (g x) (h x)) v"
  by (induction v) (simp_all add: lanes2_def)

lemma lanes2_splat [simp]: "length v = 8 \<Longrightarrow> lanes2 f v (splat x) = map (\<lambda>y. f y x) v"
  by (simp add: lanes2_def splat_def zip_replicate2)

lemma length_lanes2 [simp]: "length (lanes2 f a b) = min (length a) (length b)"
  by (simp add: lanes2_def)

lemma length_load [simp]: "i + 8 \<le> length p \<Longrightarrow> length (load p i) = 8"
  by (simp add: load_def)

text \<open>Flipping the top bit maps the unsigned order to the signed one.\<close>

lemma flip_is_add: "x XOR 0x8000 = x + (0x8000 :: 16 word)"
proof -
  have low: "\<not> bit y 15 \<Longrightarrow> y XOR 0x8000 = y + (0x8000 :: 16 word)" for y
    using and_exp_eq_0_iff_not_bit [of y 15] disjunctive_add_eq_xor [of y "0x8000"] by simp
  show ?thesis
  proof (cases "bit x 15")
    case True
    have "bit (0x8000 :: 16 word) 15" by simp
    with True have "\<not> bit (x XOR 0x8000) 15" by (simp add: bit_xor_iff)
    from low [OF this] have "x = (x XOR 0x8000) + 0x8000" by (simp add: xor.assoc)
    moreover have "x = y + 0x8000 \<Longrightarrow> y = x + 0x8000" for y :: "16 word" by (simp add: add.assoc)
    ultimately show ?thesis by blast
  qed (rule low)
qed

lemma sint_flip: "sint (x XOR 0x8000 :: 16 word) = uint x - 32768"
proof -
  have n: "0 \<le> uint x" "uint x < 65536" using unsigned_less [of x, where 'a = int] by simp_all
  have s: "sint y = (uint y + 32768) mod 65536 - 32768" for y :: "16 word"
    by (simp add: sint_uint signed_take_bit_eq_take_bit_shift take_bit_eq_mod)
  have "uint (x + 0x8000) = (uint x + 32768) mod 65536" by (simp add: uint_word_ariths)
  then have "sint (x XOR 0x8000) = (uint x + 65536) mod 65536 - 32768"
    unfolding s flip_is_add by (simp add: mod_add_left_eq)
  also have "\<dots> = uint x - 32768" using n by simp
  finally show ?thesis .
qed

lemma wide_splat0 [simp]: "wide m (splat 0)" "total (splat 0) = 0" "length (splat x) = 8"
  by (simp_all add: wide_def total_def splat_def sum_list_replicate)

lemma lane_minus:
  assumes "unat x < 65535"
  shows "unat (x - (-1) :: 16 word) = Suc (unat x)"
proof -
  have "unat (-1 :: 16 word) = 65535" by (simp add: unsigned_minus_1_eq_mask mask_eq_exp_minus_1)
  then have "x \<noteq> -1" using assms by auto
  then show ?thesis using unat_add_lem [of x 1] assms by simp
qed

lemma sub_mask:
  assumes "wide m a" "length bs = 8" "m < 65535"
  shows "wide (Suc m) (sub16 a (mask16 bs))" "total (sub16 a (mask16 bs)) = total a + trues bs"
proof -
  have "length a = length bs" using assms by (simp add: wide_def)
  then have "(\<forall>x\<in>set a. unat x \<le> m) \<longrightarrow> (\<forall>x\<in>set (sub16 a (mask16 bs)). unat x \<le> Suc m) \<and>
    total (sub16 a (mask16 bs)) = total a + trues bs"
    using assms(3)
    by (induction a bs rule: list_induct2) (auto simp: sub16_def lanes2_def mask16_def total_def lane_minus [simplified])
  then show "wide (Suc m) (sub16 a (mask16 bs))" "total (sub16 a (mask16 bs)) = total a + trues bs"
    using assms by (auto simp: wide_def sub16_def)
qed


section \<open>Masks\<close>

definition ge :: "nat \<Rightarrow> 16 word \<Rightarrow> bool" where
  "ge t c \<longleftrightarrow> t \<le> unat c"

lemma cmpgt_mask:
  "length v = 8 \<Longrightarrow> cmpgt16 (xor128 v sign) (xor128 (splat (0x80 - 1)) sign) = mask16 (map (ge 0x80) v)"
  "length v = 8 \<Longrightarrow> cmpgt16 (xor128 v sign) (xor128 (splat (0x800 - 1)) sign) = mask16 (map (ge 0x800) v)"
proof -
  have x: "xor128 v sign = map (\<lambda>c. c XOR 0x8000) v" if "length v = 8" for v
    using that by (simp add: xor128_def sign_def)
  have s: "xor128 (splat y) sign = splat (y XOR 0x8000)" for y
    using x [of "splat y"] by (simp add: splat_def)
  have c: "(127 < uint c) = (128 \<le> unat c)" "(2047 < uint c) = (2048 \<le> unat c)" for c :: "16 word"
    using nat_uint_eq [of c] by linarith+
  show "length v = 8 \<Longrightarrow> cmpgt16 (xor128 v sign) (xor128 (splat (0x80 - 1)) sign) = mask16 (map (ge 0x80) v)"
    "length v = 8 \<Longrightarrow> cmpgt16 (xor128 v sign) (xor128 (splat (0x800 - 1)) sign) = mask16 (map (ge 0x800) v)"
    unfolding s by (simp_all add: x cmpgt16_def sint_flip mask16_def c ge_def)
qed

lemma vcge_mask:
  "length v = 8 \<Longrightarrow> vcge v (splat 0x80) = mask16 (map (ge 0x80) v)"
  "length v = 8 \<Longrightarrow> vcge v (splat 0x800) = mask16 (map (ge 0x800) v)"
  by (auto simp: vcge_def mask16_def ge_def word_le_nat_alt)

lemma cmpeq_mask:
  "length v = 8 \<Longrightarrow> cmpeq16 (and128 v (splat 0xFC00)) (splat 0xD800) = mask16 (map is_hi v)"
  "length v = 8 \<Longrightarrow> cmpeq16 (and128 v (splat 0xFC00)) (splat 0xDC00) = mask16 (map is_lo v)"
  by (auto simp: cmpeq16_def and128_def mask16_def is_hi_def is_lo_def)

lemma and_mask: "and128 (mask16 xs) (mask16 ys) = mask16 (map2 (\<and>) xs ys)"
  by (induction xs ys rule: list_induct2') (auto simp: and128_def lanes2_def mask16_def)

lemma replicate7: "replicate 7 x = [x, x, x, x, x, x, x]"
  by (simp add: eval_nat_numeral)

lemma shift_mask:
  assumes "length hs = 8" "length prev = 8"
  shows "or128 (slli128 (mask16 hs) 2) (srli128 (mask16 prev) 14) = mask16 (prev ! 7 # take 7 hs)"
    and "vext7 (mask16 prev) (mask16 hs) = mask16 (prev ! 7 # take 7 hs)"
proof -
  obtain a b c d e f g h a' b' c' d' e' f' g' h'
    where hs: "hs = [a, b, c, d, e, f, g, h]" and prev: "prev = [a', b', c', d', e', f', g', h']"
    using assms by (auto simp only: list8)
  show "or128 (slli128 (mask16 hs) 2) (srli128 (mask16 prev) 14) = mask16 (prev ! 7 # take 7 hs)"
    "vext7 (mask16 prev) (mask16 hs) = mask16 (prev ! 7 # take 7 hs)"
    unfolding hs prev
    by (simp_all add: or128_def slli128_def srli128_def vext7_def lanes2_def mask16_def replicate7 split del: if_split)
qed

section \<open>Counting\<close>

fun marks :: "bool \<Rightarrow> 16 word list \<Rightarrow> bool list" where
  "marks h [] = []"
| "marks h (c # cs) = (h \<and> is_lo c) # marks (is_hi c) cs"

definition count_ge :: "nat \<Rightarrow> 16 word list \<Rightarrow> nat" where
  "count_ge t q = trues (map (ge t) q)"

definition pairs_in :: "bool \<Rightarrow> 16 word list \<Rightarrow> nat" where
  "pairs_in h q = trues (marks h q)"

definition hi_after :: "bool \<Rightarrow> 16 word list \<Rightarrow> bool" where
  "hi_after h q = (if q = [] then h else is_hi (last q))"

lemma marks_append: "marks h (xs @ ys) = marks h xs @ marks (hi_after h xs) ys"
  by (induction xs arbitrary: h) (auto simp: hi_after_def)

lemma pairs_in_append: "pairs_in h (xs @ ys) = pairs_in h xs + pairs_in (hi_after h xs) ys"
  by (simp add: pairs_in_def marks_append)

lemma hi_after_append: "hi_after h (xs @ ys) = hi_after (hi_after h xs) ys"
  by (simp add: hi_after_def)

lemma count_ge_append [simp]: "count_ge t (xs @ ys) = count_ge t xs + count_ge t ys"
  by (simp add: count_ge_def)

lemma empty_counts [simp]: "count_ge t [] = 0" "pairs_in h [] = 0" "hi_after h [] = h"
  by (simp_all add: count_ge_def pairs_in_def hi_after_def)

lemma marks_vec: "map2 (\<and>) (h # map is_hi (butlast v)) (map is_lo v) = marks h v"
proof (induction v arbitrary: h)
  case (Cons c v)
  then show ?case by (cases v) simp_all
qed simp

lemma length_marks [simp]: "length (marks h q) = length q"
  by (induction q arbitrary: h) simp_all

lemma pair_mask:
  assumes "length v = 8"
  shows "and128 (mask16 (h # take 7 (map is_hi v))) (mask16 (map is_lo v)) = mask16 (marks h v)"
proof -
  have "take 7 (map is_hi v) = map is_hi (butlast v)" using assms by (simp add: butlast_conv_take take_map)
  then show ?thesis by (simp only: and_mask marks_vec)
qed


section \<open>The counting loops\<close>

definition seg :: "'a list \<Rightarrow> nat \<Rightarrow> nat \<Rightarrow> 'a list" where
  "seg p i j = take (j - i) (drop i p)"

lemma seg_same [simp]: "seg p i i = []"
  by (simp add: seg_def)

lemma load_seg: "load p i = seg p i (i + 8)"
  by (simp add: load_def seg_def)

lemma seg_append: "i \<le> j \<Longrightarrow> j \<le> k \<Longrightarrow> seg p i k = seg p i j @ seg p j k"
  using take_add [of "j - i" "k - j" "drop i p"] by (simp add: seg_def)

lemma drop_seg: "i \<le> j \<Longrightarrow> drop i p = seg p i j @ drop j p"
  unfolding seg_def by (metis append_take_drop_id drop_drop le_add_diff_inverse2)

lemma length_seg [simp]: "j \<le> length p \<Longrightarrow> length (seg p i j) = j - i"
  by (simp add: seg_def)

definition hi_mask :: "bool \<Rightarrow> vec \<Rightarrow> bool" where
  "hi_mask h v \<longleftrightarrow> (\<exists>hs. length hs = 8 \<and> v = mask16 hs \<and> hs ! 7 = h)"

lemma hi_mask_zero: "hi_mask False (splat 0)"
  unfolding hi_mask_def by (rule exI [of _ "replicate 8 False"]) (simp add: mask16_def splat_def)

lemma hi_mask_vec:
  assumes "length v = 8"
  shows "hi_mask (hi_after h v) (mask16 (map is_hi v))"
proof -
  have ne: "v \<noteq> []" using assms by auto
  then have "last v = v ! 7" using assms by (simp add: last_conv_nth)
  then show ?thesis unfolding hi_mask_def hi_after_def using assms ne
    by (intro exI [of _ "map is_hi v"]) simp
qed

lemma hi_mask_lane: "hi_mask h v \<Longrightarrow> ((v ! 7) AND 1 \<noteq> 0) = h"
  by (auto simp: hi_mask_def mask16_def)

lemma pair_steps:
  assumes "length v = 8" "hi_mask h prev"
  shows "and128 (or128 (slli128 (mask16 (map is_hi v)) 2) (srli128 prev 14)) (mask16 (map is_lo v)) = mask16 (marks h v)"
    and "and128 (vext7 prev (mask16 (map is_hi v))) (mask16 (map is_lo v)) = mask16 (marks h v)"
  using assms pair_mask [OF assms(1), of h] shift_mask [of "map is_hi v"] by (auto simp: hi_mask_def)

lemma sse2_pairs_for_spec:
  assumes "sse2_pairs_for p k e a b d prev = (k', a', b', d', prev')" "k \<le> e" "e \<le> length p"
    and "wide m a" "wide m b" "wide m d" "m + (e - k) div 8 \<le> 32767" "hi_mask h prev"
  shows "k \<le> k' \<and> k' \<le> e \<and> e < k' + 8 \<and> (\<exists>m'. m' \<le> 32767 \<and> wide m' a' \<and> wide m' b' \<and> wide m' d') \<and>
    total a' = total a + count_ge 0x80 (seg p k k') \<and> total b' = total b + count_ge 0x800 (seg p k k') \<and>
    total d' = total d + pairs_in h (seg p k k') \<and> hi_mask (hi_after h (seg p k k')) prev'"
  using assms
proof (induction p k e a b d prev arbitrary: m h rule: sse2_pairs_for.induct)
  case (1 p k e a b d prev)
  show ?case
  proof (cases "k + 8 \<le> e")
    case True
    let ?v = "load p k"
    have v: "length ?v = 8" using True "1.prems"(3) by simp
    have m: "m < 65535" "Suc m + (e - (k + 8)) div 8 \<le> 32767"
      using "1.prems"(7) True by auto
    note w = sub_mask [OF "1.prems"(4) _ m(1)] sub_mask [OF "1.prems"(5) _ m(1)] sub_mask [OF "1.prems"(6) _ m(1)]
    note st = cmpgt_mask [OF v] cmpgt_mask [OF v, simplified] cmpeq_mask [OF v] pair_steps [OF v "1.prems"(8)]
    have step: "sse2_pairs_for p (k + 8) e (sub16 a (mask16 (map (ge 0x80) ?v))) (sub16 b (mask16 (map (ge 0x800) ?v)))
        (sub16 d (mask16 (marks h ?v))) (mask16 (map is_hi ?v)) = (k', a', b', d', prev')"
      using "1.prems"(1) True by (subst (asm) sse2_pairs_for.simps) (simp add: Let_def st)
    have IH: "k + 8 \<le> k' \<and> k' \<le> e \<and> e < k' + 8 \<and> (\<exists>m'. m' \<le> 32767 \<and> wide m' a' \<and> wide m' b' \<and> wide m' d') \<and>
      total a' = total (sub16 a (mask16 (map (ge 0x80) ?v))) + count_ge 0x80 (seg p (k + 8) k') \<and>
      total b' = total (sub16 b (mask16 (map (ge 0x800) ?v))) + count_ge 0x800 (seg p (k + 8) k') \<and>
      total d' = total (sub16 d (mask16 (marks h ?v))) + pairs_in (hi_after h ?v) (seg p (k + 8) k') \<and>
      hi_mask (hi_after (hi_after h ?v) (seg p (k + 8) k')) prev'"
      by (rule "1.IH" [OF True refl refl refl refl refl refl refl, unfolded st, where m = "Suc m"])
        (use step True "1.prems"(3) m(2) v w hi_mask_vec in simp_all)
    have "seg p k k' = ?v @ seg p (k + 8) k'" using IH seg_append [of k "k + 8" k' p] by (simp add: load_seg)
    then show ?thesis using IH v
      by (simp add: w pairs_in_append hi_after_append count_ge_def [of _ ?v] pairs_in_def [of _ ?v])
  next
    case False
    then show ?thesis using "1.prems" by (subst (asm) sse2_pairs_for.simps) auto
  qed
qed


lemma sint_small16: "unat x \<le> 32767 \<Longrightarrow> sint (x :: 16 word) = int (unat x)"
proof -
  assume "unat x \<le> 32767"
  then have "uint x < 32768" using nat_uint_eq [of x] by linarith
  then have "uint x < 2 ^ 15" by simp
  moreover have "- (2 ^ 15) \<le> uint x" by (rule order_trans [OF _ uint_ge_0]) simp
  ultimately have "signed_take_bit 15 (uint x) = uint x" by (rule signed_take_bit_int_eq_self [rotated])
  then show ?thesis by (simp add: sint_uint)
qed

lemma hsum_sse2_total:
  assumes "wide m a" "m \<le> 32767"
  shows "hsum_sse2 a = int (total a)"
proof -
  have "\<forall>x \<in> set a. sint x = int (unat x)"
    using assms sint_small16 order_trans unfolding wide_def by blast
  moreover obtain b c d e f g h i where "a = [b, c, d, e, f, g, h, i]" using assms(1) by (auto simp only: wide_def list8)
  ultimately show ?thesis by (simp add: hsum_sse2_def madd_ones_def total_def Let_def)
qed

lemma sse2_pairs_spec:
  assumes "sse2_pairs p k prev c80 c800 ps = (k', prev', c80', c800', ps')" "k \<le> length p" "hi_mask h prev"
  shows "k \<le> k' \<and> k' \<le> length p \<and> length p < k' + 8 \<and> c80' = c80 + int (count_ge 0x80 (seg p k k')) \<and>
    c800' = c800 + int (count_ge 0x800 (seg p k k')) \<and> ps' = ps + int (pairs_in h (seg p k k')) \<and>
    hi_mask (hi_after h (seg p k k')) prev'"
  using assms
proof (induction p k prev c80 c800 ps arbitrary: h rule: sse2_pairs.induct)
  case (1 p k prev c80 c800 ps)
  show ?case
  proof (cases "k + 8 \<le> length p")
    case True
    let ?e = "min (k + sse2_reduce) (length p)"
    obtain j a b d pv where r: "sse2_pairs_for p k ?e (splat 0) (splat 0) (splat 0) prev = (j, a, b, d, pv)"
      by (metis prod_cases5)
    have bd: "k \<le> ?e" "?e \<le> length p" "0 + (?e - k) div 8 \<le> 32767"
      using True by (auto simp: sse2_reduce_def min_def)
    from sse2_pairs_for_spec [OF r bd(1,2) _ _ _ bd(3) "1.prems"(3)]
    obtain m where spec: "k \<le> j" "j \<le> ?e" "m \<le> 32767" "wide m a" "wide m b" "wide m d"
      "total a = count_ge 0x80 (seg p k j)" "total b = count_ge 0x800 (seg p k j)"
      "total d = pairs_in h (seg p k j)" "hi_mask (hi_after h (seg p k j)) pv" by auto
    have step: "sse2_pairs p j pv (c80 + int (total a)) (c800 + int (total b)) (ps + int (total d)) = (k', prev', c80', c800', ps')"
      using "1.prems"(1) True r spec by (subst (asm) sse2_pairs.simps) (simp add: hsum_sse2_total)
    have "j \<le> length p" using spec(2) by simp
    from "1.IH" [OF True r [symmetric] refl refl refl, of "hi_after h (seg p k j)"] step spec this
    have IH: "j \<le> k'" "k' \<le> length p" "length p < k' + 8" "c80' = c80 + int (total a) + int (count_ge 0x80 (seg p j k'))"
      "c800' = c800 + int (total b) + int (count_ge 0x800 (seg p j k'))"
      "ps' = ps + int (total d) + int (pairs_in (hi_after h (seg p k j)) (seg p j k'))"
      "hi_mask (hi_after (hi_after h (seg p k j)) (seg p j k')) prev'"
      by (simp_all add: hsum_sse2_total)
    have "seg p k k' = seg p k j @ seg p j k'" using IH(1) spec(1) by (rule seg_append [rotated])
    then show ?thesis using IH spec by (simp add: pairs_in_append hi_after_append)
  next
    case False
    then show ?thesis using "1.prems" by (subst (asm) sse2_pairs.simps) auto
  qed
qed

lemma pairs_tail_spec:
  "k \<le> length p \<Longrightarrow> pairs_tail p k h a b d =
    (a + int (count_ge 0x80 (drop k p)), b + int (count_ge 0x800 (drop k p)), d + int (pairs_in h (drop k p)))"
proof (induction p k h a b d rule: pairs_tail.induct)
  case (1 p k h a b d)
  show ?case
  proof (cases "k < length p")
    case True
    have "drop k p = p ! k # drop (Suc k) p" using True by (simp add: Cons_nth_drop_Suc)
    then show ?thesis using 1 True
      by (subst pairs_tail.simps) (simp add: Let_def count_ge_def pairs_in_def ge_def)
  next
    case False
    then show ?thesis using "1.prems" by (subst pairs_tail.simps) simp
  qed
qed

lemma surrogates_sse2_eq:
  "surrogates_sse2 p = int (length p) + int (count_ge 0x80 p) + int (count_ge 0x800 p) - 2 * int (pairs_in False p)"
proof -
  obtain k prev a b d where r: "sse2_pairs p 0 (splat 0) 0 0 0 = (k, prev, a, b, d)" by (metis prod_cases5)
  from sse2_pairs_spec [OF r _ hi_mask_zero]
  have k: "k \<le> length p" "a = int (count_ge 0x80 (seg p 0 k))" "b = int (count_ge 0x800 (seg p 0 k))"
    "d = int (pairs_in False (seg p 0 k))" "hi_mask (hi_after False (seg p 0 k)) prev" by auto
  have p: "p = seg p 0 k @ drop k p" using drop_seg [of 0 k p] by simp
  have c: "count_ge t p = count_ge t (seg p 0 k) + count_ge t (drop k p)" for t by (subst p) simp
  have q: "pairs_in False p = pairs_in False (seg p 0 k) + pairs_in (hi_after False (seg p 0 k)) (drop k p)"
    by (subst p) (simp only: pairs_in_append)
  show ?thesis
    unfolding surrogates_sse2_def r c q using k by (simp add: pairs_tail_spec hi_mask_lane)
qed


text \<open>The loops of the second tier are those of the third without the pairs.\<close>

lemma sse2_count_for_pairs:
  "sse2_count_for p k e a b = (case sse2_pairs_for p k e a b d prev of (k', a', b', _, _) \<Rightarrow> (k', a', b'))"
proof (induction p k e a b arbitrary: d prev rule: sse2_count_for.induct)
  case (1 p k e a b)
  show ?case
  proof (cases "k + 8 \<le> e")
    case True
    then show ?thesis
      by (subst sse2_count_for.simps, subst sse2_pairs_for.simps) (simp only: True if_True Let_def, rule "1.IH" [OF True refl refl refl])
  next
    case False
    then show ?thesis by (subst sse2_count_for.simps, subst sse2_pairs_for.simps) simp
  qed
qed

lemma sse2_count_pairs:
  "sse2_count p k c80 c800 = (case sse2_pairs p k prev c80 c800 ps of (k', _, c80', c800', _) \<Rightarrow> (k', c80', c800'))"
proof (induction p k prev c80 c800 ps rule: sse2_pairs.induct)
  case (1 p k prev c80 c800 ps)
  show ?case
  proof (cases "k + 8 \<le> length p")
    case True
    let ?e = "min (k + sse2_reduce) (length p)"
    obtain j a b d pv where r: "sse2_pairs_for p k ?e (splat 0) (splat 0) (splat 0) prev = (j, a, b, d, pv)"
      by (metis prod_cases5)
    show ?thesis
      by (subst sse2_count.simps, subst sse2_pairs.simps)
        (simp add: True r sse2_count_for_pairs [of _ _ _ _ _ "splat 0" prev] "1.IH" [OF True r [symmetric] refl refl refl])
  next
    case False
    then show ?thesis by (subst sse2_count.simps, subst sse2_pairs.simps) simp
  qed
qed

lemma count_tail_spec:
  "k \<le> length p \<Longrightarrow> count_tail p k a b = (a + int (count_ge 0x80 (drop k p)), b + int (count_ge 0x800 (drop k p)))"
proof (induction p k a b rule: count_tail.induct)
  case (1 p k a b)
  show ?case
  proof (cases "k < length p")
    case True
    have "drop k p = p ! k # drop (Suc k) p" using True by (simp add: Cons_nth_drop_Suc)
    then show ?thesis using 1 True by (subst count_tail.simps) (simp add: Let_def count_ge_def ge_def)
  next
    case False
    then show ?thesis using "1.prems" by (subst count_tail.simps) simp
  qed
qed

lemma count_ge_split: "i \<le> length p \<Longrightarrow> count_ge t p = count_ge t (seg p 0 i) + count_ge t (drop i p)"
  by (metis count_ge_append drop_seg drop0 zero_le)

lemma mixed_sse2_eq: "mixed_sse2 p = int (length p) + int (count_ge 0x80 p) + int (count_ge 0x800 p)"
proof -
  obtain k prev a b d where r: "sse2_pairs p 0 (splat 0) 0 0 0 = (k, prev, a, b, d)" by (metis prod_cases5)
  from sse2_pairs_spec [OF r _ hi_mask_zero] have k: "k \<le> length p" by simp
  have "sse2_count p 0 0 0 = (k, a, b)" by (simp add: sse2_count_pairs [of _ _ _ _ "splat 0" 0] r)
  then show ?thesis
    using sse2_pairs_spec [OF r _ hi_mask_zero] count_ge_split [OF k] by (simp add: mixed_sse2_def count_tail_spec)
qed

section \<open>The loops of four registers\<close>

definition wide4 :: "nat \<Rightarrow> vec list \<Rightarrow> bool" where
  "wide4 m as \<longleftrightarrow> length as = 4 \<and> (\<forall>a \<in> set as. wide m a)"

definition total4 :: "vec list \<Rightarrow> nat" where
  "total4 as = sum_list (map total as)"

lemma length_load4 [simp]: "length (load4 p k) = 4"
  by (simp add: load4_def)

lemma load4_vecs: "k + 32 \<le> length p \<Longrightarrow> v \<in> set (load4 p k) \<Longrightarrow> length v = 8"
  by (auto simp: load4_def load_def)

lemma concat_load4: "concat (load4 p k) = seg p k (k + 32)"
  using seg_append [of k "k + 8" "k + 32" p] seg_append [of "k + 8" "k + 16" "k + 32" p]
    seg_append [of "k + 16" "k + 24" "k + 32" p]
  by (simp add: load4_def load_seg ac_simps)

lemma wide4_zero [simp]: "wide4 m (splat4 0)" "total4 (splat4 0) = 0"
  by (simp_all add: wide4_def total4_def splat4_def sum_list_replicate)

lemma list4: "length v = 4 \<longleftrightarrow> (\<exists>a b c d. v = [a, b, c, d])"
  by (auto simp: eval_nat_numeral length_Suc_conv)

lemma ge_step4:
  assumes "wide4 m as" "length vs = 4" "\<forall>v \<in> set vs. length v = 8" "m < 65535"
    and g: "\<And>v. length v = 8 \<Longrightarrow> vcge v (splat t) = mask16 (map (ge t') v)"
  shows "wide4 (Suc m) (lanes2 (\<lambda>a v. sub16 a (vcge v (splat t))) as vs)"
    and "total4 (lanes2 (\<lambda>a v. sub16 a (vcge v (splat t))) as vs) = total4 as + count_ge t' (concat vs)"
proof -
  have "length as = length vs" using assms(1,2) by (simp add: wide4_def)
  then have "(\<forall>a \<in> set as. wide m a) \<longrightarrow> (\<forall>v \<in> set vs. length v = 8) \<longrightarrow>
    (\<forall>a \<in> set (lanes2 (\<lambda>a v. sub16 a (vcge v (splat t))) as vs). wide (Suc m) a) \<and>
    total4 (lanes2 (\<lambda>a v. sub16 a (vcge v (splat t))) as vs) = total4 as + count_ge t' (concat vs)"
    using assms(4) by (induction as vs rule: list_induct2)
      (auto simp: lanes2_def total4_def g sub_mask count_ge_def)
  then show "wide4 (Suc m) (lanes2 (\<lambda>a v. sub16 a (vcge v (splat t))) as vs)"
    "total4 (lanes2 (\<lambda>a v. sub16 a (vcge v (splat t))) as vs) = total4 as + count_ge t' (concat vs)"
    using assms(1-3) by (auto simp: wide4_def)
qed

lemmas ge_steps = ge_step4 [OF _ _ _ _ vcge_mask(1)] ge_step4 [OF _ _ _ _ vcge_mask(2)]

lemma pair_step4:
  assumes "wide4 m ds" "length vs = 4" "\<forall>v \<in> set vs. length v = 8" "m < 65535" "hi_mask h prev"
    and "neon_pair_step prev vs ds = (prev', ds')"
  shows "wide4 (Suc m) ds'" "total4 ds' = total4 ds + pairs_in h (concat vs)" "hi_mask (hi_after h (concat vs)) prev'"
proof -
  have "length vs = length ds" using assms(1,2) by (simp add: wide4_def)
  then have "(\<forall>a \<in> set ds. wide m a) \<longrightarrow> (\<forall>v \<in> set vs. length v = 8) \<longrightarrow> hi_mask h prev \<longrightarrow>
    neon_pair_step prev vs ds = (prev', ds') \<longrightarrow> length ds' = length ds \<and> (\<forall>a \<in> set ds'. wide (Suc m) a) \<and>
    total4 ds' = total4 ds + pairs_in h (concat vs) \<and> hi_mask (hi_after h (concat vs)) prev'"
  proof (induction vs ds arbitrary: h prev prev' ds' rule: list_induct2)
    case (Cons v vs d ds)
    show ?case
    proof (intro impI)
      assume a: "\<forall>a \<in> set (d # ds). wide m a" "\<forall>v \<in> set (v # vs). length v = 8" "hi_mask h prev"
        "neon_pair_step prev (v # vs) (d # ds) = (prev', ds')"
      then have v: "length v = 8" and d: "wide m d" by auto
      obtain ds'' where n: "neon_pair_step (mask16 (map is_hi v)) vs ds = (prev', ds'')"
        "ds' = sub16 d (mask16 (marks h v)) # ds''"
        using a(4) by (auto simp: Let_def cmpeq_mask [OF v] pair_steps [OF v a(3)] split: prod.splits)
      show "length ds' = length (d # ds) \<and> (\<forall>a \<in> set ds'. wide (Suc m) a) \<and>
        total4 ds' = total4 (d # ds) + pairs_in h (concat (v # vs)) \<and> hi_mask (hi_after h (concat (v # vs))) prev'"
        using Cons.IH [of "hi_after h v" "mask16 (map is_hi v)" prev' ds''] a(1,2) n hi_mask_vec [OF v, of h]
          sub_mask [OF d _ assms(4), of "marks h v"] v
        by (auto simp: total4_def pairs_in_append hi_after_append pairs_in_def [of _ v])
    qed
  qed auto
  then show "wide4 (Suc m) ds'" "total4 ds' = total4 ds + pairs_in h (concat vs)" "hi_mask (hi_after h (concat vs)) prev'"
    using assms by (auto simp: wide4_def)
qed


lemma lane_plus: "unat x + unat y < 65536 \<Longrightarrow> unat (x + y :: 16 word) = unat x + unat y"
  using unat_add_lem [of x y] by simp

lemma add16_total:
  assumes "wide m a" "wide k b" "m + k < 65536"
  shows "wide (m + k) (add16 a b)" "total (add16 a b) = total a + total b"
proof -
  have "length a = length b" using assms by (simp add: wide_def)
  then have "(\<forall>x \<in> set a. unat x \<le> m) \<longrightarrow> (\<forall>x \<in> set b. unat x \<le> k) \<longrightarrow>
    (\<forall>x \<in> set (add16 a b). unat x \<le> m + k) \<and> total (add16 a b) = total a + total b"
  proof (induction a b rule: list_induct2)
    case (Cons x a y b)
    show ?case
    proof (intro impI)
      assume h: "\<forall>x \<in> set (x # a). unat x \<le> m" "\<forall>x \<in> set (y # b). unat x \<le> k"
      then have "unat (x + y) = unat x + unat y" using assms(3) by (intro lane_plus) auto
      moreover have "unat x + unat y \<le> m + k" using h by (intro add_mono) auto
      ultimately show "(\<forall>x \<in> set (add16 (x # a) (y # b)). unat x \<le> m + k) \<and>
          total (add16 (x # a) (y # b)) = total (x # a) + total (y # b)"
        using Cons.IH h by (auto simp: add16_def lanes2_def total_def)
    qed
  qed (simp add: add16_def lanes2_def total_def)
  then show "wide (m + k) (add16 a b)" "total (add16 a b) = total a + total b"
    using assms by (auto simp: wide_def add16_def)
qed

lemma hsum_neon_total: "hsum_neon a = int (total a)"
  by (induction a) (simp_all add: hsum_neon_def total_def)

lemma join4_total:
  assumes "wide4 m as" "m \<le> 1024"
  shows "hsum_neon (join4 add16 as) = int (total4 as)"
proof -
  obtain a b c d where as: "as = [a, b, c, d]" using assms(1) by (auto simp only: wide4_def list4)
  have w: "wide m a" "wide m b" "wide m c" "wide m d" using assms(1) by (simp_all add: as wide4_def)
  have ab: "wide (m + m) (add16 a b)" "total (add16 a b) = total a + total b"
    and cd: "wide (m + m) (add16 c d)" "total (add16 c d) = total c + total d"
    using add16_total [OF w(1,2)] add16_total [OF w(3,4)] assms(2) by simp_all
  have "total (add16 (add16 a b) (add16 c d)) = total (add16 a b) + total (add16 c d)"
    by (rule add16_total(2) [OF ab(1) cd(1)]) (use assms(2) in simp)
  then show ?thesis using ab cd by (simp add: as join4_def hsum_neon_total total4_def)
qed

lemma neon_pairs_for_spec:
  assumes "neon_pairs_for p k e a b d prev = (k', a', b', d', prev')" "k \<le> e" "e \<le> length p"
    and "wide4 m a" "wide4 m b" "wide4 m d" "m + (e - k) div 32 \<le> 1024" "hi_mask h prev"
  shows "k \<le> k' \<and> k' \<le> e \<and> e < k' + 32 \<and> (\<exists>m'. m' \<le> 1024 \<and> wide4 m' a' \<and> wide4 m' b' \<and> wide4 m' d') \<and>
    total4 a' = total4 a + count_ge 0x80 (seg p k k') \<and> total4 b' = total4 b + count_ge 0x800 (seg p k k') \<and>
    total4 d' = total4 d + pairs_in h (seg p k k') \<and> hi_mask (hi_after h (seg p k k')) prev'"
  using assms
proof (induction p k e a b d prev arbitrary: m h rule: neon_pairs_for.induct)
  case (1 p k e a b d prev)
  show ?case
  proof (cases "k + 32 \<le> e")
    case True
    let ?v = "load4 p k"
    have v: "\<forall>v \<in> set ?v. length v = 8" "length ?v = 4" using load4_vecs [of k p] True "1.prems"(3) by auto
    have m: "m < 65535" "Suc m + (e - (k + 32)) div 32 \<le> 1024" using "1.prems"(7) True by auto
    obtain pv d2 where n: "neon_pair_step prev ?v d = (pv, d2)" by fastforce
    note w = ge_steps(1,2) [OF "1.prems"(4) v(2,1) m(1)] ge_steps(3,4) [OF "1.prems"(5) v(2,1) m(1)]
      pair_step4 [OF "1.prems"(6) v(2,1) m(1) "1.prems"(8) n]
    let ?a = "lanes2 (\<lambda>a v. sub16 a (vcge v (splat 0x80))) a ?v" and ?b = "lanes2 (\<lambda>b v. sub16 b (vcge v (splat 0x800))) b ?v"
    have step: "neon_pairs_for p (k + 32) e ?a ?b d2 pv = (k', a', b', d', prev')"
      using "1.prems"(1) True n by (subst (asm) neon_pairs_for.simps) (simp add: Let_def)
    have IH: "k + 32 \<le> k' \<and> k' \<le> e \<and> e < k' + 32 \<and> (\<exists>m'. m' \<le> 1024 \<and> wide4 m' a' \<and> wide4 m' b' \<and> wide4 m' d') \<and>
      total4 a' = total4 ?a + count_ge 0x80 (seg p (k + 32) k') \<and>
      total4 b' = total4 ?b + count_ge 0x800 (seg p (k + 32) k') \<and>
      total4 d' = total4 d2 + pairs_in (hi_after h (concat ?v)) (seg p (k + 32) k') \<and>
      hi_mask (hi_after (hi_after h (concat ?v)) (seg p (k + 32) k')) prev'"
      by (rule "1.IH" [OF True refl refl refl n [symmetric], where m = "Suc m"])
        (use step True "1.prems"(3) m(2) w in simp_all)
    have "seg p k k' = concat ?v @ seg p (k + 32) k'" using IH seg_append [of k "k + 32" k' p] by (simp add: concat_load4)
    then show ?thesis using IH w by (simp add: pairs_in_append hi_after_append)
  next
    case False
    then show ?thesis using "1.prems" by (subst (asm) neon_pairs_for.simps) auto
  qed
qed


lemma neon_pairs_spec:
  assumes "neon_pairs p k prev c80 c800 ps = (k', prev', c80', c800', ps')" "k \<le> length p" "hi_mask h prev"
  shows "k \<le> k' \<and> k' \<le> length p \<and> length p < k' + 32 \<and> c80' = c80 + int (count_ge 0x80 (seg p k k')) \<and>
    c800' = c800 + int (count_ge 0x800 (seg p k k')) \<and> ps' = ps + int (pairs_in h (seg p k k')) \<and>
    hi_mask (hi_after h (seg p k k')) prev'"
  using assms
proof (induction p k prev c80 c800 ps arbitrary: h rule: neon_pairs.induct)
  case (1 p k prev c80 c800 ps)
  show ?case
  proof (cases "k + 32 \<le> length p")
    case True
    let ?e = "min (k + neon_reduce) (length p)"
    obtain j a b d pv where r: "neon_pairs_for p k ?e (splat4 0) (splat4 0) (splat4 0) prev = (j, a, b, d, pv)"
      by (metis prod_cases5)
    have bd: "k \<le> ?e" "?e \<le> length p" "0 + (?e - k) div 32 \<le> 1024"
      using True by (auto simp: neon_reduce_def min_def)
    from neon_pairs_for_spec [OF r bd(1,2) _ _ _ bd(3) "1.prems"(3)]
    obtain m where spec: "k \<le> j" "j \<le> ?e" "m \<le> 1024" "wide4 m a" "wide4 m b" "wide4 m d"
      "total4 a = count_ge 0x80 (seg p k j)" "total4 b = count_ge 0x800 (seg p k j)"
      "total4 d = pairs_in h (seg p k j)" "hi_mask (hi_after h (seg p k j)) pv" by auto
    have step: "neon_pairs p j pv (c80 + int (total4 a)) (c800 + int (total4 b)) (ps + int (total4 d)) =
      (k', prev', c80', c800', ps')"
      using "1.prems"(1) True r spec by (subst (asm) neon_pairs.simps) (simp add: join4_total)
    have "j \<le> length p" using spec(2) by simp
    from "1.IH" [OF True r [symmetric] refl refl refl, of "hi_after h (seg p k j)"] step spec this
    have IH: "j \<le> k'" "k' \<le> length p" "length p < k' + 32" "c80' = c80 + int (total4 a) + int (count_ge 0x80 (seg p j k'))"
      "c800' = c800 + int (total4 b) + int (count_ge 0x800 (seg p j k'))"
      "ps' = ps + int (total4 d) + int (pairs_in (hi_after h (seg p k j)) (seg p j k'))"
      "hi_mask (hi_after (hi_after h (seg p k j)) (seg p j k')) prev'"
      by (simp_all add: join4_total)
    have "seg p k k' = seg p k j @ seg p j k'" using IH(1) spec(1) by (rule seg_append [rotated])
    then show ?thesis using IH spec by (simp add: pairs_in_append hi_after_append)
  next
    case False
    then show ?thesis using "1.prems" by (subst (asm) neon_pairs.simps) auto
  qed
qed

lemma neon_pairs1_spec:
  assumes "neon_pairs1 p k a b d prev = (k', a', b', d', prev')" "k \<le> length p"
    and "wide m a" "wide m b" "wide m d" "m + (length p - k) div 8 < 65535" "hi_mask h prev"
  shows "k \<le> k' \<and> k' \<le> length p \<and> total a' = total a + count_ge 0x80 (seg p k k') \<and>
    total b' = total b + count_ge 0x800 (seg p k k') \<and> total d' = total d + pairs_in h (seg p k k') \<and>
    hi_mask (hi_after h (seg p k k')) prev'"
  using assms
proof (induction p k a b d prev arbitrary: m h rule: neon_pairs1.induct)
  case (1 p k a b d prev)
  show ?case
  proof (cases "k + 8 \<le> length p")
    case True
    let ?v = "load p k"
    have v: "length ?v = 8" using True by simp
    have m: "m < 65535" "Suc m + (length p - (k + 8)) div 8 < 65535" using "1.prems"(6) True by auto
    note w = sub_mask [OF "1.prems"(3) _ m(1)] sub_mask [OF "1.prems"(4) _ m(1)] sub_mask [OF "1.prems"(5) _ m(1)]
    note st = vcge_mask [OF v] cmpeq_mask [OF v] pair_steps [OF v "1.prems"(7)]
    have step: "neon_pairs1 p (k + 8) (sub16 a (mask16 (map (ge 0x80) ?v))) (sub16 b (mask16 (map (ge 0x800) ?v)))
        (sub16 d (mask16 (marks h ?v))) (mask16 (map is_hi ?v)) = (k', a', b', d', prev')"
      using "1.prems"(1) True by (subst (asm) neon_pairs1.simps) (simp add: Let_def st)
    have IH: "k + 8 \<le> k' \<and> k' \<le> length p \<and>
      total a' = total (sub16 a (mask16 (map (ge 0x80) ?v))) + count_ge 0x80 (seg p (k + 8) k') \<and>
      total b' = total (sub16 b (mask16 (map (ge 0x800) ?v))) + count_ge 0x800 (seg p (k + 8) k') \<and>
      total d' = total (sub16 d (mask16 (marks h ?v))) + pairs_in (hi_after h ?v) (seg p (k + 8) k') \<and>
      hi_mask (hi_after (hi_after h ?v) (seg p (k + 8) k')) prev'"
      by (rule "1.IH" [OF True refl refl refl refl refl refl, unfolded st, where m = "Suc m"])
        (use step True m(2) v w hi_mask_vec in simp_all)
    have "seg p k k' = ?v @ seg p (k + 8) k'" using IH seg_append [of k "k + 8" k' p] by (simp add: load_seg)
    then show ?thesis using IH v
      by (simp add: w pairs_in_append hi_after_append count_ge_def [of _ ?v] pairs_in_def [of _ ?v])
  next
    case False
    then show ?thesis using "1.prems" by (subst (asm) neon_pairs1.simps) auto
  qed
qed

text \<open>As with SSE2, the loops without pairs, and those of only the pairs, are parts of these.\<close>

lemma neon_count_for_pairs:
  "neon_count_for p k e a b = (case neon_pairs_for p k e a b d prev of (k', a', b', _, _) \<Rightarrow> (k', a', b'))"
proof (induction p k e a b arbitrary: d prev rule: neon_count_for.induct)
  case (1 p k e a b)
  show ?case
  proof (cases "k + 32 \<le> e")
    case True
    obtain pv d' where n: "neon_pair_step prev (load4 p k) d = (pv, d')" by fastforce
    show ?thesis
      by (subst neon_count_for.simps, subst neon_pairs_for.simps)
        (simp only: True if_True Let_def n prod.case, rule "1.IH" [OF True refl])
  next
    case False
    then show ?thesis by (subst neon_count_for.simps, subst neon_pairs_for.simps) simp
  qed
qed

lemma neon_count_pairs_eq:
  "neon_count p k c80 c800 = (case neon_pairs p k prev c80 c800 ps of (k', _, c80', c800', _) \<Rightarrow> (k', c80', c800'))"
proof (induction p k prev c80 c800 ps rule: neon_pairs.induct)
  case (1 p k prev c80 c800 ps)
  show ?case
  proof (cases "k + 32 \<le> length p")
    case True
    let ?e = "min (k + neon_reduce) (length p)"
    obtain j a b d pv where r: "neon_pairs_for p k ?e (splat4 0) (splat4 0) (splat4 0) prev = (j, a, b, d, pv)"
      by (metis prod_cases5)
    show ?thesis
      by (subst neon_count.simps, subst neon_pairs.simps)
        (simp add: True r neon_count_for_pairs [of _ _ _ _ _ "splat4 0" prev] "1.IH" [OF True r [symmetric] refl refl refl])
  next
    case False
    then show ?thesis by (subst neon_count.simps, subst neon_pairs.simps) simp
  qed
qed

lemma neon_count1_pairs1:
  "neon_count1 p k a b = (case neon_pairs1 p k a b d prev of (k', a', b', _, _) \<Rightarrow> (k', a', b'))"
proof (induction p k a b arbitrary: d prev rule: neon_count1.induct)
  case (1 p k a b)
  show ?case
  proof (cases "k + 8 \<le> length p")
    case True
    then show ?thesis
      by (subst neon_count1.simps, subst neon_pairs1.simps) (simp only: True if_True Let_def, rule "1.IH" [OF True])
  next
    case False
    then show ?thesis by (subst neon_count1.simps, subst neon_pairs1.simps) simp
  qed
qed

lemma only_pairs_for_eq:
  "only_pairs_for p k e d prev = (case neon_pairs_for p k e a b d prev of (k', _, _, d', prev') \<Rightarrow> (k', d', prev'))"
proof (induction p k e d prev arbitrary: a b rule: only_pairs_for.induct)
  case (1 p k e d prev)
  show ?case
  proof (cases "k + 32 \<le> e")
    case True
    obtain pv d' where n: "neon_pair_step prev (load4 p k) d = (pv, d')" by fastforce
    show ?thesis
      by (subst only_pairs_for.simps, subst neon_pairs_for.simps)
        (simp only: True if_True Let_def n prod.case, rule "1.IH" [OF True n [symmetric]])
  next
    case False
    then show ?thesis by (subst only_pairs_for.simps, subst neon_pairs_for.simps) simp
  qed
qed

lemma only_pairs_eq:
  "only_pairs p k prev ps = (case neon_pairs p k prev c80 c800 ps of (k', prev', _, _, ps') \<Rightarrow> (k', prev', ps'))"
proof (induction p k prev c80 c800 ps rule: neon_pairs.induct)
  case (1 p k prev c80 c800 ps)
  show ?case
  proof (cases "k + 32 \<le> length p")
    case True
    let ?e = "min (k + neon_reduce) (length p)"
    obtain j a b d pv where r: "neon_pairs_for p k ?e (splat4 0) (splat4 0) (splat4 0) prev = (j, a, b, d, pv)"
      by (metis prod_cases5)
    show ?thesis
      by (subst only_pairs.simps, subst neon_pairs.simps)
        (simp add: True r only_pairs_for_eq [of _ _ _ _ _ "splat4 0" "splat4 0"] "1.IH" [OF True r [symmetric] refl refl refl])
  next
    case False
    then show ?thesis by (subst only_pairs.simps, subst neon_pairs.simps) simp
  qed
qed


lemma only_pairs1_spec:
  assumes "only_pairs1 p k prev ps = (k', prev', ps')" "k \<le> length p" "hi_mask h prev"
  shows "k \<le> k' \<and> k' \<le> length p \<and> ps' = ps + int (pairs_in h (seg p k k')) \<and>
    hi_mask (hi_after h (seg p k k')) prev'"
  using assms
proof (induction p k prev ps arbitrary: h rule: only_pairs1.induct)
  case (1 p k prev ps)
  show ?case
  proof (cases "k + 8 \<le> length p")
    case True
    let ?v = "load p k"
    have v: "length ?v = 8" using True by simp
    have t: "hsum_neon (sub16 (splat 0) (mask16 (marks h ?v))) = int (pairs_in h ?v)"
      using sub_mask [of 0 "splat 0" "marks h ?v"] v by (simp add: hsum_neon_total pairs_in_def)
    note st = cmpeq_mask [OF v] pair_steps [OF v "1.prems"(3)]
    have step: "only_pairs1 p (k + 8) (mask16 (map is_hi ?v)) (ps + int (pairs_in h ?v)) = (k', prev', ps')"
      using "1.prems"(1) True by (subst (asm) only_pairs1.simps) (simp add: Let_def st t)
    have IH: "k + 8 \<le> k' \<and> k' \<le> length p \<and> ps' = ps + int (pairs_in h ?v) + int (pairs_in (hi_after h ?v) (seg p (k + 8) k')) \<and>
      hi_mask (hi_after (hi_after h ?v) (seg p (k + 8) k')) prev'"
      by (rule "1.IH" [OF True refl refl, unfolded st t]) (use step True v hi_mask_vec in simp_all)
    have "seg p k k' = ?v @ seg p (k + 8) k'" using IH seg_append [of k "k + 8" k' p] by (simp add: load_seg)
    then show ?thesis using IH by (simp add: pairs_in_append hi_after_append)
  next
    case False
    then show ?thesis using "1.prems" by (subst (asm) only_pairs1.simps) auto
  qed
qed

lemma pairs_in_split:
  assumes "i \<le> length p"
  shows "pairs_in h p = pairs_in h (seg p 0 i) + pairs_in (hi_after h (seg p 0 i)) (drop i p)"
proof -
  have "p = seg p 0 i @ drop i p" using drop_seg [of 0 i p] by simp
  then show ?thesis using pairs_in_append [of h "seg p 0 i" "drop i p"] by simp
qed

lemma neon_count_pairs_total: "neon_count_pairs p = int (pairs_in False p)"
proof -
  obtain k prev a b d where r: "neon_pairs p 0 (splat 0) 0 0 0 = (k, prev, a, b, d)" by (metis prod_cases5)
  from neon_pairs_spec [OF r _ hi_mask_zero]
  have k: "k \<le> length p" "d = int (pairs_in False (seg p 0 k))" "hi_mask (hi_after False (seg p 0 k)) prev" by auto
  have o: "only_pairs p 0 (splat 0) 0 = (k, prev, d)" by (simp add: only_pairs_eq [of _ _ _ _ 0 0] r)
  obtain k' prev' d' where r': "only_pairs1 p k prev d = (k', prev', d')" by (metis prod_cases3)
  from only_pairs1_spec [OF r' k(1,3)]
  have k': "k \<le> k'" "k' \<le> length p" "d' = d + int (pairs_in (hi_after False (seg p 0 k)) (seg p k k'))"
    "hi_mask (hi_after (hi_after False (seg p 0 k)) (seg p k k')) prev'" by auto
  have sg: "seg p 0 k' = seg p 0 k @ seg p k k'" using k'(1) by (intro seg_append) auto
  show ?thesis
    unfolding neon_count_pairs_def o pairs_in_split [OF k'(2)] sg
    using k k' r' by (simp add: pairs_tail_spec hi_mask_lane pairs_in_append hi_after_append)
qed

lemma tail_neon:
  assumes "neon_pairs p 0 (splat 0) 0 0 0 = (k, prev, c80, c800, ps)"
    and "neon_pairs1 p k (splat 0) (splat 0) (splat 0) prev = (k', a, b, d, prev')"
  shows "k \<le> k' \<and> k' \<le> length p \<and> c80 + hsum_neon a = int (count_ge 0x80 (seg p 0 k')) \<and>
    c800 + hsum_neon b = int (count_ge 0x800 (seg p 0 k')) \<and> ps + hsum_neon d = int (pairs_in False (seg p 0 k')) \<and>
    hi_mask (hi_after False (seg p 0 k')) prev'"
proof -
  from neon_pairs_spec [OF assms(1) _ hi_mask_zero]
  have k: "k \<le> length p" "length p < k + 32" "c80 = int (count_ge 0x80 (seg p 0 k))" "c800 = int (count_ge 0x800 (seg p 0 k))"
    "ps = int (pairs_in False (seg p 0 k))" "hi_mask (hi_after False (seg p 0 k)) prev" by auto
  have b: "0 + (length p - k) div 8 < 65535" using k(2) by simp
  from neon_pairs1_spec [OF assms(2) k(1) _ _ _ b k(6)]
  have k': "k \<le> k'" "k' \<le> length p" "total a = count_ge 0x80 (seg p k k')" "total b = count_ge 0x800 (seg p k k')"
    "total d = pairs_in (hi_after False (seg p 0 k)) (seg p k k')"
    "hi_mask (hi_after (hi_after False (seg p 0 k)) (seg p k k')) prev'" by simp_all
  have "seg p 0 k' = seg p 0 k @ seg p k k'" using k'(1) by (intro seg_append) auto
  then show ?thesis using k k' by (simp add: hsum_neon_total pairs_in_append hi_after_append)
qed

lemma surrogates_neon_eq:
  assumes "minv \<ge> 0x800 \<longrightarrow> count_ge 0x80 p = length p \<and> count_ge 0x800 p = length p"
  shows "surrogates_neon p minv = int (length p) + int (count_ge 0x80 p) + int (count_ge 0x800 p) - 2 * int (pairs_in False p)"
proof (cases "minv \<ge> 0x800")
  case True
  then show ?thesis using assms by (simp add: surrogates_neon_def neon_count_pairs_total)
next
  case False
  obtain k prev c80 c800 ps where r: "neon_pairs p 0 (splat 0) 0 0 0 = (k, prev, c80, c800, ps)" by (metis prod_cases5)
  obtain k' a b d prev' where r': "neon_pairs1 p k (splat 0) (splat 0) (splat 0) prev = (k', a, b, d, prev')" by (metis prod_cases5)
  note t = tail_neon [OF r r']
  then have k: "k' \<le> length p" and lane: "((prev' ! 7) AND 1 \<noteq> 0) = hi_after False (seg p 0 k')"
    by (simp_all add: hi_mask_lane)
  show ?thesis
    unfolding surrogates_neon_def r pairs_in_split [OF k] count_ge_split [OF k]
    using False t r' by (simp add: pairs_tail_spec lane)
qed

lemma mixed_neon_eq: "mixed_neon p = int (length p) + int (count_ge 0x80 p) + int (count_ge 0x800 p)"
proof -
  obtain k prev c80 c800 ps where r: "neon_pairs p 0 (splat 0) 0 0 0 = (k, prev, c80, c800, ps)" by (metis prod_cases5)
  obtain k' a b d prev' where r': "neon_pairs1 p k (splat 0) (splat 0) (splat 0) prev = (k', a, b, d, prev')" by (metis prod_cases5)
  note t = tail_neon [OF r r']
  then have k: "k' \<le> length p" by simp
  have "neon_count p 0 0 0 = (k, c80, c800)" by (simp add: neon_count_pairs_eq [of _ _ _ _ "splat 0" 0] r)
  moreover have "neon_count1 p k (splat 0) (splat 0) = (k', a, b)" by (simp add: neon_count1_pairs1 [of _ _ _ _ "splat 0" prev] r')
  ultimately show ?thesis
    unfolding count_ge_split [OF k] mixed_neon_def
    using t by (simp add: count_tail_spec)
qed

end
