(* ===== verification/ByteLengthSpec.thy ===== *)
theory ByteLengthSpec
  imports ByteLengthProps
begin

text \<open>
  The first pass of \<open>utf8ByteLength\<close> finds the least and the greatest unit on every processor, the length
  of one-byte text, and the theorem that all implementations give the length of the text in UTF-8.
\<close>

unbundle bit_operations_syntax

section \<open>The least and the greatest unit\<close>

fun mmax :: "16 word list \<Rightarrow> nat" where
  "mmax [] = 0"
| "mmax (x # xs) = max (unat x) (mmax xs)"

fun mmin :: "16 word list \<Rightarrow> nat" where
  "mmin [] = 0xFFFF"
| "mmin (x # xs) = min (unat x) (mmin xs)"

lemma mmax_append [simp]: "mmax (xs @ ys) = max (mmax xs) (mmax ys)"
  by (induction xs) auto

lemma mmin_le: "mmin xs \<le> 0xFFFF"
  by (induction xs) auto

lemma mmin_append [simp]: "mmin (xs @ ys) = min (mmin xs) (mmin ys)"
  by (induction xs) (auto simp: mmin_le)

lemma mmax_less: "0 < t \<Longrightarrow> (mmax xs < t) = (\<forall>x \<in> set xs. unat x < t)"
  by (induction xs) auto

lemma unit_le: "unat (x :: 16 word) \<le> 0xFFFF"
  using unsigned_less [of x, where 'a = nat] by simp

lemma mmin_ge: "t \<le> 0xFFFF \<Longrightarrow> (t \<le> mmin xs) = (\<forall>x \<in> set xs. t \<le> unat x)"
  by (induction xs) auto

lemma unat_max: "unat (if x < y then y else x :: 16 word) = max (unat x) (unat y)"
  by (simp add: word_less_nat_alt)

lemma unat_min: "unat (if y < x then y else x :: 16 word) = min (unat x) (unat y)"
  by (simp add: word_less_nat_alt)

lemma mmax_vmax: "length a = length b \<Longrightarrow> mmax (vmax a b) = max (mmax a) (mmax b)"
  by (induction a b rule: list_induct2) (auto simp: vmax_def lanes2_def unat_max)

lemma mmin_vmin: "length a = length b \<Longrightarrow> mmin (vmin a b) = min (mmin a) (mmin b)"
  by (induction a b rule: list_induct2) (auto simp: vmin_def lanes2_def unat_min)

lemma length_vmax [simp]: "length (vmax a b) = min (length a) (length b)" "length (vmin a b) = min (length a) (length b)"
  by (simp_all add: vmax_def vmin_def)

lemma vmaxv_eq: "vmaxv v = mmax v"
proof -
  have "fold max (map unat v) z = max z (mmax v)" for z by (induction v arbitrary: z) (auto simp: max.assoc max.commute)
  then show ?thesis by (simp add: vmaxv_def)
qed

lemma vminv_eq: "vminv v = mmin v"
proof -
  have "z \<le> 0xFFFF \<Longrightarrow> fold min (map unat v) z = min z (mmin v)" for z
    by (induction v arbitrary: z) (auto simp: min.assoc min.commute)
  then show ?thesis using mmin_le [of v] by (simp add: vminv_def)
qed

lemma minmax_tail_spec:
  "i \<le> length p \<Longrightarrow> b \<le> 0xFFFF \<Longrightarrow> minmax_tail p i a b = (max a (mmax (drop i p)), min b (mmin (drop i p)))"
proof (induction p i a b rule: minmax_tail.induct)
  case (1 p i a b)
  show ?case
  proof (cases "i < length p")
    case True
    have "drop i p = p ! i # drop (Suc i) p" using True by (simp add: Cons_nth_drop_Suc)
    then show ?thesis using 1 True by (subst minmax_tail.simps) (auto simp: Let_def max_def min_def)
  next
    case False
    then show ?thesis using "1.prems" by (subst minmax_tail.simps) (auto simp: min_def)
  qed
qed

lemma neon_minmax_spec:
  assumes "neon_minmax p i mx mn = (i', mx', mn')" "i \<le> length p" "length mx = 8" "length mn = 8"
  shows "i \<le> i' \<and> i' \<le> length p \<and> length mx' = 8 \<and> length mn' = 8 \<and>
    mmax mx' = max (mmax mx) (mmax (seg p i i')) \<and> mmin mn' = min (mmin mn) (mmin (seg p i i'))"
  using assms
proof (induction p i mx mn rule: neon_minmax.induct)
  case (1 p i mx mn)
  show ?case
  proof (cases "i + 8 \<le> length p")
    case True
    have step: "neon_minmax p (i + 8) (vmax mx (load p i)) (vmin mn (load p i)) = (i', mx', mn')"
      using "1.prems"(1) True by (subst (asm) neon_minmax.simps) simp
    from "1.IH" [OF True step] True "1.prems"(3,4)
    have IH: "i + 8 \<le> i' \<and> i' \<le> length p \<and> length mx' = 8 \<and> length mn' = 8 \<and>
      mmax mx' = max (mmax mx) (max (mmax (load p i)) (mmax (seg p (i + 8) i'))) \<and>
      mmin mn' = min (mmin mn) (min (mmin (load p i)) (mmin (seg p (i + 8) i')))"
      by (simp add: mmax_vmax mmin_vmin ac_simps)
    have "seg p i i' = load p i @ seg p (i + 8) i'" using IH seg_append [of i "i + 8" i' p] by (simp add: load_seg)
    then show ?thesis using IH by simp
  next
    case False
    then show ?thesis using "1.prems" mmin_le [of mn] by (subst (asm) neon_minmax.simps) auto
  qed
qed

definition vecs4 :: "vec list \<Rightarrow> bool" where
  "vecs4 as \<longleftrightarrow> length as = 4 \<and> (\<forall>a \<in> set as. length a = 8)"

lemma max_of_four: "max (max a b) (max c d) = max (max a c) (max b (d :: nat))"
  by (simp add: max_def)

lemma min_of_four: "min (min a b) (min c d) = min (min a c) (min b (d :: nat))"
  by (simp add: min_def)

lemma minmax4_vmax:
  "length as = length vs \<Longrightarrow> \<forall>a \<in> set as. length a = 8 \<Longrightarrow> \<forall>v \<in> set vs. length v = 8 \<Longrightarrow>
    (\<forall>a \<in> set (lanes2 vmax as vs). length a = 8) \<and>
    mmax (concat (lanes2 vmax as vs)) = max (mmax (concat as)) (mmax (concat vs))"
proof (induction as vs rule: list_induct2)
  case (Cons a as v vs)
  then have "mmax (vmax a v) = max (mmax a) (mmax v)" by (intro mmax_vmax) simp
  with Cons show ?case using max_of_four [of "mmax a" "mmax v"] by (simp add: lanes2_def)
qed (simp add: lanes2_def)

lemma minmax4_vmin:
  "length as = length vs \<Longrightarrow> \<forall>a \<in> set as. length a = 8 \<Longrightarrow> \<forall>v \<in> set vs. length v = 8 \<Longrightarrow>
    (\<forall>a \<in> set (lanes2 vmin as vs). length a = 8) \<and>
    mmin (concat (lanes2 vmin as vs)) = min (mmin (concat as)) (mmin (concat vs))"
proof (induction as vs rule: list_induct2)
  case (Cons a as v vs)
  then have "mmin (vmin a v) = min (mmin a) (mmin v)" by (intro mmin_vmin) simp
  with Cons show ?case using min_of_four [of "mmin a" "mmin v"] by (simp add: lanes2_def)
qed (simp add: lanes2_def)

lemma minmax4_step:
  assumes "vecs4 as" "vecs4 vs"
  shows "vecs4 (lanes2 vmax as vs)" "mmax (concat (lanes2 vmax as vs)) = max (mmax (concat as)) (mmax (concat vs))"
    "vecs4 (lanes2 vmin as vs)" "mmin (concat (lanes2 vmin as vs)) = min (mmin (concat as)) (mmin (concat vs))"
  using assms minmax4_vmax [of as vs] minmax4_vmin [of as vs] unfolding vecs4_def by simp_all

lemma neon_minmax4_spec:
  assumes "neon_minmax4 p i mx mn = (i', mx', mn')" "i \<le> length p" "vecs4 mx" "vecs4 mn"
  shows "i \<le> i' \<and> i' \<le> length p \<and> vecs4 mx' \<and> vecs4 mn' \<and>
    mmax (concat mx') = max (mmax (concat mx)) (mmax (seg p i i')) \<and>
    mmin (concat mn') = min (mmin (concat mn)) (mmin (seg p i i'))"
  using assms
proof (induction p i mx mn rule: neon_minmax4.induct)
  case (1 p i mx mn)
  show ?case
  proof (cases "i + 32 \<le> length p")
    case True
    have v: "vecs4 (load4 p i)" using load4_vecs [OF True] by (auto simp: vecs4_def)
    have step: "neon_minmax4 p (i + 32) (lanes2 vmax mx (load4 p i)) (lanes2 vmin mn (load4 p i)) = (i', mx', mn')"
      using "1.prems"(1) True by (subst (asm) neon_minmax4.simps) simp
    from "1.IH" [OF True step] True minmax4_step [OF "1.prems"(3) v] minmax4_step [OF "1.prems"(4) v]
    have IH: "i + 32 \<le> i' \<and> i' \<le> length p \<and> vecs4 mx' \<and> vecs4 mn' \<and>
      mmax (concat mx') = max (mmax (concat mx)) (max (mmax (concat (load4 p i))) (mmax (seg p (i + 32) i'))) \<and>
      mmin (concat mn') = min (mmin (concat mn)) (min (mmin (concat (load4 p i))) (mmin (seg p (i + 32) i')))"
      by (simp add: ac_simps)
    have "seg p i i' = concat (load4 p i) @ seg p (i + 32) i'"
      using IH seg_append [of i "i + 32" i' p] by (simp add: concat_load4)
    then show ?thesis using IH by simp
  next
    case False
    then show ?thesis using "1.prems" mmin_le [of "concat mn"] by (subst (asm) neon_minmax4.simps) auto
  qed
qed

lemma mmax_seg: "i \<le> length p \<Longrightarrow> mmax p = max (mmax (seg p 0 i)) (mmax (drop i p))"
  by (metis mmax_append drop_seg drop0 zero_le)

lemma mmin_seg: "i \<le> length p \<Longrightarrow> mmin p = min (mmin (seg p 0 i)) (mmin (drop i p))"
  by (metis mmin_append drop_seg drop0 zero_le)


lemma join4_minmax:
  assumes "vecs4 as"
  shows "mmax (join4 vmax as) = mmax (concat as)" "mmin (join4 vmin as) = mmin (concat as)"
proof -
  obtain a b c d where as: "as = [a, b, c, d]" using assms by (auto simp only: vecs4_def list4)
  have l: "length a = 8" "length b = 8" "length c = 8" "length d = 8" using assms by (simp_all add: as vecs4_def)
  show "mmax (join4 vmax as) = mmax (concat as)" unfolding as by (simp add: join4_def mmax_vmax l del: max.assoc)
  show "mmin (join4 vmin as) = mmin (concat as)" unfolding as
    using mmin_le [of d] by (simp add: join4_def mmin_vmin l del: min.assoc)
qed

lemma mmax_all: "\<forall>x \<in> set q. x = 0 \<Longrightarrow> mmax q = 0"
  by (induction q) auto

lemma mmin_all: "\<forall>x \<in> set q. x = 0xFFFF \<Longrightarrow> mmin q = 0xFFFF"
  by (induction q) auto

lemma splat_minmax: "mmax (splat 0) = 0" "mmin (splat 0xFFFF) = 0xFFFF" "mmax (concat (splat4 0)) = 0"
  "mmin (concat (splat4 0xFFFF)) = 0xFFFF" "vecs4 (splat4 x)"
  by (auto intro!: mmax_all mmin_all simp: splat_def splat4_def vecs4_def)

lemma range_neon_eq: "range_neon p = (mmax p, mmin p)"
proof -
  obtain i mx mn where r: "neon_minmax4 p 0 (splat4 0) (splat4 0xFFFF) = (i, mx, mn)" by (metis prod_cases3)
  from neon_minmax4_spec [OF r] have a: "i \<le> length p" "vecs4 mx" "vecs4 mn"
    "mmax (concat mx) = mmax (seg p 0 i)" "mmin (concat mn) = mmin (seg p 0 i)"
    using mmin_le [of "seg p 0 i"] by (auto simp: splat_minmax min_def)
  obtain a0 a1 a2 a3 where mx: "mx = [a0, a1, a2, a3]" using a(2) by (auto simp only: vecs4_def list4)
  obtain b0 b1 b2 b3 where mn: "mn = [b0, b1, b2, b3]" using a(3) by (auto simp only: vecs4_def list4)
  have l: "length a0 = 8" "length b0 = 8" using a(2,3) by (simp_all add: mx mn vecs4_def)
  obtain i' mx0 mn0 where r': "neon_minmax p i a0 b0 = (i', mx0, mn0)" by (metis prod_cases3)
  from neon_minmax_spec [OF r' a(1) l] have b: "i \<le> i'" "i' \<le> length p" "length mx0 = 8" "length mn0 = 8"
    "mmax mx0 = max (mmax a0) (mmax (seg p i i'))" "mmin mn0 = min (mmin b0) (mmin (seg p i i'))" by auto
  have v: "vecs4 (mx[0 := mx0])" "vecs4 (mn[0 := mn0])" using a(2,3) b by (simp_all add: mx mn vecs4_def)
  have sg: "seg p 0 i' = seg p 0 i @ seg p i i'" using b(1) by (intro seg_append) auto
  have mx': "mmax (concat (mx[0 := mx0])) = mmax (seg p 0 i')"
    unfolding sg using a(4) b(5) by (simp add: mx)
  have mn': "mmin (concat (mn[0 := mn0])) = mmin (seg p 0 i')"
    unfolding sg using a(5) b(6) by (simp add: mn)
  have n: "mmin (seg p 0 i') \<le> 0xFFFF" by (rule mmin_le)
  have "range_neon p = minmax_tail p i' (mmax (seg p 0 i')) (mmin (seg p 0 i'))"
    using r r' join4_minmax(1) [OF v(1)] join4_minmax(2) [OF v(2)] mx' mn'
    by (simp add: range_neon_def vmaxv_eq vminv_eq mx mn)
  then show ?thesis
    using minmax_tail_spec [OF b(2) n] mmax_seg [OF b(2)] mmin_seg [OF b(2)] by simp
qed

text \<open>The SSE2 pass is the same on units with the top bit flipped.\<close>

definition flip :: "vec \<Rightarrow> vec" where
  "flip v = map (\<lambda>x. x XOR 0x8000) v"

lemma smax_flip: "length a = length b \<Longrightarrow> smax16 (flip a) (flip b) = flip (vmax a b)"
  by (induction a b rule: list_induct2) (auto simp: smax16_def vmax_def lanes2_def flip_def sint_flip word_less_def)

lemma smin_flip: "length a = length b \<Longrightarrow> smin16 (flip a) (flip b) = flip (vmin a b)"
  by (induction a b rule: list_induct2) (auto simp: smin16_def vmin_def lanes2_def flip_def sint_flip word_less_def)

lemma load_flip: "i + 8 \<le> length p \<Longrightarrow> xor128 (load p i) sign = flip (load p i)"
  by (simp add: xor128_def sign_def flip_def)

lemma sse2_minmax_flip:
  "length mx = 8 \<Longrightarrow> length mn = 8 \<Longrightarrow>
    sse2_minmax p i (flip mx) (flip mn) = (case neon_minmax p i mx mn of (i', mx', mn') \<Rightarrow> (i', flip mx', flip mn'))"
proof (induction p i mx mn rule: neon_minmax.induct)
  case (1 p i mx mn)
  show ?case
  proof (cases "i + 8 \<le> length p")
    case True
    have l: "length (load p i) = 8" using True by simp
    show ?thesis
      by (subst sse2_minmax.simps, subst neon_minmax.simps)
        (simp add: True Let_def load_flip smax_flip smin_flip "1.IH" [OF True] "1.prems" l)
  next
    case False
    then show ?thesis by (subst sse2_minmax.simps, subst neon_minmax.simps) simp
  qed
qed

lemma flip_splat: "splat (- 32768) = flip (splat 0)" "splat 32767 = flip (splat 0xFFFF)"
  by (simp_all add: flip_def splat_def)

lemma rep2: "replicate 2 x = [x, x]" and rep4: "replicate 4 x = [x, x, x, x]"
  by (simp_all add: eval_nat_numeral)

lemma srli_lanes:
  "srli128 [a, b, c, d, e, f, g, h] 8 = [e, f, g, h, 0, 0, 0, 0]"
  "srli128 [a, b, c, d, e, f, g, h] 4 = [c, d, e, f, g, h, 0, 0]"
  "srli128 [a, b, c, d, e, f, g, h] 2 = [b, c, d, e, f, g, h, 0]"
  by (simp_all add: srli128_def rep2 rep4)

lemma max8: "max (max (max a e) (max c g)) (max (max b f) (max d h)) =
    max a (max b (max c (max d (max e (max f (max g (max h (0 :: nat))))))))"
  by (simp only: ac_simps max_0L)

lemma min8: "h \<le> n \<Longrightarrow> min (min (min a e) (min c g)) (min (min b f) (min d h)) =
    min a (min b (min c (min d (min e (min f (min g (min h (n :: nat))))))))"
  by (simp only: ac_simps min_absorb1)

lemma hmax_flip:
  assumes "length v = 8"
  shows "sse2_hmax (flip v) = mmax v" "sse2_hmin (flip v) = mmin v"
proof -
  obtain a b c d e f g h where v: "v = [a, b, c, d, e, f, g, h]" using assms by (auto simp only: list8)
  define mx where "mx x y = (if sint x < sint y then y else x)" for x y :: "16 word"
  define mn where "mn x y = (if sint y < sint x then y else x)" for x y :: "16 word"
  have mxf: "mx (x XOR 0x8000) (y XOR 0x8000) = (if x < y then y else x) XOR 0x8000" for x y
    by (simp add: mx_def sint_flip word_less_def)
  have mnf: "mn (x XOR 0x8000) (y XOR 0x8000) = (if y < x then y else x) XOR 0x8000" for x y
    by (simp add: mn_def sint_flip word_less_def)
  have "sse2_hmax (flip v) = unat (mx (mx (mx (a XOR 0x8000) (e XOR 0x8000)) (mx (c XOR 0x8000) (g XOR 0x8000)))
      (mx (mx (b XOR 0x8000) (f XOR 0x8000)) (mx (d XOR 0x8000) (h XOR 0x8000))) XOR 0x8000)"
    unfolding v sse2_hmax_def smax16_def mx_def [symmetric] by (simp add: flip_def lanes2_def srli_lanes)
  then show "sse2_hmax (flip v) = mmax v"
    unfolding mxf v by (simp only: xor.assoc xor_self_eq xor.right_neutral unat_max max8 mmax.simps)
  have "sse2_hmin (flip v) = unat (mn (mn (mn (a XOR 0x8000) (e XOR 0x8000)) (mn (c XOR 0x8000) (g XOR 0x8000)))
      (mn (mn (b XOR 0x8000) (f XOR 0x8000)) (mn (d XOR 0x8000) (h XOR 0x8000))) XOR 0x8000)"
    unfolding v sse2_hmin_def smin16_def mn_def [symmetric] by (simp add: flip_def lanes2_def srli_lanes)
  then show "sse2_hmin (flip v) = mmin v"
    unfolding mnf v by (simp only: xor.assoc xor_self_eq xor.right_neutral unat_min min8 [OF unit_le] mmin.simps)
qed


lemma range_sse2_eq: "range_sse2 p = (mmax p, mmin p)"
proof -
  obtain i mx mn where r: "neon_minmax p 0 (splat 0) (splat 0xFFFF) = (i, mx, mn)" by (metis prod_cases3)
  from neon_minmax_spec [OF r] have a: "i \<le> length p" "length mx = 8" "length mn = 8"
    "mmax mx = mmax (seg p 0 i)" "mmin mn = mmin (seg p 0 i)"
    using mmin_le [of "seg p 0 i"] by (auto simp: splat_minmax min_def)
  have "sse2_minmax p 0 (splat (- 32768)) (splat 32767) = (i, flip mx, flip mn)"
    unfolding flip_splat by (simp add: sse2_minmax_flip r)
  then have "range_sse2 p = minmax_tail p i (mmax (seg p 0 i)) (mmin (seg p 0 i))"
    using a by (simp add: range_sse2_def hmax_flip)
  then show ?thesis
    using minmax_tail_spec [OF a(1) mmin_le] mmax_seg [OF a(1)] mmin_seg [OF a(1)] by simp
qed

section \<open>One-byte text\<close>

definition count80 :: "byte list \<Rightarrow> nat" where
  "count80 v = length (filter (\<lambda>b. 0x80 \<le> b) v)"

lemma count80_simps [simp]: "count80 [] = 0" "count80 (b # v) = (if 0x80 \<le> b then Suc (count80 v) else count80 v)"
  "count80 (v @ w) = count80 v + count80 w"
  by (simp_all add: count80_def)

lemma ge80_bytes_sum: "sum_list (map unat (ge80_bytes v)) = count80 v" "\<forall>x \<in> set (ge80_bytes v). unat x \<le> 1"
  by (induction v) (auto simp: ge80_bytes_def)

lemma upto_8: "[0..<8] = [0, 1, 2, 3, 4, 5, 6, 7]" and upto_16: "[0..<16] = [0, 1, 2, 3, 4, 5, 6, 7, 8, 9, 10, 11, 12, 13, 14, 15]"
  by (simp_all add: eval_nat_numeral upt_Suc)

lemma sum_by_index: "sum_list (map f v) = sum_list (map (\<lambda>k. f (v ! k)) [0..<length v])"
proof -
  have "map f v = map (\<lambda>k. f (v ! k)) [0..<length v]" by (rule nth_equalityI) simp_all
  then show ?thesis by simp
qed

lemma vpadal_total:
  assumes "wide m a" "length w = 16" "\<forall>x \<in> set w. unat x \<le> 1" "m + 2 < 65536"
  shows "wide (m + 2) (vpadal a w)" "total (vpadal a w) = total a + sum_list (map unat w)"
proof -
  have lane: "unat (a ! k + (ucast (w ! (2 * k)) + ucast (w ! (2 * k + 1)))) =
      unat (a ! k) + (unat (w ! (2 * k)) + unat (w ! (2 * k + 1)))"
    and bnd: "unat (a ! k) \<le> m" "unat (w ! (2 * k)) \<le> 1" "unat (w ! (2 * k + 1)) \<le> 1" if "k < 8" for k
  proof -
    show b: "unat (a ! k) \<le> m" "unat (w ! (2 * k)) \<le> 1" "unat (w ! (2 * k + 1)) \<le> 1"
      using assms that by (auto simp: wide_def)
    have u: "unat (ucast x :: 16 word) = unat x" for x :: byte
      using unsigned_less [of x, where 'a = nat] by (simp add: unsigned_ucast_eq take_bit_nat_eq_self)
    have "unat (ucast (w ! (2 * k)) + ucast (w ! (2 * k + 1)) :: 16 word) = unat (w ! (2 * k)) + unat (w ! (2 * k + 1))"
      using lane_plus [of "ucast (w ! (2 * k))" "ucast (w ! (2 * k + 1))"] b(2,3) by (simp add: u)
    then show "unat (a ! k + (ucast (w ! (2 * k)) + ucast (w ! (2 * k + 1)))) =
      unat (a ! k) + (unat (w ! (2 * k)) + unat (w ! (2 * k + 1)))"
      using lane_plus [of "a ! k" "ucast (w ! (2 * k)) + ucast (w ! (2 * k + 1))"] b assms(4) by simp
  qed
  have l: "length a = 8" using assms(1) by (simp add: wide_def)
  show "wide (m + 2) (vpadal a w)"
    unfolding wide_def vpadal_def using lane bnd by (fastforce intro: add_mono)
  have "total (vpadal a w) = sum_list (map (\<lambda>k. unat (a ! k) + (unat (w ! (2 * k)) + unat (w ! (2 * k + 1)))) [0..<8])"
    unfolding total_def vpadal_def map_map using lane by (intro arg_cong [where f = sum_list]) simp
  also have "\<dots> = total a + sum_list (map unat w)"
    unfolding total_def sum_by_index [of unat a] sum_by_index [of unat w] assms(2) l by (simp add: upto_8 upto_16)
  finally show "total (vpadal a w) = total a + sum_list (map unat w)" .
qed


lemma latin1_step4:
  assumes "wide4 m as" "length vs = 4" "\<forall>v \<in> set vs. length v = 16" "m + 2 < 65536"
  shows "wide4 (m + 2) (lanes2 (\<lambda>a v. vpadal a (ge80_bytes v)) as vs)"
    and "total4 (lanes2 (\<lambda>a v. vpadal a (ge80_bytes v)) as vs) = total4 as + count80 (concat vs)"
proof -
  have "length as = length vs" using assms(1,2) by (simp add: wide4_def)
  then have "(\<forall>a \<in> set as. wide m a) \<longrightarrow> (\<forall>v \<in> set vs. length v = 16) \<longrightarrow>
    (\<forall>a \<in> set (lanes2 (\<lambda>a v. vpadal a (ge80_bytes v)) as vs). wide (m + 2) a) \<and>
    total4 (lanes2 (\<lambda>a v. vpadal a (ge80_bytes v)) as vs) = total4 as + count80 (concat vs)"
  proof (induction as vs rule: list_induct2)
    case (Cons a as v vs)
    show ?case
    proof (intro impI)
      assume h: "\<forall>a \<in> set (a # as). wide m a" "\<forall>v \<in> set (v # vs). length v = 16"
      then have "wide (m + 2) (vpadal a (ge80_bytes v))" "total (vpadal a (ge80_bytes v)) = total a + count80 v"
        using vpadal_total [OF _ _ ge80_bytes_sum(2) assms(4)] ge80_bytes_sum(1) by (simp_all add: ge80_bytes_def)
      then show "(\<forall>a \<in> set (lanes2 (\<lambda>a v. vpadal a (ge80_bytes v)) (a # as) (v # vs)). wide (m + 2) a) \<and>
        total4 (lanes2 (\<lambda>a v. vpadal a (ge80_bytes v)) (a # as) (v # vs)) = total4 (a # as) + count80 (concat (v # vs))"
        using Cons h by (simp add: lanes2_def total4_def)
    qed
  qed (simp add: lanes2_def total4_def)
  then show "wide4 (m + 2) (lanes2 (\<lambda>a v. vpadal a (ge80_bytes v)) as vs)"
    "total4 (lanes2 (\<lambda>a v. vpadal a (ge80_bytes v)) as vs) = total4 as + count80 (concat vs)"
    using assms(1-3) by (auto simp: wide4_def)
qed

lemma bytes4:
  assumes "i + 64 \<le> length p"
  shows "\<forall>v \<in> set (map (\<lambda>k. load_bytes p (i + 16 * k)) [0, 1, 2, 3]). length v = 16"
    and "concat (map (\<lambda>k. load_bytes p (i + 16 * k)) [0, 1, 2, 3]) = seg p i (i + 64)"
proof -
  have b: "load_bytes p j = seg p j (j + 16)" for j by (simp add: load_bytes_def seg_def)
  show "\<forall>v \<in> set (map (\<lambda>k. load_bytes p (i + 16 * k)) [0, 1, 2, 3]). length v = 16"
    using assms by (auto simp: load_bytes_def)
  show "concat (map (\<lambda>k. load_bytes p (i + 16 * k)) [0, 1, 2, 3]) = seg p i (i + 64)"
    using seg_append [of i "i + 16" "i + 64" p] seg_append [of "i + 16" "i + 32" "i + 64" p]
      seg_append [of "i + 32" "i + 48" "i + 64" p] by (simp add: b ac_simps)
qed

lemma latin1_for_spec:
  assumes "latin1_for p i e a = (j, a')" "i \<le> e" "e \<le> length p" "wide4 m a" "m + 2 * ((e - i) div 64) \<le> 1024"
  shows "i \<le> j \<and> j \<le> e \<and> (\<exists>m'. m' \<le> 1024 \<and> wide4 m' a') \<and> total4 a' = total4 a + count80 (seg p i j)"
  using assms
proof (induction p i e a arbitrary: m rule: latin1_for.induct)
  case (1 p i e a)
  show ?case
  proof (cases "i + 64 \<le> e")
    case True
    let ?v = "map (\<lambda>k. load_bytes p (i + 16 * k)) [0, 1, 2, 3]"
    have b: "i + 64 \<le> length p" using True "1.prems"(3) by simp
    have m: "m + 2 < 65536" "(m + 2) + 2 * ((e - (i + 64)) div 64) \<le> 1024" using "1.prems"(5) True le_div_geq [of 64 "e - i"] by auto
    note w = latin1_step4 [OF "1.prems"(4) _ bytes4(1) [OF b] m(1)]
    have step: "latin1_for p (i + 64) e (lanes2 (\<lambda>a v. vpadal a (ge80_bytes v)) a ?v) = (j, a')"
      using "1.prems"(1) True by (subst (asm) latin1_for.simps) simp
    have IH: "i + 64 \<le> j \<and> j \<le> e \<and> (\<exists>m'. m' \<le> 1024 \<and> wide4 m' a') \<and>
      total4 a' = total4 (lanes2 (\<lambda>a v. vpadal a (ge80_bytes v)) a ?v) + count80 (seg p (i + 64) j)"
      by (rule "1.IH" [OF True step _ _ _ m(2)]) (use True "1.prems"(3) w in simp_all)
    have "seg p i j = concat ?v @ seg p (i + 64) j" using IH seg_append [of i "i + 64" j p] by (simp only: bytes4(2) [OF b])
    then show ?thesis using IH w by simp
  next
    case False
    then show ?thesis using "1.prems" by (subst (asm) latin1_for.simps) auto
  qed
qed

lemma latin1_count_spec:
  assumes "latin1_count p i cnt = (j, cnt')" "i \<le> length p"
  shows "i \<le> j \<and> j \<le> length p \<and> length p < j + 64 \<and> cnt' = cnt + int (count80 (seg p i j))"
  using assms
proof (induction p i cnt rule: latin1_count.induct)
  case (1 p i cnt)
  show ?case
  proof (cases "i + 64 \<le> length p")
    case True
    let ?e = "min (i + 4096) (length p)"
    obtain k a where r: "latin1_for p i ?e (splat4 0) = (k, a)" by fastforce
    have bd: "i \<le> ?e" "?e \<le> length p" "0 + 2 * ((?e - i) div 64) \<le> 1024" using True by (auto simp: min_def)
    from latin1_for_spec [OF r bd(1,2) _ bd(3)] obtain m where s: "i \<le> k" "k \<le> ?e" "m \<le> 1024" "wide4 m a"
      "total4 a = count80 (seg p i k)" by auto
    have "latin1_count p k (cnt + int (total4 a)) = (j, cnt')"
      using "1.prems"(1) True r s by (subst (asm) latin1_count.simps) (simp add: join4_total)
    with "1.IH" [OF True r [symmetric]] s
    have IH: "k \<le> j" "j \<le> length p" "length p < j + 64" "cnt' = cnt + int (total4 a) + int (count80 (seg p k j))"
      by (simp_all add: join4_total)
    have "seg p i j = seg p i k @ seg p k j" using IH(1) s(1) by (rule seg_append [rotated])
    then show ?thesis using IH s by simp
  next
    case False
    then show ?thesis using "1.prems" by (subst (asm) latin1_count.simps) auto
  qed
qed

lemma latin1_count1_spec:
  assumes "latin1_count1 p i a = (j, a')" "i \<le> length p" "wide m a" "m + 2 * ((length p - i) div 16) \<le> 1024"
  shows "i \<le> j \<and> j \<le> length p \<and> total a' = total a + count80 (seg p i j)"
  using assms
proof (induction p i a arbitrary: m rule: latin1_count1.induct)
  case (1 p i a)
  show ?case
  proof (cases "i + 16 \<le> length p")
    case True
    have m: "m + 2 < 65536" "(m + 2) + 2 * ((length p - (i + 16)) div 16) \<le> 1024"
      using "1.prems"(4) True le_div_geq [of 16 "length p - i"] by auto
    have l: "length (ge80_bytes (load_bytes p i)) = 16" using True by (simp add: ge80_bytes_def load_bytes_def)
    note w = vpadal_total [OF "1.prems"(3) l ge80_bytes_sum(2) m(1)]
    have step: "latin1_count1 p (i + 16) (vpadal a (ge80_bytes (load_bytes p i))) = (j, a')"
      using "1.prems"(1) True by (subst (asm) latin1_count1.simps) simp
    from "1.IH" [OF True step _ w(1) m(2)] True
    have IH: "i + 16 \<le> j \<and> j \<le> length p \<and> total a' = total a + count80 (load_bytes p i) + count80 (seg p (i + 16) j)"
      by (simp add: w ge80_bytes_sum)
    have "seg p i j = load_bytes p i @ seg p (i + 16) j"
      using IH seg_append [of i "i + 16" j p] by (simp add: load_bytes_def seg_def)
    then show ?thesis using IH by simp
  next
    case False
    then show ?thesis using "1.prems" by (subst (asm) latin1_count1.simps) auto
  qed
qed

lemma latin1_tail_spec: "i \<le> length p \<Longrightarrow> latin1_tail p i cnt = cnt + int (count80 (drop i p))"
proof (induction p i cnt rule: latin1_tail.induct)
  case (1 p i cnt)
  show ?case
  proof (cases "i < length p")
    case True
    have "drop i p = p ! i # drop (Suc i) p" using True by (simp add: Cons_nth_drop_Suc)
    then show ?thesis using 1 True by (subst latin1_tail.simps) simp
  next
    case False
    then show ?thesis using "1.prems" by (subst latin1_tail.simps) simp
  qed
qed

lemma latin1_eq: "latin1ByteLength p = int (length p + count80 p)"
proof -
  obtain i cnt where r: "latin1_count p 0 0 = (i, cnt)" by fastforce
  from latin1_count_spec [OF r] have i: "i \<le> length p" "length p < i + 64" "cnt = int (count80 (seg p 0 i))" by auto
  obtain j a where r': "latin1_count1 p i (splat 0) = (j, a)" by fastforce
  have b: "0 + 2 * ((length p - i) div 16) \<le> 1024" using i(2) by simp
  from latin1_count1_spec [OF r' i(1) _ b] have j: "i \<le> j" "j \<le> length p" "total a = count80 (seg p i j)" by auto
  have "p = seg p 0 i @ seg p i j @ drop j p" using drop_seg [of 0 i p] drop_seg [OF j(1), of p] by simp
  then have "count80 p = count80 (seg p 0 i) + count80 (seg p i j) + count80 (drop j p)"
    by (metis add.assoc count80_simps(3))
  then show ?thesis using i j by (simp add: latin1ByteLength_def r r' latin1_tail_spec hsum_neon_total)
qed


section \<open>The length in UTF-8\<close>

lemma and_fc00: "unat (c AND 0xFC00 :: 16 word) = unat c div 1024 * 1024"
proof -
  let ?n = "unat c"
  have "(?n AND 1023) AND (?n AND 64512) = ?n AND (1023 AND 64512)" by (simp only: ac_simps and.left_idem)
  then have "(?n AND 1023) + (?n AND 64512) = (?n AND 1023) OR (?n AND 64512)"
    by (intro disjunctive_add_eq_or) simp
  also have "\<dots> = ?n AND (1023 OR 64512)"
    by (rule bit_eqI) (auto simp only: bit_and_iff bit_or_iff)
  also have "\<dots> = take_bit 16 ?n" by (simp add: take_bit_eq_mask mask_eq_exp_minus_1)
  also have "\<dots> = ?n" using unsigned_less [of c, where 'a = nat] by (simp add: take_bit_nat_eq_self)
  finally have "(?n AND 1023) + (?n AND 64512) = ?n" .
  moreover have "?n AND 1023 = ?n mod 1024"
    using take_bit_eq_mask [of 10 ?n] by (simp add: take_bit_eq_mod mask_eq_exp_minus_1)
  ultimately show ?thesis
    by (simp add: unsigned_and_eq) (metis add_diff_cancel_left' minus_mod_eq_div_mult)
qed

lemma surrogate_masks: "is_hi c = high_surrogate c" "is_lo c = low_surrogate c"
proof -
  have "(c AND 0xFC00 = 0xD800) = (unat c div 1024 = 54)" "(c AND 0xFC00 = 0xDC00) = (unat c div 1024 = 55)"
    using and_fc00 [of c] by (auto simp: word_unat_eq_iff)
  then show "is_hi c = high_surrogate c" "is_lo c = low_surrogate c"
    by (auto simp: is_hi_def is_lo_def high_surrogate_def low_surrogate_def word_nat)
qed

lemma hi_lo: "\<not> (high_surrogate c \<and> low_surrogate c)"
  by (auto simp: high_surrogate_def low_surrogate_def word_nat)

lemma utf16_chars_Cons:
  "utf16_chars (c # cs) =
     (if \<not> high_surrogate c \<and> \<not> low_surrogate c then unat c # utf16_chars cs
      else if high_surrogate c \<and> cs \<noteq> [] \<and> low_surrogate (hd cs)
      then (0x10000 + (unat c - 0xD800) * 1024 + (unat (hd cs) - 0xDC00)) # utf16_chars (tl cs)
      else 0xFFFD # utf16_chars cs)"
  unfolding utf16_chars_def
  by (subst chars.simps) (cases cs; simp add: utf16_step_def)

lemma length_enc8_unit: "\<not> high_surrogate c \<Longrightarrow> length (enc8 (unat c)) = 1 + (if ge 0x80 c then 1 else 0) + (if ge 0x800 c then 1 else 0)"
  using unsigned_less [of c, where 'a = nat] by (auto simp: enc8_def ge_def)

lemma utf8_count:
  "length (concat (map enc8 (utf16_chars p))) + 2 * pairs_in False p = length p + count_ge 0x80 p + count_ge 0x800 p"
proof (induction "length p" arbitrary: p rule: less_induct)
  case less
  show ?case
  proof (cases p)
    case Nil
    then show ?thesis by (simp add: utf16_chars_def)
  next
    case (Cons c cs)
    have pr: "pairs_in False (c # cs) = pairs_in (high_surrogate c) cs" by (simp add: pairs_in_def surrogate_masks)
    have ct: "count_ge t (c # cs) = (if ge t c then 1 else 0) + count_ge t cs" for t by (simp add: count_ge_def)
    have IH: "length (concat (map enc8 (utf16_chars cs))) + 2 * pairs_in False cs = length cs + count_ge 0x80 cs + count_ge 0x800 cs"
      using less Cons by simp
    consider (plain) "\<not> high_surrogate c" "\<not> low_surrogate c"
      | (pair) "high_surrogate c" "cs \<noteq> []" "low_surrogate (hd cs)"
      | (lone) "high_surrogate c \<or> low_surrogate c" "\<not> (high_surrogate c \<and> cs \<noteq> [] \<and> low_surrogate (hd cs))" by blast
    then show ?thesis
    proof cases
      case plain
      then show ?thesis using IH length_enc8_unit [of c] by (simp add: Cons pr ct utf16_chars_Cons)
    next
      case pair
      then obtain d ds where cs: "cs = d # ds" by (cases cs) auto
      have "length (concat (map enc8 (utf16_chars ds))) + 2 * pairs_in False ds = length ds + count_ge 0x80 ds + count_ge 0x800 ds"
        using less Cons cs by simp
      moreover have "\<not> high_surrogate d" using pair hi_lo [of d] by (simp add: cs)
      moreover have "ge 0x80 c" "ge 0x800 c" "ge 0x80 d" "ge 0x800 d"
        using pair by (auto simp: cs ge_def high_surrogate_def low_surrogate_def word_nat)
      ultimately show ?thesis using pair
        by (simp add: Cons cs pr utf16_chars_Cons pairs_in_def surrogate_masks count_ge_def enc8_def)
    next
      case lone
      have "pairs_in (high_surrogate c) cs = pairs_in False cs"
        using lone by (cases cs) (auto simp: pairs_in_def surrogate_masks)
      moreover have "ge 0x80 c" "ge 0x800 c"
        using lone by (auto simp: ge_def high_surrogate_def low_surrogate_def word_nat)
      moreover have "utf16_chars (c # cs) = 0xFFFD # utf16_chars cs" using lone by (auto simp: utf16_chars_Cons)
      ultimately show ?thesis using IH by (simp add: Cons pr ct enc8_def)
    qed
  qed
qed


lemma count_ge_all: "\<forall>c \<in> set p. t \<le> unat c \<Longrightarrow> count_ge t p = length p"
  by (induction p) (auto simp: count_ge_def ge_def)

lemma count_ge_none: "\<forall>c \<in> set p. unat c < t \<Longrightarrow> count_ge t p = 0"
  by (induction p) (auto simp: count_ge_def ge_def)

lemma pairs_none: "\<forall>c \<in> set p. unat c < 0xD800 \<Longrightarrow> pairs_in h p = 0"
proof (induction p arbitrary: h)
  case (Cons c p)
  then have "\<not> is_lo c" by (auto simp: surrogate_masks low_surrogate_def word_nat)
  with Cons show ?case by (simp add: pairs_in_def)
qed simp

lemma range_eq:
  "(case arch of SSE2 \<Rightarrow> range_sse2 p | NEON \<Rightarrow> range_neon p | Plain \<Rightarrow> minmax_tail p 0 0 0xFFFF) = (mmax p, mmin p)"
  using mmin_le [of p] by (cases arch) (simp_all add: range_sse2_eq range_neon_eq minmax_tail_spec min_def)

lemma two_byte_count:
  "utf8ByteLength arch f (TwoByte p) = int (length p) + int (count_ge 0x80 p) + int (count_ge 0x800 p) - 2 * int (pairs_in False p)"
proof -
  have none: "pairs_in False p = 0" if "mmax p < 0xD800" using that by (intro pairs_none) (simp add: mmax_less)
  have a: "count_ge 0x80 p = 0" if "mmax p < 0x80" using that by (intro count_ge_none) (simp add: mmax_less)
  have b: "count_ge 0x800 p = 0" if "mmax p < 0x800" using that by (intro count_ge_none) (simp add: mmax_less)
  have c: "count_ge 0x80 p = length p" if "0x80 \<le> mmin p" using that by (intro count_ge_all) (simp add: mmin_ge)
  have d: "count_ge 0x800 p = length p" if "0x800 \<le> mmin p" using that by (intro count_ge_all) (simp add: mmin_ge)
  have n: "surrogates_neon p (mmin p) = int (length p) + int (count_ge 0x80 p) + int (count_ge 0x800 p) - 2 * int (pairs_in False p)"
    by (rule surrogates_neon_eq) (use c d in auto)
  show ?thesis
  proof (cases "p = []")
    case False
    show ?thesis
      unfolding utf8ByteLength_def string_view.case range_eq prod.case
      using False a b c d none
      by (cases arch) (auto simp: mixed_sse2_eq mixed_neon_eq surrogates_sse2_eq n count_tail_spec pairs_tail_spec)
  qed (simp add: utf8ByteLength_def)
qed

lemma one_byte_count: "length (concat (map (\<lambda>b. enc8 (unat b)) q)) = length q + count80 q"
proof (induction q)
  case (Cons b q)
  have "unat b < 256" by (rule unat_byte_less)
  then have "length (enc8 (unat b)) = (if 0x80 \<le> b then 2 else 1)" by (simp add: enc8_def word_nat)
  with Cons show ?case by simp
qed simp

text \<open>
  C29: on every processor and by every tier, \<open>utf8ByteLength\<close> is the length of the text in UTF-8, with three
  bytes for a surrogate without its other half; the vector accumulators never wrap, however long the
  text is.
\<close>

theorem utf8_byte_length:
  "utf8ByteLength arch f (TwoByte p) = int (length (concat (map enc8 (utf16_chars p)))) \<and>
    utf8ByteLength NEON f (OneByte q) = int (length (concat (map (\<lambda>b. enc8 (unat b)) q)))"
  using two_byte_count [of arch f p] utf8_count [of p] latin1_eq [of q] one_byte_count [of q]
  by (simp add: utf8ByteLength_def)

text \<open>So the memory \<open>Buffer.from\<close> takes is exactly what the conversion to UTF-8 fills.\<close>

lemma allocation_fits:
  assumes "transcoder utf16_step enc8 S" "4 * length p < 2 ^ 64"
  shows "utf8ByteLength arch f (TwoByte p) = int (length (utf16to8String S p))"
  using two_byte_count [of arch f p] utf8_count [of p] by (simp add: utf16to8String_eq [OF assms])

end
