(* ===== verification/TextParser.thy ===== *)
theory TextParser
  imports QueryProps BufferedProps
begin

text \<open>
  The text cursor of \<^verbatim>\<open>include/parse.h\<close>, class \<open>_parser\<close>, which the HTTP messages, the chunked bodies
  and the cookies are read with, and the character classes and the search of
  \<^verbatim>\<open>include/qstring.h\<close> used beside it. A cursor is its text and a position; reading at the end or
  beyond gives NUL, and every loop stops at a NUL, also one inside the text. The overloads of
  \<open>skipWord\<close>, \<open>getWord\<close>, \<open>skipUntil\<close> and \<open>getString\<close> that take one to eleven characters are one function
  of the list of them.
\<close>

section \<open>Character classes\<close>

definition qisspace :: "char \<Rightarrow> bool" where
  "qisspace c \<longleftrightarrow> c = CHR '' '' \<or> c = CHR 0x0D \<or> c = CHR 0x0A \<or> c = CHR 0x09"

text \<open>
  \<open>qstristr\<close>: the first place at which the second C string occurs, whatever the case of its letters.
  The first test is \<open>qstrichr\<close>, the second \<open>qstricmp\<close>.
\<close>

fun istr_find :: "string \<Rightarrow> string \<Rightarrow> string option" where
  "istr_find [] str = None"
| "istr_find (c # s) str =
     (if c = CHR 0x00 then None
      else if qtolower c = qtolower (hd str) \<and> qstricmp (c # s) str (int (length str)) = 0 then Some (c # s)
      else istr_find s str)"

definition qstristr :: "string \<Rightarrow> string \<Rightarrow> string option" where
  "qstristr s str = (if chr0 str = CHR 0x00 then None else istr_find s (c_string str))"

text \<open>\<open>qstrchr\<close> of a character other than NUL: the text from its first occurrence on.\<close>

definition qstrchr :: "string \<Rightarrow> char \<Rightarrow> string option" where
  "qstrchr s c = (let r = dropWhile (\<lambda>x. x \<noteq> c) (c_string s) in if r = [] then None else Some r)"

section \<open>The cursor\<close>

record parser =
  p_string :: string
  p_pos :: nat

definition new_parser :: "string \<Rightarrow> parser" where
  "new_parser s = \<lparr>p_string = s, p_pos = 0\<rparr>"

definition p_skip :: "parser \<Rightarrow> parser" where
  "p_skip p = (if p_pos p < length (p_string p) then p\<lparr>p_pos := p_pos p + 1\<rparr> else p)"

definition p_get :: "parser \<Rightarrow> char" where
  "p_get p = (if p_pos p < length (p_string p) then p_string p ! p_pos p else CHR 0x00)"

definition p_peek :: "parser \<Rightarrow> char" where
  "p_peek p = (if p_pos p + 1 < length (p_string p) then p_string p ! (p_pos p + 1) else CHR 0x00)"

text \<open>The loop that every skipping method is.\<close>

lemma p_skip_moves:
  "p_get p \<noteq> CHR 0x00 \<Longrightarrow> length (p_string (p_skip p)) - p_pos (p_skip p) < length (p_string p) - p_pos p"
  by (auto simp: p_get_def p_skip_def split: if_splits)

function skip_while :: "(char \<Rightarrow> bool) \<Rightarrow> parser \<Rightarrow> parser" where
  "skip_while go p =
     (let ch = p_get p
      in if ch \<noteq> CHR 0x00 then (if go ch then skip_while go (p_skip p) else p) else p)"
  by pat_completeness auto
termination
  by (relation "measure (\<lambda>(go, p). length (p_string p) - p_pos p)") (auto dest: p_skip_moves)

declare skip_while.simps [simp del]

definition skipSpace :: "parser \<Rightarrow> parser" where
  "skipSpace p = skip_while qisspace p"

definition skipWord :: "char list \<Rightarrow> parser \<Rightarrow> parser" where
  "skipWord chs p = skip_while (\<lambda>ch. \<not> (qisspace ch \<or> ch \<in> set chs)) p"

definition skipUntil :: "char list \<Rightarrow> parser \<Rightarrow> parser" where
  "skipUntil chs p = skip_while (\<lambda>ch. ch \<notin> set chs) p"

definition skipKeyWord :: "parser \<Rightarrow> parser" where
  "skipKeyWord p = skip_while (\<lambda>ch. \<not> (\<not> c_isalpha ch \<and> \<not> c_isdigit ch \<and> ch \<noteq> CHR ''_'')) p"

definition getChar :: "parser \<Rightarrow> char \<times> parser" where
  "getChar p = (p_get p, if p_get p \<noteq> CHR 0x00 then p_skip p else p)"

text \<open>The text between the cursor and a later one of the same text.\<close>

definition passed :: "parser \<Rightarrow> parser \<Rightarrow> string" where
  "passed p q = take (p_pos q - p_pos p) (drop (p_pos p) (p_string p))"

definition getWord :: "char list \<Rightarrow> parser \<Rightarrow> string \<times> parser" where
  "getWord chs p = (let q = skipWord chs p in (passed p q, q))"

definition getString :: "char list \<Rightarrow> parser \<Rightarrow> string \<times> parser" where
  "getString chs p = (let q = skipUntil chs p in (passed p q, q))"

definition getKeyWord :: "parser \<Rightarrow> string \<times> parser" where
  "getKeyWord p = (let q = skipKeyWord p in (passed p q, q))"

definition getLeft :: "parser \<Rightarrow> string \<times> parser" where
  "getLeft p = (drop (p_pos p) (p_string p), p\<lparr>p_pos := length (p_string p)\<rparr>)"

text \<open>The second skip takes the other half of a line end of two characters.\<close>

definition getLine :: "parser \<Rightarrow> string \<times> parser" where
  "getLine p =
     (let q = skip_while (\<lambda>ch. \<not> (ch = CHR 0x0D \<or> ch = CHR 0x0A)) p; ch = p_get q
      in (passed p q,
          if ch \<noteq> CHR 0x00
          then (let r = p_skip q in if schar (p_get r) + schar ch = 13 + 10 then p_skip r else r)
          else q))"

definition want :: "char \<Rightarrow> parser \<Rightarrow> bool \<times> parser" where
  "want ch p = (let q = skipSpace p in if p_get q \<noteq> ch then (False, q) else (True, p_skip q))"

definition p_end :: "parser \<Rightarrow> bool" where
  "p_end p \<longleftrightarrow> p_pos p \<ge> length (p_string p)"

definition p_now :: "parser \<Rightarrow> string" where
  "p_now p = drop (p_pos p) (p_string p)"

definition p_left :: "parser \<Rightarrow> nat" where
  "p_left p = length (p_string p) - p_pos p"

section \<open>What the loops do to the text that is left\<close>

text \<open>Skipping passes the longest run of characters, none of them NUL, that the test lets through.\<close>

definition run_of :: "(char \<Rightarrow> bool) \<Rightarrow> string \<Rightarrow> string" where
  "run_of go s = takeWhile (\<lambda>c. c \<noteq> CHR 0x00 \<and> go c) s"

lemma p_get_now: "p_get p = chr0 (p_now p)"
  by (auto simp: p_get_def p_now_def chr0_def drop_eq_Cons_nth split: list.splits)

lemma p_skip_now [simp]: "p_now (p_skip p) = tl (p_now p)" "p_string (p_skip p) = p_string p"
  by (auto simp: p_skip_def p_now_def tl_drop drop_Suc)

lemma skip_while_spec:
  "p_pos p \<le> length (p_string p) \<Longrightarrow>
   skip_while go p = p\<lparr>p_pos := p_pos p + length (run_of go (p_now p))\<rparr>"
proof (induction go p rule: skip_while.induct)
  case (1 go p)
  show ?case
  proof (cases "p_get p \<noteq> CHR 0x00 \<and> go (p_get p)")
    case True
    then have lt: "p_pos p < length (p_string p)" by (auto simp: p_get_def split: if_splits)
    then have n: "p_now p = p_get p # tl (p_now p)"
      by (simp add: p_now_def p_get_def drop_eq_Cons_nth)
    have "run_of go (p_now p) = p_get p # run_of go (tl (p_now p))"
      using True by (subst n) (simp add: run_of_def)
    with "1.IH" [OF refl] True lt show ?thesis
      by (subst skip_while.simps) (simp add: Let_def, simp add: p_skip_def)
  next
    case False
    then have "run_of go (p_now p) = []"
      by (auto simp: run_of_def p_get_now chr0_def split: list.splits)
    with False show ?thesis by (subst skip_while.simps) (auto simp: Let_def)
  qed
qed

lemma drop_run: "drop (length (run_of go s)) s = dropWhile (\<lambda>c. c \<noteq> CHR 0x00 \<and> go c) s"
  unfolding run_of_def by (rule dropWhile_eq_drop [symmetric])

lemma take_run: "take (length (run_of go s)) s = run_of go s"
  unfolding run_of_def by (rule takeWhile_eq_take [symmetric])

lemma run_le: "length (run_of go s) \<le> length s"
  by (simp add: run_of_def length_takeWhile_le)

lemma skip_while_now:
  assumes "p_pos p \<le> length (p_string p)"
  shows "p_now (skip_while go p) = dropWhile (\<lambda>c. c \<noteq> CHR 0x00 \<and> go c) (p_now p)"
    "passed p (skip_while go p) = run_of go (p_now p)"
    "p_pos (skip_while go p) \<le> length (p_string (skip_while go p))"
    "p_string (skip_while go p) = p_string p"
proof -
  have d: "p_now (skip_while go p) = drop (length (run_of go (p_now p))) (p_now p)"
    using assms by (simp add: skip_while_spec p_now_def add.commute)
  then show "p_now (skip_while go p) = dropWhile (\<lambda>c. c \<noteq> CHR 0x00 \<and> go c) (p_now p)"
    by (simp only: drop_run)
  show "passed p (skip_while go p) = run_of go (p_now p)"
    using assms take_run [of go "p_now p"] by (simp add: skip_while_spec passed_def p_now_def)
  show "p_pos (skip_while go p) \<le> length (p_string (skip_while go p))"
    using assms run_le [of go "p_now p"] by (simp add: skip_while_spec p_now_def)
  show "p_string (skip_while go p) = p_string p" using assms by (simp add: skip_while_spec)
qed

text \<open>A run that ends at the end of the text or at a character the test refuses.\<close>

lemma run_append:
  assumes "\<forall>c \<in> set a. c \<noteq> CHR 0x00 \<and> go c" "b = [] \<or> hd b = CHR 0x00 \<or> \<not> go (hd b)"
  shows "run_of go (a @ b) = a" "dropWhile (\<lambda>c. c \<noteq> CHR 0x00 \<and> go c) (a @ b) = b"
proof -
  have "takeWhile (\<lambda>c. c \<noteq> CHR 0x00 \<and> go c) (a @ b) = a @ takeWhile (\<lambda>c. c \<noteq> CHR 0x00 \<and> go c) b"
    using assms(1) by (intro takeWhile_append2) auto
  then show "run_of go (a @ b) = a" using assms(2) by (cases b) (auto simp: run_of_def)
  have "dropWhile (\<lambda>c. c \<noteq> CHR 0x00 \<and> go c) (a @ b) = dropWhile (\<lambda>c. c \<noteq> CHR 0x00 \<and> go c) b"
    using assms(1) by (intro dropWhile_append2) auto
  then show "dropWhile (\<lambda>c. c \<noteq> CHR 0x00 \<and> go c) (a @ b) = b" using assms(2) by (cases b) auto
qed

lemma new_parser_simps [simp]:
  "p_pos (new_parser s) = 0" "p_string (new_parser s) = s" "p_now (new_parser s) = s"
  by (simp_all add: new_parser_def p_now_def)

end
