(* ===== verification/CopyStream.thy ===== *)
theory CopyStream
  imports TextParser
begin

text \<open>
  \<^verbatim>\<open>src/io/io.cpp\<close>: \<open>io_base::copyStream\<close>, which every \<open>copyTo\<close> is, between any two streams. The
  source and the destination are the arguments \<open>rd\<close> and \<open>wr\<close>: a read of a number of bytes that may
  never return, and a write. The contract of a source of pieces, the locale \<open>piece_source\<close>, gives what
  is copied; buffered streams keep it by interpretation, chunked bodies in the next theory.
\<close>

section \<open>Copying\<close>

definition STREAM_BUFF_SIZE :: int where
  "STREAM_BUFF_SIZE = 65536"

definition copy_len :: "int \<Rightarrow> int" where
  "copy_len bytes =
     (if bytes < 0 then -1 else if bytes > STREAM_BUFF_SIZE then STREAM_BUFF_SIZE else bytes)"

type_synonym ('f, 'e) reader = "int \<Rightarrow> 'f \<Rightarrow> ('f \<times> ('e + string option)) option"

type_synonym ('t, 'e) writer = "string \<Rightarrow> 't \<Rightarrow> 't \<times> ('e + unit)"

partial_function (option) copy_loop ::
  "('f, 'e) reader \<Rightarrow> ('t, 'e) writer \<Rightarrow> int \<Rightarrow> 'f \<Rightarrow> 't \<Rightarrow> int \<Rightarrow> ('f \<times> 't \<times> int \<times> ('e + unit)) option" where
  "copy_loop rd wr bytes f t copied =
     (if bytes = 0 then Some (f, t, copied, Inr ())
      else
        (case rd (copy_len bytes) f of
           None \<Rightarrow> None
         | Some (f1, r) \<Rightarrow>
             (case r of
                Inl e \<Rightarrow> Some (f1, t, copied, Inl e)
              | Inr None \<Rightarrow> Some (f1, t, copied, Inr ())
              | Inr (Some d) \<Rightarrow>
                  (case wr d t of
                     (t1, w) \<Rightarrow>
                       (case w of
                          Inl e \<Rightarrow> Some (f1, t1, copied + int (length d), Inl e)
                        | Inr u \<Rightarrow>
                            copy_loop rd wr (if bytes > 0 then bytes - int (length d) else bytes)
                              f1 t1 (copied + int (length d)))))))"

definition copyStream ::
  "('f, 'e) reader \<Rightarrow> ('t, 'e) writer \<Rightarrow> int \<Rightarrow> 'f \<Rightarrow> 't \<Rightarrow> ('f \<times> 't \<times> int \<times> ('e + unit)) option" where
  "copyStream rd wr bytes f t = copy_loop rd wr bytes f t 0"

section \<open>Errors of the HTTP classes\<close>

datatype http_error =
    Stream_error stream_error
  | Closed_stream
  | Streaming_body
  | Invalid_data
  | Out_of_range
  | Bad_chunk_size
  | Chunk_too_huge
  | Body_too_huge
  | Body_not_complete
  | Unknown_transfer_encoding
  | Too_many_headers
  | Bad_header string
  | Bad_protocol_version
  | Bad_protocol string
  | Bad_method
  | Bad_address
  | Stream_not_set
  | Invalid_statusCode int

definition reply_of :: "'a reply \<Rightarrow> http_error + 'a option" where
  "reply_of r = (case r of Ok a \<Rightarrow> Inr (Some a) | ReturnNull \<Rightarrow> Inr None | Fail e \<Rightarrow> Inl (Stream_error e))"

text \<open>The streams of the model as sources and destinations.\<close>

definition buffered_reader :: "('s \<Rightarrow> string reply \<times> 's) \<Rightarrow> ('s buffered, http_error) reader" where
  "buffered_reader rd n S = map_option (\<lambda>(S1, r). (S1, reply_of r)) (bs_readBuffer rd n S)"

definition memory_reader :: "(memory_stream, http_error) reader" where
  "memory_reader n s = (case ms_readBuffer n s of (r, s1) \<Rightarrow> Some (s1, reply_of r))"

definition memory_writer :: "(memory_stream, http_error) writer" where
  "memory_writer d s =
     (case ms_writeBuffer d s of
        (r, s1) \<Rightarrow> (s1, case r of Fail e \<Rightarrow> Inl (Stream_error e) | _ \<Rightarrow> Inr ()))"

section \<open>What is copied\<close>

text \<open>The part of what is left that a copy of \<open>bytes\<close> bytes takes.\<close>

definition part :: "int \<Rightarrow> string \<Rightarrow> string" where
  "part bytes s = (if bytes < 0 then s else take (nat bytes) s)"

lemma part_Nil [simp]: "part bytes [] = []"
  by (simp add: part_def)

lemma part_append:
  assumes "bytes \<noteq> 0" "bytes > 0 \<Longrightarrow> int (length d) \<le> bytes"
  shows "part bytes (d @ s) = d @ part (if bytes > 0 then bytes - int (length d) else bytes) s"
  using assms by (auto simp: part_def nat_diff_distrib)

text \<open>
  A source of pieces: \<open>holds f s\<close> says that \<open>s\<close> is what is left of it. A read gives the beginning of that,
  no more than was asked for; when nothing is left it gives null or an error, which \<open>fin\<close> tells of.
\<close>

locale piece_source =
  fixes rd :: "('f, 'e) reader"
    and holds :: "'f \<Rightarrow> string \<Rightarrow> bool"
    and fin :: "'f \<Rightarrow> 'e + unit \<Rightarrow> bool"
  assumes piece: "holds f s \<Longrightarrow> n \<noteq> 0 \<Longrightarrow>
    (\<exists>f' d s'. rd n f = Some (f', Inr (Some d)) \<and> d \<noteq> [] \<and> s = d @ s' \<and> holds f' s' \<and>
       (n > 0 \<longrightarrow> int (length d) \<le> n)) \<or>
    (\<exists>f'. s = [] \<and> (rd n f = Some (f', Inr None) \<and> fin f' (Inr ()) \<or> (\<exists>e. rd n f = Some (f', Inl e) \<and> fin f' (Inl e))))"
begin

text \<open>
  The destination takes every write and grows by it; \<open>out\<close> and \<open>room\<close> are what it holds and when it
  takes more.
\<close>

lemma copy_loop_spec:
  assumes wr: "\<And>t d. room t (length d) \<Longrightarrow> \<exists>t'. wr d t = (t', Inr ()) \<and> out t' = out t @ d \<and>
      (\<forall>m. room t (length d + m) \<longrightarrow> room t' m)"
    and dec: "\<And>t a b. room t (a + b) \<Longrightarrow> room t a"
  shows "holds f s \<Longrightarrow> room t (length (part bytes s)) \<Longrightarrow>
    \<exists>f' t' w. copy_loop rd wr bytes f t copied = Some (f', t', copied + int (length (part bytes s)), w) \<and>
      out t' = out t @ part bytes s \<and> room t' 0 \<and>
      (0 \<le> bytes \<and> bytes \<le> int (length s) \<and> holds f' (drop (nat bytes) s) \<and> w = Inr () \<or>
       fin f' w \<and> (bytes < 0 \<or> int (length s) < bytes))"
proof (induction "length s" arbitrary: f s t bytes copied rule: less_induct)
  case less
  show ?case
  proof (cases "bytes = 0")
    case True
    with less.prems show ?thesis by (subst copy_loop.simps) (simp add: part_def)
  next
    case False
    then have "copy_len bytes \<noteq> 0" by (simp add: copy_len_def STREAM_BUFF_SIZE_def)
    from piece [OF less.prems(1) this] show ?thesis
    proof
      assume "\<exists>f' d s'. rd (copy_len bytes) f = Some (f', Inr (Some d)) \<and> d \<noteq> [] \<and> s = d @ s' \<and>
        holds f' s' \<and> (copy_len bytes > 0 \<longrightarrow> int (length d) \<le> copy_len bytes)"
      then obtain f' d s' where r: "rd (copy_len bytes) f = Some (f', Inr (Some d))" "d \<noteq> []"
        "s = d @ s'" "holds f' s'" "copy_len bytes > 0 \<longrightarrow> int (length d) \<le> copy_len bytes" by blast
      define b where "b = (if bytes > 0 then bytes - int (length d) else bytes)"
      have le: "bytes > 0 \<Longrightarrow> int (length d) \<le> bytes"
        using r(5) by (auto simp: copy_len_def STREAM_BUFF_SIZE_def split: if_splits)
      with False have all: "part bytes s = d @ part b s'"
        unfolding r(3) b_def by (rule part_append)
      from less.prems(2) have "room t (length d + length (part b s'))" by (simp add: all)
      with wr dec obtain t' where t': "wr d t = (t', Inr ())" "out t' = out t @ d"
        "room t' (length (part b s'))" by meson
      have step: "copy_loop rd wr bytes f t copied = copy_loop rd wr b f' t' (copied + int (length d))"
        using False r(1) t'(1) by (subst copy_loop.simps) (simp add: b_def)
      have "length s' < length s" using r(2,3) by simp
      from less.hyps [OF this r(4) t'(3), of "copied + int (length d)"]
      obtain f'' t'' w where i: "copy_loop rd wr b f' t' (copied + int (length d)) =
          Some (f'', t'', copied + int (length d) + int (length (part b s')), w)"
        "out t'' = out t' @ part b s'" "room t'' 0"
        "0 \<le> b \<and> b \<le> int (length s') \<and> holds f'' (drop (nat b) s') \<and> w = Inr () \<or>
         fin f'' w \<and> (b < 0 \<or> int (length s') < b)" by blast
      have "0 \<le> bytes \<and> bytes \<le> int (length s) \<and> holds f'' (drop (nat bytes) s) \<and> w = Inr () \<or>
         fin f'' w \<and> (bytes < 0 \<or> int (length s) < bytes)"
        using i(4) le False unfolding r(3) b_def by (auto simp: nat_diff_distrib split: if_splits)
      with step i(1,2,3) t'(2) show ?thesis by (simp add: all)
    next
      assume "\<exists>f'. s = [] \<and> (rd (copy_len bytes) f = Some (f', Inr None) \<and> fin f' (Inr ()) \<or>
        (\<exists>e. rd (copy_len bytes) f = Some (f', Inl e) \<and> fin f' (Inl e)))"
      then show ?thesis using False less.prems(2) by (subst copy_loop.simps) auto
    qed
  qed
qed

end

text \<open>A memory stream written at its end grows by what is written.\<close>

definition ms_room :: "string \<Rightarrow> memory_stream \<Rightarrow> nat \<Rightarrow> bool" where
  "ms_room d0 s n \<longleftrightarrow> ms_ok s \<and> ms_tell s = int (length (ms_data s)) \<and> int (length (ms_data s)) + int n < 2 ^ 31"

lemma memory_writer_grows:
  assumes "ms_room d0 s (length d)"
  shows "\<exists>s'. memory_writer d s = (s', Inr ()) \<and> ms_data s' = ms_data s @ d \<and>
    (\<forall>m. ms_room d0 s (length d + m) \<longrightarrow> ms_room d0 s' m)"
proof -
  let ?s = "snd (ms_writeBuffer d s)"
  have s: "ms_ok s" "ms_tell s = int (length (ms_data s))" using assms by (auto simp: ms_room_def)
  note w = ms_write_contents [OF s(1), of d]
  have d: "ms_data ?s = ms_data s @ d" "ms_tell ?s = int (length (ms_data s @ d))" using w s(2) by auto
  moreover have "ms_ok ?s" using ms_write_ok [OF s(1), of d] assms d by (simp add: ms_room_def)
  ultimately show ?thesis
    by (auto simp: memory_writer_def ms_room_def ms_writeBuffer_def Let_def)
qed

section \<open>Buffered streams are sources of pieces\<close>

text \<open>
  A buffered stream in use by the HTTP classes: between two reads, without conversion, with the line end
  the program has by default, and with \<open>txt\<close> unread.
\<close>

definition connection :: "('s \<Rightarrow> bool) \<Rightarrow> ('s \<Rightarrow> string) \<Rightarrow> 's buffered \<Rightarrow> string \<Rightarrow> bool" where
  "connection ok rest S txt \<longleftrightarrow> idle ok S \<and> m_iconv S = Some \<and> m_eol S = [] \<and> unread rest S = txt"

context byte_source
begin

lemma read_connection:
  assumes "connection ok rest S txt"
  shows "\<exists>S'. bs_readBuffer read_some (int n) S = Some (S', if take n txt = [] then ReturnNull else Ok (take n txt)) \<and>
    connection ok rest S' (drop n txt)"
  using read_bytes_spec [of S n] assms by (auto simp: connection_def bytes_post_def same_settings_def)

lemma read_connection_any:
  assumes "connection ok rest S txt"
  shows "(\<exists>S' d s'. bs_readBuffer read_some (-1) S = Some (S', Ok d) \<and> d \<noteq> [] \<and> txt = d @ s' \<and>
      connection ok rest S' s') \<or>
    (\<exists>S'. bs_readBuffer read_some (-1) S = Some (S', ReturnNull) \<and> txt = [] \<and> connection ok rest S' [])"
proof (cases "m_pos S < length (m_buf S)")
  case True
  with assms show ?thesis
    by (auto simp: bs_readBuffer_def unread_def idle_def connection_def)
next
  case False
  have i: "ok (m_stm S)" using assms(1) by (simp add: idle_def connection_def)
  from i show ?thesis
    by (cases rule: read_cases)
      (use assms False in \<open>auto simp: bs_readBuffer_def unread_def idle_def connection_def\<close>)
qed

lemma connection_pieces:
  "piece_source (buffered_reader read_some) (connection ok rest)
    (\<lambda>S w. w = Inr () \<and> connection ok rest S [])"
proof
  fix f :: "'s buffered" and s and n :: int
  assume f: "connection ok rest f s" and n: "n \<noteq> 0"
  show "(\<exists>f' d s'. buffered_reader read_some n f = Some (f', Inr (Some d)) \<and> d \<noteq> [] \<and> s = d @ s' \<and>
        connection ok rest f' s' \<and> (0 < n \<longrightarrow> int (length d) \<le> n)) \<or>
      (\<exists>f'. s = [] \<and> (buffered_reader read_some n f = Some (f', Inr None) \<and> Inr () = Inr () \<and> connection ok rest f' [] \<or>
        (\<exists>e. buffered_reader read_some n f = Some (f', Inl e) \<and> Inl e = Inr () \<and> connection ok rest f' [])))"
  proof (cases "n < 0")
    case True
    then have "bs_readBuffer read_some n f = bs_readBuffer read_some (-1) f" by (simp add: bs_readBuffer_def)
    then have eq: "buffered_reader read_some n f = buffered_reader read_some (-1) f"
      by (simp add: buffered_reader_def)
    from read_connection_any [OF f] show ?thesis
    proof (elim disjE exE conjE)
      fix S' d s'
      assume "bs_readBuffer read_some (-1) f = Some (S', Ok d)" "d \<noteq> []" "s = d @ s'" "connection ok rest S' s'"
      moreover from this have "buffered_reader read_some n f = Some (S', Inr (Some d))"
        unfolding eq by (simp add: buffered_reader_def reply_of_def)
      moreover have "\<not> 0 < n" using True by simp
      ultimately show ?thesis by blast
    next
      fix S'
      assume "bs_readBuffer read_some (-1) f = Some (S', ReturnNull)" "s = []" "connection ok rest S' []"
      moreover from this have "buffered_reader read_some n f = Some (S', Inr None)"
        unfolding eq by (simp add: buffered_reader_def reply_of_def)
      ultimately show ?thesis by blast
    qed
  next
    case False
    with n have "n = int (nat n)" "nat n > 0" by simp_all
    then obtain k where k: "n = int k" "k > 0" by blast
    from read_connection [OF f, of k] obtain S' where S': "bs_readBuffer read_some n f =
        Some (S', if take k s = [] then ReturnNull else Ok (take k s))" "connection ok rest S' (drop k s)"
      unfolding k by blast
    show ?thesis
    proof (cases "s = []")
      case True
      with S' k show ?thesis by (auto simp: buffered_reader_def reply_of_def)
    next
      case ne: False
      with k have "take k s \<noteq> []" by simp
      moreover from this have "buffered_reader read_some n f = Some (S', Inr (Some (take k s)))"
        using S'(1) by (simp add: buffered_reader_def reply_of_def)
      moreover have "int (length (take k s)) \<le> n" "s = take k s @ drop k s" using k(1) by simp_all
      ultimately show ?thesis using S'(2) by blast
    qed
  qed
qed

text \<open>A line with its end is read whole, if it is not longer than allowed.\<close>

lemma read_line_connection:
  assumes "connection ok rest S (l @ CRLF @ r)" "CHR 0x0A \<notin> set l" "maxlen > 0 \<longrightarrow> int (length l) \<le> maxlen"
  shows "\<exists>S'. bs_readLine read_some maxlen S = Some (S', Ok l) \<and> connection ok rest S' r"
proof -
  have i: "idle ok S" "m_iconv S = Some" "m_eol S = []" "unread rest S = l @ CRLF @ r"
    using assms(1) by (auto simp: connection_def)
  have "cut_line ((l @ [CHR 0x0D]) @ CHR 0x0A # r) = Some (l @ [CHR 0x0D], r)"
    using assms(2) by (induction l) auto
  then have c: "cut_line (l @ CRLF @ r) = Some (l @ [CHR 0x0D], r)" by (simp add: CRLF_def)
  have u: "until_scan [] (l @ CRLF @ r) = (CRLF, 2, length l + 2)"
    using until_scan_line [of "l @ CRLF @ r"] by (simp add: c)
  have v: "until_value Some maxlen (CRLF, 2, length l + 2) (l @ CRLF @ r) = Ok l"
    using assms(3) by (auto simp: until_value_def CRLF_def)
  from read_until_spec [OF i(1), of "[]" maxlen] obtain S' a where
    b: "bs_readUntil read_some [] maxlen S = Some (S', a)" "until_post ok rest S [] maxlen S' a" by blast
  have a: "a = Ok l" using b(2) v by (simp only: until_post_def i u)
  from b(2) have "connection ok rest S' (drop (length l + 2) (l @ CRLF @ r))"
    by (simp add: a until_post_def connection_def same_settings_def i u)
  with b(1) show ?thesis by (simp add: a bs_readLine_def i CRLF_def)
qed

text \<open>At the end of the stream the reply is null.\<close>

lemma read_line_at_end:
  assumes "connection ok rest S []"
  shows "\<exists>S'. bs_readLine read_some maxlen S = Some (S', ReturnNull) \<and> connection ok rest S' []"
proof -
  have i: "idle ok S" "m_iconv S = Some" "m_eol S = []" "unread rest S = []"
    using assms(1) by (auto simp: connection_def)
  have u: "until_scan [] [] = (CRLF, 0, 0)" by (simp add: until_scan_def marker_of_def)
  have v: "until_value Some maxlen (CRLF, 0, 0) [] = ReturnNull"
    by (simp add: until_value_def CRLF_def)
  from read_until_spec [OF i(1), of "[]" maxlen] obtain S' a where
    b: "bs_readUntil read_some [] maxlen S = Some (S', a)" "until_post ok rest S [] maxlen S' a" by blast
  have a: "a = ReturnNull" using b(2) by (simp add: until_post_def i u v)
  from b(2) have "connection ok rest S' []"
    by (simp add: a until_post_def connection_def same_settings_def i u)
  with b(1) show ?thesis by (simp add: a bs_readLine_def i)
qed

text \<open>A line cut off by the end of the stream is taken as it is.\<close>

lemma read_line_cut:
  assumes "connection ok rest S l" "l \<noteq> []" "CHR 0x0A \<notin> set l" "maxlen > 0 \<longrightarrow> int (length l) \<le> maxlen"
  shows "\<exists>S'. bs_readLine read_some maxlen S = Some (S', Ok l) \<and> connection ok rest S' []"
proof -
  have i: "idle ok S" "m_iconv S = Some" "m_eol S = []" "unread rest S = l"
    using assms(1) by (auto simp: connection_def)
  have "cut_line l = None" using assms(3) by (induction l) auto
  with until_scan_line [of l] obtain t where u: "t < 2" "until_scan [] l = (CRLF, t, length l)" by auto
  have v: "until_value Some maxlen (CRLF, t, length l) l = Ok l"
    using assms(2,4) u(1) by (auto simp: until_value_def CRLF_def)
  from read_until_spec [OF i(1), of "[]" maxlen] obtain S' a where
    b: "bs_readUntil read_some [] maxlen S = Some (S', a)" "until_post ok rest S [] maxlen S' a" by blast
  have a: "a = Ok l" using b(2) v by (simp only: until_post_def i u)
  from b(2) have "connection ok rest S' []"
    using u(1) by (simp add: a until_post_def connection_def same_settings_def i u(2))
  with b(1) show ?thesis by (simp add: a bs_readLine_def i)
qed

end

text \<open>In particular a buffered stream over a memory stream.\<close>

abbreviation ms_rest :: "memory_stream \<Rightarrow> string" where
  "ms_rest s \<equiv> drop (nat (ms_tell s)) (ms_data s)"

interpretation ms_pieces: piece_source "buffered_reader (ms_readBuffer (-1))" "connection ms_ok ms_rest"
    "\<lambda>S w. w = Inr () \<and> connection ms_ok ms_rest S []"
  by (rule ms.connection_pieces)

end
