(* ===== verification/ChunkedStream.thy ===== *)
theory ChunkedStream
  imports CopyStream
begin

text \<open>
  \<^verbatim>\<open>include/ChunkedStream.h\<close>: the body of a message with \<open>transfer-encoding: chunked\<close> as a stream over
  the buffered stream of the connection. The states of \<open>asyncReadFrom\<close> are the branches of
  \<open>chunk_read\<close>, which has no value when the stream below never ends; the trailer lines are the loop
  \<open>read_trailers\<close>. The size of a chunk is a 64-bit number, its signed overflow the wrap-around of the
  machine.
\<close>

section \<open>Headers\<close>

text \<open>The class \<open>Headers\<close> holds strings only.\<close>

type_synonym headers = "unit collection"

definition append_string :: "string \<Rightarrow> string \<Rightarrow> headers \<Rightarrow> headers" where
  "append_string name value H = fst (hc_append (\<lambda>_. []) name (VT_String value) H)"

section \<open>State\<close>

record 's chunked =
  k_stm :: "'s buffered"
  k_maxChunkSize :: int
  k_maxBodySize :: int
  k_trailers :: "headers option"
  k_contentLength :: int
  k_data :: "string option"
  k_pos :: nat

definition new_chunked :: "'s buffered \<Rightarrow> int \<Rightarrow> int \<Rightarrow> headers option \<Rightarrow> 's chunked" where
  "new_chunked stm maxChunk maxBody trailers =
     \<lparr>k_stm = stm, k_maxChunkSize = maxChunk, k_maxBodySize = maxBody, k_trailers = trailers,
      k_contentLength = 0, k_data = None, k_pos = 0\<rparr>"

section \<open>The size line\<close>

definition MiB :: int where
  "MiB = 1024 * 1024"

fun hex_loop :: "string \<Rightarrow> 64 word \<Rightarrow> 64 word" where
  "hex_loop [] sz = sz"
| "hex_loop (c # s) sz = (if qisxdigit c then hex_loop s (push_bit 4 sz + of_nat (qhex c)) else sz)"

text \<open>The size a line gives, as a signed number; \<open>None\<close> when it does not begin with a digit.\<close>

definition chunk_size :: "string \<Rightarrow> int option" where
  "chunk_size line =
     (let p = skipSpace (new_parser line)
      in if \<not> qisxdigit (p_get p) then None else Some (sint (hex_loop (p_now p) 0)))"

section \<open>Reading\<close>

text \<open>A line is empty at the end of the stream too: \<open>readLine\<close> answers null and empties it.\<close>

definition line_of :: "string reply \<Rightarrow> http_error + string" where
  "line_of r = (case r of Ok l \<Rightarrow> Inr l | ReturnNull \<Rightarrow> Inr [] | Fail e \<Rightarrow> Inl (Stream_error e))"

definition add_trailer :: "string \<Rightarrow> headers \<Rightarrow> headers" where
  "add_trailer line H =
     (let p = skipWord [CHR '':''] (new_parser line); p2 = p_pos p
      in if p2 > 0 then
           (case want (CHR '':'') p of
              (True, q) \<Rightarrow> append_string (take p2 line) (p_now (skipSpace q)) H
            | (False, _) \<Rightarrow> H)
         else H)"

partial_function (option) read_trailers ::
  "('s \<Rightarrow> string reply \<times> 's) \<Rightarrow> string \<Rightarrow> 's chunked \<Rightarrow> ('s chunked \<times> (http_error + string option)) option" where
  "read_trailers rd line C =
     (case k_trailers C of
        Some H \<Rightarrow>
          (if line \<noteq> [] then
             (case bs_readLine rd 64 (k_stm C) of
                None \<Rightarrow> None
              | Some (S, r) \<Rightarrow>
                  (case line_of r of
                     Inl e \<Rightarrow> Some (C\<lparr>k_trailers := Some (add_trailer line H), k_stm := S\<rparr>, Inl e)
                   | Inr line' \<Rightarrow> read_trailers rd line' (C\<lparr>k_trailers := Some (add_trailer line H), k_stm := S\<rparr>)))
           else Some (C, Inr None))
      | None \<Rightarrow> Some (C, Inr None))"

definition deliver :: "int \<Rightarrow> string \<Rightarrow> 's chunked \<Rightarrow> 's chunked \<times> string" where
  "deliver bytes buf C =
     (let left = int (length buf) - int (k_pos C);
          n = (if bytes < 0 \<or> bytes > left then left else bytes);
          retVal = (if n < int (length buf) then take (nat n) (drop (k_pos C) buf) else buf);
          pos = k_pos C + nat n
      in (if pos = length buf then C\<lparr>k_data := None, k_pos := 0\<rparr> else C\<lparr>k_pos := pos\<rparr>, retVal))"

text \<open>
  \<open>readBuffer\<close>, from \<open>chunk_head\<close> on when no chunk is in hand. The number given to the stream below is
  an \<open>int32_t\<close>.
\<close>

partial_function (option) chunk_read ::
  "('s \<Rightarrow> string reply \<times> 's) \<Rightarrow> int \<Rightarrow> 's chunked \<Rightarrow> ('s chunked \<times> (http_error + string option)) option" where
  "chunk_read rd bytes C =
     (case k_data C of
        Some buf \<Rightarrow> (case deliver bytes buf C of (C', d) \<Rightarrow> Some (C', Inr (Some d)))
      | None \<Rightarrow>
          (case bs_readLine rd 64 (k_stm C) of
             None \<Rightarrow> None
           | Some (S, r) \<Rightarrow>
               (case line_of r of
                  Inl e \<Rightarrow> Some (C\<lparr>k_stm := S\<rparr>, Inl e)
                | Inr line \<Rightarrow>
                    (case chunk_size line of
                       None \<Rightarrow> Some (C\<lparr>k_stm := S\<rparr>, Inl Bad_chunk_size)
                     | Some sz \<Rightarrow>
                         if sz < 0 then Some (C\<lparr>k_stm := S\<rparr>, Inl Bad_chunk_size)
                         else if sz > 0 then
                           (if sz > k_maxChunkSize C * MiB then Some (C\<lparr>k_stm := S\<rparr>, Inl Chunk_too_huge)
                            else if k_maxBodySize C \<ge> 0 \<and> k_contentLength C + sz > k_maxBodySize C * MiB
                            then Some (C\<lparr>k_stm := S, k_contentLength := k_contentLength C + sz\<rparr>, Inl Body_too_huge)
                            else
                              (case bs_readBuffer rd (to_int32 sz) S of
                                 None \<Rightarrow> None
                               | Some (S, r) \<Rightarrow>
                                   (case reply_of r of
                                      Inl e \<Rightarrow>
                                        Some (C\<lparr>k_stm := S, k_contentLength := k_contentLength C + sz\<rparr>, Inl e)
                                    | Inr data \<Rightarrow>
                                        (case bs_readLine rd 64 S of
                                           None \<Rightarrow> None
                                         | Some (S, r) \<Rightarrow>
                                             (case line_of r of
                                                Inl e \<Rightarrow>
                                                  Some (C\<lparr>k_stm := S, k_contentLength := k_contentLength C + sz,
                                                          k_data := data\<rparr>, Inl e)
                                              | Inr _ \<Rightarrow>
                                                  chunk_read rd bytes
                                                    (C\<lparr>k_stm := S, k_contentLength := k_contentLength C + sz,
                                                       k_data := data\<rparr>))))))
                         else
                           (case bs_readLine rd 64 S of
                              None \<Rightarrow> None
                            | Some (S, r) \<Rightarrow>
                                (case line_of r of
                                   Inl e \<Rightarrow> Some (C\<lparr>k_stm := S\<rparr>, Inl e)
                                 | Inr line \<Rightarrow> read_trailers rd line (C\<lparr>k_stm := S\<rparr>)))))))"

definition chunked_reader :: "('s \<Rightarrow> string reply \<times> 's) \<Rightarrow> ('s chunked, http_error) reader" where
  "chunked_reader rd = chunk_read rd"

end
