(* ===== verification/ChunkedSpec.thy ===== *)
theory ChunkedSpec
  imports ChunkedStream
begin

text \<open>
  What a chunked body is on the wire, independent of the pieces of the connection, and that the stream
  of \<open>ChunkedStream\<close> reads it back: chunks with sizes in any hexadecimal form and with extensions, the
  last chunk, trailer lines and the empty line that ends the message. The stream is a source of pieces,
  so what \<open>copyTo\<close> makes of it follows from the locale \<open>piece_source\<close>.
\<close>

section \<open>The format\<close>

definition is_hex :: "char \<Rightarrow> bool" where
  "is_hex c \<longleftrightarrow> c_isdigit c \<or> 97 \<le> code c \<and> code c \<le> 102 \<or> 65 \<le> code c \<and> code c \<le> 70"

definition hex_value :: "string \<Rightarrow> nat" where
  "hex_value ds = foldl (\<lambda>n c. 16 * n + qhex c) 0 ds"

record chunk =
  c_digits :: string
  c_ext :: string
  c_bytes :: string

definition size_line :: "string \<Rightarrow> string \<Rightarrow> nat \<Rightarrow> bool" where
  "size_line ds ext n \<longleftrightarrow>
     ds \<noteq> [] \<and> (\<forall>c \<in> set ds. is_hex c) \<and> hex_value ds = n \<and>
     (ext = [] \<or> \<not> qisxdigit (hd ext)) \<and> CHR 0x0A \<notin> set ext \<and> length ds + length ext \<le> 64"

definition chunk_wf :: "int \<Rightarrow> chunk \<Rightarrow> bool" where
  "chunk_wf maxChunk c \<longleftrightarrow>
     size_line (c_digits c) (c_ext c) (length (c_bytes c)) \<and> c_bytes c \<noteq> [] \<and>
     int (length (c_bytes c)) \<le> maxChunk * MiB \<and> int (length (c_bytes c)) < 2 ^ 31"

definition chunk_wire :: "chunk \<Rightarrow> string" where
  "chunk_wire c = (c_digits c @ c_ext c) @ CRLF @ c_bytes c @ [] @ CRLF"

definition chunks_wire :: "chunk list \<Rightarrow> string" where
  "chunks_wire cs = concat (map chunk_wire cs)"

definition chunks_data :: "chunk list \<Rightarrow> string" where
  "chunks_data cs = concat (map c_bytes cs)"

definition trailer_wf :: "string \<Rightarrow> bool" where
  "trailer_wf l \<longleftrightarrow> l \<noteq> [] \<and> CHR 0x0A \<notin> set l \<and> length l \<le> 64"

definition trailers_wire :: "string list \<Rightarrow> string" where
  "trailers_wire ls = concat (map (\<lambda>l. l @ CRLF) ls) @ [] @ CRLF"

definition last_wire :: "string \<Rightarrow> string \<Rightarrow> string list \<Rightarrow> string" where
  "last_wire zs ext ls = (zs @ ext) @ CRLF @ trailers_wire ls"

section \<open>The size of a chunk\<close>

lemma is_hex_not_space: "is_hex c \<Longrightarrow> \<not> qisspace c \<and> c \<noteq> CHR 0x00 \<and> qisxdigit c \<and> c \<noteq> CHR 0x0A"
  by (auto simp: is_hex_def qisspace_def qisxdigit_def c_isdigit_def)

lemma hex_loop_digits:
  assumes "\<forall>c \<in> set ds. is_hex c" "ext = [] \<or> \<not> qisxdigit (hd ext)"
  shows "hex_loop (ds @ ext) (of_nat n) = of_nat (foldl (\<lambda>n c. 16 * n + qhex c) n ds)"
  using assms(1)
proof (induction ds arbitrary: n)
  case Nil
  with assms(2) show ?case by (cases ext) auto
next
  case (Cons c ds)
  have "push_bit 4 (of_nat n :: 64 word) + of_nat (qhex c) = of_nat (16 * n + qhex c)"
    by (simp add: push_bit_eq_mult)
  moreover have "qisxdigit c" using Cons.prems is_hex_not_space by simp
  ultimately show ?case using Cons by (simp del: of_nat_add of_nat_mult)
qed

lemma skip_no_space: "s = [] \<or> \<not> qisspace (hd s) \<Longrightarrow> skipSpace (new_parser s) = new_parser s"
  by (simp add: skipSpace_def skip_while_spec run_of_def new_parser_def p_now_def)
    (auto simp: takeWhile_eq_Nil_iff)

lemma chunk_size_line:
  assumes "size_line ds ext n" "int n < 2 ^ 63"
  shows "chunk_size (ds @ ext) = Some (int n)"
proof -
  obtain c ds' where ds: "ds = c # ds'" "is_hex c" using assms(1) by (cases ds) (auto simp: size_line_def)
  have "skipSpace (new_parser (ds @ ext)) = new_parser (ds @ ext)"
    using ds is_hex_not_space [of c] by (intro skip_no_space) simp
  moreover have "hex_loop (ds @ ext) 0 = of_nat n"
    using hex_loop_digits [of ds ext 0] assms(1) by (simp add: size_line_def hex_value_def)
  moreover have "sint (of_nat n :: 64 word) = int n"
    using assms(2) by (simp add: signed_of_nat signed_take_bit_int_eq_self)
  ultimately show ?thesis
    using ds is_hex_not_space [of c] by (simp add: chunk_size_def p_get_now chr0_def)
qed

section \<open>Reading\<close>

text \<open>What is unread of the connection, of the chunk in hand and of the body.\<close>

definition trailers_done :: "headers \<Rightarrow> string list \<Rightarrow> headers" where
  "trailers_done H ls = foldl (\<lambda>H l. add_trailer l H) H ls"

definition chunk_in_hand :: "'s chunked \<Rightarrow> string" where
  "chunk_in_hand C = (case k_data C of None \<Rightarrow> [] | Some b \<Rightarrow> drop (k_pos C) b)"

definition chunked_holds ::
  "('s \<Rightarrow> bool) \<Rightarrow> ('s \<Rightarrow> string) \<Rightarrow> headers \<Rightarrow> string \<Rightarrow> 's chunked \<Rightarrow> string \<Rightarrow> bool" where
  "chunked_holds ok rest H txt C s \<longleftrightarrow>
     (\<exists>cs. connection ok rest (k_stm C) (chunks_wire cs @ txt) \<and>
        list_all (chunk_wf (k_maxChunkSize C)) cs \<and> s = chunk_in_hand C @ chunks_data cs \<and>
        (k_maxBodySize C < 0 \<or> k_contentLength C + int (length (chunks_data cs)) \<le> k_maxBodySize C * MiB) \<and>
        k_trailers C = Some H \<and>
        (case k_data C of None \<Rightarrow> k_pos C = 0 | Some b \<Rightarrow> k_pos C < length b))"

definition chunked_fin ::
  "('s \<Rightarrow> bool) \<Rightarrow> ('s \<Rightarrow> string) \<Rightarrow> headers \<Rightarrow> string list \<Rightarrow> string \<Rightarrow> 's chunked \<Rightarrow> bool" where
  "chunked_fin ok rest H ls after C \<longleftrightarrow>
     connection ok rest (k_stm C) after \<and> k_trailers C = Some (trailers_done H ls)"

lemma deliver_piece:
  assumes "k_data C = Some buf" "k_pos C < length buf" "n \<noteq> 0" "deliver n buf C = (C', d)"
  shows "d \<noteq> []" "chunk_in_hand C = d @ chunk_in_hand C'" "n > 0 \<Longrightarrow> int (length d) \<le> n"
    "case k_data C' of None \<Rightarrow> k_pos C' = 0 | Some b \<Rightarrow> k_pos C' < length b"
    "k_stm C' = k_stm C" "k_maxChunkSize C' = k_maxChunkSize C" "k_maxBodySize C' = k_maxBodySize C"
    "k_trailers C' = k_trailers C" "k_contentLength C' = k_contentLength C"
proof -
  define m where "m = (if n < 0 \<or> n > int (length buf) - int (k_pos C) then length buf - k_pos C else nat n)"
  have m: "0 < m" "k_pos C + m \<le> length buf" "n > 0 \<Longrightarrow> int m \<le> n"
    using assms(2,3) by (auto simp: m_def)
  have "(if n < 0 \<or> n > int (length buf) - int (k_pos C) then int (length buf) - int (k_pos C) else n) = int m"
    using assms(2,3) by (auto simp: m_def of_nat_diff)
  then have D: "C' = (if k_pos C + m = length buf then C\<lparr>k_data := None, k_pos := 0\<rparr> else C\<lparr>k_pos := k_pos C + m\<rparr>)"
    "d = (if m < length buf then take m (drop (k_pos C) buf) else buf)"
    using assms(4) unfolding deliver_def Let_def by (simp_all only: prod.inject nat_int of_nat_less_iff)
  have dd: "d = take m (drop (k_pos C) buf)" using m(2) D(2) by (cases "k_pos C") auto
  show "d \<noteq> []" using m assms(2) by (simp add: dd)
  show "n > 0 \<Longrightarrow> int (length d) \<le> n" using m by (simp add: dd)
  show "chunk_in_hand C = d @ chunk_in_hand C'"
    using m assms(1) by (auto simp: dd D(1) chunk_in_hand_def add.commute)
      (metis append_take_drop_id drop_drop)
  show "case k_data C' of None \<Rightarrow> k_pos C' = 0 | Some b \<Rightarrow> k_pos C' < length b"
    using m assms(1) by (auto simp: D(1))
qed (use assms(4) in \<open>auto simp: deliver_def Let_def\<close>)

context byte_source
begin

lemma trailers_spec:
  "connection ok rest (k_stm C) (concat (map (\<lambda>l. l @ CRLF) ls) @ [] @ CRLF @ after) \<Longrightarrow> k_trailers C = Some H \<Longrightarrow>
   list_all trailer_wf ls \<Longrightarrow> l \<noteq> [] \<Longrightarrow>
   \<exists>C'. read_trailers read_some l C = Some (C', Inr None) \<and>
     chunked_fin ok rest H (l # ls) after C'"
proof (induction ls arbitrary: l C H)
  case Nil
  then have u: "connection ok rest (k_stm C) ([] @ CRLF @ after)" by simp
  obtain S' where S': "bs_readLine read_some 64 (k_stm C) = Some (S', Ok [])" "connection ok rest S' after"
    using read_line_connection [OF u, of 64] by auto
  let ?C = "C\<lparr>k_trailers := Some (add_trailer l H), k_stm := S'\<rparr>"
  have "read_trailers read_some [] ?C = Some (?C, Inr None)"
    by (subst read_trailers.simps) simp
  with Nil.prems S' show ?case
    by (subst read_trailers.simps) (simp add: line_of_def chunked_fin_def trailers_done_def)
next
  case (Cons k ls)
  then have u: "connection ok rest (k_stm C) (k @ CRLF @ concat (map (\<lambda>l. l @ CRLF) ls) @ [] @ CRLF @ after)"
    and k: "k \<noteq> []" "CHR 0x0A \<notin> set k" "length k \<le> 64" by (simp_all add: trailer_wf_def)
  obtain S' where S': "bs_readLine read_some 64 (k_stm C) = Some (S', Ok k)"
    "connection ok rest S' (concat (map (\<lambda>l. l @ CRLF) ls) @ [] @ CRLF @ after)"
    using read_line_connection [OF u k(2), of 64] k(3) by auto
  let ?C = "C\<lparr>k_trailers := Some (add_trailer l H), k_stm := S'\<rparr>"
  obtain C' where C': "read_trailers read_some k ?C = Some (C', Inr None)"
    "chunked_fin ok rest (add_trailer l H) (k # ls) after C'"
    using Cons.IH [of ?C "add_trailer l H" k] S'(2) Cons.prems k(1) by auto
  moreover have "read_trailers read_some l C = read_trailers read_some k ?C"
    using Cons.prems S'(1) by (subst read_trailers.simps) (simp add: line_of_def)
  ultimately show ?case by (simp add: chunked_fin_def trailers_done_def)
qed

text \<open>The chunk size, its data and the line end behind it: one turn of the machine.\<close>

lemma chunk_read_head:
  assumes "connection ok rest (k_stm C) (chunk_wire c @ txt)" "chunk_wf (k_maxChunkSize C) c" "k_data C = None"
    "k_maxBodySize C < 0 \<or> k_contentLength C + int (length (c_bytes c)) \<le> k_maxBodySize C * MiB"
  shows "\<exists>S. chunk_read read_some n C = chunk_read read_some n
      (C\<lparr>k_stm := S, k_contentLength := k_contentLength C + int (length (c_bytes c)), k_data := Some (c_bytes c)\<rparr>) \<and>
    connection ok rest S txt"
proof -
  let ?d = "c_bytes c"
  have u: "connection ok rest (k_stm C) ((c_digits c @ c_ext c) @ CRLF @ ?d @ [] @ CRLF @ txt)"
    using assms(1) by (simp add: chunk_wire_def)
  have l: "size_line (c_digits c) (c_ext c) (length ?d)" "?d \<noteq> []" "int (length ?d) \<le> k_maxChunkSize C * MiB"
    "int (length ?d) < 2 ^ 31"
    using assms(2) by (simp_all add: chunk_wf_def)
  then have nl: "CHR 0x0A \<notin> set (c_digits c @ c_ext c)" "length (c_digits c @ c_ext c) \<le> 64"
    using is_hex_not_space by (auto simp: size_line_def)
  obtain S1 where S1: "bs_readLine read_some 64 (k_stm C) = Some (S1, Ok (c_digits c @ c_ext c))"
    "connection ok rest S1 (?d @ [] @ CRLF @ txt)"
    using read_line_connection [OF u nl(1), of 64] nl(2) by auto
  obtain S2 where S2: "bs_readBuffer read_some (int (length ?d)) S1 = Some (S2, Ok ?d)"
    "connection ok rest S2 ([] @ CRLF @ txt)"
    using read_connection [OF S1(2), of "length ?d"] l(2) by auto
  obtain S3 where S3: "bs_readLine read_some 64 S2 = Some (S3, Ok [])" "connection ok rest S3 txt"
    using read_line_connection [OF S2(2), of 64] by auto
  have "chunk_size (c_digits c @ c_ext c) = Some (int (length ?d))"
    using l by (intro chunk_size_line) simp_all
  moreover have "\<not> k_maxChunkSize C * MiB < int (length ?d)"
    "\<not> (0 \<le> k_maxBodySize C \<and> k_maxBodySize C * MiB < k_contentLength C + int (length ?d))"
    using l(3) assms(4) by auto
  moreover have "to_int32 (int (length ?d)) = int (length ?d)" using l(4) by simp
  ultimately show ?thesis
    using assms(3) S1(1) S2(1) S3 l(2)
    by (subst chunk_read.simps) (auto simp: line_of_def reply_of_def)
qed

text \<open>The last chunk, the trailers and the empty line.\<close>

lemma chunk_read_last:
  assumes "connection ok rest (k_stm C) (last_wire zs ext ls @ after)" "size_line zs ext 0"
    "list_all trailer_wf ls" "k_data C = None" "k_trailers C = Some H"
  shows "\<exists>C'. chunk_read read_some n C = Some (C', Inr None) \<and> chunked_fin ok rest H ls after C'"
proof -
  have u: "connection ok rest (k_stm C) ((zs @ ext) @ CRLF @ trailers_wire ls @ after)"
    using assms(1) by (simp add: last_wire_def)
  have nl: "CHR 0x0A \<notin> set (zs @ ext)" "length (zs @ ext) \<le> 64"
    using assms(2) is_hex_not_space by (auto simp: size_line_def)
  obtain S1 where S1: "bs_readLine read_some 64 (k_stm C) = Some (S1, Ok (zs @ ext))"
    "connection ok rest S1 (trailers_wire ls @ after)"
    using read_line_connection [OF u nl(1), of 64] nl(2) by auto
  have z: "chunk_size (zs @ ext) = Some 0" using chunk_size_line [OF assms(2)] by simp
  show ?thesis
  proof (cases ls)
    case Nil
    with S1 have "connection ok rest S1 ([] @ CRLF @ after)" by (simp add: trailers_wire_def)
    from read_line_connection [OF this, of 64] obtain S2 where
      S2: "bs_readLine read_some 64 S1 = Some (S2, Ok [])" "connection ok rest S2 after" by auto
    have "read_trailers read_some [] (C\<lparr>k_stm := S2\<rparr>) = Some (C\<lparr>k_stm := S2\<rparr>, Inr None)"
      using assms(5) by (subst read_trailers.simps) simp
    with S1(1) S2 z assms(4,5) Nil show ?thesis
      by (subst chunk_read.simps) (simp add: line_of_def chunked_fin_def trailers_done_def)
  next
    case (Cons l ls')
    with S1 assms(3) have u2: "connection ok rest S1 (l @ CRLF @ concat (map (\<lambda>l. l @ CRLF) ls') @ [] @ CRLF @ after)"
      and l: "l \<noteq> []" "CHR 0x0A \<notin> set l" "length l \<le> 64" "list_all trailer_wf ls'"
      by (simp_all add: trailers_wire_def trailer_wf_def)
    obtain S2 where S2: "bs_readLine read_some 64 S1 = Some (S2, Ok l)"
      "connection ok rest S2 (concat (map (\<lambda>l. l @ CRLF) ls') @ [] @ CRLF @ after)"
      using read_line_connection [OF u2 l(2), of 64] l(3) by auto
    from trailers_spec [of "C\<lparr>k_stm := S2\<rparr>" ls' after H l] S2(2) assms(5) l obtain C' where
      "read_trailers read_some l (C\<lparr>k_stm := S2\<rparr>) = Some (C', Inr None)"
      "chunked_fin ok rest H (l # ls') after C'" by auto
    with S1(1) S2(1) z assms(4) Cons show ?thesis
      by (subst chunk_read.simps) (simp add: line_of_def)
  qed
qed

lemma chunk_read_hand:
  assumes "k_data C = Some buf" "k_pos C < length buf" "n \<noteq> 0"
    "connection ok rest (k_stm C) (chunks_wire cs @ txt)"
    "list_all (chunk_wf (k_maxChunkSize C)) cs" "k_trailers C = Some H"
    "k_maxBodySize C < 0 \<or> k_contentLength C + int (length (chunks_data cs)) \<le> k_maxBodySize C * MiB"
  shows "\<exists>C' d s'. chunk_read read_some n C = Some (C', Inr (Some d)) \<and> d \<noteq> [] \<and>
    chunk_in_hand C @ chunks_data cs = d @ s' \<and> chunked_holds ok rest H txt C' s' \<and>
    (n > 0 \<longrightarrow> int (length d) \<le> n)"
proof -
  obtain C' d where D: "deliver n buf C = (C', d)" by fastforce
  note p = deliver_piece [OF assms(1-3) D]
  have "chunk_read read_some n C = Some (C', Inr (Some d))"
    using assms(1) D by (subst chunk_read.simps) simp
  moreover have "chunked_holds ok rest H txt C' (chunk_in_hand C' @ chunks_data cs)"
    using assms(4-7) p by (auto simp: chunked_holds_def)
  moreover have "chunk_in_hand C @ chunks_data cs = d @ chunk_in_hand C' @ chunks_data cs"
    using p(2) by simp
  ultimately show ?thesis using p(1,3) by blast
qed

text \<open>\<open>txt\<close> is what comes after the chunks; reading there ends the body or fails.\<close>

lemma chunked_pieces:
  assumes last: "\<And>C n. connection ok rest (k_stm C) txt \<Longrightarrow> k_data C = None \<Longrightarrow> k_trailers C = Some H \<Longrightarrow>
    \<exists>C'. chunk_read read_some n C = Some (C', Inr None) \<and> fin C' (Inr ()) \<or>
      (\<exists>e. chunk_read read_some n C = Some (C', Inl e) \<and> fin C' (Inl e))"
  shows "piece_source (chunked_reader read_some) (chunked_holds ok rest H txt) fin"
proof
  fix C :: "'s chunked" and s and n :: int
  assume "chunked_holds ok rest H txt C s" and n: "n \<noteq> 0"
  then obtain cs where C: "connection ok rest (k_stm C) (chunks_wire cs @ txt)"
    "list_all (chunk_wf (k_maxChunkSize C)) cs" "s = chunk_in_hand C @ chunks_data cs"
    "k_maxBodySize C < 0 \<or> k_contentLength C + int (length (chunks_data cs)) \<le> k_maxBodySize C * MiB"
    "k_trailers C = Some H" "case k_data C of None \<Rightarrow> k_pos C = 0 | Some b \<Rightarrow> k_pos C < length b"
    by (auto simp: chunked_holds_def)
  show "(\<exists>C' d s'. chunked_reader read_some n C = Some (C', Inr (Some d)) \<and> d \<noteq> [] \<and> s = d @ s' \<and>
        chunked_holds ok rest H txt C' s' \<and> (0 < n \<longrightarrow> int (length d) \<le> n)) \<or>
      (\<exists>C'. s = [] \<and> (chunked_reader read_some n C = Some (C', Inr None) \<and> fin C' (Inr ()) \<or>
        (\<exists>e. chunked_reader read_some n C = Some (C', Inl e) \<and> fin C' (Inl e))))"
  proof (cases "k_data C")
    case (Some buf)
    with C(6) have "k_pos C < length buf" by simp
    from chunk_read_hand [OF Some this n C(1,2,5,4)] C(3) show ?thesis
      unfolding chunked_reader_def by blast
  next
    case None
    show ?thesis
    proof (cases cs)
      case Nil
      with C have "connection ok rest (k_stm C) txt" by (simp add: chunks_wire_def)
      from last [OF this None C(5), of n] Nil C(3) None show ?thesis
        unfolding chunked_reader_def by (auto simp: chunks_data_def chunk_in_hand_def)
    next
      case (Cons c cs')
      let ?C = "\<lambda>S. C\<lparr>k_stm := S, k_contentLength := k_contentLength C + int (length (c_bytes c)), k_data := Some (c_bytes c)\<rparr>"
      have "connection ok rest (k_stm C) (chunk_wire c @ chunks_wire cs' @ txt)"
        "chunk_wf (k_maxChunkSize C) c" "list_all (chunk_wf (k_maxChunkSize C)) cs'"
        "s = c_bytes c @ chunks_data cs'"
        and m: "k_maxBodySize C < 0 \<or> k_contentLength C + int (length (c_bytes c)) + int (length (chunks_data cs')) \<le> k_maxBodySize C * MiB"
        using C Cons None by (auto simp: chunks_wire_def chunks_data_def chunk_in_hand_def)
      moreover from m have "k_maxBodySize C < 0 \<or> k_contentLength C + int (length (c_bytes c)) \<le> k_maxBodySize C * MiB"
        by auto
      ultimately obtain S where S: "chunk_read read_some n C = chunk_read read_some n (?C S)"
        "connection ok rest S (chunks_wire cs' @ txt)"
        using chunk_read_head [of C c _ n] None by metis
      have "c_bytes c \<noteq> []" "k_pos C = 0" using C(2,6) Cons None by (simp_all add: chunk_wf_def)
      with chunk_read_hand [of "?C S" "c_bytes c" n cs' "txt" H] S n C(2,5) Cons m
      have "\<exists>C' d s'. chunk_read read_some n (?C S) = Some (C', Inr (Some d)) \<and> d \<noteq> [] \<and>
        chunk_in_hand (?C S) @ chunks_data cs' = d @ s' \<and> chunked_holds ok rest H txt C' s' \<and>
        (n > 0 \<longrightarrow> int (length d) \<le> n)" by simp
      moreover have "chunk_in_hand (?C S) @ chunks_data cs' = s"
        using \<open>s = c_bytes c @ chunks_data cs'\<close> \<open>k_pos C = 0\<close> by (simp add: chunk_in_hand_def)
      ultimately show ?thesis unfolding chunked_reader_def S(1) by simp
    qed
  qed
qed

end

end
