(* ===== verification/HttpMessage.thy ===== *)
theory HttpMessage
  imports ChunkedProps
begin

text \<open>
  \<^verbatim>\<open>src/http/HttpMessage.cpp\<close> over \<^verbatim>\<open>src/mq/Message.cpp\<close>: the part that requests and responses share.
  Reading the header lines and the body from a buffered stream, writing them to any stream, the size and
  the text of the header block, and the settings. The body is a memory stream, as \<open>ensure_body\<close> makes it;
  the parameters and the streaming body of a message, the getters that forward to the headers and the
  conversions of V8 values are left out. The states of an asynchronous operation run one after the other.
\<close>

section \<open>State\<close>

record http_message =
  h_value :: string
  h_body :: "memory_stream option"
  h_end :: bool
  h_lastError :: string
  h_has_stm :: bool
  h_bResponse :: bool
  h_bNoBody :: bool
  h_protocol :: string
  h_keepAlive :: bool
  h_upgrade :: bool
  h_maxHeadersCount :: int
  h_maxHeaderSize :: int
  h_maxChunkSize :: int
  h_maxBodySize :: int
  h_origin :: string
  h_encoding :: string
  h_headers :: headers
  h_trailers :: "headers option"
  h_contentLength :: int
  h_bChunked :: bool
  h_sent :: bool

definition Message_clear :: "http_message \<Rightarrow> http_message" where
  "Message_clear M = M\<lparr>h_end := False, h_value := [], h_body := None\<rparr>"

definition http_clear :: "http_message \<Rightarrow> http_message" where
  "http_clear M =
     (Message_clear M)\<lparr>h_protocol := ''HTTP/1.1'', h_keepAlive := True, h_upgrade := False, h_origin := [],
        h_encoding := [], h_headers := (hc_clear (h_headers M))\<lparr>m_lowercase_keys := False\<rparr>,
        h_trailers := map_option hc_clear (h_trailers M), h_has_stm := False, h_contentLength := -1,
        h_bChunked := False, h_sent := False\<rparr>"

text \<open>The constructor sets the limits and clears the rest.\<close>

definition new_http_message :: "bool \<Rightarrow> http_message" where
  "new_http_message bResponse =
     http_clear \<lparr>h_value = [], h_body = None, h_end = False, h_lastError = [], h_has_stm = False,
       h_bResponse = bResponse, h_bNoBody = False, h_protocol = [], h_keepAlive = False, h_upgrade = False,
       h_maxHeadersCount = 128, h_maxHeaderSize = 8192, h_maxChunkSize = 2, h_maxBodySize = 64,
       h_origin = [], h_encoding = [], h_headers = new_Headers, h_trailers = None,
       h_contentLength = -1, h_bChunked = False, h_sent = False\<rparr>"

definition get_length :: "http_message \<Rightarrow> int" where
  "get_length M = (case h_body M of None \<Rightarrow> 0 | Some b \<Rightarrow> ms_size b)"

definition ensure_body :: "http_message \<Rightarrow> memory_stream" where
  "ensure_body M = (case h_body M of None \<Rightarrow> new_memory_stream | Some b \<Rightarrow> b)"

section \<open>Settings\<close>

definition set_protocol :: "string \<Rightarrow> http_message \<Rightarrow> http_error + http_message" where
  "set_protocol newVal M =
     (if qstrcmp newVal ''HTTP/'' 5 \<noteq> 0 \<or> \<not> c_isdigit (char_at newVal 5) \<or> char_at newVal 6 \<noteq> CHR ''.''
         \<or> \<not> c_isdigit (char_at newVal 7) \<or> char_at newVal 8 \<noteq> CHR 0x00
      then Inl Bad_protocol_version
      else Inr (M\<lparr>h_keepAlive := (int (code (char_at newVal 5)) - 48) * 10 + int (code (char_at newVal 7)) - 48 > 10,
                  h_protocol := newVal\<rparr>))"

definition set_maxHeadersCount :: "int \<Rightarrow> http_message \<Rightarrow> http_error + http_message" where
  "set_maxHeadersCount newVal M =
     (if newVal < 0 then Inl Out_of_range else Inr (M\<lparr>h_maxHeadersCount := newVal\<rparr>))"

definition set_maxHeaderSize :: "int \<Rightarrow> http_message \<Rightarrow> http_error + http_message" where
  "set_maxHeaderSize newVal M =
     (if newVal < 0 then Inl Out_of_range else Inr (M\<lparr>h_maxHeaderSize := newVal\<rparr>))"

definition set_maxChunkSize :: "int \<Rightarrow> http_message \<Rightarrow> http_message" where
  "set_maxChunkSize newVal M = M\<lparr>h_maxChunkSize := newVal\<rparr>"

definition set_maxBodySize :: "int \<Rightarrow> http_message \<Rightarrow> http_message" where
  "set_maxBodySize newVal M = M\<lparr>h_maxBodySize := newVal\<rparr>"

section \<open>Header lines\<close>

text \<open>\<open>atoi\<close> is \<open>strtol\<close>, which stops at the limits of a 64-bit number, cast to \<open>int\<close>.\<close>

definition c_atoi :: "string \<Rightarrow> int" where
  "c_atoi s = to_int32 (max (- (2 ^ 63)) (min (2 ^ 63 - 1) (c_atoll s)))"

definition append_header :: "string \<Rightarrow> string \<Rightarrow> http_message \<Rightarrow> http_message" where
  "append_header name value M =
     (if length name = 10 \<and> qstricmp name ''connection'' (int (length name)) = 0 then
        (if qstristr value ''upgrade'' \<noteq> None then M\<lparr>h_upgrade := True, h_keepAlive := True\<rparr>
         else M\<lparr>h_keepAlive := (qstristr value ''keep-alive'' \<noteq> None)\<rparr>)
      else M\<lparr>h_headers := append_string name value (h_headers M)\<rparr>)"

definition append_line :: "string \<Rightarrow> http_message \<Rightarrow> http_message \<times> (http_error + unit)" where
  "append_line line M =
     (let p = skipWord [CHR '':''] (new_parser line); p2 = p_pos p; (found, q) = want (CHR '':'') p
      in if p2 = 0 \<or> \<not> found then (M, Inl (Bad_header line))
         else (append_header (take p2 line) (p_now (skipSpace q)) M, Inr ()))"

text \<open>One line of the header, before it is counted.\<close>

definition read_header_line :: "string \<Rightarrow> http_message \<Rightarrow> http_message \<times> (http_error + unit)" where
  "read_header_line line M =
     (if qstricmp line ''content-length:'' 15 = 0 then
        (let n = c_atoi (drop 15 (c_string line)); M = M\<lparr>h_contentLength := n\<rparr>
         in if \<not> h_bNoBody M \<and> (n < 0 \<or> h_maxBodySize M \<ge> 0 \<and> n > h_maxBodySize M * MiB)
            then (M, Inl Body_too_huge)
            else append_line line M)
      else if qstricmp line ''transfer-encoding:'' 18 = 0 then
        (if qstricmp (p_now (skipSpace (new_parser (drop 18 line)))) ''chunked'' (-1) \<noteq> 0
         then (M, Inl Unknown_transfer_encoding)
         else append_line line (M\<lparr>h_bChunked := True\<rparr>))
      else append_line line M)"

type_synonym 's http_result = "('s buffered \<times> http_message \<times> (http_error + unit)) option"

partial_function (option) header_loop ::
  "('s \<Rightarrow> string reply \<times> 's) \<Rightarrow> string \<Rightarrow> int \<Rightarrow> 's buffered \<Rightarrow> http_message \<Rightarrow> 's http_result" where
  "header_loop rd line headCount S M =
     (if line \<noteq> [] then
        (case read_header_line line M of
           (M1, r) \<Rightarrow>
             (case r of
                Inl e \<Rightarrow> Some (S, M1, Inl e)
              | Inr _ \<Rightarrow>
                  if headCount + 1 > h_maxHeadersCount M1 then Some (S, M1, Inl Too_many_headers)
                  else
                    (case bs_readLine rd (h_maxHeaderSize M1) S of
                       None \<Rightarrow> None
                     | Some (S1, l) \<Rightarrow>
                         (case line_of l of
                            Inl e \<Rightarrow> Some (S1, M1, Inl e)
                          | Inr line1 \<Rightarrow> header_loop rd line1 (headCount + 1) S1 M1))))
      else Some (S, M, Inr ()))"

definition readHeader :: "('s \<Rightarrow> string reply \<times> 's) \<Rightarrow> 's buffered \<Rightarrow> http_message \<Rightarrow> 's http_result" where
  "readHeader rd S M =
     (let M = M\<lparr>h_headers := (h_headers M)\<lparr>m_lowercase_keys := True\<rparr>, h_has_stm := True\<rparr>
      in case bs_readLine rd (h_maxHeaderSize M) S of
           None \<Rightarrow> None
         | Some (S1, l) \<Rightarrow>
             (case line_of l of
                Inl e \<Rightarrow> Some (S1, M, Inl e)
              | Inr line \<Rightarrow> header_loop rd line 0 S1 M))"

section \<open>The body\<close>

text \<open>The state \<open>body\<close>, after the copy.\<close>

definition body_done :: "int \<Rightarrow> http_message \<Rightarrow> http_message \<times> (http_error + unit)" where
  "body_done copied M =
     (if h_contentLength M > 0 \<and> h_contentLength M \<noteq> copied then (M, Inl Body_not_complete)
      else (M\<lparr>h_body := map_option (\<lambda>b. snd (ms_rewind b)) (h_body M)\<rparr>, Inr ()))"

definition readBody :: "('s \<Rightarrow> string reply \<times> 's) \<Rightarrow> 's buffered \<Rightarrow> http_message \<Rightarrow> 's http_result" where
  "readBody rd S M =
     (if \<not> h_has_stm M then Some (S, M, Inl Stream_not_set)
      else if h_bNoBody M then Some (S, M, Inr ())
      else if h_bChunked M then
        (if h_maxBodySize M = 0 then Some (S, M, Inr ())
         else if h_contentLength M > 0 then Some (S, M, Inl Invalid_data)
         else
           (let T = (case h_trailers M of None \<Rightarrow> new_Headers | Some T \<Rightarrow> T)\<lparr>m_lowercase_keys := True\<rparr>;
                M = M\<lparr>h_contentLength := 0, h_trailers := Some T\<rparr>
            in case copyStream (chunked_reader rd) memory_writer (-1)
                      (new_chunked S (h_maxChunkSize M) (h_maxBodySize M) (Some T)) (ensure_body M) of
                 None \<Rightarrow> None
               | Some (C, b, copied, r) \<Rightarrow>
                   let M = M\<lparr>h_body := Some b, h_trailers := k_trailers C\<rparr>
                   in (case r of
                         Inl e \<Rightarrow> Some (k_stm C, M, Inl e)
                       | Inr _ \<Rightarrow> Some (k_stm C, body_done copied M))))
      else if h_contentLength M > 0 \<or> (h_bResponse M \<and> \<not> h_keepAlive M \<and> h_contentLength M = -1) then
        (case copyStream (buffered_reader rd) memory_writer (h_contentLength M) S (ensure_body M) of
           None \<Rightarrow> None
         | Some (S, b, copied, r) \<Rightarrow>
             let M = M\<lparr>h_body := Some b\<rparr>
             in (case r of
                   Inl e \<Rightarrow> Some (S, M, Inl e)
                 | Inr _ \<Rightarrow> Some (S, body_done copied M)))
      else Some (S, M, Inr ()))"

definition http_readFrom :: "('s \<Rightarrow> string reply \<times> 's) \<Rightarrow> 's buffered \<Rightarrow> http_message \<Rightarrow> 's http_result" where
  "http_readFrom rd S M =
     (case readHeader rd S M of
        None \<Rightarrow> None
      | Some (S1, M1, r) \<Rightarrow>
          (case r of
             Inl e \<Rightarrow> Some (S1, M1, Inl e)
           | Inr _ \<Rightarrow> readBody rd S1 M1))"

section \<open>The header block\<close>

function count_digits :: "int \<Rightarrow> nat" where
  "count_digits l = (if l > 0 then count_digits (l div 10) + 1 else 0)"
  by auto
termination
  by (relation "measure nat") (auto simp: nat_less_iff zdiv_int)

declare count_digits.simps [simp del]

text \<open>The first pass: \<open>getData\<close> without a buffer.\<close>

definition getData_size :: "bool \<Rightarrow> http_message \<Rightarrow> nat" where
  "getData_size content_length M =
     2 + headers_size (m_map (h_headers M)) + (10 + 4 + (if h_upgrade M then 7 else if h_keepAlive M then 10 else 5)) +
     (if content_length then
        (if get_length M > 0 then 14 + 4 + count_digits (get_length M) else if h_bResponse M then 19 else 0)
      else 0)"

text \<open>The digits are written from the end of an array of 32 characters.\<close>

function write_digits :: "int \<Rightarrow> string \<Rightarrow> string" where
  "write_digits l p = (if l > 0 then write_digits (l div 10) (digit_char (nat (l mod 10)) # p) else p)"
  by auto
termination
  by (relation "measure (\<lambda>(l, p). nat l)") (auto simp: nat_less_iff zdiv_int)

declare write_digits.simps [simp del]

definition getData :: "nat \<Rightarrow> bool \<Rightarrow> http_message \<Rightarrow> string" where
  "getData sz content_length M =
     (let out = headers_getData sz (m_map (h_headers M)) [];
          out = cp sz out ''Connection: '';
          out = cp sz out (if h_upgrade M then ''upgrade'' @ CRLF else if h_keepAlive M then ''keep-alive'' @ CRLF
                           else ''close'' @ CRLF);
          out = (if content_length then
                   (if get_length M > 0
                    then cp sz (cp sz out ''Content-Length: '') (write_digits (get_length M) CRLF)
                    else if h_bResponse M then cp sz out (''Content-Length: 0'' @ CRLF)
                    else out)
                 else out)
      in cp sz out CRLF)"

section \<open>Sending\<close>

definition TINY_SIZE :: int where
  "TINY_SIZE = 32768"

text \<open>
  The state \<open>header\<close>: the buffer it makes is resized before it is filled, so what is not filled is NUL.
\<close>

definition header_buffer :: "string \<Rightarrow> bool \<Rightarrow> string \<Rightarrow> http_message \<Rightarrow> string" where
  "header_buffer strCommand content_length body_buf M =
     (let sz1 = getData_size content_length M;
          s = strCommand @ CRLF @ getData sz1 content_length M @ body_buf
      in s @ replicate (length strCommand + sz1 + 2 + length body_buf - length s) (CHR 0x00))"

definition asyncSendTo ::
  "('t, http_error) writer \<Rightarrow> string \<Rightarrow> bool \<Rightarrow> bool \<Rightarrow> http_message \<Rightarrow> 't \<Rightarrow>
   ('t \<times> http_message \<times> (http_error + unit)) option" where
  "asyncSendTo wr strCommand headerOnly content_length M T =
     (let len = get_length M; tiny = (\<not> headerOnly \<and> len > 0 \<and> len < TINY_SIZE);
          rewound = snd (ms_rewind (ensure_body M));
          (r, b) = ms_readBuffer (to_int32 len) rewound;
          M = (if tiny then M\<lparr>h_body := Some b\<rparr> else M);
          got = (if tiny then (case r of Ok d \<Rightarrow> Some d | _ \<Rightarrow> None) else None);
          body_buf = (case got of Some d \<Rightarrow> d | None \<Rightarrow> [])
      in if got \<noteq> None \<and> len \<noteq> to_int32 (int (length body_buf)) then Some (T, M, Inl Body_not_complete)
         else
           (case wr (header_buffer strCommand content_length body_buf M) T of
              (T1, w) \<Rightarrow>
                (case w of
                   Inl e \<Rightarrow> Some (T1, M, Inl e)
                 | Inr _ \<Rightarrow>
                     (if headerOnly \<or> len = 0 \<or> body_buf \<noteq> [] then Some (T1, M, Inr ())
                      else
                        (case h_body M of
                           None \<Rightarrow> Some (T1, M, Inr ())
                         | Some b \<Rightarrow>
                             (case copyStream memory_reader wr len (snd (ms_rewind b)) T1 of
                                None \<Rightarrow> None
                              | Some (b2, T2, copied, r) \<Rightarrow>
                                  let M = M\<lparr>h_body := Some b2\<rparr>
                                  in (case r of
                                        Inl e \<Rightarrow> Some (T2, M, Inl e)
                                      | Inr _ \<Rightarrow>
                                          if len \<noteq> copied then Some (T2, M, Inl Body_not_complete)
                                          else Some (T2, M, Inr ()))))))))"

definition http_send ::
  "('t, http_error) writer \<Rightarrow> string \<Rightarrow> http_message \<Rightarrow> 't \<Rightarrow> ('t \<times> http_message \<times> (http_error + unit)) option" where
  "http_send wr strCommand M T = asyncSendTo wr strCommand False True (M\<lparr>h_sent := True\<rparr>) T"

definition http_sendHeader ::
  "('t, http_error) writer \<Rightarrow> string \<Rightarrow> bool \<Rightarrow> http_message \<Rightarrow> 't \<Rightarrow>
   ('t \<times> http_message \<times> (http_error + unit)) option" where
  "http_sendHeader wr strCommand content_length M T =
     asyncSendTo wr strCommand True content_length (M\<lparr>h_sent := True\<rparr>) T"

section \<open>Copies\<close>

fun append_all :: "(string \<times> unit variant) list \<Rightarrow> headers \<Rightarrow> headers" where
  "append_all [] H = H"
| "append_all (p # ps) H = append_all ps (append_string (fst p) (v_string (snd p)) H)"

text \<open>\<open>readAll\<close> of a memory stream at its beginning is its contents, null when it is empty.\<close>

definition Message_copyTo :: "http_message \<Rightarrow> http_message \<Rightarrow> http_message" where
  "Message_copyTo M target =
     (let target = target\<lparr>h_value := h_value M, h_lastError := h_lastError M, h_end := h_end M\<rparr>
      in case h_body M of
           None \<Rightarrow> target
         | Some b \<Rightarrow>
             (case ms_readBuffer (-1) (snd (ms_rewind b)) of
                (Ok buf, _) \<Rightarrow>
                  target\<lparr>h_body := Some (snd (ms_rewind (snd (ms_writeBuffer buf new_memory_stream))))\<rparr>
              | _ \<Rightarrow> target))"

definition http_copyTo :: "http_message \<Rightarrow> http_message \<Rightarrow> http_message" where
  "http_copyTo M target =
     (Message_copyTo M target)\<lparr>h_protocol := h_protocol M, h_keepAlive := h_keepAlive M, h_upgrade := h_upgrade M,
        h_maxHeadersCount := h_maxHeadersCount M, h_maxHeaderSize := h_maxHeaderSize M,
        h_maxChunkSize := h_maxChunkSize M, h_maxBodySize := h_maxBodySize M, h_origin := h_origin M,
        h_encoding := h_encoding M, h_contentLength := h_contentLength M, h_bChunked := h_bChunked M,
        h_headers := append_all (m_map (h_headers M)) new_Headers,
        h_trailers := (case h_trailers M of None \<Rightarrow> h_trailers target
                       | Some T \<Rightarrow> Some (append_all (m_map T) new_Headers))\<rparr>"

end
