(* ===== verification/HttpSpec.thy ===== *)
theory HttpSpec
  imports HttpMessage
begin

text \<open>
  What a message is on the wire: the lines of its header, an empty line and the body. The lemmas give the
  text \<open>getData\<close> and \<open>asyncSendTo\<close> write, and what \<open>readHeader\<close> and \<open>readBody\<close> make of such a text, line by
  line, whatever pieces it comes in.
\<close>

section \<open>Comparing the beginning of a line\<close>

lemma qcmp_loop_beginning:
  assumes g: "\<And>c. g c = CHR 0x00 \<longleftrightarrow> c = CHR 0x00"
  shows "m \<noteq> [] \<Longrightarrow> CHR 0x00 \<notin> set m \<Longrightarrow>
    qcmp_loop (schar \<circ> g) s m (int (length m)) = 0 \<longleftrightarrow> map g (take (length m) s) = map g m"
proof (induction m arbitrary: s)
  case Nil
  then show ?case by simp
next
  case (Cons d m)
  have g0: "g d \<noteq> CHR 0x00" using g [of d] Cons.prems by auto
  show ?case
  proof (cases s)
    case Nil
    with Cons.prems show ?thesis by (auto simp: chr0_def)
  next
    case (Cons c s')
    show ?thesis
    proof (cases "m = []")
      case True
      with Cons Cons.prems g [of c] g0 show ?thesis by (auto simp: chr0_def)
    next
      case False
      with Cons.IH [of s'] Cons.prems Cons g [of c] g0 show ?thesis by (auto simp: chr0_def)
    qed
  qed
qed

lemma qstricmp_beginning:
  assumes "m \<noteq> []" "CHR 0x00 \<notin> set m"
  shows "qstricmp s m (int (length m)) = 0 \<longleftrightarrow> map qtolower (take (length m) s) = map qtolower m"
  using qcmp_loop_beginning [of qtolower m s] assms by (simp add: qstricmp_def)

lemma qstricmp_whole: "qstricmp a b (-1) = 0 \<longleftrightarrow> map qtolower (c_string a) = map qtolower (c_string b)"
  using qcmp_loop_equal [of qtolower a b] by (simp add: qstricmp_def)

lemma c_string_id: "CHR 0x00 \<notin> set s \<Longrightarrow> c_string s = s"
  by (auto simp: c_string_def takeWhile_eq_all_conv)

lemma qtolower_colon: "qtolower c = CHR '':'' \<longleftrightarrow> c = CHR '':''"
proof -
  have "code (qtolower c) = (if 65 \<le> code c \<and> code c \<le> 90 then code c + 32 else code c)"
    by (simp add: qtolower_def)
  then have "code (qtolower c) = 58 \<longleftrightarrow> code c = 58" by auto
  moreover have "code d = 58 \<longleftrightarrow> d = CHR '':''" for d using of_char_eq_iff [of d "CHR '':''"] by simp
  ultimately show ?thesis by metis
qed

text \<open>A name and a colon at the beginning of a line: the line has that name, whatever its case.\<close>

definition lower :: "string \<Rightarrow> string" where
  "lower s = map qtolower s"

lemma first_colon:
  assumes "CHR '':'' \<notin> set a" "CHR '':'' \<notin> set b"
  shows "take (length b + 1) (a @ CHR '':'' # r) = b @ [CHR '':''] \<longleftrightarrow> a = b"
  using assms
proof (induction a arbitrary: b)
  case Nil
  then show ?case by (cases b) auto
next
  case (Cons c a)
  then show ?case by (cases b) auto
qed

lemma line_names:
  assumes "CHR '':'' \<notin> set n" "CHR '':'' \<notin> set k" "CHR 0x00 \<notin> set k" "lower k = k"
  shows "qstricmp (n @ CHR '':'' # r) (k @ [CHR '':'']) (int (length k + 1)) = 0 \<longleftrightarrow> lower n = k"
proof -
  have c: "CHR '':'' \<notin> set (lower n)" using assms(1) qtolower_colon by (force simp: lower_def)
  have "qstricmp (n @ CHR '':'' # r) (k @ [CHR '':'']) (int (length k + 1)) = 0 \<longleftrightarrow>
      map qtolower (take (length k + 1) (n @ CHR '':'' # r)) = lower k @ [CHR '':'']"
    using qstricmp_beginning [of "k @ [CHR '':'']" "n @ CHR '':'' # r"] assms(3)
    by (simp add: lower_def qtolower_colon [THEN iffD2])
  also have "map qtolower (take (length k + 1) (n @ CHR '':'' # r)) =
      take (length k + 1) (lower n @ CHR '':'' # lower r)"
    by (simp add: take_map [symmetric] lower_def qtolower_colon [THEN iffD2] del: take_append)
  finally show ?thesis using first_colon [OF c assms(2), of "lower r"] assms(4) by simp
qed

section \<open>One line\<close>

definition name_ok :: "string \<Rightarrow> bool" where
  "name_ok n \<longleftrightarrow> n \<noteq> [] \<and> (\<forall>c \<in> set n. c \<noteq> CHR 0x00 \<and> \<not> qisspace c \<and> c \<noteq> CHR '':'')"

definition value_ok :: "string \<Rightarrow> bool" where
  "value_ok v \<longleftrightarrow> (v = [] \<or> \<not> qisspace (hd v)) \<and> CHR 0x0A \<notin> set v"

definition line_for :: "string \<Rightarrow> string \<Rightarrow> string" where
  "line_for n v = n @ '': '' @ v"

lemma want_found:
  assumes "p_pos p \<le> length (p_string p)" "p_now p = c # r" "c \<noteq> CHR 0x00" "\<not> qisspace c"
  shows "want c p = (True, p\<lparr>p_pos := p_pos p + 1\<rparr>)"
proof -
  have "skipSpace p = p" using assms by (simp add: skipSpace_def skip_while_spec run_of_def)
  moreover have "p_pos p < length (p_string p)" using assms(2) by (cases "p_pos p < length (p_string p)") (simp_all add: p_now_def)
  ultimately show ?thesis using assms(2) by (simp add: want_def p_get_now chr0_def p_skip_def)
qed

lemma append_line_for:
  assumes "name_ok n" "value_ok v"
  shows "append_line (line_for n v) M = (append_header n v M, Inr ())"
proof -
  let ?line = "line_for n v"
  let ?p = "\<lparr>p_string = ?line, p_pos = length n\<rparr>" and ?q = "\<lparr>p_string = ?line, p_pos = length n + 1\<rparr>"
  have "run_of (\<lambda>ch. \<not> (qisspace ch \<or> ch \<in> set [CHR '':''])) (n @ '': '' @ v) = n"
    using assms(1) by (intro run_append(1)) (auto simp: name_ok_def)
  then have p: "skipWord [CHR '':''] (new_parser ?line) = ?p"
    by (simp add: skipWord_def skip_while_spec line_for_def new_parser_def p_now_def)
  have w: "want (CHR '':'') ?p = (True, ?q)"
    using want_found [of ?p "CHR '':''" "CHR '' '' # v"] by (simp add: p_now_def line_for_def qisspace_def)
  have "dropWhile (\<lambda>c. c \<noteq> CHR 0x00 \<and> qisspace c) ('' '' @ v) = v"
    using assms(2) by (intro run_append(2)) (auto simp: value_ok_def qisspace_def)
  then have s: "p_now (skipSpace ?q) = v"
    using skip_while_now(1) [of ?q qisspace] by (simp add: skipSpace_def p_now_def line_for_def)
  have "n \<noteq> []" "take (length n) ?line = n" using assms(1) by (auto simp: name_ok_def line_for_def)
  with p w s show ?thesis by (simp add: append_line_def)
qed

lemma read_line_for:
  assumes "name_ok n" "value_ok v" "lower n \<noteq> ''content-length''" "lower n \<noteq> ''transfer-encoding''"
  shows "read_header_line (line_for n v) M = (append_header n v M, Inr ())"
proof -
  have c: "CHR '':'' \<notin> set n" using assms(1) by (auto simp: name_ok_def)
  have "qstricmp (line_for n v) ''content-length:'' 15 \<noteq> 0"
    using line_names [OF c, of "''content-length''" "'' '' @ v"] assms(3)
    by (simp add: line_for_def lower_def qtolower_def)
  moreover have "qstricmp (line_for n v) ''transfer-encoding:'' 18 \<noteq> 0"
    using line_names [OF c, of "''transfer-encoding''" "'' '' @ v"] assms(4)
    by (simp add: line_for_def lower_def qtolower_def)
  ultimately show ?thesis using append_line_for [OF assms(1,2)] by (simp add: read_header_line_def)
qed

section \<open>The header block\<close>

lemma write_digits_number: "write_digits (int n) p = (if n = 0 then [] else nat_to_string n) @ p"
proof (induction n arbitrary: p rule: less_induct)
  case (less n)
  show ?case
  proof (cases "n = 0")
    case True
    then show ?thesis by (simp add: write_digits.simps)
  next
    case False
    have "write_digits (int n) p = write_digits (int (n div 10)) (digit_char (n mod 10) # p)"
      using False of_nat_mod [of n 10, where 'a = int, symmetric]
      by (subst write_digits.simps) (simp add: zdiv_int)
    also have "\<dots> = (if n div 10 = 0 then [] else nat_to_string (n div 10)) @ digit_char (n mod 10) # p"
      using less [of "n div 10"] False by simp
    also have "\<dots> = nat_to_string n @ p"
      by (subst (2) nat_to_string.simps) (auto simp: div_eq_0_iff)
    finally show ?thesis using False by simp
  qed
qed

lemma count_digits_number: "count_digits (int n) = (if n = 0 then 0 else length (nat_to_string n))"
proof (induction n rule: less_induct)
  case (less n)
  show ?case
  proof (cases "n = 0")
    case True
    then show ?thesis by (simp add: count_digits.simps)
  next
    case False
    have "count_digits (int n) = count_digits (int (n div 10)) + 1"
      using False by (subst count_digits.simps) (simp add: zdiv_int)
    also have "\<dots> = length (nat_to_string n)"
      using less [of "n div 10"] False by (subst nat_to_string.simps) (auto simp: div_eq_0_iff)
    finally show ?thesis using False by simp
  qed
qed

lemma zero_text: "nat_to_string 0 = ''0''"
  by code_simp

definition sent_headers :: "http_message \<Rightarrow> (string \<times> string) list" where
  "sent_headers M =
     map (\<lambda>p. (fst p, v_string (snd p))) (filter (\<lambda>p. \<not> managed (fst p)) (m_map (h_headers M)))"

definition connection_value :: "http_message \<Rightarrow> string" where
  "connection_value M = (if h_upgrade M then ''upgrade'' else if h_keepAlive M then ''keep-alive'' else ''close'')"

definition length_headers :: "bool \<Rightarrow> http_message \<Rightarrow> (string \<times> string) list" where
  "length_headers content_length M =
     (if content_length \<and> (get_length M > 0 \<or> h_bResponse M)
      then [(''Content-Length'', nat_to_string (nat (get_length M)))] else [])"

definition wire_lines :: "bool \<Rightarrow> http_message \<Rightarrow> string list" where
  "wire_lines content_length M =
     map (\<lambda>(n, v). line_for n v)
       (sent_headers M @ [(''Connection'', connection_value M)] @ length_headers content_length M)"

definition lines_wire :: "string list \<Rightarrow> string" where
  "lines_wire ls = concat (map (\<lambda>l. l @ CRLF) ls)"

lemma lines_wire_simps [simp]:
  "lines_wire [] = []" "lines_wire (l # ls) = l @ CRLF @ lines_wire ls"
  "lines_wire (ls @ ks) = lines_wire ls @ lines_wire ks"
  by (simp_all add: lines_wire_def)

lemma header_block_wire:
  "header_block (m_map (h_headers M)) = lines_wire (map (\<lambda>(n, v). line_for n v) (sent_headers M))"
proof -
  have "header_line = (\<lambda>p :: string \<times> unit variant. line_for (fst p) (v_string (snd p)) @ CRLF)"
    by (rule ext) (simp add: header_line_def line_for_def CRLF_def)
  then show ?thesis by (simp add: header_block_def sent_headers_def lines_wire_def comp_def)
qed

lemma getData_all:
  assumes "0 \<le> get_length M"
  shows "getData sz cl M = take sz (lines_wire (wire_lines cl M) @ CRLF)"
proof -
  obtain n where n: "get_length M = int n" using assms nonneg_int_cases by blast
  have h: "headers_getData sz (m_map (h_headers M)) [] = take sz (header_block (m_map (h_headers M)))"
    using getData_take [of sz "m_map (h_headers M)" "[]"] by simp
  show ?thesis
    by (simp add: getData_def Let_def h cp_take_take n write_digits_number wire_lines_def length_headers_def
        connection_value_def line_for_def header_block_wire zero_text del: take_append)
qed

lemma getData_size_all:
  assumes "0 \<le> get_length M"
  shows "getData_size cl M = length (lines_wire (wire_lines cl M) @ CRLF)"
proof -
  obtain n where n: "get_length M = int n" using assms nonneg_int_cases by blast
  show ?thesis
    by (simp add: getData_size_def headers_size_block header_block_wire n count_digits_number wire_lines_def
        length_headers_def connection_value_def line_for_def CRLF_def zero_text)
qed

lemma header_buffer_text:
  assumes "0 \<le> get_length M"
  shows "header_buffer cmd cl b M = cmd @ CRLF @ lines_wire (wire_lines cl M) @ CRLF @ b"
  using getData_all [OF assms, of "getData_size cl M" cl] getData_size_all [OF assms, of cl]
  by (simp add: header_buffer_def Let_def CRLF_def)

section \<open>Reading the header\<close>

text \<open>The lines one after the other, up to the first that is refused.\<close>

fun lines_run :: "string list \<Rightarrow> http_message \<Rightarrow> http_message \<times> (http_error + unit)" where
  "lines_run [] M = (M, Inr ())"
| "lines_run (l # ls) M =
     (case read_header_line l M of
        (M1, Inl e) \<Rightarrow> (M1, Inl e)
      | (M1, Inr _) \<Rightarrow> lines_run ls M1)"

definition line_ok :: "int \<Rightarrow> string \<Rightarrow> bool" where
  "line_ok maxSize l \<longleftrightarrow> l \<noteq> [] \<and> CHR 0x0A \<notin> set l \<and> (maxSize > 0 \<longrightarrow> int (length l) \<le> maxSize)"

lemma append_header_keeps [simp]:
  "h_maxHeadersCount (append_header n v M) = h_maxHeadersCount M"
  "h_maxHeaderSize (append_header n v M) = h_maxHeaderSize M"
  "h_maxBodySize (append_header n v M) = h_maxBodySize M"
  "h_maxChunkSize (append_header n v M) = h_maxChunkSize M"
  "h_bNoBody (append_header n v M) = h_bNoBody M" "h_bResponse (append_header n v M) = h_bResponse M"
  "h_contentLength (append_header n v M) = h_contentLength M" "h_bChunked (append_header n v M) = h_bChunked M"
  "h_body (append_header n v M) = h_body M" "h_has_stm (append_header n v M) = h_has_stm M"
  "h_value (append_header n v M) = h_value M" "h_protocol (append_header n v M) = h_protocol M"
  "h_trailers (append_header n v M) = h_trailers M"
  by (simp_all add: append_header_def)

lemma read_header_line_keeps:
  "h_maxHeadersCount (fst (read_header_line l M)) = h_maxHeadersCount M"
  "h_maxHeaderSize (fst (read_header_line l M)) = h_maxHeaderSize M"
  by (simp_all add: read_header_line_def append_line_def Let_def split: prod.splits)

context byte_source
begin

lemma header_loop_lines:
  "connection ok rest S (lines_wire ls @ [] @ CRLF @ after) \<Longrightarrow> list_all (line_ok (h_maxHeaderSize M)) ls \<Longrightarrow> l \<noteq> [] \<Longrightarrow>
   k + int (length ls) + 1 \<le> h_maxHeadersCount M \<Longrightarrow>
   \<exists>S'. header_loop read_some l k S M = Some (S', lines_run (l # ls) M) \<and>
     (snd (lines_run (l # ls) M) = Inr () \<longrightarrow> connection ok rest S' after)"
proof (induction ls arbitrary: l S M k)
  case Nil
  then have u: "connection ok rest S ([] @ CRLF @ after)" by simp
  obtain S' where S': "bs_readLine read_some (h_maxHeaderSize M) S = Some (S', Ok [])" "connection ok rest S' after"
    using read_line_connection [OF u] by auto
  obtain M1 r where r: "read_header_line l M = (M1, r)" by fastforce
  have "h_maxHeadersCount M1 = h_maxHeadersCount M" "h_maxHeaderSize M1 = h_maxHeaderSize M"
    using read_header_line_keeps [of l M] r by simp_all
  moreover have "header_loop read_some [] (k + 1) S' M1 = Some (S', M1, Inr ())"
    by (subst header_loop.simps) simp
  ultimately show ?case
    using Nil.prems S' r by (subst header_loop.simps) (auto simp: line_of_def split: sum.splits)
next
  case (Cons l1 ls)
  obtain M1 r where r: "read_header_line l M = (M1, r)" by fastforce
  have m: "h_maxHeadersCount M1 = h_maxHeadersCount M" "h_maxHeaderSize M1 = h_maxHeaderSize M"
    using read_header_line_keeps [of l M] r by simp_all
  show ?case
  proof (cases r)
    case (Inl e)
    with Cons.prems r show ?thesis by (subst header_loop.simps) simp
  next
    case (Inr u)
    have c: "connection ok rest S (l1 @ CRLF @ lines_wire ls @ [] @ CRLF @ after)" using Cons.prems(1) by simp
    have ok: "l1 \<noteq> []" "CHR 0x0A \<notin> set l1" "h_maxHeaderSize M > 0 \<longrightarrow> int (length l1) \<le> h_maxHeaderSize M"
      using Cons.prems(2) by (simp_all add: line_ok_def)
    obtain S1 where S1: "bs_readLine read_some (h_maxHeaderSize M) S = Some (S1, Ok l1)"
      "connection ok rest S1 (lines_wire ls @ [] @ CRLF @ after)"
      using read_line_connection [OF c ok(2,3)] by auto
    have "header_loop read_some l k S M = header_loop read_some l1 (k + 1) S1 M1"
      using Cons.prems r Inr S1(1) m by (subst header_loop.simps) (simp add: line_of_def)
    moreover have "list_all (line_ok (h_maxHeaderSize M1)) ls" "k + 1 + int (length ls) + 1 \<le> h_maxHeadersCount M1"
      using Cons.prems(2,4) m by simp_all
    ultimately show ?thesis
      using Cons.IH [OF S1(2) _ ok(1), of M1 "k + 1"] r Inr by simp
  qed
qed

text \<open>The header of a message is read line by line, in order, until one is refused.\<close>

lemma read_header_lines:
  assumes "connection ok rest S (lines_wire ls @ [] @ CRLF @ after)" "list_all (line_ok (h_maxHeaderSize M)) ls"
    "int (length ls) \<le> h_maxHeadersCount M"
  defines "M0 \<equiv> M\<lparr>h_headers := (h_headers M)\<lparr>m_lowercase_keys := True\<rparr>, h_has_stm := True\<rparr>"
  shows "\<exists>S'. readHeader read_some S M = Some (S', lines_run ls M0) \<and>
     (snd (lines_run ls M0) = Inr () \<longrightarrow> connection ok rest S' after)"
proof (cases ls)
  case Nil
  then have u: "connection ok rest S ([] @ CRLF @ after)" using assms(1) by simp
  obtain S' where "bs_readLine read_some (h_maxHeaderSize M) S = Some (S', Ok [])" "connection ok rest S' after"
    using read_line_connection [OF u] by auto
  with Nil show ?thesis
    by (simp add: readHeader_def Let_def line_of_def M0_def) (subst header_loop.simps, simp)
next
  case (Cons l ls')
  then have u: "connection ok rest S (l @ CRLF @ lines_wire ls' @ [] @ CRLF @ after)"
    and l: "l \<noteq> []" "CHR 0x0A \<notin> set l" "h_maxHeaderSize M > 0 \<longrightarrow> int (length l) \<le> h_maxHeaderSize M"
    using assms(1,2) by (simp_all add: line_ok_def)
  obtain S1 where S1: "bs_readLine read_some (h_maxHeaderSize M) S = Some (S1, Ok l)"
    "connection ok rest S1 (lines_wire ls' @ [] @ CRLF @ after)"
    using read_line_connection [OF u l(2,3)] by auto
  from header_loop_lines [OF S1(2), of M0 l 0] Cons assms(2,3) l(1) S1(1)
  show ?thesis by (simp add: readHeader_def Let_def line_of_def M0_def)
qed

end

end
