(* ===== verification/HttpWire.thy ===== *)
theory HttpWire
  imports HttpSpec
begin

text \<open>
  A message sent and read again: the header lines a message writes, run through the reader, and the body
  after them. The results of \<open>readHeader\<close>, \<open>readBody\<close> and \<open>asyncSendTo\<close> on such texts, for the requests and
  responses of the next theory.
\<close>

section \<open>The header\<close>

lemma lines_run_append:
  "snd (lines_run ls M) = Inr () \<Longrightarrow> lines_run (ls @ ks) M = lines_run ks (fst (lines_run ls M))"
  by (induction ls arbitrary: M) (auto split: prod.splits sum.splits)

definition add_pairs :: "(string \<times> string) list \<Rightarrow> headers \<Rightarrow> headers" where
  "add_pairs ps H = foldl (\<lambda>H (n, v). append_string n v H) H ps"

lemma append_string_pair:
  assumes "n \<noteq> []" "m_lowercase_keys H"
  shows "append_string n v H = H\<lparr>m_map := m_map H @ [(lower n, VT_String v)], m_sorted := False\<rparr>"
  using assms by (simp add: append_string_def hc_append_def no_name_def lower_def v_toString_def)

lemma add_pairs_map:
  assumes "\<forall>p \<in> set ps. fst p \<noteq> []" "m_lowercase_keys H"
  shows "m_map (add_pairs ps H) = m_map H @ map (\<lambda>p. (lower (fst p), VT_String (snd p))) ps \<and>
    m_lowercase_keys (add_pairs ps H)"
  using assms
proof (induction ps arbitrary: H)
  case Nil
  then show ?case by (simp add: add_pairs_def)
next
  case (Cons p ps)
  obtain n v where p: "p = (n, v)" by fastforce
  from Cons.IH [of "append_string n v H"] Cons.prems p show ?case
    by (simp add: add_pairs_def append_string_pair)
qed

lemma managed_lower:
  assumes "name_ok n"
  shows "managed n \<longleftrightarrow> lower n = ''content-length'' \<or> lower n = ''connection''"
proof -
  have n: "c_string n = n" using assms by (intro c_string_id) (auto simp: name_ok_def)
  have "qstricmp n ''content-length'' (-1) = 0 \<longleftrightarrow> lower n = ''content-length''"
    using n by (simp add: qstricmp_whole lower_def qtolower_def)
  moreover have "qstricmp n ''connection'' (-1) = 0 \<longleftrightarrow> lower n = ''connection''"
    using n by (simp add: qstricmp_whole lower_def qtolower_def)
  ultimately show ?thesis by (simp add: managed_def)
qed

lemma append_header_other:
  assumes "name_ok n" "\<not> managed n"
  shows "append_header n v M = M\<lparr>h_headers := append_string n v (h_headers M)\<rparr>"
proof -
  have "\<not> (length n = 10 \<and> qstricmp n ''connection'' (int (length n)) = 0)"
  proof
    assume a: "length n = 10 \<and> qstricmp n ''connection'' (int (length n)) = 0"
    then have "length n = 10" "qstricmp n ''connection'' (int (length ''connection'')) = 0" by auto
    then have "map qtolower (take 10 n) = map qtolower ''connection''"
      using qstricmp_beginning [of "''connection''" n] by (simp del: length_Cons list.size(3))
    with a have "lower n = ''connection''" by (simp add: lower_def) (simp add: qtolower_def)
    with assms managed_lower show False by blast
  qed
  then show ?thesis unfolding append_header_def by (simp only: if_False)
qed

definition pair_ok :: "string \<times> string \<Rightarrow> bool" where
  "pair_ok p \<longleftrightarrow> name_ok (fst p) \<and> value_ok (snd p) \<and> \<not> managed (fst p) \<and> lower (fst p) \<noteq> ''transfer-encoding''"

lemma lines_run_pairs:
  assumes "list_all pair_ok ps"
  shows "lines_run (map (\<lambda>(n, v). line_for n v) ps) M = (M\<lparr>h_headers := add_pairs ps (h_headers M)\<rparr>, Inr ())"
  using assms
proof (induction ps arbitrary: M)
  case Nil
  then show ?case by (simp add: add_pairs_def)
next
  case (Cons p ps)
  obtain n v where p: "p = (n, v)" by fastforce
  with Cons.prems have ok: "name_ok n" "value_ok v" "\<not> managed n" "lower n \<noteq> ''transfer-encoding''"
    by (simp_all add: pair_ok_def)
  then have "lower n \<noteq> ''content-length''" using managed_lower by blast
  from read_line_for [OF ok(1,2) this ok(4)] append_header_other [OF ok(1,3)] Cons p show ?case
    by (simp add: add_pairs_def)
qed

lemma istr_find_step:
  assumes "str \<noteq> []" "CHR 0x00 \<notin> set str"
  shows "istr_find (c # s) str =
    (if c = CHR 0x00 then None else if lower (take (length str) (c # s)) = lower str then Some (c # s)
     else istr_find s str)"
  using qstricmp_beginning [OF assms, of "c # s"] assms(1) by (cases str) (auto simp: lower_def)

lemma connection_line:
  "read_header_line (line_for ''Connection'' (connection_value R)) M =
     (M\<lparr>h_upgrade := h_upgrade M \<or> h_upgrade R, h_keepAlive := h_upgrade R \<or> h_keepAlive R\<rparr>, Inr ())"
proof -
  have ok: "name_ok ''Connection''" "value_ok (connection_value R)"
    by (simp_all add: name_ok_def value_ok_def connection_value_def qisspace_def)
  have l: "lower ''Connection'' = ''connection''" by code_simp
  have "qstricmp ''Connection'' ''connection'' 10 = 0"
    using qstricmp_beginning [of "''connection''" "''Connection''"] l
    by (simp add: lower_def)
  moreover have "qstristr ''upgrade'' ''upgrade'' = Some ''upgrade''" "qstristr ''keep-alive'' ''upgrade'' = None"
    "qstristr ''close'' ''upgrade'' = None" "qstristr ''keep-alive'' ''keep-alive'' = Some ''keep-alive''"
    "qstristr ''close'' ''keep-alive'' = None"
    by (simp_all add: qstristr_def chr0_def istr_find_step lower_def qtolower_def del: istr_find.simps(2))
  ultimately have "append_header ''Connection'' (connection_value R) M =
      M\<lparr>h_upgrade := h_upgrade M \<or> h_upgrade R, h_keepAlive := h_upgrade R \<or> h_keepAlive R\<rparr>"
    by (simp add: append_header_def connection_value_def)
  with read_line_for [OF ok] l show ?thesis by simp
qed

lemma atoi_number: "n < 2 ^ 31 \<Longrightarrow> c_atoi (CHR '' '' # nat_to_string n) = int n"
proof -
  assume "n < 2 ^ 31"
  moreover have "c_atoll (CHR '' '' # nat_to_string n) = c_atoll (nat_to_string n)"
    by (simp add: c_atoll_def c_isspace_def)
  ultimately show ?thesis by (simp add: c_atoi_def c_atoll_to_string)
qed

lemma number_no_nul: "CHR 0x00 \<notin> set (nat_to_string n)" "CHR 0x0A \<notin> set (nat_to_string n)"
  "nat_to_string n \<noteq> []" "\<not> qisspace (hd (nat_to_string n))"
proof -
  have d: "c \<in> set (nat_to_string n) \<Longrightarrow> c \<noteq> CHR 0x00 \<and> c \<noteq> CHR 0x0A \<and> \<not> qisspace c" for c
    using nat_to_string_digits [of c n] by (auto simp: c_isdigit_def qisspace_def)
  show "CHR 0x00 \<notin> set (nat_to_string n)" "CHR 0x0A \<notin> set (nat_to_string n)" using d by blast+
  show "nat_to_string n \<noteq> []" by simp
  then show "\<not> qisspace (hd (nat_to_string n))" using d hd_in_set by blast
qed

lemma length_line:
  assumes "n < 2 ^ 31" "h_bNoBody M \<or> h_maxBodySize M < 0 \<or> int n \<le> h_maxBodySize M * MiB"
  shows "read_header_line (line_for ''Content-Length'' (nat_to_string n)) M =
    (M\<lparr>h_contentLength := int n, h_headers := append_string ''Content-Length'' (nat_to_string n) (h_headers M)\<rparr>, Inr ())"
proof -
  let ?l = "line_for ''Content-Length'' (nat_to_string n)"
  have ok: "name_ok ''Content-Length''" "value_ok (nat_to_string n)"
    using number_no_nul [of n] by (simp_all add: name_ok_def value_ok_def qisspace_def)
  have "lower ''Content-Length'' = ''content-length''" "lower ''content-length'' = ''content-length''" by code_simp+
  then have q: "qstricmp ?l ''content-length:'' 15 = 0"
    using line_names [of "''Content-Length''" "''content-length''" "'' '' @ nat_to_string n"]
    by (simp add: line_for_def)
  have "c_string ?l = ?l" using number_no_nul [of n] by (intro c_string_id) (auto simp: line_for_def)
  then have a: "c_atoi (drop 15 (c_string ?l)) = int n" using assms(1) atoi_number by (simp add: line_for_def)
  have "append_line ?l M' = (M'\<lparr>h_headers := append_string ''Content-Length'' (nat_to_string n) (h_headers M')\<rparr>, Inr ())" for M'
    using append_line_for [OF ok] by (simp add: append_header_def)
  with q a assms(2) show ?thesis by (auto simp: read_header_line_def Let_def not_less)
qed

text \<open>What the reader makes of the header a message writes.\<close>

definition read_sent :: "http_message \<Rightarrow> http_message \<Rightarrow> http_message" where
  "read_sent M N =
     N\<lparr>h_headers := add_pairs (sent_headers M @ length_headers True M) (h_headers N),
       h_upgrade := h_upgrade N \<or> h_upgrade M, h_keepAlive := h_upgrade M \<or> h_keepAlive M,
       h_contentLength := (if length_headers True M = [] then h_contentLength N else get_length M)\<rparr>"

lemma lines_run_wire:
  assumes "list_all pair_ok (sent_headers M)" "0 \<le> get_length M" "get_length M < 2 ^ 31"
    "h_bNoBody N \<or> h_maxBodySize N < 0 \<or> get_length M \<le> h_maxBodySize N * MiB"
  shows "lines_run (wire_lines True M) N = (read_sent M N, Inr ())"
proof -
  let ?H = "map (\<lambda>(n, v). line_for n v) (sent_headers M)"
  let ?N = "N\<lparr>h_headers := add_pairs (sent_headers M) (h_headers N)\<rparr>"
  let ?N2 = "?N\<lparr>h_upgrade := h_upgrade N \<or> h_upgrade M, h_keepAlive := h_upgrade M \<or> h_keepAlive M\<rparr>"
  obtain n where n: "get_length M = int n" using assms(2) nonneg_int_cases by blast
  have h: "lines_run ?H N = (?N, Inr ())" using lines_run_pairs [OF assms(1)] .
  have "lines_run (wire_lines True M) N =
      lines_run (line_for ''Connection'' (connection_value M) #
        map (\<lambda>(n, v). line_for n v) (length_headers True M)) ?N"
    using lines_run_append [of ?H N] h by (simp add: wire_lines_def)
  also have "\<dots> = lines_run (map (\<lambda>(n, v). line_for n v) (length_headers True M)) ?N2"
    by (simp add: connection_line)
  also have "\<dots> = (read_sent M N, Inr ())"
  proof (cases "length_headers True M = []")
    case True
    then show ?thesis by (simp add: read_sent_def)
  next
    case False
    then have l: "length_headers True M = [(''Content-Length'', nat_to_string n)]"
      by (auto simp: length_headers_def n split: if_splits)
    have "n < 2 ^ 31" "h_bNoBody ?N2 \<or> h_maxBodySize ?N2 < 0 \<or> int n \<le> h_maxBodySize ?N2 * MiB"
      using assms(3,4) by (simp_all add: n)
    from length_line [OF this] show ?thesis
      by (simp add: l read_sent_def add_pairs_def n)
  qed
  finally show ?thesis .
qed

section \<open>Bodies\<close>

definition body_text :: "http_message \<Rightarrow> string" where
  "body_text M = (case h_body M of None \<Rightarrow> [] | Some b \<Rightarrow> ms_data b)"

definition body_ok :: "http_message \<Rightarrow> bool" where
  "body_ok M \<longleftrightarrow> (case h_body M of None \<Rightarrow> True | Some b \<Rightarrow> ms_ok b)"

lemma rewound:
  assumes "ms_ok b"
  shows "ms_ok (snd (ms_rewind b))" "ms_data (snd (ms_rewind b)) = ms_data b" "ms_tell (snd (ms_rewind b)) = 0"
  using assms by (auto simp: ms_rewind_def ms_ok_def ms_data_def ms_tell_def ss_defs)

lemma get_length_text:
  assumes "body_ok M"
  shows "get_length M = int (length (body_text M))" "int (length (body_text M)) < 2 ^ 31"
  using assms by (auto simp: get_length_def body_text_def body_ok_def ms_ok_def ms_size_def ms_data_def split: option.splits)

lemma memory_pieces:
  "piece_source memory_reader (\<lambda>b s. ms_ok b \<and> s = drop (nat (ms_tell b)) (ms_data b)) (\<lambda>b w. w = Inr ())"
proof
  fix b s and n :: int
  assume b: "ms_ok b \<and> s = drop (nat (ms_tell b)) (ms_data b)" and n: "n \<noteq> 0"
  obtain r b' where r: "ms_readBuffer n b = (r, b')" by fastforce
  from ms.read_law [OF conjunct1 [OF b] r] have b': "ms_ok b'" "ms_data b' = ms_data b"
    "ms_tell b' = ms_tell b + int (length (next_piece n (ms_tell b) (ms_data b)))"
    "r = (if next_piece n (ms_tell b) (ms_data b) = [] then ReturnNull else Ok (next_piece n (ms_tell b) (ms_data b)))"
    by auto
  have t: "0 \<le> ms_tell b" using ms.tell_inside b by blast
  define k where "k = (if n < 0 then length s else nat n)"
  have p: "next_piece n (ms_tell b) (ms_data b) = take k s" using b by (simp add: next_piece_def k_def)
  show "(\<exists>f' d s'. memory_reader n b = Some (f', Inr (Some d)) \<and> d \<noteq> [] \<and> s = d @ s' \<and>
        (ms_ok f' \<and> s' = drop (nat (ms_tell f')) (ms_data f')) \<and> (0 < n \<longrightarrow> int (length d) \<le> n)) \<or>
      (\<exists>f'. s = [] \<and> (memory_reader n b = Some (f', Inr None) \<and> Inr () = Inr () \<or>
        (\<exists>e. memory_reader n b = Some (f', Inl e) \<and> Inl e = Inr ())))"
  proof (cases "s = []")
    case True
    with r b'(4) p show ?thesis by (auto simp: memory_reader_def reply_of_def)
  next
    case False
    then have ne: "take k s \<noteq> []" using n by (simp add: k_def)
    have "memory_reader n b = Some (b', Inr (Some (take k s)))"
      using r b'(4) p ne by (simp add: memory_reader_def reply_of_def)
    moreover have "drop k s = drop (nat (ms_tell b')) (ms_data b')"
      using b b'(2,3) t p by (cases "k \<le> length s") (simp_all add: nat_add_distrib add.commute min_def)
    moreover have "0 < n \<longrightarrow> int (length (take k s)) \<le> n" by (auto simp: k_def)
    ultimately show ?thesis using ne b'(1) append_take_drop_id [of k s] by metis
  qed
qed

text \<open>A message is written as its header and its body, whether the body is small or not.\<close>

lemma asyncSendTo_text:
  fixes cmd :: string
  assumes wr: "\<And>t d. room t (length d) \<Longrightarrow> \<exists>t'. wr d t = (t', Inr ()) \<and> out t' = out t @ d \<and>
      (\<forall>m. room t (length d + m) \<longrightarrow> room t' m)"
    and dec: "\<And>t a b. room t (a + b) \<Longrightarrow> room t a"
    and ok: "body_ok M"
  defines "head \<equiv> cmd @ CRLF @ lines_wire (wire_lines True M) @ CRLF"
  assumes room: "room T (length head + length (body_text M))"
  shows "\<exists>T' M'. asyncSendTo wr cmd False True M T = Some (T', M', Inr ()) \<and>
    out T' = out T @ head @ body_text M \<and> room T' 0"
proof -
  note len = get_length_text [OF ok]
  have hb: "header_buffer cmd True b M = head @ b" for b
    using header_buffer_text [of M cmd True b] len(1) by (simp add: head_def)
  show ?thesis
  proof (cases "0 < get_length M \<and> get_length M < TINY_SIZE")
    case True
    then obtain m where m: "h_body M = Some m" "ms_ok m" "ms_data m = body_text M" "body_text M \<noteq> []"
      using ok len by (auto simp: body_text_def body_ok_def get_length_def split: option.splits)
    note w = rewound [OF m(2)]
    obtain r b where r: "ms_readBuffer (get_length M) (snd (ms_rewind m)) = (r, b)" by fastforce
    have "next_piece (get_length M) 0 (body_text M) = body_text M" using len(1) by (simp add: next_piece_def)
    with ms.read_law [OF w(1) r] w m(3,4) have b: "ms_ok b" "ms_data b = body_text M" "r = Ok (body_text M)" by auto
    let ?M = "M\<lparr>h_body := Some b\<rparr>"
    have "ms_size b = get_length M" using b len(1) by (auto simp: ms_ok_def ms_size_def ms_data_def)
    then have "get_length ?M = get_length M" by (simp add: get_length_def)
    then have wl: "wire_lines True ?M = wire_lines True M"
      by (simp add: wire_lines_def sent_headers_def connection_value_def length_headers_def)
    have hb': "header_buffer cmd True (body_text M) ?M = head @ body_text M"
      using header_buffer_text [of ?M cmd True "body_text M"] wl \<open>get_length ?M = get_length M\<close> len(1)
      by (simp add: head_def)
    have "room T (length (head @ body_text M))" using room by simp
    from wr [OF this] obtain T' where T': "wr (head @ body_text M) T = (T', Inr ())"
      "out T' = out T @ head @ body_text M" "room T' 0" using room by (metis add.right_neutral length_append)
    have e: "ensure_body M = m" by (simp add: ensure_body_def m(1))
    have small: "to_int32 (get_length M) = get_length M" using len by simp
    have "asyncSendTo wr cmd False True M T = Some (T', ?M, Inr ())"
      using True r b(3) hb' T'(1) m(4) e small len by (simp add: asyncSendTo_def Let_def)
    with T' show ?thesis by blast
  next
    case False
    have "room T (length head)" using room dec by blast
    from wr [OF this] obtain T1 where T1: "wr head T = (T1, Inr ())" "out T1 = out T @ head"
      "room T1 (length (body_text M))" using room by metis
    show ?thesis
    proof (cases "get_length M = 0")
      case True
      then have b0: "body_text M = []" using len(1) by simp
      have "asyncSendTo wr cmd False True M T = Some (T1, M, Inr ())"
        using True hb [of "[]"] T1(1) by (simp add: asyncSendTo_def Let_def TINY_SIZE_def split: prod.splits)
      with T1 b0 show ?thesis by simp
    next
      case nz: False
      then obtain m where m: "h_body M = Some m" "ms_ok m" "ms_data m = body_text M"
        using ok len by (auto simp: body_text_def body_ok_def get_length_def split: option.splits)
      note w = rewound [OF m(2)]
      let ?b = "snd (ms_rewind m)"
      have h: "ms_ok ?b \<and> body_text M = drop (nat (ms_tell ?b)) (ms_data ?b)" using w m(3) by simp
      have pt: "part (get_length M) (body_text M) = body_text M" using len(1) by (simp add: part_def)
      have r1: "room T1 (length (part (get_length M) (body_text M)))" using T1(3) by (simp only: pt)
      have "\<exists>b' T' w'. copy_loop memory_reader wr (get_length M) ?b T1 0 =
          Some (b', T', 0 + int (length (part (get_length M) (body_text M))), w') \<and>
          out T' = out T1 @ part (get_length M) (body_text M) \<and> room T' 0 \<and>
          (0 \<le> get_length M \<and> get_length M \<le> int (length (body_text M)) \<and>
             (ms_ok b' \<and> drop (nat (get_length M)) (body_text M) = drop (nat (ms_tell b')) (ms_data b')) \<and> w' = Inr () \<or>
           w' = Inr () \<and> (get_length M < 0 \<or> int (length (body_text M)) < get_length M))"
        by (rule piece_source.copy_loop_spec [where room = room, OF memory_pieces wr _ h r1]) (assumption, rule dec)
      then obtain b' T' w' where c: "copy_loop memory_reader wr (get_length M) ?b T1 0 =
          Some (b', T', int (length (body_text M)), w')" "out T' = out T1 @ body_text M" "room T' 0" "w' = Inr ()"
        unfolding pt by auto
      have "asyncSendTo wr cmd False True M T = Some (T', M\<lparr>h_body := Some b'\<rparr>, Inr ())"
        using False nz hb [of "[]"] T1(1) c m(1) len
        by (simp add: asyncSendTo_def Let_def copyStream_def split: prod.splits)
      with c T1(2) show ?thesis by simp
    qed
  qed
qed

end
