(* ===== verification/HttpRequest.thy ===== *)
theory HttpRequest
  imports HttpWire
begin

text \<open>
  \<^verbatim>\<open>src/http/HttpRequest.cpp\<close> and \<^verbatim>\<open>src/http/HttpResponse.cpp\<close> over the message: the first line of each, sending
  and reading, the URL of a request, the status of a response, clearing and cloning. The cookies of a
  response are given as their texts; the response of a request, its parsed cookies, query and form, and
  the settings the Fetch interface adds are left out.
\<close>

section \<open>Requests\<close>

record http_request =
  q_message :: http_message
  q_method :: string
  q_address :: string
  q_queryString :: string

definition request_clear :: "http_request \<Rightarrow> http_request" where
  "request_clear R =
     R\<lparr>q_message := http_clear (q_message R), q_method := ''GET'', q_address := ''/'', q_queryString := []\<rparr>"

definition new_http_request :: http_request where
  "new_http_request =
     request_clear \<lparr>q_message = new_http_message False, q_method = [], q_address = [], q_queryString = []\<rparr>"

definition request_command :: "http_request \<Rightarrow> string" where
  "request_command R =
     q_method R @ '' '' @ q_address R @ (if q_queryString R \<noteq> [] then ''?'' @ q_queryString R else []) @ '' '' @
     h_protocol (q_message R)"

definition request_sendTo ::
  "('t, http_error) writer \<Rightarrow> http_request \<Rightarrow> 't \<Rightarrow> ('t \<times> http_request \<times> (http_error + unit)) option" where
  "request_sendTo wr R T =
     map_option (\<lambda>(T1, M, r). (T1, R\<lparr>q_message := M\<rparr>, r)) (http_send wr (request_command R) (q_message R) T)"

text \<open>The state \<open>command\<close>: the method, the address, the query and the protocol, each set as it is read.\<close>

definition message_value :: "string \<Rightarrow> http_message \<Rightarrow> http_message" where
  "message_value addr M =
     (if qstricmp addr ''http://'' 7 = 0 then
        (case qstrchr (drop 7 (c_string addr)) (CHR ''/'') of None \<Rightarrow> M | Some p \<Rightarrow> M\<lparr>h_value := p\<rparr>)
      else M\<lparr>h_value := addr\<rparr>)"

definition read_command :: "string \<Rightarrow> http_request \<Rightarrow> http_request \<times> (http_error + unit)" where
  "read_command line R =
     (let (method, p) = getWord [] (new_parser line); R = R\<lparr>q_method := method\<rparr>
      in if method = [] then (R, Inl Bad_method)
         else
           (let (addr, p) = getWord [CHR ''?''] (skipSpace p); R = R\<lparr>q_address := addr\<rparr>
            in if addr = [] then (R, Inl Bad_address)
               else
                 (let R = R\<lparr>q_message := message_value addr (q_message R)\<rparr>;
                      (found, p) = want (CHR ''?'') p;
                      (R, p) = (if found then (case getWord [] p of (s, p) \<Rightarrow> (R\<lparr>q_queryString := s\<rparr>, p)) else (R, p));
                      p = skipSpace p
                  in if p_end p then (R, Inl Bad_protocol_version)
                     else
                       (case set_protocol (c_string (p_now p)) (q_message R) of
                          Inl e \<Rightarrow> (R, Inl e)
                        | Inr M \<Rightarrow> (R\<lparr>q_message := M\<rparr>, Inr ())))))"

definition request_readFrom ::
  "('s \<Rightarrow> string reply \<times> 's) \<Rightarrow> 's buffered \<Rightarrow> http_request \<Rightarrow>
   ('s buffered \<times> http_request \<times> (http_error + unit)) option" where
  "request_readFrom rd S R =
     (case bs_readLine rd (h_maxHeaderSize (q_message R)) S of
        None \<Rightarrow> None
      | Some (S1, l) \<Rightarrow>
          (case l of
             Fail e \<Rightarrow> Some (S1, R, Inl (Stream_error e))
           | ReturnNull \<Rightarrow> Some (S1, R, Inl Closed_stream)
           | Ok line \<Rightarrow>
               (case read_command line R of
                  (R1, r) \<Rightarrow>
                    (case r of
                       Inl e \<Rightarrow> Some (S1, R1, Inl e)
                     | Inr _ \<Rightarrow>
                         map_option (\<lambda>(S2, M, r). (S2, R1\<lparr>q_message := M\<rparr>, r)) (http_readFrom rd S1 (q_message R1))))))"

definition get_url :: "http_request \<Rightarrow> string" where
  "get_url R = q_address R @ (if q_queryString R \<noteq> [] then ''?'' @ q_queryString R else [])"

definition set_url :: "string \<Rightarrow> http_request \<Rightarrow> http_request" where
  "set_url newVal R =
     (if CHR ''?'' \<in> set newVal
      then (let a = takeWhile (\<lambda>c. c \<noteq> CHR ''?'') newVal
            in R\<lparr>q_address := a, q_queryString := drop (length a + 1) newVal\<rparr>)
      else R\<lparr>q_address := newVal, q_queryString := []\<rparr>)"

definition request_clone :: "http_request \<Rightarrow> http_request" where
  "request_clone R =
     new_http_request\<lparr>q_message := http_copyTo (q_message R) (q_message new_http_request), q_method := q_method R,
       q_address := q_address R, q_queryString := q_queryString R\<rparr>"

text \<open>What the client sets by name.\<close>

definition request_appendHeader :: "string \<Rightarrow> string \<Rightarrow> http_request \<Rightarrow> http_request" where
  "request_appendHeader name value R =
     (let M = q_message R;
          plain = M\<lparr>h_headers := append_string name value (h_headers M)\<rparr>
      in R\<lparr>q_message :=
            (if qstricmp name ''connection'' (-1) = 0 then
               (if qstristr value ''upgrade'' \<noteq> None then M\<lparr>h_upgrade := True, h_keepAlive := True\<rparr>
                else if qstristr value ''keep-alive'' \<noteq> None then M\<lparr>h_keepAlive := True\<rparr>
                else if qstristr value ''close'' \<noteq> None then M\<lparr>h_keepAlive := False\<rparr>
                else plain)
             else plain)\<rparr>)"

section \<open>Responses\<close>

record http_response =
  s_message :: http_message
  s_statusCode :: int
  s_statusMessage :: string
  s_cookies :: "string list"
  s_cookies_filled :: bool

definition response_clear :: "http_response \<Rightarrow> http_response" where
  "response_clear P =
     P\<lparr>s_message := http_clear (s_message P), s_cookies := [], s_cookies_filled := False, s_statusCode := 200\<rparr>"

definition new_http_response :: http_response where
  "new_http_response =
     response_clear \<lparr>s_message = new_http_message True, s_statusCode = 0, s_statusMessage = [], s_cookies = [],
       s_cookies_filled = False\<rparr>"

definition status_lines :: "string list" where
  "status_lines =
     ['' 100 Continue'', '' 101 Switching Protocols'', '' 102 Processing'',
      '' 200 OK'', '' 201 Created'', '' 202 Accepted'',
      '' 203 Non-Authoritative Information'', '' 204 No Content'',
      '' 205 Reset Content'', '' 206 Partial Content'', '' 207 Multi-Status'',
      '' 300 Multiple Choices'', '' 301 Moved Permanently'', '' 302 Object moved'',
      '' 303 See Other'', '' 304 Not Modified'', '' 305 Use Proxy'', '' 306 unused'',
      '' 307 Temporary Redirect'',
      '' 400 Bad Request'', '' 401 Authorization Required'',
      '' 402 Payment Required'', '' 403 Forbidden'', '' 404 File Not Found'',
      '' 405 Method Not Allowed'', '' 406 Not Acceptable'',
      '' 407 Proxy Authentication Required'', '' 408 Request Time-out'',
      '' 409 Conflict'', '' 410 Gone'', '' 411 Length Required'',
      '' 412 Precondition Failed'', '' 413 Request Entity Too Large'',
      '' 414 Request-URI Too Large'', '' 415 Unsupported Media Type'',
      '' 416 Requested Range Not Satisfiable'', '' 417 Expectation Failed'',
      '' 418 Host Not Found'', '' 419 unused'', '' 420 unused'', '' 421 unused'',
      '' 422 Unprocessable Entity'', '' 423 Locked'', '' 424 Failed Dependency'',
      '' 500 Internal Server Error'', '' 501 Method Not Implemented'',
      '' 502 Bad Gateway'', '' 503 Service Temporarily Unavailable'',
      '' 504 Gateway Time-out'', '' 505 HTTP Version Not Supported'',
      '' 506 Variant Also Negotiates'', '' 507 Insufficient Storage'',
      '' 508 unused'', '' 509 unused'', '' 510 Not Extended'']"

definition shortcut :: "nat list" where
  "shortcut = [0, 3, 11, 19, 44, 55]"

text \<open>\<open>%d\<close> of \<open>snprintf\<close>.\<close>

definition int_text :: "int \<Rightarrow> string" where
  "int_text n = (if n < 0 then ''-'' @ nat_to_string (nat (- n)) else nat_to_string (nat n))"

definition status_text :: "int \<Rightarrow> string" where
  "status_text statusCode =
     (let n = nat (statusCode div 100); r = nat (statusCode mod 100)
      in if 100 \<le> statusCode \<and> statusCode < 600 \<and> shortcut ! (n - 1) + r < shortcut ! n
         then status_lines ! (shortcut ! (n - 1) + r)
         else '' '' @ int_text statusCode @ '' Unknown'')"

definition response_command :: "http_response \<Rightarrow> string" where
  "response_command P =
     h_protocol (s_message P) @
     (if s_statusMessage P = [] then status_text (s_statusCode P)
      else '' '' @ int_text (s_statusCode P) @ '' '' @ s_statusMessage P)"

fun append_cookies :: "string list \<Rightarrow> http_message \<Rightarrow> http_message" where
  "append_cookies [] M = M"
| "append_cookies (c # cs) M = append_cookies cs (M\<lparr>h_headers := append_string ''Set-Cookie'' c (h_headers M)\<rparr>)"

definition prepareHeaders :: "http_response \<Rightarrow> http_response \<times> string" where
  "prepareHeaders P =
     (let P = (if s_cookies_filled P
               then P\<lparr>s_message := append_cookies (s_cookies P) (s_message P), s_cookies := [], s_cookies_filled := False\<rparr>
               else P)
      in (P, response_command P))"

text \<open>\<open>header_only\<close> with its option \<open>content_length\<close>, or the whole message.\<close>

definition response_sendTo ::
  "('t, http_error) writer \<Rightarrow> bool option \<Rightarrow> http_response \<Rightarrow> 't \<Rightarrow>
   ('t \<times> http_response \<times> (http_error + unit)) option" where
  "response_sendTo wr header_only P T =
     (case prepareHeaders P of
        (P, cmd) \<Rightarrow>
          map_option (\<lambda>(T1, M, r). (T1, P\<lparr>s_message := M\<rparr>, r))
            (case header_only of
               None \<Rightarrow> http_send wr cmd (s_message P) T
             | Some cl \<Rightarrow> http_sendHeader wr cmd cl (s_message P) T))"

definition read_status :: "string \<Rightarrow> http_response \<Rightarrow> http_response \<times> (http_error + unit)" where
  "read_status line P =
     (let c = (\<lambda>i. char_at line i); d = (\<lambda>i. int (code (c i)) - 48)
      in if length line < 12 \<or> c 8 \<noteq> CHR '' '' \<or> \<not> c_isdigit (c 9) \<or> \<not> c_isdigit (c 10) \<or> \<not> c_isdigit (c 11)
            \<or> c_isdigit (c 12)
         then (P, Inl (Bad_protocol line))
         else
           (let P = P\<lparr>s_statusCode := d 9 * 100 + d 10 * 10 + d 11,
                      s_statusMessage := c_string (if c 12 = CHR '' '' then drop 13 line else drop 12 line)\<rparr>
            in case set_protocol (take 8 line) (s_message P) of
                 Inl e \<Rightarrow> (P, Inl e)
               | Inr M \<Rightarrow> (P\<lparr>s_message := M\<rparr>, Inr ())))"

definition response_readFrom ::
  "('s \<Rightarrow> string reply \<times> 's) \<Rightarrow> bool \<Rightarrow> 's buffered \<Rightarrow> http_response \<Rightarrow>
   ('s buffered \<times> http_response \<times> (http_error + unit)) option" where
  "response_readFrom rd headerOnly S P =
     (case bs_readLine rd (h_maxHeaderSize (s_message P)) S of
        None \<Rightarrow> None
      | Some (S1, l) \<Rightarrow>
          (case l of
             Fail e \<Rightarrow> Some (S1, P, Inl (Stream_error e))
           | ReturnNull \<Rightarrow> Some (S1, P, Inl Closed_stream)
           | Ok line \<Rightarrow>
               (case read_status line P of
                  (P1, r) \<Rightarrow>
                    (case r of
                       Inl e \<Rightarrow> Some (S1, P1, Inl e)
                     | Inr _ \<Rightarrow>
                         map_option (\<lambda>(S2, M, r). (S2, P1\<lparr>s_message := M\<rparr>, r))
                           (if headerOnly then readHeader rd S1 (s_message P1) else http_readFrom rd S1 (s_message P1))))))"

definition redirect :: "int \<Rightarrow> string \<Rightarrow> http_response \<Rightarrow> http_response \<times> (http_error + unit)" where
  "redirect statusCode url P =
     (if statusCode \<noteq> 301 \<and> statusCode \<noteq> 302 \<and> statusCode \<noteq> 307 then (P, Inl (Invalid_statusCode statusCode))
      else (P\<lparr>s_statusCode := statusCode,
              s_message := (s_message P)\<lparr>h_headers :=
                fst (hc_set (\<lambda>_. []) ''Location'' (Inr (VT_String url)) (h_headers (s_message P)))\<rparr>\<rparr>, Inr ()))"

definition get_ok :: "http_response \<Rightarrow> bool" where
  "get_ok P \<longleftrightarrow> s_statusCode P \<ge> 200 \<and> s_statusCode P < 300"

text \<open>
  A response whose body is a live stream, the argument \<open>streaming\<close>, is not cloned. The address and the type that
  a fetch leaves in a response are not part of the model.
\<close>

definition response_clone :: "bool \<Rightarrow> http_response \<Rightarrow> http_error + http_response" where
  "response_clone streaming P =
     (if streaming then Inl Streaming_body
      else
        (let P' = new_http_response\<lparr>s_message := http_copyTo (s_message P) (s_message new_http_response),
                    s_statusCode := s_statusCode P, s_statusMessage := s_statusMessage P\<rparr>
         in Inr (if s_cookies_filled P then P'\<lparr>s_cookies := s_cookies P, s_cookies_filled := True\<rparr> else P')))"

end
