(* ===== verification/RequestSpec.thy ===== *)
theory RequestSpec
  imports HttpRequest
begin

text \<open>
  The first line of a request and of a response read back, and the message after it, for the properties of
  the next theory.
\<close>

section \<open>The cursor on a text\<close>

definition cursor :: "parser \<Rightarrow> string \<Rightarrow> bool" where
  "cursor p s \<longleftrightarrow> p_pos p \<le> length (p_string p) \<and> p_now p = s"

definition spaces_off :: "string \<Rightarrow> string" where
  "spaces_off s = dropWhile (\<lambda>c. c \<noteq> CHR 0x00 \<and> qisspace c) s"

lemma spaces_off_simps [simp]:
  "spaces_off [] = []" "spaces_off (c # s) = (if c \<noteq> CHR 0x00 \<and> qisspace c then spaces_off s else c # s)"
  by (simp_all add: spaces_off_def)

lemma cursor_new: "cursor (new_parser s) s"
  by (simp add: cursor_def)

lemma cursor_skipSpace: "cursor p s \<Longrightarrow> cursor (skipSpace p) (spaces_off s)"
  using skip_while_now(1,3) [of p qisspace] by (simp add: cursor_def skipSpace_def spaces_off_def)

lemma cursor_skip:
  assumes "cursor p s"
  shows "cursor (p_skip p) (tl s)"
proof -
  have "p_pos (p_skip p) \<le> length (p_string (p_skip p))" using assms by (auto simp: cursor_def p_skip_def)
  with assms show ?thesis by (simp add: cursor_def)
qed

lemma cursor_getWord:
  assumes "cursor p (w @ r)" "\<forall>c \<in> set w. c \<noteq> CHR 0x00 \<and> \<not> qisspace c \<and> c \<notin> set chs"
    "r = [] \<or> qisspace (hd r) \<or> hd r \<in> set chs"
  obtains q where "getWord chs p = (w, q)" "cursor q r"
proof -
  let ?go = "\<lambda>ch. \<not> (qisspace ch \<or> ch \<in> set chs)"
  have p: "p_pos p \<le> length (p_string p)" "p_now p = w @ r" using assms(1) by (auto simp: cursor_def)
  have w: "\<forall>c \<in> set w. c \<noteq> CHR 0x00 \<and> ?go c" using assms(2) by auto
  have r: "r = [] \<or> hd r = CHR 0x00 \<or> \<not> ?go (hd r)" using assms(3) by auto
  have "passed p (skip_while ?go p) = w" "p_now (skip_while ?go p) = r"
    using skip_while_now(1,2) [OF p(1), of ?go] run_append [OF w r] p(2) by auto
  then show thesis
    using that [of "skip_while ?go p"] skip_while_now(3) [OF p(1), of ?go]
    by (simp add: getWord_def skipWord_def cursor_def Let_def)
qed

lemma cursor_want:
  assumes "cursor p s" "c \<noteq> CHR 0x00"
  obtains q where "want c p = (chr0 (spaces_off s) = c, q)"
    "cursor q (if chr0 (spaces_off s) = c then tl (spaces_off s) else spaces_off s)"
proof -
  have q: "cursor (skipSpace p) (spaces_off s)" by (rule cursor_skipSpace [OF assms(1)])
  then have g: "p_get (skipSpace p) = chr0 (spaces_off s)" by (simp add: cursor_def p_get_now)
  show thesis
  proof (cases "chr0 (spaces_off s) = c")
    case True
    then have "cursor (p_skip (skipSpace p)) (tl (spaces_off s))"
      by (intro cursor_skip q)
    with True g that show thesis by (simp add: want_def Let_def)
  next
    case False
    with q g that show thesis by (simp add: want_def Let_def)
  qed
qed

lemma cursor_end: "cursor p s \<Longrightarrow> p_end p \<longleftrightarrow> s = []"
  by (auto simp: cursor_def p_end_def p_now_def)

section \<open>The protocol\<close>

definition protocol_ok :: "string \<Rightarrow> bool" where
  "protocol_ok s \<longleftrightarrow> (\<exists>a b. s = ''HTTP/'' @ [a] @ ''.'' @ [b] \<and> c_isdigit a \<and> c_isdigit b)"

lemma set_protocol_ok:
  assumes "protocol_ok s"
  shows "\<exists>k. set_protocol s M = Inr (M\<lparr>h_keepAlive := k, h_protocol := s\<rparr>)"
proof -
  obtain a b where s: "s = ''HTTP/'' @ [a] @ ''.'' @ [b]" "c_isdigit a" "c_isdigit b"
    using assms by (auto simp: protocol_ok_def)
  have "qstrcmp s ''HTTP/'' 5 = 0" by (simp add: s(1) qstrcmp_def chr0_def)
  with s show ?thesis by (auto simp: set_protocol_def char_at_def)
qed

lemma protocol_text:
  assumes "protocol_ok s"
  shows "length s = 8" "c_string s = s" "CHR 0x0A \<notin> set s" "s \<noteq> []" "hd s = CHR ''H''"
proof -
  obtain a b where s: "s = ''HTTP/'' @ [a] @ ''.'' @ [b]" "c_isdigit a" "c_isdigit b"
    using assms by (auto simp: protocol_ok_def)
  then have "a \<noteq> CHR 0x00" "b \<noteq> CHR 0x00" "a \<noteq> CHR 0x0A" "b \<noteq> CHR 0x0A" by (auto simp: c_isdigit_def)
  with s(1) show "length s = 8" "c_string s = s" "CHR 0x0A \<notin> set s" "s \<noteq> []" "hd s = CHR ''H''" by auto
qed

section \<open>The command of a request\<close>

definition word_ok :: "string \<Rightarrow> bool" where
  "word_ok w \<longleftrightarrow> (\<forall>c \<in> set w. c \<noteq> CHR 0x00 \<and> \<not> qisspace c)"

definition command_ok :: "http_request \<Rightarrow> bool" where
  "command_ok R \<longleftrightarrow>
     q_method R \<noteq> [] \<and> word_ok (q_method R) \<and> q_address R \<noteq> [] \<and> word_ok (q_address R) \<and>
     CHR ''?'' \<notin> set (q_address R) \<and> word_ok (q_queryString R) \<and> protocol_ok (h_protocol (q_message R))"

lemma word_head: "word_ok w \<Longrightarrow> w \<noteq> [] \<Longrightarrow> spaces_off (w @ r) = w @ r"
  by (cases w) (auto simp: word_ok_def)

lemma read_request_command:
  assumes "command_ok R" "q_queryString Q = []"
  shows "\<exists>k. read_command (request_command R) Q =
    (Q\<lparr>q_method := q_method R, q_address := q_address R, q_queryString := q_queryString R,
       q_message := (message_value (q_address R) (q_message Q))\<lparr>h_keepAlive := k,
         h_protocol := h_protocol (q_message R)\<rparr>\<rparr>, Inr ())"
proof -
  let ?line = "request_command R" and ?pr = "h_protocol (q_message R)" and ?q = "q_queryString R"
  have ok: "q_method R \<noteq> []" "word_ok (q_method R)" "q_address R \<noteq> []" "word_ok (q_address R)"
    "CHR ''?'' \<notin> set (q_address R)" "word_ok ?q" "protocol_ok ?pr"
    using assms(1) by (auto simp: command_ok_def)
  note pr = protocol_text [OF ok(7)]
  define tail where "tail = (if ?q \<noteq> [] then ''?'' @ ?q else []) @ '' '' @ ?pr"
  have line: "?line = q_method R @ '' '' @ q_address R @ tail" by (simp add: request_command_def tail_def)
  have off: "spaces_off ('' '' @ ?pr) = ?pr"
    using pr(4,5) by (cases ?pr) (auto simp: qisspace_def)
  obtain p1 where p1: "getWord [] (new_parser ?line) = (q_method R, p1)" "cursor p1 ('' '' @ q_address R @ tail)"
    using cursor_getWord [of "new_parser ?line" "q_method R" "'' '' @ q_address R @ tail" "[]"] cursor_new [of ?line] ok(2)
    by (auto simp: line word_ok_def qisspace_def)
  have "spaces_off ('' '' @ q_address R @ tail) = q_address R @ tail"
    using word_head [OF ok(4,3), of tail] by (simp add: qisspace_def)
  with cursor_skipSpace [OF p1(2)] have s1: "cursor (skipSpace p1) (q_address R @ tail)" by simp
  have "tail = [] \<or> qisspace (hd tail) \<or> hd tail \<in> set [CHR ''?'']" by (simp add: tail_def qisspace_def)
  then obtain p2 where p2: "getWord [CHR ''?''] (skipSpace p1) = (q_address R, p2)" "cursor p2 tail"
    using cursor_getWord [OF s1, of "[CHR ''?'']"] ok(4,5) by (force simp: word_ok_def)
  obtain k where k: "set_protocol ?pr (message_value (q_address R) (q_message Q)) =
      Inr ((message_value (q_address R) (q_message Q))\<lparr>h_keepAlive := k, h_protocol := ?pr\<rparr>)"
    using set_protocol_ok [OF ok(7)] by blast
  show ?thesis
  proof (cases "?q = []")
    case True
    then have t: "spaces_off tail = ?pr" using off by (simp add: tail_def)
    moreover have "chr0 ?pr \<noteq> CHR ''?''" using pr(4,5) by (cases ?pr) (auto simp: chr0_def)
    ultimately obtain p3 where p3: "want (CHR ''?'') p2 = (False, p3)" "cursor p3 ?pr"
      using cursor_want [OF p2(2), of "CHR ''?''"] by auto
    have "spaces_off ?pr = ?pr" using pr(4,5) by (cases ?pr) (auto simp: qisspace_def)
    with cursor_skipSpace [OF p3(2)] have e: "cursor (skipSpace p3) ?pr" by simp
    have n: "p_now (skipSpace p3) = ?pr" "\<not> p_end (skipSpace p3)"
      using e cursor_end [OF e] pr(4) by (simp_all add: cursor_def)
    have "read_command ?line Q = (Q\<lparr>q_method := q_method R, q_address := q_address R,
        q_message := (message_value (q_address R) (q_message Q))\<lparr>h_keepAlive := k, h_protocol := ?pr\<rparr>\<rparr>, Inr ())"
      using p1(1) p2(1) p3(1) n k ok(1,3) pr(2) by (simp add: read_command_def Let_def)
    moreover have "Q\<lparr>q_queryString := []\<rparr> = Q" using assms(2) by (cases Q) simp
    ultimately show ?thesis using True assms(2) by (cases Q) auto
  next
    case False
    then have t: "spaces_off tail = CHR ''?'' # ?q @ '' '' @ ?pr" by (simp add: tail_def qisspace_def)
    then obtain p3 where p3: "want (CHR ''?'') p2 = (True, p3)" "cursor p3 (?q @ '' '' @ ?pr)"
      using cursor_want [OF p2(2), of "CHR ''?''"] by (auto simp: chr0_def)
    obtain p4 where p4: "getWord [] p3 = (?q, p4)" "cursor p4 ('' '' @ ?pr)"
      using cursor_getWord [OF p3(2), of "[]"] ok(6) by (auto simp: word_ok_def qisspace_def)
    from cursor_skipSpace [OF p4(2)] off have e: "cursor (skipSpace p4) ?pr" by simp
    have n: "p_now (skipSpace p4) = ?pr" "\<not> p_end (skipSpace p4)"
      using e cursor_end [OF e] pr(4) by (simp_all add: cursor_def)
    have "read_command ?line Q = (Q\<lparr>q_method := q_method R, q_address := q_address R, q_queryString := ?q,
        q_message := (message_value (q_address R) (q_message Q))\<lparr>h_keepAlive := k, h_protocol := ?pr\<rparr>\<rparr>, Inr ())"
      using p1(1) p2(1) p3(1) p4(1) n k ok(1,3) pr(2) by (simp add: read_command_def Let_def)
    then show ?thesis by auto
  qed
qed

section \<open>The message after the first line\<close>

text \<open>A message that can be written as text, for a reader with the limits of \<open>N\<close>.\<close>

definition sendable :: "http_message \<Rightarrow> http_message \<Rightarrow> bool" where
  "sendable M N \<longleftrightarrow>
     body_ok M \<and> list_all pair_ok (sent_headers M) \<and> list_all (line_ok (h_maxHeaderSize N)) (wire_lines True M) \<and>
     int (length (wire_lines True M)) \<le> h_maxHeadersCount N \<and>
     (h_maxBodySize N < 0 \<or> int (length (body_text M)) \<le> h_maxBodySize N * MiB)"

text \<open>A reader before it reads.\<close>

definition clear_reader :: "http_message \<Rightarrow> bool" where
  "clear_reader N \<longleftrightarrow> \<not> h_bNoBody N \<and> \<not> h_bChunked N \<and> h_body N = None \<and> h_contentLength N = -1 \<and>
     m_map (h_headers N) = [] \<and> \<not> h_upgrade N"

text \<open>
  The names of the headers arrive in lower case; the connection header is taken out, and the length of
  the body comes last.
\<close>

definition same_message :: "http_message \<Rightarrow> http_message \<Rightarrow> bool" where
  "same_message M N \<longleftrightarrow>
     m_map (h_headers N) = map (\<lambda>p. (lower (fst p), VT_String (snd p))) (sent_headers M @ length_headers True M) \<and>
     h_upgrade N = h_upgrade M \<and> h_keepAlive N = (h_upgrade M \<or> h_keepAlive M) \<and> body_text N = body_text M"

context byte_source
begin

lemma read_length_body:
  assumes "connection ok rest S (b @ after)" "h_has_stm N" "\<not> h_bNoBody N" "\<not> h_bChunked N" "h_body N = None"
    "h_contentLength N = int (length b)" "b \<noteq> []" "int (length b) < 2 ^ 31"
  shows "\<exists>S' B. readBody read_some S N = Some (S', N\<lparr>h_body := Some B\<rparr>, Inr ()) \<and> connection ok rest S' after \<and>
    ms_data B = b \<and> ms_ok B \<and> ms_tell B = 0"
proof -
  have pt: "part (int (length b)) (b @ after) = b" by (simp add: part_def)
  have room: "ms_room [] new_memory_stream (length (part (int (length b)) (b @ after)))"
    using assms(8) by (simp add: pt ms_room_def new_memory_stream_def ms_ok_def ms_tell_def ms_data_def)
  have "\<exists>S' B w. copy_loop (buffered_reader read_some) memory_writer (int (length b)) S new_memory_stream 0 =
      Some (S', B, 0 + int (length (part (int (length b)) (b @ after))), w) \<and>
      ms_data B = ms_data new_memory_stream @ part (int (length b)) (b @ after) \<and> ms_room [] B 0 \<and>
      (0 \<le> int (length b) \<and> int (length b) \<le> int (length (b @ after)) \<and>
         connection ok rest S' (drop (nat (int (length b))) (b @ after)) \<and> w = Inr () \<or>
       (w = Inr () \<and> connection ok rest S' []) \<and> (int (length b) < 0 \<or> int (length (b @ after)) < int (length b)))"
    by (rule piece_source.copy_loop_spec [OF connection_pieces memory_writer_grows _ assms(1) room])
      (assumption, auto simp: ms_room_def)
  then obtain S' B w where c: "copy_loop (buffered_reader read_some) memory_writer (int (length b)) S new_memory_stream 0 =
      Some (S', B, int (length b), Inr ())"
    "ms_data B = b" "ms_room [] B 0" "connection ok rest S' after"
    unfolding pt by (auto simp: new_memory_stream_def ms_data_def)
  have "ms_ok B" using c(3) by (simp add: ms_room_def)
  note w = rewound [OF this]
  have "readBody read_some S N = Some (S', N\<lparr>h_body := Some (snd (ms_rewind B))\<rparr>, Inr ())"
    using assms(2-7) c(1) by (simp add: readBody_def copyStream_def ensure_body_def body_done_def)
  with c(2,4) w show ?thesis by blast
qed

lemma read_message:
  assumes "connection ok rest S (lines_wire (wire_lines True M) @ [] @ CRLF @ body_text M @ after)"
    "sendable M N" "clear_reader N" "h_bResponse N = h_bResponse M"
  shows "\<exists>S' N'. http_readFrom read_some S N = Some (S', N', Inr ()) \<and> connection ok rest S' after \<and>
    same_message M N' \<and> h_protocol N' = h_protocol N \<and> h_value N' = h_value N"
proof -
  have ok: "body_ok M" "list_all pair_ok (sent_headers M)" "list_all (line_ok (h_maxHeaderSize N)) (wire_lines True M)"
    "int (length (wire_lines True M)) \<le> h_maxHeadersCount N"
    "h_maxBodySize N < 0 \<or> int (length (body_text M)) \<le> h_maxBodySize N * MiB"
    using assms(2) by (auto simp: sendable_def)
  note len = get_length_text [OF ok(1)]
  have N: "\<not> h_bNoBody N" "\<not> h_bChunked N" "h_body N = None" "h_contentLength N = -1"
    "m_map (h_headers N) = []" "\<not> h_upgrade N" using assms(3) by (auto simp: clear_reader_def)
  let ?N = "N\<lparr>h_headers := (h_headers N)\<lparr>m_lowercase_keys := True\<rparr>, h_has_stm := True\<rparr>"
  let ?R = "read_sent M ?N"
  have "lines_run (wire_lines True M) ?N = (?R, Inr ())"
    using lines_run_wire [OF ok(2), of ?N] len ok(5) by simp
  with read_header_lines [OF assms(1) ok(3,4)] obtain S1 where
    S1: "readHeader read_some S N = Some (S1, ?R, Inr ())" "connection ok rest S1 (body_text M @ after)" by auto
  have names: "\<forall>p \<in> set (sent_headers M @ length_headers True M). fst p \<noteq> []"
  proof
    fix p
    assume "p \<in> set (sent_headers M @ length_headers True M)"
    then consider "p \<in> set (sent_headers M)" | "p \<in> set (length_headers True M)" by auto
    then show "fst p \<noteq> []"
    proof cases
      case 1
      with ok(2) have "pair_ok p" by (simp only: list_all_iff)
      then show ?thesis by (simp add: pair_ok_def name_ok_def)
    next
      case 2
      then show ?thesis by (simp add: length_headers_def split: if_splits)
    qed
  qed
  have R: "m_map (h_headers ?R) = map (\<lambda>p. (lower (fst p), VT_String (snd p))) (sent_headers M @ length_headers True M)"
    "h_upgrade ?R = h_upgrade M" "h_keepAlive ?R = (h_upgrade M \<or> h_keepAlive M)" "h_body ?R = None"
    "h_has_stm ?R" "\<not> h_bNoBody ?R" "\<not> h_bChunked ?R" "h_bResponse ?R = h_bResponse M"
    "h_protocol ?R = h_protocol N" "h_value ?R = h_value N"
    "h_contentLength ?R = (if length_headers True M = [] then -1 else get_length M)"
    using add_pairs_map [OF names, of "(h_headers N)\<lparr>m_lowercase_keys := True\<rparr>"] N assms(4)
    by (simp_all add: read_sent_def)
  show ?thesis
  proof (cases "body_text M = []")
    case True
    then have "get_length M = 0" using len(1) by simp
    then have "h_contentLength ?R = 0 \<or> h_contentLength ?R = -1 \<and> \<not> h_bResponse M"
      unfolding R(11) by (auto simp: length_headers_def)
    then have "readBody read_some S1 ?R = Some (S1, ?R, Inr ())"
      using R by (auto simp: readBody_def)
    then have "http_readFrom read_some S N = Some (S1, ?R, Inr ())" using S1(1) by (simp add: http_readFrom_def)
    moreover have "same_message M ?R"
      using R(1-4) True by (simp only: same_message_def body_text_def [of ?R]) simp
    ultimately show ?thesis using S1(2) True R(9,10) by (metis append_Nil)
  next
    case False
    then have "h_contentLength ?R = int (length (body_text M))"
      unfolding R(11) using len(1) by (auto simp: length_headers_def)
    from read_length_body [OF S1(2) R(5,6,7,4) this False len(2)] obtain S' B where
      "readBody read_some S1 ?R = Some (S', ?R\<lparr>h_body := Some B\<rparr>, Inr ())" "connection ok rest S' after" "ms_data B = body_text M"
      by blast
    note B = this
    then have "http_readFrom read_some S N = Some (S', ?R\<lparr>h_body := Some B\<rparr>, Inr ())"
      using S1(1) by (simp add: http_readFrom_def)
    moreover have "same_message M (?R\<lparr>h_body := Some B\<rparr>)"
      using R(1-3) B(3) by (simp add: same_message_def body_text_def)
    ultimately show ?thesis using B(2) R(9,10) by fastforce
  qed
qed

end

end
