(* ===== verification/ResponseSpec.thy ===== *)
theory ResponseSpec
  imports RequestSpec
begin

text \<open>
  The status line of a response, from the table of reasons, and whole requests and responses written to a
  memory stream and read from any connection.
\<close>

section \<open>The status line\<close>

definition reason_of :: "http_response \<Rightarrow> string" where
  "reason_of P = (if s_statusMessage P = [] then drop 5 (status_text (s_statusCode P)) else s_statusMessage P)"

lemma three_digits:
  assumes "100 \<le> n" "n < 1000"
  shows "nat_to_string n = [digit_char (n div 100), digit_char (n div 10 mod 10), digit_char (n mod 10)]"
proof -
  have "n div 100 < 10" "0 < n div 100" "n div 10 div 10 = n div 100" "\<not> n < 10" "\<not> n div 10 < 10"
    using assms by (auto simp: div_mult2_eq [symmetric] div_less_dividend)
  then show ?thesis
    by (subst nat_to_string.simps, subst nat_to_string.simps, subst nat_to_string.simps) simp
qed

lemma status_table:
  "list_all (\<lambda>n. list_all (\<lambda>r. take 5 (status_lines ! (shortcut ! (n - 1) + r)) = '' '' @ nat_to_string (100 * n + r) @ '' '' \<and>
     CHR 0x0A \<notin> set (status_lines ! (shortcut ! (n - 1) + r)) \<and> CHR 0x00 \<notin> set (status_lines ! (shortcut ! (n - 1) + r)))
     [0..<shortcut ! n - shortcut ! (n - 1)]) [1..<6]"
  by code_simp


lemma status_text_form:
  assumes "100 \<le> c" "c < 1000"
  shows "take 5 (status_text c) = '' '' @ nat_to_string (nat c) @ '' ''"
    "CHR 0x0A \<notin> set (status_text c)" "CHR 0x00 \<notin> set (status_text c)"
proof -
  let ?n = "nat (c div 100)" and ?r = "nat (c mod 100)"
  have "take 5 (status_text c) = '' '' @ nat_to_string (nat c) @ '' '' \<and>
    CHR 0x0A \<notin> set (status_text c) \<and> CHR 0x00 \<notin> set (status_text c)"
  proof (cases "c < 600 \<and> shortcut ! (?n - 1) + ?r < shortcut ! ?n")
    case True
    have n: "?n \<in> set [1..<6]" using assms True by auto
    have r: "?r \<in> set [0..<shortcut ! ?n - shortcut ! (?n - 1)]" using True by (simp add: less_diff_conv add.commute)
    have e: "100 * ?n + ?r = nat c"
      using assms by (simp add: nat_mult_distrib [symmetric] nat_add_distrib [symmetric] flip: nat_numeral)
    from status_table n have "list_all (\<lambda>r. take 5 (status_lines ! (shortcut ! (?n - 1) + r)) = '' '' @ nat_to_string (100 * ?n + r) @ '' '' \<and>
       CHR 0x0A \<notin> set (status_lines ! (shortcut ! (?n - 1) + r)) \<and> CHR 0x00 \<notin> set (status_lines ! (shortcut ! (?n - 1) + r)))
       [0..<shortcut ! ?n - shortcut ! (?n - 1)]"
      unfolding list_all_iff [of _ "[1..<6]"] by blast
    with r have "take 5 (status_lines ! (shortcut ! (?n - 1) + ?r)) = '' '' @ nat_to_string (100 * ?n + ?r) @ '' '' \<and>
       CHR 0x0A \<notin> set (status_lines ! (shortcut ! (?n - 1) + ?r)) \<and> CHR 0x00 \<notin> set (status_lines ! (shortcut ! (?n - 1) + ?r))"
      unfolding list_all_iff by blast
    with True assms e show ?thesis by (simp only: status_text_def Let_def) simp
  next
    case False
    then have "status_text c = '' '' @ int_text c @ '' Unknown''"
      using assms unfolding status_text_def Let_def by auto
    moreover have "int_text c = nat_to_string (nat c)" using assms by (simp add: int_text_def)
    moreover have "length (nat_to_string (nat c)) = 3" using three_digits [of "nat c"] assms by simp
    ultimately show ?thesis using number_no_nul [of "nat c"] by simp
  qed
  then show "take 5 (status_text c) = '' '' @ nat_to_string (nat c) @ '' ''"
    "CHR 0x0A \<notin> set (status_text c)" "CHR 0x00 \<notin> set (status_text c)" by auto
qed

definition response_ok :: "http_response \<Rightarrow> bool" where
  "response_ok P \<longleftrightarrow>
     protocol_ok (h_protocol (s_message P)) \<and> 100 \<le> s_statusCode P \<and> s_statusCode P < 1000 \<and>
     CHR 0x00 \<notin> set (s_statusMessage P) \<and> CHR 0x0A \<notin> set (s_statusMessage P)"

lemma response_command_form:
  assumes "response_ok P"
  shows "response_command P =
      h_protocol (s_message P) @ '' '' @ nat_to_string (nat (s_statusCode P)) @ '' '' @ reason_of P"
    "CHR 0x00 \<notin> set (reason_of P)" "CHR 0x0A \<notin> set (reason_of P)"
proof -
  have c: "100 \<le> s_statusCode P" "s_statusCode P < 1000"
    "CHR 0x00 \<notin> set (s_statusMessage P)" "CHR 0x0A \<notin> set (s_statusMessage P)"
    using assms by (auto simp: response_ok_def)
  note f = status_text_form [OF c(1,2)]
  show "response_command P =
      h_protocol (s_message P) @ '' '' @ nat_to_string (nat (s_statusCode P)) @ '' '' @ reason_of P"
    using append_take_drop_id [of 5 "status_text (s_statusCode P)"] f(1) c(1)
    by (auto simp: response_command_def reason_of_def int_text_def)
  show "CHR 0x00 \<notin> set (reason_of P)" "CHR 0x0A \<notin> set (reason_of P)"
    using f(2,3) c(3,4) by (auto simp: reason_of_def dest: in_set_dropD)
qed

lemma read_response_status:
  assumes "response_ok P"
  shows "\<exists>k. read_status (response_command P) Q =
    (Q\<lparr>s_statusCode := s_statusCode P, s_statusMessage := reason_of P,
       s_message := (s_message Q)\<lparr>h_keepAlive := k, h_protocol := h_protocol (s_message P)\<rparr>\<rparr>, Inr ())"
proof -
  let ?n = "nat (s_statusCode P)" and ?pr = "h_protocol (s_message P)"
  let ?a = "?n div 100" and ?b = "?n div 10 mod 10" and ?c = "?n mod 10"
  have ok: "protocol_ok ?pr" "100 \<le> s_statusCode P" "s_statusCode P < 1000" using assms by (auto simp: response_ok_def)
  then have n: "100 \<le> ?n" "?n < 1000" by auto
  then have lt: "?a < 10" "?b < 10" "?c < 10" by auto
  note form = response_command_form [OF assms]
  note pr = protocol_text [OF ok(1)]
  obtain a b where p8: "?pr = ''HTTP/'' @ [a] @ ''.'' @ [b]" using ok(1) by (auto simp: protocol_ok_def)
  have line: "response_command P =
      ?pr @ CHR '' '' # digit_char ?a # digit_char ?b # digit_char ?c # CHR '' '' # reason_of P"
    using form(1) three_digits [OF n] by simp
  have c: "char_at (response_command P) 8 = CHR '' ''" "char_at (response_command P) 9 = digit_char ?a"
    "char_at (response_command P) 10 = digit_char ?b" "char_at (response_command P) 11 = digit_char ?c"
    "char_at (response_command P) 12 = CHR '' ''" "\<not> length (response_command P) < 12"
    "drop 13 (response_command P) = reason_of P" "take 8 (response_command P) = ?pr"
    unfolding line p8 by (simp_all add: char_at_def)
  have v: "(int (code (digit_char ?a)) - 48) * 100 + (int (code (digit_char ?b)) - 48) * 10 +
      (int (code (digit_char ?c)) - 48) = s_statusCode P"
  proof -
    have "?n div 10 div 10 = ?a" by (simp add: div_mult2_eq [symmetric])
    then have "?a * 100 + ?b * 10 + ?c = ?n"
      using div_mult_mod_eq [of ?n 10] div_mult_mod_eq [of "?n div 10" 10] by linarith
    with ok(2) have "int ?a * 100 + int ?b * 10 + int ?c = s_statusCode P" by linarith
    then show ?thesis by (simp only: code_digit_char [OF lt(1)] code_digit_char [OF lt(2)] code_digit_char [OF lt(3)]) simp
  qed
  have sp: "\<not> c_isdigit (CHR '' '')" by (simp add: c_isdigit_def)
  obtain k where k: "set_protocol ?pr (s_message Q) = Inr ((s_message Q)\<lparr>h_keepAlive := k, h_protocol := ?pr\<rparr>)"
    using set_protocol_ok [OF ok(1)] by blast
  have d: "c_isdigit (digit_char ?a)" "c_isdigit (digit_char ?b)" "c_isdigit (digit_char ?c)" using lt by simp_all
  have r: "c_string (reason_of P) = reason_of P" using form(2) by (rule c_string_id)
  let ?Q = "Q\<lparr>s_statusCode := s_statusCode P, s_statusMessage := reason_of P\<rparr>"
  have "read_status (response_command P) Q =
    (?Q\<lparr>s_message := (s_message Q)\<lparr>h_keepAlive := k, h_protocol := ?pr\<rparr>\<rparr>, Inr ())"
    unfolding read_status_def Let_def c v
    by (simp only: d sp r simp_thms if_False if_True) (use c(6) in \<open>simp add: k\<close>)
  then show ?thesis by (intro exI [of _ k]) simp
qed


section \<open>Sending and reading\<close>

definition message_wire :: "string \<Rightarrow> http_message \<Rightarrow> string" where
  "message_wire cmd M = cmd @ CRLF @ lines_wire (wire_lines True M) @ CRLF @ body_text M"

lemma sent_flag [simp]:
  "wire_lines cl (M\<lparr>h_sent := True\<rparr>) = wire_lines cl M" "body_text (M\<lparr>h_sent := True\<rparr>) = body_text M"
  "body_ok (M\<lparr>h_sent := True\<rparr>) = body_ok M"
  by (simp_all add: wire_lines_def sent_headers_def connection_value_def length_headers_def get_length_def
      body_text_def body_ok_def)

lemma send_to_memory:
  assumes "body_ok M" "int (length (message_wire cmd M)) < 2 ^ 31"
  shows "\<exists>T M'. http_send memory_writer cmd M new_memory_stream = Some (T, M', Inr ()) \<and> ms_data T = message_wire cmd M"
proof -
  let ?M = "M\<lparr>h_sent := True\<rparr>"
  have "ms_room [] new_memory_stream (length (cmd @ CRLF @ lines_wire (wire_lines True ?M) @ CRLF) + length (body_text ?M))"
    using assms(2) by (simp add: ms_room_def new_memory_stream_def ms_ok_def ms_tell_def ms_data_def message_wire_def)
  note room = this
  have "\<exists>T M'. asyncSendTo memory_writer cmd False True ?M new_memory_stream = Some (T, M', Inr ()) \<and>
    ms_data T = ms_data new_memory_stream @ (cmd @ CRLF @ lines_wire (wire_lines True ?M) @ CRLF) @ body_text ?M \<and>
    ms_room [] T 0"
  proof (rule asyncSendTo_text [where room = "ms_room []", OF memory_writer_grows _ _ room])
    show "ms_room [] t (a + b) \<Longrightarrow> ms_room [] t a" for t a b by (auto simp: ms_room_def)
    show "body_ok ?M" using assms(1) by simp
  qed
  moreover have "ms_data new_memory_stream = []" by (simp add: new_memory_stream_def ms_data_def)
  ultimately show ?thesis unfolding http_send_def message_wire_def by fastforce
qed

lemma message_value_keeps:
  "sendable M (message_value a N) = sendable M N" "clear_reader (message_value a N) = clear_reader N"
  "h_bResponse (message_value a N) = h_bResponse N" "h_maxHeaderSize (message_value a N) = h_maxHeaderSize N"
  by (auto simp: message_value_def sendable_def clear_reader_def split: option.splits)

lemma reader_keeps:
  "sendable M (N\<lparr>h_keepAlive := k, h_protocol := p\<rparr>) = sendable M N"
  "clear_reader (N\<lparr>h_keepAlive := k, h_protocol := p\<rparr>) = clear_reader N"
  by (simp_all add: sendable_def clear_reader_def)

definition same_request :: "http_request \<Rightarrow> http_request \<Rightarrow> bool" where
  "same_request R Q \<longleftrightarrow>
     q_method Q = q_method R \<and> q_address Q = q_address R \<and> q_queryString Q = q_queryString R \<and>
     h_protocol (q_message Q) = h_protocol (q_message R) \<and> same_message (q_message R) (q_message Q)"

lemma word_no_newline: "word_ok w \<Longrightarrow> CHR 0x0A \<notin> set w"
  by (auto simp: word_ok_def qisspace_def)

lemma command_no_newline:
  assumes "command_ok R"
  shows "CHR 0x0A \<notin> set (request_command R)"
proof -
  have "word_ok (q_method R)" "word_ok (q_address R)" "word_ok (q_queryString R)" "protocol_ok (h_protocol (q_message R))"
    using assms by (simp_all add: command_ok_def)
  from word_no_newline [OF this(1)] word_no_newline [OF this(2)] word_no_newline [OF this(3)] protocol_text(3) [OF this(4)]
  show ?thesis by (simp add: request_command_def)
qed

context byte_source
begin

lemma request_read_back:
  assumes "connection ok rest S (message_wire (request_command R) (q_message R) @ after)" "command_ok R"
    "sendable (q_message R) (q_message Q)" "clear_reader (q_message Q)" "q_queryString Q = []"
    "h_bResponse (q_message Q) = h_bResponse (q_message R)"
    "h_maxHeaderSize (q_message Q) > 0 \<longrightarrow> int (length (request_command R)) \<le> h_maxHeaderSize (q_message Q)"
  shows "\<exists>S' Q'. request_readFrom read_some S Q = Some (S', Q', Inr ()) \<and> connection ok rest S' after \<and> same_request R Q'"
proof -
  let ?M = "q_message R"
  have u: "connection ok rest S (request_command R @ CRLF @ (lines_wire (wire_lines True ?M) @ [] @ CRLF @ body_text ?M @ after))"
    using assms(1) by (simp add: message_wire_def)
  obtain S1 where S1: "bs_readLine read_some (h_maxHeaderSize (q_message Q)) S = Some (S1, Ok (request_command R))"
    "connection ok rest S1 (lines_wire (wire_lines True ?M) @ [] @ CRLF @ body_text ?M @ after)"
    using read_line_connection [OF u command_no_newline [OF assms(2)] assms(7)] by blast
  obtain k where k: "read_command (request_command R) Q =
    (Q\<lparr>q_method := q_method R, q_address := q_address R, q_queryString := q_queryString R,
       q_message := (message_value (q_address R) (q_message Q))\<lparr>h_keepAlive := k, h_protocol := h_protocol ?M\<rparr>\<rparr>, Inr ())"
    using read_request_command [OF assms(2,5)] by blast
  let ?N = "(message_value (q_address R) (q_message Q))\<lparr>h_keepAlive := k, h_protocol := h_protocol ?M\<rparr>"
  have "sendable ?M ?N" "clear_reader ?N" "h_bResponse ?N = h_bResponse ?M"
    using assms(3,4,6) by (simp_all add: reader_keeps message_value_keeps)
  from read_message [OF S1(2) this] obtain S' N' where N': "http_readFrom read_some S1 ?N = Some (S', N', Inr ())"
    "connection ok rest S' after" "same_message ?M N'" "h_protocol N' = h_protocol ?M" by auto
  show ?thesis
    using S1(1) k N' by (simp add: request_readFrom_def same_request_def)
qed

end

definition same_response :: "http_response \<Rightarrow> http_response \<Rightarrow> bool" where
  "same_response P Q \<longleftrightarrow>
     s_statusCode Q = s_statusCode P \<and> s_statusMessage Q = reason_of P \<and>
     h_protocol (s_message Q) = h_protocol (s_message P) \<and> same_message (s_message P) (s_message Q)"

context byte_source
begin

lemma response_read_back:
  assumes "connection ok rest S (message_wire (response_command P) (s_message P) @ after)" "response_ok P"
    "sendable (s_message P) (s_message Q)" "clear_reader (s_message Q)"
    "h_bResponse (s_message Q) = h_bResponse (s_message P)"
    "h_maxHeaderSize (s_message Q) > 0 \<longrightarrow> int (length (response_command P)) \<le> h_maxHeaderSize (s_message Q)"
  shows "\<exists>S' Q'. response_readFrom read_some False S Q = Some (S', Q', Inr ()) \<and> connection ok rest S' after \<and>
    same_response P Q'"
proof -
  let ?M = "s_message P"
  have u: "connection ok rest S (response_command P @ CRLF @ (lines_wire (wire_lines True ?M) @ [] @ CRLF @ body_text ?M @ after))"
    using assms(1) by (simp add: message_wire_def)
  have nl: "CHR 0x0A \<notin> set (response_command P)"
  proof -
    have "protocol_ok (h_protocol ?M)" using assms(2) by (simp add: response_ok_def)
    from protocol_text(3) [OF this] number_no_nul(2) response_command_form(3) [OF assms(2)] show ?thesis
      unfolding response_command_form(1) [OF assms(2)] by simp
  qed
  obtain S1 where S1: "bs_readLine read_some (h_maxHeaderSize (s_message Q)) S = Some (S1, Ok (response_command P))"
    "connection ok rest S1 (lines_wire (wire_lines True ?M) @ [] @ CRLF @ body_text ?M @ after)"
    using read_line_connection [OF u nl assms(6)] by blast
  obtain k where k: "read_status (response_command P) Q =
    (Q\<lparr>s_statusCode := s_statusCode P, s_statusMessage := reason_of P,
       s_message := (s_message Q)\<lparr>h_keepAlive := k, h_protocol := h_protocol ?M\<rparr>\<rparr>, Inr ())"
    using read_response_status [OF assms(2)] by blast
  let ?N = "(s_message Q)\<lparr>h_keepAlive := k, h_protocol := h_protocol ?M\<rparr>"
  have "sendable ?M ?N" "clear_reader ?N" "h_bResponse ?N = h_bResponse ?M"
    using assms(3,4,5) by (simp_all add: reader_keeps)
  from read_message [OF S1(2) this] obtain S' N' where N': "http_readFrom read_some S1 ?N = Some (S', N', Inr ())"
    "connection ok rest S' after" "same_message ?M N'" "h_protocol N' = h_protocol ?M" by auto
  show ?thesis
    using S1(1) k N' by (simp add: response_readFrom_def same_response_def)
qed

end

end
