(* ===== verification/HttpProps.thy ===== *)
theory HttpProps
  imports ResponseSpec
begin

text \<open>
  The properties of HTTP messages: requests and responses that are sent are read back, whatever pieces the
  connection delivers, and what follows on the connection stays there; messages with a chunked body; the
  size of the header block.
\<close>

section \<open>Examples for the witnesses\<close>

definition hi_stream :: memory_stream where
  "hi_stream = snd (ms_writeBuffer ''hi'' new_memory_stream)"

lemma hi_stream: "ms_ok hi_stream" "ms_data hi_stream = ''hi''" "ms_size hi_stream = 2"
  by (simp_all add: hi_stream_def ms_writeBuffer_def new_memory_stream_def ms_ok_def ms_data_def ms_size_def ss_defs)


lemmas new_message_defs = new_http_request_def request_clear_def new_http_response_def response_clear_def
  new_http_message_def http_clear_def Message_clear_def new_Headers_def new_collection_def hc_clear_def








definition not_found :: http_response where
  "not_found = new_http_response\<lparr>s_statusCode := 404,
     s_message := (s_message new_http_response)\<lparr>h_body := Some hi_stream\<rparr>\<rparr>"

lemma not_found_fields:
  "get_length (s_message not_found) = 2" "body_text (s_message not_found) = ''hi''" "body_ok (s_message not_found)"
  "h_upgrade (s_message not_found) = False" "h_keepAlive (s_message not_found)" "h_bResponse (s_message not_found)"
  "\<not> s_cookies_filled not_found" "h_protocol (s_message not_found) = ''HTTP/1.1''" "s_statusCode not_found = 404"
  "s_statusMessage not_found = []" "m_map (h_headers (s_message not_found)) = []"
  by (simp_all add: not_found_def new_message_defs get_length_def body_text_def body_ok_def hi_stream)

lemma not_found_command: "response_ok not_found" "response_command not_found = ''HTTP/1.1 404 File Not Found''"
  "reason_of not_found = ''File Not Found''"
proof -
  have t: "status_text 404 = '' 404 File Not Found''" by code_simp
  show "response_ok not_found" by (simp add: response_ok_def not_found_fields protocol_ok_def c_isdigit_def)
  show "response_command not_found = ''HTTP/1.1 404 File Not Found''" "reason_of not_found = ''File Not Found''"
    by (simp_all add: response_command_def reason_of_def not_found_fields t)
qed

lemma not_found_wire: "sent_headers (s_message not_found) = []"
  "wire_lines True (s_message not_found) = [''Connection: keep-alive'', ''Content-Length: 2'']"
proof -
  show h: "sent_headers (s_message not_found) = []" by (simp add: sent_headers_def not_found_fields)
  have "nat_to_string 2 = ''2''" by code_simp
  then show "wire_lines True (s_message not_found) = [''Connection: keep-alive'', ''Content-Length: 2'']"
    by (simp add: wire_lines_def h connection_value_def length_headers_def not_found_fields line_for_def)
qed

lemma not_found_sendable: "sendable (s_message not_found) (s_message new_http_response)"
  by (simp add: sendable_def not_found_fields not_found_wire line_ok_def new_message_defs MiB_def)

lemma fresh_response: "clear_reader (s_message new_http_response)" "h_bResponse (s_message new_http_response)"
  "h_maxHeaderSize (s_message new_http_response) = 8192"
  by (simp_all add: clear_reader_def new_message_defs)

section \<open>Messages with a chunked body\<close>

definition chunked_header :: "(string \<times> string) list \<Rightarrow> (string \<times> string) list \<Rightarrow> string list" where
  "chunked_header ps qs = map (\<lambda>(n, v). line_for n v) (ps @ [(''Transfer-Encoding'', ''chunked'')] @ qs)"

lemma chunked_line:
  "read_header_line (line_for ''Transfer-Encoding'' ''chunked'') M =
     (M\<lparr>h_bChunked := True, h_headers := append_string ''Transfer-Encoding'' ''chunked'' (h_headers M)\<rparr>, Inr ())"
proof -
  let ?l = "line_for ''Transfer-Encoding'' ''chunked''"
  have ok: "name_ok ''Transfer-Encoding''" "value_ok ''chunked''"
    by (simp_all add: name_ok_def value_ok_def qisspace_def)
  have l: "lower ''Transfer-Encoding'' = ''transfer-encoding''" "lower ''transfer-encoding'' = ''transfer-encoding''"
    by code_simp+
  have "qstricmp ?l ''transfer-encoding:'' 18 = 0" "qstricmp ?l ''content-length:'' 15 \<noteq> 0"
    using line_names [of "''Transfer-Encoding''" "''transfer-encoding''" "'' chunked''"]
      line_names [of "''Transfer-Encoding''" "''content-length''" "'' chunked''"] l
    by (simp_all add: line_for_def lower_def qtolower_def)
  moreover have "p_now (skipSpace (new_parser (drop 18 ?l))) = ''chunked''"
    using skip_while_now(1) [of "new_parser (drop 18 ?l)" qisspace]
    by (simp add: skipSpace_def line_for_def new_parser_def p_now_def qisspace_def)
  moreover have "qstricmp ''chunked'' ''chunked'' (-1) = 0" by (simp add: qstricmp_whole)
  moreover have "append_line ?l M' =
      (M'\<lparr>h_headers := append_string ''Transfer-Encoding'' ''chunked'' (h_headers M')\<rparr>, Inr ())" for M'
    using append_line_for [OF ok] by (simp add: append_header_def)
  ultimately show ?thesis by (simp add: read_header_line_def)
qed

lemma chunked_header_run:
  assumes "list_all pair_ok (ps @ qs)"
  shows "lines_run (chunked_header ps qs) M =
    (M\<lparr>h_bChunked := True,
       h_headers := add_pairs (ps @ [(''Transfer-Encoding'', ''chunked'')] @ qs) (h_headers M)\<rparr>, Inr ())"
proof -
  have pq: "list_all pair_ok ps" "list_all pair_ok qs" using assms by simp_all
  show ?thesis
    using lines_run_append [of "map (\<lambda>(n, v). line_for n v) ps" M] lines_run_pairs [OF pq(1), of M]
      lines_run_pairs [OF pq(2)]
    by (simp add: chunked_header_def chunked_line add_pairs_def)
qed

lemma chunked_header_names:
  assumes "list_all pair_ok (ps @ qs)"
  shows "\<forall>p \<in> set (ps @ [(''Transfer-Encoding'', ''chunked'')] @ qs). fst p \<noteq> []"
  using assms unfolding list_all_iff by (auto simp: pair_ok_def name_ok_def)

lemma read_chunked_body:
  assumes "byte_source rd rest ok" "connection ok rest S (chunks_wire cs @ last_wire zs ext ls @ after)"
    "list_all (chunk_wf (h_maxChunkSize N)) cs" "size_line zs ext 0" "list_all trailer_wf ls"
    "h_has_stm N" "\<not> h_bNoBody N" "h_bChunked N" "h_maxBodySize N \<noteq> 0" "h_contentLength N = -1" "h_body N = None"
    "h_trailers N = None" "h_maxBodySize N < 0 \<or> int (length (chunks_data cs)) \<le> h_maxBodySize N * MiB"
    "int (length (chunks_data cs)) < 2 ^ 31"
  shows "\<exists>S' B. readBody rd S N = Some (S', N\<lparr>h_contentLength := 0, h_body := Some B,
      h_trailers := Some (trailers_done (new_Headers\<lparr>m_lowercase_keys := True\<rparr>) ls)\<rparr>, Inr ()) \<and>
    connection ok rest S' after \<and> ms_data B = chunks_data cs"
proof -
  let ?T = "new_Headers\<lparr>m_lowercase_keys := True\<rparr>"
  obtain C' B where C: "copyStream (chunked_reader rd) memory_writer (-1)
      (new_chunked S (h_maxChunkSize N) (h_maxBodySize N) (Some ?T)) new_memory_stream =
      Some (C', B, int (length (chunks_data cs)), Inr ())" "ms_data B = chunks_data cs" "chunked_fin ok rest ?T ls after C'"
    using chunked_copy_whole [OF assms(1-5,13,14), of ?T] by blast
  have f: "connection ok rest (k_stm C') after" "k_trailers C' = Some (trailers_done ?T ls)"
    using C(3) by (auto simp: chunked_fin_def)
  have "ms_data (snd (ms_rewind B)) = chunks_data cs" using C(2) by (simp add: ms_rewind_def ms_data_def ss_defs)
  moreover have "readBody rd S N = Some (k_stm C', N\<lparr>h_contentLength := 0, h_body := Some (snd (ms_rewind B)),
      h_trailers := Some (trailers_done ?T ls)\<rparr>, Inr ())"
    using C(1) f assms(6-12) by (simp add: readBody_def ensure_body_def body_done_def)
  ultimately show ?thesis using f(1) by blast
qed

section \<open>A body cut short\<close>


section \<open>Where the reader is lenient\<close>

text \<open>A length above 32 bits wraps around.\<close>

lemma content_length_wraps:
  assumes "n < 2 ^ 31"
  shows "c_atoi (CHR '' '' # nat_to_string (n + 2 ^ 32)) = int n"
proof -
  have "c_atoll (CHR '' '' # nat_to_string m) = c_atoll (nat_to_string m)" for m
    by (simp add: c_atoll_def c_isspace_def)
  moreover have "to_int32 (int n + 2 ^ 32) = int n"
    using assms to_int32_small [of "int n"] mod_add_self2 [of "int n + 2 ^ 31" "2 ^ 32"]
    by (simp add: to_int32_def add.assoc add.commute)
  ultimately show ?thesis using assms by (simp add: c_atoi_def c_atoll_to_string)
qed

text \<open>A connection that ends inside the header ends the header.\<close>

lemma header_cut_accepted:
  assumes "byte_source rd rest ok" "connection ok rest S []"
  shows "\<exists>S'. readHeader rd S N =
    Some (S', N\<lparr>h_headers := (h_headers N)\<lparr>m_lowercase_keys := True\<rparr>, h_has_stm := True\<rparr>, Inr ())"
proof -
  obtain S' where "bs_readLine rd (h_maxHeaderSize N) S = Some (S', ReturnNull)"
    using byte_source.read_line_at_end [OF assms] by blast
  then show ?thesis by (simp add: readHeader_def line_of_def) (subst header_loop.simps, simp)
qed

text \<open>A response that is cleared keeps the reason of the one before.\<close>

lemma response_clear_keeps_reason:
  "response_command (response_clear P) =
     ''HTTP/1.1'' @ (if s_statusMessage P = [] then '' 200 OK'' else '' 200 '' @ s_statusMessage P)"
proof -
  have "status_text 200 = '' 200 OK''" "int_text 200 = ''200''" by code_simp+
  then show ?thesis by (simp add: response_command_def response_clear_def http_clear_def Message_clear_def)
qed

section \<open>Properties\<close>



text \<open>
  C33: a response with a status from 100 to 999, a protocol \<open>HTTP/x.y\<close>, no cookie objects, and a reason and
  headers that a line can hold (\<open>pair_ok\<close>), none of them \<open>Transfer-Encoding\<close>, shorter than 2 GiB in all, is read
  back by a reader of the same kind without headers and body whose limits it keeps: status, reason, protocol, connection mode, headers and body are the same, the
  reason taken from the table when none was set, and what the connection has after the response stays unread.
\<close>

theorem response_roundtrip:
  assumes "byte_source rd rest ok" "response_ok P" "\<not> s_cookies_filled P" "sendable (s_message P) (s_message Q)"
    "clear_reader (s_message Q)" "h_bResponse (s_message Q) = h_bResponse (s_message P)"
    "h_maxHeaderSize (s_message Q) > 0 \<longrightarrow> int (length (response_command P)) \<le> h_maxHeaderSize (s_message Q)"
    "int (length (message_wire (response_command P) (s_message P))) < 2 ^ 31"
  shows "\<exists>T P'. response_sendTo memory_writer None P new_memory_stream = Some (T, P', Inr ()) \<and>
    (\<forall>S after. connection ok rest S (ms_data T @ after) \<longrightarrow>
       (\<exists>S' Q'. response_readFrom rd False S Q = Some (S', Q', Inr ()) \<and> connection ok rest S' after \<and> same_response P Q'))"
proof -
  have "body_ok (s_message P)" using assms(4) by (simp add: sendable_def)
  from send_to_memory [OF this assms(8)] obtain T M' where
    T: "http_send memory_writer (response_command P) (s_message P) new_memory_stream = Some (T, M', Inr ())"
    "ms_data T = message_wire (response_command P) (s_message P)" by blast
  have "response_sendTo memory_writer None P new_memory_stream = Some (T, P\<lparr>s_message := M'\<rparr>, Inr ())"
    using T(1) assms(3) by (simp add: response_sendTo_def prepareHeaders_def)
  moreover have "\<exists>S' Q'. response_readFrom rd False S Q = Some (S', Q', Inr ()) \<and> connection ok rest S' after \<and>
      same_response P Q'"
    if "connection ok rest S (ms_data T @ after)" for S after
    using byte_source.response_read_back [OF assms(1) that [unfolded T(2)] assms(2,4-7)] .
  ultimately show ?thesis by blast
qed

theorem response_roundtrip_witness:
  "\<exists>T P' S' Q'. response_sendTo memory_writer None not_found new_memory_stream = Some (T, P', Inr ()) \<and>
     response_readFrom next_of False (pieces [ms_data T, ''next'']) new_http_response = Some (S', Q', Inr ()) \<and>
     s_statusCode Q' = 404 \<and> s_statusMessage Q' = ''File Not Found'' \<and>
     body_text (s_message Q') = ''hi'' \<and> unread concat S' = ''next''"
proof -
  have l: "int (length (message_wire (response_command not_found) (s_message not_found))) < 2 ^ 31"
    by (simp add: message_wire_def not_found_command not_found_wire not_found_fields CRLF_def)
  have b: "h_bResponse (s_message new_http_response) = h_bResponse (s_message not_found)"
    by (simp add: fresh_response not_found_fields)
  have m: "h_maxHeaderSize (s_message new_http_response) > 0 \<longrightarrow>
      int (length (response_command not_found)) \<le> h_maxHeaderSize (s_message new_http_response)"
    by (simp add: fresh_response not_found_command)
  from response_roundtrip [OF next_of_source not_found_command(1) not_found_fields(7) not_found_sendable fresh_response(1) b m l]
  obtain T P' where T: "response_sendTo memory_writer None not_found new_memory_stream = Some (T, P', Inr ())"
    "\<And>S after. connection no_empty_piece concat S (ms_data T @ after) \<Longrightarrow>
       \<exists>S' Q'. response_readFrom next_of False S new_http_response = Some (S', Q', Inr ()) \<and>
         connection no_empty_piece concat S' after \<and> same_response not_found Q'" by blast
  obtain T' M' where "http_send memory_writer (response_command not_found) (s_message not_found) new_memory_stream = Some (T', M', Inr ())"
    "ms_data T' = message_wire (response_command not_found) (s_message not_found)"
    using send_to_memory [OF not_found_fields(3) l] by blast
  then have "ms_data T \<noteq> []" using T(1)
    by (auto simp: response_sendTo_def prepareHeaders_def not_found_fields message_wire_def not_found_command)
  then have "connection no_empty_piece concat (pieces [ms_data T, ''next'']) (ms_data T @ ''next'')"
    using pieces_connection [of "[ms_data T, ''next'']"] by simp
  from T(2) [OF this] T(1) show ?thesis
    by (auto simp: same_response_def same_message_def not_found_fields not_found_command connection_def)
qed

text \<open>
  C34: a message whose header has the line \<open>Transfer-Encoding: chunked\<close> among lines for other names
  than \<open>Connection\<close>, \<open>Content-Length\<close> and \<open>Transfer-Encoding\<close>, its data
  below 2 GiB, read by a reader without headers, body and trailers that takes bodies and whose limits it keeps,
  gets the data of its chunks as its body and the lines after the last chunk, of at most 64 characters each, as
  its trailers, however the chunks are cut; its headers are the lines of the header in order, and what follows
  the message stays on the connection.
\<close>

theorem chunked_message_read:
  assumes "byte_source rd rest ok" "clear_reader N" "h_maxBodySize N \<noteq> 0" "h_trailers N = None"
    "connection ok rest S (lines_wire (chunked_header ps qs) @ CRLF @ chunks_wire cs @ last_wire zs ext ls @ after)"
    "list_all pair_ok (ps @ qs)" "list_all (line_ok (h_maxHeaderSize N)) (chunked_header ps qs)"
    "int (length (chunked_header ps qs)) \<le> h_maxHeadersCount N"
    "list_all (chunk_wf (h_maxChunkSize N)) cs" "size_line zs ext 0" "list_all trailer_wf ls"
    "h_maxBodySize N < 0 \<or> int (length (chunks_data cs)) \<le> h_maxBodySize N * MiB"
    "int (length (chunks_data cs)) < 2 ^ 31"
  shows "\<exists>S' N'. http_readFrom rd S N = Some (S', N', Inr ()) \<and> connection ok rest S' after \<and>
    body_text N' = chunks_data cs \<and>
    m_map (h_headers N') =
      map (\<lambda>p. (lower (fst p), VT_String (snd p))) (ps @ [(''Transfer-Encoding'', ''chunked'')] @ qs) \<and>
    h_trailers N' = Some (trailers_done (new_Headers\<lparr>m_lowercase_keys := True\<rparr>) ls)"
proof -
  let ?N = "N\<lparr>h_headers := (h_headers N)\<lparr>m_lowercase_keys := True\<rparr>, h_has_stm := True\<rparr>"
  let ?H = "add_pairs (ps @ [(''Transfer-Encoding'', ''chunked'')] @ qs) (h_headers ?N)"
  let ?R = "?N\<lparr>h_bChunked := True, h_headers := ?H\<rparr>"
  have N: "\<not> h_bNoBody N" "h_body N = None" "h_contentLength N = -1" "m_map (h_headers N) = []"
    using assms(2) by (auto simp: clear_reader_def)
  have run: "lines_run (chunked_header ps qs) ?N = (?R, Inr ())"
    using chunked_header_run [OF assms(6), of ?N] by simp
  have u: "connection ok rest S (lines_wire (chunked_header ps qs) @ [] @ CRLF @ (chunks_wire cs @ last_wire zs ext ls @ after))"
    using assms(5) by simp
  from byte_source.read_header_lines [OF assms(1) u assms(7,8)] run obtain S1 where
    S1: "readHeader rd S N = Some (S1, ?R, Inr ())"
    "connection ok rest S1 (chunks_wire cs @ last_wire zs ext ls @ after)" by auto
  obtain S' B where B: "readBody rd S1 ?R = Some (S', ?R\<lparr>h_contentLength := 0, h_body := Some B,
      h_trailers := Some (trailers_done (new_Headers\<lparr>m_lowercase_keys := True\<rparr>) ls)\<rparr>, Inr ())"
    "connection ok rest S' after" "ms_data B = chunks_data cs"
    using read_chunked_body [OF assms(1) S1(2) _ assms(10,11), of ?R] assms(3,4,9,12,13) N by auto
  have "m_map ?H = map (\<lambda>p. (lower (fst p), VT_String (snd p))) (ps @ [(''Transfer-Encoding'', ''chunked'')] @ qs)"
    using add_pairs_map [OF chunked_header_names [OF assms(6)], of "h_headers ?N"] N(4) by simp
  with S1(1) B show ?thesis by (simp add: http_readFrom_def body_text_def)
qed

theorem chunked_message_read_witness:
  "\<exists>S' N'. http_readFrom next_of (pieces ([lines_wire [''Transfer-Encoding: chunked''] @ CRLF] @ hello_pieces @ hello_end))
      (new_http_message True) = Some (S', N', Inr ()) \<and>
    body_text N' = ''hello'' \<and> unread concat S' = ''next''"
proof -
  have h: "chunked_header [] [] = [''Transfer-Encoding: chunked'']" by (simp add: chunked_header_def line_for_def)
  have c: "connection no_empty_piece concat
      (pieces ([lines_wire [''Transfer-Encoding: chunked''] @ CRLF] @ hello_pieces @ hello_end))
      (lines_wire (chunked_header [] []) @ CRLF @ chunks_wire [hello_chunk] @ last_wire ''0'' [] [''A: b''] @ ''next'')"
    using pieces_connection [of "[lines_wire [''Transfer-Encoding: chunked''] @ CRLF] @ hello_pieces @ hello_end"]
    by (simp add: h hello_pieces_def hello_end_def chunks_wire_def chunk_wire_def hello_chunk_def last_wire_def
        trailers_wire_def CRLF_def)
  have n: "clear_reader (new_http_message True)" "h_maxBodySize (new_http_message True) = 64"
    "h_trailers (new_http_message True) = None" "h_maxHeaderSize (new_http_message True) = 8192"
    "h_maxHeadersCount (new_http_message True) = 128" "h_maxChunkSize (new_http_message True) = 2"
    by (simp_all add: clear_reader_def new_message_defs)
  show ?thesis
    using chunked_message_read [OF next_of_source n(1) _ n(3) c] hello_chunk
    by (auto simp: n h line_ok_def trailer_wf_def MiB_def connection_def)
qed



end
