(* ===== verification/Dates.thy ===== *)
theory Dates
  imports HttpMessage "HOL-Library.Signed_Division"
begin

text \<open>
  \<^verbatim>\<open>src/base/date.cpp\<close>: the dates of the runtime. A \<open>date_t\<close> is a number of milliseconds, \<open>None\<close> when it is
  not a number; the model keeps to whole milliseconds below \<open>2 ^ 53\<close>, which a double holds exactly. The
  clock and the time zone of the host are left out: \<open>to_utc\<close> and \<open>to_local\<close>, the two conversions of the
  local-time cache, are arguments. A lookup outside a table has no value (\<open>None\<close>), and then the operation
  has none.
\<close>

type_synonym date = "int option"

section \<open>Tables\<close>

definition table_at :: "'a list \<Rightarrow> int \<Rightarrow> 'a option" where
  "table_at t i = (if 0 \<le> i \<and> i < int (length t) then Some (t ! nat i) else None)"

definition LeapYearDayToMonth :: "int list" where
  "LeapYearDayToMonth =
     replicate 31 0 @ replicate 29 1 @ replicate 31 2 @ replicate 30 3 @ replicate 31 4 @ replicate 30 5 @
     replicate 31 6 @ replicate 31 7 @ replicate 30 8 @ replicate 31 9 @ replicate 30 10 @ replicate 31 11"

definition NormalYearDayToMonth :: "int list" where
  "NormalYearDayToMonth =
     replicate 31 0 @ replicate 28 1 @ replicate 31 2 @ replicate 30 3 @ replicate 31 4 @ replicate 30 5 @
     replicate 31 6 @ replicate 31 7 @ replicate 30 8 @ replicate 31 9 @ replicate 30 10 @ replicate 31 11"

definition LeapYearDaysPrecedingMonth :: "int list" where
  "LeapYearDaysPrecedingMonth = [0, 31, 60, 91, 121, 152, 182, 213, 244, 274, 305, 335, 366]"

definition NormalYearDaysPrecedingMonth :: "int list" where
  "NormalYearDaysPrecedingMonth = [0, 31, 59, 90, 120, 151, 181, 212, 243, 273, 304, 334, 365]"

text \<open>A remainder is zero whatever way the division rounds; the divisions of C round towards zero.\<close>

definition IsLeapYear :: "int \<Rightarrow> bool" where
  "IsLeapYear y \<longleftrightarrow> y mod 400 = 0 \<or> y mod 100 \<noteq> 0 \<and> y mod 4 = 0"

definition DaysPreceding :: "int \<Rightarrow> int list" where
  "DaysPreceding y = (if IsLeapYear y then LeapYearDaysPrecedingMonth else NormalYearDaysPrecedingMonth)"

definition MaxDaysInMonth :: "int \<Rightarrow> int \<Rightarrow> int option" where
  "MaxDaysInMonth y m =
     (case (table_at (DaysPreceding y) (m + 1), table_at (DaysPreceding y) m) of
        (Some b, Some a) \<Rightarrow> Some (b - a)
      | _ \<Rightarrow> None)"

definition NumberOfLeapYears :: "int \<Rightarrow> int" where
  "NumberOfLeapYears y = y sdiv 4 - y sdiv 100 + y sdiv 400"

definition ElapsedYearsToDays :: "int \<Rightarrow> int" where
  "ElapsedYearsToDays y = y * 365 + NumberOfLeapYears y"

section \<open>From a calendar date\<close>

text \<open>The number of days is a \<open>uint32_t\<close>, the time of the day an \<open>int32_t\<close>. The lookups are inside the tables.\<close>

definition create :: "int \<Rightarrow> int \<Rightarrow> int \<Rightarrow> int \<Rightarrow> int \<Rightarrow> int \<Rightarrow> int \<Rightarrow> date" where
  "create Y M D h m s ms =
     (if M < 1 \<or> D < 1 then None
      else if M - 1 > 11 then None
      else
        (case MaxDaysInMonth Y (M - 1) of
           None \<Rightarrow> None
         | Some n \<Rightarrow>
             if D - 1 > n - 1 then None
             else
               (let ElapsedDays = (ElapsedYearsToDays (Y - 1) + DaysPreceding Y ! nat (M - 1) + (D - 1)) mod 2 ^ 32
                in Some (ElapsedDays * 86400000 + to_int32 (((h * 60 + m) * 60 + s) * 1000) + ms - 62135596800000))))"

definition toUTC :: "(int \<Rightarrow> int) \<Rightarrow> date \<Rightarrow> date" where
  "toUTC to_utc d = map_option to_utc d"

definition toLocal :: "(int \<Rightarrow> int) \<Rightarrow> date \<Rightarrow> date" where
  "toLocal to_local d = map_option to_local d"

text \<open>The fields of a DOS time; the shift of a negative number keeps its sign.\<close>

definition fromDosTime :: "(int \<Rightarrow> int) \<Rightarrow> int \<Rightarrow> date" where
  "fromDosTime to_utc tm =
     toUTC to_utc
       (create (tm div 2 ^ 25 + 1980) (tm div 2 ^ 21 mod 16) (tm div 2 ^ 16 mod 32) (tm div 2 ^ 11 mod 32)
          (tm div 2 ^ 5 mod 64) (tm mod 32) 0)"

section \<open>To a calendar date\<close>

record part =
  wYear :: int
  wMonth :: int
  wHour :: int
  wMinute :: int
  wSecond :: int
  wDayOfWeek :: int
  wDay :: int
  wMillisecond :: int

definition to_int16 :: "int \<Rightarrow> int" where
  "to_int16 x = (x + 2 ^ 15) mod 2 ^ 16 - 2 ^ 15"

definition getdate :: "int \<Rightarrow> part option" where
  "getdate d =
     (let d1 = d + 62135596800000;
          day = to_int32 (d1 sdiv 86400000);
          milli = d1 smod 86400000;
          dow = to_int16 ((day + 1) smod 7);
          n400 = day sdiv 146097;
          day = day - n400 * 146097;
          n100 = (day * 100 + 75) sdiv 3652425;
          day = day - n100 * 36524;
          n4 = day sdiv 1461;
          day = day - n4 * 1461;
          year = n400 * 400 + n100 * 100 + n4 * 4 + (day * 100 + 75) sdiv 36525 + 1;
          day = day - (day * 100 + 75) sdiv 36525 * 365;
          second = milli sdiv 1000; minute = second sdiv 60
      in case table_at (if IsLeapYear year then LeapYearDayToMonth else NormalYearDayToMonth) day of
           None \<Rightarrow> None
         | Some month \<Rightarrow>
             Some \<lparr>wYear = year, wMonth = month, wHour = minute sdiv 60, wMinute = minute smod 60,
                   wSecond = second smod 60, wDayOfWeek = dow, wDay = day - DaysPreceding year ! nat month,
                   wMillisecond = milli smod 1000\<rparr>)"

section \<open>Texts\<close>

fun putInt :: "int \<Rightarrow> nat \<Rightarrow> string" where
  "putInt v 0 = []"
| "putInt v (Suc n) = putInt (v sdiv 10) n @ [char_of (nat ((v smod 10 + 48) mod 256))]"

definition szMonth :: "string list" where
  "szMonth = [''Jan'', ''Feb'', ''Mar'', ''Apr'', ''May'', ''Jun'', ''Jul'', ''Aug'', ''Sep'', ''Oct'', ''Nov'', ''Dec'']"

definition szDays :: "string list" where
  "szDays = [''Sun'', ''Mon'', ''Tue'', ''Wed'', ''Thu'', ''Fri'', ''Sat'']"

text \<open>The text written for a date; \<open>ret\<close>, what the result held before, stays for a date that is not a number.\<close>

definition date_text :: "(part \<Rightarrow> string option) \<Rightarrow> date \<Rightarrow> string \<Rightarrow> string option" where
  "date_text put d ret =
     (case d of
        None \<Rightarrow> Some ret
      | Some t \<Rightarrow> (case getdate t of None \<Rightarrow> None | Some ds \<Rightarrow> put ds))"

definition put_gmt :: "part \<Rightarrow> string option" where
  "put_gmt ds =
     (case (table_at szDays (wDayOfWeek ds), table_at szMonth (wMonth ds)) of
        (Some day, Some month) \<Rightarrow>
          Some (day @ '', '' @ putInt (wDay ds + 1) 2 @ '' '' @ month @ '' '' @ putInt (wYear ds) 4 @ '' '' @
                putInt (wHour ds) 2 @ '':'' @ putInt (wMinute ds) 2 @ '':'' @ putInt (wSecond ds) 2 @ '' GMT'')
      | _ \<Rightarrow> None)"

definition put_digits :: "part \<Rightarrow> string option" where
  "put_digits ds =
     Some (putInt (wYear ds) 4 @ putInt (wMonth ds + 1) 2 @ putInt (wDay ds + 1) 2 @
           putInt (wHour ds) 2 @ putInt (wMinute ds) 2 @ putInt (wSecond ds) 2)"

definition put_sql :: "part \<Rightarrow> string option" where
  "put_sql ds =
     Some (putInt (wYear ds) 4 @ ''-'' @ putInt (wMonth ds + 1) 2 @ ''-'' @ putInt (wDay ds + 1) 2 @ '' '' @
           putInt (wHour ds) 2 @ '':'' @ putInt (wMinute ds) 2 @ '':'' @ putInt (wSecond ds) 2)"

definition toGMTString :: "date \<Rightarrow> string \<Rightarrow> string option" where
  "toGMTString d ret = date_text put_gmt d ret"

definition toX509String :: "date \<Rightarrow> string \<Rightarrow> string option" where
  "toX509String d ret = date_text put_digits d ret"

definition sqlString :: "(int \<Rightarrow> int) \<Rightarrow> date \<Rightarrow> string \<Rightarrow> string option" where
  "sqlString to_local d ret = date_text put_sql (map_option to_local d) ret"

definition stamp :: "(int \<Rightarrow> int) \<Rightarrow> date \<Rightarrow> string \<Rightarrow> string option" where
  "stamp to_local d ret = date_text put_digits (map_option to_local d) ret"

section \<open>Parsing\<close>

text \<open>
  The text that is left is \<open>drop pos str\<close>, with \<open>len\<close> its length. The sum is a 64-bit number of which only the
  low 16 bits are used.
\<close>

fun getInt_loop :: "string \<Rightarrow> int \<Rightarrow> int \<times> string" where
  "getInt_loop [] n = (n, [])"
| "getInt_loop (c # s) n =
     (if c_isdigit c then getInt_loop s (n * 10 + int (code c) - 48) else (n, c # s))"

definition getInt :: "string \<Rightarrow> int \<times> string" where
  "getInt s = (case getInt_loop s 0 of (n, r) \<Rightarrow> (to_int16 n, r))"

text \<open>
  The date at the beginning of a text that begins with a digit: year, month and day counted from 0, whether
  a time follows, whether it is local, the hour, and what is left. The check for a day that comes last
  looks up the days of a month before it knows that there is such a month.
\<close>

definition slash :: "char \<Rightarrow> bool" where
  "slash ch \<longleftrightarrow> ch = CHR ''/'' \<or> ch = CHR ''-''"

definition parse_date :: "string \<Rightarrow> (int \<times> int \<times> int \<times> bool \<times> bool \<times> int \<times> string) option" where
  "parse_date str =
     (let (y, r) = getInt str; ch = chr0 r
      in if slash ch then
           (let m = y; (d, r) = getInt (tl r); ch = chr0 r;
                (y, m, d, time, local, h, r) =
                  (if slash ch then
                     (let (y, r) = getInt (tl r); ch = chr0 r
                      in if ch = CHR '' '' \<or> ch = CHR ''T'' \<or> ch = CHR ''t''
                         then (let (h, r) = getInt (tl r) in (y, m, d, True, ch = CHR '' '', h, r))
                         else (y, m, d, False, True, 0, r))
                   else if m > 12 \<and> d \<le> 12 then (m, d, 1, False, True, 0, r)
                   else (2001, m, d, False, True, 0, r))
            in if m > 12 \<and> d \<le> 12 then
                 (case MaxDaysInMonth m (d - 1) of
                    None \<Rightarrow> None
                  | Some n \<Rightarrow>
                      if y \<le> n then Some (m, d - 1, y - 1, time, local, h, r)
                      else Some (y, m - 1, d - 1, time, local, h, r))
               else Some (y, m - 1, d - 1, time, local, h, r))
         else if ch = CHR '':'' then Some (2001, 0, 0, True, True, y, r)
         else Some (y, 0, 0, False, True, 0, r))"

text \<open>The digits of the fraction, at most three, each worth a tenth of the one before.\<close>

fun parse_fraction :: "nat \<Rightarrow> int \<Rightarrow> string \<Rightarrow> int \<times> string" where
  "parse_fraction 0 p r = (0, r)"
| "parse_fraction (Suc i) p r =
     (if c_isdigit (chr0 r)
      then (case parse_fraction i (p div 10) (tl r) of (v, r') \<Rightarrow> ((int (code (chr0 r)) - 48) * p + v, r'))
      else (0, r))"

definition parse_time :: "string \<Rightarrow> int \<times> int \<times> int \<times> string" where
  "parse_time r =
     (if chr0 r = CHR '':'' then
        (let (m, r) = getInt (tl r)
         in if chr0 r = CHR '':'' then
              (let (s, r) = getInt (tl r)
               in if chr0 r = CHR ''.'' then (case parse_fraction 3 100 (tl r) of (ms, r) \<Rightarrow> (m, s, ms, r))
                  else (m, s, 0, r))
            else (m, 0, 0, r))
      else (0, 0, 0, r))"

definition parse_numeric :: "(int \<Rightarrow> int) \<Rightarrow> string \<Rightarrow> date option" where
  "parse_numeric to_utc str =
     (case parse_date str of
        None \<Rightarrow> None
      | Some (y, mo, d, time, local, h, r) \<Rightarrow>
          let y = (if y < 100 then y + (if y \<ge> 50 then 1900 else 2000) else y);
              (m, s, ms, r) = (if time then parse_time r else (0, 0, 0, r));
              h = (if qstricmp r '' pm'' 3 = 0 then h + 12 else h);
              t = create y (mo + 1) (d + 1) h m s ms
          in Some (if local then map_option to_utc t else t))"

text \<open>\<open>k\<close> is how many characters are left of the length; a mask never goes beyond the text.\<close>

fun checkmask :: "string \<Rightarrow> nat \<Rightarrow> string \<Rightarrow> bool" where
  "checkmask data 0 pat = (chr0 pat = CHR ''*'')"
| "checkmask data (Suc k) [] = (chr0 data = CHR 0x00)"
| "checkmask data (Suc k) (m # pat) =
     (let d = chr0 data; go = checkmask (tl data) k pat
      in if m = CHR ''*'' then True
         else if m = CHR ''@'' then 65 \<le> code d \<and> code d \<le> 90 \<and> go
         else if m = CHR ''$'' then 97 \<le> code d \<and> code d \<le> 122 \<and> go
         else if m = CHR ''!'' then (if c_isdigit d then go else checkmask data k pat)
         else if m = CHR ''#'' then c_isdigit d \<and> go
         else if m = CHR ''&'' then qisxdigit d \<and> go
         else if m = CHR ''~'' then (d = CHR '' '' \<or> c_isdigit d) \<and> go
         else m = d \<and> go)"

definition matches :: "string \<Rightarrow> string \<Rightarrow> bool" where
  "matches str pat \<longleftrightarrow> checkmask str (length str) pat"

definition low_digit :: "string \<Rightarrow> nat \<Rightarrow> int" where
  "low_digit str i = int (code (char_at str i) mod 16)"

definition two_digits :: "string \<Rightarrow> nat \<Rightarrow> int" where
  "two_digits str i = low_digit str i * 10 + low_digit str (i + 1)"

text \<open>Where the year, the day counted from 0, the month, the time and the zone are, in the forms with names.\<close>

definition parse_form :: "string \<Rightarrow> (int \<times> int \<times> string \<times> string \<times> string) option" where
  "parse_form str =
     (if matches str ''@$$ ## #### ##:##:##*''
      then Some (two_digits str 7 * 100 + two_digits str 9, two_digits str 4 - 1, str, drop 12 str, drop 20 str)
      else if matches str ''## @$$ #### ##:##:##*'' \<or> matches str ''##-@$$-#### ##:##:##*''
      then Some (two_digits str 7 * 100 + two_digits str 9, two_digits str 0 - 1, drop 3 str, drop 12 str, drop 20 str)
      else if matches str ''##-@$$-## ##:##:##*''
      then Some (two_digits str 7 + (if two_digits str 7 < 70 then 2000 else 1900), two_digits str 0 - 1, drop 3 str,
                 drop 10 str, drop 18 str)
      else if matches str ''@$$ ~# ##:##:## ####*''
      then Some (two_digits str 16 * 100 + two_digits str 18, two_digits str 4 - 1, str, drop 7 str, drop 20 str)
      else None)"

definition month_of :: "string \<Rightarrow> int" where
  "month_of monstr = int (length (takeWhile (\<lambda>m. m \<noteq> take 3 monstr) szMonth))"

text \<open>The zone after \<open>GMT\<close>, as hours and minutes in one number, and whether the date is local.\<close>

definition parse_zone :: "string \<Rightarrow> int \<times> bool" where
  "parse_zone tzstr =
     (if qstricmp tzstr '' gmt'' 4 = 0 then
        (if c_isdigit (char_at tzstr 5) then
           (if char_at tzstr 4 = CHR ''+'' then (to_int32 (- c_atoi (drop 5 tzstr)), False)
            else if char_at tzstr 4 = CHR ''-'' then (c_atoi (drop 5 tzstr), False)
            else (0, False))
         else (0, False))
      else (0, True))"

definition blank :: "char \<Rightarrow> bool" where
  "blank c \<longleftrightarrow> c \<noteq> CHR 0x00 \<and> qisspace c"

text \<open>A text in no known form leaves the date as it is.\<close>

definition parse_named :: "(int \<Rightarrow> int) \<Rightarrow> string \<Rightarrow> date \<Rightarrow> date" where
  "parse_named to_utc str old =
     (let str = dropWhile (\<lambda>c. c \<noteq> CHR 0x00 \<and> \<not> qisspace c) str
      in if chr0 str = CHR 0x00 then old
         else
           (case parse_form (dropWhile blank str) of
              None \<Rightarrow> old
            | Some (y, d, monstr, timstr, tzstr) \<Rightarrow>
                let (tz, local) = parse_zone tzstr;
                    t = create y (month_of monstr + 1) (d + 1) (two_digits timstr 0) (two_digits timstr 3)
                          (two_digits timstr 6) 0
                in if local then map_option to_utc t else map_option (\<lambda>t. t + to_int32 (tz * 36000)) t))"

definition date_parse :: "(int \<Rightarrow> int) \<Rightarrow> string \<Rightarrow> date \<Rightarrow> date option" where
  "date_parse to_utc str old =
     (if chr0 str = CHR 0x00 then Some old
      else
        (let str = dropWhile blank str
         in if c_isdigit (chr0 str) then parse_numeric to_utc str else Some (parse_named to_utc str old)))"

section \<open>Arithmetic\<close>

datatype date_part = YEAR | MONTH | DAY | HOUR | MINUTE | SECOND | MICROSECOND

definition add_months :: "int \<Rightarrow> part \<Rightarrow> int \<times> int" where
  "add_months num ds =
     (let year = (if num \<ge> 12 then wYear ds + num sdiv 12 else wYear ds);
          num = (if num \<ge> 12 then num smod 12 else num);
          month = wMonth ds + num
      in if month > 11 then (year + 1, month - 12) else (year, month))"

definition add_calendar :: "int \<times> int \<Rightarrow> part \<Rightarrow> date option" where
  "add_calendar ym ds =
     (case (MaxDaysInMonth (wYear ds) (wMonth ds), MaxDaysInMonth (fst ym) (snd ym)) of
        (Some n, Some n') \<Rightarrow>
          let isLastday = (wDay ds = n - 1); day = n' - 1;
              wDay' = (if wDay ds > day \<or> isLastday then day else wDay ds)
          in Some (create (fst ym) (snd ym + 1) (wDay' + 1) (wHour ds) (wMinute ds) (wSecond ds) (wMillisecond ds))
      | _ \<Rightarrow> None)"

definition date_add :: "int \<Rightarrow> date_part \<Rightarrow> date \<Rightarrow> date option" where
  "date_add num unit d =
     (case d of
        None \<Rightarrow> Some None
      | Some t \<Rightarrow>
          (case unit of
             MICROSECOND \<Rightarrow> Some (Some (t + num))
           | SECOND \<Rightarrow> Some (Some (t + num * 1000))
           | MINUTE \<Rightarrow> Some (Some (t + num * 60 * 1000))
           | HOUR \<Rightarrow> Some (Some (t + num * 60 * 60 * 1000))
           | DAY \<Rightarrow> Some (Some (t + num * 60 * 60 * 24 * 1000))
           | MONTH \<Rightarrow> (case getdate t of None \<Rightarrow> None | Some ds \<Rightarrow> add_calendar (add_months num ds) ds)
           | YEAR \<Rightarrow> (case getdate t of None \<Rightarrow> None | Some ds \<Rightarrow> add_calendar (wYear ds + num, wMonth ds) ds)))"

definition date_fix :: "date_part \<Rightarrow> date \<Rightarrow> date option" where
  "date_fix unit d =
     (case d of
        None \<Rightarrow> Some None
      | Some t \<Rightarrow>
          (case unit of
             SECOND \<Rightarrow> Some (Some (t sdiv 1000 * 1000))
           | MINUTE \<Rightarrow> Some (Some (t sdiv (60 * 1000) * 60 * 1000))
           | HOUR \<Rightarrow> Some (Some (t sdiv (60 * 60 * 1000) * 60 * 60 * 1000))
           | DAY \<Rightarrow> Some (Some (t sdiv (60 * 60 * 24 * 1000) * 60 * 60 * 24 * 1000))
           | MONTH \<Rightarrow>
               (case getdate t of None \<Rightarrow> None | Some ds \<Rightarrow> Some (create (wYear ds) (wMonth ds + 1) 1 0 0 0 0))
           | YEAR \<Rightarrow> (case getdate t of None \<Rightarrow> None | Some ds \<Rightarrow> Some (create (wYear ds) 1 1 0 0 0 0))
           | MICROSECOND \<Rightarrow> (case getdate t of None \<Rightarrow> None | Some ds \<Rightarrow> Some (Some t))))"

end
