(* ===== verification/DateSpec.thy ===== *)
theory DateSpec
  imports Dates
begin

text \<open>
  The calendar of \<open>getdate\<close> and \<open>create\<close>: the closed forms that find the year, the tables for the month, and
  that each undoes the other.
\<close>

section \<open>Divisions of numbers that are not negative\<close>

lemma sdiv_pos [simp]: "0 \<le> a \<Longrightarrow> 0 < b \<Longrightarrow> (a :: int) sdiv b = a div b"
  by (simp add: signed_divide_int_def sgn_if)

lemma smod_pos [simp]: "0 \<le> a \<Longrightarrow> 0 < b \<Longrightarrow> (a :: int) smod b = a mod b"
  by (cases "a = 0") (simp_all add: signed_modulo_int_def sdiv_pos minus_div_mult_eq_mod del: mult.commute)

section \<open>Years\<close>

definition year_days :: "int \<Rightarrow> int" where
  "year_days y = (if IsLeapYear y then 366 else 365)"

text \<open>The days before the year \<open>y\<close>.\<close>

definition days_before :: "int \<Rightarrow> int" where
  "days_before y = (y - 1) * 365 + (y - 1) div 4 - (y - 1) div 100 + (y - 1) div 400"

lemma elapsed_days: "1 \<le> y \<Longrightarrow> ElapsedYearsToDays (y - 1) = days_before y"
  by (simp add: ElapsedYearsToDays_def NumberOfLeapYears_def days_before_def)

lemma next_multiple:
  assumes "0 < k"
  shows "(y :: int) div k = (y - 1) div k + (if y mod k = 0 then 1 else 0)"
proof -
  define q r where "q = y div k" "r = y mod k"
  have y: "y = k * q + r" "0 \<le> r" "r < k" using assms by (simp_all add: q_r_def)
  have "(y - 1) div k = (if r = 0 then q - 1 else q)"
  proof (cases "r = 0")
    case True
    then have "y - 1 = k * (q - 1) + (k - 1)" using y by (simp add: algebra_simps)
    then show ?thesis using int_div_pos_eq [of "y - 1" k "q - 1" "k - 1"] assms True by simp
  next
    case False
    then show ?thesis using int_div_pos_eq [of "y - 1" k q "r - 1"] y by simp
  qed
  then show ?thesis by (simp add: q_r_def)
qed

lemma leap_count:
  fixes x :: int
  assumes "c \<Longrightarrow> b" "b \<Longrightarrow> a" "q = q' + (if a then 1 else 0)" "r = r' + (if b then 1 else 0)"
    "s = s' + (if c then 1 else 0)"
  shows "x * 365 + q - r + s = (x - 1) * 365 + q' - r' + s' + (if c \<or> \<not> b \<and> a then 366 else 365)"
  using assms by auto

lemma days_before_next: "days_before (y + 1) = days_before y + year_days y"
proof -
  have "y mod 400 = 0 \<Longrightarrow> y mod 100 = 0" "y mod 100 = 0 \<Longrightarrow> y mod 4 = 0"
    unfolding mod_eq_0_iff_dvd by (auto elim: dvd_trans [rotated])
  from leap_count [OF this next_multiple next_multiple next_multiple, of y] show ?thesis
    unfolding days_before_def year_days_def IsLeapYear_def by (simp only: add_diff_cancel_right')
qed

lemma div_bounds: "0 < k \<Longrightarrow> (x :: int) div k * k \<le> x" "0 < k \<Longrightarrow> x < x div k * k + k"
  using div_mult_mod_eq [of x k] pos_mod_bound [of k x] pos_mod_sign [of k x] by linarith+

lemma days_before_mono: "y \<le> z \<Longrightarrow> days_before y \<le> days_before z"
proof (induction z rule: int_ge_induct)
  case (step z)
  then show ?case by (simp add: days_before_next year_days_def)
qed simp

text \<open>A day has one year and one place in it.\<close>

lemma day_of_year_unique:
  assumes "days_before y + d = days_before z + e" "0 \<le> d" "d < year_days y" "0 \<le> e" "e < year_days z"
  shows "y = z \<and> d = e"
proof -
  have "\<not> y < z" using days_before_mono [of "y + 1" z] assms by (auto simp: days_before_next)
  moreover have "\<not> z < y" using days_before_mono [of "z + 1" y] assms by (auto simp: days_before_next)
  ultimately show ?thesis using assms(1) by auto
qed

lemma div_below:
  assumes "0 < k" "0 \<le> x" "x < n * k"
  shows "0 \<le> x div k \<and> x div k < (n :: int)"
proof -
  have "\<not> n \<le> x div k"
  proof
    assume "n \<le> x div k"
    then have "n * k \<le> x div k * k" using assms(1) by (intro mult_right_mono) auto
    with div_bounds(1) [OF assms(1), of x] assms(3) show False by linarith
  qed
  with assms show ?thesis by (simp add: pos_imp_zdiv_nonneg_iff)
qed

lemma century:
  assumes "0 \<le> (r :: int)" "r < 146097"
  defines "b \<equiv> (r * 100 + 75) div 3652425"
  shows "0 \<le> b" "b \<le> 3" "0 \<le> r - b * 36524" "r - b * 36524 < 36524 + (if b = 3 then 1 else 0)"
proof -
  show b: "0 \<le> b" "b \<le> 3" using assms by (auto simp: b_def)
  have m: "b * 3652425 \<le> r * 100 + 75" "r * 100 + 75 < b * 3652425 + 3652425"
    unfolding b_def using div_bounds [of 3652425] by simp_all
  from b consider "b = 0" | "b = 1" | "b = 2" | "b = 3" by linarith
  then have "0 \<le> r - b * 36524 \<and> r - b * 36524 < 36524 + (if b = 3 then 1 else 0)"
    by cases (use m assms(1,2) in auto)
  then show "0 \<le> r - b * 36524" "r - b * 36524 < 36524 + (if b = 3 then 1 else 0)" by auto
qed

lemma year_of_four:
  assumes "0 \<le> (r :: int)" "r < 1461"
  defines "e \<equiv> (r * 100 + 75) div 36525"
  shows "0 \<le> e" "e \<le> 3" "0 \<le> r - e * 365" "r - e * 365 < 365 + (if e = 3 then 1 else 0)"
proof -
  show e: "0 \<le> e" "e \<le> 3" using assms by (auto simp: e_def)
  have m: "e * 36525 \<le> r * 100 + 75" "r * 100 + 75 < e * 36525 + 36525"
    unfolding e_def using div_bounds [of 36525] by simp_all
  from e consider "e = 0" | "e = 1" | "e = 2" | "e = 3" by linarith
  then have "0 \<le> r - e * 365 \<and> r - e * 365 < 365 + (if e = 3 then 1 else 0)"
    by cases (use m assms(1,2) in auto)
  then show "0 \<le> r - e * 365" "r - e * 365 < 365 + (if e = 3 then 1 else 0)" by auto
qed

lemma year_parts:
  assumes "0 \<le> a" "0 \<le> b" "b \<le> 3" "0 \<le> c" "c \<le> 24" "0 \<le> e" "e \<le> (3 :: int)"
  defines "y \<equiv> a * 400 + b * 100 + c * 4 + e + 1"
  shows "days_before y = a * 146097 + b * 36524 + c * 1461 + e * 365"
    "e = 3 \<Longrightarrow> (c = 24 \<Longrightarrow> b = 3) \<Longrightarrow> IsLeapYear y"
proof -
  have "(y - 1) div 4 = a * 100 + b * 25 + c" "(y - 1) div 100 = a * 4 + b" "(y - 1) div 400 = a"
    using assms(1-7) int_div_pos_eq [of "y - 1" 4 "a * 100 + b * 25 + c" e]
      int_div_pos_eq [of "y - 1" 100 "a * 4 + b" "c * 4 + e"] int_div_pos_eq [of "y - 1" 400 a "b * 100 + c * 4 + e"]
    unfolding y_def by linarith+
  then show "days_before y = a * 146097 + b * 36524 + c * 1461 + e * 365"
    by (simp add: days_before_def y_def)
  show "IsLeapYear y" if "e = 3" "c = 24 \<Longrightarrow> b = 3"
  proof (cases "c = 24")
    case True
    with that have "y = (a + 1) * 400" by (simp add: y_def)
    then show ?thesis by (simp add: IsLeapYear_def)
  next
    case False
    have y: "y = a * 400 + b * 100 + (c * 4 + 4)" using that(1) by (simp add: y_def)
    have "y mod 4 = 0" unfolding y by (simp add: mod_eq_0_iff_dvd)
    moreover have "y mod 100 \<noteq> 0"
    proof -
      have "y = (c * 4 + 4) + (a * 4 + b) * 100" using y by simp
      then have "y mod 100 = (c * 4 + 4) mod 100" by (simp only: mod_mult_self1)
      then show ?thesis using False assms by auto
    qed
    ultimately show ?thesis by (simp add: IsLeapYear_def)
  qed
qed

text \<open>The closed forms.\<close>

definition year_of :: "int \<Rightarrow> int \<times> int" where
  "year_of day =
     (let n400 = day div 146097; r = day - n400 * 146097;
          n100 = (r * 100 + 75) div 3652425; r = r - n100 * 36524;
          n4 = r div 1461; r = r - n4 * 1461;
          n1 = (r * 100 + 75) div 36525
      in (n400 * 400 + n100 * 100 + n4 * 4 + n1 + 1, r - n1 * 365))"

lemma year_of_day:
  assumes "0 \<le> day" "year_of day = (y, d)"
  shows "days_before y + d = day" "0 \<le> d" "d < year_days y" "1 \<le> y"
proof -
  define a where "a = day div 146097"
  define r1 where "r1 = day - a * 146097"
  define b where "b = (r1 * 100 + 75) div 3652425"
  define r2 where "r2 = r1 - b * 36524"
  define c where "c = r2 div 1461"
  define r3 where "r3 = r2 - c * 1461"
  define e where "e = (r3 * 100 + 75) div 36525"
  have y: "y = a * 400 + b * 100 + c * 4 + e + 1" "d = r3 - e * 365"
    using assms(2) by (simp_all add: year_of_def Let_def a_def r1_def b_def r2_def c_def r3_def e_def)
  have a: "0 \<le> a" using assms(1) by (simp add: a_def pos_imp_zdiv_nonneg_iff)
  have r1: "0 \<le> r1" "r1 < 146097" using div_bounds [of 146097 day] by (simp_all add: r1_def a_def)
  note b = century [OF r1, folded b_def, folded r2_def]
  have r3: "0 \<le> r3" "r3 < 1461" using div_bounds [of 1461 r2] by (simp_all add: r3_def c_def)
  have c: "0 \<le> c" "c \<le> 24" using b(3,4) by (auto simp: c_def pos_imp_zdiv_nonneg_iff split: if_splits)
  note e = year_of_four [OF r3, folded e_def]
  note yp = year_parts [OF a b(1,2) c e(1,2), folded y(1)]
  show "days_before y + d = day" using yp(1) by (simp add: y(2) r3_def r2_def r1_def)
  show "0 \<le> d" using e(3) y(2) by simp
  show "1 \<le> y" using a b c e by (simp add: y(1))
  show "d < year_days y"
  proof (cases "e = 3 \<and> d = 365")
    case True
    then have "r3 = 1460" using y(2) by simp
    then have "c = 24 \<Longrightarrow> b = 3" using b(4) by (auto simp: r3_def split: if_splits)
    with True yp(2) show ?thesis by (simp add: year_days_def)
  next
    case False
    with e(4) y(2) show ?thesis by (auto simp: year_days_def split: if_splits)
  qed
qed

text \<open>The divisions of the code are of numbers that are not negative.\<close>

definition year_code :: "int \<Rightarrow> int \<times> int" where
  "year_code day =
     (let n400 = day sdiv 146097; r = day - n400 * 146097;
          n100 = (r * 100 + 75) sdiv 3652425; r = r - n100 * 36524;
          n4 = r sdiv 1461; r = r - n4 * 1461
      in (n400 * 400 + n100 * 100 + n4 * 4 + (r * 100 + 75) sdiv 36525 + 1, r - (r * 100 + 75) sdiv 36525 * 365))"

lemma year_of_code:
  assumes "0 \<le> day"
  shows "year_code day = year_of day"
proof -
  define a where "a = day div 146097"
  define r1 where "r1 = day - a * 146097"
  define b where "b = (r1 * 100 + 75) div 3652425"
  define r2 where "r2 = r1 - b * 36524"
  define c where "c = r2 div 1461"
  define r3 where "r3 = r2 - c * 1461"
  have r1: "0 \<le> r1" "r1 < 146097" using div_bounds [of 146097 day] by (simp_all add: r1_def a_def)
  have r2: "0 \<le> r2" using century(3) [OF r1] by (simp add: r2_def b_def)
  have r3: "0 \<le> r3" using div_bounds [of 1461 r2] by (simp add: r3_def c_def)
  have s: "day sdiv 146097 = a" "(r1 * 100 + 75) sdiv 3652425 = b" "r2 sdiv 1461 = c"
    "(r3 * 100 + 75) sdiv 36525 = (r3 * 100 + 75) div 36525"
    using assms r1 r2 r3 by (simp_all add: a_def b_def c_def)
  show ?thesis
    unfolding year_code_def year_of_def Let_def s(1) a_def [symmetric] r1_def [symmetric] s(2) b_def [symmetric]
      r2_def [symmetric] s(3) c_def [symmetric] r3_def [symmetric] s(4) ..
qed

lemma year_of_unique:
  assumes "1 \<le> y" "0 \<le> d" "d < year_days y"
  shows "year_of (days_before y + d) = (y, d)"
proof -
  obtain z e where z: "year_of (days_before y + d) = (z, e)" by fastforce
  have "0 \<le> days_before y" using days_before_mono [OF assms(1)] by (simp add: days_before_def)
  then have "0 \<le> days_before y + d" using assms(2) by simp
  note w = year_of_day [OF this z]
  show ?thesis using day_of_year_unique [OF w(1) w(2,3) assms(2,3)] z by simp
qed

section \<open>Months\<close>

lemma leap_table:
  "list_all (\<lambda>(d, m). 0 \<le> m \<and> m \<le> 11 \<and> LeapYearDaysPrecedingMonth ! nat m \<le> d \<and>
      d < LeapYearDaysPrecedingMonth ! nat (m + 1)) (zip [0..365] LeapYearDayToMonth) \<and>
   length LeapYearDayToMonth = 366"
  by code_simp

lemma normal_table:
  "list_all (\<lambda>(d, m). 0 \<le> m \<and> m \<le> 11 \<and> NormalYearDaysPrecedingMonth ! nat m \<le> d \<and>
      d < NormalYearDaysPrecedingMonth ! nat (m + 1)) (zip [0..364] NormalYearDayToMonth) \<and>
   length NormalYearDayToMonth = 365"
  by code_simp

lemma table_entry:
  assumes "list_all P (zip [0..int k - 1] t) \<and> length t = k" "0 \<le> d" "d < int k"
  shows "table_at t d = Some (t ! nat d) \<and> P (d, t ! nat d)"
proof -
  have "zip [0..int k - 1] t ! nat d = (d, t ! nat d)"
    using assms by (simp add: nth_upto)
  moreover have "nat d < length (zip [0..int k - 1] t)" using assms by simp
  ultimately have "P (d, t ! nat d)" using assms(1) unfolding list_all_length by metis
  with assms show ?thesis by (simp add: table_at_def)
qed

definition month_table :: "int \<Rightarrow> int list" where
  "month_table y = (if IsLeapYear y then LeapYearDayToMonth else NormalYearDayToMonth)"

lemma month_of_day:
  assumes "0 \<le> d" "d < year_days y"
  shows "\<exists>m. table_at (month_table y) d = Some m \<and> 0 \<le> m \<and> m \<le> 11 \<and>
    DaysPreceding y ! nat m \<le> d \<and> d < DaysPreceding y ! nat (m + 1)"
proof (cases "IsLeapYear y")
  case True
  with assms table_entry [of _ 366 LeapYearDayToMonth d] leap_table show ?thesis
    by (auto simp: month_table_def DaysPreceding_def year_days_def)
next
  case False
  with assms table_entry [of _ 365 NormalYearDayToMonth d] normal_table show ?thesis
    by (auto simp: month_table_def DaysPreceding_def year_days_def)
qed

lemma month_length:
  assumes "0 \<le> m" "m \<le> 11"
  shows "MaxDaysInMonth y m = Some (DaysPreceding y ! nat (m + 1) - DaysPreceding y ! nat m)"
  using assms
  by (simp add: MaxDaysInMonth_def table_at_def DaysPreceding_def LeapYearDaysPrecedingMonth_def
      NormalYearDaysPrecedingMonth_def)

lemma preceding_bounds:
  assumes "0 \<le> m" "m \<le> (11 :: int)"
  shows "0 \<le> DaysPreceding y ! nat m" "DaysPreceding y ! nat (m + 1) \<le> year_days y"
proof -
  have "m = 0 \<or> m = 1 \<or> m = 2 \<or> m = 3 \<or> m = 4 \<or> m = 5 \<or> m = 6 \<or> m = 7 \<or> m = 8 \<or> m = 9 \<or> m = 10 \<or> m = 11"
    using assms by presburger
  then show "0 \<le> DaysPreceding y ! nat m" "DaysPreceding y ! nat (m + 1) \<le> year_days y"
    by (auto simp: DaysPreceding_def year_days_def LeapYearDaysPrecedingMonth_def NormalYearDaysPrecedingMonth_def)
qed

lemma preceding_mono:
  assumes "0 \<le> m" "m < n" "n \<le> (11 :: int)"
  shows "DaysPreceding y ! nat (m + 1) \<le> DaysPreceding y ! nat n"
proof -
  have s: "sorted (DaysPreceding y)"
    by (simp add: DaysPreceding_def LeapYearDaysPrecedingMonth_def NormalYearDaysPrecedingMonth_def)
  have "length (DaysPreceding y) = 13"
    by (simp add: DaysPreceding_def LeapYearDaysPrecedingMonth_def NormalYearDaysPrecedingMonth_def)
  with assms show ?thesis by (intro sorted_nth_mono [OF s]) auto
qed

section \<open>Dates and their parts\<close>

definition EPOCH :: int where
  "EPOCH = 62135596800000"

text \<open>From the first day of year 1, as many days as 31 bits count.\<close>

definition in_range :: "int \<Rightarrow> bool" where
  "in_range d \<longleftrightarrow> 0 \<le> d + EPOCH \<and> d + EPOCH < 2 ^ 31 * 86400000"

definition valid_part :: "part \<Rightarrow> bool" where
  "valid_part p \<longleftrightarrow>
     1 \<le> wYear p \<and> 0 \<le> wMonth p \<and> wMonth p \<le> 11 \<and> 0 \<le> wDay p \<and>
     wDay p < DaysPreceding (wYear p) ! nat (wMonth p + 1) - DaysPreceding (wYear p) ! nat (wMonth p) \<and>
     0 \<le> wHour p \<and> wHour p < 24 \<and> 0 \<le> wMinute p \<and> wMinute p < 60 \<and> 0 \<le> wSecond p \<and> wSecond p < 60 \<and>
     0 \<le> wMillisecond p \<and> wMillisecond p < 1000"

definition day_number :: "part \<Rightarrow> int" where
  "day_number p = days_before (wYear p) + DaysPreceding (wYear p) ! nat (wMonth p) + wDay p"

definition day_time :: "part \<Rightarrow> int" where
  "day_time p = ((wHour p * 60 + wMinute p) * 60 + wSecond p) * 1000 + wMillisecond p"

definition part_time :: "part \<Rightarrow> int" where
  "part_time p = day_number p * 86400000 + day_time p - EPOCH"

definition create_part :: "part \<Rightarrow> date" where
  "create_part p =
     create (wYear p) (wMonth p + 1) (wDay p + 1) (wHour p) (wMinute p) (wSecond p) (wMillisecond p)"

lemma day_time_bounds: "valid_part p \<Longrightarrow> 0 \<le> day_time p \<and> day_time p < 86400000"
  by (auto simp: valid_part_def day_time_def)

lemma day_number_nonneg:
  assumes "valid_part p"
  shows "0 \<le> day_number p"
proof -
  have "days_before 1 = 0" by (simp add: days_before_def)
  then have "0 \<le> days_before (wYear p)"
    using days_before_mono [of 1 "wYear p"] assms by (simp add: valid_part_def)
  then show ?thesis using preceding_bounds(1) [of "wMonth p"] assms by (simp add: day_number_def valid_part_def)
qed

lemma div_day: "0 \<le> t \<Longrightarrow> t < 86400000 \<Longrightarrow> (n * 86400000 + t) div 86400000 = (n :: int)"
  "0 \<le> t \<Longrightarrow> t < 86400000 \<Longrightarrow> (n * 86400000 + t) mod 86400000 = (t :: int)"
  by simp_all

lemma create_valid:
  assumes "valid_part p" "in_range (part_time p)"
  shows "create_part p = Some (part_time p)"
proof -
  note t = day_time_bounds [OF assms(1)] and n = day_number_nonneg [OF assms(1)]
  have "day_number p < 2 ^ 31" using assms(2) t by (simp add: in_range_def part_time_def)
  then have w: "day_number p mod 2 ^ 32 = day_number p" using n by simp
  have s: "to_int32 (day_time p) = day_time p" using t by (intro to_int32_small) auto
  have "ElapsedYearsToDays (wYear p - 1) + DaysPreceding (wYear p) ! nat (wMonth p) + wDay p = day_number p"
    using assms(1) elapsed_days [of "wYear p"] by (simp add: day_number_def valid_part_def)
  with assms(1) w s month_length [of "wMonth p"] show ?thesis
    by (auto simp: create_part_def create_def valid_part_def day_time_def part_time_def EPOCH_def Let_def)
qed

lemma getdate_year:
  "getdate d =
     (let d1 = d + 62135596800000; day = to_int32 (d1 sdiv 86400000); milli = d1 smod 86400000;
          second = milli sdiv 1000; minute = second sdiv 60
      in case year_code day of
           (y, r) \<Rightarrow>
             (case table_at (month_table y) r of
                None \<Rightarrow> None
              | Some m \<Rightarrow>
                  Some \<lparr>wYear = y, wMonth = m, wHour = minute sdiv 60, wMinute = minute smod 60,
                    wSecond = second smod 60, wDayOfWeek = to_int16 ((day + 1) smod 7),
                    wDay = r - DaysPreceding y ! nat m, wMillisecond = milli smod 1000\<rparr>))"
  unfolding getdate_def year_code_def month_table_def Let_def prod.case ..

lemma getdate_valid:
  assumes "in_range d"
  shows "\<exists>p. getdate d = Some p \<and> valid_part p \<and> part_time p = d \<and>
    wDayOfWeek p = ((d + EPOCH) div 86400000 + 1) mod 7"
proof -
  let ?d1 = "d + EPOCH"
  define day milli where "day = ?d1 div 86400000" and "milli = ?d1 mod 86400000"
  have d1: "0 \<le> ?d1" "0 \<le> day" "day < 2 ^ 31" "0 \<le> milli" "milli < 86400000" "?d1 = day * 86400000 + milli"
    using assms by (auto simp: in_range_def day_def milli_def pos_imp_zdiv_nonneg_iff div_less_iff_less_mult)
  obtain y r where y: "year_of day = (y, r)" by fastforce
  note yd = year_of_day [OF d1(2) y]
  obtain m where m: "table_at (month_table y) r = Some m" "0 \<le> m" "m \<le> 11" "DaysPreceding y ! nat m \<le> r"
    "r < DaysPreceding y ! nat (m + 1)" using month_of_day [OF yd(2,3)] by blast
  have dow: "to_int16 ((day + 1) mod 7) = (day + 1) mod 7"
    using pos_mod_bound [of 7 "day + 1"] pos_mod_sign [of 7 "day + 1"] by (simp add: to_int16_def)
  let ?p = "\<lparr>wYear = y, wMonth = m, wHour = milli div 1000 div 60 div 60, wMinute = milli div 1000 div 60 mod 60,
    wSecond = milli div 1000 mod 60, wDayOfWeek = (day + 1) mod 7, wDay = r - DaysPreceding y ! nat m,
    wMillisecond = milli mod 1000\<rparr>"
  have c: "?d1 sdiv 86400000 = day" "?d1 smod 86400000 = milli" "to_int32 day = day"
    "(day + 1) smod 7 = (day + 1) mod 7" "milli sdiv 1000 = milli div 1000" "milli smod 1000 = milli mod 1000"
    "milli div 1000 sdiv 60 = milli div 1000 div 60" "milli div 1000 smod 60 = milli div 1000 mod 60"
    "milli div 1000 div 60 sdiv 60 = milli div 1000 div 60 div 60"
    "milli div 1000 div 60 smod 60 = milli div 1000 div 60 mod 60"
  proof -
    have n: "0 \<le> milli div 1000" "0 \<le> milli div 1000 div 60" "0 \<le> day + 1" "(0 :: int) < 7" "(0 :: int) < 60"
      "(0 :: int) < 1000" "(0 :: int) < 86400000"
      using d1(2,4) by (simp_all add: pos_imp_zdiv_nonneg_iff)
    show "?d1 sdiv 86400000 = day" "?d1 smod 86400000 = milli"
      unfolding day_def milli_def by (simp_all only: sdiv_pos smod_pos d1(1) n)
    show "to_int32 day = day" using d1(2,3) by (intro to_int32_small) auto
    show "(day + 1) smod 7 = (day + 1) mod 7" "milli sdiv 1000 = milli div 1000" "milli smod 1000 = milli mod 1000"
      "milli div 1000 sdiv 60 = milli div 1000 div 60" "milli div 1000 smod 60 = milli div 1000 mod 60"
      "milli div 1000 div 60 sdiv 60 = milli div 1000 div 60 div 60"
      "milli div 1000 div 60 smod 60 = milli div 1000 div 60 mod 60"
      by (simp_all only: sdiv_pos smod_pos d1(4) n)
  qed
  have "getdate d = Some ?p"
    unfolding getdate_year EPOCH_def [symmetric] Let_def c year_of_code [OF d1(2)] y dow
    by (simp only: prod.case m(1) option.case)
  moreover have "valid_part ?p"
  proof -
    have "milli div 1000 div 60 div 60 = milli div 3600000" by (simp add: zdiv_zmult2_eq [symmetric])
    moreover have "0 \<le> milli div 3600000 \<and> milli div 3600000 < 24"
      using div_below [of 3600000 milli 24] d1(4,5) by simp
    ultimately have "0 \<le> milli div 1000 div 60 div 60 \<and> milli div 1000 div 60 div 60 < 24" by simp
    then show ?thesis using yd m(2-5) pos_mod_sign [of 60] pos_mod_bound [of 60] pos_mod_sign [of 1000 milli]
        pos_mod_bound [of 1000 milli]
      unfolding valid_part_def part.simps by auto
  qed
  moreover have "part_time ?p = d"
  proof -
    have "day_time ?p = milli" unfolding day_time_def part.simps by (simp only: div_mult_mod_eq)
    moreover have "day_number ?p = day" using yd(1) by (simp add: day_number_def)
    ultimately show ?thesis using d1(6) by (simp add: part_time_def)
  qed
  moreover have "wDayOfWeek ?p = ((d + EPOCH) div 86400000 + 1) mod 7" by (simp only: part.simps day_def)
  ultimately show ?thesis by blast
qed

text \<open>A time has one set of parts.\<close>

lemma digits_unique:
  assumes "a * k + b = a' * k + b'" "0 \<le> b" "b < k" "0 \<le> b'" "b' < (k :: int)"
  shows "a = a' \<and> b = b'"
proof -
  have "a = (a * k + b) div k" "b = (a * k + b) mod k" using assms(2,3) by simp_all
  moreover have "a' = (a' * k + b') div k" "b' = (a' * k + b') mod k" using assms(4,5) by simp_all
  ultimately show ?thesis using assms(1) by metis
qed

lemma month_unique:
  assumes "0 \<le> m" "m \<le> 11" "0 \<le> n" "n \<le> (11 :: int)"
    "DaysPreceding y ! nat m \<le> d" "d < DaysPreceding y ! nat (m + 1)"
    "DaysPreceding y ! nat n \<le> d" "d < DaysPreceding y ! nat (n + 1)"
  shows "m = n"
  using preceding_mono [of m n y] preceding_mono [of n m y] assms by linarith

lemma parts_unique:
  assumes "valid_part p" "valid_part q" "part_time p = part_time q"
  shows "q\<lparr>wDayOfWeek := wDayOfWeek p\<rparr> = p"
proof -
  have v: "day_number p = day_number q \<and> day_time p = day_time q"
    using digits_unique [of "day_number p" 86400000 "day_time p" "day_number q" "day_time q"]
      day_time_bounds [OF assms(1)] day_time_bounds [OF assms(2)] assms(3) by (simp add: part_time_def)
  have y: "wYear p = wYear q \<and> DaysPreceding (wYear p) ! nat (wMonth p) + wDay p =
      DaysPreceding (wYear q) ! nat (wMonth q) + wDay q"
  proof (rule day_of_year_unique)
    show "days_before (wYear p) + (DaysPreceding (wYear p) ! nat (wMonth p) + wDay p) =
        days_before (wYear q) + (DaysPreceding (wYear q) ! nat (wMonth q) + wDay q)"
      using v by (simp add: day_number_def)
  qed (use assms(1,2) preceding_bounds [of "wMonth p" "wYear p"] preceding_bounds [of "wMonth q" "wYear q"] in
      \<open>auto simp: valid_part_def\<close>)
  then have m: "wMonth p = wMonth q"
    using assms(1,2)
    by (intro month_unique [where y = "wYear q" and d = "DaysPreceding (wYear p) ! nat (wMonth p) + wDay p"])
      (auto simp: valid_part_def)
  have d: "wDay p = wDay q" using conjunct2 [OF y] unfolding conjunct1 [OF y] m by simp
  have t: "(wHour p * 60 + wMinute p) * 60 + wSecond p = (wHour q * 60 + wMinute q) * 60 + wSecond q \<and>
      wMillisecond p = wMillisecond q"
    using v assms(1,2) by (intro digits_unique [of _ 1000]) (auto simp: day_time_def valid_part_def)
  then have s: "wHour p * 60 + wMinute p = wHour q * 60 + wMinute q \<and> wSecond p = wSecond q"
    using assms(1,2) by (intro digits_unique [of _ 60]) (auto simp: valid_part_def)
  then have "wHour p = wHour q \<and> wMinute p = wMinute q"
    using assms(1,2) by (intro digits_unique [of _ 60]) (auto simp: valid_part_def)
  with y m d t s show ?thesis by (cases p, cases q) simp
qed

end
