(* ===== verification/DateText.thy ===== *)
theory DateText
  imports DateSpec HttpSpec
begin

text \<open>
  What the texts of dates are made of, and how the parser takes them apart: two and four digits, the names
  of the months, the masks.
\<close>

section \<open>Digits\<close>

lemma putInt_snoc:
  "0 \<le> v \<Longrightarrow> putInt v (Suc n) = putInt (v div 10) n @ [digit_char (nat (v mod 10))]"
  by (simp add: digit_char_def nat_add_distrib add.commute)

lemma digit_part: "nat (v mod 10) < 10" "int (nat (v mod 10)) = (v :: int) mod 10"
  by (simp_all add: nat_less_iff)

lemma putInt_2:
  assumes "0 \<le> v" "v < 100"
  obtains a b where "a < 10" "b < 10" "putInt v 2 = [digit_char a, digit_char b]" "v = int a * 10 + int b"
proof
  have d: "0 \<le> v div 10 \<and> v div 10 < 10" using div_below [of 10 v 10] assms by simp
  then have m: "v div 10 mod 10 = v div 10" by simp
  show "putInt v 2 = [digit_char (nat (v div 10 mod 10)), digit_char (nat (v mod 10))]"
    unfolding numeral_2_eq_2 putInt_snoc [OF assms(1)] putInt_snoc [OF conjunct1 [OF d]] by simp
  show "nat (v div 10 mod 10) < 10" "nat (v mod 10) < 10" by (rule digit_part)+
  show "v = int (nat (v div 10 mod 10)) * 10 + int (nat (v mod 10))"
    unfolding digit_part(2) using m div_mult_mod_eq [of v 10] by linarith
qed

lemma four: "(v :: int) = v1 * 10 + a \<Longrightarrow> v1 = v2 * 10 + b \<Longrightarrow> v2 = v3 * 10 + c \<Longrightarrow> v = (v3 * 10 + c) * 100 + (b * 10 + a)"
  by simp

lemma putInt_4:
  assumes "0 \<le> v" "v < 10000"
  obtains a b c d where "a < 10" "b < 10" "c < 10" "d < 10"
    "putInt v 4 = [digit_char a, digit_char b, digit_char c, digit_char d]"
    "v = (int a * 10 + int b) * 100 + (int c * 10 + int d)"
proof
  define v1 v2 v3 where "v1 = v div 10" and "v2 = v1 div 10" and "v3 = v2 div 10"
  have b: "0 \<le> v1 \<and> v1 < 1000" "0 \<le> v2 \<and> v2 < 100" "0 \<le> v3 \<and> v3 < 10"
    using div_below [of 10 v 1000] div_below [of 10 v1 100] div_below [of 10 v2 10] assms
    by (simp_all add: v1_def v2_def v3_def)
  have e: "(4 :: nat) = Suc (Suc (Suc (Suc 0)))" by simp
  have m: "v3 mod 10 = v3" using b(3) by simp
  have s: "v = v1 * 10 + v mod 10" "v1 = v2 * 10 + v1 mod 10" "v2 = v3 * 10 + v2 mod 10"
    unfolding v1_def v2_def v3_def by (simp_all only: div_mult_mod_eq)
  show "putInt v 4 = [digit_char (nat (v3 mod 10)), digit_char (nat (v2 mod 10)), digit_char (nat (v1 mod 10)),
      digit_char (nat (v mod 10))]"
    unfolding e putInt_snoc [OF assms(1)] v1_def [symmetric] putInt_snoc [OF conjunct1 [OF b(1)]] v2_def [symmetric]
      putInt_snoc [OF conjunct1 [OF b(2)]] v3_def [symmetric] putInt_snoc [OF conjunct1 [OF b(3)]] by simp
  show "nat (v3 mod 10) < 10" "nat (v2 mod 10) < 10" "nat (v1 mod 10) < 10" "nat (v mod 10) < 10"
    by (rule digit_part)+
  show "v = (int (nat (v3 mod 10)) * 10 + int (nat (v2 mod 10))) * 100 +
      (int (nat (v1 mod 10)) * 10 + int (nat (v mod 10)))"
    unfolding digit_part(2) by (rule four [OF s(1,2)]) (use m s(3) in simp)
qed

lemma low_digit_char: "n < 10 \<Longrightarrow> code (digit_char n) mod 16 = n"
proof -
  assume n: "n < 10"
  then have "(48 + n) mod 16 = n" by presburger
  with n show ?thesis by (simp only: code_digit_char)
qed

lemma digit_not_blank: "n < 10 \<Longrightarrow> \<not> blank (digit_char n) \<and> digit_char n \<noteq> CHR 0x00"
  using code_digit_char [of n] by (auto simp: blank_def qisspace_def)

section \<open>Names\<close>

definition capital :: "char \<Rightarrow> bool" where
  "capital c \<longleftrightarrow> 65 \<le> code c \<and> code c \<le> 90"

definition small :: "char \<Rightarrow> bool" where
  "small c \<longleftrightarrow> 97 \<le> code c \<and> code c \<le> 122"

lemma month_name:
  assumes "0 \<le> m" "m \<le> 11"
  obtains a b c where "table_at szMonth m = Some [a, b, c]" "capital a" "small b" "small c"
    "\<And>r. month_of (a # b # c # r) = m"
proof -
  have "m = 0 \<or> m = 1 \<or> m = 2 \<or> m = 3 \<or> m = 4 \<or> m = 5 \<or> m = 6 \<or> m = 7 \<or> m = 8 \<or> m = 9 \<or> m = 10 \<or> m = 11"
    using assms by presburger
  then have "\<exists>a b c. table_at szMonth m = Some [a, b, c] \<and> capital a \<and> small b \<and> small c \<and>
      (\<forall>r. month_of (a # b # c # r) = m)"
    by (elim disjE) (simp_all add: table_at_def szMonth_def capital_def small_def month_of_def)
  then show thesis using that by blast
qed

lemma day_name:
  assumes "0 \<le> w" "w < 7"
  obtains a b c where "table_at szDays w = Some [a, b, c]" "capital a" "small b" "small c"
proof -
  have "w = 0 \<or> w = 1 \<or> w = 2 \<or> w = 3 \<or> w = 4 \<or> w = 5 \<or> w = 6" using assms by presburger
  then have "\<exists>a b c. table_at szDays w = Some [a, b, c] \<and> capital a \<and> small b \<and> small c"
    by (elim disjE) (simp_all add: table_at_def szDays_def capital_def small_def)
  then show thesis using that by blast
qed

lemma letter_not_blank: "capital c \<or> small c \<Longrightarrow> \<not> qisspace c \<and> c \<noteq> CHR 0x00 \<and> \<not> c_isdigit c"
  by (auto simp: capital_def small_def qisspace_def c_isdigit_def)

section \<open>Masks\<close>

lemma matches_simps:
  "matches str (CHR ''*'' # pat) = True"
  "matches (d # ds) (CHR ''@'' # pat) = (capital d \<and> matches ds pat)"
  "matches (d # ds) (CHR ''$'' # pat) = (small d \<and> matches ds pat)"
  "matches (d # ds) (CHR ''#'' # pat) = (c_isdigit d \<and> matches ds pat)"
  "matches (d # ds) (CHR ''~'' # pat) = ((d = CHR '' '' \<or> c_isdigit d) \<and> matches ds pat)"
  "matches (d # ds) (CHR '' '' # pat) = (d = CHR '' '' \<and> matches ds pat)"
  "matches (d # ds) (CHR '':'' # pat) = (d = CHR '':'' \<and> matches ds pat)"
  "matches (d # ds) (CHR ''-'' # pat) = (d = CHR ''-'' \<and> matches ds pat)"
  by (cases str) (auto simp: matches_def chr0_def capital_def small_def)


section \<open>A date of the protocols\<close>

lemma two_digits_chars:
  assumes "char_at str i = digit_char a" "char_at str (Suc i) = digit_char b" "a < 10" "b < 10"
  shows "two_digits str i = int a * 10 + int b"
  using assms by (simp add: two_digits_def low_digit_def low_digit_char)

lemma two_digits_drop: "two_digits (drop k str) i = two_digits str (k + i)"
  by (auto simp: two_digits_def low_digit_def char_at_def)

lemma month_days:
  assumes "0 \<le> m" "m \<le> (11 :: int)"
  shows "DaysPreceding y ! nat (m + 1) - DaysPreceding y ! nat m \<le> 31"
proof -
  have "m = 0 \<or> m = 1 \<or> m = 2 \<or> m = 3 \<or> m = 4 \<or> m = 5 \<or> m = 6 \<or> m = 7 \<or> m = 8 \<or> m = 9 \<or> m = 10 \<or> m = 11"
    using assms by presburger
  then show ?thesis
    by (auto simp: DaysPreceding_def LeapYearDaysPrecedingMonth_def NormalYearDaysPrecedingMonth_def)
qed

lemma lower_gmt: "lower '' GMT'' = '' gmt''" "lower '' gmt'' = '' gmt''"
  by code_simp+

lemma whole_seconds:
  assumes "valid_part p" "in_range (part_time p)"
  shows "create (wYear p) (wMonth p + 1) (wDay p + 1) (wHour p) (wMinute p) (wSecond p) 0 =
    Some (part_time p - wMillisecond p)"
proof -
  let ?p = "p\<lparr>wMillisecond := 0\<rparr>"
  have v: "valid_part ?p" using assms(1) by (simp add: valid_part_def)
  have t: "part_time ?p = part_time p - wMillisecond p" by (simp add: part_time_def day_number_def day_time_def)
  have "0 \<le> part_time ?p + EPOCH" using day_number_nonneg [OF v] day_time_bounds [OF v] by (simp add: part_time_def)
  with assms t have "in_range (part_time ?p)" by (auto simp: in_range_def valid_part_def)
  from create_valid [OF v this] t show ?thesis by (simp add: create_part_def)
qed

lemma blank_space: "blank (CHR '' '')"
  by (simp add: blank_def qisspace_def)

lemma parse_named_utc:
  assumes "dropWhile (\<lambda>c. c \<noteq> CHR 0x00 \<and> \<not> qisspace c) t = s" "chr0 s \<noteq> CHR 0x00" "dropWhile blank s = r"
    "parse_form r = Some (y, d, drop i r, drop j r, z)" "parse_zone z = (0, False)"
  shows "parse_named to_utc t old = create y (month_of (drop i r) + 1) (d + 1) (two_digits r j)
    (two_digits r (j + 3)) (two_digits r (j + 6)) 0"
  using assms(2,4,5) unfolding parse_named_def Let_def assms(1,3) two_digits_drop
  by (simp add: option.map_ident two_digits_drop)

text \<open>The text \<open>toGMTString\<close> writes, read by the branch for RFC 1123.\<close>

lemma parse_named_gmt:
  assumes "valid_part p" "wYear p \<le> 9999" "0 \<le> wDayOfWeek p" "wDayOfWeek p < 7" "in_range (part_time p)"
  obtains t where "put_gmt p = Some t"
    "date_parse to_utc t old = Some (Some (part_time p - wMillisecond p))"
proof -
  have v: "0 \<le> wDay p + 1" "wDay p + 1 < 100" "0 \<le> wYear p" "wYear p < 10000" "0 \<le> wHour p" "wHour p < 100"
    "0 \<le> wMinute p" "wMinute p < 100" "0 \<le> wSecond p" "wSecond p < 100" "0 \<le> wMonth p" "wMonth p \<le> 11"
    using assms(1,2) month_days [of "wMonth p" "wYear p"] by (auto simp: valid_part_def)
  obtain w1 w2 w3 where w: "table_at szDays (wDayOfWeek p) = Some [w1, w2, w3]" "capital w1" "small w2" "small w3"
    using day_name assms(3,4) by metis
  obtain n1 n2 n3 where n: "table_at szMonth (wMonth p) = Some [n1, n2, n3]" "capital n1" "small n2" "small n3"
    "\<And>r. month_of (n1 # n2 # n3 # r) = wMonth p" using month_name [OF v(11,12)] by metis
  obtain d1 d2 where d: "d1 < 10" "d2 < 10" "putInt (wDay p + 1) 2 = [digit_char d1, digit_char d2]"
    "wDay p + 1 = int d1 * 10 + int d2" using putInt_2 [OF v(1,2)] by metis
  obtain y1 y2 y3 y4 where y: "y1 < 10" "y2 < 10" "y3 < 10" "y4 < 10"
    "putInt (wYear p) 4 = [digit_char y1, digit_char y2, digit_char y3, digit_char y4]"
    "wYear p = (int y1 * 10 + int y2) * 100 + (int y3 * 10 + int y4)" using putInt_4 [OF v(3,4)] by metis
  obtain h1 h2 where h: "h1 < 10" "h2 < 10" "putInt (wHour p) 2 = [digit_char h1, digit_char h2]"
    "wHour p = int h1 * 10 + int h2" using putInt_2 [OF v(5,6)] by metis
  obtain m1 m2 where m: "m1 < 10" "m2 < 10" "putInt (wMinute p) 2 = [digit_char m1, digit_char m2]"
    "wMinute p = int m1 * 10 + int m2" using putInt_2 [OF v(7,8)] by metis
  obtain s1 s2 where s: "s1 < 10" "s2 < 10" "putInt (wSecond p) 2 = [digit_char s1, digit_char s2]"
    "wSecond p = int s1 * 10 + int s2" using putInt_2 [OF v(9,10)] by metis
  let ?z = "'' GMT''"
  let ?r = "[digit_char d1, digit_char d2, CHR '' '', n1, n2, n3, CHR '' '', digit_char y1, digit_char y2,
    digit_char y3, digit_char y4, CHR '' '', digit_char h1, digit_char h2, CHR '':'', digit_char m1, digit_char m2,
    CHR '':'', digit_char s1, digit_char s2] @ ?z"
  let ?t = "[w1, w2, w3, CHR '','', CHR '' ''] @ ?r"
  have t: "put_gmt p = Some ?t" by (simp add: put_gmt_def w(1) n(1) d(3) y(5) h(3) m(3) s(3))
  note digits = d(1,2) y(1-4) h(1,2) m(1,2) s(1,2)
  have "\<not> capital (digit_char d1)" using code_digit_char [OF d(1)] d(1) by (simp add: capital_def)
  then have f: "parse_form ?r = Some (two_digits ?r 7 * 100 + two_digits ?r 9, two_digits ?r 0 - 1, drop 3 ?r,
      drop 12 ?r, drop 20 ?r)"
    using digits n(2-4) by (simp add: parse_form_def matches_simps)
  have r: "two_digits ?r 7 = int y1 * 10 + int y2" "two_digits ?r 9 = int y3 * 10 + int y4"
    "two_digits ?r 0 = int d1 * 10 + int d2" "two_digits ?r 12 = int h1 * 10 + int h2"
    "two_digits ?r (12 + 3) = int m1 * 10 + int m2" "two_digits ?r (12 + 6) = int s1 * 10 + int s2"
    by (rule two_digits_chars; simp add: char_at_def digits)+
  have mon: "month_of (drop 3 ?r) = wMonth p" by (simp add: n(5))
  have z: "parse_zone (drop 20 ?r) = (0, False)"
    using qstricmp_beginning [of "'' gmt''" "'' GMT''"] lower_gmt
    by (simp add: parse_zone_def char_at_def c_isdigit_def lower_def)
  have w': "dropWhile (\<lambda>c. c \<noteq> CHR 0x00 \<and> \<not> qisspace c) ?t = CHR '' '' # ?r"
    using letter_not_blank [of w1] letter_not_blank [of w2] letter_not_blank [of w3] w(2-4)
    by (simp add: qisspace_def [of "CHR '',''"] qisspace_def [of "CHR '' ''"])
  have b: "dropWhile blank (CHR '' '' # ?r) = ?r"
    using digit_not_blank [OF d(1)] blank_space by simp
  have "chr0 (CHR '' '' # ?r) \<noteq> CHR 0x00" by (simp add: chr0_def)
  from parse_named_utc [OF w' this b f z] have "parse_named to_utc ?t old =
      create (wYear p) (wMonth p + 1) (wDay p + 1) (wHour p) (wMinute p) (wSecond p) 0"
    unfolding r mon d(4) [symmetric] y(6) [symmetric] h(4) [symmetric] m(4) [symmetric] s(4) [symmetric]
    by (simp only: diff_add_cancel)
  moreover have "dropWhile blank ?t = ?t" "chr0 ?t \<noteq> CHR 0x00" "\<not> c_isdigit (chr0 ?t)"
    using letter_not_blank [of w1] w(2) by (simp_all add: blank_def chr0_def)
  ultimately have "date_parse to_utc ?t old = Some (Some (part_time p - wMillisecond p))"
    using whole_seconds [OF assms(1,5)] by (simp only: date_parse_def Let_def if_False)
  with t show thesis using that by blast
qed

section \<open>A date of the databases\<close>

lemma to_int16_small [simp]: "- (2 ^ 15) \<le> x \<Longrightarrow> x < 2 ^ 15 \<Longrightarrow> to_int16 x = x"
  by (simp add: to_int16_def)

lemma getInt_digits:
  assumes "r = [] \<or> \<not> c_isdigit (hd r)"
  shows "a < 10 \<Longrightarrow> b < 10 \<Longrightarrow> getInt (digit_char a # digit_char b # r) = (int a * 10 + int b, r)"
    "a < 10 \<Longrightarrow> b < 10 \<Longrightarrow> c < 10 \<Longrightarrow> d < 10 \<Longrightarrow>
      getInt (digit_char a # digit_char b # digit_char c # digit_char d # r) =
        ((int a * 10 + int b) * 100 + (int c * 10 + int d), r)"
  using assms by (cases r; simp add: getInt_def code_digit_char)+

lemma parse_time_text:
  assumes "a < 10" "b < 10" "c < 10" "d < 10"
  shows "parse_time (CHR '':'' # digit_char a # digit_char b # CHR '':'' # digit_char c # digit_char d # []) =
    (int a * 10 + int b, int c * 10 + int d, 0, [])"
proof -
  have "\<not> c_isdigit (CHR '':'')" by (simp add: c_isdigit_def)
  then show ?thesis using assms by (simp add: parse_time_def getInt_digits(1) chr0_def)
qed

lemma parse_numeric_sql:
  assumes "valid_part p" "100 \<le> wYear p" "wYear p \<le> 9999" "in_range (part_time p)"
  obtains t where "put_sql p = Some t"
    "date_parse to_utc t old = Some (Some (to_utc (part_time p - wMillisecond p)))"
proof -
  have v: "0 \<le> wDay p + 1" "wDay p + 1 < 100" "0 \<le> wYear p" "wYear p < 10000" "0 \<le> wHour p" "wHour p < 100"
    "0 \<le> wMinute p" "wMinute p < 100" "0 \<le> wSecond p" "wSecond p < 100" "0 \<le> wMonth p + 1" "wMonth p + 1 < 100"
    "0 \<le> wMonth p" "wMonth p \<le> 11"
    using assms(1-3) month_days [of "wMonth p" "wYear p"] by (auto simp: valid_part_def)
  obtain n1 n2 where n: "n1 < 10" "n2 < 10" "putInt (wMonth p + 1) 2 = [digit_char n1, digit_char n2]"
    "wMonth p + 1 = int n1 * 10 + int n2" using putInt_2 [OF v(11,12)] by metis
  obtain d1 d2 where d: "d1 < 10" "d2 < 10" "putInt (wDay p + 1) 2 = [digit_char d1, digit_char d2]"
    "wDay p + 1 = int d1 * 10 + int d2" using putInt_2 [OF v(1,2)] by metis
  obtain y1 y2 y3 y4 where y: "y1 < 10" "y2 < 10" "y3 < 10" "y4 < 10"
    "putInt (wYear p) 4 = [digit_char y1, digit_char y2, digit_char y3, digit_char y4]"
    "wYear p = (int y1 * 10 + int y2) * 100 + (int y3 * 10 + int y4)" using putInt_4 [OF v(3,4)] by metis
  obtain h1 h2 where h: "h1 < 10" "h2 < 10" "putInt (wHour p) 2 = [digit_char h1, digit_char h2]"
    "wHour p = int h1 * 10 + int h2" using putInt_2 [OF v(5,6)] by metis
  obtain m1 m2 where m: "m1 < 10" "m2 < 10" "putInt (wMinute p) 2 = [digit_char m1, digit_char m2]"
    "wMinute p = int m1 * 10 + int m2" using putInt_2 [OF v(7,8)] by metis
  obtain s1 s2 where s: "s1 < 10" "s2 < 10" "putInt (wSecond p) 2 = [digit_char s1, digit_char s2]"
    "wSecond p = int s1 * 10 + int s2" using putInt_2 [OF v(9,10)] by metis
  let ?m = "CHR '':'' # digit_char m1 # digit_char m2 # CHR '':'' # digit_char s1 # digit_char s2 # []"
  let ?h = "digit_char h1 # digit_char h2 # ?m"
  let ?d = "digit_char d1 # digit_char d2 # CHR '' '' # ?h"
  let ?n = "digit_char n1 # digit_char n2 # CHR ''-'' # ?d"
  let ?t = "digit_char y1 # digit_char y2 # digit_char y3 # digit_char y4 # CHR ''-'' # ?n"
  have t: "put_sql p = Some ?t" by (simp add: put_sql_def n(3) d(3) y(5) h(3) m(3) s(3))
  have nd: "\<not> c_isdigit (CHR ''-'')" "\<not> c_isdigit (CHR '' '')" "\<not> c_isdigit (CHR '':'')"
    by (simp_all add: c_isdigit_def)
  have g: "getInt ?t = (wYear p, CHR ''-'' # ?n)" "getInt ?n = (wMonth p + 1, CHR ''-'' # ?d)"
    "getInt ?d = (wDay p + 1, CHR '' '' # ?h)" "getInt ?h = (wHour p, ?m)"
    using y(1-4) n(1,2) d(1,2) h(1,2) nd by (simp_all add: getInt_digits y(6) n(4) d(4) h(4))
  have tm: "parse_time ?m = (wMinute p, wSecond p, 0, [])"
    using parse_time_text [OF m(1,2) s(1,2)] by (simp only: m(4) s(4))
  obtain k where k: "MaxDaysInMonth (wYear p) (wMonth p) = Some k" "wDay p + 1 \<le> k"
    using assms(1) month_length [of "wMonth p" "wYear p"] by (auto simp: valid_part_def)
  have pd: "parse_date ?t = Some (wYear p, wMonth p, wDay p, True, True, wHour p, ?m)"
    unfolding parse_date_def Let_def g prod.case list.sel
    using v(13,14) assms(2) k by (simp add: chr0_def slash_def g)
  have pm: "qstricmp [] '' pm'' 3 \<noteq> 0" by code_simp
  have "parse_numeric to_utc ?t = Some (map_option to_utc (create (wYear p) (wMonth p + 1) (wDay p + 1) (wHour p)
      (wMinute p) (wSecond p) 0))"
    unfolding parse_numeric_def pd using tm pm assms(2) by simp
  moreover have "dropWhile blank ?t = ?t" "chr0 ?t \<noteq> CHR 0x00" "c_isdigit (chr0 ?t)"
    using digit_not_blank [OF y(1)] y(1) by (simp_all add: chr0_def)
  ultimately have "date_parse to_utc ?t old = Some (Some (to_utc (part_time p - wMillisecond p)))"
    using whole_seconds [OF assms(1,4)] unfolding date_parse_def Let_def by simp
  with t show thesis using that by blast
qed

end
