(* ===== verification/DateProps.thy ===== *)
theory DateProps
  imports DateText
begin

text \<open>
  The properties of dates: the calendar, the texts of HTTP and of the databases read back, and the
  arithmetic of months; and where the parser and the arithmetic go wrong.
\<close>

section \<open>Limits of the years\<close>

lemma year_limits:
  assumes "valid_part p"
  shows "part_time p < 253402300800000 \<Longrightarrow> wYear p \<le> 9999" "-59011459200000 \<le> part_time p \<Longrightarrow> 100 \<le> wYear p"
proof -
  have n: "days_before (wYear p) \<le> day_number p" "day_number p < days_before (wYear p + 1)"
    using assms preceding_bounds [of "wMonth p" "wYear p"]
    by (auto simp: valid_part_def day_number_def days_before_next)
  note t = day_time_bounds [OF assms]
  have c: "days_before 10000 = 3652059" "days_before 100 = 36159" by (simp_all add: days_before_def)
  show "wYear p \<le> 9999" if "part_time p < 253402300800000"
  proof (rule ccontr)
    assume "\<not> wYear p \<le> 9999"
    then have "days_before 10000 \<le> day_number p" using days_before_mono [of 10000 "wYear p"] n(1) by simp
    with that t c(1) show False by (simp add: part_time_def EPOCH_def)
  qed
  show "100 \<le> wYear p" if "-59011459200000 \<le> part_time p"
  proof (rule ccontr)
    assume "\<not> 100 \<le> wYear p"
    then have "day_number p < days_before 100" using days_before_mono [of "wYear p + 1" 100] n(2) by simp
    with that t c(2) show False by (simp add: part_time_def EPOCH_def)
  qed
qed

lemma millisecond_of:
  assumes "valid_part p"
  shows "wMillisecond p = part_time p mod 1000"
proof -
  have "part_time p = wMillisecond p + (day_number p * 86400 + ((wHour p * 60 + wMinute p) * 60 + wSecond p) - 62135596800) * 1000"
    by (simp add: part_time_def day_time_def EPOCH_def)
  then have "part_time p mod 1000 = wMillisecond p mod 1000" by (simp only: mod_mult_self1)
  with assms show ?thesis by (simp add: valid_part_def)
qed

section \<open>Months\<close>







section \<open>Where the code goes wrong\<close>

text \<open>The day of a month that does not exist is looked up before the month is checked.\<close>

lemma parse_reads_outside: "date_parse to_utc ''2001/40000/5'' old = None"
  by code_simp

text \<open>A month back from January is looked up at the index -1.\<close>

lemma add_reads_outside:
  assumes "getdate d = Some p" "wMonth p = 0" "num < 0"
  shows "date_add num MONTH (Some d) = None"
proof -
  have "MaxDaysInMonth y num = None" for y using assms(3) by (simp add: MaxDaysInMonth_def table_at_def split: option.splits)
  then show ?thesis using assms by (simp add: date_add_def add_calendar_def add_months_def Let_def split: option.splits)
qed

text \<open>Noon is twelve hours late.\<close>

lemma noon_is_midnight: "parse_numeric id ''1/1/2001 12:00 pm'' = Some (create 2001 1 1 24 0 0 0)"
proof -
  have "parse_date ''1/1/2001 12:00 pm'' = Some (2001, 0, 0, True, True, 12, '':00 pm'')" by code_simp
  moreover have "parse_time '':00 pm'' = (0, 0, 0, '' pm'')" by code_simp
  moreover have "qstricmp '' pm'' '' pm'' 3 = 0" using qstricmp_beginning [of "'' pm''" "'' pm''"] by simp
  ultimately show ?thesis by (simp add: parse_numeric_def option.map_id0)
qed

text \<open>Half an hour of a zone is counted as thirty hundredths of an hour.\<close>

lemma half_hour_zone: "parse_zone '' GMT+0530'' = (-530, False)" "to_int32 (-530 * 36000) = - ((5 * 60 + 18) * 60 * 1000)"
proof -
  have "c_atoi ''0530'' = 530" by code_simp
  moreover have "qstricmp '' GMT+0530'' '' gmt'' 4 = 0"
    using qstricmp_beginning [of "'' gmt''" "'' GMT+0530''"] lower_gmt by (simp add: lower_def)
  ultimately show "parse_zone '' GMT+0530'' = (-530, False)"
    by (simp add: parse_zone_def char_at_def c_isdigit_def)
  show "to_int32 (-530 * 36000) = - ((5 * 60 + 18) * 60 * 1000)" by simp
qed

text \<open>A year before the first wraps around to a date twelve million years away.\<close>

lemma year_zero_wraps: "create 0 1 1 0 0 0 0 = Some (4294966931 * 86400000 - 62135596800000)"
  by code_simp

section \<open>Properties\<close>



text \<open>
  C37: the text \<open>toGMTString\<close> writes for a date of the years 1 to 9999 is read back by \<open>parse\<close> as the same
  date, to the second, whatever the time zone of the host.
\<close>

theorem gmt_roundtrip:
  assumes "0 \<le> d + EPOCH" "d < 253402300800000"
  shows "\<exists>t. toGMTString (Some d) ret = Some t \<and> date_parse to_utc t old = Some (Some (d - d mod 1000))"
proof -
  have "in_range d" using assms by (simp add: in_range_def EPOCH_def)
  from getdate_valid [OF this] obtain p where p: "getdate d = Some p" "valid_part p" "part_time p = d"
    "wDayOfWeek p = ((d + EPOCH) div 86400000 + 1) mod 7" by blast
  have "0 \<le> wDayOfWeek p" "wDayOfWeek p < 7" unfolding p(4) by simp_all
  with parse_named_gmt [OF p(2) year_limits(1) [OF p(2)]] assms(2) p(3) \<open>in_range d\<close> obtain t where
    "put_gmt p = Some t" "date_parse to_utc t old = Some (Some (d - wMillisecond p))" by metis
  with p(1) millisecond_of [OF p(2)] p(3) show ?thesis by (simp add: toGMTString_def date_text_def)
qed

theorem gmt_roundtrip_witness:
  "\<exists>t. toGMTString (Some 951782400123) [] = Some t \<and> date_parse (\<lambda>t. t - 3600000) t None = Some (Some 951782400000)"
  using gmt_roundtrip [of 951782400123 "[]" "\<lambda>t. t - 3600000" None] by (simp add: EPOCH_def)

text \<open>
  The text \<open>sqlString\<close> writes for a local time of the years 100 to 9999 is read back as the same local
  time, to the second, and converted to UTC.
\<close>

theorem sql_roundtrip:
  assumes "-59011459200000 \<le> to_local d" "to_local d < 253402300800000"
  shows "\<exists>t. sqlString to_local (Some d) ret = Some t \<and>
    date_parse to_utc t old = Some (Some (to_utc (to_local d - to_local d mod 1000)))"
proof -
  have "in_range (to_local d)" using assms by (simp add: in_range_def EPOCH_def)
  from getdate_valid [OF this] obtain p where p: "getdate (to_local d) = Some p" "valid_part p" "part_time p = to_local d"
    by blast
  with parse_numeric_sql [OF p(2) year_limits(2,1) [OF p(2)]] assms \<open>in_range (to_local d)\<close> obtain t where
    "put_sql p = Some t" "date_parse to_utc t old = Some (Some (to_utc (to_local d - wMillisecond p)))" by metis
  with p(1) millisecond_of [OF p(2)] p(3) show ?thesis by (simp add: sqlString_def date_text_def)
qed

theorem sql_roundtrip_witness:
  "\<exists>t. sqlString (\<lambda>t. t + 3600000) (Some 951782400123) [] = Some t \<and>
     date_parse (\<lambda>t. t - 3600000) t None = Some (Some 951782400000)"
  using sql_roundtrip [of "\<lambda>t. t + 3600000" 951782400123 "[]" "\<lambda>t. t - 3600000" None] by simp



end
