(* ===== verification/DateCache.thy ===== *)
theory DateCache
  imports DateSpec
begin

text \<open>
  \<^verbatim>\<open>src/base/date_cache.cpp\<close> on a POSIX host: the conversions between UTC and local time, with the cache of
  segments of time in which the daylight saving offset does not change. The functions of the host are
  arguments: \<open>isdst\<close>, the field \<open>tm_isdst\<close> of \<open>localtime\<close> at a second, and the pair of \<open>tm_gmtoff\<close> and
  \<open>tm_isdst\<close> now. The pointers \<open>before_\<close> and \<open>after_\<close> are indices of the array.
\<close>

section \<open>State\<close>

record dst =
  start_sec :: int
  end_sec :: int
  offset_ms :: int
  last_used :: int

record date_cache =
  dst_segments :: "dst list"
  usage_counter :: int
  before_segment :: nat
  after_segment :: nat
  local_offset_ms :: int
  ymd_valid :: bool
  ymd_days :: int
  ymd_year :: int
  ymd_month :: int
  ymd_day :: int

definition kMaxInt :: int where
  "kMaxInt = 2147483647"

definition kSecPerDay :: int where
  "kSecPerDay = 24 * 60 * 60"

definition kMsPerDay :: int where
  "kMsPerDay = kSecPerDay * 1000"

definition kDefaultDSTDeltaInSec :: int where
  "kDefaultDSTDeltaInSec = 19 * kSecPerDay"

definition kDSTSize :: nat where
  "kDSTSize = 32"

section \<open>The host\<close>

definition os_offset :: "(int \<Rightarrow> int) \<Rightarrow> int \<Rightarrow> int" where
  "os_offset isdst time_sec = (if isdst time_sec > 0 then 3600 * 1000 else 0)"

definition os_local_offset :: "int \<times> int \<Rightarrow> int" where
  "os_local_offset now = fst now * 1000 - (if snd now > 0 then 3600 * 1000 else 0)"

section \<open>Segments\<close>

definition ClearSegment :: "dst \<Rightarrow> dst" where
  "ClearSegment s = s\<lparr>start_sec := kMaxInt, end_sec := - kMaxInt, offset_ms := 0, last_used := 0\<rparr>"

definition InvalidSegment :: "dst \<Rightarrow> bool" where
  "InvalidSegment s \<longleftrightarrow> start_sec s > end_sec s"

definition segment :: "nat \<Rightarrow> date_cache \<Rightarrow> dst" where
  "segment i c = dst_segments c ! i"

definition update_segment :: "nat \<Rightarrow> (dst \<Rightarrow> dst) \<Rightarrow> date_cache \<Rightarrow> date_cache" where
  "update_segment i f c = c\<lparr>dst_segments := (dst_segments c)[i := f (segment i c)]\<rparr>"

definition ResetDateCache :: "date_cache \<Rightarrow> date_cache" where
  "ResetDateCache c =
     c\<lparr>dst_segments := map ClearSegment (dst_segments c), usage_counter := 0, before_segment := 0, after_segment := 1,
       local_offset_ms := kMaxInt, ymd_valid := False\<rparr>"

text \<open>The fields the constructor does not set, but for those \<open>ResetDateCache\<close> gives a value, are taken as 0.\<close>

definition new_DateCache :: date_cache where
  "new_DateCache =
     ResetDateCache \<lparr>dst_segments = replicate kDSTSize \<lparr>start_sec = 0, end_sec = 0, offset_ms = 0, last_used = 0\<rparr>,
       usage_counter = 0, before_segment = 0, after_segment = 0, local_offset_ms = 0, ymd_valid = False, ymd_days = 0,
       ymd_year = 0, ymd_month = 0, ymd_day = 0\<rparr>"

text \<open>\<open>last_used = ++dst_usage_counter_\<close>\<close>

definition use_segment :: "nat \<Rightarrow> date_cache \<Rightarrow> date_cache" where
  "use_segment i c =
     (let n = usage_counter c + 1 in update_segment i (\<lambda>s. s\<lparr>last_used := n\<rparr>) (c\<lparr>usage_counter := n\<rparr>))"

definition swap_segments :: "date_cache \<Rightarrow> date_cache" where
  "swap_segments c = c\<lparr>before_segment := after_segment c, after_segment := before_segment c\<rparr>"

definition lru_step :: "nat option \<Rightarrow> dst list \<Rightarrow> nat option \<Rightarrow> nat \<Rightarrow> nat option" where
  "lru_step skip ds result i =
     (if skip = Some i then result
      else
        (case result of
           None \<Rightarrow> Some i
         | Some r \<Rightarrow> if last_used (ds ! r) > last_used (ds ! i) then Some i else Some r))"

definition LeastRecentlyUsedDST :: "nat option \<Rightarrow> date_cache \<Rightarrow> nat \<times> date_cache" where
  "LeastRecentlyUsedDST skip c =
     (case foldl (lru_step skip (dst_segments c)) None [0..<kDSTSize] of
        Some r \<Rightarrow> (r, update_segment r ClearSegment c)
      | None \<Rightarrow> (0, c))"

definition probe_step :: "int \<Rightarrow> dst list \<Rightarrow> nat option \<times> nat option \<Rightarrow> nat \<Rightarrow> nat option \<times> nat option" where
  "probe_step time_sec ds ba i =
     (case ba of
        (before, after) \<Rightarrow>
          if start_sec (ds ! i) \<le> time_sec then
            (if (case before of None \<Rightarrow> True | Some b \<Rightarrow> start_sec (ds ! b) < start_sec (ds ! i)) then (Some i, after)
             else (before, after))
          else if time_sec < end_sec (ds ! i) then
            (if (case after of None \<Rightarrow> True | Some a \<Rightarrow> end_sec (ds ! a) > end_sec (ds ! i)) then (before, Some i)
             else (before, after))
          else (before, after))"

definition ProbeDST :: "int \<Rightarrow> date_cache \<Rightarrow> date_cache" where
  "ProbeDST time_sec c =
     (let (before, after) = foldl (probe_step time_sec (dst_segments c)) (None, None) [0..<kDSTSize];
          (b, c) = (case before of
                      Some b \<Rightarrow> (b, c)
                    | None \<Rightarrow> if InvalidSegment (segment (before_segment c) c) then (before_segment c, c)
                             else LeastRecentlyUsedDST after c);
          (a, c) = (case after of
                      Some a \<Rightarrow> (a, c)
                    | None \<Rightarrow> if InvalidSegment (segment (after_segment c) c) \<and> b \<noteq> after_segment c then (after_segment c, c)
                             else LeastRecentlyUsedDST (Some b) c)
      in c\<lparr>before_segment := b, after_segment := a\<rparr>)"

text \<open>The sum is an \<open>int\<close> that wraps around close to the last second.\<close>

definition ExtendTheAfterSegment :: "int \<Rightarrow> int \<Rightarrow> date_cache \<Rightarrow> date_cache" where
  "ExtendTheAfterSegment time_sec off c =
     (let a = segment (after_segment c) c
      in if offset_ms a = off \<and> start_sec a \<le> to_int32 (time_sec + kDefaultDSTDeltaInSec) \<and> time_sec \<le> end_sec a
         then update_segment (after_segment c) (\<lambda>s. s\<lparr>start_sec := time_sec\<rparr>) c
         else
           (let c = (if start_sec a \<le> end_sec a
                     then (case LeastRecentlyUsedDST (Some (before_segment c)) c of (r, c) \<Rightarrow> c\<lparr>after_segment := r\<rparr>) else c)
            in use_segment (after_segment c)
                 (update_segment (after_segment c) (\<lambda>s. s\<lparr>start_sec := time_sec, end_sec := time_sec, offset_ms := off\<rparr>) c)))"

section \<open>The daylight saving offset\<close>

text \<open>The search for the change between the two segments; the first argument is \<open>i + 1\<close>.\<close>

fun search_change :: "(int \<Rightarrow> int) \<Rightarrow> nat \<Rightarrow> int \<Rightarrow> date_cache \<Rightarrow> int \<times> date_cache" where
  "search_change isdst 0 time_sec c = (0, c)"
| "search_change isdst (Suc i) time_sec c =
     (let b = segment (before_segment c) c; a = segment (after_segment c) c;
          delta = start_sec a - end_sec b;
          middle_sec = (if i = 0 then time_sec else end_sec b + delta sdiv 2);
          off = os_offset isdst middle_sec
      in if offset_ms b = off then
           (let c = update_segment (before_segment c) (\<lambda>s. s\<lparr>end_sec := middle_sec\<rparr>) c
            in if time_sec \<le> middle_sec then (off, c) else search_change isdst i time_sec c)
         else
           (let c = update_segment (after_segment c) (\<lambda>s. s\<lparr>start_sec := middle_sec\<rparr>) c
            in if time_sec \<ge> middle_sec then (off, swap_segments c) else search_change isdst i time_sec c))"

definition forget_segments :: "date_cache \<Rightarrow> date_cache" where
  "forget_segments c =
     (if usage_counter c \<ge> kMaxInt - 10
      then c\<lparr>usage_counter := 0, dst_segments := map ClearSegment (dst_segments c)\<rparr> else c)"

text \<open>After the probe.\<close>

definition offset_between :: "(int \<Rightarrow> int) \<Rightarrow> int \<Rightarrow> date_cache \<Rightarrow> int \<times> date_cache" where
  "offset_between isdst time_sec c =
     (let c = use_segment (before_segment c) c;
          new_start = to_int32 (end_sec (segment (before_segment c) c) + kDefaultDSTDeltaInSec);
          c = (if new_start \<le> start_sec (segment (after_segment c) c)
               then ExtendTheAfterSegment new_start (os_offset isdst new_start) c
               else use_segment (after_segment c) c);
          b = segment (before_segment c) c; a = segment (after_segment c) c
      in if offset_ms b = offset_ms a then
           (offset_ms b,
            update_segment (after_segment c) ClearSegment (update_segment (before_segment c) (\<lambda>s. s\<lparr>end_sec := end_sec a\<rparr>) c))
         else search_change isdst 5 time_sec c)"

definition offset_at :: "(int \<Rightarrow> int) \<Rightarrow> int \<Rightarrow> date_cache \<Rightarrow> int \<times> date_cache" where
  "offset_at isdst time_sec c =
     (let c = forget_segments c; b = segment (before_segment c) c
      in if start_sec b \<le> time_sec \<and> time_sec \<le> end_sec b then (offset_ms b, use_segment (before_segment c) c)
         else
           (let c = ProbeDST time_sec c; b = segment (before_segment c) c
            in if InvalidSegment b then
                 (let off = os_offset isdst time_sec
                  in (off, use_segment (before_segment c)
                             (update_segment (before_segment c)
                                (\<lambda>s. s\<lparr>start_sec := time_sec, end_sec := time_sec, offset_ms := off\<rparr>) c)))
               else if time_sec \<le> end_sec b then (offset_ms b, use_segment (before_segment c) c)
               else if time_sec > to_int32 (end_sec b + kDefaultDSTDeltaInSec) then
                 (let off = os_offset isdst time_sec in (off, swap_segments (ExtendTheAfterSegment time_sec off c)))
               else offset_between isdst time_sec c))"

section \<open>Years, months and days\<close>

definition kMaxEpochTimeInMs :: int where
  "kMaxEpochTimeInMs = kMaxInt * 1000"

definition kDaysIn4Years :: int where
  "kDaysIn4Years = 4 * 365 + 1"

definition kDaysIn100Years :: int where
  "kDaysIn100Years = 25 * kDaysIn4Years - 1"

definition kDaysIn400Years :: int where
  "kDaysIn400Years = 4 * kDaysIn100Years + 1"

definition kDays1970to2000 :: int where
  "kDays1970to2000 = 30 * 365 + 7"

definition kDaysOffset :: int where
  "kDaysOffset = 1000 * kDaysIn400Years + 5 * kDaysIn400Years - kDays1970to2000"

definition kYearsOffset :: int where
  "kYearsOffset = 400000"

definition kDaysInMonths :: "int list" where
  "kDaysInMonths = [31, 28, 31, 30, 31, 30, 31, 31, 30, 31, 30, 31]"

definition DaysFromTime :: "int \<Rightarrow> int" where
  "DaysFromTime time_ms = (if time_ms < 0 then time_ms - (kMsPerDay - 1) else time_ms) sdiv kMsPerDay"

definition TimeInDay :: "int \<Rightarrow> int \<Rightarrow> int" where
  "TimeInDay time_ms days = time_ms - days * kMsPerDay"

definition Weekday :: "int \<Rightarrow> int" where
  "Weekday days = (let result = (days + 4) smod 7 in if result \<ge> 0 then result else result + 7)"

text \<open>The months from March on.\<close>

fun month_from :: "int list \<Rightarrow> int \<Rightarrow> int \<Rightarrow> (int \<times> int) option" where
  "month_from [] i days = None"
| "month_from (n # ns) i days = (if days < n then Some (i, days + 1) else month_from ns (i + 1) (days - n))"

text \<open>No month is found only when the days exceed the year; the results are then not set.\<close>

definition ymd_of_days :: "int \<Rightarrow> int \<times> (int \<times> int) option" where
  "ymd_of_days days =
     (let days = days + kDaysOffset;
          year = 400 * (days sdiv kDaysIn400Years) - kYearsOffset;
          days = days smod kDaysIn400Years - 1;
          yd1 = days sdiv kDaysIn100Years; days = days smod kDaysIn100Years; year = year + 100 * yd1;
          days = days + 1;
          yd2 = days sdiv kDaysIn4Years; days = days smod kDaysIn4Years; year = year + 4 * yd2;
          days = days - 1;
          yd3 = days sdiv 365; days = days smod 365; year = year + yd3;
          is_leap = ((yd1 = 0 \<or> yd2 \<noteq> 0) \<and> yd3 = 0);
          days = days + (if is_leap then 1 else 0);
          feb = 31 + 28 + (if is_leap then 1 else 0)
      in (year,
          if days \<ge> feb then month_from (drop 2 kDaysInMonths) 2 (days - feb)
          else if days < 31 then Some (0, days + 1)
          else Some (1, days - 31 + 1)))"

definition YearMonthDayFromDays :: "int \<Rightarrow> date_cache \<Rightarrow> (int \<times> int \<times> int) option \<times> date_cache" where
  "YearMonthDayFromDays days c =
     (let new_day = ymd_day c + (days - ymd_days c)
      in if ymd_valid c \<and> new_day \<ge> 1 \<and> new_day \<le> 28
         then (Some (ymd_year c, ymd_month c, new_day), c\<lparr>ymd_day := new_day, ymd_days := days\<rparr>)
         else
           (case ymd_of_days days of
              (year, None) \<Rightarrow> (None, c)
            | (year, Some (month, day)) \<Rightarrow>
                (Some (year, month, day),
                 c\<lparr>ymd_valid := True, ymd_year := year, ymd_month := month, ymd_day := day, ymd_days := days\<rparr>)))"

definition day_from_month :: "int list" where
  "day_from_month = [0, 31, 59, 90, 120, 151, 181, 212, 243, 273, 304, 334]"

definition day_from_month_leap :: "int list" where
  "day_from_month_leap = [0, 31, 60, 91, 121, 152, 182, 213, 244, 274, 305, 335]"

definition DaysFromYearMonth :: "int \<Rightarrow> int \<Rightarrow> int" where
  "DaysFromYearMonth year month =
     (let year = year + month sdiv 12; month = month smod 12;
          (year, month) = (if month < 0 then (year - 1, month + 12) else (year, month));
          year_delta = 399999;
          base_day = 365 * (1970 + year_delta) + (1970 + year_delta) sdiv 4 - (1970 + year_delta) sdiv 100 +
            (1970 + year_delta) sdiv 400;
          year1 = year + year_delta;
          day_from_year = 365 * year1 + year1 sdiv 4 - year1 sdiv 100 + year1 sdiv 400 - base_day
      in if year mod 4 \<noteq> 0 \<or> year mod 100 = 0 \<and> year mod 400 \<noteq> 0
         then day_from_year + day_from_month ! nat month
         else day_from_year + day_from_month_leap ! nat month)"

definition IsLeap :: "int \<Rightarrow> bool" where
  "IsLeap year \<longleftrightarrow> year mod 4 = 0 \<and> (year mod 100 \<noteq> 0 \<or> year mod 400 = 0)"

definition EquivalentYear :: "int \<Rightarrow> int" where
  "EquivalentYear year =
     (let week_day = Weekday (DaysFromYearMonth year 0);
          recent_year = (if IsLeap year then 1956 else 1967) + (week_day * 12) smod 28
      in 2008 + (recent_year + 3 * 28 - 2008) smod 28)"

definition EquivalentTime :: "int \<Rightarrow> date_cache \<Rightarrow> int option \<times> date_cache" where
  "EquivalentTime time_ms c =
     (let days = DaysFromTime time_ms; time_within_day_ms = time_ms - days * kMsPerDay
      in case YearMonthDayFromDays days c of
           (None, c) \<Rightarrow> (None, c)
         | (Some (year, month, day), c) \<Rightarrow>
             (let new_days = DaysFromYearMonth (EquivalentYear year) month + day - 1
              in (Some (new_days * kMsPerDay + time_within_day_ms), c)))"

definition BreakDownTime :: "int \<Rightarrow> date_cache \<Rightarrow> (int \<times> int \<times> int \<times> int \<times> int \<times> int \<times> int \<times> int) option \<times> date_cache" where
  "BreakDownTime time_ms c =
     (let days = DaysFromTime time_ms; time_in_day_ms = TimeInDay time_ms days
      in case YearMonthDayFromDays days c of
           (None, c) \<Rightarrow> (None, c)
         | (Some (year, month, day), c) \<Rightarrow>
             (Some (year, month, day, Weekday days, time_in_day_ms sdiv (60 * 60 * 1000),
                    time_in_day_ms sdiv (60 * 1000) smod 60, time_in_day_ms sdiv 1000 smod 60, time_in_day_ms smod 1000), c))"

section \<open>The conversions\<close>

definition DaylightSavingsOffsetInMs :: "(int \<Rightarrow> int) \<Rightarrow> int \<Rightarrow> date_cache \<Rightarrow> int option \<times> date_cache" where
  "DaylightSavingsOffsetInMs isdst time_ms c =
     (if 0 \<le> time_ms \<and> time_ms \<le> kMaxEpochTimeInMs
      then (case offset_at isdst (time_ms sdiv 1000) c of (off, c) \<Rightarrow> (Some off, c))
      else
        (case EquivalentTime time_ms c of
           (None, c) \<Rightarrow> (None, c)
         | (Some t, c) \<Rightarrow> (case offset_at isdst (t sdiv 1000) c of (off, c) \<Rightarrow> (Some off, c))))"

definition LocalOffsetInMs :: "int \<times> int \<Rightarrow> date_cache \<Rightarrow> int \<times> date_cache" where
  "LocalOffsetInMs now c =
     (let c = (if local_offset_ms c = kMaxInt then c\<lparr>local_offset_ms := os_local_offset now\<rparr> else c)
      in (local_offset_ms c, c))"

definition ToLocal :: "(int \<Rightarrow> int) \<Rightarrow> int \<times> int \<Rightarrow> int \<Rightarrow> date_cache \<Rightarrow> int option \<times> date_cache" where
  "ToLocal isdst now time_ms c =
     (case LocalOffsetInMs now c of
        (l, c) \<Rightarrow>
          (case DaylightSavingsOffsetInMs isdst time_ms c of (off, c) \<Rightarrow> (map_option (\<lambda>off. time_ms + l + off) off, c)))"

definition ToUTC :: "(int \<Rightarrow> int) \<Rightarrow> int \<times> int \<Rightarrow> int \<Rightarrow> date_cache \<Rightarrow> int option \<times> date_cache" where
  "ToUTC isdst now time_ms c =
     (case LocalOffsetInMs now c of
        (l, c) \<Rightarrow>
          (case DaylightSavingsOffsetInMs isdst (time_ms - l - 3600 * 1000) c of
             (off, c) \<Rightarrow> (map_option (\<lambda>off. time_ms - l - off) off, c)))"

definition TimezoneOffset :: "(int \<Rightarrow> int) \<Rightarrow> int \<times> int \<Rightarrow> int \<Rightarrow> date_cache \<Rightarrow> int option \<times> date_cache" where
  "TimezoneOffset isdst now time_ms c =
     (case ToLocal isdst now time_ms c of
        (t, c) \<Rightarrow> (map_option (\<lambda>t. (time_ms - t) sdiv (60 * 1000)) t, c))"

definition LocalOffset :: "int \<times> int \<Rightarrow> int" where
  "LocalOffset now = os_local_offset now sdiv 36000"

end
