(* ===== verification/DateCacheSpec.thy ===== *)
theory DateCacheSpec
  imports DateCache
begin

text \<open>
  The cache of daylight saving offsets is transparent: on a host whose offset changes at most once in 19
  days, every segment of the cache gives what the host gives, and so does every lookup.
\<close>

section \<open>The invariant\<close>

definition host_ok :: "(int \<Rightarrow> int) \<Rightarrow> bool" where
  "host_ok isdst \<longleftrightarrow>
     (\<forall>a t b. 0 \<le> a \<and> a \<le> t \<and> t \<le> b \<and> b \<le> kMaxInt \<and> b \<le> a + kDefaultDSTDeltaInSec \<and>
        os_offset isdst a = os_offset isdst b \<longrightarrow> os_offset isdst t = os_offset isdst a)"

definition good_segment :: "(int \<Rightarrow> int) \<Rightarrow> dst \<Rightarrow> bool" where
  "good_segment isdst s \<longleftrightarrow>
     (if InvalidSegment s then start_sec s = kMaxInt \<and> end_sec s = - kMaxInt
      else 0 \<le> start_sec s \<and> end_sec s \<le> kMaxInt \<and>
        (\<forall>t. start_sec s \<le> t \<and> t \<le> end_sec s \<longrightarrow> os_offset isdst t = offset_ms s))"

definition cache_ok :: "(int \<Rightarrow> int) \<Rightarrow> date_cache \<Rightarrow> bool" where
  "cache_ok isdst c \<longleftrightarrow>
     length (dst_segments c) = kDSTSize \<and> before_segment c < kDSTSize \<and> after_segment c < kDSTSize \<and>
     before_segment c \<noteq> after_segment c \<and> (\<forall>i < kDSTSize. good_segment isdst (segment i c))"

lemma kMaxInt_pos [simp]: "0 < kMaxInt" "0 \<le> kMaxInt" "- kMaxInt < kMaxInt"
  by (simp_all add: kMaxInt_def)

lemma delta_pos [simp]: "0 < kDefaultDSTDeltaInSec" "0 \<le> kDefaultDSTDeltaInSec"
  by (simp_all add: kDefaultDSTDeltaInSec_def kSecPerDay_def)

lemma clear_good [simp]: "good_segment isdst (ClearSegment s)" "InvalidSegment (ClearSegment s)"
  by (simp_all add: good_segment_def InvalidSegment_def ClearSegment_def)

lemma good_last_used [simp]: "good_segment isdst (s\<lparr>last_used := n\<rparr>) = good_segment isdst s"
  by (simp add: good_segment_def InvalidSegment_def)

lemma good_offset: "good_segment isdst s \<Longrightarrow> start_sec s \<le> t \<Longrightarrow> t \<le> end_sec s \<Longrightarrow> os_offset isdst t = offset_ms s"
  by (auto simp: good_segment_def InvalidSegment_def)

lemma good_point: "0 \<le> t \<Longrightarrow> t \<le> kMaxInt \<Longrightarrow>
    good_segment isdst (s\<lparr>start_sec := t, end_sec := t, offset_ms := os_offset isdst t\<rparr>)"
  by (auto simp: good_segment_def InvalidSegment_def)

text \<open>Two values, so what is not the one is the other.\<close>

lemma os_two: "os_offset isdst a \<noteq> os_offset isdst b \<Longrightarrow> os_offset isdst m \<noteq> os_offset isdst b \<Longrightarrow>
    os_offset isdst m = os_offset isdst a"
  by (auto simp: os_offset_def split: if_splits)

lemma to_int32_below: "0 \<le> x \<Longrightarrow> to_int32 x \<le> x"
proof -
  assume "0 \<le> x"
  then have "(x + 2 ^ 31) mod 2 ^ 32 \<le> x + 2 ^ 31" by (intro zmod_le_nonneg_dividend) simp
  then show ?thesis by (simp add: to_int32_def)
qed

section \<open>Segments of the array\<close>

lemma segment_update [simp]:
  "i < length (dst_segments c) \<Longrightarrow> segment j (update_segment i f c) = (if j = i then f (segment i c) else segment j c)"
  by (simp add: segment_def update_segment_def)

lemma update_fields [simp]:
  "length (dst_segments (update_segment i f c)) = length (dst_segments c)"
  "before_segment (update_segment i f c) = before_segment c" "after_segment (update_segment i f c) = after_segment c"
  "usage_counter (update_segment i f c) = usage_counter c" "local_offset_ms (update_segment i f c) = local_offset_ms c"
  "ymd_valid (update_segment i f c) = ymd_valid c" "ymd_days (update_segment i f c) = ymd_days c"
  "ymd_year (update_segment i f c) = ymd_year c" "ymd_month (update_segment i f c) = ymd_month c"
  "ymd_day (update_segment i f c) = ymd_day c"
  by (simp_all add: update_segment_def)

lemma segment_fields [simp]:
  "segment j (c\<lparr>usage_counter := n\<rparr>) = segment j c" "segment j (c\<lparr>before_segment := b\<rparr>) = segment j c"
  "segment j (c\<lparr>after_segment := a\<rparr>) = segment j c"
  by (simp_all add: segment_def)

lemma use_fields [simp]:
  "length (dst_segments (use_segment i c)) = length (dst_segments c)"
  "before_segment (use_segment i c) = before_segment c" "after_segment (use_segment i c) = after_segment c"
  by (simp_all add: use_segment_def Let_def)

lemma segment_use:
  assumes "i < length (dst_segments c)"
  shows "start_sec (segment j (use_segment i c)) = start_sec (segment j c)"
    "end_sec (segment j (use_segment i c)) = end_sec (segment j c)"
    "offset_ms (segment j (use_segment i c)) = offset_ms (segment j c)"
    "InvalidSegment (segment j (use_segment i c)) = InvalidSegment (segment j c)"
    "good_segment isdst (segment j (use_segment i c)) = good_segment isdst (segment j c)"
  using assms by (auto simp: use_segment_def Let_def InvalidSegment_def)

lemma cache_okD:
  assumes "cache_ok isdst c"
  shows "length (dst_segments c) = kDSTSize" "before_segment c < kDSTSize" "after_segment c < kDSTSize"
    "before_segment c < length (dst_segments c)" "after_segment c < length (dst_segments c)"
    "before_segment c \<noteq> after_segment c" "\<And>i. i < kDSTSize \<Longrightarrow> good_segment isdst (segment i c)"
  using assms by (auto simp: cache_ok_def)

lemma ok_update:
  assumes "cache_ok isdst c" "i < kDSTSize" "good_segment isdst (f (segment i c))"
  shows "cache_ok isdst (update_segment i f c)"
  using assms by (auto simp: cache_ok_def)

lemma ok_use: "cache_ok isdst c \<Longrightarrow> i < kDSTSize \<Longrightarrow> cache_ok isdst (use_segment i c)"
  by (auto simp: cache_ok_def segment_use)

lemma ok_swap: "cache_ok isdst c \<Longrightarrow> cache_ok isdst (swap_segments c)"
  by (auto simp: cache_ok_def swap_segments_def segment_def)

lemma ok_forget: "cache_ok isdst c \<Longrightarrow> cache_ok isdst (forget_segments c)"
  by (auto simp: cache_ok_def forget_segments_def segment_def)

section \<open>The least recently used segment\<close>

lemma lru_step_some:
  assumes "\<And>r. acc = Some r \<Longrightarrow> P r" "skip \<noteq> Some i \<Longrightarrow> P i"
  shows "lru_step skip ds acc i = Some r \<Longrightarrow> P r"
    "acc \<noteq> None \<or> skip \<noteq> Some i \<Longrightarrow> lru_step skip ds acc i \<noteq> None"
  using assms unfolding lru_step_def by (cases acc; cases "skip = Some i"; simp split: if_splits)+

lemma lru_fold:
  "(\<And>r. acc = Some r \<Longrightarrow> P r) \<Longrightarrow> (\<And>i. i \<in> set is \<Longrightarrow> skip \<noteq> Some i \<Longrightarrow> P i) \<Longrightarrow>
   foldl (lru_step skip ds) acc is = Some r \<Longrightarrow> P r"
proof (induction "is" arbitrary: acc)
  case (Cons i "is")
  have "P r" if "lru_step skip ds acc i = Some r" for r
    using lru_step_some(1) [of acc P skip i ds r] Cons.prems(1,2) that by simp
  from Cons.IH [OF this] Cons.prems(2,3) show ?case by simp
qed simp

lemma lru_fold_some:
  "acc \<noteq> None \<or> (\<exists>i \<in> set is. skip \<noteq> Some i) \<Longrightarrow> foldl (lru_step skip ds) acc is \<noteq> None"
proof (induction "is" arbitrary: acc)
  case (Cons i "is")
  have "lru_step skip ds acc i \<noteq> None" if "acc \<noteq> None \<or> skip \<noteq> Some i"
    using lru_step_some(2) [of acc "\<lambda>_. True"] that by blast
  moreover have "acc \<noteq> None \<or> skip \<noteq> Some i \<or> (\<exists>j \<in> set is. skip \<noteq> Some j)" using Cons.prems by auto
  ultimately have "lru_step skip ds acc i \<noteq> None \<or> (\<exists>j \<in> set is. skip \<noteq> Some j)" by blast
  from Cons.IH [OF this] show ?case by simp
qed simp

lemma lru_spec:
  assumes "cache_ok isdst c"
  obtains r where "LeastRecentlyUsedDST skip c = (r, update_segment r ClearSegment c)" "r < kDSTSize" "skip \<noteq> Some r"
proof -
  let ?f = "foldl (lru_step skip (dst_segments c)) None [0..<kDSTSize]"
  have "\<exists>i \<in> set [0..<kDSTSize]. skip \<noteq> Some i"
  proof (cases "skip = Some 0")
    case True
    then show ?thesis by (intro bexI [of _ 1]) (simp_all add: kDSTSize_def)
  next
    case False
    then show ?thesis by (intro bexI [of _ 0]) (simp_all add: kDSTSize_def)
  qed
  then obtain r where r: "?f = Some r" using lru_fold_some [of None] by blast
  moreover have "r < kDSTSize \<and> skip \<noteq> Some r"
    using lru_fold [of None "\<lambda>r. r < kDSTSize \<and> skip \<noteq> Some r", OF _ _ r] by simp
  ultimately show thesis using that by (simp add: LeastRecentlyUsedDST_def)
qed

section \<open>The probe\<close>

definition probe_ok :: "int \<Rightarrow> dst list \<Rightarrow> nat option \<times> nat option \<Rightarrow> bool" where
  "probe_ok t ds ba \<longleftrightarrow>
     (\<forall>b. fst ba = Some b \<longrightarrow> b < kDSTSize \<and> start_sec (ds ! b) \<le> t) \<and>
     (\<forall>a. snd ba = Some a \<longrightarrow> a < kDSTSize \<and> t < start_sec (ds ! a) \<and> t < end_sec (ds ! a))"

lemma probe_step_ok:
  assumes "probe_ok t ds ba" "i < kDSTSize"
  shows "probe_ok t ds (probe_step t ds ba i)"
proof -
  obtain b a where ba: "ba = (b, a)" by fastforce
  from assms show ?thesis
    unfolding ba probe_step_def prod.case by (simp add: probe_ok_def not_le)
qed

lemma probe_fold: "probe_ok t ds ba \<Longrightarrow> \<forall>i \<in> set is. i < kDSTSize \<Longrightarrow> probe_ok t ds (foldl (probe_step t ds) ba is)"
  by (induction "is" arbitrary: ba) (simp_all add: probe_step_ok)

lemma probe_spec:
  assumes "cache_ok isdst c" "0 \<le> t"
  defines "c' \<equiv> ProbeDST t c"
  shows "cache_ok isdst c'"
    "\<not> InvalidSegment (segment (before_segment c') c') \<Longrightarrow> start_sec (segment (before_segment c') c') \<le> t"
    "\<not> InvalidSegment (segment (after_segment c') c') \<Longrightarrow> t < start_sec (segment (after_segment c') c')"
proof -
  obtain before after where f: "foldl (probe_step t (dst_segments c)) (None, None) [0..<kDSTSize] = (before, after)"
    by fastforce
  have ba: "\<And>b. before = Some b \<Longrightarrow> b < kDSTSize \<and> start_sec (segment b c) \<le> t"
    "\<And>a. after = Some a \<Longrightarrow> a < kDSTSize \<and> t < start_sec (segment a c) \<and> \<not> InvalidSegment (segment a c)"
  proof -
    have "probe_ok t (dst_segments c) (before, after)"
      using probe_fold [of t "dst_segments c" "(None, None)" "[0..<kDSTSize]"] f by (simp add: probe_ok_def)
    note f = this [unfolded probe_ok_def fst_conv snd_conv, folded segment_def]
    show "before = Some b \<Longrightarrow> b < kDSTSize \<and> start_sec (segment b c) \<le> t" for b using f by blast
    fix a
    assume a: "after = Some a"
    then have s: "a < kDSTSize \<and> t < start_sec (segment a c) \<and> t < end_sec (segment a c)"
      using f by blast
    then have "\<not> InvalidSegment (segment a c)"
      using cache_okD(7) [OF assms(1), of a] assms(2) by (auto simp: good_segment_def kMaxInt_def split: if_splits)
    with s show "a < kDSTSize \<and> t < start_sec (segment a c) \<and> \<not> InvalidSegment (segment a c)" by blast
  qed
  obtain b c1 where b: "(case before of Some b \<Rightarrow> (b, c) | None \<Rightarrow> if InvalidSegment (segment (before_segment c) c)
      then (before_segment c, c) else LeastRecentlyUsedDST after c) = (b, c1)" by fastforce
  have b1: "cache_ok isdst c1" "b < kDSTSize" "\<not> InvalidSegment (segment b c1) \<Longrightarrow> start_sec (segment b c1) \<le> t"
    "\<And>a. after = Some a \<Longrightarrow> a \<noteq> b \<and> segment a c1 = segment a c" "after_segment c1 = after_segment c"
  proof -
    note ok = cache_okD [OF assms(1)]
    have "cache_ok isdst c1 \<and> b < kDSTSize \<and> (\<not> InvalidSegment (segment b c1) \<longrightarrow> start_sec (segment b c1) \<le> t) \<and>
      (\<forall>a. after = Some a \<longrightarrow> a \<noteq> b \<and> segment a c1 = segment a c) \<and> after_segment c1 = after_segment c"
    proof (cases before)
      case (Some x)
      with b have "b = x" "c1 = c" by auto
      with ba Some assms(1) show ?thesis by fastforce
    next
      case None
      show ?thesis
      proof (cases "InvalidSegment (segment (before_segment c) c)")
        case True
        with b None have "b = before_segment c" "c1 = c" by auto
        with True ba(2) assms(1) ok(2) show ?thesis by auto
      next
        case False
        obtain r where r: "LeastRecentlyUsedDST after c = (r, update_segment r ClearSegment c)" "r < kDSTSize" "after \<noteq> Some r"
          using lru_spec [OF assms(1)] by blast
        with b None False have "b = r" "c1 = update_segment r ClearSegment c" by auto
        with r ok(1) ok_update [OF assms(1) r(2), of ClearSegment] show ?thesis by auto
      qed
    qed
    then show "cache_ok isdst c1" "b < kDSTSize" "\<not> InvalidSegment (segment b c1) \<Longrightarrow> start_sec (segment b c1) \<le> t"
      "\<And>a. after = Some a \<Longrightarrow> a \<noteq> b \<and> segment a c1 = segment a c" "after_segment c1 = after_segment c" by auto
  qed
  obtain a c2 where a: "(case after of Some a \<Rightarrow> (a, c1) | None \<Rightarrow> if InvalidSegment (segment (after_segment c1) c1) \<and>
      b \<noteq> after_segment c1 then (after_segment c1, c1) else LeastRecentlyUsedDST (Some b) c1) = (a, c2)" by fastforce
  have c': "c' = c2\<lparr>before_segment := b, after_segment := a\<rparr>"
    unfolding c'_def ProbeDST_def f Let_def prod.case b a ..
  have a1: "cache_ok isdst c2 \<and> a < kDSTSize \<and> a \<noteq> b \<and> segment b c2 = segment b c1 \<and>
    (\<not> InvalidSegment (segment a c2) \<longrightarrow> t < start_sec (segment a c2))"
  proof (cases after)
    case (Some x)
    with a have "a = x" "c2 = c1" by auto
    with ba(2) [OF Some] b1(1) b1(4) [OF Some] show ?thesis by auto
  next
    case None
    show ?thesis
    proof (cases "InvalidSegment (segment (after_segment c1) c1) \<and> b \<noteq> after_segment c1")
      case True
      with a None have "a = after_segment c1" "c2 = c1" by auto
      with True b1(1) cache_okD(3) [OF b1(1)] show ?thesis by auto
    next
      case False
      obtain r where r: "LeastRecentlyUsedDST (Some b) c1 = (r, update_segment r ClearSegment c1)" "r < kDSTSize" "b \<noteq> r"
        using lru_spec [OF b1(1), of "Some b"] by auto
      with a None False have "a = r" "c2 = update_segment r ClearSegment c1" by auto
      with r cache_okD(1) [OF b1(1)] ok_update [OF b1(1) r(2), of ClearSegment] show ?thesis by auto
    qed
  qed
  show "cache_ok isdst c'" using a1 b1(2) by (auto simp: c' cache_ok_def segment_def)
  show "\<not> InvalidSegment (segment (before_segment c') c') \<Longrightarrow> start_sec (segment (before_segment c') c') \<le> t"
    using a1 b1(3) by (simp add: c')
  show "\<not> InvalidSegment (segment (after_segment c') c') \<Longrightarrow> t < start_sec (segment (after_segment c') c')"
    using a1 by (simp add: c')
qed

section \<open>Segments that grow\<close>

lemma host_between:
  assumes "host_ok isdst" "0 \<le> a" "a \<le> t" "t \<le> b" "b \<le> kMaxInt" "b \<le> a + kDefaultDSTDeltaInSec"
    "os_offset isdst a = os_offset isdst b"
  shows "os_offset isdst t = os_offset isdst a"
  using assms unfolding host_ok_def by blast

lemma good_valid:
  assumes "good_segment isdst s" "\<not> InvalidSegment s"
  shows "0 \<le> start_sec s" "start_sec s \<le> end_sec s" "end_sec s \<le> kMaxInt"
    "os_offset isdst (start_sec s) = offset_ms s" "os_offset isdst (end_sec s) = offset_ms s"
  using assms by (auto simp: good_segment_def InvalidSegment_def)

lemma grow_end:
  assumes "host_ok isdst" "good_segment isdst s" "\<not> InvalidSegment s" "end_sec s \<le> m" "m \<le> kMaxInt"
    "m \<le> end_sec s + kDefaultDSTDeltaInSec" "os_offset isdst m = offset_ms s"
  shows "good_segment isdst (s\<lparr>end_sec := m\<rparr>)" "\<not> InvalidSegment (s\<lparr>end_sec := m\<rparr>)"
proof -
  note v = good_valid [OF assms(2,3)]
  have "os_offset isdst t = offset_ms s" if "start_sec s \<le> t" "t \<le> m" for t
  proof (cases "t \<le> end_sec s")
    case True
    with that good_offset [OF assms(2)] show ?thesis by blast
  next
    case False
    then show ?thesis using host_between [OF assms(1), of "end_sec s" t m] v that assms(5-7) by simp
  qed
  with v assms(4,5) show "good_segment isdst (s\<lparr>end_sec := m\<rparr>)" by (simp add: good_segment_def InvalidSegment_def)
  show "\<not> InvalidSegment (s\<lparr>end_sec := m\<rparr>)" using v assms(4) by (simp add: InvalidSegment_def)
qed

lemma grow_start:
  assumes "host_ok isdst" "good_segment isdst s" "\<not> InvalidSegment s" "0 \<le> m" "m \<le> start_sec s"
    "start_sec s \<le> m + kDefaultDSTDeltaInSec" "os_offset isdst m = offset_ms s"
  shows "good_segment isdst (s\<lparr>start_sec := m\<rparr>)" "\<not> InvalidSegment (s\<lparr>start_sec := m\<rparr>)"
proof -
  note v = good_valid [OF assms(2,3)]
  have "os_offset isdst t = offset_ms s" if "m \<le> t" "t \<le> end_sec s" for t
  proof (cases "start_sec s \<le> t")
    case True
    with that good_offset [OF assms(2)] show ?thesis by blast
  next
    case False
    then show ?thesis using host_between [OF assms(1), of m t "start_sec s"] v that assms(4-7) by simp
  qed
  with v assms(4,5) show "good_segment isdst (s\<lparr>start_sec := m\<rparr>)" by (simp add: good_segment_def InvalidSegment_def)
  show "\<not> InvalidSegment (s\<lparr>start_sec := m\<rparr>)" using v assms(5) by (simp add: InvalidSegment_def)
qed

text \<open>After the segment is extended or made, it begins at the time.\<close>

lemma extend_spec:
  assumes "host_ok isdst" "cache_ok isdst c" "0 \<le> t" "t \<le> kMaxInt"
    "\<not> InvalidSegment (segment (after_segment c) c) \<Longrightarrow> t \<le> start_sec (segment (after_segment c) c)"
  defines "c' \<equiv> ExtendTheAfterSegment t (os_offset isdst t) c"
  shows "cache_ok isdst c'" "before_segment c' = before_segment c"
    "segment (before_segment c) c' = segment (before_segment c) c"
    "start_sec (segment (after_segment c') c') = t" "\<not> InvalidSegment (segment (after_segment c') c')"
proof -
  let ?a = "segment (after_segment c) c"
  note ok = cache_okD [OF assms(2)]
  have g: "good_segment isdst ?a" by (rule ok(7) [OF ok(3)])
  have "cache_ok isdst c' \<and> before_segment c' = before_segment c \<and>
    segment (before_segment c) c' = segment (before_segment c) c \<and>
    start_sec (segment (after_segment c') c') = t \<and> \<not> InvalidSegment (segment (after_segment c') c')"
  proof (cases "offset_ms ?a = os_offset isdst t \<and> start_sec ?a \<le> to_int32 (t + kDefaultDSTDeltaInSec) \<and> t \<le> end_sec ?a")
    case True
    have v: "\<not> InvalidSegment ?a" using True g assms(3) by (auto simp: good_segment_def kMaxInt_def split: if_splits)
    have "start_sec ?a \<le> t + kDefaultDSTDeltaInSec"
      using True to_int32_below [of "t + kDefaultDSTDeltaInSec"] assms(3) by simp
    with grow_start [OF assms(1) g v assms(3) assms(5) [OF v]] True
    have gs: "good_segment isdst (?a\<lparr>start_sec := t\<rparr>)" "\<not> InvalidSegment (?a\<lparr>start_sec := t\<rparr>)" by auto
    have "c' = update_segment (after_segment c) (\<lambda>s. s\<lparr>start_sec := t\<rparr>) c"
      using True by (simp add: c'_def ExtendTheAfterSegment_def Let_def)
    with gs ok ok_update [OF assms(2) ok(3), of "\<lambda>s. s\<lparr>start_sec := t\<rparr>"] show ?thesis by simp
  next
    case False
    define c1 where "c1 = (if start_sec ?a \<le> end_sec ?a
      then (case LeastRecentlyUsedDST (Some (before_segment c)) c of (r, c) \<Rightarrow> c\<lparr>after_segment := r\<rparr>) else c)"
    have c1: "cache_ok isdst c1 \<and> before_segment c1 = before_segment c \<and>
        segment (before_segment c) c1 = segment (before_segment c) c"
    proof (cases "start_sec ?a \<le> end_sec ?a")
      case True
      obtain r where r: "LeastRecentlyUsedDST (Some (before_segment c)) c = (r, update_segment r ClearSegment c)"
        "r < kDSTSize" "before_segment c \<noteq> r" using lru_spec [OF assms(2), of "Some (before_segment c)"] by auto
      have "cache_ok isdst (update_segment r ClearSegment c)" by (rule ok_update [OF assms(2) r(2)]) simp
      with r ok True show ?thesis by (auto simp: c1_def cache_ok_def)
    next
      case False
      then show ?thesis using assms(2) by (simp add: c1_def)
    qed
    note ok1 = cache_okD [OF conjunct1 [OF c1]]
    let ?f = "\<lambda>s. s\<lparr>start_sec := t, end_sec := t, offset_ms := os_offset isdst t\<rparr>"
    have c': "c' = use_segment (after_segment c1) (update_segment (after_segment c1) ?f c1)"
      unfolding c'_def ExtendTheAfterSegment_def Let_def c1_def [symmetric] by (simp only: False if_False)
    have g1: "cache_ok isdst (update_segment (after_segment c1) ?f c1)"
      by (rule ok_update [OF conjunct1 [OF c1] ok1(3)]) (rule good_point [OF assms(3,4)])
    have l: "after_segment c1 < length (dst_segments (update_segment (after_segment c1) ?f c1))" using ok1(5) by simp
    have "segment (before_segment c) c' = segment (before_segment c) c"
      using c1 ok1(5,6) by (simp add: c' use_segment_def Let_def)
    moreover have "cache_ok isdst c'" unfolding c' by (rule ok_use [OF g1 ok1(3)])
    moreover have "start_sec (segment (after_segment c') c') = t" "\<not> InvalidSegment (segment (after_segment c') c')"
      using ok1(5) by (simp_all add: c' segment_use [OF l] InvalidSegment_def)
    ultimately show ?thesis using c1 by (simp add: c')
  qed
  then show "cache_ok isdst c'" "before_segment c' = before_segment c"
    "segment (before_segment c) c' = segment (before_segment c) c"
    "start_sec (segment (after_segment c') c') = t" "\<not> InvalidSegment (segment (after_segment c') c')" by auto
qed

section \<open>The search\<close>

lemma half_bounds: "0 \<le> (x :: int) \<Longrightarrow> 0 \<le> x div 2 \<and> x div 2 \<le> x"
  by presburger

lemma search_spec:
  assumes "host_ok isdst"
  shows "cache_ok isdst c \<Longrightarrow> 0 < i \<Longrightarrow>
    \<not> InvalidSegment (segment (before_segment c) c) \<Longrightarrow> \<not> InvalidSegment (segment (after_segment c) c) \<Longrightarrow>
    end_sec (segment (before_segment c) c) < t \<Longrightarrow> t \<le> start_sec (segment (after_segment c) c) \<Longrightarrow>
    start_sec (segment (after_segment c) c) \<le> end_sec (segment (before_segment c) c) + kDefaultDSTDeltaInSec \<Longrightarrow>
    offset_ms (segment (before_segment c) c) \<noteq> offset_ms (segment (after_segment c) c) \<Longrightarrow>
    \<exists>c'. search_change isdst i t c = (os_offset isdst t, c') \<and> cache_ok isdst c'"
proof (induction i arbitrary: c)
  case 0
  then show ?case by simp
next
  case (Suc i)
  let ?b = "segment (before_segment c) c" and ?a = "segment (after_segment c) c"
  note ok = cache_okD [OF Suc.prems(1)]
  have gb: "good_segment isdst ?b" and ga: "good_segment isdst ?a" using ok(2,3,7) by auto
  note vb = good_valid [OF gb Suc.prems(3)] and va = good_valid [OF ga Suc.prems(4)]
  define m where "m = (if i = 0 then t else end_sec ?b + (start_sec ?a - end_sec ?b) sdiv 2)"
  have "0 \<le> (start_sec ?a - end_sec ?b) div 2" "(start_sec ?a - end_sec ?b) div 2 \<le> start_sec ?a - end_sec ?b"
    using half_bounds [of "start_sec ?a - end_sec ?b"] Suc.prems(5,6) by auto
  then have m: "end_sec ?b \<le> m" "m \<le> start_sec ?a"
    using Suc.prems(5,6) by (simp_all add: m_def)
  have mb: "0 \<le> m" "m \<le> kMaxInt" using m vb va by linarith+
  show ?case
  proof (cases "offset_ms ?b = os_offset isdst m")
    case True
    have g: "good_segment isdst (?b\<lparr>end_sec := m\<rparr>)" "\<not> InvalidSegment (?b\<lparr>end_sec := m\<rparr>)"
      using grow_end [OF assms gb Suc.prems(3), of m] m mb Suc.prems(7) True by auto
    let ?c = "update_segment (before_segment c) (\<lambda>s. s\<lparr>end_sec := m\<rparr>) c"
    have c: "cache_ok isdst ?c" using g(1) by (intro ok_update Suc.prems(1) ok(2)) simp
    have s: "search_change isdst (Suc i) t c = (if t \<le> m then (os_offset isdst m, ?c) else search_change isdst i t ?c)"
      using True by (simp add: Let_def m_def)
    show ?thesis
    proof (cases "t \<le> m")
      case tm: True
      have "os_offset isdst t = os_offset isdst m"
        using good_offset [OF g(1), of t] tm Suc.prems(5) vb True by simp
      with s tm c show ?thesis by simp
    next
      case False
      then have "0 < i" by (cases i) (auto simp: m_def)
      have "\<exists>c'. search_change isdst i t ?c = (os_offset isdst t, c') \<and> cache_ok isdst c'"
        using Suc.IH [OF c \<open>0 < i\<close>] ok(4-6) g(2) False m Suc.prems by simp
      with s False show ?thesis by simp
    qed
  next
    case False
    have "os_offset isdst m = offset_ms ?a"
      using os_two [of isdst "start_sec ?a" "end_sec ?b" m] False Suc.prems(8) vb(5) va(4) by simp
    then have g: "good_segment isdst (?a\<lparr>start_sec := m\<rparr>)" "\<not> InvalidSegment (?a\<lparr>start_sec := m\<rparr>)"
      and e: "os_offset isdst m = offset_ms ?a"
      using grow_start [OF assms ga Suc.prems(4), of m] m mb Suc.prems(7) by auto
    let ?c = "update_segment (after_segment c) (\<lambda>s. s\<lparr>start_sec := m\<rparr>) c"
    have c: "cache_ok isdst ?c" using g(1) by (intro ok_update Suc.prems(1) ok(3)) simp
    have s: "search_change isdst (Suc i) t c =
        (if t \<ge> m then (os_offset isdst m, swap_segments ?c) else search_change isdst i t ?c)"
      using False by (simp add: Let_def m_def)
    show ?thesis
    proof (cases "t \<ge> m")
      case tm: True
      have "os_offset isdst t = os_offset isdst m"
        using good_offset [OF g(1), of t] tm Suc.prems(6) va e by simp
      with s tm ok_swap [OF c] show ?thesis by simp
    next
      case lt: False
      then have "0 < i" by (cases i) (auto simp: m_def)
      have "\<exists>c'. search_change isdst i t ?c = (os_offset isdst t, c') \<and> cache_ok isdst c'"
        using Suc.IH [OF c \<open>0 < i\<close>] ok(4-6) g(2) lt m Suc.prems by simp
      with s lt show ?thesis by simp
    qed
  qed
qed

section \<open>A lookup\<close>

lemma between_spec:
  assumes "host_ok isdst" "cache_ok isdst c"
    "\<not> InvalidSegment (segment (before_segment c) c)" "end_sec (segment (before_segment c) c) < t"
    "t \<le> to_int32 (end_sec (segment (before_segment c) c) + kDefaultDSTDeltaInSec)" "t \<le> kMaxInt"
    "\<not> InvalidSegment (segment (after_segment c) c) \<Longrightarrow> t < start_sec (segment (after_segment c) c)"
  shows "\<exists>c'. offset_between isdst t c = (os_offset isdst t, c') \<and> cache_ok isdst c'"
proof -
  define c1 where "c1 = use_segment (before_segment c) c"
  let ?b = "segment (before_segment c) c"
  note ok = cache_okD [OF assms(2)]
  have gb: "good_segment isdst ?b" using ok(2,7) by blast
  note vb = good_valid [OF gb assms(3)]
  note use1 = segment_use [OF ok(4), folded c1_def]
  have c1: "cache_ok isdst c1" "before_segment c1 = before_segment c" "after_segment c1 = after_segment c"
    using ok_use [OF assms(2) ok(2)] by (simp_all add: c1_def)
  note ok1 = cache_okD [OF c1(1)]
  define new where "new = to_int32 (end_sec ?b + kDefaultDSTDeltaInSec)"
  have "0 \<le> end_sec ?b + kDefaultDSTDeltaInSec" using vb by simp
  then have new: "new \<le> end_sec ?b + kDefaultDSTDeltaInSec" "t \<le> new"
    using to_int32_below assms(5) by (simp_all add: new_def)
  have "new \<le> kMaxInt" by (simp add: new_def to_int32_def kMaxInt_def)
  have t: "0 \<le> t" using vb assms(4) by linarith
  define c2 where "c2 = (if new \<le> start_sec (segment (after_segment c1) c1)
    then ExtendTheAfterSegment new (os_offset isdst new) c1 else use_segment (after_segment c1) c1)"
  have c2: "cache_ok isdst c2 \<and> before_segment c2 = before_segment c \<and>
    offset_ms (segment (before_segment c) c2) = offset_ms ?b \<and> start_sec (segment (before_segment c) c2) = start_sec ?b \<and>
    end_sec (segment (before_segment c) c2) = end_sec ?b \<and> \<not> InvalidSegment (segment (before_segment c) c2) \<and>
    \<not> InvalidSegment (segment (after_segment c2) c2) \<and> t \<le> start_sec (segment (after_segment c2) c2) \<and>
    start_sec (segment (after_segment c2) c2) \<le> end_sec ?b + kDefaultDSTDeltaInSec"
  proof (cases "new \<le> start_sec (segment (after_segment c1) c1)")
    case True
    have n: "0 \<le> new" using t new(2) by linarith
    have c2: "c2 = ExtendTheAfterSegment new (os_offset isdst new) c1" using True by (simp add: c2_def)
    have "new \<le> start_sec (segment (after_segment c1) c1)" by (rule True)
    note e = extend_spec [OF assms(1) c1(1) n \<open>new \<le> kMaxInt\<close>, folded c2, OF this]
    show ?thesis
      using e new use1 assms(3) by (simp add: c1(2))
  next
    case False
    have c2: "c2 = use_segment (after_segment c1) c1" using False by (simp add: c2_def)
    have va: "\<not> InvalidSegment (segment (after_segment c1) c1)"
      using ok1(7) [OF ok1(3)] False \<open>new \<le> kMaxInt\<close> by (auto simp: good_segment_def)
    then have "t < start_sec (segment (after_segment c) c)" using assms(7) use1 c1(3) by simp
    then show ?thesis
      using va False new assms(3) ok_use [OF c1(1) ok1(3)] segment_use [OF ok1(5)] use1 c1 by (simp add: c2)
  qed
  define b2 a2 where "b2 = segment (before_segment c2) c2" and "a2 = segment (after_segment c2) c2"
  note ok2 = cache_okD [OF conjunct1 [OF c2]]
  have g2: "good_segment isdst b2" "good_segment isdst a2" using ok2(2,3,7) by (simp_all add: b2_def a2_def)
  have f2: "\<not> InvalidSegment b2" "\<not> InvalidSegment a2" "end_sec b2 = end_sec ?b" "t \<le> start_sec a2"
    "start_sec a2 \<le> end_sec b2 + kDefaultDSTDeltaInSec"
    using c2 by (simp_all add: b2_def a2_def)
  note vb2 = good_valid [OF g2(1) f2(1)] and va2 = good_valid [OF g2(2) f2(2)]
  have u: "offset_between isdst t c =
      (if offset_ms b2 = offset_ms a2
       then (offset_ms b2, update_segment (after_segment c2) ClearSegment
               (update_segment (before_segment c2) (\<lambda>s. s\<lparr>end_sec := end_sec a2\<rparr>) c2))
       else search_change isdst 5 t c2)"
    unfolding offset_between_def Let_def c1_def [symmetric] b2_def a2_def c2_def new_def c1(2) use1(2) ..
  show ?thesis
  proof (cases "offset_ms b2 = offset_ms a2")
    case True
    have "end_sec b2 \<le> start_sec a2" using f2(3,4) assms(4) by linarith
    then have g: "good_segment isdst (b2\<lparr>end_sec := start_sec a2\<rparr>)"
      using grow_end(1) [OF assms(1) g2(1) f2(1), of "start_sec a2"] va2 f2(5) True by simp
    have "os_offset isdst s = offset_ms b2" if "start_sec b2 \<le> s" "s \<le> end_sec a2" for s
      using good_offset [OF g, of s] good_offset [OF g2(2), of s] that True by (cases "s \<le> start_sec a2") auto
    then have gm: "good_segment isdst (b2\<lparr>end_sec := end_sec a2\<rparr>)"
      using vb2 va2 \<open>end_sec b2 \<le> start_sec a2\<close> by (simp add: good_segment_def InvalidSegment_def)
    have "os_offset isdst t = offset_ms b2"
      using good_offset [OF g, of t] f2(3,4) assms(4) vb2 by simp
    moreover have "cache_ok isdst (update_segment (after_segment c2) ClearSegment
        (update_segment (before_segment c2) (\<lambda>s. s\<lparr>end_sec := end_sec a2\<rparr>) c2))"
      by (intro ok_update c2 [THEN conjunct1] ok2(2,3)) (use gm in \<open>simp_all add: b2_def\<close>)
    ultimately show ?thesis using u True by simp
  next
    case False
    then show ?thesis
      using search_spec [OF assms(1) c2 [THEN conjunct1], of 5 t] u f2 assms(4)
      by (simp add: b2_def [symmetric] a2_def [symmetric])
  qed
qed

text \<open>Every lookup gives what the host gives.\<close>

lemma offset_at_spec:
  assumes "host_ok isdst" "cache_ok isdst c" "0 \<le> t" "t \<le> kMaxInt"
  shows "\<exists>c'. offset_at isdst t c = (os_offset isdst t, c') \<and> cache_ok isdst c'"
proof -
  define c0 where "c0 = forget_segments c"
  have c0: "cache_ok isdst c0" using ok_forget [OF assms(2)] by (simp add: c0_def)
  let ?b0 = "segment (before_segment c0) c0"
  note ok0 = cache_okD [OF c0]
  show ?thesis
  proof (cases "start_sec ?b0 \<le> t \<and> t \<le> end_sec ?b0")
    case True
    have "os_offset isdst t = offset_ms ?b0" using good_offset [OF ok0(7) [OF ok0(2)]] True by blast
    with True ok_use [OF c0 ok0(2)] show ?thesis by (simp add: offset_at_def Let_def c0_def [symmetric])
  next
    case miss: False
    define c1 where "c1 = ProbeDST t c0"
    let ?b = "segment (before_segment c1) c1"
    note pr = probe_spec [OF c0 assms(3), folded c1_def]
    note ok = cache_okD [OF pr(1)]
    have u: "offset_at isdst t c =
      (if InvalidSegment ?b then
         (os_offset isdst t, use_segment (before_segment c1) (update_segment (before_segment c1)
            (\<lambda>s. s\<lparr>start_sec := t, end_sec := t, offset_ms := os_offset isdst t\<rparr>) c1))
       else if t \<le> end_sec ?b then (offset_ms ?b, use_segment (before_segment c1) c1)
       else if t > to_int32 (end_sec ?b + kDefaultDSTDeltaInSec) then
         (os_offset isdst t, swap_segments (ExtendTheAfterSegment t (os_offset isdst t) c1))
       else offset_between isdst t c1)"
      unfolding offset_at_def Let_def c0_def [symmetric] c1_def [symmetric] by (simp only: miss if_False)
    have gb: "good_segment isdst ?b" using ok(2,7) by blast
    consider (invalid) "InvalidSegment ?b" | (hit) "\<not> InvalidSegment ?b" "t \<le> end_sec ?b"
      | (far) "\<not> InvalidSegment ?b" "\<not> t \<le> end_sec ?b" "t > to_int32 (end_sec ?b + kDefaultDSTDeltaInSec)"
      | (near) "\<not> InvalidSegment ?b" "\<not> t \<le> end_sec ?b" "\<not> t > to_int32 (end_sec ?b + kDefaultDSTDeltaInSec)"
      by blast
    then show ?thesis
    proof cases
      case invalid
      have "cache_ok isdst (update_segment (before_segment c1)
          (\<lambda>s. s\<lparr>start_sec := t, end_sec := t, offset_ms := os_offset isdst t\<rparr>) c1)"
        by (rule ok_update [OF pr(1) ok(2)]) (rule good_point [OF assms(3,4)])
      with ok_use [OF this ok(2)] u invalid show ?thesis by simp
    next
      case hit
      have "os_offset isdst t = offset_ms ?b" using good_offset [OF gb pr(2) [OF hit(1)] hit(2)] .
      with u hit ok_use [OF pr(1) ok(2)] show ?thesis by simp
    next
      case far
      have "t \<le> start_sec (segment (after_segment c1) c1)" if "\<not> InvalidSegment (segment (after_segment c1) c1)"
        using pr(3) [OF that] by simp
      from extend_spec(1) [OF assms(1) pr(1) assms(3,4) this] have
        "cache_ok isdst (ExtendTheAfterSegment t (os_offset isdst t) c1)" by blast
      with u far ok_swap show ?thesis by simp
    next
      case near
      from between_spec [OF assms(1) pr(1) near(1) _ _ assms(4) pr(3)] near u show ?thesis by simp
    qed
  qed
qed

end
