(* ===== verification/DateCacheDays.thy ===== *)
theory DateCacheDays
  imports DateCacheSpec
begin

text \<open>
  The dates of the cache: \<open>YearMonthDayFromDays\<close>, with its own cache of the last day, and \<open>DaysFromYearMonth\<close>
  agree with the calendar of \<open>getdate\<close>, also before year 1, and the year that stands for another has the
  same calendar.
\<close>

section \<open>The date of a day\<close>

text \<open>Days since 1970.\<close>

definition is_date :: "int \<Rightarrow> int \<Rightarrow> int \<Rightarrow> int \<Rightarrow> bool" where
  "is_date days y m d \<longleftrightarrow>
     0 \<le> m \<and> m \<le> 11 \<and> 1 \<le> d \<and> d \<le> DaysPreceding y ! nat (m + 1) - DaysPreceding y ! nat m \<and>
     days_before y + DaysPreceding y ! nat m + d = days + 719163"

lemma is_date_unique:
  assumes "is_date days y m d" "is_date days y' m' d'"
  shows "y = y' \<and> m = m' \<and> d = d'"
proof -
  have y: "y = y' \<and> DaysPreceding y ! nat m + d - 1 = DaysPreceding y' ! nat m' + d' - 1"
    by (rule day_of_year_unique)
      (use assms preceding_bounds [of m y] preceding_bounds [of m' y'] in \<open>auto simp: is_date_def\<close>)
  have m: "m = m'"
    by (rule month_unique [of m m' y' "DaysPreceding y ! nat m + d - 1"])
      (use assms y in \<open>auto simp: is_date_def\<close>)
  show ?thesis using y unfolding m by auto
qed

text \<open>Dividing a number that is at least -1.\<close>

lemma near_division:
  assumes "-1 \<le> (x :: int)" "1 < k"
  shows "x = x sdiv k * k + x smod k" "0 \<le> x sdiv k" "-1 \<le> x smod k" "x smod k < k" "x smod k = -1 \<Longrightarrow> x = -1 \<and> x sdiv k = 0"
proof -
  have "x = x sdiv k * k + x smod k \<and> 0 \<le> x sdiv k \<and> -1 \<le> x smod k \<and> x smod k < k \<and>
      (x smod k = -1 \<longrightarrow> x = -1 \<and> x sdiv k = 0)"
  proof (cases "x = -1")
    case True
    have "(-1) sdiv k = 0" "(-1) smod k = -1"
      using assms(2) by (simp_all add: signed_divide_int_def signed_modulo_int_def)
    with True assms(2) show ?thesis by simp
  next
    case False
    then have x: "0 \<le> x" "0 < k" using assms by auto
    have "x smod k = x mod k" "0 \<le> x mod k" using x by simp_all
    then have "x smod k \<noteq> -1" "-1 \<le> x mod k" by linarith+
    with x show ?thesis by (simp add: pos_imp_zdiv_nonneg_iff)
  qed
  then show "x = x sdiv k * k + x smod k" "0 \<le> x sdiv k" "-1 \<le> x smod k" "x smod k < k"
    "x smod k = -1 \<Longrightarrow> x = -1 \<and> x sdiv k = 0" by auto
qed

lemma near_bound:
  assumes "-1 \<le> (x :: int)" "1 < k" "0 < n" "x < n * k"
  shows "x sdiv k < n"
proof (cases "x = -1")
  case True
  have "(-1) sdiv k = 0" using assms(2) by (simp add: signed_divide_int_def)
  with True assms(3) show ?thesis by simp
next
  case False
  then show ?thesis using div_below [of k x n] assms by simp
qed

lemma floor_div:
  assumes "x = q * k + r" "0 \<le> r" "r < (k :: int)"
  shows "x div k = q" "x mod k = r"
  using assms int_div_pos_eq [of x k q r] int_mod_pos_eq [of x k q r] by (simp_all add: mult.commute)

text \<open>A year of the 400 that begin with one divisible by 400.\<close>

lemma days_before_cycle:
  fixes q :: int
  assumes "0 \<le> a" "a \<le> 3" "0 \<le> b" "b \<le> 24" "0 \<le> c" "c \<le> (3 :: int)"
  defines "y \<equiv> 400 * q + 100 * a + 4 * b + c"
  defines "leap \<equiv> (a = 0 \<or> b \<noteq> 0) \<and> c = 0"
  shows "days_before y = 146097 * q + 36524 * a + 1461 * b + 365 * c - 366 + (if leap then 0 else 1)"
    "IsLeapYear y = leap"
proof -
  let ?z = "4 * b + c = 0" and ?w = "100 * a + 4 * b + c = 0"
  have pred: "(x - 1) div k = x div k + (if x mod k = 0 then -1 else 0)" if "0 < k" for x k :: int
    using next_multiple [OF that, of x] by simp
  have y4: "y = (100 * q + 25 * a + b) * 4 + c" and y100: "y = (4 * q + a) * 100 + (4 * b + c)"
    and y400: "y = q * 400 + (100 * a + 4 * b + c)" by (simp_all add: y_def)
  have r: "0 \<le> 4 * b + c" "4 * b + c < 100" "0 \<le> 100 * a + 4 * b + c" "100 * a + 4 * b + c < 400" "c < 4"
    using assms(1-6) by linarith+
  note f4 = floor_div [OF y4 assms(5) r(5)] and f100 = floor_div [OF y100 r(1,2)] and f400 = floor_div [OF y400 r(3,4)]
  have m4: "(y - 1) div 4 = 100 * q + 25 * a + b + (if c = 0 then -1 else 0)" "y mod 4 = c"
    using pred [of 4 y] unfolding f4 by simp_all
  have m100: "(y - 1) div 100 = 4 * q + a + (if ?z then -1 else 0)" "y mod 100 = 4 * b + c"
    using pred [of 100 y] unfolding f100 by simp_all
  have m400: "(y - 1) div 400 = q + (if ?w then -1 else 0)" "y mod 400 = 100 * a + 4 * b + c"
    using pred [of 400 y] unfolding f400 by simp_all
  have z: "?z \<longleftrightarrow> b = 0 \<and> c = 0" "?w \<longleftrightarrow> a = 0 \<and> b = 0 \<and> c = 0"
    using assms(1-6) by (safe; linarith)+
  show "IsLeapYear y = leap"
    unfolding IsLeapYear_def m4(2) m100(2) m400(2) leap_def using z by auto
  show "days_before y = 146097 * q + 36524 * a + 1461 * b + 365 * c - 366 + (if leap then 0 else 1)"
    unfolding days_before_def m4(1) m100(1) m400(1) leap_def z by (simp add: y_def)
qed

lemma months_found:
  "60 \<le> d \<Longrightarrow> d \<le> 365 \<Longrightarrow> \<exists>m k. month_from (drop 2 kDaysInMonths) 2 (d - 60) = Some (m, k) \<and> 2 \<le> m \<and> m \<le> 11 \<and> 1 \<le> k \<and>
    LeapYearDaysPrecedingMonth ! nat m + k - 1 = d \<and>
    k \<le> LeapYearDaysPrecedingMonth ! nat (m + 1) - LeapYearDaysPrecedingMonth ! nat m"
  "59 \<le> d \<Longrightarrow> d \<le> 364 \<Longrightarrow> \<exists>m k. month_from (drop 2 kDaysInMonths) 2 (d - 59) = Some (m, k) \<and> 2 \<le> m \<and> m \<le> 11 \<and> 1 \<le> k \<and>
    NormalYearDaysPrecedingMonth ! nat m + k - 1 = d \<and>
    k \<le> NormalYearDaysPrecedingMonth ! nat (m + 1) - NormalYearDaysPrecedingMonth ! nat m"
  by (auto simp: kDaysInMonths_def LeapYearDaysPrecedingMonth_def NormalYearDaysPrecedingMonth_def)

text \<open>The month and the day of a day of the year.\<close>

definition month_day :: "bool \<Rightarrow> int \<Rightarrow> (int \<times> int) option" where
  "month_day is_leap days =
     (let feb = 31 + 28 + (if is_leap then 1 else 0)
      in if days \<ge> feb then month_from (drop 2 kDaysInMonths) 2 (days - feb)
         else if days < 31 then Some (0, days + 1) else Some (1, days - 31 + 1))"

lemma upto_all: "list_all P [i..j] \<Longrightarrow> i \<le> d \<Longrightarrow> d \<le> j \<Longrightarrow> P d"
  by (simp add: list_all_iff)

lemma month_day_found:
  assumes "0 \<le> d" "d < year_days y"
  shows "\<exists>m k. month_day (IsLeapYear y) d = Some (m, k) \<and> 0 \<le> m \<and> m \<le> 11 \<and> 1 \<le> k \<and>
    DaysPreceding y ! nat m + k - 1 = d \<and> k \<le> DaysPreceding y ! nat (m + 1) - DaysPreceding y ! nat m"
proof (cases "d < 59 + (if IsLeapYear y then 1 else 0)")
  case True
  with assms(1) show ?thesis
    by (auto simp: month_day_def DaysPreceding_def LeapYearDaysPrecedingMonth_def NormalYearDaysPrecedingMonth_def)
next
  case False
  show ?thesis
  proof (cases "IsLeapYear y")
    case True
    from months_found(1) [of d] False True assms(2) obtain m k where
      "month_from (drop 2 kDaysInMonths) 2 (d - 60) = Some (m, k)" "2 \<le> m" "m \<le> 11" "1 \<le> k"
      "LeapYearDaysPrecedingMonth ! nat m + k - 1 = d"
      "k \<le> LeapYearDaysPrecedingMonth ! nat (m + 1) - LeapYearDaysPrecedingMonth ! nat m"
      by (auto simp: year_days_def)
    with True False show ?thesis by (simp add: month_day_def DaysPreceding_def)
  next
    case no: False
    from months_found(2) [of d] False no assms(2) obtain m k where
      "month_from (drop 2 kDaysInMonths) 2 (d - 59) = Some (m, k)" "2 \<le> m" "m \<le> 11" "1 \<le> k"
      "NormalYearDaysPrecedingMonth ! nat m + k - 1 = d"
      "k \<le> NormalYearDaysPrecedingMonth ! nat (m + 1) - NormalYearDaysPrecedingMonth ! nat m"
      by (auto simp: year_days_def)
    with no False show ?thesis by (simp add: month_day_def DaysPreceding_def)
  qed
qed

lemma ymd_month_day:
  "ymd_of_days days =
     (let days = days + kDaysOffset; r = days smod kDaysIn400Years - 1;
          yd1 = r sdiv kDaysIn100Years; r1 = r smod kDaysIn100Years + 1;
          yd2 = r1 sdiv kDaysIn4Years; r2 = r1 smod kDaysIn4Years - 1;
          yd3 = r2 sdiv 365; r3 = r2 smod 365;
          is_leap = ((yd1 = 0 \<or> yd2 \<noteq> 0) \<and> yd3 = 0)
      in (400 * (days sdiv kDaysIn400Years) - kYearsOffset + 100 * yd1 + 4 * yd2 + yd3,
          month_day is_leap (r3 + (if is_leap then 1 else 0))))"
  unfolding ymd_of_days_def month_day_def Let_def ..

text \<open>The date of every day the offset makes positive.\<close>

lemma ymd_of_days_date:
  assumes "0 \<le> days + kDaysOffset"
  shows "\<exists>y m d. ymd_of_days days = (y, Some (m, d)) \<and> is_date days y m d"
proof -
  have k: "kDaysIn400Years = 146097" "kDaysIn100Years = 36524" "kDaysIn4Years = 1461" "kDaysOffset = 146816528"
    "kYearsOffset = 400000"
    by (simp_all add: kDaysIn400Years_def kDaysIn100Years_def kDaysIn4Years_def kDaysOffset_def kDays1970to2000_def
        kYearsOffset_def)
  define N where "N = days + kDaysOffset"
  define q where "q = N sdiv 146097"
  define r where "r = N smod 146097 - 1"
  define a where "a = r sdiv 36524"
  define r1 where "r1 = r smod 36524 + 1"
  define b where "b = r1 sdiv 1461"
  define r2 where "r2 = r1 smod 1461 - 1"
  define c where "c = r2 sdiv 365"
  define r3 where "r3 = r2 smod 365"
  define leap where "leap = ((a = 0 \<or> b \<noteq> 0) \<and> c = 0)"
  have N: "0 \<le> N" using assms by (simp add: N_def)
  have q: "N = q * 146097 + (r + 1)" "0 \<le> q" "-1 \<le> r" "r < 146096"
    using near_division [of N 146097] N pos_mod_sign [of 146097 N] unfolding q_def r_def by auto
  note d1 = near_division [of r 36524, OF q(3), simplified, folded a_def]
  have a: "r = a * 36524 + (r1 - 1)" "0 \<le> a" "a \<le> 3" "0 \<le> r1" "r1 < 36525"
    using d1 near_bound [of r 36524 4] q(3,4) by (auto simp: r1_def a_def)
  have r1: "r1 = 0 \<Longrightarrow> r = -1 \<and> a = 0" using d1(5) by (simp add: r1_def)
  have "-1 \<le> r1" using a(4) by simp
  note d2 = near_division [of r1 1461, OF this, simplified, folded b_def]
  have b: "r1 = b * 1461 + (r2 + 1)" "0 \<le> b" "b \<le> 24" "-1 \<le> r2" "r2 < 1460"
    using d2 near_bound [of r1 1461 25] a(4,5) by (auto simp: r2_def b_def)
  have r2: "r2 = -1 \<Longrightarrow> r1 = b * 1461" using b(1) by simp
  note d3 = near_division [of r2 365, OF b(4), simplified, folded c_def r3_def]
  have c: "r2 = c * 365 + r3" "0 \<le> c" "c \<le> 3" "-1 \<le> r3" "r3 < 365" "r3 = -1 \<Longrightarrow> r2 = -1 \<and> c = 0"
    using d3 near_bound [of r2 365 4] b(4,5) by (auto simp: c_def)
  let ?y = "400 * (q - 1000) + 100 * a + 4 * b + c"
  let ?d = "r3 + (if leap then 1 else 0)"
  note cyc = days_before_cycle [OF a(2,3) b(2,3) c(2,3), of "q - 1000", folded leap_def]
  have "leap" if "r3 = -1"
  proof -
    have "r2 = -1" "c = 0" using c(6) that by auto
    moreover have "a = 0 \<or> b \<noteq> 0" using r1 r2 calculation by (cases "b = 0") auto
    ultimately show ?thesis by (simp add: leap_def)
  qed
  moreover have "year_days ?y = (if leap then 366 else 365)" unfolding year_days_def cyc(2) ..
  ultimately have d: "0 \<le> ?d" "?d < year_days ?y" using c(4,5) by (cases leap; cases "r3 = -1"; simp)+
  have ymd: "ymd_of_days days = (?y, month_day leap ?d)"
    unfolding ymd_month_day Let_def k N_def [symmetric, unfolded k] q_def [symmetric] r_def [symmetric] a_def [symmetric]
      r1_def [symmetric] b_def [symmetric] r2_def [symmetric] c_def [symmetric] r3_def [symmetric] leap_def [symmetric]
    by simp
  have "days_before ?y + ?d = N - 146816528 + 719162"
    unfolding cyc(1) using q(1) a(1) b(1) c(1) by auto
  then have dd: "days_before ?y + ?d = days + 719162" by (simp add: N_def k)
  obtain m n where "month_day leap ?d = Some (m, n)" "is_date days ?y m n"
    using month_day_found [OF d] dd unfolding cyc(2) is_date_def by auto
  with ymd show ?thesis by auto
qed

section \<open>The first day of a month\<close>

lemma shift_div: "(x :: int) + q * k = z \<Longrightarrow> k \<noteq> 0 \<Longrightarrow> z div k = x div k + q"
  by auto

lemma base_days:
  fixes a b c p y :: int
  shows "365 * (y + 399999) + (a + 100000) - (b + 4000) + (c + 1000) - (365 * (1970 + 399999) + 100492 - 4019 + 1004) + p =
    (y - 1) * 365 + a - b + c + p - 719162"
  by simp

lemma days_from_year_month:
  assumes "0 \<le> m" "m \<le> 11" "-399998 \<le> y"
  shows "DaysFromYearMonth y m = days_before y + DaysPreceding y ! nat m - 719162"
proof -
  have l: "(y mod 4 \<noteq> 0 \<or> y mod 100 = 0 \<and> y mod 400 \<noteq> 0) = (\<not> IsLeapYear y)"
  proof -
    have "y mod 400 = 0 \<Longrightarrow> y mod 100 = 0" "y mod 100 = 0 \<Longrightarrow> y mod 4 = 0"
      unfolding mod_eq_0_iff_dvd by (auto elim: dvd_trans [rotated])
    then show ?thesis by (auto simp: IsLeapYear_def)
  qed
  have v: "(y + 399999) div 4 = (y - 1) div 4 + 100000" "(y + 399999) div 100 = (y - 1) div 100 + 4000"
    "(y + 399999) div 400 = (y - 1) div 400 + 1000"
    by (rule shift_div; simp)+
  have t: "day_from_month ! nat m = NormalYearDaysPrecedingMonth ! nat m"
    "day_from_month_leap ! nat m = LeapYearDaysPrecedingMonth ! nat m"
  proof -
    have "m = 0 \<or> m = 1 \<or> m = 2 \<or> m = 3 \<or> m = 4 \<or> m = 5 \<or> m = 6 \<or> m = 7 \<or> m = 8 \<or> m = 9 \<or> m = 10 \<or> m = 11"
      using assms(1,2) by presburger
    then show "day_from_month ! nat m = NormalYearDaysPrecedingMonth ! nat m"
      "day_from_month_leap ! nat m = LeapYearDaysPrecedingMonth ! nat m"
      by (auto simp: day_from_month_def day_from_month_leap_def LeapYearDaysPrecedingMonth_def NormalYearDaysPrecedingMonth_def)
  qed
  have p: "0 \<le> y + 399999" using assms(3) by simp
  have sd: "(y + 399999) sdiv 4 = (y - 1) div 4 + 100000" "(y + 399999) sdiv 100 = (y - 1) div 100 + 4000"
    "(y + 399999) sdiv 400 = (y - 1) div 400 + 1000"
    unfolding v [symmetric] by (rule sdiv_pos [OF p]; simp)+
  have k: "(1970 + 399999) sdiv 4 = (100492 :: int)" "(1970 + 399999) sdiv 100 = (4019 :: int)"
    "(1970 + 399999) sdiv 400 = (1004 :: int)" by simp_all
  have m: "y + m sdiv 12 = y" "m smod 12 = m" "\<not> m < 0" using assms(1,2) by simp_all
  have "DaysFromYearMonth y m =
      365 * (y + 399999) + ((y - 1) div 4 + 100000) - ((y - 1) div 100 + 4000) + ((y - 1) div 400 + 1000) -
      (365 * (1970 + 399999) + 100492 - 4019 + 1004) + DaysPreceding y ! nat m"
    unfolding DaysFromYearMonth_def Let_def m by (simp only: m if_False prod.case sd k l DaysPreceding_def t if_not_P) auto
  then show ?thesis unfolding days_before_def base_days .
qed

lemma is_date_first:
  assumes "is_date days y m d" "-399998 \<le> y"
  shows "DaysFromYearMonth y m + d - 1 = days"
  using assms days_from_year_month [of m y] by (simp add: is_date_def)

section \<open>The year that stands for another\<close>

lemma weekday_mod: "0 \<le> Weekday d \<and> Weekday d < 7 \<and> Weekday d = (d + 4) mod 7"
proof (cases "0 \<le> d + 4")
  case True
  then show ?thesis by (simp add: Weekday_def)
next
  case False
  then have s: "(d + 4) smod 7 = - (- (d + 4) mod 7)"
    by (simp add: signed_modulo_int_def signed_divide_int_def sgn_if minus_div_mult_eq_mod algebra_simps)
  have r: "0 \<le> - (d + 4) mod 7" "- (d + 4) mod 7 < 7" by simp_all
  have "(d + 4) mod 7 = (if - (d + 4) mod 7 = 0 then 0 else 7 - - (d + 4) mod 7)"
    using zmod_zminus1_eq_if [of "- (d + 4)" 7] by (simp only: minus_minus)
  then show ?thesis using s r by (auto simp: Weekday_def Let_def)
qed

lemma first_weekday:
  assumes "-399998 \<le> y"
  shows "Weekday (DaysFromYearMonth y 0) = (days_before y - 719158) mod 7"
proof -
  have "DaysPreceding y ! nat 0 = 0"
    by (simp add: DaysPreceding_def LeapYearDaysPrecedingMonth_def NormalYearDaysPrecedingMonth_def)
  then show ?thesis using days_from_year_month [of 0 y] weekday_mod [of "DaysFromYearMonth y 0"] assms
    by (simp only: add_0_right nat_zero_as_int int_nat_eq) simp
qed

lemma equivalent_choices:
  "list_all (\<lambda>l. list_all (\<lambda>w. let y = 2008 + ((if l then 1956 else 1967) + (w * 12) smod 28 + 3 * 28 - 2008) smod 28
     in 2008 \<le> y \<and> y \<le> 2035 \<and> IsLeap y = l \<and> (days_before y - 719158) mod 7 = w) [0, 1, 2, 3, 4, 5, 6]) [False, True]"
  by code_simp

lemma equivalent_choice:
  fixes l :: bool
  assumes "0 \<le> w" "w < 7"
  defines "y \<equiv> 2008 + ((if l then 1956 else 1967) + (w * 12) smod 28 + 3 * 28 - 2008) smod 28"
  shows "2008 \<le> y \<and> y \<le> 2035 \<and> IsLeap y = l \<and> (days_before y - 719158) mod 7 = w"
proof -
  have "w \<in> set [0, 1, 2, 3, 4, 5, 6]" "l \<in> set [False, True]" using assms(1,2) by auto
  with equivalent_choices show ?thesis unfolding list_all_iff Let_def y_def by blast
qed

text \<open>It is one of 2008 to 2035, a leap year when the other is, and begins on the same day of the week.\<close>

lemma equivalent_year:
  "2008 \<le> EquivalentYear y \<and> EquivalentYear y \<le> 2035 \<and> IsLeap (EquivalentYear y) = IsLeap y \<and>
   Weekday (DaysFromYearMonth (EquivalentYear y) 0) = Weekday (DaysFromYearMonth y 0)"
proof -
  let ?w = "Weekday (DaysFromYearMonth y 0)"
  note w = weekday_mod [of "DaysFromYearMonth y 0"]
  have e: "EquivalentYear y =
      2008 + ((if IsLeap y then 1956 else 1967) + (?w * 12) smod 28 + 3 * 28 - 2008) smod 28"
    by (simp add: EquivalentYear_def Let_def)
  note c = equivalent_choice [of ?w "IsLeap y", folded e]
  with w have "-399998 \<le> EquivalentYear y" by auto
  with c w first_weekday show ?thesis by simp
qed

end
