(* ===== verification/LocalTime.thy ===== *)
theory LocalTime
  imports DateCacheDays
begin

text \<open>
  The properties of the local-time cache: whatever it was asked before, it converts times as the host does,
  the conversions undo each other, and its calendar is the one of \<open>getdate\<close>.
\<close>

section \<open>The cache of the last date\<close>

definition ymd_ok :: "date_cache \<Rightarrow> bool" where
  "ymd_ok c \<longleftrightarrow> (ymd_valid c \<longrightarrow> is_date (ymd_days c) (ymd_year c) (ymd_month c) (ymd_day c))"

lemma month_at_least:
  assumes "0 \<le> m" "m \<le> (11 :: int)"
  shows "28 \<le> DaysPreceding y ! nat (m + 1) - DaysPreceding y ! nat m"
proof -
  have "m = 0 \<or> m = 1 \<or> m = 2 \<or> m = 3 \<or> m = 4 \<or> m = 5 \<or> m = 6 \<or> m = 7 \<or> m = 8 \<or> m = 9 \<or> m = 10 \<or> m = 11"
    using assms by presburger
  then show ?thesis
    by (auto simp: DaysPreceding_def LeapYearDaysPrecedingMonth_def NormalYearDaysPrecedingMonth_def)
qed

lemma date_spec:
  assumes "ymd_ok c" "0 \<le> days + kDaysOffset"
  obtains y m d c' where "YearMonthDayFromDays days c = (Some (y, m, d), c')" "is_date days y m d" "ymd_ok c'"
    "dst_segments c' = dst_segments c" "before_segment c' = before_segment c" "after_segment c' = after_segment c"
    "local_offset_ms c' = local_offset_ms c"
proof (cases "ymd_valid c \<and> ymd_day c + (days - ymd_days c) \<ge> 1 \<and> ymd_day c + (days - ymd_days c) \<le> 28")
  case True
  let ?n = "ymd_day c + (days - ymd_days c)"
  have "is_date (ymd_days c) (ymd_year c) (ymd_month c) (ymd_day c)" using assms(1) True by (simp add: ymd_ok_def)
  then have d: "is_date days (ymd_year c) (ymd_month c) ?n"
    using True month_at_least [of "ymd_month c" "ymd_year c"] unfolding is_date_def by linarith
  let ?c = "c\<lparr>ymd_day := ?n, ymd_days := days\<rparr>"
  have "YearMonthDayFromDays days c = (Some (ymd_year c, ymd_month c, ?n), ?c)"
    using True by (simp add: YearMonthDayFromDays_def Let_def)
  moreover have "ymd_ok ?c" using d by (simp add: ymd_ok_def)
  ultimately show thesis using that d by simp
next
  case False
  obtain y m d where d: "ymd_of_days days = (y, Some (m, d))" "is_date days y m d"
    using ymd_of_days_date [OF assms(2)] by blast
  let ?c = "c\<lparr>ymd_valid := True, ymd_year := y, ymd_month := m, ymd_day := d, ymd_days := days\<rparr>"
  have "YearMonthDayFromDays days c = (Some (y, m, d), ?c)"
    using False d(1) by (auto simp: YearMonthDayFromDays_def Let_def)
  moreover have "ymd_ok ?c" using d by (simp add: ymd_ok_def)
  ultimately show thesis using that d by simp
qed

section \<open>The second the host is asked for\<close>

definition equivalent_ms :: "int \<Rightarrow> int" where
  "equivalent_ms t =
     (case ymd_of_days (DaysFromTime t) of
        (y, Some (m, d)) \<Rightarrow>
          (DaysFromYearMonth (EquivalentYear y) m + d - 1) * kMsPerDay + (t - DaysFromTime t * kMsPerDay)
      | _ \<Rightarrow> 0)"

definition host_second :: "int \<Rightarrow> int" where
  "host_second t = (if 0 \<le> t \<and> t \<le> kMaxEpochTimeInMs then t div 1000 else equivalent_ms t div 1000)"

text \<open>The daylight saving time at a time, from the host.\<close>

definition dst_at :: "(int \<Rightarrow> int) \<Rightarrow> int \<Rightarrow> int" where
  "dst_at isdst t = os_offset isdst (host_second t)"

definition time_ok :: "int \<Rightarrow> bool" where
  "time_ok t \<longleftrightarrow> - 10000000000000000 \<le> t \<and> t \<le> 10000000000000000"

lemma ms_per_day: "kMsPerDay = 86400000"
  by (simp add: kMsPerDay_def kSecPerDay_def)

lemma days_from_time: "DaysFromTime t = t div 86400000"
proof (cases "t < 0")
  case True
  define q r where "q = t div 86400000" and "r = t mod 86400000"
  have t: "t = q * 86400000 + r" "0 \<le> r" "r < 86400000" by (simp_all add: q_def r_def)
  have q: "q \<le> -1" using t True by auto
  have "(- (t - 86399999)) div 86400000 = - q"
    by (rule floor_div(1) [of _ _ _ "86399999 - r"]) (use t in auto)
  then have "(t - 86399999) sdiv 86400000 = q"
    using True by (simp add: signed_divide_int_def)
  with True show ?thesis by (simp add: DaysFromTime_def ms_per_day q_def)
qed (simp add: DaysFromTime_def ms_per_day)

lemma time_days:
  assumes "time_ok t"
  shows "0 \<le> DaysFromTime t + kDaysOffset" "0 \<le> t - DaysFromTime t * kMsPerDay" "t - DaysFromTime t * kMsPerDay < 86400000"
proof -
  have d: "DaysFromTime t * 86400000 \<le> t" "t < DaysFromTime t * 86400000 + 86400000"
    using div_bounds [of 86400000 t] by (simp_all add: days_from_time)
  have o: "kDaysOffset = 146816528"
    by (simp add: kDaysOffset_def kDaysIn400Years_def kDaysIn100Years_def kDaysIn4Years_def kDays1970to2000_def)
  show "0 \<le> DaysFromTime t + kDaysOffset" using d(2) assms unfolding o time_ok_def by linarith
  show "0 \<le> t - DaysFromTime t * kMsPerDay" "t - DaysFromTime t * kMsPerDay < 86400000"
    using d by (simp_all add: ms_per_day)
qed

text \<open>The same day of the year in a year of the same length.\<close>

lemma equivalent_range:
  assumes "is_date days y m d"
  shows "13879 \<le> DaysFromYearMonth (EquivalentYear y) m + d - 1" "DaysFromYearMonth (EquivalentYear y) m + d - 1 \<le> 24105"
proof -
  let ?e = "EquivalentYear y"
  note e = equivalent_year [of y]
  have l: "IsLeap z = IsLeapYear z" for z
  proof -
    have "z mod 400 = 0 \<Longrightarrow> z mod 100 = 0" "z mod 100 = 0 \<Longrightarrow> z mod 4 = 0"
      unfolding mod_eq_0_iff_dvd by (auto elim: dvd_trans [rotated])
    then show ?thesis by (auto simp: IsLeapYear_def IsLeap_def)
  qed
  have p: "DaysPreceding ?e = DaysPreceding y" using e l by (simp add: DaysPreceding_def)
  have m: "0 \<le> m" "m \<le> 11" "1 \<le> d" "d \<le> DaysPreceding y ! nat (m + 1) - DaysPreceding y ! nat m"
    using assms by (auto simp: is_date_def)
  have b: "0 \<le> DaysPreceding ?e ! nat m" "DaysPreceding ?e ! nat (m + 1) \<le> year_days ?e"
    using preceding_bounds [OF m(1,2)] by blast+
  have "DaysFromYearMonth ?e m = days_before ?e + DaysPreceding ?e ! nat m - 719162"
    using e by (intro days_from_year_month m(1,2)) simp
  moreover have "days_before 2008 \<le> days_before ?e" "days_before (?e + 1) \<le> days_before 2036"
    using e by (auto intro: days_before_mono)
  moreover have "days_before 2008 = 733041" "days_before 2036 = 743268" by (simp_all add: days_before_def)
  ultimately show "13879 \<le> DaysFromYearMonth ?e m + d - 1" "DaysFromYearMonth ?e m + d - 1 \<le> 24105"
    using m(3,4) b days_before_next [of ?e] unfolding p by linarith+
qed

lemma equivalent_bounds:
  assumes "is_date (DaysFromTime t) y m d" "time_ok t"
  defines "e \<equiv> (DaysFromYearMonth (EquivalentYear y) m + d - 1) * kMsPerDay + (t - DaysFromTime t * kMsPerDay)"
  shows "0 \<le> e" "e div 1000 \<le> kMaxInt"
proof -
  let ?n = "DaysFromYearMonth (EquivalentYear y) m + d - 1"
  have "13879 * 86400000 \<le> ?n * 86400000" "?n * 86400000 \<le> 24105 * 86400000"
    using equivalent_range [OF assms(1)] by (auto intro: mult_right_mono)
  then show "0 \<le> e" using time_days(2) [OF assms(2)] unfolding e_def ms_per_day by linarith
  have "e < 2147483648 * 1000"
    using \<open>?n * 86400000 \<le> 24105 * 86400000\<close> time_days(3) [OF assms(2)] unfolding e_def ms_per_day by linarith
  with div_below [of 1000 e 2147483648] \<open>0 \<le> e\<close> show "e div 1000 \<le> kMaxInt" by (simp add: kMaxInt_def)
qed

section \<open>The whole cache\<close>

text \<open>The offset cache leaves the other fields alone.\<close>

definition calendar_of :: "date_cache \<Rightarrow> bool \<times> int \<times> int \<times> int \<times> int \<times> int" where
  "calendar_of c = (ymd_valid c, ymd_days c, ymd_year c, ymd_month c, ymd_day c, local_offset_ms c)"

lemma calendar_frames [simp]:
  "calendar_of (update_segment i f c) = calendar_of c" "calendar_of (use_segment i c) = calendar_of c"
  "calendar_of (swap_segments c) = calendar_of c" "calendar_of (forget_segments c) = calendar_of c"
  "calendar_of (c\<lparr>before_segment := b\<rparr>) = calendar_of c" "calendar_of (c\<lparr>after_segment := a\<rparr>) = calendar_of c"
  by (simp_all add: calendar_of_def use_segment_def update_segment_def swap_segments_def forget_segments_def Let_def)

lemma calendar_lru: "LeastRecentlyUsedDST skip c = (r, c') \<Longrightarrow> calendar_of c' = calendar_of c"
  by (auto simp: LeastRecentlyUsedDST_def split: option.splits)

lemma calendar_probe [simp]: "calendar_of (ProbeDST t c) = calendar_of c"
  unfolding ProbeDST_def Let_def by (auto split: prod.split option.split) (metis calendar_lru)+

lemma calendar_extend [simp]: "calendar_of (ExtendTheAfterSegment t off c) = calendar_of c"
  by (auto simp: ExtendTheAfterSegment_def Let_def split: prod.split dest: calendar_lru)

lemma calendar_search: "search_change isdst i t c = (off, c') \<Longrightarrow> calendar_of c' = calendar_of c"
  by (induction isdst i t c arbitrary: off c' rule: search_change.induct) (auto simp: Let_def split: if_splits)

lemma calendar_between: "offset_between isdst t c = (off, c') \<Longrightarrow> calendar_of c' = calendar_of c"
  by (auto simp: offset_between_def Let_def split: if_splits dest: calendar_search)

lemma calendar_offset: "offset_at isdst t c = (off, c') \<Longrightarrow> calendar_of c' = calendar_of c"
  by (auto simp: offset_at_def Let_def split: if_splits dest: calendar_between)

definition cache_inv :: "(int \<Rightarrow> int) \<Rightarrow> int \<Rightarrow> date_cache \<Rightarrow> bool" where
  "cache_inv isdst l c \<longleftrightarrow> cache_ok isdst c \<and> ymd_ok c \<and> (local_offset_ms c = kMaxInt \<or> local_offset_ms c = l)"

lemma cache_inv_offset:
  assumes "cache_inv isdst l c" "host_ok isdst" "0 \<le> t" "t \<le> kMaxInt"
  obtains c' where "offset_at isdst t c = (os_offset isdst t, c')" "cache_inv isdst l c'"
    "local_offset_ms c' = local_offset_ms c"
proof -
  obtain c' where c': "offset_at isdst t c = (os_offset isdst t, c')" "cache_ok isdst c'"
    using offset_at_spec [OF assms(2) _ assms(3,4)] assms(1) unfolding cache_inv_def by blast
  with calendar_offset [OF c'(1)] assms(1) have "cache_inv isdst l c'" "local_offset_ms c' = local_offset_ms c"
    by (simp_all add: cache_inv_def ymd_ok_def calendar_of_def)
  with c'(1) that show thesis by blast
qed

lemma cache_inv_date:
  assumes "cache_inv isdst l c" "time_ok t"
  obtains y m d c' where "YearMonthDayFromDays (DaysFromTime t) c = (Some (y, m, d), c')" "is_date (DaysFromTime t) y m d"
    "cache_inv isdst l c'" "local_offset_ms c' = local_offset_ms c"
proof -
  have "ymd_ok c" using assms(1) by (simp add: cache_inv_def)
  from date_spec [OF this time_days(1) [OF assms(2)]] obtain y m d c' where
    c': "YearMonthDayFromDays (DaysFromTime t) c = (Some (y, m, d), c')" "is_date (DaysFromTime t) y m d" "ymd_ok c'"
      "dst_segments c' = dst_segments c" "before_segment c' = before_segment c" "after_segment c' = after_segment c"
      "local_offset_ms c' = local_offset_ms c" by metis
  with assms(1) have "cache_inv isdst l c'" by (simp add: cache_inv_def cache_ok_def segment_def)
  with c' that show thesis by blast
qed

lemma sdiv_second: "0 \<le> t \<Longrightarrow> t sdiv 1000 = t div (1000 :: int)"
  by (simp add: signed_divide_int_def sgn_if)

lemma daylight_spec:
  assumes "cache_inv isdst l c" "host_ok isdst" "time_ok t"
  obtains c' where "DaylightSavingsOffsetInMs isdst t c = (Some (dst_at isdst t), c')" "cache_inv isdst l c'"
    "local_offset_ms c' = local_offset_ms c"
proof (cases "0 \<le> t \<and> t \<le> kMaxEpochTimeInMs")
  case True
  have "0 \<le> t div 1000" using True by (simp add: pos_imp_zdiv_nonneg_iff)
  moreover have "t < (kMaxInt + 1) * 1000" using True by (simp add: kMaxEpochTimeInMs_def kMaxInt_def)
  then have "t div 1000 < kMaxInt + 1" using div_below [of 1000 t "kMaxInt + 1"] True by simp
  then have "t div 1000 \<le> kMaxInt" by linarith
  ultimately obtain c' where "offset_at isdst (t div 1000) c = (os_offset isdst (t div 1000), c')" "cache_inv isdst l c'"
    "local_offset_ms c' = local_offset_ms c"
    using cache_inv_offset [OF assms(1,2), of "t div 1000"] by blast
  moreover have "DaylightSavingsOffsetInMs isdst t c = (case offset_at isdst (t div 1000) c of (off, c) \<Rightarrow> (Some off, c))"
    using True by (simp add: DaylightSavingsOffsetInMs_def sdiv_second)
  moreover have "dst_at isdst t = os_offset isdst (t div 1000)" using True by (simp add: dst_at_def host_second_def)
  ultimately show thesis using that by simp
next
  case False
  obtain y m d c1 where c1: "YearMonthDayFromDays (DaysFromTime t) c = (Some (y, m, d), c1)" "is_date (DaysFromTime t) y m d"
    "cache_inv isdst l c1" "local_offset_ms c1 = local_offset_ms c"
    by (rule cache_inv_date [OF assms(1,3)])
  define e where "e = (DaysFromYearMonth (EquivalentYear y) m + d - 1) * kMsPerDay + (t - DaysFromTime t * kMsPerDay)"
  note e = equivalent_bounds [OF c1(2) assms(3), folded e_def]
  obtain y' m' d' where y': "ymd_of_days (DaysFromTime t) = (y', Some (m', d'))" "is_date (DaysFromTime t) y' m' d'"
    using ymd_of_days_date [OF time_days(1) [OF assms(3)]] by blast
  have "equivalent_ms t = e"
    using y'(1) is_date_unique [OF y'(2) c1(2)] by (simp add: equivalent_ms_def e_def)
  then have "dst_at isdst t = os_offset isdst (e div 1000)" using False by (auto simp: dst_at_def host_second_def)
  moreover have "0 \<le> e div 1000" using e(1) by (simp add: pos_imp_zdiv_nonneg_iff)
  then obtain c' where "offset_at isdst (e div 1000) c1 = (os_offset isdst (e div 1000), c')" "cache_inv isdst l c'"
    "local_offset_ms c' = local_offset_ms c1"
    using cache_inv_offset [OF c1(3) assms(2) _ e(2)] by blast
  moreover have "DaylightSavingsOffsetInMs isdst t c = (case offset_at isdst (e div 1000) c1 of (off, c) \<Rightarrow> (Some off, c))"
    using c1(1) e(1) unfolding DaylightSavingsOffsetInMs_def if_not_P [OF False]
    by (simp add: EquivalentTime_def Let_def e_def [symmetric] sdiv_second)
  ultimately show thesis using that c1(4) by simp
qed

section \<open>The operations\<close>

lemma cache_inv_local:
  assumes "cache_inv isdst (os_local_offset now) c"
  obtains c' where "LocalOffsetInMs now c = (os_local_offset now, c')" "cache_inv isdst (os_local_offset now) c'"
proof -
  define c' where "c' = (if local_offset_ms c = kMaxInt then c\<lparr>local_offset_ms := os_local_offset now\<rparr> else c)"
  have "LocalOffsetInMs now c = (os_local_offset now, c') \<and> cache_inv isdst (os_local_offset now) c'"
    using assms by (auto simp: LocalOffsetInMs_def c'_def cache_inv_def ymd_ok_def cache_ok_def segment_def Let_def)
  with that show thesis by blast
qed

lemma to_local_spec:
  assumes "cache_inv isdst (os_local_offset now) c" "host_ok isdst" "time_ok t"
  obtains c' where "ToLocal isdst now t c = (Some (t + os_local_offset now + dst_at isdst t), c')"
    "cache_inv isdst (os_local_offset now) c'"
proof -
  obtain c1 where c1: "LocalOffsetInMs now c = (os_local_offset now, c1)" "cache_inv isdst (os_local_offset now) c1"
    by (rule cache_inv_local [OF assms(1)])
  from daylight_spec [OF c1(2) assms(2,3)] obtain c' where
    "DaylightSavingsOffsetInMs isdst t c1 = (Some (dst_at isdst t), c')" "cache_inv isdst (os_local_offset now) c'" by metis
  with c1(1) that show thesis by (simp add: ToLocal_def)
qed

lemma to_utc_spec:
  assumes "cache_inv isdst (os_local_offset now) c" "host_ok isdst" "time_ok (t - os_local_offset now - 3600000)"
  obtains c' where "ToUTC isdst now t c =
      (Some (t - os_local_offset now - dst_at isdst (t - os_local_offset now - 3600000)), c')"
    "cache_inv isdst (os_local_offset now) c'"
proof -
  obtain c1 where c1: "LocalOffsetInMs now c = (os_local_offset now, c1)" "cache_inv isdst (os_local_offset now) c1"
    by (rule cache_inv_local [OF assms(1)])
  from daylight_spec [OF c1(2) assms(2,3)] obtain c' where
    "DaylightSavingsOffsetInMs isdst (t - os_local_offset now - 3600000) c1 =
       (Some (dst_at isdst (t - os_local_offset now - 3600000)), c')" "cache_inv isdst (os_local_offset now) c'" by metis
  with c1(1) that show thesis by (simp add: ToUTC_def)
qed

lemma break_down_spec:
  assumes "cache_inv isdst l c" "time_ok t"
  obtains y m d c' where "BreakDownTime t c = (Some (y, m, d, Weekday (DaysFromTime t),
      (t mod 86400000) div 3600000, (t mod 86400000) div 60000 mod 60, (t mod 86400000) div 1000 mod 60, t mod 1000), c')"
    "is_date (DaysFromTime t) y m d" "cache_inv isdst l c'"
proof -
  from cache_inv_date [OF assms] obtain y m d c' where
    c': "YearMonthDayFromDays (DaysFromTime t) c = (Some (y, m, d), c')" "is_date (DaysFromTime t) y m d" "cache_inv isdst l c'"
    by metis
  define r where "r = t mod 86400000"
  have r: "t - t div 86400000 * 86400000 = r" "0 \<le> r" by (simp_all add: r_def minus_div_mult_eq_mod)
  have s: "x sdiv k = x div k" "x smod k = x mod k" if "0 \<le> x" "0 < k" for x k :: int
    using that by (simp_all add: signed_divide_int_def signed_modulo_int_def sgn_if abs_if minus_div_mult_eq_mod)
  have m: "r mod 1000 = t mod 1000" unfolding r_def by (rule mod_mod_cancel) simp
  have q: "0 \<le> r div 60000" "0 \<le> r div 1000" using r(2) by (simp_all add: pos_imp_zdiv_nonneg_iff)
  have "TimeInDay t (DaysFromTime t) = r" unfolding TimeInDay_def ms_per_day days_from_time r(1) ..
  moreover have "60 * 60 * 1000 = (3600000 :: int)" "60 * 1000 = (60000 :: int)" by simp_all
  moreover have "r sdiv 3600000 = r div 3600000" by (rule s(1) [OF r(2)]) simp
  moreover have "r sdiv 60000 = r div 60000" "r div 60000 smod 60 = r div 60000 mod 60"
    by (rule s(1) [OF r(2)], simp) (rule s(2) [OF q(1)], simp)
  moreover have "r sdiv 1000 = r div 1000" "r div 1000 smod 60 = r div 1000 mod 60"
    by (rule s(1) [OF r(2)], simp) (rule s(2) [OF q(2)], simp)
  moreover have "r smod 1000 = t mod 1000" unfolding m [symmetric] by (rule s(2) [OF r(2)]) simp
  ultimately have "BreakDownTime t c = (Some (y, m, d, Weekday (DaysFromTime t), r div 3600000, r div 60000 mod 60,
      r div 1000 mod 60, t mod 1000), c')"
    using c'(1) unfolding BreakDownTime_def by (simp only: Let_def prod.case option.case)
  with c' that show thesis unfolding r_def by blast
qed

section \<open>The caches a program can reach\<close>

inductive reachable :: "(int \<Rightarrow> int) \<Rightarrow> int \<times> int \<Rightarrow> date_cache \<Rightarrow> bool" for isdst now where
  new: "reachable isdst now new_DateCache"
| reset: "reachable isdst now c \<Longrightarrow> reachable isdst now (ResetDateCache c)"
| to_local: "reachable isdst now c \<Longrightarrow> time_ok t \<Longrightarrow> reachable isdst now (snd (ToLocal isdst now t c))"
| to_utc: "reachable isdst now c \<Longrightarrow> time_ok (t - os_local_offset now - 3600000) \<Longrightarrow>
    reachable isdst now (snd (ToUTC isdst now t c))"
| offset: "reachable isdst now c \<Longrightarrow> time_ok t \<Longrightarrow> reachable isdst now (snd (TimezoneOffset isdst now t c))"
| break_down: "reachable isdst now c \<Longrightarrow> time_ok t \<Longrightarrow> reachable isdst now (snd (BreakDownTime t c))"

lemma new_length: "length (dst_segments new_DateCache) = kDSTSize"
  by (simp add: new_DateCache_def ResetDateCache_def)

lemma reset_inv: "length (dst_segments c) = kDSTSize \<Longrightarrow> cache_inv isdst l (ResetDateCache c)"
  by (auto simp: cache_inv_def cache_ok_def ymd_ok_def ResetDateCache_def segment_def kDSTSize_def)

lemma new_inv: "cache_inv isdst l new_DateCache"
  unfolding new_DateCache_def by (rule reset_inv) simp

lemma reachable_inv:
  assumes "host_ok isdst"
  shows "reachable isdst now c \<Longrightarrow> cache_inv isdst (os_local_offset now) c"
proof (induction rule: reachable.induct)
  case new
  show ?case by (rule new_inv)
next
  case (reset c)
  then show ?case by (intro reset_inv) (simp add: cache_inv_def cache_ok_def)
next
  case (to_local c t)
  from to_local_spec [OF to_local.IH assms to_local.hyps(2)] show ?case by (metis snd_conv)
next
  case (to_utc c t)
  from to_utc_spec [OF to_utc.IH assms to_utc.hyps(2)] show ?case by (metis snd_conv)
next
  case (offset c t)
  from to_local_spec [OF offset.IH assms offset.hyps(2)] have "cache_inv isdst (os_local_offset now) (snd (ToLocal isdst now t c))"
    by (metis snd_conv)
  then show ?case by (simp add: TimezoneOffset_def split_beta)
next
  case (break_down c t)
  from break_down_spec [OF break_down.IH break_down.hyps(2)] show ?case by (metis snd_conv)
qed

inductive_cases reachable_step: "reachable isdst now c"

section \<open>The parts of a time\<close>

lemma dst_two: "dst_at isdst t = 0 \<or> dst_at isdst t = 3600000"
  by (simp add: dst_at_def os_offset_def)




section \<open>Properties\<close>

text \<open>A host with daylight saving time in one interval, for the witnesses.\<close>

definition one_summer :: "int \<Rightarrow> int" where
  "one_summer s = (if 1000000000 \<le> s \<and> s < 1010000000 then 1 else 0)"

lemma one_summer_ok: "host_ok one_summer"
  unfolding host_ok_def
proof (intro allI impI)
  fix a t b
  assume a: "0 \<le> a \<and> a \<le> t \<and> t \<le> b \<and> b \<le> kMaxInt \<and> b \<le> a + kDefaultDSTDeltaInSec \<and>
      os_offset one_summer a = os_offset one_summer b"
  then have "b \<le> a + 1641600" by (simp add: kDefaultDSTDeltaInSec_def kSecPerDay_def)
  with a show "os_offset one_summer t = os_offset one_summer a"
    by (auto simp: os_offset_def one_summer_def split: if_splits)
qed



text \<open>
  The local time of a time is converted back to it, but for the hour after daylight saving time ends,
  whose local times are taken for those of the hour before.
\<close>

theorem local_time_roundtrip:
  assumes "host_ok isdst" "reachable isdst now c" "time_ok t" "time_ok (t - 3600000)"
  shows "\<exists>l c'. ToLocal isdst now t c = (Some l, c') \<and>
    fst (ToUTC isdst now l c') =
      Some (if dst_at isdst t = 0 \<and> dst_at isdst (t - 3600000) \<noteq> 0 then t - 3600000 else t)"
proof -
  let ?l = "os_local_offset now"
  from to_local_spec [OF reachable_inv [OF assms(1,2)] assms(1,3)] obtain c' where
    c': "ToLocal isdst now t c = (Some (t + ?l + dst_at isdst t), c')" "cache_inv isdst ?l c'" by metis
  have s: "t + ?l + dst_at isdst t - ?l - 3600000 = (if dst_at isdst t = 0 then t - 3600000 else t)"
    using dst_two [of isdst t] by auto
  have "time_ok (t + ?l + dst_at isdst t - ?l - 3600000)" using assms(3,4) unfolding s by simp
  from to_utc_spec [OF c'(2) assms(1) this] have
    "fst (ToUTC isdst now (t + ?l + dst_at isdst t) c') =
       Some (t + ?l + dst_at isdst t - ?l - dst_at isdst (if dst_at isdst t = 0 then t - 3600000 else t))"
    unfolding s by (metis fst_conv)
  then show ?thesis using c'(1) dst_two [of isdst t] dst_two [of isdst "t - 3600000"] by auto
qed

theorem local_time_roundtrip_witness:
  "\<exists>l c'. ToLocal one_summer (7200, 0) 1005000000000 new_DateCache = (Some l, c') \<and>
     fst (ToUTC one_summer (7200, 0) l c') = Some 1005000000000"
  using local_time_roundtrip [OF one_summer_ok reachable.new, of 1005000000000 "(7200, 0)"]
  by (simp add: time_ok_def dst_at_def host_second_def kMaxEpochTimeInMs_def kMaxInt_def os_offset_def one_summer_def)



end
