(* ===== verification/Spec2Isabelle.thy ===== *)
theory Spec2Isabelle
  imports GlobSpec Multibase WebSocketProps LruSpec PathWin32 UcsCodec UriCodec QueryProps BufferProps ByteLengthSpec HttpProps DateProps LocalTime
begin

text \<open>
  A verification development for fibjs, the server-side JavaScript runtime written in C++
  (\<^verbatim>\<open>src/fibjs/src\<close>, with its headers in \<^verbatim>\<open>src/fibjs/include\<close>). The runtime is a set of classes that V8
  calls. The development models the parts in which fibjs computes by itself: the streams, the messages
  that are read from them and written to them, the texts and bytes they carry, the paths and patterns of
  the file system, and the caches and collections the other classes are built on.

  \<^bold>\<open>How the parts interact.\<close> A JavaScript program holds a stream. Below it is a source of bytes, a memory
  stream or a range of another stream; above it a \<open>BufferedStream\<close> gives lines, counted bytes and texts up
  to a marker; on top of that the messages of HTTP and of the WebSocket protocol are read, a chunked body
  being a stream over the buffered one. Headers, query strings, forms and cookies are collections of
  names and values, whose texts go through percent encoding. \<open>Buffer\<close> holds bytes and numbers; the
  Unicode conversions and the text codecs translate between them and strings. Paths and glob patterns
  are used by the file-system functions, the cache by the module loader.

  \<^bold>\<open>The theories.\<close> In each group the first theories hold the model, definition by definition what the named
  file has, and the last ones the specification and the properties.

  \<^item> \<open>Prelude\<close>, \<open>TextCodec\<close>, \<open>Streams\<close>: the shared lemmas, and the interfaces as locales: \<open>text_codec\<close> (what an
    encoder and its decoder promise), \<open>byte_source\<close> (a stream read piece by piece) and
    \<open>seekable_stream\<close> (a stream over fixed data), which gives the former.
  \<^item> \<open>GlobParser\<close>, \<open>GlobMatch\<close>, \<open>GlobSpec\<close>: \<^verbatim>\<open>src/fs/match\<close>, the tokenizer of glob patterns and the
    backtracking matcher. Shown, for the rules of POSIX outside macOS: on patterns without parentheses and
    braces the matcher decides a declarative acceptance relation over the tokens, and a pattern without
    special characters matches itself only; for every build: the matcher stays inside the text and ends.
  \<^item> \<open>HexCodec\<close>, \<open>BaseCodec\<close>, \<open>Multibase\<close>: \<^verbatim>\<open>src/encoding/encoding.cpp\<close>. Round trips, and the SSE2 loops give
    what the scalar loops give.
  \<^item> \<open>MemoryStream\<close>, \<open>RangeStream\<close>, \<open>BufferedStream\<close>, \<open>BufferedSpec\<close>, \<open>BufferedMarker\<close>, \<open>BufferedProps\<close>:
    \<^verbatim>\<open>src/io\<close>. An invariant of the reachable memory streams, the window a range shows, and that what a
    buffered stream returns depends on the unread text only, not on the pieces it comes in.
  \<^item> \<open>TextParser\<close>, \<open>CopyStream\<close>, \<open>ChunkedStream\<close>, \<open>ChunkedSpec\<close>, \<open>ChunkedProps\<close>: the cursor of
    \<^verbatim>\<open>include/parse.h\<close>, \<open>copyStream\<close> of \<^verbatim>\<open>src/io/io.cpp\<close> with the locale \<open>piece_source\<close> for what can be copied,
    and the chunked bodies of \<^verbatim>\<open>include/ChunkedStream.h\<close>: read back exactly, an error when they end between
    two chunks, never longer than the limit.
  \<^item> \<open>HttpMessage\<close>, \<open>HttpRequest\<close>: \<^verbatim>\<open>src/http/HttpMessage.cpp\<close>, \<^verbatim>\<open>HttpRequest.cpp\<close>, \<^verbatim>\<open>HttpResponse.cpp\<close> over
    \<^verbatim>\<open>src/mq/Message.cpp\<close>. \<open>HttpSpec\<close>, \<open>HttpWire\<close>, \<open>RequestSpec\<close>, \<open>ResponseSpec\<close>, \<open>HttpProps\<close>: what a message is
    on the wire. Requests and responses sent are read back, chunked bodies with their trailers, and a body
    sent with its length and cut short is an error.
  \<^item> \<open>WebSocketMessage\<close>, \<open>WebSocketSpec\<close>, \<open>WebSocketProps\<close>: \<^verbatim>\<open>src/websocket/WebSocketMessage.cpp\<close>. An
    uncompressed message with a body is sent and read back, masked or not, and fragments are joined.
  \<^item> \<open>LruCache\<close>, \<open>LruSpec\<close>: \<^verbatim>\<open>include/LruCache.h\<close> with its links as an explicit store. The structure stays
    sound in every reachable state, refines a list of entries by age, and no waiting coroutine is
    forgotten.
  \<^item> \<open>PathPosix\<close>, \<open>PathWin32\<close>, \<open>PathSpec\<close>: \<^verbatim>\<open>include/path.h\<close> and \<^verbatim>\<open>src/fs/path_*.cpp\<close>. \<open>normalize\<close>, \<open>resolve\<close> and
    \<open>relative\<close> agree with their meaning on lists of names.
  \<^item> \<open>Utf\<close>, \<open>UtfScan\<close>, \<open>UtfSpec\<close>, \<open>UtfProps\<close>, \<open>UcsCodec\<close>: \<^verbatim>\<open>src/base/utf8.cpp\<close> and
    \<^verbatim>\<open>src/encoding/encoding_conv_ucs.cpp\<close>. Round trips between the encoding forms and the room the
    conversions need.
  \<^item> \<open>UriCodec\<close>, \<open>HttpCollection\<close>, \<open>QueryString\<close>, \<open>CollectionSpec\<close>, \<open>QueryProps\<close>: percent encoding, the
    collections behind \<open>Headers\<close> and \<open>URLSearchParams\<close>, and query strings and cookies.
  \<^item> \<open>BufferOps\<close>, \<open>BufferRW\<close>, \<open>BufferProps\<close>, \<open>ByteLength\<close>, \<open>ByteLengthProps\<close>, \<open>ByteLengthSpec\<close>:
    \<^verbatim>\<open>src/global/Buffer.cpp\<close>. The integer methods round-trip, copies stay inside the buffers,
    and the vectorised byte length of a string is the length of its UTF-8 form.
  \<^item> \<open>Dates\<close>, \<open>DateSpec\<close>, \<open>DateText\<close>, \<open>DateProps\<close>: \<^verbatim>\<open>src/base/date.cpp\<close>. A date is a number of milliseconds, or
    none; the conversion from a local time is an argument. From the year 1 on the calendar is a bijection, the
    texts of HTTP and of the databases are read back, and months are added as on a calendar.
  \<^item> \<open>DateCache\<close>, \<open>DateCacheSpec\<close>, \<open>DateCacheDays\<close>, \<open>LocalTime\<close>: \<^verbatim>\<open>src/base/date_cache.cpp\<close> on a POSIX host, the
    local time behind those texts. Through every sequence of calls the cache gives what the host gives, and
    its calendar is the one of \<^verbatim>\<open>date.cpp\<close>.

  \<^bold>\<open>How the code is represented.\<close> A class is a record with the names of its fields; a method that changes it
  returns the new record; \<open>result_t\<close> is a sum or the type \<open>reply\<close>, with \<open>return_null\<close> as a value of its own.
  An asynchronous method is the sequence of its states, run to the end: what other coroutines do in
  between to the same object is not modelled. A call that may wait for ever has no value (\<open>None\<close> of a
  partial function); that it returns is then a part of the theorem. Strings are lists of bytes;
  machine integers are words, or integers with their casts written out, where their width matters.

  \<^bold>\<open>Parameters and bounds.\<close> What is not under \<^verbatim>\<open>src/\<close> is an argument: simdutf (locale \<open>transcoder\<close>, its
  documented behaviour), zlib, iconv, the working directory, the time zone, the byte order and the vector unit
  of the host. Lengths are below 2 GiB where the code keeps them in 32 bits. Loops are structural, have a
  termination proof, or are partial functions; only \<open>repeat_loop\<close> of the glob matcher takes fuel, one turn more
  than the text has characters, and \<open>glob_repeat_terminates\<close> shows that more changes nothing.

  \<^bold>\<open>Not modelled.\<close> The bindings to V8 and to the libraries the runtime calls (OpenSSL, libuv, libev, nghttp2,
  SQLite, PCRE, ICU), the coroutine scheduler, devices and processes, and vendored or generated code. The
  list of components names each of them with its reason.
\<close>

end
